(* ===== verification/Prelude.thy ===== *)
theory Prelude
  imports Main "HOL-Library.AList" "HOL-Library.Char_ord" "HOL-Library.Multiset"
begin

text \<open>
  Shared ground of the development: the JavaScript values the program computes with, as HOL data.
  A JavaScript string, and a Node \<open>Buffer\<close>, is a list of 8-bit code units (\<open>char\<close>); a \<open>Set\<close> is
  a distinct list in insertion order; a plain object used as a dictionary is an association list
  in insertion order whose enumeration (\<open>Object.entries\<close>) puts the array-index keys first, in
  ascending order, as ECMAScript prescribes. Every operation on these values that the sources use
  is defined here once, with the simplification rules the component theories share.
\<close>

named_theorems js_simps \<open>evaluation rules of the JavaScript value layer\<close>

section \<open>Strings\<close>

definition js_ws :: "char \<Rightarrow> bool" where
  \<comment> \<open>the 8-bit code units that \<open>trim()\<close> and \<open>\s\<close> treat as white space or line ends\<close>
  "js_ws c \<longleftrightarrow> of_char c \<in> {9, 10, 11, 12, 13, 32, 160 :: nat}"

definition digit :: "char \<Rightarrow> bool" where
  "digit c \<longleftrightarrow> 48 \<le> (of_char c :: nat) \<and> (of_char c :: nat) \<le> 57"

definition trim :: "string \<Rightarrow> string" where
  "trim s = rev (dropWhile js_ws (rev (dropWhile js_ws s)))"

definition nl :: char where "nl = CHR 0x0A"
definition cr :: char where "cr = CHR 0x0D"

fun split_on :: "'a \<Rightarrow> 'a list \<Rightarrow> 'a list list" where
  "split_on c [] = [[]]"
| "split_on c (x # xs) =
     (if x = c then [] # split_on c xs
      else (case split_on c xs of y # ys \<Rightarrow> (x # y) # ys | [] \<Rightarrow> [[x]]))"

fun join :: "'a list \<Rightarrow> 'a list list \<Rightarrow> 'a list" where
  "join sep [] = []"
| "join sep [x] = x"
| "join sep (x # y # ys) = x @ sep @ join sep (y # ys)"

fun find_sub :: "'a list \<Rightarrow> 'a list \<Rightarrow> nat option" where
  "find_sub p [] = (if p = [] then Some 0 else None)"
| "find_sub p (x # s) =
     (if take (length p) (x # s) = p then Some 0 else map_option Suc (find_sub p s))"

definition index_of :: "'a list \<Rightarrow> 'a list \<Rightarrow> nat \<Rightarrow> int" where
  \<comment> \<open>\<open>s.indexOf(p, from)\<close>: -1 when there is no occurrence\<close>
  "index_of p s i = (case find_sub p (drop i s) of None \<Rightarrow> - 1 | Some k \<Rightarrow> int (i + k))"

definition str_includes :: "'a list \<Rightarrow> 'a list \<Rightarrow> bool" where
  "str_includes s p = (find_sub p s \<noteq> None)"

definition starts_with :: "'a list \<Rightarrow> 'a list \<Rightarrow> bool" where
  "starts_with s p = (take (length p) s = p)"

definition nat_of_digits :: "string \<Rightarrow> nat" where
  "nat_of_digits s = foldl (\<lambda>n c. 10 * n + (of_char c - 48)) 0 s"

fun digits_of_nat :: "nat \<Rightarrow> string" where
  \<comment> \<open>\<open>String(n)\<close> of a non-negative integer\<close>
  "digits_of_nat n = (if n < 10 then [char_of (48 + n)]
     else digits_of_nat (n div 10) @ [char_of (48 + n mod 10)])"

declare digits_of_nat.simps [simp del]

lemma join_Cons: "ys \<noteq> [] \<Longrightarrow> join sep (x # ys) = x @ sep @ join sep ys"
  by (cases ys) auto

lemma join_singleton_sep: "join sep (xs @ [x]) = (if xs = [] then x else join sep xs @ sep @ x)"
proof (induction xs)
  case (Cons y ys)
  then show ?case by (cases ys) auto
qed simp

lemma split_on_not_Nil [simp]: "split_on c s \<noteq> []"
  by (cases s) (auto split: list.split)

lemma split_on_no_sep: "c \<notin> set s \<Longrightarrow> split_on c s = [s]"
  by (induction s) auto

lemma join_split_on [simp]: "join [c] (split_on c s) = s"
proof (induction s)
  case (Cons x xs)
  show ?case
  proof (cases "x = c")
    case True
    with Cons show ?thesis by (simp add: join_Cons)
  next
    case False
    with Cons show ?thesis
      by (cases "split_on c xs"; cases "tl (split_on c xs)") auto
  qed
qed simp

lemma split_on_append_sep: "c \<notin> set x \<Longrightarrow> split_on c (x @ c # s) = x # split_on c s"
  by (induction x) auto

lemma split_on_join:
  "xs \<noteq> [] \<Longrightarrow> \<forall>x \<in> set xs. c \<notin> set x \<Longrightarrow> split_on c (join [c] xs) = xs"
proof (induction xs)
  case (Cons x xs)
  then show ?case
    by (cases xs) (simp_all add: split_on_no_sep split_on_append_sep)
qed simp

lemma trim_Nil [simp]: "trim [] = []"
  by (simp add: trim_def)

lemma dropWhile_hd_id: "s = [] \<or> \<not> P (hd s) \<Longrightarrow> dropWhile P s = s"
  by (cases s) auto

lemma trim_id: "\<not> js_ws (hd s) \<Longrightarrow> \<not> js_ws (last s) \<Longrightarrow> trim s = s"
  by (simp add: trim_def dropWhile_hd_id hd_rev)

lemma find_sub_Some:
  "find_sub p s = Some k \<Longrightarrow> take (length p) (drop k s) = p"
proof (induction p s arbitrary: k rule: find_sub.induct)
  case (2 p x s)
  then show ?case by (auto split: if_splits)
qed (simp split: if_splits)

lemma find_sub_bound: "find_sub p s = Some k \<Longrightarrow> k + length p \<le> length s"
proof (induction p s arbitrary: k rule: find_sub.induct)
  case (2 p x s)
  show ?case
  proof (cases "take (length p) (x # s) = p")
    case True
    then have "length p = min (length p) (length (x # s))" by (metis length_take min.commute)
    with True 2 show ?thesis by simp
  next
    case False
    with 2 show ?thesis by auto
  qed
qed (simp split: if_splits)

lemma find_sub_None: "find_sub p s = None \<Longrightarrow> s \<noteq> xs @ p @ ys"
proof (induction p s arbitrary: xs rule: find_sub.induct)
  case (2 p x s)
  then have *: "take (length p) (x # s) \<noteq> p" "find_sub p s = None" by (auto split: if_splits)
  show ?case
  proof (cases xs)
    case Nil
    with *(1) show ?thesis by auto
  next
    case (Cons a list)
    with 2 * show ?thesis by auto
  qed
qed (simp split: if_splits)

lemma find_sub_least:
  "find_sub p s = Some k \<Longrightarrow> j < k \<Longrightarrow> take (length p) (drop j s) \<noteq> p"
proof (induction p s arbitrary: j k rule: find_sub.induct)
  case (2 p x s)
  then show ?case
    by (cases j) (auto split: if_splits)
qed (auto split: if_splits)

section \<open>Searching\<close>

lemma index_of_bounds:
  "index_of p s i = r \<Longrightarrow> r \<noteq> - 1 \<Longrightarrow>
   int i \<le> r \<and> nat r + length p \<le> length s \<or> i > length s"
  by (auto simp: index_of_def split: option.splits dest: find_sub_bound)

lemma index_of_range:
  assumes "index_of p s i = r" and "r \<noteq> - 1" and "i \<le> length s"
  shows "int i \<le> r" and "i \<le> nat r" and "nat r + length p \<le> length s"
    and "take (length p) (drop (nat r) s) = p"
proof -
  from assms(1,2) obtain k where k: "find_sub p (drop i s) = Some k" "r = int (i + k)"
    by (auto simp: index_of_def split: option.splits)
  from find_sub_bound [OF k(1)] find_sub_Some [OF k(1)] assms(3) k(2)
  show "int i \<le> r" "i \<le> nat r" "nat r + length p \<le> length s"
    "take (length p) (drop (nat r) s) = p"
    by (simp_all add: add.commute nat_int_add)
qed

lemma index_of_before:
  "index_of p s i = r \<Longrightarrow> i \<le> j \<Longrightarrow> r = - 1 \<and> j + length p \<le> length s \<or> r \<noteq> - 1 \<and> int j < r \<Longrightarrow>
   take (length p) (drop j s) \<noteq> p"
proof -
  assume r: "index_of p s i = r" and ij: "i \<le> j"
    and c: "r = - 1 \<and> j + length p \<le> length s \<or> r \<noteq> - 1 \<and> int j < r"
  have dd: "drop (j - i) (drop i s) = drop j s" using ij by simp
  show ?thesis
  proof (cases "find_sub p (drop i s)")
    case None
    show ?thesis
    proof
      assume "take (length p) (drop j s) = p"
      then have "drop i s = take (j - i) (drop i s) @ p @ drop (length p) (drop j s)"
        by (metis append_take_drop_id dd)
      with find_sub_None [OF None] show False by blast
    qed
  next
    case (Some k)
    with r c have "j - i < k" using ij by (auto simp: index_of_def)
    from find_sub_least [OF Some this] show ?thesis unfolding dd .
  qed
qed

lemma index_of_unique:
  assumes "i \<le> j" and "take (length p) (drop j s) = p" and "p \<noteq> []"
    and "\<And>k. i \<le> k \<Longrightarrow> k < j \<Longrightarrow> take (length p) (drop k s) \<noteq> p"
  shows "index_of p s i = int j"
proof (cases "find_sub p (drop i s)")
  case None
  have "j + length p \<le> length s"
  proof -
    have "length (take (length p) (drop j s)) = length p" using assms(2) by simp
    then show ?thesis using assms(3) by (cases p) auto
  qed
  with None assms(1,2) index_of_before [of p s i "- 1" j] show ?thesis
    by (simp add: index_of_def)
next
  case (Some k)
  from find_sub_Some [OF Some] have k: "take (length p) (drop (i + k) s) = p"
    by (simp add: add.commute)
  have "\<not> i + k < j" using assms(4) [of "i + k"] k by auto
  moreover have "\<not> j < i + k"
  proof
    assume "j < i + k"
    then have "j - i < k" using assms(1) by simp
    from find_sub_least [OF Some this] show False using assms(1,2) by (simp add: drop_drop)
  qed
  ultimately show ?thesis using Some by (simp add: index_of_def)
qed

lemma index_of_later:
  assumes r: "index_of p s i = r" and ij: "i \<le> j" and c: "r = - 1 \<or> int j \<le> r"
    and p: "p \<noteq> []" and i: "i \<le> length s"
  shows "index_of p s j = r"
proof (cases "r = - 1")
  case True
  show ?thesis
  proof (rule ccontr)
    assume "index_of p s j \<noteq> r"
    with True obtain k where k: "find_sub p (drop j s) = Some k"
      by (auto simp: index_of_def split: option.splits)
    then have "take (length p) (drop (j + k) s) = p"
      using find_sub_Some [OF k] by (simp add: add.commute)
    moreover have "j + k + length p \<le> length s"
      using find_sub_bound [OF k] p by (cases "j \<le> length s") auto
    ultimately show False
      using index_of_before [OF r, of "j + k"] True ij by simp
  qed
next
  case False
  from index_of_range [OF r False i] have "take (length p) (drop (nat r) s) = p" by simp
  moreover have "\<And>k. j \<le> k \<Longrightarrow> k < nat r \<Longrightarrow> take (length p) (drop k s) \<noteq> p"
    using index_of_before [OF r] ij False by auto
  ultimately have "index_of p s j = int (nat r)"
    using c False by (intro index_of_unique [OF _ _ p]) auto
  then show ?thesis using c False by simp
qed

section \<open>Sets in insertion order\<close>

definition js_add :: "'a \<Rightarrow> 'a list \<Rightarrow> 'a list" where
  \<comment> \<open>\<open>s.add(x)\<close>\<close>
  "js_add x s = (if x \<in> set s then s else s @ [x])"

definition js_delete :: "'a \<Rightarrow> 'a list \<Rightarrow> 'a list" where
  \<comment> \<open>\<open>s.delete(x)\<close>\<close>
  "js_delete x s = filter (\<lambda>y. y \<noteq> x) s"

definition js_set_of :: "'a list \<Rightarrow> 'a list" where
  \<comment> \<open>\<open>new Set(xs)\<close>: the first occurrence of each element, in order\<close>
  "js_set_of xs = fold js_add xs []"

lemma set_js_add [simp]: "set (js_add x s) = insert x (set s)"
  by (auto simp: js_add_def)

lemma distinct_js_add [simp]: "distinct (js_add x s) = distinct s"
  by (auto simp: js_add_def)

lemma set_js_delete [simp]: "set (js_delete x s) = set s - {x}"
  by (auto simp: js_delete_def)

lemma distinct_js_delete: "distinct s \<Longrightarrow> distinct (js_delete x s)"
  by (simp add: js_delete_def)

lemma set_fold_js_add [simp]: "set (fold js_add xs s) = set s \<union> set xs"
  by (induction xs arbitrary: s) auto

lemma distinct_fold_js_add [simp]: "distinct (fold js_add xs s) = distinct s"
  by (induction xs arbitrary: s) auto

lemma set_js_set_of [simp]: "set (js_set_of xs) = set xs"
  by (simp add: js_set_of_def)

lemma distinct_js_set_of [simp]: "distinct (js_set_of xs)"
  by (simp add: js_set_of_def)

lemma fold_js_add_disjoint:
  "distinct xs \<Longrightarrow> set xs \<inter> set s = {} \<Longrightarrow> fold js_add xs s = s @ xs"
  by (induction xs arbitrary: s) (auto simp: js_add_def)

lemma js_set_of_distinct: "distinct xs \<Longrightarrow> js_set_of xs = xs"
  by (simp add: js_set_of_def fold_js_add_disjoint)

section \<open>Objects used as dictionaries\<close>

type_synonym 'v jsobj = "(string \<times> 'v) list"

definition obj_get :: "'v jsobj \<Rightarrow> string \<Rightarrow> 'v option" where
  "obj_get ob k = map_of ob k"

definition obj_put :: "string \<Rightarrow> 'v \<Rightarrow> 'v jsobj \<Rightarrow> 'v jsobj" where
  \<comment> \<open>\<open>o[k] = v\<close>: in place when the key is present, at the end otherwise\<close>
  "obj_put k v ob = AList.update k v ob"

definition is_array_index :: "string \<Rightarrow> bool" where
  \<comment> \<open>canonical decimal of an integer below \<open>2^32 - 1\<close>\<close>
  "is_array_index k \<longleftrightarrow> k \<noteq> [] \<and> list_all digit k \<and> (hd k \<noteq> CHR ''0'' \<or> k = ''0'')
     \<and> int (nat_of_digits k) < 4294967295"

definition obj_entries :: "'v jsobj \<Rightarrow> (string \<times> 'v) list" where
  \<comment> \<open>\<open>Object.entries(o)\<close>: array-index keys ascending, then the others in insertion order\<close>
  "obj_entries ob = sort_key (\<lambda>e. nat_of_digits (fst e)) (filter (\<lambda>e. is_array_index (fst e)) ob)
     @ filter (\<lambda>e. \<not> is_array_index (fst e)) ob"

definition obj_keys :: "'v jsobj \<Rightarrow> string list" where
  "obj_keys ob = map fst (obj_entries ob)"

definition obj_values :: "'v jsobj \<Rightarrow> 'v list" where
  "obj_values ob = map snd (obj_entries ob)"

definition obj_merge :: "'v jsobj \<Rightarrow> 'v jsobj \<Rightarrow> 'v jsobj" where
  \<comment> \<open>\<open>{ ...a, ...b }\<close> and \<open>Object.assign(a, b)\<close>\<close>
  "obj_merge a b = fold (\<lambda>(k, v). obj_put k v) (obj_entries b) a"

definition obj_spread :: "'v jsobj \<Rightarrow> 'v jsobj \<Rightarrow> 'v jsobj" where
  \<comment> \<open>\<open>{ ...a, ...b }\<close>: a fresh object\<close>
  "obj_spread a b = obj_merge (obj_merge [] a) b"

definition obj_push :: "string \<Rightarrow> 'v \<Rightarrow> 'v list jsobj \<Rightarrow> 'v list jsobj" where
  \<comment> \<open>\<open>(o[k] ??= []).push(v)\<close>\<close>
  "obj_push k v ob = obj_put k ((case obj_get ob k of None \<Rightarrow> [] | Some vs \<Rightarrow> vs) @ [v]) ob"

lemma obj_get_Nil [simp]: "obj_get [] k = None"
  by (simp add: obj_get_def)

lemma obj_get_put [simp]: "obj_get (obj_put k v ob) k' = (if k' = k then Some v else obj_get ob k')"
  by (simp add: obj_get_def obj_put_def update_conv')

lemma obj_get_push: "obj_get (obj_push k v ob) k' =
   (if k' = k then Some ((case obj_get ob k of None \<Rightarrow> [] | Some vs \<Rightarrow> vs) @ [v]) else obj_get ob k')"
  by (simp add: obj_push_def)

lemma obj_put_new: "k \<notin> fst ` set ob \<Longrightarrow> obj_put k v ob = ob @ [(k, v)]"
  unfolding obj_put_def by (induction ob) auto

lemma obj_put_distinct: "distinct (map fst ob) \<Longrightarrow> distinct (map fst (obj_put k v ob))"
  by (simp add: obj_put_def distinct_update)

lemma fold_keeps: "P a \<Longrightarrow> (\<And>x b. P b \<Longrightarrow> P (f x b)) \<Longrightarrow> P (fold f xs a)"
  by (induction xs arbitrary: a) auto

lemma obj_put_keys: "fst ` set (obj_put k v ob) = insert k (fst ` set ob)"
  by (simp add: obj_put_def dom_update)

lemma set_obj_put: "set (obj_put k v ob) \<subseteq> insert (k, v) (set ob)"
  unfolding obj_put_def by (induction ob) auto

lemma set_obj_entries [simp]: "set (obj_entries ob) = set ob"
  by (auto simp: obj_entries_def)

lemma set_obj_keys [simp]: "set (obj_keys ob) = fst ` set ob"
  by (simp add: obj_keys_def)

lemma set_obj_values [simp]: "set (obj_values ob) = snd ` set ob"
  by (simp add: obj_values_def)

lemma mset_obj_entries: "mset (obj_entries ob) = mset ob"
  by (simp add: obj_entries_def flip: multiset_partition)

lemma distinct_obj_keys [simp]: "distinct (obj_keys ob) = distinct (map fst ob)"
  by (metis mset_obj_entries mset_map mset_eq_imp_distinct_iff obj_keys_def)

lemma length_obj_entries [simp]: "length (obj_entries ob) = length ob"
  using mset_obj_entries by (rule mset_eq_length)

lemma map_of_obj_entries:
  "distinct (map fst ob) \<Longrightarrow> map_of (obj_entries ob) = map_of ob"
  by (metis distinct_obj_keys map_of_inject_set obj_keys_def set_obj_entries)

lemma obj_entries_get: "distinct (map fst ob) \<Longrightarrow> (k, v) \<in> set ob \<longleftrightarrow> obj_get ob k = Some v"
  by (simp add: obj_get_def)

lemma fold_put_get:
  "distinct (map fst es) \<Longrightarrow>
   obj_get (fold (\<lambda>(k, v). obj_put k v) es a) k =
     (case map_of es k of Some v \<Rightarrow> Some v | None \<Rightarrow> obj_get a k)"
proof (induction es arbitrary: a)
  case (Cons e es)
  obtain k' v' where e: "e = (k', v')" by (cases e)
  with Cons.prems have "map_of es k' = None" by (simp add: map_of_eq_None_iff)
  with Cons e show ?case by (simp split: option.split)
qed simp

lemma obj_merge_get:
  "distinct (map fst b) \<Longrightarrow>
   obj_get (obj_merge a b) k = (case obj_get b k of Some v \<Rightarrow> Some v | None \<Rightarrow> obj_get a k)"
  using fold_put_get [of "obj_entries b" a k]
  by (simp add: obj_merge_def map_of_obj_entries obj_get_def) (metis distinct_obj_keys obj_keys_def)

lemma obj_merge_distinct: "distinct (map fst a) \<Longrightarrow> distinct (map fst (obj_merge a b))"
proof -
  have "distinct (map fst a) \<Longrightarrow> distinct (map fst (fold (\<lambda>(k, v). obj_put k v) es a))" for es
    by (induction es arbitrary: a) (auto simp: obj_put_distinct)
  then show "distinct (map fst a) \<Longrightarrow> ?thesis" by (simp add: obj_merge_def)
qed

lemma obj_spread_distinct [simp]: "distinct (map fst (obj_spread a b))"
  by (simp add: obj_spread_def obj_merge_distinct)

lemma obj_spread_get:
  "distinct (map fst a) \<Longrightarrow> distinct (map fst b) \<Longrightarrow>
   obj_get (obj_spread a b) k = (case obj_get b k of Some v \<Rightarrow> Some v | None \<Rightarrow> obj_get a k)"
  by (simp add: obj_spread_def obj_merge_get split: option.split)

section \<open>Lists\<close>

definition slice :: "nat \<Rightarrow> nat \<Rightarrow> 'a list \<Rightarrow> 'a list" where
  \<comment> \<open>\<open>b.subarray(lo, hi)\<close> for \<open>0 \<le> lo\<close>, \<open>0 \<le> hi\<close>: both ends are clamped to the length\<close>
  "slice lo hi xs = drop lo (take hi xs)"

lemma length_slice [simp]: "length (slice lo hi xs) = min hi (length xs) - lo"
  by (simp add: slice_def)

lemma slice_append: "a \<le> b \<Longrightarrow> b \<le> c \<Longrightarrow> slice a b xs @ slice b c xs = slice a c xs"
proof (rule nth_equalityI)
  assume "a \<le> b" "b \<le> c"
  then show "length (slice a b xs @ slice b c xs) = length (slice a c xs)" by simp
  fix i
  assume "i < length (slice a b xs @ slice b c xs)"
  then show "(slice a b xs @ slice b c xs) ! i = slice a c xs ! i"
    using \<open>a \<le> b\<close> \<open>b \<le> c\<close> by (auto simp: slice_def nth_append add.commute)
qed

fun option_or :: "'a option \<Rightarrow> 'a option \<Rightarrow> 'a option" where
  \<comment> \<open>the \<open>??\<close> operator\<close>
  "option_or None b = b"
| "option_or (Some a) b = Some a"

lemma option_or_None [simp]: "option_or a None = a"
  by (cases a) auto

definition or_nil :: "'a list option \<Rightarrow> 'a list" where
  \<comment> \<open>\<open>x ?? []\<close>\<close>
  "or_nil x = (case x of None \<Rightarrow> [] | Some xs \<Rightarrow> xs)"

lemma or_nil_simps [simp]: "or_nil None = []" "or_nil (Some xs) = xs"
  by (simp_all add: or_nil_def)

section \<open>Grouping\<close>

definition group_add :: "('a \<Rightarrow> 'k) \<Rightarrow> 'a \<Rightarrow> ('k \<times> 'a list) list \<Rightarrow> ('k \<times> 'a list) list" where
  \<comment> \<open>\<open>if (!m.has(k)) m.set(k, []); m.get(k).push(x)\<close> on a \<open>Map\<close>\<close>
  "group_add key x groups = AList.update (key x) (or_nil (map_of groups (key x)) @ [x]) groups"

lemma update_map:
  "distinct ks \<Longrightarrow> AList.update k v (map (\<lambda>j. (j, f j)) ks) =
     (if k \<in> set ks then map (\<lambda>j. (j, if j = k then v else f j)) ks else map (\<lambda>j. (j, f j)) ks @ [(k, v)])"
  by (induction ks) auto

lemma group_by_spec:
  "fold (group_add key) xs [] = map (\<lambda>k. (k, filter (\<lambda>x. key x = k) xs)) (js_set_of (map key xs))"
proof (induction xs rule: rev_induct)
  case (snoc x xs)
  let ?ks = "js_set_of (map key xs)"
  have ks: "js_set_of (map key (xs @ [x])) = js_add (key x) ?ks" by (simp add: js_set_of_def)
  have get: "map_of (map (\<lambda>k. (k, filter (\<lambda>x. key x = k) xs)) ?ks) (key x)
      = (if key x \<in> set ?ks then Some (filter (\<lambda>y. key y = key x) xs) else None)"
    by (simp add: map_of_map_restrict)
  have new: "filter (\<lambda>y. key y = key x) xs = []" if "key x \<notin> set ?ks"
    using that by (auto simp: filter_empty_conv) (metis image_eqI)
  have "fold (group_add key) (xs @ [x]) [] = AList.update (key x) (filter (\<lambda>y. key y = key x) (xs @ [x]))
      (map (\<lambda>k. (k, filter (\<lambda>x. key x = k) xs)) ?ks)"
    using new by (simp add: snoc.IH group_add_def get)
  also have "\<dots> = map (\<lambda>k. (k, filter (\<lambda>y. key y = k) (xs @ [x]))) (js_add (key x) ?ks)"
    using new by (subst update_map) (auto simp: js_add_def)
  finally show ?case using ks by simp
qed (simp add: js_set_of_def)

section \<open>Decimal text of a number\<close>

lemma nat_of_digits_snoc: "nat_of_digits (s @ [c]) = 10 * nat_of_digits s + (of_char c - 48)"
  by (simp add: nat_of_digits_def)

lemma nat_of_digits_of_nat: "nat_of_digits (digits_of_nat n) = n"
proof (induction n rule: digits_of_nat.induct)
  case (1 n)
  have d: "of_char (char_of (48 + k) :: char) - 48 = k" if "k < 10" for k :: nat
    using that by simp
  show ?case
  proof (cases "n < 10")
    case True
    then show ?thesis using d [of n] by (subst digits_of_nat.simps) (simp add: nat_of_digits_def)
  next
    case False
    then show ?thesis using 1 d [of "n mod 10"]
      by (subst digits_of_nat.simps) (simp add: nat_of_digits_snoc)
  qed
qed

lemma digits_of_nat_digits: "digits_of_nat n \<noteq> [] \<and> list_all digit (digits_of_nat n)"
proof (induction n rule: digits_of_nat.induct)
  case (1 n)
  have d: "digit (char_of (48 + k))" if "k < 10" for k :: nat
    using that by (simp add: digit_def)
  show ?case
  proof (cases "n < 10")
    case True
    then show ?thesis using d [of n] by (subst (1 2) digits_of_nat.simps) simp
  next
    case False
    then show ?thesis using 1 d [of "n mod 10"] by (subst (1 2) digits_of_nat.simps) simp
  qed
qed

lemma inj_digits_of_nat: "inj digits_of_nat"
  by (rule inj_on_inverseI [of _ nat_of_digits]) (rule nat_of_digits_of_nat)

section \<open>Search in a list\<close>

fun index_where :: "('a \<Rightarrow> bool) \<Rightarrow> 'a list \<Rightarrow> nat option" where
  \<comment> \<open>\<open>xs.findIndex(P)\<close>, None for -1\<close>
  "index_where P [] = None"
| "index_where P (x # xs) = (if P x then Some 0 else map_option Suc (index_where P xs))"

lemma index_where_Some: "index_where P xs = Some i \<Longrightarrow> i < length xs \<and> P (xs ! i) \<and> (\<forall>j<i. \<not> P (xs ! j))"
proof (induction xs arbitrary: i)
  case (Cons x xs)
  show ?case
  proof (cases "P x")
    case False
    then obtain k where k: "index_where P xs = Some k" "i = Suc k" using Cons.prems by auto
    then show ?thesis using Cons.IH [OF k(1)] False by (auto simp: less_Suc_eq_0_disj)
  qed (use Cons.prems in auto)
qed simp

lemma index_where_None: "index_where P xs = None \<longleftrightarrow> (\<forall>x\<in>set xs. \<not> P x)"
  by (induction xs) auto

definition without_nth :: "nat \<Rightarrow> 'a list \<Rightarrow> 'a list" where
  \<comment> \<open>\<open>xs\<close> after its entry \<open>i\<close> is gone\<close>
  "without_nth i xs = take i xs @ drop (Suc i) xs"

lemma mset_without_nth: "i < length xs \<Longrightarrow> mset xs = add_mset (xs ! i) (mset (without_nth i xs))"
  by (metis id_take_nth_drop mset.simps(2) mset_append union_mset_add_mset_right without_nth_def)

lemma set_without_nth: "i < length xs \<Longrightarrow> set xs = insert (xs ! i) (set (without_nth i xs))"
  by (metis mset_without_nth set_mset_add_mset_insert set_mset_mset)

lemma sorted_wrt_without_nth:
  assumes "i < length xs" "sorted_wrt R xs"
  shows "sorted_wrt R (without_nth i xs)" "x \<in> set (without_nth i xs) \<Longrightarrow> R x (xs ! i) \<or> R (xs ! i) x"
proof -
  have "sorted_wrt R (take i xs @ xs ! i # drop (Suc i) xs)" using assms id_take_nth_drop [OF assms(1)] by simp
  then show "sorted_wrt R (without_nth i xs)" "x \<in> set (without_nth i xs) \<Longrightarrow> R x (xs ! i) \<or> R (xs ! i) x"
    by (auto simp: sorted_wrt_append without_nth_def)
qed

lemma mem_map_filter: "y \<in> set (List.map_filter f xs) \<longleftrightarrow> (\<exists>x\<in>set xs. f x = Some y)"
  by (induction xs) (auto simp: List.map_filter_def)

section \<open>Event-driven components\<close>

fun run_machine :: "('e \<Rightarrow> 's \<Rightarrow> bool) \<Rightarrow> ('e \<Rightarrow> 's \<Rightarrow> 's) \<Rightarrow> 'e list \<Rightarrow> 's \<Rightarrow> 's option" where
  \<comment> \<open>the state after the events, None when one of them could not arrive\<close>
  "run_machine enabled step [] s = Some s"
| "run_machine enabled step (e # es) s = (if enabled e s then run_machine enabled step es (step e s) else None)"

lemma case_Some_ex: "(case x of Some s \<Rightarrow> P s | None \<Rightarrow> False) \<Longrightarrow> \<exists>s. x = Some s \<and> P s"
  by (cases x) auto

lemma run_machine_append:
  "run_machine enabled step (es @ fs) s = Option.bind (run_machine enabled step es s) (run_machine enabled step fs)"
  by (induction es arbitrary: s) auto

lemma run_machine_keeps:
  assumes "\<And>e s. P s \<Longrightarrow> enabled e s \<Longrightarrow> P (step e s)" "P s" "run_machine enabled step es s = Some s'"
  shows "P s'"
  using assms(2,3)
proof (induction es arbitrary: s)
  case (Cons e es)
  then have "enabled e s" "run_machine enabled step es (step e s) = Some s'" by (auto split: if_splits)
  with Cons.IH [OF assms(1) [OF Cons.prems(1)]] show ?case by blast
qed simp

text \<open>An invariant of a component that reacts to events: it holds of the fresh component, and every
  event that may arrive keeps it. It may speak of the events that have arrived so far.\<close>

locale machine_invariant =
  fixes enabled :: "'e \<Rightarrow> 's \<Rightarrow> bool" and step :: "'e \<Rightarrow> 's \<Rightarrow> 's" and fresh :: 's
    and Inv :: "'e list \<Rightarrow> 's \<Rightarrow> bool"
  assumes fresh_inv: "Inv [] fresh"
    and step_inv: "Inv es s \<Longrightarrow> enabled e s \<Longrightarrow> Inv (es @ [e]) (step e s)"
begin

lemma run_from: "Inv es s \<Longrightarrow> run_machine enabled step fs s = Some s' \<Longrightarrow> Inv (es @ fs) s'"
proof (induction fs arbitrary: es s)
  case (Cons e fs)
  from Cons.prems have "enabled e s" "run_machine enabled step fs (step e s) = Some s'" by (auto split: if_splits)
  with Cons.IH [OF step_inv [OF Cons.prems(1)]] show ?case by simp
qed simp

lemma holds: "run_machine enabled step es fresh = Some s \<Longrightarrow> Inv es s"
  using run_from [OF fresh_inv] by simp

end

end
