(* ===== verification/JsRegex.thy ===== *)
theory JsRegex
  imports Prelude
begin

text \<open>
  The regular expressions of the sources, as ECMAScript runs them: a backtracking matcher that
  yields the alternatives of a pattern in priority order (greedy repetition tries the longest run
  first, lazy repetition the shortest), of which \<open>exec\<close> takes the first. A matcher state holds the
  position in the input, the rest of the input and the captured groups. Every pattern of the
  program is written below as a term of \<open>rx\<close>, and the patterns that structure the STEP syntax
  are shown to compute what their reader expects: the first alternative is characterised once
  for repetition over a character class, and the patterns follow from it.
\<close>

datatype rx =
    RBos                                 \<comment> \<open>\<open>^\<close> without the multi-line flag\<close>
  | REos                                 \<comment> \<open>\<open>$\<close> without the multi-line flag\<close>
  | REps
  | RSet "char \<Rightarrow> bool"                  \<comment> \<open>a character class, or a literal character\<close>
  | RSeq rx rx
  | RAlt rx rx
  | RStar bool rx                        \<comment> \<open>\<open>*\<close> when True, \<open>*?\<close> when False\<close>
  | RGrp nat rx                          \<comment> \<open>capturing group\<close>
  | RLook rx                             \<comment> \<open>\<open>(?=...)\<close>\<close>

record mstate =
  mpos :: nat
  mrest :: string
  mcaps :: "(nat \<times> string) list"

fun rx_size :: "rx \<Rightarrow> nat" where
  "rx_size (RSeq a b) = Suc (rx_size a + rx_size b)"
| "rx_size (RAlt a b) = Suc (rx_size a + rx_size b)"
| "rx_size (RStar g a) = Suc (rx_size a)"
| "rx_size (RGrp n a) = Suc (rx_size a)"
| "rx_size (RLook a) = Suc (rx_size a)"
| "rx_size _ = 0"

definition rx_capture :: "nat \<Rightarrow> mstate \<Rightarrow> mstate \<Rightarrow> mstate" where
  "rx_capture n m m' =
     m'\<lparr>mcaps := (n, take (length (mrest m) - length (mrest m')) (mrest m)) # mcaps m'\<rparr>"

function rx_run :: "rx \<Rightarrow> mstate \<Rightarrow> mstate list" where
  "rx_run RBos m = (if mpos m = 0 then [m] else [])"
| "rx_run REos m = (if mrest m = [] then [m] else [])"
| "rx_run REps m = [m]"
| "rx_run (RSet p) m =
     (case mrest m of [] \<Rightarrow> []
      | c # s \<Rightarrow> if p c then [m\<lparr>mpos := Suc (mpos m), mrest := s\<rparr>] else [])"
| "rx_run (RSeq a b) m = concat (map (rx_run b) (rx_run a m))"
| "rx_run (RAlt a b) m = rx_run a m @ rx_run b m"
| "rx_run (RStar g a) m =
     (let more = concat (map (\<lambda>m'. if length (mrest m') < length (mrest m)
                                   then rx_run (RStar g a) m' else []) (rx_run a m))
      in if g then more @ [m] else m # more)"
| "rx_run (RGrp n a) m = map (rx_capture n m) (rx_run a m)"
| "rx_run (RLook a) m =
     (case rx_run a m of [] \<Rightarrow> [] | m' # _ \<Rightarrow> [m\<lparr>mcaps := mcaps m'\<rparr>])"
  by pat_completeness auto
termination
  by (relation "measures [\<lambda>(r, m). rx_size r, \<lambda>(r, m). length (mrest m)]") auto

declare rx_run.simps(7) [simp del]

definition rx_at :: "rx \<Rightarrow> nat \<Rightarrow> string \<Rightarrow> mstate option" where
  \<comment> \<open>the match that starts exactly here\<close>
  "rx_at r i s = (case rx_run r \<lparr>mpos = i, mrest = s, mcaps = []\<rparr> of [] \<Rightarrow> None | m # _ \<Rightarrow> Some m)"

fun rx_search :: "rx \<Rightarrow> nat \<Rightarrow> string \<Rightarrow> (nat \<times> mstate) option" where
  \<comment> \<open>the first position at or after \<open>i\<close> where the pattern matches\<close>
  "rx_search r i [] = map_option (Pair i) (rx_at r i [])"
| "rx_search r i (c # s) =
     (case rx_at r i (c # s) of Some m \<Rightarrow> Some (i, m) | None \<Rightarrow> rx_search r (Suc i) s)"

definition rx_exec :: "rx \<Rightarrow> string \<Rightarrow> mstate option" where
  \<comment> \<open>\<open>s.match(re)\<close> without the global flag\<close>
  "rx_exec r s = map_option snd (rx_search r 0 s)"

definition grp :: "nat \<Rightarrow> mstate \<Rightarrow> string" where
  \<comment> \<open>\<open>m[n]\<close>; every group of the program's patterns takes part in each match\<close>
  "grp n m = (case map_of (mcaps m) n of None \<Rightarrow> [] | Some t \<Rightarrow> t)"

text \<open>
  \<open>rx_all\<close> runs the loop \<open>while ((m = re.exec(s)) !== null)\<close> of a global pattern: each round
  searches from the end of the previous match. It yields, per round, the text skipped before the
  match and the match itself, and finally the text after the last match. A round whose match is
  empty would not advance; the function stops there (no pattern of the sources matches the empty
  string).
\<close>

function rx_all :: "rx \<Rightarrow> nat \<Rightarrow> string \<Rightarrow> (string \<times> mstate) list \<times> string" where
  "rx_all r i s =
     (case rx_search r i s of
        None \<Rightarrow> ([], s)
      | Some (j, m) \<Rightarrow>
          if length (mrest m) < length s
          then (case rx_all r (mpos m) (mrest m) of (ms, t) \<Rightarrow> ((take (j - i) s, m) # ms, t))
          else ([], s))"
  by pat_completeness auto
termination
  by (relation "measure (\<lambda>(r, i, s). length s)") auto

declare rx_all.simps [simp del]

definition js_match_all :: "rx \<Rightarrow> string \<Rightarrow> mstate list" where
  "js_match_all r s = map snd (fst (rx_all r 0 s))"

definition js_replace :: "rx \<Rightarrow> (mstate \<Rightarrow> string) \<Rightarrow> string \<Rightarrow> string" where
  \<comment> \<open>\<open>s.replace(re, f)\<close> with the global flag\<close>
  "js_replace r f s =
     (case rx_all r 0 s of (ms, t) \<Rightarrow> concat (map (\<lambda>(b, m). b @ f m) ms) @ t)"

section \<open>Patterns\<close>

definition RChr :: "char \<Rightarrow> rx" where "RChr c = RSet (\<lambda>x. x = c)"

definition RPlus :: "rx \<Rightarrow> rx" where "RPlus r = RSeq r (RStar True r)"

definition ROpt :: "rx \<Rightarrow> rx" where "ROpt r = RAlt r REps"

fun RLit :: "string \<Rightarrow> rx" where
  "RLit [] = REps"
| "RLit [c] = RChr c"
| "RLit (c # s) = RSeq (RChr c) (RLit s)"

fun RCat :: "rx list \<Rightarrow> rx" where
  "RCat [] = REps"
| "RCat [r] = r"
| "RCat (r # rs) = RSeq r (RCat rs)"

definition rx_ws :: rx where "rx_ws = RStar True (RSet js_ws)"            \<comment> \<open>\<open>\s*\<close>\<close>
definition rx_digits :: rx where "rx_digits = RPlus (RSet digit)"         \<comment> \<open>\<open>\d+\<close>\<close>

definition upper_us :: "char \<Rightarrow> bool" where
  "upper_us c \<longleftrightarrow> 65 \<le> (of_char c :: nat) \<and> (of_char c :: nat) \<le> 90 \<or> c = CHR ''_''"

definition rx_type :: rx where                                \<comment> \<open>\<open>[A-Z_][A-Z0-9_]*\<close>\<close>
  "rx_type = RSeq (RSet upper_us) (RStar True (RSet (\<lambda>c. upper_us c \<or> digit c)))"

definition not_nl :: "char \<Rightarrow> bool" where "not_nl c \<longleftrightarrow> c \<noteq> nl \<and> c \<noteq> cr"   \<comment> \<open>\<open>.\<close>\<close>

section \<open>What the matcher computes\<close>

definition advance :: "nat \<Rightarrow> mstate \<Rightarrow> mstate" where
  "advance k m = m\<lparr>mpos := mpos m + k, mrest := drop k (mrest m)\<rparr>"

definition rejects :: "rx \<Rightarrow> (char \<Rightarrow> bool) \<Rightarrow> bool" where
  \<comment> \<open>the pattern cannot start at a character of the class\<close>
  "rejects r p \<longleftrightarrow> (\<forall>m. mrest m \<noteq> [] \<longrightarrow> p (hd (mrest m)) \<longrightarrow> rx_run r m = [])"

lemma advance_0 [simp]: "advance 0 m = m"
  by (simp add: advance_def)

lemma advance_advance [simp]: "advance j (advance k m) = advance (k + j) m"
  by (simp add: advance_def add.assoc add.commute)

lemma advance_sel [simp]:
  "mrest (advance k m) = drop k (mrest m)" "mpos (advance k m) = mpos m + k"
  "mcaps (advance k m) = mcaps m"
  by (simp_all add: advance_def)

lemma rx_run_set: "rx_run (RSet p) m =
   (if mrest m \<noteq> [] \<and> p (hd (mrest m)) then [advance 1 m] else [])"
  by (cases "mrest m") (simp_all add: advance_def)

declare rx_run.simps(4) [simp del]
declare rx_run_set [simp]

lemma rx_run_chr: "rx_run (RChr c) m =
   (if mrest m \<noteq> [] \<and> hd (mrest m) = c then [advance 1 m] else [])"
  by (simp add: RChr_def rx_run_set)

lemma rx_run_lit: "rx_run (RLit s) m = (if starts_with (mrest m) s then [advance (length s) m] else [])"
proof (induction s arbitrary: m rule: RLit.induct)
  case (2 c)
  then show ?case by (cases "mrest m") (auto simp: rx_run_chr starts_with_def)
next
  case (3 c d s)
  then show ?case by (cases "mrest m") (auto simp: rx_run_chr starts_with_def)
qed (simp_all add: starts_with_def)

lemma rx_run_star_set:
  "rx_run (RStar True (RSet p)) m =
     map (\<lambda>k. advance k m) (rev [0..<Suc (length (takeWhile p (mrest m)))])"
proof (induction "length (mrest m)" arbitrary: m rule: less_induct)
  case less
  show ?case
  proof (cases "mrest m \<noteq> [] \<and> p (hd (mrest m))")
    case False
    then show ?thesis
      by (cases "mrest m") (auto simp: rx_run.simps(7) rx_run_set)
  next
    case True
    then obtain c s where m: "mrest m = c # s" "p c" by (cases "mrest m") auto
    have unfold: "rx_run (RStar True (RSet p)) m = rx_run (RStar True (RSet p)) (advance 1 m) @ [m]"
      by (subst rx_run.simps(7)) (simp add: m)
    have step: "rx_run (RStar True (RSet p)) (advance 1 m) =
        map (\<lambda>k. advance k (advance 1 m)) (rev [0..<Suc (length (takeWhile p s))])"
      using less [of "advance 1 m"] m by simp
    have shift: "rev [0..<Suc (Suc n)] = map Suc (rev [0..<Suc n]) @ [0]" for n :: nat
    proof -
      have "[0..<Suc (Suc n)] = 0 # map Suc [0..<Suc n]"
        unfolding map_Suc_upt by (rule upt_conv_Cons) simp
      then show ?thesis by (simp only: rev.simps rev_map)
    qed
    have "length (takeWhile p (mrest m)) = Suc (length (takeWhile p s))" using m by simp
    then show ?thesis
      unfolding unfold step by (simp only: shift map_append map_map comp_def) simp
  qed
qed

lemma rejects_set: "(\<And>c. p c \<Longrightarrow> \<not> q c) \<Longrightarrow> rejects (RSet q) p"
  by (auto simp: rejects_def rx_run_set)

lemma rejects_chr: "\<not> p c \<Longrightarrow> rejects (RChr c) p"
  by (auto simp: RChr_def intro: rejects_set)

lemma rejects_seq: "rejects a p \<Longrightarrow> rejects (RSeq a b) p"
  by (simp add: rejects_def)

lemma rejects_grp: "rejects a p \<Longrightarrow> rejects (RGrp n a) p"
  by (simp add: rejects_def)

lemma rejects_plus: "rejects a p \<Longrightarrow> rejects (RPlus a) p"
  by (simp add: RPlus_def rejects_seq)

lemma rejects_eos: "rejects REos p"
  by (auto simp: rejects_def)

lemma rejects_star_seq:
  "(\<And>c. p c \<Longrightarrow> \<not> q c) \<Longrightarrow> rejects b p \<Longrightarrow> rejects (RSeq (RStar True (RSet q)) b) p"
proof -
  assume q: "\<And>c. p c \<Longrightarrow> \<not> q c" and b: "rejects b p"
  have "rx_run (RSeq (RStar True (RSet q)) b) m = []" if "mrest m \<noteq> []" "p (hd (mrest m))" for m
  proof -
    have "takeWhile q (mrest m) = []" using that q by (cases "mrest m") auto
    with that b show ?thesis by (simp add: rx_run_star_set rejects_def)
  qed
  then show ?thesis by (simp add: rejects_def)
qed

lemmas rejects_intros = rejects_chr rejects_seq rejects_grp rejects_plus rejects_eos rejects_star_seq

text \<open>
  Repetition over a class followed by a pattern that cannot start in that class has one
  candidate: the longest run.
\<close>

lemma rejects_dropped:
  assumes "rejects b p" and "k < length (takeWhile p s)" and "mrest m = drop k s"
  shows "rx_run b m = []"
proof -
  have k: "k < length s" using assms(2) length_takeWhile_le by (rule less_le_trans)
  have "takeWhile p s ! k \<in> set (takeWhile p s)" using assms(2) by (rule nth_mem)
  then have "p (s ! k)" using assms(2) by (metis set_takeWhileD takeWhile_nth)
  with assms(1,3) k show ?thesis by (simp add: rejects_def hd_drop_conv_nth)
qed

lemma concat_map_Nil: "(\<And>x. x \<in> set xs \<Longrightarrow> f x = []) \<Longrightarrow> concat (map f xs) = []"
  by (induction xs) auto

lemma rx_seq_star:
  assumes "rejects b p"
  shows "rx_run (RSeq (RStar True (RSet p)) b) m =
     rx_run b (advance (length (takeWhile p (mrest m))) m)"
proof -
  let ?n = "length (takeWhile p (mrest m))"
  have "concat (map (rx_run b) (map (\<lambda>k. advance k m) (rev [0..<?n]))) = []"
    by (rule concat_map_Nil) (auto intro: rejects_dropped [OF assms])
  then show ?thesis by (simp add: rx_run_star_set)
qed

lemma rx_seq_ws: "rejects b js_ws \<Longrightarrow> rx_run (RSeq rx_ws b) m =
     rx_run b (advance (length (takeWhile js_ws (mrest m))) m)"
  by (simp add: rx_ws_def rx_seq_star del: rx_run.simps)

lemma rx_run_plus_set:
  "rx_run (RPlus (RSet p)) m =
     map (\<lambda>k. advance (Suc k) m) (rev [0..<length (takeWhile p (mrest m))])"
proof (cases "mrest m \<noteq> [] \<and> p (hd (mrest m))")
  case True
  then obtain c s where m: "mrest m = c # s" "p c" by (cases "mrest m") auto
  then show ?thesis by (simp add: RPlus_def rx_run_set rx_run_star_set del: rx_run.simps(4))
next
  case False
  then show ?thesis by (cases "mrest m") (auto simp: RPlus_def rx_run_set)
qed

lemma rx_capture_advance:
  "rx_capture n m (advance k m) = (advance k m)\<lparr>mcaps := (n, take k (mrest m)) # mcaps m\<rparr>"
  by (simp add: rx_capture_def) (cases "k \<le> length (mrest m)", simp_all)

definition advance_cap :: "nat \<Rightarrow> nat \<Rightarrow> mstate \<Rightarrow> mstate" where
  "advance_cap n k m = (advance k m)\<lparr>mcaps := (n, take k (mrest m)) # mcaps m\<rparr>"

lemma advance_cap_sel [simp]:
  "mrest (advance_cap n k m) = drop k (mrest m)" "mpos (advance_cap n k m) = mpos m + k"
  "mcaps (advance_cap n k m) = (n, take k (mrest m)) # mcaps m"
  by (simp_all add: advance_cap_def)

lemma rx_seq_grp_plus:
  assumes "rejects b p"
  shows "rx_run (RSeq (RGrp n (RPlus (RSet p))) b) m =
     (if takeWhile p (mrest m) = [] then []
      else rx_run b (advance_cap n (length (takeWhile p (mrest m))) m))"
proof (cases "length (takeWhile p (mrest m))")
  case 0
  then show ?thesis by (simp add: rx_run_plus_set)
next
  case (Suc l)
  have "concat (map (rx_run b) (map (\<lambda>k. rx_capture n m (advance (Suc k) m)) (rev [0..<l]))) = []"
    using Suc by (intro concat_map_Nil)
      (auto simp: rx_capture_def intro!: rejects_dropped [OF assms, of "Suc k" "mrest m" for k])
  then show ?thesis
    using Suc by (simp add: rx_run_plus_set comp_def rx_capture_advance advance_cap_def)
       (metis list.size(3) nat.distinct(1))
qed

lemma rx_seq_plus:
  assumes "rejects b p"
  shows "rx_run (RSeq (RPlus (RSet p)) b) m =
     (if takeWhile p (mrest m) = [] then []
      else rx_run b (advance (length (takeWhile p (mrest m))) m))"
proof (cases "length (takeWhile p (mrest m))")
  case 0
  then show ?thesis by (simp add: rx_run_plus_set)
next
  case (Suc l)
  have "concat (map (rx_run b) (map (\<lambda>k. advance (Suc k) m) (rev [0..<l]))) = []"
    using Suc by (intro concat_map_Nil) (auto intro!: rejects_dropped [OF assms, of "Suc k" "mrest m" for k])
  then show ?thesis
    using Suc by (simp add: rx_run_plus_set comp_def) (metis list.size(3) nat.distinct(1))
qed

section \<open>Global replacement and global matching, one position at a time\<close>

definition repl_from :: "rx \<Rightarrow> (mstate \<Rightarrow> string) \<Rightarrow> nat \<Rightarrow> string \<Rightarrow> string" where
  "repl_from r f i s = (case rx_all r i s of (ms, t) \<Rightarrow> concat (map (\<lambda>(b, m). b @ f m) ms) @ t)"

definition matches_from :: "rx \<Rightarrow> nat \<Rightarrow> string \<Rightarrow> mstate list" where
  "matches_from r i s = map snd (fst (rx_all r i s))"

lemma js_replace_from: "js_replace r f s = repl_from r f 0 s"
  by (simp add: js_replace_def repl_from_def)

lemma js_match_all_from: "js_match_all r s = matches_from r 0 s"
  by (simp add: js_match_all_def matches_from_def)

lemma rx_search_at: "rx_at r i s = Some m \<Longrightarrow> rx_search r i s = Some (i, m)"
  by (cases s) simp_all

lemma rx_search_mono: "rx_search r i s = Some (j, m) \<Longrightarrow> i \<le> j"
  by (induction r i s rule: rx_search.induct) (auto split: option.splits)

lemma rx_all_hit:
  "rx_at r i s = Some m \<Longrightarrow> length (mrest m) < length s \<Longrightarrow>
   rx_all r i s = (case rx_all r (mpos m) (mrest m) of (ms, t) \<Rightarrow> (([], m) # ms, t))"
  by (subst rx_all.simps) (simp add: rx_search_at)

lemma rx_search_shorter:
  "rx_search r i s = Some (j, m) \<Longrightarrow> (\<And>i s m. rx_at r i s = Some m \<Longrightarrow> length (mrest m) < length s) \<Longrightarrow>
   length (mrest m) < length s"
proof (induction r i s rule: rx_search.induct)
  case (2 r i c s)
  show ?case
  proof (cases "rx_at r i (c # s)")
    case None
    with 2 have "length (mrest m) < length s" by simp
    then show ?thesis by simp
  next
    case (Some m')
    with 2(3) [OF Some] 2(2) show ?thesis by simp
  qed
next
  case (1 r i)
  then have "rx_at r i [] = Some m" by auto
  from 1(2) [OF this] show ?case .
qed

definition consumes :: "rx \<Rightarrow> bool" where
  \<comment> \<open>no match of the pattern is empty\<close>
  "consumes r \<longleftrightarrow> (\<forall>i s m. rx_at r i s = Some m \<longrightarrow> length (mrest m) < length s)"

lemma rx_all_skip:
  assumes "rx_at r i (c # s) = None" and "consumes r"
  shows "rx_all r i (c # s) =
    (case rx_all r (Suc i) s of ([], t) \<Rightarrow> ([], c # t) | ((b, m) # ms, t) \<Rightarrow> ((c # b, m) # ms, t))"
proof (cases "rx_search r (Suc i) s")
  case None
  with assms show ?thesis by (simp add: rx_all.simps [of r i] rx_all.simps [of r "Suc i"])
next
  case (Some jm)
  obtain j m where jm: "jm = (j, m)" by (cases jm)
  have len: "length (mrest m) < length s"
    using rx_search_shorter [OF Some [unfolded jm]] assms(2) by (simp add: consumes_def)
  have "Suc i \<le> j" using rx_search_mono [OF Some [unfolded jm]] .
  then have "take (j - i) (c # s) = c # take (j - Suc i) s" by (simp add: take_Cons' Suc_diff_le)
  with assms(1) Some jm len show ?thesis
    by (subst (1 2) rx_all.simps) (simp split: prod.split)
qed

lemma rx_all_Nil: "consumes r \<Longrightarrow> rx_all r i [] = ([], [])"
  by (subst rx_all.simps) (auto simp: consumes_def split: option.split)

lemma repl_from_Nil [simp]: "consumes r \<Longrightarrow> repl_from r f i [] = []"
  by (simp add: repl_from_def rx_all_Nil)

lemma repl_from_skip:
  "rx_at r i (c # s) = None \<Longrightarrow> consumes r \<Longrightarrow> repl_from r f i (c # s) = c # repl_from r f (Suc i) s"
  by (auto simp: repl_from_def rx_all_skip split: prod.split list.split)

lemma repl_from_hit:
  "rx_at r i s = Some m \<Longrightarrow> consumes r \<Longrightarrow> repl_from r f i s = f m @ repl_from r f (mpos m) (mrest m)"
  by (auto simp: repl_from_def rx_all_hit consumes_def split: prod.split)

lemma matches_from_Nil [simp]: "consumes r \<Longrightarrow> matches_from r i [] = []"
  by (simp add: matches_from_def rx_all_Nil)

lemma matches_from_skip:
  "rx_at r i (c # s) = None \<Longrightarrow> consumes r \<Longrightarrow> matches_from r i (c # s) = matches_from r (Suc i) s"
  by (auto simp: matches_from_def rx_all_skip split: prod.split list.split)

lemma matches_from_hit:
  "rx_at r i s = Some m \<Longrightarrow> consumes r \<Longrightarrow> matches_from r i s = m # matches_from r (mpos m) (mrest m)"
  by (auto simp: matches_from_def rx_all_hit consumes_def split: prod.split)

lemma rx_run_lazy_any:
  "rx_run (RStar False (RSet (\<lambda>_. True))) m = map (\<lambda>k. advance k m) [0..<Suc (length (mrest m))]"
proof (induction "length (mrest m)" arbitrary: m)
  case 0
  then show ?case by (simp add: rx_run.simps(7))
next
  case (Suc n)
  then have ne: "mrest m \<noteq> []" by auto
  have "rx_run (RStar False (RSet (\<lambda>_. True))) m = m # rx_run (RStar False (RSet (\<lambda>_. True))) (advance 1 m)"
    using ne by (subst rx_run.simps(7)) simp
  also have "rx_run (RStar False (RSet (\<lambda>_. True))) (advance 1 m) =
      map (\<lambda>k. advance k (advance 1 m)) [0..<Suc (length (mrest (advance 1 m)))]"
    using Suc by (intro Suc.hyps(1)) simp
  also have "m # \<dots> = map (\<lambda>k. advance k m) (0 # map Suc [0..<length (mrest m)])"
    using ne by (simp add: Suc_diff_Suc)
  also have "0 # map Suc [0..<length (mrest m)] = [0..<Suc (length (mrest m))]"
    by (simp add: map_Suc_upt upt_conv_Cons del: upt_Suc)
  finally show ?case .
qed

lemma first_find_sub:
  assumes "p \<noteq> []"
  shows "concat (map (\<lambda>k. if starts_with (drop k s) p then [f k] else []) [0..<Suc (length s)]) =
     (case find_sub p s of None \<Rightarrow> [] | Some k \<Rightarrow>
        f k # concat (map (\<lambda>k. if starts_with (drop k s) p then [f k] else []) [Suc k..<Suc (length s)]))"
proof (cases "find_sub p s")
  case None
  have "\<not> starts_with (drop k s) p" for k
  proof
    assume "starts_with (drop k s) p"
    then have "s = take k s @ p @ drop (length p) (drop k s)"
      by (metis starts_with_def append_take_drop_id)
    with find_sub_None [OF None] show False by blast
  qed
  with None show ?thesis by simp
next
  case (Some k)
  have k: "k < Suc (length s)" using find_sub_bound [OF Some] by simp
  have split: "[0..<Suc (length s)] = [0..<k] @ k # [Suc k..<Suc (length s)]"
    using k upt_add_eq_append [of 0 k "Suc (length s) - k"] by (simp add: upt_conv_Cons del: upt_Suc)
  have before: "concat (map (\<lambda>k. if starts_with (drop k s) p then [f k] else []) [0..<k]) = []"
    using find_sub_least [OF Some] by (intro concat_map_Nil) (auto simp: starts_with_def)
  show ?thesis
    using find_sub_Some [OF Some] Some before unfolding split by (simp add: starts_with_def)
qed

lemma rx_run_shrinks: "m' \<in> set (rx_run r m) \<Longrightarrow> length (mrest m') \<le> length (mrest m)"
proof (induction r m arbitrary: m' rule: rx_run.induct)
  case (5 a b m)
  then obtain m1 where m1: "m1 \<in> set (rx_run a m)" "m' \<in> set (rx_run b m1)" by auto
  from "5.IH"(1) [OF m1(1)] "5.IH"(2) [OF m1] show ?case by (rule le_trans [rotated])
next
  case (7 g a m)
  from "7.prems" consider "m' = m"
    | m1 where "m1 \<in> set (rx_run a m)" "length (mrest m1) < length (mrest m)"
        "m' \<in> set (rx_run (RStar g a) m1)"
    by (subst (asm) rx_run.simps(7)) (auto simp: Let_def split: if_splits)
  then show ?case
  proof cases
    case 2
    then show ?thesis using "7.IH"(2) [OF 2] by simp
  qed simp
qed (auto simp: rx_capture_def split: list.splits if_splits)

lemma consumes_chr_seq: "consumes (RSeq (RChr c) r)"
proof -
  have "length (mrest m') < length s" if "rx_at (RSeq (RChr c) r) i s = Some m'" for i s m'
  proof -
    let ?m = "\<lparr>mpos = i, mrest = s, mcaps = []\<rparr>"
    from that have "m' \<in> set (rx_run (RSeq (RChr c) r) ?m)"
      by (simp add: rx_at_def del: rx_run.simps split: list.splits)
    then have "s \<noteq> []" "m' \<in> set (rx_run r (advance 1 ?m))"
      by (auto simp: rx_run_chr split: if_splits)
    with rx_run_shrinks [of m' r "advance 1 ?m"] show ?thesis by (cases s) auto
  qed
  then show ?thesis by (simp add: consumes_def)
qed

end
