(* ===== verification/StepScan.thy ===== *)
theory StepScan
  imports JsRegex "HOL-Library.Sublist"
begin

text \<open>
  The streaming STEP scanner, \<open>cad-parser/step-scan.js\<close>. The closure variables of \<open>scanStep\<close> are
  the record \<open>scan_state\<close>; what the handlers have reported so far is the list \<open>emitted\<close> of its
  \<open>out\<close> part. The inner \<open>for (;;)\<close> loop is a partial function, shown to return on every state the
  scanner reaches. The abstract specification \<open>lex\<close> reads the whole file at once, character by
  character; the simulation shows that the chunk-by-chunk scanner reports the same events for
  every way the file may be cut into chunks that does not cut a comment opener in two. Decoding
  of bytes to text is a parameter (\<open>raw.toString('utf8')\<close>).
\<close>

section \<open>The scanner as written\<close>

datatype scan_event =
    OnHeader string
  | OnEntity "string option" "string option" string nat nat
    \<comment> \<open>id, type, text, offset, length\<close>

record seg_out =
  headerLines :: "string list"
  inHeader :: bool
  inData :: bool
  emitted :: "scan_event list"

record scan_state =
  work :: string
  workBase :: nat
  cursor :: nat
  commentPos :: int
  inComment :: bool
  segStart :: nat
  segChunks :: "string list"
  out :: seg_out

definition OPEN :: string where "OPEN = ''/*''"
definition CLOSE :: string where "CLOSE = ''*/''"
definition SEMI :: string where "SEMI = '';''"

definition rx_entity_id :: rx where              \<comment> \<open>\<open>/^#(\d+)\s*=/\<close>\<close>
  "rx_entity_id = RCat [RBos, RChr CHR ''#'', RGrp 1 rx_digits, rx_ws, RChr CHR ''='']"

definition rx_entity_type :: rx where            \<comment> \<open>\<open>/^#\d+\s*=\s*([A-Z_][A-Z0-9_]*)\s*\(/\<close>\<close>
  "rx_entity_type = RCat [RBos, RChr CHR ''#'', rx_digits, rx_ws, RChr CHR ''='', rx_ws,
     RGrp 1 rx_type, rx_ws, RChr CHR ''('']"

definition rx_newline :: rx where                \<comment> \<open>\<open>/\r?\n/g\<close>\<close>
  "rx_newline = RSeq (ROpt (RChr cr)) (RChr nl)"

definition normalise :: "string \<Rightarrow> string" where
  "normalise s = trim (js_replace rx_newline (\<lambda>_. '' '') s)"

definition entity_id :: "string \<Rightarrow> string option" where
  "entity_id text = map_option (grp 1) (rx_exec rx_entity_id text)"

definition entity_type :: "string \<Rightarrow> string" where
  "entity_type text = (case rx_exec rx_entity_type text of
     Some m \<Rightarrow> grp 1 m | None \<Rightarrow> ''_COMPOUND_'')"

definition header_text :: "string list \<Rightarrow> string" where
  "header_text ls = (if ls \<noteq> [] then ''HEADER;'' @ [nl] @ join [nl] ls @ [nl] @ ''ENDSEC;''
                     else ''HEADER;'' @ [nl] @ ''ENDSEC;'')"

definition handle_segment :: "string \<Rightarrow> nat \<Rightarrow> nat \<Rightarrow> seg_out \<Rightarrow> seg_out" where
  "handle_segment text offset len h =
     (if text = '''' then h
      else if text = ''HEADER'' then h\<lparr>inHeader := True\<rparr>
      else if text = ''DATA'' then
        h\<lparr>emitted := emitted h @ [OnHeader (header_text (headerLines h))],
          inHeader := False, inData := True\<rparr>
      else if text = ''ENDSEC'' then h\<lparr>inHeader := False, inData := False\<rparr>
      else if inHeader h then h\<lparr>headerLines := headerLines h @ [text @ '';'']\<rparr>
      else if \<not> inData h then h
      else (let id = entity_id text;
                ty = (if id = None then None else Some (entity_type text))
            in h\<lparr>emitted := emitted h @ [OnEntity id ty text offset len]\<rparr>))"

definition push_piece :: "string \<Rightarrow> scan_state \<Rightarrow> scan_state" where
  "push_piece piece st = (if length piece > 0 then st\<lparr>segChunks := segChunks st @ [piece]\<rparr> else st)"

definition emit_segment :: "(string \<Rightarrow> string) \<Rightarrow> nat \<Rightarrow> scan_state \<Rightarrow> scan_state" where
  "emit_segment decode semicolonAbs st =
     (let len = semicolonAbs - segStart st + 1;
          raw = concat (segChunks st);
          text = normalise (decode raw)
      in st\<lparr>out := handle_segment text (segStart st) len (out st)\<rparr>)"

partial_function (option) scan :: "(string \<Rightarrow> string) \<Rightarrow> scan_state \<Rightarrow> scan_state option" where
  "scan decode st =
     (if inComment st then
        (if index_of CLOSE (work st) (cursor st) = - 1 then Some st
         else scan decode (st\<lparr>cursor := nat (index_of CLOSE (work st) (cursor st)) + 2,
                             inComment := False, commentPos := - 2\<rparr>))
      else
        (let st1 = (if commentPos st = - 2
                    then st\<lparr>commentPos := index_of OPEN (work st) (cursor st)\<rparr> else st);
             sp = index_of SEMI (work st1) (cursor st1);
             cp = commentPos st1
         in if cp \<noteq> - 1 \<and> (sp = - 1 \<or> cp < sp) then
              scan decode ((push_piece (slice (cursor st1) (nat cp) (work st1)) st1)
                \<lparr>cursor := nat cp + 2, inComment := True\<rparr>)
            else if sp \<noteq> - 1 then
              scan decode
                ((emit_segment decode (workBase st1 + nat sp)
                    (push_piece (slice (cursor st1) (nat sp) (work st1)) st1))
                 \<lparr>cursor := nat sp + 1, segStart := workBase st1 + (nat sp + 1), segChunks := []\<rparr>)
            else
              Some ((push_piece (drop (cursor st1) (work st1)) st1)\<lparr>cursor := length (work st1)\<rparr>)))"

declare scan.simps [code]

definition scan_init :: scan_state where
  "scan_init = \<lparr>work = [], workBase = 0, cursor = 0, commentPos = - 2, inComment = False,
     segStart = 0, segChunks = [],
     out = \<lparr>headerLines = [], inHeader = False, inData = False, emitted = []\<rparr>\<rparr>"

definition rebuild :: "string \<Rightarrow> scan_state \<Rightarrow> scan_state" where
  \<comment> \<open>how \<open>work\<close> takes in a chunk\<close>
  "rebuild chunk st =
     (if length (work st) = 0 then st\<lparr>work := chunk\<rparr>
      else if cursor st \<ge> length (work st) then
        st\<lparr>workBase := workBase st + length (work st), work := chunk, cursor := 0\<rparr>
      else if cursor st > 0 then
        st\<lparr>workBase := workBase st + cursor st, work := drop (cursor st) (work st) @ chunk, cursor := 0\<rparr>
      else st\<lparr>work := work st @ chunk\<rparr>)"

definition on_data :: "(string \<Rightarrow> string) \<Rightarrow> string \<Rightarrow> scan_state \<Rightarrow> scan_state option" where
  "on_data decode chunk st = scan decode ((rebuild chunk st)\<lparr>commentPos := - 2\<rparr>)"

definition on_end :: "(string \<Rightarrow> string) \<Rightarrow> scan_state \<Rightarrow> seg_out" where
  "on_end decode st =
     (if segChunks st \<noteq> [] then
        (let text = normalise (decode (concat (segChunks st)))
         in if text \<noteq> [] then
              handle_segment text (segStart st) (workBase st + length (work st) - segStart st) (out st)
            else out st)
      else out st)"

fun feed :: "(string \<Rightarrow> string) \<Rightarrow> string list \<Rightarrow> scan_state \<Rightarrow> scan_state option" where
  "feed decode [] st = Some st"
| "feed decode (c # cs) st = Option.bind (on_data decode c st) (feed decode cs)"

definition scanStep :: "(string \<Rightarrow> string) \<Rightarrow> string list \<Rightarrow> scan_event list option" where
  "scanStep decode chunks =
     map_option (\<lambda>st. emitted (on_end decode st)) (feed decode chunks scan_init)"

section \<open>Specification: one pass over the whole file\<close>

type_synonym seg = "string \<times> nat \<times> nat"    \<comment> \<open>text bytes without comments, offset, length\<close>

fun lex :: "bool \<Rightarrow> nat \<Rightarrow> nat \<Rightarrow> string \<Rightarrow> string \<Rightarrow> seg list \<times> seg" where
  "lex c pos st acc [] = ([], (acc, st, pos - st))"
| "lex False pos st acc (x # xs) =
     (if x = CHR '';'' then
        (case lex False (pos + 1) (pos + 1) [] xs of (ss, t) \<Rightarrow> ((acc, st, pos - st + 1) # ss, t))
      else if x = CHR ''/'' \<and> xs \<noteq> [] \<and> hd xs = CHR ''*'' then lex True (pos + 2) st acc (tl xs)
      else lex False (pos + 1) st (acc @ [x]) xs)"
| "lex True pos st acc (x # xs) =
     (if x = CHR ''*'' \<and> xs \<noteq> [] \<and> hd xs = CHR ''/'' then lex False (pos + 2) st acc (tl xs)
      else lex True (pos + 1) st acc xs)"

definition deliver :: "(string \<Rightarrow> string) \<Rightarrow> seg list \<times> seg \<Rightarrow> seg_out \<Rightarrow> seg_out" where
  "deliver decode r h = (case r of (ss, (acc, st, len)) \<Rightarrow>
     (let h' = fold (\<lambda>(a, s, l). handle_segment (normalise (decode a)) s l) ss h
      in if acc = [] then h' else handle_segment (normalise (decode acc)) st len h'))"

definition scan_spec :: "(string \<Rightarrow> string) \<Rightarrow> string \<Rightarrow> scan_event list" where
  "scan_spec decode file = emitted (deliver decode (lex False 0 0 [] file)
     \<lparr>headerLines = [], inHeader = False, inData = False, emitted = []\<rparr>)"

fun opener_split :: "string list \<Rightarrow> bool" where
  \<comment> \<open>some chunk ends in a slash and the bytes after it start with a star\<close>
  "opener_split [] = False"
| "opener_split (c # cs) =
     (c \<noteq> [] \<and> last c = CHR ''/'' \<and> concat cs \<noteq> [] \<and> hd (concat cs) = CHR ''*'' \<or> opener_split cs)"

section \<open>Reading past a piece\<close>

lemma take_2_Cons: "take 2 (x # zs) = [a, b] \<longleftrightarrow> x = a \<and> zs \<noteq> [] \<and> hd zs = b"
  by (cases zs) auto

lemma lex_text:
  assumes "\<And>i. i < length piece \<Longrightarrow> piece ! i \<noteq> CHR '';''"
    and "\<And>i. i < length piece \<Longrightarrow> take 2 (drop i (piece @ ys)) \<noteq> OPEN"
  shows "lex False pos st acc (piece @ ys) = lex False (pos + length piece) st (acc @ piece) ys"
  using assms
proof (induction piece arbitrary: pos acc)
  case (Cons x xs)
  have x: "x \<noteq> CHR '';''" using Cons.prems(1) [of 0] by simp
  have o: "\<not> (x = CHR ''/'' \<and> xs @ ys \<noteq> [] \<and> hd (xs @ ys) = CHR ''*'')"
  proof -
    have "take 2 (x # (xs @ ys)) \<noteq> [CHR ''/'', CHR ''*'']"
      using Cons.prems(2) [of 0] by (simp add: OPEN_def)
    then show ?thesis by (simp only: take_2_Cons) blast
  qed
  have "lex False (pos + 1) st (acc @ [x]) (xs @ ys) =
      lex False (pos + 1 + length xs) st ((acc @ [x]) @ xs) ys"
    using Cons.prems(1) [of "Suc _"] Cons.prems(2) [of "Suc _"] by (intro Cons.IH) auto
  with x o show ?case by auto
qed simp

lemma lex_comment:
  assumes "\<And>i. i < length piece \<Longrightarrow> take 2 (drop i (piece @ CLOSE @ ys)) \<noteq> CLOSE"
  shows "lex True pos st acc (piece @ CLOSE @ ys) = lex False (pos + length piece + 2) st acc ys"
  using assms
proof (induction piece arbitrary: pos)
  case Nil
  then show ?case by (simp add: CLOSE_def)
next
  case (Cons x xs)
  have o: "\<not> (x = CHR ''*'' \<and> xs @ CLOSE @ ys \<noteq> [] \<and> hd (xs @ CLOSE @ ys) = CHR ''/'')"
  proof -
    have "take 2 (x # (xs @ CLOSE @ ys)) \<noteq> [CHR ''*'', CHR ''/'']"
      using Cons.prems [of 0] by (simp add: CLOSE_def)
    then show ?thesis by (simp only: take_2_Cons) blast
  qed
  have "lex True (pos + 1) st acc (xs @ CLOSE @ ys) = lex False (pos + 1 + length xs + 2) st acc ys"
    using Cons.prems [of "Suc _"] by (intro Cons.IH) auto
  with o show ?case by auto
qed

lemma drop_slice: "c \<le> k \<Longrightarrow> k \<le> length w \<Longrightarrow> drop c w = slice c k w @ drop k w"
  using slice_append [of c k "length w" w] by (simp add: slice_def)

lemma lex_skip:
  assumes ck: "c \<le> k" "k \<le> length w"
    and semi: "\<And>j. c \<le> j \<Longrightarrow> j < k \<Longrightarrow> take 1 (drop j w) \<noteq> SEMI"
    and op: "\<And>j. c \<le> j \<Longrightarrow> j < k \<Longrightarrow> take 2 (drop j (w @ f)) \<noteq> OPEN"
  shows "lex False pos st acc (drop c w @ f) =
    lex False (pos + (k - c)) st (acc @ slice c k w) (drop k w @ f)"
proof -
  have len: "length (slice c k w) = k - c" using ck by simp
  have "lex False pos st acc (slice c k w @ (drop k w @ f)) =
      lex False (pos + length (slice c k w)) st (acc @ slice c k w) (drop k w @ f)"
  proof (rule lex_text)
    fix i
    assume i: "i < length (slice c k w)"
    have "take 1 (drop (c + i) w) \<noteq> SEMI" using semi [of "c + i"] i len by simp
    moreover have "slice c k w ! i = w ! (c + i)" using i ck by (simp add: slice_def)
    moreover have "take 1 (drop (c + i) w) = [w ! (c + i)]"
      using i ck len by (simp add: take_Suc hd_drop_conv_nth)
    ultimately show "slice c k w ! i \<noteq> CHR '';''" by (simp add: SEMI_def)
    have eq: "drop i (slice c k w @ drop k w @ f) = drop (c + i) (w @ f)"
    proof -
      have "drop i (slice c k w @ drop k w @ f) = drop i (drop c w @ f)"
        using drop_slice [OF ck] by simp
      also have "\<dots> = drop (c + i) (w @ f)" using ck i len by (simp add: add.commute)
      finally show ?thesis .
    qed
    show "take 2 (drop i (slice c k w @ drop k w @ f)) \<noteq> OPEN"
      unfolding eq using op [of "c + i"] i len by simp
  qed
  then show ?thesis using drop_slice [OF ck] len by simp
qed

lemma lex_skip_comment:
  assumes ck: "c \<le> k" "k + 2 \<le> length w" and at: "take 2 (drop k w) = CLOSE"
    and before: "\<And>j. c \<le> j \<Longrightarrow> j < k \<Longrightarrow> take 2 (drop j w) \<noteq> CLOSE"
  shows "lex True pos st acc (drop c w @ f) =
    lex False (pos + (k - c) + 2) st acc (drop (k + 2) w @ f)"
proof -
  have len: "length (slice c k w) = k - c" using ck by simp
  have dk: "drop k w = CLOSE @ drop (k + 2) w"
    using at by (metis append_take_drop_id drop_drop add.commute)
  have "lex True pos st acc (slice c k w @ (CLOSE @ drop (k + 2) w @ f)) =
      lex False (pos + length (slice c k w) + 2) st acc (drop (k + 2) w @ f)"
  proof (rule lex_comment)
    fix i
    assume i: "i < length (slice c k w)"
    have eq: "drop i (slice c k w @ CLOSE @ drop (k + 2) w @ f) = drop (c + i) w @ f"
    proof -
      have "drop i (slice c k w @ CLOSE @ drop (k + 2) w @ f) = drop i (drop c w @ f)"
        using drop_slice [of c k w] ck dk by simp
      also have "\<dots> = drop (c + i) w @ f" using ck i len by (simp add: add.commute)
      finally show ?thesis .
    qed
    have eq2: "take 2 (drop (c + i) w @ f) = take 2 (drop (c + i) w)" using ck i len by simp
    show "take 2 (drop i (slice c k w @ CLOSE @ drop (k + 2) w @ f)) \<noteq> CLOSE"
      unfolding eq eq2 using before [of "c + i"] i len by simp
  qed
  moreover have "drop c w @ f = slice c k w @ (CLOSE @ drop (k + 2) w @ f)"
    using drop_slice [of c k w] ck dk by simp
  ultimately show ?thesis using len by simp
qed

section \<open>The scanner simulates the specification\<close>

definition spec_from :: "scan_state \<Rightarrow> string \<Rightarrow> seg list \<times> seg" where
  "spec_from st xs =
     lex (inComment st) (workBase st + cursor st) (segStart st) (concat (segChunks st)) xs"

definition scan_inv :: "scan_state \<Rightarrow> bool" where
  "scan_inv st \<longleftrightarrow> cursor st \<le> length (work st) \<and> segStart st \<le> workBase st + cursor st
     \<and> [] \<notin> set (segChunks st)
     \<and> (inComment st \<or> commentPos st = - 2 \<or> commentPos st = index_of OPEN (work st) (cursor st))"

definition no_split :: "string \<Rightarrow> string \<Rightarrow> bool" where
  "no_split w f \<longleftrightarrow> \<not> (w \<noteq> [] \<and> last w = CHR ''/'' \<and> f \<noteq> [] \<and> hd f = CHR ''*'')"

definition same_events :: "(string \<Rightarrow> string) \<Rightarrow> scan_state \<Rightarrow> scan_state \<Rightarrow> bool" where
  "same_events decode st st' \<longleftrightarrow>
     (\<forall>f. no_split (work st) f \<longrightarrow>
        deliver decode (spec_from st (drop (cursor st) (work st) @ f)) (out st) =
        deliver decode (spec_from st' (drop (cursor st') (work st) @ f)) (out st'))"

lemma deliver_Cons [simp]:
  "deliver decode ((a, s, l) # ss, t) h =
     deliver decode (ss, t) (handle_segment (normalise (decode a)) s l h)"
  by (simp add: deliver_def split: prod.split)

lemma deliver_semi:
  "deliver decode (lex False pos st acc (CHR '';'' # xs)) h =
     deliver decode (lex False (pos + 1) (pos + 1) [] xs)
       (handle_segment (normalise (decode acc)) st (pos - st + 1) h)"
  by (cases "lex False (pos + 1) (pos + 1) [] xs") simp

lemma push_piece_sel [simp]:
  "concat (segChunks (push_piece p st)) = concat (segChunks st) @ p"
  "work (push_piece p st) = work st" "workBase (push_piece p st) = workBase st"
  "cursor (push_piece p st) = cursor st" "inComment (push_piece p st) = inComment st"
  "segStart (push_piece p st) = segStart st" "out (push_piece p st) = out st"
  "commentPos (push_piece p st) = commentPos st"
  by (auto simp: push_piece_def)

lemma push_piece_nonempty: "[] \<notin> set (segChunks st) \<Longrightarrow> [] \<notin> set (segChunks (push_piece p st))"
  by (auto simp: push_piece_def)

lemma emit_segment_sel [simp]:
  "work (emit_segment d a st) = work st" "workBase (emit_segment d a st) = workBase st"
  "cursor (emit_segment d a st) = cursor st" "inComment (emit_segment d a st) = inComment st"
  "commentPos (emit_segment d a st) = commentPos st"
  "out (emit_segment d a st) = handle_segment (normalise (d (concat (segChunks st)))) (segStart st)
     (a - segStart st + 1) (out st)"
  by (simp_all add: emit_segment_def Let_def)

text \<open>One lemma per branch of the loop.\<close>

lemma step_comment_end:
  assumes "scan_inv st" "inComment st" and e: "index_of CLOSE (work st) (cursor st) = e" "e \<noteq> - 1"
  defines "st' \<equiv> st\<lparr>cursor := nat e + 2, inComment := False, commentPos := - 2\<rparr>"
  shows "scan_inv st' \<and> cursor st < cursor st' \<and> same_events decode st st'"
proof -
  have c: "cursor st \<le> length (work st)" using assms(1) by (simp add: scan_inv_def)
  note r = index_of_range [OF e c]
  have l2: "length CLOSE = 2" by (simp add: CLOSE_def)
  have "lex True pos s acc (drop (cursor st) (work st) @ f) =
      lex False (pos + (nat e - cursor st) + 2) s acc (drop (nat e + 2) (work st) @ f)" for pos s acc f
    using r l2 index_of_before [OF e(1)] e(2) by (intro lex_skip_comment) (auto simp: l2)
  then have "same_events decode st st'"
    using assms(2) r by (simp add: same_events_def spec_from_def st'_def)
  then show ?thesis using assms(1) r l2 by (simp add: scan_inv_def st'_def)
qed

lemma step_comment_open:
  assumes inv: "scan_inv st" "\<not> inComment st"
    and cp: "index_of OPEN (work st) (cursor st) = cp" "cp \<noteq> - 1"
    and sp: "index_of SEMI (work st) (cursor st) = sp" "sp = - 1 \<or> cp < sp"
  defines "st' \<equiv> (push_piece (slice (cursor st) (nat cp) (work st)) st)
                   \<lparr>commentPos := cp, cursor := nat cp + 2, inComment := True\<rparr>"
  shows "scan_inv st' \<and> cursor st < cursor st' \<and> same_events decode st st'"
proof -
  have c: "cursor st \<le> length (work st)" using inv by (simp add: scan_inv_def)
  note r = index_of_range [OF cp c]
  have l2: "length OPEN = 2" "length SEMI = 1" by (simp_all add: OPEN_def SEMI_def)
  have dk: "drop (nat cp) (work st) = OPEN @ drop (nat cp + 2) (work st)"
    using r(4) l2 by (metis append_take_drop_id drop_drop add.commute)
  have "lex False pos s acc (drop (cursor st) (work st) @ f) =
      lex False (pos + (nat cp - cursor st)) s (acc @ slice (cursor st) (nat cp) (work st))
        (drop (nat cp) (work st) @ f)" for pos s acc f
  proof (rule lex_skip)
    show "cursor st \<le> nat cp" "nat cp \<le> length (work st)" using r by simp_all
    fix j
    assume j: "cursor st \<le> j" "j < nat cp"
    have "sp = - 1 \<or> int j < sp" using j(2) sp(2) by arith
    then show "take 1 (drop j (work st)) \<noteq> SEMI"
      using index_of_before [OF sp(1) j(1)] j(2) r(3) l2 by auto
    show "take 2 (drop j (work st @ f)) \<noteq> OPEN"
      using index_of_before [OF cp(1) j(1)] cp(2) j r(3) l2 by simp
  qed
  then have "same_events decode st st'"
    using inv(2) r dk by (simp add: same_events_def spec_from_def st'_def OPEN_def)
  then show ?thesis
    using inv r l2 by (simp add: scan_inv_def st'_def push_piece_nonempty)
qed

lemma step_semi:
  fixes decode :: "string \<Rightarrow> string"
  assumes inv: "scan_inv st" "\<not> inComment st"
    and cp: "index_of OPEN (work st) (cursor st) = cp" "cp = - 1 \<or> \<not> cp < sp"
    and sp: "index_of SEMI (work st) (cursor st) = sp" "sp \<noteq> - 1"
  defines "st' \<equiv> (emit_segment decode (workBase st + nat sp)
                    (push_piece (slice (cursor st) (nat sp) (work st)) st))
                 \<lparr>commentPos := cp, cursor := nat sp + 1, segStart := workBase st + (nat sp + 1),
                  segChunks := []\<rparr>"
  shows "scan_inv st' \<and> cursor st < cursor st' \<and> same_events decode st st'"
proof -
  have c: "cursor st \<le> length (work st)" using inv by (simp add: scan_inv_def)
  note r = index_of_range [OF sp c]
  have l2: "length OPEN = 2" "length SEMI = 1" by (simp_all add: OPEN_def SEMI_def)
  have dk: "drop (nat sp) (work st) = SEMI @ drop (nat sp + 1) (work st)"
    using r(4) l2 by (metis append_take_drop_id drop_drop add.commute)
  have ne: "cp \<noteq> sp"
  proof
    assume "cp = sp"
    with index_of_range(4) [OF cp(1) _ c] sp(2) l2 dk show False by (auto simp: OPEN_def SEMI_def)
  qed
  have "lex False pos s acc (drop (cursor st) (work st) @ f) =
      lex False (pos + (nat sp - cursor st)) s (acc @ slice (cursor st) (nat sp) (work st))
        (drop (nat sp) (work st) @ f)" for pos s acc f
  proof (rule lex_skip)
    show "cursor st \<le> nat sp" "nat sp \<le> length (work st)" using r by simp_all
    fix j
    assume j: "cursor st \<le> j" "j < nat sp"
    show "take 1 (drop j (work st)) \<noteq> SEMI"
      using index_of_before [OF sp(1) j(1)] sp(2) j r(3) l2 by auto
    have "cp = - 1 \<or> int j < cp" using j(2) cp(2) by arith
    moreover have "j + 2 \<le> length (work st)" using j(2) r(3) l2 by simp
    ultimately have "take 2 (drop j (work st)) \<noteq> OPEN"
      using index_of_before [OF cp(1) j(1)] l2 by auto
    then show "take 2 (drop j (work st @ f)) \<noteq> OPEN"
      using j r(3) l2 by simp
  qed
  then have "same_events decode st st'"
    using inv r dk deliver_semi
    by (simp add: same_events_def spec_from_def st'_def SEMI_def scan_inv_def add.assoc)
  moreover have "index_of OPEN (work st) (nat sp + 1) = cp"
    using index_of_later [OF cp(1), of "nat sp + 1"] r cp(2) sp(2) ne c by (auto simp: OPEN_def)
  ultimately show ?thesis
    using inv r l2 by (simp add: scan_inv_def st'_def)
qed

lemma step_exhausted:
  assumes inv: "scan_inv st" "\<not> inComment st"
    and cp: "index_of OPEN (work st) (cursor st) = - 1"
    and sp: "index_of SEMI (work st) (cursor st) = - 1"
  defines "st' \<equiv> (push_piece (drop (cursor st) (work st)) st)
                   \<lparr>commentPos := - 1, cursor := length (work st)\<rparr>"
  shows "scan_inv st' \<and> same_events decode st st'"
proof -
  have c: "cursor st \<le> length (work st)" using inv by (simp add: scan_inv_def)
  have l2: "length OPEN = 2" "length SEMI = 1" by (simp_all add: OPEN_def SEMI_def)
  have "lex False pos s acc (drop (cursor st) (work st) @ f) =
      lex False (pos + (length (work st) - cursor st)) s
        (acc @ slice (cursor st) (length (work st)) (work st)) (drop (length (work st)) (work st) @ f)"
    if ns: "no_split (work st) f" for pos s acc f
  proof (rule lex_skip [OF c])
    fix j
    assume j: "cursor st \<le> j" "j < length (work st)"
    show "take 1 (drop j (work st)) \<noteq> SEMI"
      using index_of_before [OF sp j(1)] j l2 by simp
    show "take 2 (drop j (work st @ f)) \<noteq> OPEN"
    proof (cases "j + 2 \<le> length (work st)")
      case True
      then show ?thesis using index_of_before [OF cp j(1)] l2 by simp
    next
      case False
      then have jl: "j = length (work st) - 1" using j by simp
      then have "drop j (work st) = [last (work st)]"
        using j Cons_nth_drop_Suc [OF j(2)] last_conv_nth [of "work st"] by (cases "work st = []") auto
      then have "take 2 (drop j (work st @ f)) = last (work st) # take 1 f" using j by simp
      then show ?thesis using ns j by (cases f) (auto simp: no_split_def OPEN_def)
    qed
  qed simp_all
  moreover have "pos + cursor st + (length (work st) - cursor st) = pos + length (work st)" for pos
    using c by simp
  ultimately have "same_events decode st st'"
    using inv by (simp add: same_events_def spec_from_def st'_def slice_def)
  moreover have "index_of OPEN (work st) (length (work st)) = - 1"
    by (simp add: index_of_def OPEN_def)
  ultimately show ?thesis
    using inv by (simp add: scan_inv_def st'_def push_piece_nonempty)
qed

lemma same_events_trans:
  "same_events d a b \<Longrightarrow> same_events d b c \<Longrightarrow> work b = work a \<Longrightarrow> same_events d a c"
  by (simp add: same_events_def)

text \<open>The inner loop returns on every state the scanner reaches, and reports nothing the
  specification does not.\<close>

lemma commentPos_cached:
  "scan_inv st \<Longrightarrow> \<not> inComment st \<Longrightarrow>
   (if commentPos st = - 2 then st\<lparr>commentPos := index_of OPEN (work st) (cursor st)\<rparr> else st) =
   st\<lparr>commentPos := index_of OPEN (work st) (cursor st)\<rparr>"
  by (auto simp: scan_inv_def)

lemma push_piece_commentPos: "push_piece p (st\<lparr>commentPos := q\<rparr>) = (push_piece p st)\<lparr>commentPos := q\<rparr>"
  by (simp add: push_piece_def)

lemma emit_segment_commentPos:
  "emit_segment d a (st\<lparr>commentPos := q\<rparr>) = (emit_segment d a st)\<lparr>commentPos := q\<rparr>"
  by (simp add: emit_segment_def Let_def)

lemma scan_unfold:
  assumes "scan_inv st" "\<not> inComment st"
  defines "cp \<equiv> index_of OPEN (work st) (cursor st)" and "sp \<equiv> index_of SEMI (work st) (cursor st)"
  shows "scan decode st =
    (if cp \<noteq> - 1 \<and> (sp = - 1 \<or> cp < sp) then
       scan decode ((push_piece (slice (cursor st) (nat cp) (work st)) st)
         \<lparr>commentPos := cp, cursor := nat cp + 2, inComment := True\<rparr>)
     else if sp \<noteq> - 1 then
       scan decode ((emit_segment decode (workBase st + nat sp)
                    (push_piece (slice (cursor st) (nat sp) (work st)) st))
                 \<lparr>commentPos := cp, cursor := nat sp + 1, segStart := workBase st + (nat sp + 1),
                  segChunks := []\<rparr>)
     else Some ((push_piece (drop (cursor st) (work st)) st)
                   \<lparr>commentPos := cp, cursor := length (work st)\<rparr>))"
  unfolding cp_def sp_def
  by (subst scan.simps)
     (simp add: assms(2) commentPos_cached [OF assms(1,2)] Let_def push_piece_commentPos
       emit_segment_commentPos del: One_nat_def)

definition drained :: "scan_state \<Rightarrow> bool" where
  "drained st \<longleftrightarrow> (if inComment st then index_of CLOSE (work st) (cursor st) = - 1
                   else cursor st = length (work st))"

lemma scan_simulates:
  assumes "scan_inv st"
  shows "\<exists>st'. scan decode st = Some st' \<and> scan_inv st' \<and> drained st' \<and> work st' = work st
    \<and> workBase st' = workBase st \<and> same_events decode st st'"
  using assms
proof (induction "length (work st) - cursor st" arbitrary: st rule: less_induct)
  case less
  let ?cp = "index_of OPEN (work st) (cursor st)" and ?sp = "index_of SEMI (work st) (cursor st)"
  let ?e = "index_of CLOSE (work st) (cursor st)"
  have go: "\<exists>st'. scan decode st = Some st' \<and> scan_inv st' \<and> drained st' \<and> work st' = work st
      \<and> workBase st' = workBase st \<and> same_events decode st st'"
    if step: "scan decode st = scan decode st1" "work st1 = work st" "workBase st1 = workBase st"
      "scan_inv st1 \<and> cursor st < cursor st1 \<and> same_events decode st st1" for st1
  proof -
    have "cursor st1 \<le> length (work st1)" "cursor st < cursor st1"
      using step(4) by (simp_all add: scan_inv_def)
    then have "length (work st1) - cursor st1 < length (work st) - cursor st"
      unfolding step(2) by arith
    from less.hyps [OF this] step show ?thesis by (auto intro: same_events_trans)
  qed
  show ?case
  proof (cases "inComment st")
    case True
    show ?thesis
    proof (cases "?e = - 1")
      case e: True
      then have "scan decode st = Some st" by (subst scan.simps) (simp add: True)
      then show ?thesis using less.prems e True by (simp add: same_events_def drained_def)
    next
      case e: False
      have "scan decode st =
          scan decode (st\<lparr>cursor := nat ?e + 2, inComment := False, commentPos := - 2\<rparr>)"
        by (subst scan.simps) (simp add: True e)
      from go [OF this _ _ step_comment_end [OF less.prems True refl e]] show ?thesis by simp
    qed
  next
    case False
    note unfold = scan_unfold [OF less.prems False, of decode]
    consider (opener) "?cp \<noteq> - 1" "?sp = - 1 \<or> ?cp < ?sp"
      | (semi) "\<not> (?cp \<noteq> - 1 \<and> (?sp = - 1 \<or> ?cp < ?sp))" "?sp \<noteq> - 1"
      | (none) "?cp = - 1" "?sp = - 1" by blast
    then show ?thesis
    proof cases
      case opener
      then have c: "?cp \<noteq> - 1 \<and> (?sp = - 1 \<or> ?cp < ?sp)" by blast
      note eq = unfold [unfolded if_P [OF c]]
      from go [OF eq _ _ step_comment_open [OF less.prems False refl opener(1) refl opener(2)]]
      show ?thesis by simp
    next
      case semi
      then have c: "?cp = - 1 \<or> \<not> ?cp < ?sp" by blast
      note eq = unfold [unfolded if_not_P [OF semi(1)] if_P [OF semi(2)]]
      from go [OF eq _ _ step_semi [OF less.prems False refl c refl semi(2)]]
      show ?thesis by simp
    next
      case none
      from step_exhausted [OF less.prems False none] none False
      show ?thesis unfolding unfold by (simp add: drained_def)
    qed
  qed
qed

section \<open>Chunks\<close>

lemma rebuild_facts:
  fixes chunk :: string
  assumes "scan_inv st"
  defines "st1 \<equiv> (rebuild chunk st)\<lparr>commentPos := - 2\<rparr>"
  shows "scan_inv st1" "drop (cursor st1) (work st1) = drop (cursor st) (work st) @ chunk"
    "spec_from st1 = spec_from st" "out st1 = out st"
    "workBase st1 + length (work st1) = workBase st + length (work st) + length chunk"
    "chunk \<noteq> [] \<Longrightarrow> work st1 \<noteq> [] \<and> last (work st1) = last chunk"
  using assms(1) by (auto simp: st1_def rebuild_def scan_inv_def spec_from_def fun_eq_iff)

lemma opener_split_tail: "\<not> opener_split (c # cs) \<Longrightarrow> \<not> opener_split cs"
  by simp

definition total_read :: "scan_state \<Rightarrow> nat" where
  "total_read st = workBase st + length (work st)"

lemma on_data_facts:
  assumes "scan_inv st" and "chunk \<noteq> []" and "no_split chunk f"
  shows "\<exists>st'. on_data decode chunk st = Some st' \<and> scan_inv st' \<and> drained st'
     \<and> total_read st' = total_read st + length chunk
     \<and> deliver decode (spec_from st (drop (cursor st) (work st) @ chunk @ f)) (out st) =
       deliver decode (spec_from st' (drop (cursor st') (work st') @ f)) (out st')"
proof -
  let ?st1 = "(rebuild chunk st)\<lparr>commentPos := - 2\<rparr>"
  note r = rebuild_facts [OF assms(1), of chunk]
  from scan_simulates [OF r(1), of decode] obtain st' where
    st': "scan decode ?st1 = Some st'" "scan_inv st' \<and> drained st'" "work st' = work ?st1"
      "workBase st' = workBase ?st1" "same_events decode ?st1 st'" by blast
  have "no_split (work ?st1) f" using r(6) [OF assms(2)] assms(2,3) by (simp add: no_split_def)
  with st'(3,5) r(2-4) have "deliver decode (spec_from st (drop (cursor st) (work st) @ chunk @ f)) (out st) =
       deliver decode (spec_from st' (drop (cursor st') (work st') @ f)) (out st')"
    by (simp add: same_events_def)
  with st' r(5) show ?thesis by (simp add: on_data_def total_read_def)
qed

lemma feed_facts:
  assumes "scan_inv st" and "drained st" and "[] \<notin> set cs" and "\<not> opener_split cs"
  shows "\<exists>st'. feed decode cs st = Some st' \<and> scan_inv st' \<and> drained st'
     \<and> total_read st' = total_read st + length (concat cs)
     \<and> deliver decode (spec_from st (drop (cursor st) (work st) @ concat cs)) (out st) =
       deliver decode (spec_from st' (drop (cursor st') (work st'))) (out st')"
  using assms
proof (induction cs arbitrary: st)
  case (Cons c cs)
  have "no_split c (concat cs)" using Cons.prems(4) by (auto simp: no_split_def)
  from on_data_facts [OF Cons.prems(1) _ this, of decode] Cons.prems(3) obtain st1 where
    st1: "on_data decode c st = Some st1" "scan_inv st1" "drained st1" "total_read st1 = total_read st + length c"
      "deliver decode (spec_from st (drop (cursor st) (work st) @ c @ concat cs)) (out st) =
       deliver decode (spec_from st1 (drop (cursor st1) (work st1) @ concat cs)) (out st1)"
    by auto
  from Cons.IH [OF st1(2,3)] Cons.prems(3,4) st1 show ?case by auto
qed simp

lemma lex_unread_tail:
  "(\<not> c \<longrightarrow> xs = []) \<Longrightarrow> index_of CLOSE xs 0 = - 1 \<Longrightarrow>
   lex c pos st acc xs = ([], acc, st, pos + length xs - st)"
proof (induction c pos st acc xs rule: lex.induct)
  case (3 pos st acc x xs)
  have "\<not> (x = CHR ''*'' \<and> xs \<noteq> [] \<and> hd xs = CHR ''/'')"
    using 3(4) by (cases xs) (auto simp: index_of_def CLOSE_def)
  moreover have "index_of CLOSE xs 0 = - 1"
    using 3(4) by (auto simp: index_of_def split: if_splits option.splits)
  ultimately show ?case using 3(2) by auto
qed simp_all

lemma on_end_deliver:
  assumes "scan_inv st" and "drained st"
  shows "deliver decode (spec_from st (drop (cursor st) (work st))) (out st) = on_end decode st"
proof -
  let ?acc = "concat (segChunks st)"
  have c: "cursor st \<le> length (work st)" using assms(1) by (simp add: scan_inv_def)
  have "lex (inComment st) (workBase st + cursor st) (segStart st) ?acc (drop (cursor st) (work st)) =
      ([], ?acc, segStart st, workBase st + cursor st + length (drop (cursor st) (work st)) - segStart st)"
    using assms(2) by (intro lex_unread_tail) (auto simp: drained_def index_of_def CLOSE_def split: if_splits option.splits)
  moreover have "?acc = [] \<longleftrightarrow> segChunks st = []"
    using assms(1) by (cases "segChunks st") (auto simp: scan_inv_def)
  moreover have "workBase st + cursor st + length (drop (cursor st) (work st)) =
      workBase st + length (work st)" using c by simp
  ultimately show ?thesis
    by (auto simp: spec_from_def deliver_def on_end_def handle_segment_def Let_def)
qed

text \<open>
  The scanner returns for every file and every chunking, and it reports what the one-pass
  specification reports, provided no comment opener straddles a chunk boundary.
\<close>

lemma scanStep_refines:
  assumes "[] \<notin> set chunks" and "\<not> opener_split chunks"
  shows "scanStep decode chunks = Some (scan_spec decode (concat chunks))"
proof -
  have init: "scan_inv scan_init" "drained scan_init"
    by (simp_all add: scan_inv_def drained_def scan_init_def)
  from feed_facts [OF init assms, of decode] obtain st where
    st: "feed decode chunks scan_init = Some st" "scan_inv st" "drained st"
      "deliver decode (spec_from scan_init (drop (cursor scan_init) (work scan_init) @ concat chunks))
         (out scan_init) = deliver decode (spec_from st (drop (cursor st) (work st))) (out st)"
    by blast
  then show ?thesis
    using on_end_deliver [OF st(2,3)]
    by (simp add: scanStep_def scan_spec_def) (simp add: scan_init_def spec_from_def)
qed

lemma scan_returns:
  assumes "scan_inv st"
  shows "\<exists>st'. feed decode cs st = Some st' \<and> scan_inv st'"
  using assms
proof (induction cs arbitrary: st)
  case (Cons c cs)
  from scan_simulates [OF rebuild_facts(1) [OF Cons.prems], of decode c] Cons.IH
  show ?case by (fastforce simp: on_data_def)
qed simp

section \<open>Byte ranges\<close>

text \<open>
  \<open>strip\<close> removes the comments of a piece of text; its flag says whether the piece starts
  inside one. A segment of the specification is the text of the byte range it reports.
\<close>

fun strip :: "bool \<Rightarrow> string \<Rightarrow> string" where
  "strip c [] = []"
| "strip False (x # xs) =
     (if x = CHR ''/'' \<and> xs \<noteq> [] \<and> hd xs = CHR ''*'' then strip True (tl xs) else x # strip False xs)"
| "strip True (x # xs) =
     (if x = CHR ''*'' \<and> xs \<noteq> [] \<and> hd xs = CHR ''/'' then strip False (tl xs) else strip True xs)"

fun ends_open :: "bool \<Rightarrow> string \<Rightarrow> bool" where
  \<comment> \<open>the text stops inside a comment\<close>
  "ends_open c [] = c"
| "ends_open False (x # xs) =
     (if x = CHR ''/'' \<and> xs \<noteq> [] \<and> hd xs = CHR ''*'' then ends_open True (tl xs) else ends_open False xs)"
| "ends_open True (x # xs) =
     (if x = CHR ''*'' \<and> xs \<noteq> [] \<and> hd xs = CHR ''/'' then ends_open False (tl xs) else ends_open True xs)"

fun semi_free :: "bool \<Rightarrow> string \<Rightarrow> bool" where
  \<comment> \<open>every semicolon of the text stands inside a comment\<close>
  "semi_free c [] = True"
| "semi_free False (x # xs) =
     (if x = CHR ''/'' \<and> xs \<noteq> [] \<and> hd xs = CHR ''*'' then semi_free True (tl xs)
      else x \<noteq> CHR '';'' \<and> semi_free False xs)"
| "semi_free True (x # xs) =
     (if x = CHR ''*'' \<and> xs \<noteq> [] \<and> hd xs = CHR ''/'' then semi_free False (tl xs) else semi_free True xs)"

lemma hd_take: "take k xs \<noteq> [] \<Longrightarrow> hd (take k xs) = hd xs"
  by (cases k; cases xs) auto

lemma lex_first:
  assumes "lex c pos st acc xs = ((t, s, l) # ss, tr)"
  shows "\<exists>k < length xs. s = st \<and> t = acc @ strip c (take k xs) \<and> \<not> ends_open c (take k xs)
    \<and> semi_free c (take k xs) \<and> xs ! k = CHR '';'' \<and> l = pos + k - st + 1
    \<and> lex False (pos + k + 1) (pos + k + 1) [] (drop (k + 1) xs) = (ss, tr)"
  using assms
proof (induction c pos st acc xs rule: lex.induct)
  case (2 pos st acc x xs)
  consider (semi) "x = CHR '';''"
    | (op) "x = CHR ''/''" "xs \<noteq> []" "hd xs = CHR ''*''"
    | (other) "x \<noteq> CHR '';''" "\<not> (x = CHR ''/'' \<and> xs \<noteq> [] \<and> hd xs = CHR ''*'')" by blast
  then show ?case
  proof cases
    case semi
    with 2(4) show ?thesis by (intro exI [of _ 0]) (auto split: prod.splits)
  next
    case op
    then obtain ys where xs: "xs = CHR ''*'' # ys" by (cases xs) auto
    from op 2(4) have "lex True (pos + 2) st acc (tl xs) = ((t, s, l) # ss, tr)" by simp
    from 2(2) [OF _ _ this] op obtain k where k: "k < length ys" "s = st"
      "t = acc @ strip True (take k ys)" "\<not> ends_open True (take k ys)" "semi_free True (take k ys)" "ys ! k = CHR '';''" "l = pos + 2 + k - st + 1"
      "lex False (pos + 2 + k + 1) (pos + 2 + k + 1) [] (drop (k + 1) ys) = (ss, tr)"
      by (auto simp: xs)
    then show ?thesis by (intro exI [of _ "k + 2"]) (simp add: xs op)
  next
    case other
    with 2(4) have "lex False (pos + 1) st (acc @ [x]) xs = ((t, s, l) # ss, tr)" by auto
    from 2(3) [OF other this] obtain k where k: "k < length xs" "s = st"
      "t = (acc @ [x]) @ strip False (take k xs)" "\<not> ends_open False (take k xs)" "semi_free False (take k xs)" "xs ! k = CHR '';''" "l = pos + 1 + k - st + 1"
      "lex False (pos + 1 + k + 1) (pos + 1 + k + 1) [] (drop (k + 1) xs) = (ss, tr)"
      by blast
    have "strip False (x # take k xs) = x # strip False (take k xs)"
      "ends_open False (x # take k xs) = ends_open False (take k xs)"
      "semi_free False (x # take k xs) = semi_free False (take k xs)"
      using other by (auto simp: hd_take)
    with k show ?thesis by (intro exI [of _ "k + 1"]) simp
  qed
next
  case (3 pos st acc x xs)
  show ?case
  proof (cases "x = CHR ''*'' \<and> xs \<noteq> [] \<and> hd xs = CHR ''/''")
    case True
    then obtain ys where xs: "xs = CHR ''/'' # ys" by (cases xs) auto
    from True 3(3) have "lex False (pos + 2) st acc (tl xs) = ((t, s, l) # ss, tr)" by simp
    from 3(1) [OF True this] obtain k where k: "k < length ys" "s = st"
      "t = acc @ strip False (take k ys)" "\<not> ends_open False (take k ys)" "semi_free False (take k ys)" "ys ! k = CHR '';''" "l = pos + 2 + k - st + 1"
      "lex False (pos + 2 + k + 1) (pos + 2 + k + 1) [] (drop (k + 1) ys) = (ss, tr)"
      by (auto simp: xs)
    then show ?thesis using True by (intro exI [of _ "k + 2"]) (simp add: xs)
  next
    case False
    with 3(3) have "lex True (pos + 1) st acc xs = ((t, s, l) # ss, tr)" by auto
    from 3(2) [OF False this] obtain k where k: "k < length xs" "s = st"
      "t = acc @ strip True (take k xs)" "\<not> ends_open True (take k xs)" "semi_free True (take k xs)" "xs ! k = CHR '';''" "l = pos + 1 + k - st + 1"
      "lex False (pos + 1 + k + 1) (pos + 1 + k + 1) [] (drop (k + 1) xs) = (ss, tr)"
      by blast
    have "strip True (x # take k xs) = strip True (take k xs)"
      "ends_open True (x # take k xs) = ends_open True (take k xs)"
      "semi_free True (x # take k xs) = semi_free True (take k xs)"
      using False by (auto simp: hd_take)
    with k show ?thesis by (intro exI [of _ "k + 1"]) simp
  qed
qed simp

fun tiles :: "string \<Rightarrow> nat \<Rightarrow> seg list \<Rightarrow> bool" where
  \<comment> \<open>from offset \<open>p\<close> on, the segments follow each other without a gap, and each is the
      comment-free text of its bytes up to the closing semicolon\<close>
  "tiles bytes p [] = True"
| "tiles bytes p ((t, s, l) # ss) =
     (s = p \<and> 0 < l \<and> s + l \<le> length bytes \<and> bytes ! (s + l - 1) = CHR '';''
      \<and> \<not> ends_open False (slice s (s + l - 1) bytes) \<and> semi_free False (slice s (s + l - 1) bytes)
      \<and> t = strip False (slice s (s + l - 1) bytes) \<and> tiles bytes (s + l) ss)"

lemma lex_tiles:
  assumes "lex False p p [] (drop p bytes) = (ss, tr)" and "p \<le> length bytes"
  shows "tiles bytes p ss"
  using assms
proof (induction ss arbitrary: p)
  case (Cons seg ss)
  obtain t s l where seg: "seg = (t, s, l)" by (cases seg)
  from lex_first [OF Cons.prems(1) [unfolded seg]] obtain k where
    k: "k < length (drop p bytes)" "s = p" "t = strip False (take k (drop p bytes))"
      "\<not> ends_open False (take k (drop p bytes))" "semi_free False (take k (drop p bytes))"
      "drop p bytes ! k = CHR '';''" "l = k + 1"
      "lex False (p + k + 1) (p + k + 1) [] (drop (k + 1) (drop p bytes)) = (ss, tr)"
    by auto
  from k(8) have "lex False (s + l) (s + l) [] (drop (s + l) bytes) = (ss, tr)"
    using k(2,7) by (simp add: add.commute)
  with Cons.IH [of "s + l"] k show ?case
    by (simp add: seg slice_def drop_take add.commute)
qed simp

lemma tiles_mem:
  "tiles bytes p ss \<Longrightarrow> (t, s, l) \<in> set ss \<Longrightarrow>
   p \<le> s \<and> 0 < l \<and> s + l \<le> length bytes \<and> bytes ! (s + l - 1) = CHR '';''
     \<and> \<not> ends_open False (slice s (s + l - 1) bytes) \<and> semi_free False (slice s (s + l - 1) bytes)
     \<and> t = strip False (slice s (s + l - 1) bytes)"
  by (induction bytes p ss rule: tiles.induct) auto

lemma tiles_sorted:
  "tiles bytes p ss \<Longrightarrow> sorted_wrt (\<lambda>(_, s, l) (_, s', _). s + l \<le> s') ss"
  by (induction bytes p ss rule: tiles.induct) (auto dest: tiles_mem)

fun event_seg :: "(string \<Rightarrow> string) \<Rightarrow> seg \<Rightarrow> scan_event \<Rightarrow> bool" where
  "event_seg decode (t, s, l) (OnEntity eid ty text offset len) =
     (text = normalise (decode t) \<and> offset = s \<and> len = l \<and> eid = entity_id text
      \<and> ty = (if eid = None then None else Some (entity_type text))
      \<and> text \<notin> {[], ''HEADER'', ''DATA'', ''ENDSEC''})"
| "event_seg decode sg (OnHeader h) = True"

lemma handle_segment_emitted:
  "emitted (handle_segment text s l h) = emitted h \<or>
   (\<exists>e. emitted (handle_segment text s l h) = emitted h @ [e]
      \<and> (case e of OnHeader _ \<Rightarrow> True
         | OnEntity eid ty tx off len \<Rightarrow> tx = text \<and> off = s \<and> len = l \<and> eid = entity_id text
             \<and> ty = (if eid = None then None else Some (entity_type text))
             \<and> text \<notin> {[], ''HEADER'', ''DATA'', ''ENDSEC''}))"
  by (auto simp: handle_segment_def Let_def)

lemma fold_deliver_emitted:
  "\<exists>es. emitted (fold (\<lambda>(a, s, l). handle_segment (normalise (decode a)) s l) ss h) = emitted h @ es
     \<and> (\<forall>e \<in> set es. \<exists>sg \<in> set ss. event_seg decode sg e)"
proof (induction ss arbitrary: h)
  case (Cons sg ss)
  obtain a s l where sg: "sg = (a, s, l)" by (cases sg)
  let ?h = "handle_segment (normalise (decode a)) s l h"
  from Cons.IH [of ?h] obtain es where
    es: "emitted (fold (\<lambda>(a, s, l). handle_segment (normalise (decode a)) s l) ss ?h) = emitted ?h @ es"
      "\<forall>e \<in> set es. \<exists>sg \<in> set ss. event_seg decode sg e" by blast
  from handle_segment_emitted [of "normalise (decode a)" s l h] show ?case
  proof
    assume "emitted ?h = emitted h"
    with es show ?thesis by (intro exI [of _ es]) (auto simp: sg)
  next
    assume "\<exists>e. emitted ?h = emitted h @ [e] \<and> (case e of OnHeader _ \<Rightarrow> True
         | OnEntity eid ty tx off len \<Rightarrow> tx = normalise (decode a) \<and> off = s \<and> len = l
             \<and> eid = entity_id (normalise (decode a))
             \<and> ty = (if eid = None then None else Some (entity_type (normalise (decode a))))
             \<and> normalise (decode a) \<notin> {[], ''HEADER'', ''DATA'', ''ENDSEC''})"
    then obtain e where e: "emitted ?h = emitted h @ [e]" "event_seg decode sg e"
      by (elim exE conjE) (rename_tac e, case_tac e, auto simp: sg)
    with es show ?thesis by (intro exI [of _ "e # es"]) (auto simp: sg)
  qed
qed simp

definition terminated :: "(string \<Rightarrow> string) \<Rightarrow> string \<Rightarrow> bool" where
  \<comment> \<open>nothing but white space and comments follows the last semicolon\<close>
  "terminated decode bytes =
     (let rest = fst (snd (lex False 0 0 [] bytes)) in rest = [] \<or> normalise (decode rest) = [])"

lemma scan_spec_terminated:
  assumes "terminated decode bytes"
  shows "scan_spec decode bytes =
    emitted (fold (\<lambda>(a, s, l). handle_segment (normalise (decode a)) s l) (fst (lex False 0 0 [] bytes))
      \<lparr>headerLines = [], inHeader = False, inData = False, emitted = []\<rparr>)"
  using assms
  by (auto simp: scan_spec_def deliver_def terminated_def Let_def handle_segment_def split: prod.splits)

lemma scan_spec_ranges:
  assumes "OnEntity eid ty text offset len \<in> set (scan_spec decode bytes)"
    and "terminated decode bytes"
  shows "0 < len \<and> offset + len \<le> length bytes \<and> bytes ! (offset + len - 1) = CHR '';''
    \<and> \<not> ends_open False (slice offset (offset + len - 1) bytes)
    \<and> semi_free False (slice offset (offset + len - 1) bytes)
    \<and> text = normalise (decode (strip False (slice offset (offset + len - 1) bytes)))
    \<and> eid = entity_id text \<and> ty = (if eid = None then None else Some (entity_type text))
    \<and> text \<notin> {[], ''HEADER'', ''DATA'', ''ENDSEC''}"
proof -
  obtain ss tr where lx: "lex False 0 0 [] bytes = (ss, tr)" by (cases "lex False 0 0 [] bytes")
  have tl: "tiles bytes 0 ss" using lex_tiles [of 0 bytes ss] lx by simp
  let ?h0 = "\<lparr>headerLines = [], inHeader = False, inData = False, emitted = []\<rparr>"
  have "OnEntity eid ty text offset len \<in> set (emitted
      (fold (\<lambda>(a, s, l). handle_segment (normalise (decode a)) s l) ss ?h0))"
    using assms by (simp add: scan_spec_terminated lx)
  with fold_deliver_emitted [of decode ss ?h0] obtain sg where
    "sg \<in> set ss" "event_seg decode sg (OnEntity eid ty text offset len)" by fastforce
  with tiles_mem [OF tl] show ?thesis by (cases sg) auto
qed

section \<open>Random access\<close>

text \<open>
  \<open>readEntitiesAt\<close> reads each range into a fresh buffer. \<open>Buffer.allocUnsafe\<close> leaves bytes past the
  end of the file uninitialised: \<open>junk\<close> stands for them. The consumer's text of a fetched record,
  in \<open>resolveAssemblyGeometry\<close>, is \<open>reread\<close>.
\<close>

definition read_range :: "(nat \<Rightarrow> string) \<Rightarrow> string \<Rightarrow> nat \<times> nat \<Rightarrow> string" where
  "read_range junk bytes r = (case r of (offset, len) \<Rightarrow>
     let got = slice offset (offset + len) bytes in got @ drop (length got) (take len (junk len)))"

definition readEntitiesAt ::
  "(nat \<Rightarrow> string) \<Rightarrow> string \<Rightarrow> (nat \<times> nat) list \<Rightarrow> (string \<Rightarrow> nat \<times> nat \<Rightarrow> 's \<Rightarrow> 's) \<Rightarrow> 's \<Rightarrow> 's" where
  "readEntitiesAt junk bytes ranges onEntity =
     fold (\<lambda>r. onEntity (read_range junk bytes r) r) ranges"

definition rx_comment :: rx where                \<comment> \<open>\<open>/\/\*[\s\S]*?\*\//g\<close>\<close>
  "rx_comment = RCat [RLit OPEN, RStar False (RSet (\<lambda>_. True)), RLit CLOSE]"

definition reread :: "(string \<Rightarrow> string) \<Rightarrow> string \<Rightarrow> string" where
  "reread decode raw =
     trim (butlast (js_replace rx_newline (\<lambda>_. '' '')
       (js_replace rx_comment (\<lambda>_. []) (decode raw))))"

lemma length_marks [simp]: "length OPEN = 2" "length CLOSE = 2"
  by (simp_all add: OPEN_def CLOSE_def)

lemma rx_at_comment:
  "rx_at rx_comment i s =
     (if starts_with s OPEN then map_option (\<lambda>k. \<lparr>mpos = i + (k + 4), mrest = drop (k + 4) s, mcaps = []\<rparr>)
        (find_sub CLOSE (drop 2 s)) else None)"
proof (cases "starts_with s OPEN")
  case True
  define m :: mstate where "m = \<lparr>mpos = i + 2, mrest = drop 2 s, mcaps = []\<rparr>"
  have "rx_run rx_comment \<lparr>mpos = i, mrest = s, mcaps = []\<rparr> =
      concat (map (\<lambda>k. if starts_with (drop k (drop 2 s)) CLOSE then [advance (2 + k) m] else [])
        [0..<Suc (length (drop 2 s))])"
    using True by (simp add: rx_comment_def rx_run_lit rx_run_lazy_any advance_def
        m_def comp_def add.commute add.left_commute if_distrib del: upt_Suc cong: if_cong)
  also have "\<dots> = (case find_sub CLOSE (drop 2 s) of None \<Rightarrow> [] | Some k \<Rightarrow> advance (2 + k) m #
      concat (map (\<lambda>k. if starts_with (drop k (drop 2 s)) CLOSE then [advance (2 + k) m] else [])
        [Suc k..<Suc (length (drop 2 s))]))"
    by (rule first_find_sub [where f = "\<lambda>k. advance (2 + k) m"]) (simp add: CLOSE_def)
  moreover have "drop (Suc (Suc (Suc (Suc k)))) s = drop (k + 4) s" for k
    by (simp add: numeral_eq_Suc)
  ultimately show ?thesis
    using True by (simp add: rx_at_def m_def advance_def split: option.split)
next
  case False
  then show ?thesis by (simp add: rx_at_def rx_comment_def rx_run_lit)
qed

lemma consumes_comment [simp]: "consumes rx_comment"
proof -
  have "length (mrest m) < length s" if "rx_at rx_comment i s = Some m" for i s m
  proof -
    from that have "starts_with s OPEN" "mrest m = drop (the (find_sub CLOSE (drop 2 s)) + 4) s"
      by (auto simp: rx_at_comment split: if_splits)
    moreover from this(1) have "0 < length s" by (cases s) (auto simp: starts_with_def OPEN_def)
    ultimately show ?thesis by simp
  qed
  then show ?thesis by (simp add: consumes_def)
qed

lemma comment_closes:
  "\<not> ends_open True s \<Longrightarrow>
   \<exists>k. find_sub CLOSE s = Some k \<and> strip True s = strip False (drop (k + 2) s)
     \<and> \<not> ends_open False (drop (k + 2) s)"
proof (induction s)
  case (Cons x xs)
  show ?case
  proof (cases "x = CHR ''*'' \<and> xs \<noteq> [] \<and> hd xs = CHR ''/''")
    case True
    then obtain ys where "xs = CHR ''/'' # ys" by (cases xs) auto
    with True Cons.prems show ?thesis by (auto simp: CLOSE_def)
  next
    case False
    with Cons.prems have op: "\<not> ends_open True xs" by (auto split: if_splits)
    from Cons.IH [OF op] obtain k where
      "find_sub CLOSE xs = Some k" "strip True xs = strip False (drop (k + 2) xs)"
      "\<not> ends_open False (drop (k + 2) xs)" by blast
    with False show ?thesis
      by (intro exI [of _ "Suc k"]) (cases xs, auto simp: CLOSE_def)
  qed
qed simp

lemma repl_comment:
  "\<not> ends_open False s \<Longrightarrow> repl_from rx_comment (\<lambda>_. []) i s = strip False s"
proof (induction "length s" arbitrary: s i rule: less_induct)
  case less
  show ?case
  proof (cases s)
    case (Cons x xs)
    show ?thesis
    proof (cases "x = CHR ''/'' \<and> xs \<noteq> [] \<and> hd xs = CHR ''*''")
      case True
      then obtain ys where xs: "xs = CHR ''*'' # ys" by (cases xs) auto
      from less.prems True Cons xs have "\<not> ends_open True ys" by simp
      from comment_closes [OF this] obtain k where k: "find_sub CLOSE ys = Some k"
        "strip True ys = strip False (drop (k + 2) ys)" "\<not> ends_open False (drop (k + 2) ys)"
        by blast
      have "rx_at rx_comment i s = Some \<lparr>mpos = i + (k + 4), mrest = drop (k + 2) ys, mcaps = []\<rparr>"
        using True k(1)
        by (simp add: rx_at_comment Cons xs starts_with_def OPEN_def numeral_eq_Suc)
      then show ?thesis
        using less.hyps [of "drop (k + 2) ys"] k True by (simp add: repl_from_hit Cons xs)
    next
      case False
      then have "\<not> starts_with s OPEN"
        by (cases xs) (auto simp: Cons starts_with_def OPEN_def)
      then have "rx_at rx_comment i (x # xs) = None" by (simp add: rx_at_comment Cons)
      moreover have "\<not> ends_open False xs" using less.prems False Cons by (auto split: if_splits)
      ultimately show ?thesis
        using less.hyps [of xs] False by (auto simp: Cons repl_from_skip)
    qed
  qed simp
qed

lemma replace_comment: "\<not> ends_open False s \<Longrightarrow> js_replace rx_comment (\<lambda>_. []) s = strip False s"
  by (simp add: js_replace_from repl_comment)

lemma strip_snoc_semi:
  "\<not> ends_open c s \<Longrightarrow> strip c (s @ '';'') = strip c s @ '';'' \<and> \<not> ends_open c (s @ '';'')"
proof (induction c s rule: strip.induct)
  case (2 x xs)
  then show ?case by (cases xs) (auto split: if_splits)
next
  case (3 x xs)
  then show ?case by (cases xs) (auto split: if_splits)
qed simp

lemma set_strip: "set (strip c s) \<subseteq> set s"
proof (induction c s rule: strip.induct)
  case (2 x xs)
  then show ?case by (cases xs) auto
next
  case (3 x xs)
  then show ?case by (cases xs) auto
qed simp

lemma rx_at_newline:
  "rx_at rx_newline i s =
     (if starts_with s [cr, nl] then Some \<lparr>mpos = i + 2, mrest = drop 2 s, mcaps = []\<rparr>
      else if starts_with s [nl] then Some \<lparr>mpos = i + 1, mrest = drop 1 s, mcaps = []\<rparr> else None)"
  by (cases s; cases "tl s")
    (auto simp: rx_at_def rx_newline_def ROpt_def rx_run_chr starts_with_def advance_def nl_def cr_def)

lemma consumes_newline [simp]: "consumes rx_newline"
proof -
  have "length (mrest m) < length s" if "rx_at rx_newline i s = Some m" for i s m
    using that by (cases s) (auto simp: rx_at_newline starts_with_def split: if_splits)
  then show ?thesis by (simp add: consumes_def)
qed

lemma repl_newline_snoc:
  "repl_from rx_newline (\<lambda>_. '' '') i (s @ '';'') = repl_from rx_newline (\<lambda>_. '' '') i s @ '';''"
proof (induction "length s" arbitrary: s i rule: less_induct)
  case less
  show ?case
  proof (cases s)
    case Nil
    have "rx_at rx_newline i '';'' = None" by (simp add: rx_at_newline starts_with_def nl_def cr_def)
    then show ?thesis by (simp add: Nil repl_from_skip)
  next
    case (Cons x xs)
    have sw: "starts_with (s @ '';'') [cr, nl] = starts_with s [cr, nl]"
      "starts_with (s @ '';'') [nl] = starts_with s [nl]"
      by (cases xs; simp add: Cons starts_with_def nl_def)+
    consider (crnl) "starts_with s [cr, nl]" | (nl) "\<not> starts_with s [cr, nl]" "starts_with s [nl]"
      | (no) "\<not> starts_with s [cr, nl]" "\<not> starts_with s [nl]" by blast
    then show ?thesis
    proof cases
      case crnl
      then obtain ys where s: "s = cr # nl # ys" by (cases xs) (auto simp: Cons starts_with_def)
      have "rx_at rx_newline i (s @ '';'') = Some \<lparr>mpos = i + 2, mrest = ys @ '';'', mcaps = []\<rparr>"
        "rx_at rx_newline i s = Some \<lparr>mpos = i + 2, mrest = ys, mcaps = []\<rparr>"
        by (simp_all add: rx_at_newline s starts_with_def)
      then show ?thesis using less.hyps [of ys] by (simp add: repl_from_hit s)
    next
      case nl
      have "rx_at rx_newline i (s @ '';'') = Some \<lparr>mpos = i + 1, mrest = xs @ '';'', mcaps = []\<rparr>"
        "rx_at rx_newline i s = Some \<lparr>mpos = i + 1, mrest = xs, mcaps = []\<rparr>"
        using nl sw by (simp_all add: rx_at_newline Cons)
      then show ?thesis using less.hyps [of xs] by (simp add: repl_from_hit Cons)
    next
      case no
      then have "rx_at rx_newline i (x # xs @ '';'') = None" "rx_at rx_newline i (x # xs) = None"
        using sw by (simp_all add: rx_at_newline Cons)
      then show ?thesis using less.hyps [of xs] by (simp add: repl_from_skip Cons)
    qed
  qed
qed

lemma reread_strip:
  assumes "\<not> ends_open False raw"
  shows "reread (\<lambda>s. s) (raw @ '';'') = normalise (strip False raw)"
  using strip_snoc_semi [OF assms]
  by (simp add: reread_def replace_comment js_replace_from repl_comment repl_newline_snoc normalise_def)

definition ascii :: "string \<Rightarrow> bool" where
  "ascii s = list_all (\<lambda>c. of_char c < (128 :: nat)) s"

definition ascii_decoder :: "(string \<Rightarrow> string) \<Rightarrow> bool" where
  \<comment> \<open>UTF-8 decoding leaves 7-bit text unchanged\<close>
  "ascii_decoder decode \<longleftrightarrow> (\<forall>s. ascii s \<longrightarrow> decode s = s)"

lemma ascii_subset: "ascii s \<Longrightarrow> set t \<subseteq> set s \<Longrightarrow> ascii t"
  by (auto simp: ascii_def list_all_iff)

lemma set_slice: "set (slice a b s) \<subseteq> set s"
  unfolding slice_def using set_drop_subset set_take_subset by (metis order_trans)

lemma slice_snoc: "a \<le> b \<Longrightarrow> b < length s \<Longrightarrow> slice a (Suc b) s = slice a b s @ [s ! b]"
  by (simp add: slice_def take_Suc_conv_app_nth)

lemma read_range_inside: "offset + len \<le> length bytes \<Longrightarrow>
   read_range junk bytes (offset, len) = slice offset (offset + len) bytes"
  by (simp add: read_range_def Let_def)

fun event_ranges :: "scan_event list \<Rightarrow> (nat \<times> nat) list" where
  "event_ranges [] = []"
| "event_ranges (OnEntity eid ty text offset len # es) = (offset, len) # event_ranges es"
| "event_ranges (OnHeader h # es) = event_ranges es"

lemma event_ranges_append [simp]: "event_ranges (a @ b) = event_ranges a @ event_ranges b"
  by (induction a rule: event_ranges.induct) auto

lemma fold_deliver_ranges:
  "\<exists>es. emitted (fold (\<lambda>(a, s, l). handle_segment (normalise (decode a)) s l) ss h) = emitted h @ es
     \<and> subseq (event_ranges es) (map snd ss)"
proof (induction ss arbitrary: h)
  case (Cons sg ss)
  obtain a s l where sg: "sg = (a, s, l)" by (cases sg)
  let ?h = "handle_segment (normalise (decode a)) s l h"
  from Cons.IH [of ?h] obtain es where
    es: "emitted (fold (\<lambda>(a, s, l). handle_segment (normalise (decode a)) s l) ss ?h) = emitted ?h @ es"
      "subseq (event_ranges es) (map snd ss)" by blast
  have "\<exists>e. emitted ?h = emitted h @ e \<and> (event_ranges e = [] \<or> event_ranges e = [(s, l)])"
    by (auto simp: handle_segment_def Let_def)
  then obtain e where "emitted ?h = emitted h @ e" "event_ranges e = [] \<or> event_ranges e = [(s, l)]"
    by blast
  with es show ?case by (intro exI [of _ "e @ es"]) (auto simp: sg)
qed simp

lemma sorted_wrt_subseq: "subseq xs ys \<Longrightarrow> sorted_wrt P ys \<Longrightarrow> sorted_wrt P xs"
proof (induction xs ys rule: list_emb.induct)
  case (list_emb_Cons2 x y xs ys)
  have "set xs \<subseteq> set ys"
    using list_emb_Cons2.hyps(2) by (auto dest: list_emb_set)
  with list_emb_Cons2 show ?case by auto
qed auto

section \<open>Concatenated records\<close>

lemma lex_record:
  "\<not> ends_open c body \<Longrightarrow> semi_free c body \<Longrightarrow>
   lex c pos st acc (body @ CHR '';'' # ys) =
     (case lex False (pos + length body + 1) (pos + length body + 1) [] ys of
        (ss, t) \<Rightarrow> ((acc @ strip c body, st, pos + length body - st + 1) # ss, t))"
proof (induction c body arbitrary: pos acc rule: strip.induct)
  case (1 c)
  then show ?case by simp
next
  case (2 x xs)
  show ?case
  proof (cases "x = CHR ''/'' \<and> xs \<noteq> [] \<and> hd xs = CHR ''*''")
    case True
    then obtain zs where "xs = CHR ''*'' # zs" by (cases xs) auto
    with True 2 show ?thesis by simp
  next
    case False
    then have "\<not> (x = CHR ''/'' \<and> hd (xs @ CHR '';'' # ys) = CHR ''*'')"
      by (cases xs) auto
    with False 2 show ?thesis by (auto split: prod.splits)
  qed
next
  case (3 x xs)
  show ?case
  proof (cases "x = CHR ''*'' \<and> xs \<noteq> [] \<and> hd xs = CHR ''/''")
    case True
    then obtain zs where "xs = CHR ''/'' # zs" by (cases xs) auto
    with True 3 show ?thesis by simp
  next
    case False
    then have "\<not> (x = CHR ''*'' \<and> hd (xs @ CHR '';'' # ys) = CHR ''/'')"
      by (cases xs) auto
    with False 3 show ?thesis by (auto split: prod.splits)
  qed
qed

lemma lex_append:
  "lex c pos st acc xs = (ss, (a, s, l)) \<Longrightarrow> \<not> ends_open c xs \<Longrightarrow>
   xs = [] \<or> last xs \<noteq> CHR ''/'' \<and> last xs \<noteq> CHR ''*'' \<Longrightarrow>
   lex c pos st acc (xs @ ys) = (case lex False (pos + length xs) s a ys of (ss', t) \<Rightarrow> (ss @ ss', t))"
proof (induction c pos st acc xs arbitrary: ss rule: lex.induct)
  case (1 c pos st acc)
  then show ?case by simp
next
  case (2 pos st acc x xs)
  consider (semi) "x = CHR '';''"
    | (op) "x = CHR ''/''" "xs \<noteq> []" "hd xs = CHR ''*''"
    | (other) "x \<noteq> CHR '';''" "\<not> (x = CHR ''/'' \<and> xs \<noteq> [] \<and> hd xs = CHR ''*'')" by blast
  then show ?case
  proof cases
    case semi
    then obtain ss1 where "lex False (pos + 1) (pos + 1) [] xs = (ss1, (a, s, l))" "ss = (acc, st, pos - st + 1) # ss1"
      using "2.prems"(1) by (auto split: prod.splits)
    moreover have "\<not> ends_open False xs" "xs = [] \<or> last xs \<noteq> CHR ''/'' \<and> last xs \<noteq> CHR ''*''"
      using "2.prems"(2,3) semi by auto
    ultimately show ?thesis using "2.IH"(1) [OF semi, of ss1] semi by (simp split: prod.split)
  next
    case op
    then obtain zs where xs: "xs = CHR ''*'' # zs" by (cases xs) auto
    have "lex True (pos + 2) st acc zs = (ss, (a, s, l))" "\<not> ends_open True zs"
      "zs = [] \<or> last zs \<noteq> CHR ''/'' \<and> last zs \<noteq> CHR ''*''"
      using "2.prems" op xs by auto
    then show ?thesis using "2.IH"(2) [of ss] op xs by simp
  next
    case other
    have "lex False (pos + 1) st (acc @ [x]) xs = (ss, (a, s, l))" "\<not> ends_open False xs"
      "xs = [] \<or> last xs \<noteq> CHR ''/'' \<and> last xs \<noteq> CHR ''*''"
      using "2.prems" other by auto
    moreover have "\<not> (x = CHR ''/'' \<and> xs @ ys \<noteq> [] \<and> hd (xs @ ys) = CHR ''*'')"
      using other(2) "2.prems"(3) by (cases xs) auto
    ultimately show ?thesis using "2.IH"(3) [OF other, of ss] other by auto
  qed
next
  case (3 pos st acc x xs)
  show ?case
  proof (cases "x = CHR ''*'' \<and> xs \<noteq> [] \<and> hd xs = CHR ''/''")
    case True
    then obtain zs where xs: "xs = CHR ''/'' # zs" by (cases xs) auto
    have "lex False (pos + 2) st acc zs = (ss, (a, s, l))" "\<not> ends_open False zs"
      "zs = [] \<or> last zs \<noteq> CHR ''/'' \<and> last zs \<noteq> CHR ''*''"
      using "3.prems" True xs by auto
    then show ?thesis using "3.IH"(1) [OF True, of ss] True xs by simp
  next
    case False
    have "lex True (pos + 1) st acc xs = (ss, (a, s, l))" "\<not> ends_open True xs"
      "xs = [] \<or> last xs \<noteq> CHR ''/'' \<and> last xs \<noteq> CHR ''*''"
      using "3.prems" False by auto
    moreover have "\<not> (x = CHR ''*'' \<and> xs @ ys \<noteq> [] \<and> hd (xs @ ys) = CHR ''/'')"
      using False "3.prems"(3) by (cases xs) auto
    ultimately show ?thesis using "3.IH"(2) [OF False, of ss] False by auto
  qed
qed

fun records_from :: "nat \<Rightarrow> string list \<Rightarrow> seg list" where
  \<comment> \<open>the segments of a concatenation of records\<close>
  "records_from pos [] = []"
| "records_from pos (r # rs) =
     (strip False (butlast r), pos, length r) # records_from (pos + length r) rs"

definition is_record :: "string \<Rightarrow> bool" where
  "is_record r \<longleftrightarrow> r \<noteq> [] \<and> last r = CHR '';'' \<and> \<not> ends_open False (butlast r) \<and> semi_free False (butlast r)"

lemma lex_records:
  "\<forall>r \<in> set rs. is_record r \<Longrightarrow>
   lex False pos pos [] (concat rs @ ys) =
     (case lex False (pos + length (concat rs)) (pos + length (concat rs)) [] ys of
        (ss, t) \<Rightarrow> (records_from pos rs @ ss, t))"
proof (induction rs arbitrary: pos)
  case (Cons r rs)
  then obtain b where r: "r = b @ [CHR '';'']" "\<not> ends_open False b" "semi_free False b"
    by (auto simp: is_record_def) (metis append_butlast_last_id)
  have "lex False pos pos [] (b @ CHR '';'' # (concat rs @ ys)) =
      (case lex False (pos + length b + 1) (pos + length b + 1) [] (concat rs @ ys) of
         (ss, t) \<Rightarrow> (([] @ strip False b, pos, pos + length b - pos + 1) # ss, t))"
    by (rule lex_record [OF r(2,3)])
  with Cons.IH [of "pos + length b + 1"] Cons.prems show ?case
    by (simp add: r(1) add.assoc split: prod.split)
qed simp

lemma records_from_text: "map fst (records_from pos rs) = map (\<lambda>r. strip False (butlast r)) rs"
  by (induction pos rs rule: records_from.induct) auto

lemma repl_newline_pos: "repl_from rx_newline f i s = repl_from rx_newline f j s"
  if "\<And>m m'. f m = f m'"
proof (induction "length s" arbitrary: s i j rule: less_induct)
  case less
  show ?case
  proof (cases s)
    case (Cons x xs)
    show ?thesis
    proof (cases "rx_at rx_newline i s")
      case None
      then have "rx_at rx_newline k s = None" for k by (auto simp: rx_at_newline split: if_splits)
      with Cons less.hyps [of xs] show ?thesis by (simp add: repl_from_skip)
    next
      case (Some m)
      then obtain m' where m': "rx_at rx_newline j s = Some m'" "mrest m' = mrest m"
        by (auto simp: rx_at_newline split: if_splits)
      have "length (mrest m) < length s" using Some consumes_newline by (auto simp: consumes_def)
      with less.hyps m' Some that show ?thesis by (simp add: repl_from_hit) metis
    qed
  qed simp
qed

lemma normalise_nl: "normalise (nl # s) = normalise s"
proof -
  have "rx_at rx_newline 0 (nl # s) = Some \<lparr>mpos = 1, mrest = s, mcaps = []\<rparr>"
    by (simp add: rx_at_newline starts_with_def nl_def cr_def)
  then have "js_replace rx_newline (\<lambda>_. '' '') (nl # s) = CHR '' '' # js_replace rx_newline (\<lambda>_. '' '') s"
    using repl_newline_pos [of "\<lambda>_. '' ''" 1 s 0] by (simp add: js_replace_from repl_from_hit)
  then show ?thesis by (simp add: normalise_def trim_def js_ws_def)
qed

section \<open>What the callers rely on\<close>

text \<open>C1. The streaming scanner, cut into arbitrary chunks that do not split a comment opener,
  reports exactly the header and entity events of a one-pass reading of the whole file.\<close>

theorem scanStep_reads_file:
  assumes "[] \<notin> set chunks" and "\<not> opener_split chunks"
  shows "scanStep decode chunks = Some (scan_spec decode (concat chunks))"
  using assms by (rule scanStep_refines)

theorem scanStep_reads_file_witness:
  "scanStep (\<lambda>s. s) [''DATA;#1=A('', ''b/*;'', ''*/);EN'', ''DSEC;''] =
     Some [OnHeader (''HEADER;'' @ [nl] @ ''ENDSEC;''), OnEntity (Some ''1'') (Some ''A'') ''#1=A(b)'' 5 13]"
proof -
  have "scanStep (\<lambda>s. s) [''DATA;#1=A('', ''b/*;'', ''*/);EN'', ''DSEC;''] =
      Some (scan_spec (\<lambda>s. s) (concat [''DATA;#1=A('', ''b/*;'', ''*/);EN'', ''DSEC;'']))"
    by (rule scanStep_reads_file) simp_all
  also have "scan_spec (\<lambda>s. s) (concat [''DATA;#1=A('', ''b/*;'', ''*/);EN'', ''DSEC;'']) =
      [OnHeader (''HEADER;'' @ [nl] @ ''ENDSEC;''), OnEntity (Some ''1'') (Some ''A'') ''#1=A(b)'' 5 13]"
    by code_simp
  finally show ?thesis .
qed

text \<open>C2. Whatever the chunks, the scanner always returns: no input makes its loop run forever.\<close>

theorem scanStep_returns: "\<exists>events. scanStep decode chunks = Some events"
proof -
  have "scan_inv scan_init" by (simp add: scan_inv_def scan_init_def)
  from scan_returns [OF this, of decode chunks] show ?thesis by (auto simp: scanStep_def)
qed

text \<open>The byte ranges reported for the entities of a file are inside the file, end in the
  closing semicolon, are pairwise disjoint and come in ascending file order.\<close>

theorem scanStep_ranges_disjoint:
  assumes "[] \<notin> set chunks" and "\<not> opener_split chunks" and "terminated decode (concat chunks)"
    and "scanStep decode chunks = Some events"
  shows "sorted_wrt (\<lambda>(s, l) (s', l'). s + l \<le> s') (event_ranges events)
    \<and> (\<forall>(s, l) \<in> set (event_ranges events).
         0 < l \<and> s + l \<le> length (concat chunks) \<and> concat chunks ! (s + l - 1) = CHR '';'')"
proof -
  obtain ss tr where lx: "lex False 0 0 [] (concat chunks) = (ss, tr)"
    by (cases "lex False 0 0 [] (concat chunks)")
  have tl: "tiles (concat chunks) 0 ss" using lex_tiles [of 0 "concat chunks" ss] lx by simp
  have ev: "events = scan_spec decode (concat chunks)" using scanStep_refines [OF assms(1,2)] assms(4) by simp
  let ?h0 = "\<lparr>headerLines = [], inHeader = False, inData = False, emitted = []\<rparr>"
  from fold_deliver_ranges [of decode ss ?h0] have sub: "subseq (event_ranges events) (map snd ss)"
    using scan_spec_terminated [OF assms(3)] lx by (auto simp: ev)
  have "sorted_wrt (\<lambda>(s, l) (s', l'). s + l \<le> s') (map snd ss)"
    using tiles_sorted [OF tl] by (simp add: sorted_wrt_map case_prod_unfold)
  then have order: "sorted_wrt (\<lambda>(s, l) (s', l'). s + l \<le> s') (event_ranges events)"
    by (rule sorted_wrt_subseq [OF sub])
  have inside: "\<forall>(s, l) \<in> set (event_ranges events).
      0 < l \<and> s + l \<le> length (concat chunks) \<and> concat chunks ! (s + l - 1) = CHR '';''"
  proof (rule ballI, rule case_prodI2)
    fix r s l
    assume "r \<in> set (event_ranges events)" and "r = (s, l)"
    then have "(s, l) \<in> set (event_ranges events)" by (simp only:)
    then obtain y where "y \<in> set (map snd ss)" "(s, l) = y" by (rule list_emb_set [OF sub])
    then obtain t where "(t, s, l) \<in> set ss" by auto
    from tiles_mem [OF tl this]
    show "0 < l \<and> s + l \<le> length (concat chunks) \<and> concat chunks ! (s + l - 1) = CHR '';''"
      by blast
  qed
  from order inside show ?thesis ..
qed

theorem scanStep_ranges_disjoint_witness:
  "sorted_wrt (\<lambda>(s, l) (s', l'). s + l \<le> s') (event_ranges
     [OnHeader (''HEADER;'' @ [nl] @ ''ENDSEC;''), OnEntity (Some ''1'') (Some ''A'') ''#1=A()'' 5 7,
      OnEntity (Some ''2'') (Some ''B'') ''#2=B()'' 12 7])"
proof -
  let ?c = "[''DATA;#1=A'', ''();#2=B();ENDSEC;'']"
  have "scan_spec (\<lambda>s. s) (concat ?c) =
     [OnHeader (''HEADER;'' @ [nl] @ ''ENDSEC;''), OnEntity (Some ''1'') (Some ''A'') ''#1=A()'' 5 7,
      OnEntity (Some ''2'') (Some ''B'') ''#2=B()'' 12 7]" by code_simp
  then have "scanStep (\<lambda>s. s) ?c = Some
     [OnHeader (''HEADER;'' @ [nl] @ ''ENDSEC;''), OnEntity (Some ''1'') (Some ''A'') ''#1=A()'' 5 7,
      OnEntity (Some ''2'') (Some ''B'') ''#2=B()'' 12 7]"
    using scanStep_refines [of ?c "\<lambda>s. s"] by simp
  moreover have "terminated (\<lambda>s. s) (concat ?c)" by code_simp
  ultimately show ?thesis
    using scanStep_ranges_disjoint [of ?c "\<lambda>s. s"] by simp
qed

text \<open>C3. Fetching an entity later by its reported byte range and normalising it the way the
  geometry resolver does gives back the text the scanner reported (7-bit files, as the STEP
  encoding requires).\<close>

theorem reread_entity:
  assumes "[] \<notin> set chunks" and "\<not> opener_split chunks" and "ascii (concat chunks)"
    and dec: "ascii_decoder decode" and "terminated decode (concat chunks)"
    and "scanStep decode chunks = Some events" and "OnEntity eid ty text offset len \<in> set events"
  shows "reread decode (read_range junk (concat chunks) (offset, len)) = text"
proof -
  let ?b = "concat chunks"
  have ev: "events = scan_spec decode ?b" using scanStep_refines [OF assms(1,2)] assms(6) by simp
  let ?raw = "slice offset (offset + len - 1) ?b"
  from scan_spec_ranges [OF assms(7) [unfolded ev] assms(5)] have
    r: "0 < len" "offset + len \<le> length ?b" "?b ! (offset + len - 1) = CHR '';''"
      "\<not> ends_open False ?raw" "text = normalise (decode (strip False ?raw))"
    by blast+
  have raw: "read_range junk ?b (offset, len) = ?raw @ '';''"
    using slice_snoc [of offset "offset + len - 1" ?b] r by (simp add: read_range_inside)
  have asc: "ascii (?raw @ '';'')" "ascii (strip False ?raw)"
    using ascii_subset [OF assms(3)] set_slice [of offset "offset + len" ?b] raw r(2)
      set_slice [of offset "offset + len - 1" ?b] set_strip [of False ?raw]
    by (auto simp: read_range_inside simp del: append_assoc)
  have "reread decode (?raw @ '';'') = reread (\<lambda>s. s) (?raw @ '';'')"
    using dec asc(1) by (simp add: reread_def ascii_decoder_def)
  also have "\<dots> = normalise (strip False ?raw)" by (rule reread_strip [OF r(4)])
  also have "\<dots> = text" using dec asc(2) r(5) by (simp add: ascii_decoder_def)
  finally show ?thesis unfolding raw .
qed

theorem reread_entity_witness:
  "reread (\<lambda>s. s) (read_range (\<lambda>n. replicate n CHR 0x00) ''DATA;#1=A(b/*;*/);ENDSEC;'' (5, 13)) = ''#1=A(b)''"
proof -
  let ?c = "[''DATA;#1=A('', ''b/*;'', ''*/);EN'', ''DSEC;'']"
  have "scan_spec (\<lambda>s. s) (concat ?c) =
      [OnHeader (''HEADER;'' @ [nl] @ ''ENDSEC;''), OnEntity (Some ''1'') (Some ''A'') ''#1=A(b)'' 5 13]"
    by code_simp
  then have "scanStep (\<lambda>s. s) ?c = Some
      [OnHeader (''HEADER;'' @ [nl] @ ''ENDSEC;''), OnEntity (Some ''1'') (Some ''A'') ''#1=A(b)'' 5 13]"
    using scanStep_refines [of ?c "\<lambda>s. s"] by simp
  moreover have "terminated (\<lambda>s. s) (concat ?c)" "ascii (concat ?c)" by code_simp+
  moreover have "ascii_decoder (\<lambda>s. s)" by (simp add: ascii_decoder_def)
  ultimately show ?thesis
    using reread_entity [of ?c "\<lambda>s. s" _ "Some ''1''" "Some ''A''" "''#1=A(b)''" 5 13] by simp
qed

text \<open>A comment opener cut in two by a chunk boundary is not seen: the scanner then reports
  entities that lie inside the comment.\<close>

theorem scanStep_split_opener:
  "scanStep (\<lambda>s. s) [''DATA;#1=A(/'', ''* ;#2=B(); */);ENDSEC;''] \<noteq>
   scanStep (\<lambda>s. s) [''DATA;#1=A(/* ;#2=B(); */);ENDSEC;'']"
  by code_simp

end
