(* ===== verification/StepLib.thy ===== *)
theory StepLib
  imports StepScan
begin

text \<open>
  The text-level helpers of \<open>cad-parser/step-lib.js\<close>: argument splitting, reference and string
  arguments, the entity map, the per-type index and the two reference graphs. An index or a map
  keyed by entity id is a \<open>jsobj\<close>, a graph maps an id to the set of ids it references.
\<close>

section \<open>Arguments\<close>

fun split_args_loop :: "string \<Rightarrow> string list \<Rightarrow> int \<Rightarrow> string \<Rightarrow> string list \<times> string" where
  "split_args_loop [] parts depth cur = (parts, cur)"
| "split_args_loop (ch # s) parts depth cur =
     (if ch \<in> set ''(['' then split_args_loop s parts (depth + 1) (cur @ [ch])
      else if ch \<in> set '')]'' then split_args_loop s parts (depth - 1) (cur @ [ch])
      else if ch = CHR '','' \<and> depth = 0 then split_args_loop s (parts @ [trim cur]) depth ''''
      else split_args_loop s parts depth (cur @ [ch]))"

definition splitArgs :: "string \<Rightarrow> string list" where
  "splitArgs s = (case split_args_loop s [] 0 '''' of (parts, cur) \<Rightarrow>
     if trim cur \<noteq> [] then parts @ [trim cur] else parts)"

definition arg :: "string list \<Rightarrow> nat \<Rightarrow> string option" where
  \<comment> \<open>\<open>p[i]\<close>: undefined out of range\<close>
  "arg p i = (if i < length p then Some (p ! i) else None)"

definition rx_ref_arg :: rx where                \<comment> \<open>\<open>/^#(\d+)$/\<close>\<close>
  "rx_ref_arg = RCat [RBos, RChr CHR ''#'', RGrp 1 rx_digits, REos]"

definition ref :: "string option \<Rightarrow> string option" where
  "ref s = (case s of None \<Rightarrow> None | Some t \<Rightarrow> map_option (grp 1) (rx_exec rx_ref_arg (trim t)))"

definition rx_quoted :: rx where                 \<comment> \<open>\<open>/^'(.*)'$/s\<close>\<close>
  "rx_quoted = RCat [RBos, RChr CHR 0x27, RGrp 1 (RStar True (RSet (\<lambda>_. True))), RChr CHR 0x27, REos]"

definition str :: "string option \<Rightarrow> string" where
  "str s = (case s of None \<Rightarrow> trim '''' | Some t \<Rightarrow>
     (case rx_exec rx_quoted t of Some m \<Rightarrow> grp 1 m | None \<Rightarrow> trim t))"

section \<open>Maps and indexes\<close>

definition buildEntityMap :: "string \<Rightarrow> string jsobj" where
  "buildEntityMap normalizedData = fold (\<lambda>seg mp.
     let t = trim seg in
     case rx_exec rx_entity_id t of Some m \<Rightarrow> obj_put (grp 1 m) (t @ '';'') mp | None \<Rightarrow> mp)
     (split_on CHR '';'' normalizedData) []"

type_synonym typeidx = "string jsobj jsobj"      \<comment> \<open>type name, then id, to argument text\<close>

definition rx_type_entry :: rx where
  \<comment> \<open>\<open>/#(\d+)\s*=\s*([A-Z_][A-Z0-9_]*)\s*\(([^;]*)\)\s*;/g\<close>\<close>
  "rx_type_entry = RCat [RChr CHR ''#'', RGrp 1 rx_digits, rx_ws, RChr CHR ''='', rx_ws,
     RGrp 2 rx_type, rx_ws, RChr CHR ''('', RGrp 3 (RStar True (RSet (\<lambda>c. c \<noteq> CHR '';''))),
     RChr CHR '')'', rx_ws, RChr CHR '';'']"

definition idx_get :: "typeidx \<Rightarrow> string \<Rightarrow> string jsobj" where
  \<comment> \<open>\<open>typeIdx[typeName] ?? {}\<close>\<close>
  "idx_get idx ty = or_nil (obj_get idx ty)"

definition idx_put :: "string \<Rightarrow> string \<Rightarrow> string \<Rightarrow> typeidx \<Rightarrow> typeidx" where
  \<comment> \<open>\<open>(idx[ty] ??= {})[id] = args\<close>\<close>
  "idx_put ty eid args idx = obj_put ty (obj_put eid args (idx_get idx ty)) idx"

definition buildTypeIndex :: "string \<Rightarrow> typeidx" where
  "buildTypeIndex dat = fold (\<lambda>m. idx_put (grp 2 m) (grp 1 m) (grp 3 m)) (js_match_all rx_type_entry dat) []"

section \<open>Reference graphs\<close>

type_synonym graph = "string list jsobj"

definition succs :: "graph \<Rightarrow> string \<Rightarrow> string list" where
  \<comment> \<open>\<open>g[id] ?? []\<close>\<close>
  "succs g eid = or_nil (obj_get g eid)"

definition graph_add :: "string \<Rightarrow> string \<Rightarrow> graph \<Rightarrow> graph" where
  \<comment> \<open>\<open>(g[id] ??= new Set()).add(r)\<close>\<close>
  "graph_add eid r g = obj_put eid (js_add r (succs g eid)) g"

definition rx_ref :: rx where                    \<comment> \<open>\<open>/#(\d+)/g\<close>\<close>
  "rx_ref = RSeq (RChr CHR ''#'') (RGrp 1 rx_digits)"

definition refs_in :: "string \<Rightarrow> string list" where
  "refs_in s = map (grp 1) (js_match_all rx_ref s)"

definition link_entity :: "string \<Rightarrow> string \<Rightarrow> graph \<times> graph \<Rightarrow> graph \<times> graph" where
  \<comment> \<open>\<open>fwd[id] ??= new Set()\<close>, then one edge in each graph per reference of the body\<close>
  "link_entity eid body g = fold (\<lambda>r (f, b). (graph_add eid r f, graph_add r eid b)) (refs_in body)
     (if obj_get (fst g) eid = None then obj_put eid [] (fst g) else fst g, snd g)"

definition rx_entity_head :: rx where            \<comment> \<open>\<open>/^#\d+\s*=\s*/\<close>\<close>
  "rx_entity_head = RCat [RBos, RChr CHR ''#'', rx_digits, rx_ws, RChr CHR ''='', rx_ws]"

definition entity_body :: "string \<Rightarrow> string" where
  \<comment> \<open>\<open>line.replace(rx_entity_head, '')\<close>\<close>
  "entity_body line = (case rx_exec rx_entity_head line of Some m \<Rightarrow> mrest m | None \<Rightarrow> line)"

definition buildRefGraphs :: "string jsobj \<Rightarrow> graph \<times> graph" where
  "buildRefGraphs entityMap =
     fold (\<lambda>(eid, line). link_entity eid (entity_body line)) (obj_entries entityMap) ([], [])"

definition buildRefGraph :: "string jsobj \<Rightarrow> graph" where
  "buildRefGraph entityMap = fst (buildRefGraphs entityMap)"

definition buildReverseRefGraph :: "string jsobj \<Rightarrow> graph" where
  "buildReverseRefGraph entityMap = snd (buildRefGraphs entityMap)"

section \<open>Facts: arguments\<close>

fun depth_ok :: "string \<Rightarrow> int \<Rightarrow> bool" where
  \<comment> \<open>brackets return to depth zero and no comma stands at depth zero\<close>
  "depth_ok [] d \<longleftrightarrow> d = 0"
| "depth_ok (c # s) d \<longleftrightarrow>
     (if c \<in> set ''(['' then depth_ok s (d + 1)
      else if c \<in> set '')]'' then depth_ok s (d - 1)
      else \<not> (c = CHR '','' \<and> d = 0) \<and> depth_ok s d)"

lemma split_args_arg:
  "depth_ok a d \<Longrightarrow> split_args_loop (a @ rest) parts d cur = split_args_loop rest parts 0 (cur @ a)"
  by (induction a d arbitrary: cur rule: depth_ok.induct) (auto split: if_splits)

lemma split_args_join:
  "xs \<noteq> [] \<Longrightarrow> \<forall>x \<in> set xs. depth_ok x 0 \<Longrightarrow>
   split_args_loop (join '','' xs) parts 0 [] = (parts @ map trim (butlast xs), last xs)"
proof (induction xs arbitrary: parts)
  case (Cons x xs)
  show ?case
  proof (cases xs)
    case Nil
    then show ?thesis using Cons.prems split_args_arg [of x 0 "[]" parts "[]"] by simp
  next
    case (Cons y ys)
    then show ?thesis
      using Cons.prems Cons.IH [of "parts @ [trim x]"]
        split_args_arg [of x 0 "CHR '','' # join '','' xs" parts "[]"] by simp
  qed
qed simp

lemma splitArgs_join:
  assumes "xs \<noteq> []" and "\<forall>x \<in> set xs. depth_ok x 0" and "trim (last xs) \<noteq> []"
  shows "splitArgs (join '','' xs) = map trim xs"
proof -
  have "map trim xs = map trim (butlast xs) @ [trim (last xs)]"
    using assms(1) by (metis append_butlast_last_id list.simps(8,9) map_append)
  then show ?thesis using split_args_join [OF assms(1,2)] assms(3) by (simp add: splitArgs_def)
qed

section \<open>Facts: references\<close>

lemma digit_not: "\<not> digit CHR ''#''" "\<not> digit CHR ''=''" "\<not> digit CHR ''(''" "\<not> js_ws CHR ''=''"
  "\<not> js_ws CHR ''(''" "\<not> js_ws CHR '';''" "\<not> js_ws CHR ''#''" "\<not> js_ws CHR '')''"
  by (simp_all add: digit_def js_ws_def)

lemma digit_not_ws: "digit c \<Longrightarrow> \<not> js_ws c"
  by (auto simp: digit_def js_ws_def)

lemma rx_at_ref:
  "rx_at rx_ref i s = (case s of c # t \<Rightarrow>
      if c = CHR ''#'' \<and> takeWhile digit t \<noteq> [] then
        Some \<lparr>mpos = i + 1 + length (takeWhile digit t), mrest = dropWhile digit t,
              mcaps = [(1, takeWhile digit t)]\<rparr>
      else None | [] \<Rightarrow> None)"
proof (cases s)
  case (Cons c t)
  show ?thesis
  proof (cases "length (takeWhile digit t)")
    case (Suc l)
    have "take (Suc l) t = takeWhile digit t" "drop (Suc l) t = dropWhile digit t"
      using takeWhile_eq_take [of digit t] dropWhile_eq_drop [of digit t] Suc by simp_all
    moreover have "length t - length (dropWhile digit t) = Suc l"
      using Suc takeWhile_dropWhile_id [of digit t] by (metis add_diff_cancel_right' length_append)
    ultimately show ?thesis
      using Suc Cons by (simp add: rx_at_def rx_ref_def rx_run_chr rx_digits_def rx_run_plus_set
          rx_capture_def advance_def)
  qed (simp add: Cons rx_at_def rx_ref_def rx_run_chr rx_digits_def rx_run_plus_set)
qed (simp add: rx_at_def rx_ref_def rx_run_chr)

lemma consumes_ref [simp]: "consumes rx_ref"
proof -
  have "length (mrest m) < length s" if "rx_at rx_ref i s = Some m" for i s m
  proof (cases s)
    case (Cons c t)
    with that have "mrest m = dropWhile digit t" by (auto simp: rx_at_ref split: if_splits)
    then show ?thesis using length_dropWhile_le [of digit t] Cons by simp
  qed (use that in \<open>simp add: rx_at_ref\<close>)
  then show ?thesis by (simp add: consumes_def)
qed

lemma matches_ref_pos: "map (grp 1) (matches_from rx_ref i s) = map (grp 1) (matches_from rx_ref j s)"
proof (induction "length s" arbitrary: s i j rule: less_induct)
  case less
  show ?case
  proof (cases s)
    case (Cons c t)
    show ?thesis
    proof (cases "c = CHR ''#'' \<and> takeWhile digit t \<noteq> []")
      case True
      have "length (dropWhile digit t) < length s"
        using Cons by (simp add: le_imp_less_Suc length_dropWhile_le)
      with less.hyps show ?thesis using True by (simp add: matches_from_hit rx_at_ref Cons grp_def)
    next
      case False
      then have "rx_at rx_ref k (c # t) = None" for k by (auto simp: rx_at_ref)
      with less.hyps [of t] show ?thesis by (simp add: matches_from_skip Cons)
    qed
  qed simp
qed

lemma refs_in_Nil [simp]: "refs_in [] = []"
  by (simp add: refs_in_def js_match_all_from)

lemma refs_in_Cons: "refs_in (c # t) =
   (if c = CHR ''#'' \<and> takeWhile digit t \<noteq> [] then takeWhile digit t # refs_in (dropWhile digit t)
    else refs_in t)"
proof (cases "c = CHR ''#'' \<and> takeWhile digit t \<noteq> []")
  case True
  then show ?thesis
    using matches_ref_pos [of "1 + length (takeWhile digit t)" "dropWhile digit t" 0]
    by (simp add: refs_in_def js_match_all_from matches_from_hit rx_at_ref grp_def)
next
  case False
  then have "rx_at rx_ref 0 (c # t) = None" by (auto simp: rx_at_ref)
  then show ?thesis
    using False matches_ref_pos [of 1 t 0]
    by (auto simp: refs_in_def js_match_all_from matches_from_skip)
qed

lemma refs_in_digits: "r \<in> set (refs_in s) \<Longrightarrow> r \<noteq> [] \<and> list_all digit r"
proof (induction "length s" arbitrary: s rule: less_induct)
  case less
  show ?case
  proof (cases s)
    case (Cons c t)
    have len: "length (dropWhile digit t) < length s"
      using length_dropWhile_le [of digit t] Cons by simp
    show ?thesis
    proof (cases "c = CHR ''#'' \<and> takeWhile digit t \<noteq> [] \<and> r = takeWhile digit t")
      case True
      then show ?thesis by (auto simp: list_all_iff dest: set_takeWhileD)
    next
      case False
      with less.prems have "r \<in> set (refs_in t) \<or> r \<in> set (refs_in (dropWhile digit t))"
        by (auto simp: Cons refs_in_Cons split: if_splits)
      then show ?thesis using less.hyps [of t] less.hyps [OF len] Cons by auto
    qed
  qed (use less in simp)
qed

lemma succs_add [simp]: "set (succs (graph_add a r g) b) =
    (if b = a then insert r (set (succs g a)) else set (succs g b))"
  by (simp add: succs_def graph_add_def)

definition converse_graphs :: "graph \<times> graph \<Rightarrow> bool" where
  "converse_graphs g \<longleftrightarrow> (\<forall>a b. b \<in> set (succs (fst g) a) \<longleftrightarrow> a \<in> set (succs (snd g) b))"

lemma fold_edges:
  "converse_graphs g \<Longrightarrow>
   converse_graphs (fold (\<lambda>r (f, b). (graph_add eid r f, graph_add r eid b)) rs g)
   \<and> set (succs (fst (fold (\<lambda>r (f, b). (graph_add eid r f, graph_add r eid b)) rs g)) i) =
     set (succs (fst g) i) \<union> (if i = eid then set rs else {})"
proof (induction rs arbitrary: g)
  case (Cons r rs)
  obtain f b where g: "g = (f, b)" by (cases g)
  have "converse_graphs (graph_add eid r f, graph_add r eid b)"
    using Cons.prems by (auto simp: converse_graphs_def g)
  from Cons.IH [OF this] show ?case by (auto simp: g)
qed simp

lemma link_entity_converse: "converse_graphs g \<Longrightarrow> converse_graphs (link_entity eid body g)"
  and link_entity_succs: "converse_graphs g \<Longrightarrow>
    set (succs (fst (link_entity eid body g)) i) =
      set (succs (fst g) i) \<union> (if i = eid then set (refs_in body) else {})"
proof -
  assume c: "converse_graphs g"
  let ?g = "(if obj_get (fst g) eid = None then obj_put eid [] (fst g) else fst g, snd g)"
  have s: "succs (fst ?g) i = succs (fst g) i" for i by (simp add: succs_def)
  with c have "converse_graphs ?g" by (simp add: converse_graphs_def)
  note * = fold_edges [OF this, of eid "refs_in body"]
  from * show "converse_graphs (link_entity eid body g)" by (simp add: link_entity_def)
  from * s show "set (succs (fst (link_entity eid body g)) i) =
      set (succs (fst g) i) \<union> (if i = eid then set (refs_in body) else {})"
    by (simp add: link_entity_def)
qed

lemma converse_graphs_Nil [simp]: "converse_graphs ([], [])"
  by (simp add: converse_graphs_def succs_def)

lemma fold_link_entity:
  "converse_graphs g \<Longrightarrow>
   converse_graphs (fold (\<lambda>(eid, line). link_entity eid (h line)) es g)
   \<and> set (succs (fst (fold (\<lambda>(eid, line). link_entity eid (h line)) es g)) i) =
     set (succs (fst g) i) \<union> (\<Union>(eid, line) \<in> set es. if i = eid then set (refs_in (h line)) else {})"
proof (induction es arbitrary: g)
  case (Cons e es)
  obtain eid line where e: "e = (eid, line)" by (cases e)
  from Cons.IH [OF link_entity_converse [OF Cons.prems, of eid "h line"]]
  show ?case using link_entity_succs [OF Cons.prems, of eid "h line" i] by (auto simp: e)
qed simp

section \<open>Facts: the type index\<close>

text \<open>
  The shape of a simple entity as it stands in the structural text: white space is allowed where
  the pattern allows it, the argument text may hold anything but a semicolon.
\<close>

record eline =
  el_id :: string
  el_type :: string
  el_args :: string
  el_w1 :: string
  el_w2 :: string
  el_w3 :: string
  el_w4 :: string

definition line_ok :: "eline \<Rightarrow> bool" where
  "line_ok e \<longleftrightarrow> el_id e \<noteq> [] \<and> list_all digit (el_id e)
     \<and> el_type e \<noteq> [] \<and> upper_us (hd (el_type e)) \<and> list_all (\<lambda>c. upper_us c \<or> digit c) (tl (el_type e))
     \<and> CHR '';'' \<notin> set (el_args e)
     \<and> list_all js_ws (el_w1 e) \<and> list_all js_ws (el_w2 e) \<and> list_all js_ws (el_w3 e) \<and> list_all js_ws (el_w4 e)"

definition line_text :: "eline \<Rightarrow> string" where
  "line_text e = ''#'' @ el_id e @ el_w1 e @ ''='' @ el_w2 e @ el_type e @ el_w3 e @ ''('' @ el_args e
     @ '')'' @ el_w4 e @ '';''"

lemma rx_seq_grp_type:
  assumes "rejects b (\<lambda>c. upper_us c \<or> digit c)"
  shows "rx_run (RSeq (RGrp n rx_type) b) m =
    (if mrest m \<noteq> [] \<and> upper_us (hd (mrest m))
     then rx_run b (advance_cap n (1 + length (takeWhile (\<lambda>c. upper_us c \<or> digit c) (tl (mrest m)))) m)
     else [])"
proof (cases "mrest m \<noteq> [] \<and> upper_us (hd (mrest m))")
  case True
  then obtain c s where m: "mrest m = c # s" "upper_us c" by (cases "mrest m") auto
  let ?q = "\<lambda>c. upper_us c \<or> digit c"
  let ?l = "length (takeWhile ?q s)"
  have "concat (map (rx_run b) (map (\<lambda>k. rx_capture n m (advance (Suc k) m)) (rev [0..<?l]))) = []"
  proof (rule concat_map_Nil)
    fix x
    assume "x \<in> set (map (\<lambda>k. rx_capture n m (advance (Suc k) m)) (rev [0..<?l]))"
    then obtain k where k: "k < ?l" "x = rx_capture n m (advance (Suc k) m)" by auto
    then have "mrest x = drop k s" by (simp add: rx_capture_def m)
    with k(1) show "rx_run b x = []" by (rule rejects_dropped [OF assms])
  qed
  then show ?thesis
    using m by (simp add: rx_type_def rx_run_star_set comp_def rx_capture_advance advance_cap_def)
next
  case False
  then show ?thesis by (auto simp: rx_type_def)
qed

lemma takeWhile_stop: "list_all p xs \<Longrightarrow> ys = [] \<or> \<not> p (hd ys) \<Longrightarrow> takeWhile p (xs @ ys) = xs"
  by (cases ys) (auto simp: takeWhile_append2 list_all_iff)

lemma rx_seq_grp_star_to:
  assumes m: "mrest m = a @ c # w @ z" and a: "\<forall>x \<in> set a. p x" and c: "p c" "\<forall>x \<in> set w. p x \<and> x \<noteq> c"
    and z: "z = [] \<or> \<not> p (hd z)"
  shows "\<exists>ms. rx_run (RSeq (RGrp n (RStar True (RSet p))) (RSeq (RChr c) b)) m =
      rx_run (RSeq (RChr c) b) (advance_cap n (length a) m) @ ms"
proof -
  let ?b = "RSeq (RChr c) b"
  let ?f = "\<lambda>k. rx_run ?b (advance_cap n k m)"
  have tw: "takeWhile p (mrest m) = a @ c # w"
    using a c z takeWhile_stop [of p "a @ c # w" z] by (auto simp: m list_all_iff)
  have run: "rx_run (RSeq (RGrp n (RStar True (RSet p))) ?b) m =
      concat (map ?f (rev [0..<length (a @ c # w) + 1]))"
    by (simp only: rx_run.simps(5,8) rx_run_star_set tw map_map comp_def rx_capture_advance
        advance_cap_def [symmetric] Suc_eq_plus1)
  have split: "rev [0..<length (a @ c # w) + 1] =
      rev [Suc (length a)..<length (a @ c # w) + 1] @ length a # rev [0..<length a]"
    using upt_add_eq_append [of 0 "length a" "Suc (Suc (length w))"]
    by (simp add: upt_conv_Cons del: upt_Suc)
  have none: "concat (map ?f (rev [Suc (length a)..<length (a @ c # w) + 1])) = []"
  proof (rule concat_map_Nil)
    fix k
    assume "k \<in> set (rev [Suc (length a)..<length (a @ c # w) + 1])"
    then have "k = length a + 1 + (k - (length a + 1))" "k - (length a + 1) \<le> length w" by auto
    then obtain j where j: "k = length a + 1 + j" "j \<le> length w" by blast
    have "mrest (advance_cap n k m) = drop j (w @ z)" by (simp add: m j(1) add.assoc)
    moreover have "drop j (w @ z) = [] \<or> hd (drop j (w @ z)) \<noteq> c"
    proof (cases "j = length w")
      case True
      then show ?thesis using z c(1) by auto
    next
      case False
      then have "hd (drop j (w @ z)) = w ! j" "j < length w" using j(2) by (auto simp: hd_drop_conv_nth hd_append)
      then show ?thesis using c(2) by simp
    qed
    ultimately have "mrest (advance_cap n k m) = [] \<or> hd (mrest (advance_cap n k m)) \<noteq> c" by simp
    then show "?f k = []" by (simp only: rx_run.simps(5) rx_run_chr) auto
  qed
  show ?thesis
    unfolding run split map_append concat_append none by simp
qed

lemma rx_step_chr:
  "rx_run (RSeq (RChr c) b) \<lparr>mpos = i, mrest = c # s, mcaps = k\<rparr> =
   rx_run b \<lparr>mpos = i + 1, mrest = s, mcaps = k\<rparr>"
  by (simp add: rx_run_chr advance_def)

lemma rx_step_ws:
  "list_all js_ws w \<Longrightarrow> rejects b js_ws \<Longrightarrow> s = [] \<or> \<not> js_ws (hd s) \<Longrightarrow>
   rx_run (RSeq rx_ws b) \<lparr>mpos = i, mrest = w @ s, mcaps = k\<rparr> =
   rx_run b \<lparr>mpos = i + length w, mrest = s, mcaps = k\<rparr>"
  by (simp add: rx_seq_ws takeWhile_stop advance_def del: rx_run.simps)

lemma rx_step_digits:
  "list_all digit d \<Longrightarrow> d \<noteq> [] \<Longrightarrow> rejects b digit \<Longrightarrow> s = [] \<or> \<not> digit (hd s) \<Longrightarrow>
   rx_run (RSeq (RGrp n rx_digits) b) \<lparr>mpos = i, mrest = d @ s, mcaps = k\<rparr> =
   rx_run b \<lparr>mpos = i + length d, mrest = s, mcaps = (n, d) # k\<rparr>"
  by (simp add: rx_digits_def rx_seq_grp_plus takeWhile_stop advance_cap_def advance_def del: rx_run.simps)

lemma rx_step_type:
  assumes "t \<noteq> []" "upper_us (hd t)" "list_all (\<lambda>c. upper_us c \<or> digit c) (tl t)"
    and "rejects b (\<lambda>c. upper_us c \<or> digit c)" and "s = [] \<or> \<not> (upper_us (hd s) \<or> digit (hd s))"
  shows "rx_run (RSeq (RGrp n rx_type) b) \<lparr>mpos = i, mrest = t @ s, mcaps = k\<rparr> =
   rx_run b \<lparr>mpos = i + length t, mrest = s, mcaps = (n, t) # k\<rparr>"
proof (cases t)
  case (Cons c u)
  then have "takeWhile (\<lambda>c. upper_us c \<or> digit c) (u @ s) = u"
    using assms by (intro takeWhile_stop) auto
  then show ?thesis
    using assms Cons by (simp add: rx_seq_grp_type advance_cap_def advance_def del: rx_run.simps)
qed (use assms in simp)

lemma hd_after_ws:
  "list_all js_ws w \<Longrightarrow> (\<And>c. js_ws c \<Longrightarrow> \<not> p c) \<Longrightarrow> \<not> p x \<Longrightarrow> \<not> p (hd (w @ x # s))"
  by (cases w) auto

lemma char_classes:
  "js_ws c \<Longrightarrow> \<not> digit c" "js_ws c \<Longrightarrow> \<not> (upper_us c \<or> digit c)" "upper_us c \<Longrightarrow> \<not> js_ws c"
  "upper_us c \<or> digit c \<Longrightarrow> \<not> js_ws c" "\<not> upper_us CHR ''(''"
  by (auto simp: js_ws_def digit_def upper_us_def)

lemma rejects_ws:
  "(\<And>c. p c \<Longrightarrow> \<not> js_ws c) \<Longrightarrow> rejects b p \<Longrightarrow> rejects (RSeq rx_ws b) p"
  by (simp add: rx_ws_def rejects_star_seq)

lemma rx_at_line:
  assumes "line_ok e"
  shows "\<exists>m. rx_at rx_type_entry i (line_text e @ rest) = Some m \<and> mrest m = rest
    \<and> grp 1 m = el_id e \<and> grp 2 m = el_type e \<and> grp 3 m = el_args e"
proof -
  note ok = assms [unfolded line_ok_def]
  let ?b8 = "RSeq rx_ws (RChr CHR '';'')"
  let ?b6 = "RSeq (RGrp 3 (RStar True (RSet (\<lambda>c. c \<noteq> CHR '';'')))) (RSeq (RChr CHR '')'') ?b8)"
  let ?b5 = "RSeq (RChr CHR ''('') ?b6"
  let ?b3 = "RSeq (RGrp 2 rx_type) (RSeq rx_ws ?b5)"
  let ?b1 = "RSeq (RChr CHR ''='') (RSeq rx_ws ?b3)"
  let ?s6 = "el_args e @ CHR '')'' # el_w4 e @ CHR '';'' # rest"
  let ?s4 = "el_w3 e @ CHR ''('' # ?s6"
  let ?s2 = "el_w2 e @ el_type e @ ?s4"
  let ?s0 = "el_w1 e @ CHR ''='' # ?s2"
  let ?caps = "[(2, el_type e), (1, el_id e)]"
  have r5: "rejects ?b5 js_ws" "rejects ?b5 (\<lambda>c. upper_us c \<or> digit c)"
    by (rule rejects_seq, rule rejects_chr, simp add: digit_not char_classes(5))+
  have r3: "rejects ?b3 js_ws"
    unfolding rx_type_def by (intro rejects_seq rejects_grp rejects_set) (auto dest: char_classes(3))
  have r1: "rejects ?b1 js_ws" "rejects ?b1 digit"
    by (rule rejects_seq, rule rejects_chr, simp add: digit_not)+
  note rej = r1(1) r3 r5(1)
    rejects_ws [OF digit_not_ws r1(2)] rejects_ws [OF char_classes(4) r5(2)]
  have st: "\<not> digit (hd ?s0)" "\<not> (upper_us (hd ?s4) \<or> digit (hd ?s4))"
    by (rule hd_after_ws [where x = "CHR ''=''"]; use ok in \<open>simp add: char_classes(1) digit_not\<close>)
      (rule hd_after_ws [where p = "\<lambda>c. upper_us c \<or> digit c"]; use ok in \<open>simp add: char_classes(2,5) digit_not\<close>)
  have st2: "\<not> js_ws (hd (el_type e @ ?s4))"
    using ok char_classes(3) by simp
  let ?m0 = "\<lparr>mpos = i, mrest = line_text e @ rest, mcaps = []\<rparr>"
  have eq: "rx_type_entry = RSeq (RChr CHR ''#'') (RSeq (RGrp 1 rx_digits) (RSeq rx_ws ?b1))"
    by (simp add: rx_type_entry_def)
  have tx: "line_text e @ rest = CHR ''#'' # el_id e @ ?s0"
    by (simp add: line_text_def)
  have run: "\<exists>p. rx_run rx_type_entry ?m0 = rx_run ?b6 \<lparr>mpos = p, mrest = ?s6, mcaps = ?caps\<rparr>"
    unfolding eq tx rx_step_chr
    apply (subst rx_step_digits) using ok rej(4) st(1) apply (simp, simp, simp, simp)
    apply (subst rx_step_ws) using ok rej(1) apply (simp, simp, simp add: digit_not)
    apply (subst rx_step_chr)
    apply (subst rx_step_ws) using ok rej(2) st2 apply (simp, simp, simp)
    apply (subst rx_step_type) using ok rej(5) st(2) apply (simp, simp, simp, simp, simp)
    apply (subst rx_step_ws) using ok rej(3) apply (simp, simp, simp add: digit_not)
    apply (subst rx_step_chr)
    by blast
  then obtain p where p: "rx_run rx_type_entry ?m0 = rx_run ?b6 \<lparr>mpos = p, mrest = ?s6, mcaps = ?caps\<rparr>"
    by blast
  let ?m6 = "\<lparr>mpos = p, mrest = ?s6, mcaps = ?caps\<rparr>"
  have w4: "\<forall>x \<in> set (el_w4 e). x \<noteq> CHR '';'' \<and> x \<noteq> CHR '')''"
    using ok digit_not by (auto simp: list_all_iff)
  obtain ms where ms: "rx_run ?b6 ?m6 =
      rx_run (RSeq (RChr CHR '')'') ?b8) (advance_cap 3 (length (el_args e)) ?m6) @ ms"
    using rx_seq_grp_star_to [of ?m6 "el_args e" "CHR '')''" "el_w4 e" "CHR '';'' # rest"
        "\<lambda>c. c \<noteq> CHR '';''" 3 ?b8] ok w4 by auto
  have adv: "advance_cap 3 (length (el_args e)) ?m6 =
      \<lparr>mpos = p + length (el_args e), mrest = CHR '')'' # el_w4 e @ CHR '';'' # rest, mcaps = (3, el_args e) # ?caps\<rparr>"
    by (simp add: advance_cap_def advance_def)
  have "\<exists>q. rx_run ?b6 ?m6 = \<lparr>mpos = q, mrest = rest, mcaps = (3, el_args e) # ?caps\<rparr> # ms"
    unfolding ms adv rx_step_chr
    apply (subst rx_step_ws) using ok apply (simp, simp add: rejects_chr digit_not, simp add: digit_not)
    by (simp add: rx_run_chr advance_def)
  then show ?thesis by (auto simp: rx_at_def p grp_def)
qed

definition idx_of_lines :: "eline list \<Rightarrow> typeidx" where
  \<comment> \<open>what the index of a list of entities has to be\<close>
  "idx_of_lines es = fold (\<lambda>e. idx_put (el_type e) (el_id e) (el_args e)) es []"

lemma consumes_type_entry [simp]: "consumes rx_type_entry"
  by (simp add: rx_type_entry_def consumes_chr_seq)

lemma matches_lines:
  "\<forall>e \<in> set es. line_ok e \<Longrightarrow>
   map (\<lambda>m. (grp 1 m, grp 2 m, grp 3 m)) (matches_from rx_type_entry i (join [nl] (map line_text es))) =
   map (\<lambda>e. (el_id e, el_type e, el_args e)) es"
proof (induction es arbitrary: i)
  case (Cons e es)
  obtain m where m: "rx_at rx_type_entry i (line_text e @ (if es = [] then [] else [nl] @ join [nl] (map line_text es))) = Some m"
    "mrest m = (if es = [] then [] else [nl] @ join [nl] (map line_text es))"
    "grp 1 m = el_id e" "grp 2 m = el_type e" "grp 3 m = el_args e"
    using rx_at_line [of e i] Cons.prems by auto
  have eq: "join [nl] (map line_text (e # es)) =
      line_text e @ (if es = [] then [] else [nl] @ join [nl] (map line_text es))"
    by (cases es) simp_all
  have skip: "matches_from rx_type_entry j ([nl] @ s) = matches_from rx_type_entry (Suc j) s" for j s
  proof -
    have "rx_at rx_type_entry j (nl # s) = None"
      by (simp add: rx_at_def rx_type_entry_def rx_run_chr nl_def)
    then show ?thesis by (simp add: matches_from_skip)
  qed
  show ?case
    unfolding eq using m Cons by (simp add: matches_from_hit skip del: append_Cons)
qed simp

lemma buildTypeIndex_of_lines:
  assumes "\<forall>e \<in> set es. line_ok e"
  shows "buildTypeIndex (join [nl] (map line_text es)) = idx_of_lines es"
proof -
  have f: "fold (\<lambda>m. idx_put (grp 2 m) (grp 1 m) (grp 3 m)) ms =
      fold (\<lambda>(i, t, a). idx_put t i a) (map (\<lambda>m. (grp 1 m, grp 2 m, grp 3 m)) ms)" for ms
    by (simp add: fold_map comp_def)
  show ?thesis
    unfolding buildTypeIndex_def js_match_all_from f matches_lines [OF assms]
    by (simp add: idx_of_lines_def fold_map comp_def)
qed

lemma rx_search_zero: "rx_at r 0 s = Some m \<Longrightarrow> rx_exec r s = Some m"
  by (simp add: rx_exec_def rx_search_at)

lemma str_quoted: "str (Some (CHR 0x27 # x @ [CHR 0x27])) = x"
proof -
  let ?m = "\<lparr>mpos = 1, mrest = x @ [CHR 0x27], mcaps = []\<rparr>"
  obtain ms where ms: "rx_run (RSeq (RGrp 1 (RStar True (RSet (\<lambda>_. True)))) (RSeq (RChr CHR 0x27) REos)) ?m =
      rx_run (RSeq (RChr CHR 0x27) REos) (advance_cap 1 (length x) ?m) @ ms"
    using rx_seq_grp_star_to [of ?m x "CHR 0x27" "[]" "[]" "\<lambda>_. True" 1 REos] by auto
  have "rx_run rx_quoted \<lparr>mpos = 0, mrest = CHR 0x27 # x @ [CHR 0x27], mcaps = []\<rparr> =
      rx_run (RSeq (RGrp 1 (RStar True (RSet (\<lambda>_. True)))) (RSeq (RChr CHR 0x27) REos)) ?m"
    by (simp add: rx_quoted_def rx_run_chr advance_def)
  also have "\<dots> = advance 1 (advance_cap 1 (length x) ?m) # ms"
    unfolding ms by (simp add: rx_run_chr)
  finally have "rx_at rx_quoted 0 (CHR 0x27 # x @ [CHR 0x27]) = Some (advance 1 (advance_cap 1 (length x) ?m))"
    by (simp add: rx_at_def)
  from rx_search_zero [OF this] show ?thesis by (simp add: str_def grp_def)
qed

lemma ref_hash:
  assumes "list_all digit d" "d \<noteq> []" "trim t = CHR ''#'' # d"
  shows "ref (Some t) = Some d"
proof -
  have "rx_run rx_ref_arg \<lparr>mpos = 0, mrest = CHR ''#'' # d @ [], mcaps = []\<rparr> =
      rx_run (RSeq (RGrp 1 rx_digits) REos) \<lparr>mpos = 1, mrest = d @ [], mcaps = []\<rparr>"
    by (simp add: rx_ref_arg_def rx_run_chr advance_def)
  also have "\<dots> = rx_run REos \<lparr>mpos = 1 + length d, mrest = [], mcaps = [(1, d)]\<rparr>"
    using assms by (intro rx_step_digits rejects_eos) auto
  finally have "rx_at rx_ref_arg 0 (CHR ''#'' # d) = Some \<lparr>mpos = 1 + length d, mrest = [], mcaps = [(1, d)]\<rparr>"
    by (simp add: rx_at_def)
  from rx_search_zero [OF this] show ?thesis by (simp add: ref_def assms(3) grp_def)
qed

lemma entity_map_segments:
  "\<forall>(eid, t) \<in> set es. CHR '';'' \<notin> set t \<and> trim t = t \<and> entity_id t = Some eid \<Longrightarrow>
   distinct (map fst es) \<Longrightarrow> \<forall>eid \<in> fst ` set es. eid \<notin> fst ` set mp \<Longrightarrow>
   fold (\<lambda>seg mp. let t = trim seg in
      case rx_exec rx_entity_id t of Some m \<Rightarrow> obj_put (grp 1 m) (t @ '';'') mp | None \<Rightarrow> mp)
     (map snd es) mp = mp @ map (\<lambda>(eid, t). (eid, t @ '';'')) es"
proof (induction es arbitrary: mp)
  case (Cons e es)
  obtain eid t where e: "e = (eid, t)" by (cases e)
  have "entity_id t = Some eid" "trim t = t" using Cons.prems(1) by (auto simp: e)
  then obtain m where m: "rx_exec rx_entity_id t = Some m" "grp 1 m = eid"
    by (auto simp: entity_id_def)
  have "obj_put eid (t @ '';'') mp = mp @ [(eid, t @ '';'')]"
    using Cons.prems(3) by (intro obj_put_new) (auto simp: e)
  moreover have "\<forall>x \<in> set es. fst x \<noteq> eid" using Cons.prems(2) by (force simp: e)
  ultimately show ?case
    using Cons.prems m \<open>trim t = t\<close> Cons.IH [of "mp @ [(eid, t @ '';'')]"] by (auto simp: e)
qed simp

section \<open>What the callers rely on\<close>

text \<open>Splitting the comma-joined arguments of an entity gives the arguments back, trimmed,
  whenever no argument has a comma outside its own brackets and the last is not blank.\<close>

theorem splitArgs_inverts_join:
  assumes "xs \<noteq> []" and "\<forall>x \<in> set xs. depth_ok x 0" and "trim (last xs) \<noteq> []"
  shows "splitArgs (join '','' xs) = map trim xs"
  using assms by (rule splitArgs_join)

theorem splitArgs_inverts_join_witness: "splitArgs ''$, (#1,#2) ,.T.'' = [''$'', ''(#1,#2)'', ''.T.'']"
proof -
  have "splitArgs (join '','' [''$'', '' (#1,#2) '', ''.T.'']) = map trim [''$'', '' (#1,#2) '', ''.T.'']"
    by (rule splitArgs_inverts_join) code_simp+
  moreover have "map trim [''$'', '' (#1,#2) '', ''.T.''] = [''$'', ''(#1,#2)'', ''.T.'']" by code_simp
  ultimately show ?thesis by simp
qed

text \<open>Commas and brackets are counted inside quoted strings as well: an argument list whose
  quoted name holds a comma is cut inside the name.\<close>

theorem splitArgs_cuts_quoted_comma:
  "splitArgs (CHR 0x27 # ''a,b'' @ CHR 0x27 # '',$'') = [CHR 0x27 # ''a'', ''b'' @ [CHR 0x27], ''$'']"
  by code_simp

text \<open>The type index of the structural text holds exactly the entities written into it, each
  under its type and id with its argument text, the last one winning where an id repeats.\<close>

theorem buildTypeIndex_lines:
  assumes "\<forall>e \<in> set es. line_ok e"
  shows "buildTypeIndex (join [nl] (map line_text es)) = idx_of_lines es"
  using assms by (rule buildTypeIndex_of_lines)

theorem buildTypeIndex_lines_witness:
  "buildTypeIndex (''#1=A(#2,(3));'' @ nl # ''#2 = B_1 () ;'') =
     [(''A'', [(''1'', ''#2,(3)'')]), (''B_1'', [(''2'', [])])]"
proof -
  let ?es = "[\<lparr>el_id = ''1'', el_type = ''A'', el_args = ''#2,(3)'', el_w1 = [], el_w2 = [], el_w3 = [], el_w4 = []\<rparr>,
    \<lparr>el_id = ''2'', el_type = ''B_1'', el_args = [], el_w1 = '' '', el_w2 = '' '', el_w3 = '' '', el_w4 = '' ''\<rparr>]"
  have "buildTypeIndex (join [nl] (map line_text ?es)) = idx_of_lines ?es"
    by (rule buildTypeIndex_lines) code_simp
  moreover have "idx_of_lines ?es = [(''A'', [(''1'', ''#2,(3)'')]), (''B_1'', [(''2'', [])])]" by code_simp
  ultimately show ?thesis by (simp add: line_text_def)
qed

text \<open>The two reference graphs of an entity map are converse to each other, and the forward
  graph holds for each entity exactly the references of its body.\<close>

theorem buildRefGraphs_converse:
  "(\<forall>a b. b \<in> set (succs (buildRefGraph es) a) \<longleftrightarrow> a \<in> set (succs (buildReverseRefGraph es) b))
   \<and> (\<forall>a. set (succs (buildRefGraph es) a) =
        (\<Union>(eid, line) \<in> set es. if a = eid then set (refs_in (entity_body line)) else {}))"
proof -
  note g = fold_link_entity [OF converse_graphs_Nil, of entity_body "obj_entries es"]
  from g have "converse_graphs (buildRefGraphs es)" by (simp add: buildRefGraphs_def)
  moreover from g have "set (succs (buildRefGraph es) a) =
      (\<Union>(eid, line) \<in> set es. if a = eid then set (refs_in (entity_body line)) else {})" for a
    by (simp add: buildRefGraph_def buildRefGraphs_def succs_def [of "[]"])
  ultimately show ?thesis
    by (simp add: buildRefGraph_def buildReverseRefGraph_def converse_graphs_def)
qed

text \<open>Cutting the semicolon-terminated entity texts of a data section gives the map from
  each id to its own text.\<close>

theorem buildEntityMap_segments:
  assumes "\<forall>(eid, t) \<in> set es. CHR '';'' \<notin> set t \<and> trim t = t \<and> entity_id t = Some eid"
    and "distinct (map fst es)"
  shows "buildEntityMap (join '';'' (map snd es @ [[]])) = map (\<lambda>(eid, t). (eid, t @ '';'')) es"
proof -
  have sp: "split_on CHR '';'' (join '';'' (map snd es @ [[]])) = map snd es @ [[]]"
    using assms(1) by (intro split_on_join) auto
  have "rx_exec rx_entity_id [] = None" by code_simp
  then show ?thesis
    unfolding buildEntityMap_def sp
    using entity_map_segments [OF assms, of "[]"] by simp
qed

theorem buildEntityMap_segments_witness:
  "buildEntityMap ''#7=A(#8);#8 =B();'' = [(''7'', ''#7=A(#8);''), (''8'', ''#8 =B();'')]"
proof -
  let ?es = "[(''7'', ''#7=A(#8)''), (''8'', ''#8 =B()'')]"
  have "\<forall>(eid, t) \<in> set ?es. CHR '';'' \<notin> set t \<and> trim t = t \<and> entity_id t = Some eid" by code_simp
  from buildEntityMap_segments [OF this] show ?thesis by simp
qed

end
