(* ===== verification/StepMatrix.thy ===== *)
theory StepMatrix
  imports StepLib Complex_Main
begin

text \<open>
  Placement of occurrences, the last part of \<open>cad-parser/step-lib.js\<close>: the 4x4 matrix of an axis
  placement, the tables \<open>precomputeNauoData\<close> derives from the type index, and the matrix lookup
  \<open>buildNauoExtractor\<close> returns. Numbers are an arbitrary type \<open>'f\<close> with the operations the code
  applies to doubles collected in \<open>fp_ops\<close>, \<open>Number(s)\<close> included (None is NaN); the geometric
  facts are shown for exact real arithmetic.
\<close>

section \<open>Matrix\<close>

record 'f fp_ops =
  fp_zero :: 'f
  fp_one :: 'f
  fp_add :: "'f \<Rightarrow> 'f \<Rightarrow> 'f"
  fp_sub :: "'f \<Rightarrow> 'f \<Rightarrow> 'f"
  fp_mul :: "'f \<Rightarrow> 'f \<Rightarrow> 'f"
  fp_div :: "'f \<Rightarrow> 'f \<Rightarrow> 'f"
  fp_sqrt :: "'f \<Rightarrow> 'f"
  fp_sq :: "'f \<Rightarrow> 'f"                    \<comment> \<open>\<open>x ** 2\<close>\<close>
  fp_pos :: "'f \<Rightarrow> bool"                 \<comment> \<open>\<open>x > 0\<close>\<close>
  fp_number :: "string \<Rightarrow> 'f option"     \<comment> \<open>\<open>Number(s)\<close>\<close>

definition component :: "'f fp_ops \<Rightarrow> 'f list \<Rightarrow> nat \<Rightarrow> 'f" where
  \<comment> \<open>\<open>v[i] ?? 0\<close>\<close>
  "component fp v i = (if i < length v then v ! i else fp_zero fp)"

definition normalize3 :: "'f fp_ops \<Rightarrow> 'f list \<Rightarrow> 'f list" where
  "normalize3 fp v =
     (let len = fp_sqrt fp (fp_add fp (fp_add fp (fp_sq fp (v ! 0)) (fp_sq fp (v ! 1))) (fp_sq fp (v ! 2)))
      in if fp_pos fp len then map (\<lambda>c. fp_div fp c len) v
         else [fp_zero fp, fp_zero fp, fp_zero fp])"

definition cross :: "'f fp_ops \<Rightarrow> 'f list \<Rightarrow> 'f list \<Rightarrow> 'f list" where
  "cross fp a b =
     (let m = fp_mul fp; s = fp_sub fp
      in [s (m (a ! 1) (b ! 2)) (m (a ! 2) (b ! 1)),
          s (m (a ! 2) (b ! 0)) (m (a ! 0) (b ! 2)),
          s (m (a ! 0) (b ! 1)) (m (a ! 1) (b ! 0))])"

definition buildMatrix4x4 :: "'f fp_ops \<Rightarrow> 'f list \<Rightarrow> 'f list option \<Rightarrow> 'f list option \<Rightarrow> 'f list" where
  "buildMatrix4x4 fp origin dirX dirZ =
     (let ox = component fp origin 0; oy = component fp origin 1; oz = component fp origin 2;
          z = normalize3 fp (case dirZ of Some d \<Rightarrow> d | None \<Rightarrow> [fp_zero fp, fp_zero fp, fp_one fp]);
          x = normalize3 fp (case dirX of Some d \<Rightarrow> d | None \<Rightarrow> [fp_one fp, fp_zero fp, fp_zero fp]);
          y = normalize3 fp (cross fp z x)
      in [x ! 0, y ! 0, z ! 0, ox, x ! 1, y ! 1, z ! 1, oy, x ! 2, y ! 2, z ! 2, oz,
          fp_zero fp, fp_zero fp, fp_zero fp, fp_one fp])"

section \<open>Tables\<close>

record a2p =
  originId :: "string option"
  dirZId :: "string option"
  dirXId :: "string option"

record 'f nauo_data =
  cartPoints :: "'f list jsobj"
  directions :: "'f list jsobj"
  axis2p3d :: "a2p jsobj"
  nauoToPds :: "string jsobj"
  pdsToCdsr :: "string jsobj"
  srrMap :: "(string \<times> string) jsobj"
  compoundSrrToIdt :: "string jsobj"
  idtToA2p3d :: "string jsobj"
  itemToSr :: "string jsobj"
  srItems :: "string list jsobj"
  pdsToPsr :: "string jsobj"
  nauoInfo :: "(string \<times> string) jsobj"         \<comment> \<open>parent product, child product\<close>
  productToSr :: "string jsobj"
  reprMapToSr :: "string jsobj"
  srToMappedItems :: "(string \<times> string) list jsobj"   \<comment> \<open>representation map, target\<close>
  nauosByPairKey :: "string list jsobj"

definition scan_entries :: "typeidx \<Rightarrow> string \<Rightarrow> (string \<Rightarrow> string \<Rightarrow> 'a \<Rightarrow> 'a) \<Rightarrow> 'a \<Rightarrow> 'a" where
  \<comment> \<open>\<open>for (const [id, args] of Object.entries(ti[ty] ?? {}))\<close>\<close>
  "scan_entries ti ty f a = fold (\<lambda>(eid, args). f eid args) (obj_entries (idx_get ti ty)) a"

definition put_some :: "string option \<Rightarrow> 'v option \<Rightarrow> 'v jsobj \<Rightarrow> 'v jsobj" where
  \<comment> \<open>\<open>if (k && v) o[k] = v\<close>\<close>
  "put_some k v ob = (case (k, v) of (Some k', Some v') \<Rightarrow> obj_put k' v' ob | _ \<Rightarrow> ob)"

definition parse_triple :: "'f fp_ops \<Rightarrow> string \<Rightarrow> 'f list option" where
  "parse_triple fp args =
     (let p = splitArgs args;
          nums = map (fp_number fp) (split_on CHR '',''
                   (filter (\<lambda>c. c \<notin> set ''()'') (case arg p 1 of Some s \<Rightarrow> s | None \<Rightarrow> [])))
      in if length nums \<ge> 3 \<and> list_all (\<lambda>n. n \<noteq> None) nums then Some (map the nums) else None)"

definition triples_of :: "'f fp_ops \<Rightarrow> typeidx \<Rightarrow> string \<Rightarrow> 'f list jsobj" where
  "triples_of fp ti ty = scan_entries ti ty (\<lambda>eid args. put_some (Some eid) (parse_triple fp args)) []"

definition axes_of :: "typeidx \<Rightarrow> a2p jsobj" where
  "axes_of ti = scan_entries ti ''AXIS2_PLACEMENT_3D'' (\<lambda>eid args ob.
     let p = splitArgs args
     in obj_put eid \<lparr>originId = ref (arg p 1), dirZId = ref (arg p 2), dirXId = ref (arg p 3)\<rparr> ob) []"

definition nauo_to_pds :: "string list \<Rightarrow> typeidx \<Rightarrow> string jsobj" where
  "nauo_to_pds nauoIdSet ti = scan_entries ti ''PRODUCT_DEFINITION_SHAPE'' (\<lambda>pdsId args ob.
     let p = splitArgs args
     in case ref (arg p 2) of
          Some defRef \<Rightarrow> if defRef \<in> set nauoIdSet then obj_put defRef pdsId ob else ob
        | None \<Rightarrow> ob) []"

definition pds_to_cdsr :: "typeidx \<Rightarrow> string jsobj" where
  "pds_to_cdsr ti = scan_entries ti ''CONTEXT_DEPENDENT_SHAPE_REPRESENTATION'' (\<lambda>_ args.
     let p = splitArgs args in put_some (ref (arg p 1)) (ref (arg p 0))) []"

definition srr_map :: "typeidx \<Rightarrow> (string \<times> string) jsobj" where
  "srr_map ti = scan_entries ti ''SHAPE_REPRESENTATION_RELATIONSHIP'' (\<lambda>eid args ob.
     let p = splitArgs args
     in case (ref (arg p 2), ref (arg p 3)) of
          (Some sr1, Some sr2) \<Rightarrow> obj_put eid (sr1, sr2) ob | _ \<Rightarrow> ob) []"

definition rx_compound :: rx where
  "rx_compound = RCat [RChr CHR ''#'', RGrp 1 rx_digits, rx_ws, RChr CHR ''='', rx_ws, RChr CHR ''('', rx_ws,
     RLit ''REPRESENTATION_RELATIONSHIP'', rx_ws, RChr CHR ''('',
     RStar True (RSet (\<lambda>c. c \<noteq> CHR '')'')), RChr CHR '')'', rx_ws,
     RLit ''REPRESENTATION_RELATIONSHIP_WITH_TRANSFORMATION'', rx_ws, RChr CHR ''('', rx_ws,
     RChr CHR ''#'', RGrp 2 rx_digits, rx_ws, RChr CHR '')'']"

definition compound_srrs :: "string \<Rightarrow> string jsobj" where
  "compound_srrs dat = fold (\<lambda>m. obj_put (grp 1 m) (grp 2 m)) (js_match_all rx_compound dat) []"

definition idt_to_a2p :: "typeidx \<Rightarrow> string jsobj" where
  "idt_to_a2p ti = scan_entries ti ''ITEM_DEFINED_TRANSFORMATION'' (\<lambda>eid args.
     put_some (Some eid) (ref (arg (splitArgs args) 2))) []"

definition shape_reps :: "typeidx \<Rightarrow> string jsobj" where
  "shape_reps ti = obj_merge (obj_spread (idx_get ti ''SHAPE_REPRESENTATION'')
      (idx_get ti ''ADVANCED_BREP_SHAPE_REPRESENTATION''))
    (idx_get ti ''GEOMETRICALLY_BOUNDED_WIREFRAME_SHAPE_REPRESENTATION'')"

definition sr_tables :: "typeidx \<Rightarrow> string jsobj \<times> string list jsobj" where
  \<comment> \<open>\<open>itemToSr\<close> and \<open>srItems\<close>\<close>
  "sr_tables ti = fold (\<lambda>(eid, args) (toSr, items).
     let p = splitArgs args; refs = refs_in (case arg p 1 of Some s \<Rightarrow> s | None \<Rightarrow> [])
     in (fold (\<lambda>r. obj_put r eid) refs toSr, obj_put eid refs items))
     (obj_entries (shape_reps ti)) ([], [])"

definition pds_to_psr :: "string jsobj \<Rightarrow> typeidx \<Rightarrow> string jsobj" where
  "pds_to_psr toPds ti =
     (let nauoPdsIds = js_set_of (obj_values toPds)
      in scan_entries ti ''SHAPE_DEFINITION_REPRESENTATION'' (\<lambda>_ args ob.
           let p = splitArgs args
           in case (ref (arg p 0), ref (arg p 1)) of
                (Some pdsId, Some srId) \<Rightarrow> if pdsId \<in> set nauoPdsIds then obj_put pdsId srId ob else ob
              | _ \<Rightarrow> ob) [])"

definition formation_entries :: "typeidx \<Rightarrow> (string \<times> string) list" where
  "formation_entries ti = obj_entries (obj_spread (idx_get ti ''PRODUCT_DEFINITION_FORMATION'')
     (idx_get ti ''PRODUCT_DEFINITION_FORMATION_WITH_SPECIFIED_SOURCE''))"

definition nauo_entries :: "typeidx \<Rightarrow> string jsobj" where
  "nauo_entries ti = obj_spread (idx_get ti ''NEXT_ASSEMBLY_USAGE_OCCURRENCE'')
     (idx_get ti ''ASSEMBLY_COMPONENT_USAGE'')"

definition formations_of :: "typeidx \<Rightarrow> string jsobj" where
  \<comment> \<open>\<open>_fmts\<close>: formation to product\<close>
  "formations_of ti = fold (\<lambda>(eid, args). put_some (Some eid) (ref (arg (splitArgs args) 2)))
     (formation_entries ti) []"

definition pdefs_of :: "string jsobj \<Rightarrow> typeidx \<Rightarrow> string jsobj" where
  \<comment> \<open>\<open>_pdefs\<close>: product definition to product\<close>
  "pdefs_of fmts ti =
     (scan_entries ti ''PRODUCT_DEFINITION'' (\<lambda>eid args.
           put_some (Some eid) (Option.bind (ref (arg (splitArgs args) 2)) (obj_get fmts))) [])"

definition nauo_info :: "string list \<Rightarrow> string jsobj \<Rightarrow> typeidx \<Rightarrow> (string \<times> string) jsobj" where
  "nauo_info nauoIdSet pdefs ti = fold (\<lambda>(nauoId, args) ob.
     if nauoId \<notin> set nauoIdSet then ob
     else let p = splitArgs args
          in case (Option.bind (ref (arg p 3)) (obj_get pdefs), Option.bind (ref (arg p 4)) (obj_get pdefs)) of
               (Some par, Some chi) \<Rightarrow> obj_put nauoId (par, chi) ob | _ \<Rightarrow> ob)
     (obj_entries (nauo_entries ti)) []"

definition product_to_sr :: "string jsobj \<Rightarrow> typeidx \<Rightarrow> string jsobj" where
  "product_to_sr pdefs ti =
     (let productOfPds = scan_entries ti ''PRODUCT_DEFINITION_SHAPE'' (\<lambda>pdsId args.
            put_some (Some pdsId) (Option.bind (ref (arg (splitArgs args) 2)) (obj_get pdefs))) []
      in scan_entries ti ''SHAPE_DEFINITION_REPRESENTATION'' (\<lambda>_ args.
           let p = splitArgs args
           in put_some (Option.bind (ref (arg p 0)) (obj_get productOfPds)) (ref (arg p 1))) [])"

definition repr_map_to_sr :: "typeidx \<Rightarrow> string jsobj" where
  "repr_map_to_sr ti = scan_entries ti ''REPRESENTATION_MAP'' (\<lambda>eid args.
     put_some (Some eid) (ref (arg (splitArgs args) 1))) []"

definition mapped_items :: "string jsobj \<Rightarrow> typeidx \<Rightarrow> (string \<times> string) list jsobj" where
  "mapped_items toSr ti = scan_entries ti ''MAPPED_ITEM'' (\<lambda>miId args ob.
     let p = splitArgs args
     in case (ref (arg p 1), ref (arg p 2)) of
          (Some reprMapId, Some targetId) \<Rightarrow>
            (case obj_get toSr miId of
               Some parentSrId \<Rightarrow> obj_push parentSrId (reprMapId, targetId) ob
             | None \<Rightarrow> ob)
        | _ \<Rightarrow> ob) []"

definition pair_key :: "string \<times> string \<Rightarrow> string" where
  "pair_key info = fst info @ '':'' @ snd info"

definition nauos_by_pair :: "(string \<times> string) jsobj \<Rightarrow> string list jsobj" where
  "nauos_by_pair info = fold (\<lambda>(nauoId, i). obj_push (pair_key i) nauoId) (obj_entries info) []"

definition precomputeNauoData :: "'f fp_ops \<Rightarrow> string list \<Rightarrow> typeidx \<Rightarrow> string \<Rightarrow> 'f nauo_data" where
  "precomputeNauoData fp nauoIdSet ti dat =
     (let toPds = nauo_to_pds nauoIdSet ti; srs = sr_tables ti; pdefs = pdefs_of (formations_of ti) ti;
          info = nauo_info nauoIdSet pdefs ti
      in \<lparr>cartPoints = triples_of fp ti ''CARTESIAN_POINT'', directions = triples_of fp ti ''DIRECTION'',
          axis2p3d = axes_of ti, nauoToPds = toPds, pdsToCdsr = pds_to_cdsr ti, srrMap = srr_map ti,
          compoundSrrToIdt = compound_srrs dat, idtToA2p3d = idt_to_a2p ti,
          itemToSr = fst srs, srItems = snd srs, pdsToPsr = pds_to_psr toPds ti,
          nauoInfo = info, productToSr = product_to_sr pdefs ti, reprMapToSr = repr_map_to_sr ti,
          srToMappedItems = mapped_items (fst srs) ti, nauosByPairKey = nauos_by_pair info\<rparr>)"

section \<open>Matrix lookup\<close>

definition matrix_of :: "'f fp_ops \<Rightarrow> 'f nauo_data \<Rightarrow> a2p \<Rightarrow> 'f list" where
  "matrix_of fp d a =
     (let origin = (case Option.bind (originId a) (obj_get (cartPoints d)) of
            Some v \<Rightarrow> v | None \<Rightarrow> [fp_zero fp, fp_zero fp, fp_zero fp]);
          dirZ = Option.bind (dirZId a) (obj_get (directions d));
          dirX = Option.bind (dirXId a) (obj_get (directions d))
      in buildMatrix4x4 fp origin dirX dirZ)"

fun first_axis :: "'f nauo_data \<Rightarrow> string list \<Rightarrow> a2p option" where
  \<comment> \<open>the first item that is an axis placement\<close>
  "first_axis d [] = None"
| "first_axis d (itemId # items) =
     (case obj_get (axis2p3d d) itemId of Some a \<Rightarrow> Some a | None \<Rightarrow> first_axis d items)"

definition sr_item_list :: "'f nauo_data \<Rightarrow> string \<Rightarrow> string list" where
  "sr_item_list d srId = or_nil (obj_get (srItems d) srId)"

definition direct_axis :: "'f nauo_data \<Rightarrow> string \<Rightarrow> string \<Rightarrow> a2p option" where
  \<comment> \<open>the branches under \<open>if (pdsId)\<close>, in order; None falls through to the mapped items\<close>
  "direct_axis d nauoId pdsId =
     option_or
       (case option_or (obj_get (pdsToCdsr d) pdsId) (obj_get (pdsToCdsr d) nauoId) of
          None \<Rightarrow> None
        | Some srrId \<Rightarrow>
            option_or
              (case obj_get (srrMap d) srrId of
                 None \<Rightarrow> None
               | Some (sr1, sr2) \<Rightarrow> first_axis d (sr_item_list d sr1 @ sr_item_list d sr2))
              (Option.bind (Option.bind (obj_get (compoundSrrToIdt d) srrId) (obj_get (idtToA2p3d d)))
                 (obj_get (axis2p3d d))))
       (case obj_get (pdsToPsr d) pdsId of
          None \<Rightarrow> None | Some srId \<Rightarrow> first_axis d (sr_item_list d srId))"

fun position_in :: "string \<Rightarrow> string list \<Rightarrow> nat option" where
  "position_in x [] = None"
| "position_in x (y # ys) = (if x = y then Some 0 else map_option Suc (position_in x ys))"

definition candidates_of :: "'f nauo_data \<Rightarrow> string \<times> string \<Rightarrow> (string \<times> string) list" where
  "candidates_of d info =
     (case (obj_get (productToSr d) (fst info), obj_get (productToSr d) (snd info)) of
        (Some parentSrId, Some childSrId) \<Rightarrow>
          filter (\<lambda>mi. obj_get (reprMapToSr d) (fst mi) = Some childSrId)
            (or_nil (obj_get (srToMappedItems d) parentSrId))
      | _ \<Rightarrow> [])"

definition mapped_axis :: "'f nauo_data \<Rightarrow> string \<Rightarrow> a2p option" where
  "mapped_axis d nauoId =
     (case obj_get (nauoInfo d) nauoId of
        None \<Rightarrow> None
      | Some info \<Rightarrow>
          (let candidates = candidates_of d info
           in if candidates = [] then None
              else
                let siblings = (case obj_get (nauosByPairKey d) (pair_key info) of
                                  Some s \<Rightarrow> s | None \<Rightarrow> [nauoId]);
                    idx = (case position_in nauoId siblings of Some i \<Rightarrow> i | None \<Rightarrow> 0);
                    mi = candidates ! min idx (length candidates - 1)
                in obj_get (axis2p3d d) (snd mi)))"

definition getMatrixForNauo :: "'f fp_ops \<Rightarrow> 'f nauo_data \<Rightarrow> string \<Rightarrow> 'f list option" where
  "getMatrixForNauo fp d nauoId =
     map_option (matrix_of fp d)
       (option_or (case obj_get (nauoToPds d) nauoId of None \<Rightarrow> None | Some pdsId \<Rightarrow> direct_axis d nauoId pdsId)
          (mapped_axis d nauoId))"

section \<open>Facts: the matrix over the reals\<close>

definition real_ops :: "(string \<Rightarrow> real option) \<Rightarrow> real fp_ops" where
  "real_ops num = \<lparr>fp_zero = 0, fp_one = 1, fp_add = (+), fp_sub = (-), fp_mul = (*), fp_div = (/),
     fp_sqrt = sqrt, fp_sq = (\<lambda>x. x\<^sup>2), fp_pos = (\<lambda>x. 0 < x), fp_number = num\<rparr>"

lemma real_ops_sel [simp]:
  "fp_zero (real_ops num) = 0" "fp_one (real_ops num) = 1" "fp_add (real_ops num) = (+)"
  "fp_sub (real_ops num) = (-)" "fp_mul (real_ops num) = (*)" "fp_div (real_ops num) = (/)"
  "fp_sqrt (real_ops num) = sqrt" "fp_sq (real_ops num) = (\<lambda>x. x\<^sup>2)"
  "fp_pos (real_ops num) = (\<lambda>x. 0 < x)"
  by (simp_all add: real_ops_def)

definition dot :: "real list \<Rightarrow> real list \<Rightarrow> real" where
  "dot u v = u ! 0 * v ! 0 + u ! 1 * v ! 1 + u ! 2 * v ! 2"

definition column :: "nat \<Rightarrow> real list \<Rightarrow> real list" where
  "column j m = [m ! j, m ! (4 + j), m ! (8 + j)]"

definition det3 :: "real list \<Rightarrow> real" where
  "det3 m = dot (column 0 m) (cross (real_ops (\<lambda>_. None)) (column 1 m) (column 2 m))"

lemma list3: "length v = 3 \<Longrightarrow> v = [v ! 0, v ! 1, v ! 2]"
  by (auto simp: list_eq_iff_nth_eq nth_Cons' numeral_3_eq_3 numeral_2_eq_2 less_Suc_eq)

lemma normalize_real:
  assumes "length v = 3" and "dot v v \<noteq> 0"
  shows "\<exists>L > 0. L\<^sup>2 = dot v v \<and> normalize3 (real_ops num) v = [v ! 0 / L, v ! 1 / L, v ! 2 / L]"
proof -
  have pos: "dot v v > 0" 
  proof -
    have "dot v v \<ge> 0" unfolding dot_def by (intro add_nonneg_nonneg zero_le_square)
    with assms(2) show ?thesis by simp
  qed
  let ?L = "sqrt ((v ! 0)\<^sup>2 + (v ! 1)\<^sup>2 + (v ! 2)\<^sup>2)"
  have L: "?L > 0" "?L\<^sup>2 = dot v v" using pos by (simp_all add: dot_def power2_eq_square)
  have "map (\<lambda>c. c / ?L) v = [v ! 0 / ?L, v ! 1 / ?L, v ! 2 / ?L]"
    by (subst (1) list3 [OF assms(1)]) simp
  then have "normalize3 (real_ops num) v = [v ! 0 / ?L, v ! 1 / ?L, v ! 2 / ?L]"
    using L(1) by (simp add: normalize3_def Let_def)
  with L show ?thesis by blast
qed

lemma scaled_unit:
  fixes a b c K :: real
  assumes "K > 0" and "K\<^sup>2 = a * a + b * b + c * c"
  shows "a / K * (a / K) + b / K * (b / K) + c / K * (c / K) = 1"
proof -
  have "a / K * (a / K) + b / K * (b / K) + c / K * (c / K) = (a * a + b * b + c * c) / (K * K)"
    by (simp add: add_divide_distrib)
  also have "\<dots> = 1" using assms by (simp add: power2_eq_square flip: assms(2))
  finally show ?thesis .
qed

lemma unit_frame:
  fixes x0 x1 x2 z0 z1 z2 :: real
  assumes x: "x0 * x0 + x1 * x1 + x2 * x2 = 1" and z: "z0 * z0 + z1 * z1 + z2 * z2 = 1"
    and xz: "x0 * z0 + x1 * z1 + x2 * z2 = 0"
  defines "y0 \<equiv> z1 * x2 - z2 * x1" and "y1 \<equiv> z2 * x0 - z0 * x2" and "y2 \<equiv> z0 * x1 - z1 * x0"
  shows "y0 * y0 + y1 * y1 + y2 * y2 = 1"
    and "x0 * y0 + x1 * y1 + x2 * y2 = 0" and "y0 * z0 + y1 * z1 + y2 * z2 = 0"
    and "x0 * (y1 * z2 - y2 * z1) + x1 * (y2 * z0 - y0 * z2) + x2 * (y0 * z1 - y1 * z0) = 1"
proof -
  have lag: "y0 * y0 + y1 * y1 + y2 * y2 =
      (z0 * z0 + z1 * z1 + z2 * z2) * (x0 * x0 + x1 * x1 + x2 * x2) - (x0 * z0 + x1 * z1 + x2 * z2)\<^sup>2"
    unfolding y0_def y1_def y2_def by (simp add: algebra_simps power2_eq_square)
  then show n: "y0 * y0 + y1 * y1 + y2 * y2 = 1" by (simp add: x z xz)
  show "x0 * y0 + x1 * y1 + x2 * y2 = 0" "y0 * z0 + y1 * z1 + y2 * z2 = 0"
    unfolding y0_def y1_def y2_def by (simp_all add: algebra_simps)
  have "x0 * (y1 * z2 - y2 * z1) + x1 * (y2 * z0 - y0 * z2) + x2 * (y0 * z1 - y1 * z0) =
      y0 * y0 + y1 * y1 + y2 * y2"
    unfolding y0_def y1_def y2_def by (simp add: algebra_simps)
  with n show "x0 * (y1 * z2 - y2 * z1) + x1 * (y2 * z0 - y0 * z2) + x2 * (y0 * z1 - y1 * z0) = 1" by simp
qed

lemma normalize_unit: "length v = 3 \<Longrightarrow> dot v v = 1 \<Longrightarrow> normalize3 (real_ops num) v = v"
proof -
  assume v: "length v = 3" "dot v v = 1"
  then have "sqrt ((v ! 0)\<^sup>2 + (v ! 1)\<^sup>2 + (v ! 2)\<^sup>2) = 1" by (simp add: dot_def power2_eq_square)
  then show ?thesis by (simp add: normalize3_def)
qed

section \<open>What the callers rely on\<close>

text \<open>For perpendicular, non-zero axis directions the matrix is a rigid placement: its first
  three columns are orthonormal and right-handed, the fourth is the origin, and the last row is
  0 0 0 1 (exact arithmetic).\<close>

theorem buildMatrix4x4_rigid:
  assumes "length dx = 3" and "length dz = 3" and "dot dx dx \<noteq> 0" and "dot dz dz \<noteq> 0"
    and "dot dx dz = 0" and "length org = 3"
    and m: "m = buildMatrix4x4 (real_ops num) org (Some dx) (Some dz)"
  shows "(\<forall>i < 3. \<forall>j < 3. dot (column i m) (column j m) = (if i = j then 1 else 0))
    \<and> det3 m = 1 \<and> column 3 m = org \<and> drop 12 m = [0, 0, 0, 1]"
proof -
  obtain L where L: "L > 0" "L\<^sup>2 = dot dz dz"
    "normalize3 (real_ops num) dz = [dz ! 0 / L, dz ! 1 / L, dz ! 2 / L]"
    using normalize_real [OF assms(2,4)] by blast
  obtain K where K: "K > 0" "K\<^sup>2 = dot dx dx"
    "normalize3 (real_ops num) dx = [dx ! 0 / K, dx ! 1 / K, dx ! 2 / K]"
    using normalize_real [OF assms(1,3)] by blast
  define x0 x1 x2 where "x0 = dx ! 0 / K" and "x1 = dx ! 1 / K" and "x2 = dx ! 2 / K"
  define z0 z1 z2 where "z0 = dz ! 0 / L" and "z1 = dz ! 1 / L" and "z2 = dz ! 2 / L"
  have x: "x0 * x0 + x1 * x1 + x2 * x2 = 1"
    unfolding x0_def x1_def x2_def by (rule scaled_unit [OF K(1)]) (simp add: K(2) dot_def)
  have z: "z0 * z0 + z1 * z1 + z2 * z2 = 1"
    unfolding z0_def z1_def z2_def by (rule scaled_unit [OF L(1)]) (simp add: L(2) dot_def)
  have xz: "x0 * z0 + x1 * z1 + x2 * z2 = 0"
    using assms(5) by (simp add: x0_def x1_def x2_def z0_def z1_def z2_def dot_def flip: add_divide_distrib)
  define y0 y1 y2 where y: "y0 = z1 * x2 - z2 * x1" "y1 = z2 * x0 - z0 * x2" "y2 = z0 * x1 - z1 * x0"
  note fr = unit_frame [OF x z xz, folded y]
  have "cross (real_ops num) [z0, z1, z2] [x0, x1, x2] = [y0, y1, y2]"
    by (simp add: cross_def Let_def y numeral_2_eq_2)
  moreover have "normalize3 (real_ops num) [y0, y1, y2] = [y0, y1, y2]"
    using fr(1) by (intro normalize_unit) (simp_all add: dot_def)
  moreover have "org = [org ! 0, org ! 1, org ! 2]" by (rule list3 [OF assms(6)])
  ultimately have mm: "m = [x0, y0, z0, org ! 0, x1, y1, z1, org ! 1, x2, y2, z2, org ! 2, 0, 0, 0, 1]"
    using L(3) [folded z0_def z1_def z2_def] K(3) [folded x0_def x1_def x2_def] assms(6)
    by (simp add: m buildMatrix4x4_def component_def Let_def)
  have c: "column 0 m = [x0, x1, x2]" "column 1 m = [y0, y1, y2]" "column 2 m = [z0, z1, z2]"
    "column 3 m = org"
    using list3 [OF assms(6)] by (simp_all add: column_def mm)
  have "dot (column i m) (column j m) = (if i = j then 1 else 0)" if "i < 3" "j < 3" for i j
  proof -
    have "i = 0 \<or> i = 1 \<or> i = 2" "j = 0 \<or> j = 1 \<or> j = 2" using that by auto
    then show ?thesis using x z xz fr(1-3) by (auto simp: c c(2) [unfolded One_nat_def] dot_def mult.commute)
  qed
  moreover have "det3 m = 1" using fr(4) by (simp add: det3_def c c(2) [unfolded One_nat_def] dot_def cross_def)
  moreover have "drop 12 m = [0, 0, 0, 1]" by (simp add: mm)
  ultimately show ?thesis using c(4) by blast
qed

theorem buildMatrix4x4_rigid_witness:
  "det3 (buildMatrix4x4 (real_ops (\<lambda>_. None)) [5, 6, 7] (Some [0, 2, 0]) (Some [3, 0, 0])) = 1"
  using buildMatrix4x4_rigid [of "[0, 2, 0]" "[3, 0, 0]" "[5, 6, 7]" _ "\<lambda>_. None"]
  by (simp add: dot_def)

text \<open>Directions that are not perpendicular are not made so: the first and third column then
  stay at the given angle and the matrix is not a rotation.\<close>

theorem buildMatrix4x4_skew:
  assumes "length dx = 3" and "length dz = 3" and "dot dx dx \<noteq> 0" and "dot dz dz \<noteq> 0"
    and m: "m = buildMatrix4x4 (real_ops num) org (Some dx) (Some dz)"
  shows "dot (column 0 m) (column 2 m) = 0 \<longleftrightarrow> dot dx dz = 0"
proof -
  obtain L where L: "L > 0"
    "normalize3 (real_ops num) dz = [dz ! 0 / L, dz ! 1 / L, dz ! 2 / L]"
    using normalize_real [OF assms(2,4)] by blast
  obtain K where K: "K > 0"
    "normalize3 (real_ops num) dx = [dx ! 0 / K, dx ! 1 / K, dx ! 2 / K]"
    using normalize_real [OF assms(1,3)] by blast
  have "dot (column 0 m) (column 2 m) = dot dx dz / (K * L)"
    by (simp add: m buildMatrix4x4_def Let_def L K dot_def column_def add_divide_distrib)
  then show ?thesis using K(1) L(1) by simp
qed

theorem buildMatrix4x4_skew_witness:
  "dot (column 0 (buildMatrix4x4 (real_ops (\<lambda>_. None)) [0, 0, 0] (Some [1, 0, 1]) (Some [0, 0, 1])))
       (column 2 (buildMatrix4x4 (real_ops (\<lambda>_. None)) [0, 0, 0] (Some [1, 0, 1]) (Some [0, 0, 1]))) \<noteq> 0"
  using buildMatrix4x4_skew [of "[1, 0, 1]" "[0, 0, 1]" _ "\<lambda>_. None" "[0, 0, 0]"]
  by (simp add: dot_def)

section \<open>Occurrences of one component under one assembly\<close>

lemma position_in_nth: "distinct xs \<Longrightarrow> k < length xs \<Longrightarrow> position_in (xs ! k) xs = Some k"
  by (induction xs arbitrary: k) (auto simp: nth_Cons' less_Suc_eq_0_disj)

lemma fold_push_get:
  "obj_get (fold (\<lambda>(n, i). obj_push (f i) n) es ob) key =
     (let ns = map fst (filter (\<lambda>(n, i). f i = key) es)
      in if ns = [] then obj_get ob key
         else Some ((case obj_get ob key of None \<Rightarrow> [] | Some vs \<Rightarrow> vs) @ ns))"
proof (induction es arbitrary: ob)
  case (Cons e es)
  then show ?case by (cases e) (auto simp: Let_def obj_get_push split: option.splits)
qed simp

lemma nauo_info_distinct: "distinct (map fst (nauo_info ids pdefs ti))"
  unfolding nauo_info_def
  by (rule fold_keeps) (auto simp: Let_def intro!: obj_put_distinct split: option.splits)

text \<open>When an assembly uses a component several times and the mapped items are as many, the
  k-th occurrence is placed by the k-th mapped item, so no two occurrences share one.\<close>

theorem mapped_axis_by_position:
  assumes d: "d = precomputeNauoData fp ids ti dat"
    and info: "obj_get (nauoInfo d) n = Some i"
    and sib: "siblings = map fst (filter (\<lambda>(_, i'). pair_key i' = pair_key i) (obj_entries (nauoInfo d)))"
    and k: "k < length siblings" "siblings ! k = n" "length siblings \<le> length (candidates_of d i)"
  shows "mapped_axis d n = obj_get (axis2p3d d) (snd (candidates_of d i ! k))"
proof -
  have dist: "distinct (map fst (obj_entries (nauoInfo d)))"
    using nauo_info_distinct by (simp add: d precomputeNauoData_def Let_def flip: obj_keys_def)
  then have ds: "distinct siblings" unfolding sib by (rule distinct_map_filter)
  have "siblings \<noteq> []" using k(1) by auto
  then have "obj_get (nauosByPairKey d) (pair_key i) = Some siblings"
    using fold_push_get [of pair_key "obj_entries (nauoInfo d)" "[]" "pair_key i"] sib
    by (simp add: d precomputeNauoData_def Let_def nauos_by_pair_def case_prod_unfold)
  moreover have "position_in n siblings = Some k" using position_in_nth [OF ds k(1)] k(2) by simp
  moreover have "candidates_of d i \<noteq> []" "min k (length (candidates_of d i) - 1) = k" using k by auto
  ultimately show ?thesis by (simp add: mapped_axis_def info Let_def)
qed

definition sample_index :: typeidx where
  \<comment> \<open>product 1 uses product 2 twice, placed by two mapped items\<close>
  "sample_index =
     [(''PRODUCT_DEFINITION_FORMATION'', [(''3'', ''a,b,#1''), (''4'', ''a,b,#2'')]),
      (''PRODUCT_DEFINITION'', [(''5'', ''a,b,#3''), (''6'', ''a,b,#4'')]),
      (''NEXT_ASSEMBLY_USAGE_OCCURRENCE'', [(''50'', ''a,b,c,#5,#6''), (''51'', ''a,b,c,#5,#6'')]),
      (''PRODUCT_DEFINITION_SHAPE'', [(''7'', ''a,b,#5''), (''8'', ''a,b,#6'')]),
      (''SHAPE_DEFINITION_REPRESENTATION'', [(''9'', ''#7,#20''), (''10'', ''#8,#21'')]),
      (''SHAPE_REPRESENTATION'', [(''20'', ''a,(#30,#31)'')]),
      (''REPRESENTATION_MAP'', [(''22'', ''#40,#21'')]),
      (''MAPPED_ITEM'', [(''30'', ''a,#22,#60''), (''31'', ''a,#22,#61'')]),
      (''AXIS2_PLACEMENT_3D'', [(''60'', ''a,#70,$,$''), (''61'', ''a,#71,$,$'')])]"

definition sample_ops :: "int fp_ops" where
  \<comment> \<open>no number is read in the sample\<close>
  "sample_ops = \<lparr>fp_zero = 0, fp_one = 1, fp_add = (+), fp_sub = (-), fp_mul = (*), fp_div = (div),
     fp_sqrt = (\<lambda>x. x), fp_sq = (\<lambda>x. x * x), fp_pos = (\<lambda>x. 0 < x), fp_number = (\<lambda>_. None)\<rparr>"

definition sample_data :: "int nauo_data" where
  "sample_data = precomputeNauoData sample_ops [''50'', ''51''] sample_index []"

lemma sample_tables:
  "nauoInfo sample_data = [(''50'', ''1'', ''2''), (''51'', ''1'', ''2'')]"
  "productToSr sample_data = [(''1'', ''20''), (''2'', ''21'')]"
  "reprMapToSr sample_data = [(''22'', ''21'')]"
  "srToMappedItems sample_data = [(''20'', [(''22'', ''60''), (''22'', ''61'')])]"
  "axis2p3d sample_data = [(''60'', \<lparr>originId = Some ''70'', dirZId = None, dirXId = None\<rparr>),
     (''61'', \<lparr>originId = Some ''71'', dirZId = None, dirXId = None\<rparr>)]"
proof -
  have f: "formations_of sample_index = [(''3'', ''1''), (''4'', ''2'')]" by code_simp
  have p: "pdefs_of [(''3'', ''1''), (''4'', ''2'')] sample_index = [(''5'', ''1''), (''6'', ''2'')]" by code_simp
  have i: "nauo_info [''50'', ''51''] [(''5'', ''1''), (''6'', ''2'')] sample_index =
      [(''50'', ''1'', ''2''), (''51'', ''1'', ''2'')]" by code_simp
  have q: "product_to_sr [(''5'', ''1''), (''6'', ''2'')] sample_index = [(''1'', ''20''), (''2'', ''21'')]"
    by code_simp
  have t: "fst (sr_tables sample_index) = [(''30'', ''20''), (''31'', ''20'')]" by code_simp
  have m: "mapped_items [(''30'', ''20''), (''31'', ''20'')] sample_index =
      [(''20'', [(''22'', ''60''), (''22'', ''61'')])]" by code_simp
  have r: "repr_map_to_sr sample_index = [(''22'', ''21'')]" by code_simp
  have x: "axes_of sample_index = [(''60'', \<lparr>originId = Some ''70'', dirZId = None, dirXId = None\<rparr>),
     (''61'', \<lparr>originId = Some ''71'', dirZId = None, dirXId = None\<rparr>)]" by code_simp
  note d = sample_data_def precomputeNauoData_def Let_def nauo_data.select_convs f p
  show "nauoInfo sample_data = [(''50'', ''1'', ''2''), (''51'', ''1'', ''2'')]" by (simp only: d i)
  show "productToSr sample_data = [(''1'', ''20''), (''2'', ''21'')]" by (simp only: d q)
  show "reprMapToSr sample_data = [(''22'', ''21'')]" by (simp only: d r)
  show "srToMappedItems sample_data = [(''20'', [(''22'', ''60''), (''22'', ''61'')])]"
    by (simp only: d t m)
  show "axis2p3d sample_data = [(''60'', \<lparr>originId = Some ''70'', dirZId = None, dirXId = None\<rparr>),
     (''61'', \<lparr>originId = Some ''71'', dirZId = None, dirXId = None\<rparr>)]" by (simp only: d x)
qed

theorem mapped_axis_by_position_witness:
  "mapped_axis sample_data ''51'' = Some \<lparr>originId = Some ''71'', dirZId = None, dirXId = None\<rparr>"
proof -
  have i: "obj_get (nauoInfo sample_data) ''51'' = Some (''1'', ''2'')"
    by (simp add: sample_tables obj_get_def)
  have e: "obj_entries [(''50'', ''1'', ''2''), (''51'', ''1'', ''2'')] =
      [(''50'', ''1'', ''2''), (''51'', ''1'', ''2'' :: string)]" by code_simp
  have c: "candidates_of sample_data (''1'', ''2'') = [(''22'', ''60''), (''22'', ''61'')]"
    by (simp add: candidates_of_def sample_tables obj_get_def)
  have a: "obj_get (axis2p3d sample_data) ''61'' =
      Some \<lparr>originId = Some ''71'', dirZId = None, dirXId = None\<rparr>" by (simp add: sample_tables obj_get_def)
  show ?thesis
    using mapped_axis_by_position [OF sample_data_def i refl, of 1] by (simp add: sample_tables(1) e c a)
qed

end
