(* ===== verification/StepGraph.thy ===== *)
theory StepGraph
  imports StepLib
begin

text \<open>
  The reachability computations of \<open>cad-parser/step-lib.js\<close> that decide which entities go into a
  part file: the definitional chain of a product (backwards over the reverse reference graph), the
  forward closure, and its expansion over shape-representation relationships; then the renumbering
  writer \<open>reconstructStepFile\<close>. A \<open>Set\<close> is a distinct list in insertion order; the three loops walk
  a queue that grows while it is read, and stop because every entry pushed was new to a set of
  values of the graphs. The locale \<open>forward_closure\<close> is what the callers rely on.
\<close>

section \<open>Worklists\<close>

definition add_push :: "string \<Rightarrow> string list \<times> string list \<Rightarrow> string list \<times> string list" where
  \<comment> \<open>\<open>if (!c.has(e)) { c.add(e); q.push(e); }\<close>\<close>
  "add_push e cq = (if e \<in> set (fst cq) then cq else (fst cq @ [e], snd cq @ [e]))"

definition graph_vals :: "graph \<Rightarrow> string set" where
  "graph_vals g = \<Union> (set ` snd ` set g)"

definition pot :: "string set \<Rightarrow> string list \<times> string list \<Rightarrow> nat" where
  "pot U cq = card (U - set (fst cq)) + length (snd cq)"

lemma finite_graph_vals [simp]: "finite (graph_vals g)"
  by (simp add: graph_vals_def)

lemma succs_vals: "x \<in> set (succs g a) \<Longrightarrow> x \<in> graph_vals g"
proof -
  assume x: "x \<in> set (succs g a)"
  then obtain v where v: "map_of g a = Some v" "x \<in> set v"
    by (cases "map_of g a") (auto simp: succs_def obj_get_def)
  from map_of_SomeD [OF v(1)] v(2) show ?thesis by (force simp: graph_vals_def)
qed

lemma pot_add_push: "finite U \<Longrightarrow> e \<in> U \<Longrightarrow> pot U (add_push e cq) = pot U cq"
proof (cases "e \<in> set (fst cq)")
  case False
  assume U: "finite U" "e \<in> U"
  have "card (insert e (U - set (fst cq @ [e]))) = Suc (card (U - set (fst cq @ [e])))"
    using U by (intro card_insert_disjoint) auto
  moreover have "insert e (U - set (fst cq @ [e])) = U - set (fst cq)" using U False by auto
  ultimately have "card (U - set (fst cq)) = Suc (card (U - set (fst cq @ [e])))" by simp
  with False show ?thesis by (simp add: pot_def add_push_def)
qed (simp add: add_push_def)

lemma pot_fold_add_push:
  "finite U \<Longrightarrow> (\<And>e. e \<in> set es \<Longrightarrow> admit e \<Longrightarrow> e \<in> U) \<Longrightarrow>
   pot U (fold (\<lambda>e cq. if admit e then add_push e cq else cq) es cq) = pot U cq"
  by (induction es arbitrary: cq) (auto simp: pot_add_push)

definition visit :: "graph \<Rightarrow> (string \<Rightarrow> bool) \<Rightarrow> string \<Rightarrow> string list \<times> string list \<Rightarrow> string list \<times> string list" where
  "visit g admit eid cq = fold (\<lambda>r cq. if admit r then add_push r cq else cq) (succs g eid) cq"

lemma pot_visit: "pot (graph_vals g) (visit g admit eid cq) = pot (graph_vals g) cq"
  unfolding visit_def by (rule pot_fold_add_push) (auto dest: succs_vals)

function worklist :: "graph \<Rightarrow> (string \<Rightarrow> bool) \<Rightarrow> string list \<times> string list \<Rightarrow> nat \<Rightarrow> string list" where
  \<comment> \<open>\<open>while (ptr < queue.length)\<close>\<close>
  "worklist g admit cq ptr =
     (if ptr < length (snd cq) then worklist g admit (visit g admit (snd cq ! ptr) cq) (ptr + 1)
      else fst cq)"
  by pat_completeness auto
termination
proof (relation "measure (\<lambda>(g, admit, cq, ptr). pot (graph_vals g) cq - ptr)", goal_cases)
  case (2 g admit cq ptr)
  have "ptr < pot (graph_vals g) cq" using 2 by (simp add: pot_def)
  then show ?case by (simp add: pot_visit)
qed simp

declare worklist.simps [simp del]

section \<open>The closures as written\<close>

definition collectForwardClosure :: "string list \<Rightarrow> graph \<Rightarrow> string list" where
  "collectForwardClosure seeds refGraph = worklist refGraph (\<lambda>_. True) (js_set_of seeds, seeds) 0"

definition my_prod_defs :: "string \<Rightarrow> string jsobj \<Rightarrow> string list jsobj option \<Rightarrow> string list" where
  "my_prod_defs productStepId prodDefs prodDefsByProductId =
     (case Option.bind prodDefsByProductId (\<lambda>m. obj_get m productStepId) of
        Some s \<Rightarrow> s
      | None \<Rightarrow> map fst (filter (\<lambda>(_, pid). pid = productStepId) (obj_entries prodDefs)))"

definition chain_admits :: "string \<Rightarrow> graph \<Rightarrow> string list \<Rightarrow> string jsobj \<Rightarrow> string list \<Rightarrow> string \<Rightarrow> bool" where
  "chain_admits productStepId refGraph productStepIds prodDefs myProdDefIds referrer =
     (referrer \<notin> set productStepIds \<and>
      (let refs = succs refGraph referrer;
           refsOurPD = list_ex (\<lambda>r. r \<in> set myProdDefIds) refs;
           refsOtherPD = list_ex (\<lambda>r. obj_get prodDefs r \<noteq> None \<and> obj_get prodDefs r \<noteq> Some productStepId) refs
       in \<not> (refsOurPD \<and> refsOtherPD)))"

definition findDefinitionalChain ::
  "string \<Rightarrow> graph \<Rightarrow> graph \<Rightarrow> string list \<Rightarrow> string jsobj \<Rightarrow> string list jsobj option \<Rightarrow> string list" where
  "findDefinitionalChain productStepId reverseRefGraph refGraph productStepIds prodDefs prodDefsByProductId =
     worklist reverseRefGraph
       (chain_admits productStepId refGraph productStepIds prodDefs
          (my_prod_defs productStepId prodDefs prodDefsByProductId))
       ([productStepId], [productStepId]) 0"

section \<open>What a worklist computes\<close>

inductive reach :: "(string \<Rightarrow> string list) \<Rightarrow> string set \<Rightarrow> string \<Rightarrow> bool" for succ S where
  reach_seed: "x \<in> S \<Longrightarrow> reach succ S x"
| reach_step: "reach succ S x \<Longrightarrow> y \<in> set (succ x) \<Longrightarrow> reach succ S y"

definition walk_inv :: "(string \<Rightarrow> string list) \<Rightarrow> string set \<Rightarrow> string list \<times> string list \<Rightarrow> nat \<Rightarrow> bool" where
  "walk_inv succ S cq ptr \<longleftrightarrow> distinct (fst cq) \<and> set (snd cq) = set (fst cq) \<and> S \<subseteq> set (fst cq)
     \<and> (\<forall>x \<in> set (fst cq). reach succ S x)
     \<and> (\<forall>i < ptr. i < length (snd cq) \<longrightarrow> set (succ (snd cq ! i)) \<subseteq> set (fst cq))"

definition extends :: "string list \<times> string list \<Rightarrow> string list \<times> string list \<Rightarrow> string set \<Rightarrow> bool" where
  \<comment> \<open>the second state is the first one with new elements, all of them in the set, and each pushed\<close>
  "extends cq cq' A \<longleftrightarrow> (\<exists>zs. snd cq' = snd cq @ zs \<and> fst cq' = fst cq @ zs \<and> distinct zs
     \<and> set zs \<inter> set (fst cq) = {} \<and> set zs \<subseteq> A)"

lemma extends_refl [simp]: "extends cq cq A"
  by (simp add: extends_def)

lemma extends_trans: "extends a b A \<Longrightarrow> extends b c B \<Longrightarrow> extends a c (A \<union> B)"
  unfolding extends_def
  by (elim exE, rename_tac z1 z2, rule_tac x = "z1 @ z2" in exI) auto

lemma extends_mono: "extends a b A \<Longrightarrow> A \<subseteq> B \<Longrightarrow> extends a b B"
  unfolding extends_def by blast

lemma extends_add_push: "extends cq (add_push e cq) {e}"
  by (auto simp: extends_def add_push_def)

lemma extends_fold:
  "extends cq (fold (\<lambda>e cq. if admit e then add_push e cq else cq) es cq) (set (filter admit es))"
proof (induction es arbitrary: cq)
  case (Cons e es)
  show ?case
  proof (cases "admit e")
    case True
    have "extends cq (fold (\<lambda>e cq. if admit e then add_push e cq else cq) es (add_push e cq))
        ({e} \<union> set (filter admit es))"
      using extends_add_push Cons.IH by (rule extends_trans)
    with True show ?thesis by simp
  qed (use Cons in simp)
qed simp

lemma fst_fold_add_push:
  "set (fst (fold (\<lambda>e cq. if admit e then add_push e cq else cq) es cq)) =
   set (fst cq) \<union> set (filter admit es)"
proof (induction es arbitrary: cq)
  case (Cons e es)
  have "set (fst (add_push e cq)) = insert e (set (fst cq))" by (auto simp: add_push_def)
  then show ?case by (auto simp: Cons.IH)
qed simp

lemma worklist_facts:
  "walk_inv (\<lambda>x. filter admit (succs g x)) S cq ptr \<Longrightarrow> ptr \<le> length (snd cq) \<Longrightarrow>
   set (worklist g admit cq ptr) = {x. reach (\<lambda>x. filter admit (succs g x)) S x}
   \<and> distinct (worklist g admit cq ptr)"
proof (induction g admit cq ptr rule: worklist.induct)
  case (1 g admit cq ptr)
  let ?succ = "\<lambda>x. filter admit (succs g x)"
  note inv = "1.prems"(1) [unfolded walk_inv_def]
  show ?case
  proof (cases "ptr < length (snd cq)")
    case True
    let ?e = "snd cq ! ptr" and ?cq = "visit g admit (snd cq ! ptr) cq"
    obtain zs where z: "snd ?cq = snd cq @ zs" "fst ?cq = fst cq @ zs" "distinct zs"
      "set zs \<inter> set (fst cq) = {}" "set zs \<subseteq> set (?succ ?e)"
      using extends_fold [of cq admit "succs g ?e"] unfolding visit_def extends_def by blast
    have all: "set (?succ ?e) \<subseteq> set (fst ?cq)"
      unfolding visit_def fst_fold_add_push by blast
    have e: "reach ?succ S ?e" using inv True nth_mem by blast
    have "walk_inv ?succ S ?cq (ptr + 1)"
      unfolding walk_inv_def
    proof (intro conjI allI impI ballI)
      show "distinct (fst ?cq)" "set (snd ?cq) = set (fst ?cq)" "S \<subseteq> set (fst ?cq)"
        using z inv by auto
      fix x assume "x \<in> set (fst ?cq)"
      then have "x \<in> set (fst cq) \<or> x \<in> set (?succ ?e)" using z by auto
      then show "reach ?succ S x" using inv reach_step [OF e] by blast
    next
      fix i assume "i < ptr + 1" "i < length (snd ?cq)"
      then show "set (?succ (snd ?cq ! i)) \<subseteq> set (fst ?cq)"
        using z(1,2) inv True all by (cases "i = ptr") (auto simp: nth_append less_Suc_eq)
    qed
    moreover have "ptr + 1 \<le> length (snd ?cq)" using True z(1) by simp
    ultimately show ?thesis using "1.IH" [OF True] True by (subst (1 2) worklist.simps) simp
  next
    case False
    then have closed: "set (?succ x) \<subseteq> set (fst cq)" if "x \<in> set (fst cq)" for x
      using inv "1.prems"(2) that by (metis in_set_conv_nth le_neq_implies_less)
    have "x \<in> set (fst cq)" if "reach ?succ S x" for x
      using that by induction (use inv closed in blast)+
    with inv have "set (fst cq) = {x. reach ?succ S x}" by blast
    with False inv show ?thesis by (subst (1 2) worklist.simps) simp
  qed
qed

lemma reach_least:
  "reach succ S x \<Longrightarrow> S \<subseteq> A \<Longrightarrow> (\<And>y. y \<in> A \<Longrightarrow> set (succ y) \<subseteq> A) \<Longrightarrow> x \<in> A"
  by (induction rule: reach.induct) blast+

lemma collect_reach:
  "set (collectForwardClosure seeds g) = {x. reach (succs g) (set seeds) x}"
  "distinct (collectForwardClosure seeds g)"
proof -
  have eq: "(\<lambda>x. filter (\<lambda>_. True) (succs g x)) = succs g" by auto
  have "walk_inv (succs g) (set seeds) (js_set_of seeds, seeds) 0"
    by (auto simp: walk_inv_def intro: reach_seed)
  with worklist_facts [of "\<lambda>_. True" g "set seeds" "(js_set_of seeds, seeds)" 0]
  show "set (collectForwardClosure seeds g) = {x. reach (succs g) (set seeds) x}"
    "distinct (collectForwardClosure seeds g)"
    by (simp_all only: eq collectForwardClosure_def)
qed

locale forward_closure =
  fixes nxt :: "string \<Rightarrow> string list" and cl :: "string list \<Rightarrow> string list"
  assumes cl_seeds: "set S \<subseteq> set (cl S)"
    and cl_closed: "x \<in> set (cl S) \<Longrightarrow> set (nxt x) \<subseteq> set (cl S)"
    and cl_least: "set S \<subseteq> A \<Longrightarrow> (\<And>x. x \<in> A \<Longrightarrow> set (nxt x) \<subseteq> A) \<Longrightarrow> set (cl S) \<subseteq> A"
    and cl_distinct: "distinct (cl S)"
begin

lemma cl_mono: "set S \<subseteq> set T \<Longrightarrow> set (cl S) \<subseteq> set (cl T)"
  using cl_seeds [of T] cl_closed by (intro cl_least) auto

lemma cl_idem: "set (cl (cl S)) = set (cl S)"
proof
  show "set (cl (cl S)) \<subseteq> set (cl S)" by (rule cl_least) (auto dest: cl_closed)
qed (rule cl_seeds)

lemma cl_union: "set (cl (S @ T)) = set (cl S) \<union> set (cl T)"
proof
  show "set (cl (S @ T)) \<subseteq> set (cl S) \<union> set (cl T)"
  proof (rule cl_least)
    show "set (S @ T) \<subseteq> set (cl S) \<union> set (cl T)" using cl_seeds [of S] cl_seeds [of T] by auto
    show "set (nxt x) \<subseteq> set (cl S) \<union> set (cl T)" if "x \<in> set (cl S) \<union> set (cl T)" for x
      using that cl_closed [of x S] cl_closed [of x T] by blast
  qed
  show "set (cl S) \<union> set (cl T) \<subseteq> set (cl (S @ T))"
    using cl_mono [of S "S @ T"] cl_mono [of T "S @ T"] by simp
qed

lemma cl_absorbs: "(\<And>x. x \<in> A \<Longrightarrow> set (nxt x) \<subseteq> A) \<Longrightarrow> set S \<subseteq> A \<Longrightarrow> x \<in> set (cl S) \<Longrightarrow> x \<in> A"
  using cl_least by blast

end

interpretation fwd: forward_closure "succs g" "\<lambda>s. collectForwardClosure s g" for g
proof unfold_locales
  fix S A x
  show "set S \<subseteq> set (collectForwardClosure S g)"
    by (auto simp: collect_reach intro: reach_seed)
  show "x \<in> set (collectForwardClosure S g) \<Longrightarrow> set (succs g x) \<subseteq> set (collectForwardClosure S g)"
    by (auto simp: collect_reach intro: reach_step)
  show "set S \<subseteq> A \<Longrightarrow> (\<And>x. x \<in> A \<Longrightarrow> set (succs g x) \<subseteq> A) \<Longrightarrow> set (collectForwardClosure S g) \<subseteq> A"
    using reach_least [of "succs g" "set S" _ A] by (auto simp: collect_reach)
  show "distinct (collectForwardClosure S g)" by (rule collect_reach)
qed

definition chain_walk :: "graph \<Rightarrow> (string \<Rightarrow> bool) \<Rightarrow> string list \<Rightarrow> string list" where
  "chain_walk g admit seeds = worklist g admit (js_set_of seeds, seeds) 0"

lemma chain_walk_reach:
  "set (chain_walk g admit seeds) = {x. reach (\<lambda>x. filter admit (succs g x)) (set seeds) x}"
  "distinct (chain_walk g admit seeds)"
proof -
  have "walk_inv (\<lambda>x. filter admit (succs g x)) (set seeds) (js_set_of seeds, seeds) 0"
    by (auto simp: walk_inv_def intro: reach_seed)
  from worklist_facts [OF this]
  show "set (chain_walk g admit seeds) = {x. reach (\<lambda>x. filter admit (succs g x)) (set seeds) x}"
    "distinct (chain_walk g admit seeds)"
    by (simp_all add: chain_walk_def)
qed

interpretation chain: forward_closure "\<lambda>x. filter admit (succs g x)" "chain_walk g admit" for g admit
proof unfold_locales
  fix S A x
  show "set S \<subseteq> set (chain_walk g admit S)"
    by (auto simp: chain_walk_reach intro: reach_seed)
  show "x \<in> set (chain_walk g admit S) \<Longrightarrow> set (filter admit (succs g x)) \<subseteq> set (chain_walk g admit S)"
    by (auto simp: chain_walk_reach intro: reach_step)
  show "set S \<subseteq> A \<Longrightarrow> (\<And>x. x \<in> A \<Longrightarrow> set (filter admit (succs g x)) \<subseteq> A) \<Longrightarrow>
      set (chain_walk g admit S) \<subseteq> A"
    using reach_least [of "\<lambda>x. filter admit (succs g x)" "set S" _ A] by (auto simp: chain_walk_reach)
  show "distinct (chain_walk g admit S)" by (rule chain_walk_reach)
qed

lemma findDefinitionalChain_walk:
  "findDefinitionalChain p rv g prods defs byProd =
     chain_walk rv (chain_admits p g prods defs (my_prod_defs p defs byProd)) [p]"
  by (simp add: findDefinitionalChain_def chain_walk_def js_set_of_def js_add_def)

section \<open>Expansion over shape-representation relationships\<close>

record srr_env =
  reverseFromSRR :: graph
  env_refs :: graph                    \<comment> \<open>\<open>refGraph\<close>\<close>
  env_rev :: graph                     \<comment> \<open>\<open>reverseRefGraph\<close>\<close>
  allEntrySRIds :: "string list"
  srToProductId :: "string jsobj"
  env_step :: string                   \<comment> \<open>\<open>stepId\<close>\<close>

definition is_cross :: "srr_env \<Rightarrow> string \<Rightarrow> bool" where
  "is_cross env r \<longleftrightarrow> r \<in> set (allEntrySRIds env) \<and> obj_get (srToProductId env) r \<noteq> Some (env_step env)"

definition cdsr_step :: "srr_env \<Rightarrow> string \<Rightarrow> string list \<times> string list \<Rightarrow> string list \<times> string list" where
  "cdsr_step env cdsr cq =
     (if cdsr \<in> set (fst cq) then cq
      else fold add_push (succs (env_refs env) cdsr) (fst cq @ [cdsr], snd cq @ [cdsr]))"

definition srr_step :: "srr_env \<Rightarrow> string \<Rightarrow> string list \<times> string list \<Rightarrow> string list \<times> string list" where
  "srr_step env srrId cq =
     (if srrId \<in> set (fst cq) then cq
      else
        let srrRefs = succs (env_refs env) srrId;
            newRefs = filter (\<lambda>r. r \<notin> set (fst cq)) srrRefs;
            crossRefs = filter (is_cross env) newRefs;
            safeRefs = filter (\<lambda>r. r \<notin> set crossRefs) newRefs;
            cq1 = (fst cq @ [srrId], snd cq @ [srrId])
        in if length crossRefs > 0 then
             let cq2 = (fold js_add crossRefs (fst cq1), snd cq1);
                 sub = collectForwardClosure (js_set_of safeRefs) (env_refs env);
                 cq3 = fold add_push sub cq2
             in fold (cdsr_step env) (succs (env_rev env) srrId) cq3
           else fold add_push (collectForwardClosure (js_set_of newRefs) (env_refs env)) cq1)"

definition env_vals :: "srr_env \<Rightarrow> string set" where
  "env_vals env = graph_vals (reverseFromSRR env) \<union> graph_vals (env_refs env) \<union> graph_vals (env_rev env)"

lemma finite_env_vals [simp]: "finite (env_vals env)"
  by (simp add: env_vals_def)

lemma env_valsI:
  "x \<in> set (succs (reverseFromSRR env) a) \<Longrightarrow> x \<in> env_vals env"
  "x \<in> set (succs (env_refs env) a) \<Longrightarrow> x \<in> env_vals env"
  "x \<in> set (succs (env_rev env) a) \<Longrightarrow> x \<in> env_vals env"
  by (auto simp: env_vals_def dest: succs_vals)

lemma closure_env_vals:
  "x \<in> set (collectForwardClosure S (env_refs env)) \<Longrightarrow> set S \<subseteq> env_vals env \<Longrightarrow> x \<in> env_vals env"
  using fwd.cl_absorbs [of "env_vals env" "env_refs env" S x] env_valsI(2) by blast

lemma pot_fold_push: "finite U \<Longrightarrow> set es \<subseteq> U \<Longrightarrow> pot U (fold add_push es cq) = pot U cq"
  by (induction es arbitrary: cq) (auto simp: pot_add_push)

lemma pot_push_new: "finite U \<Longrightarrow> e \<in> U \<Longrightarrow> e \<notin> set (fst cq) \<Longrightarrow> pot U (fst cq @ [e], snd cq @ [e]) = pot U cq"
  using pot_add_push [of U e cq] by (simp add: add_push_def)

lemma pot_js_add: "finite U \<Longrightarrow> pot U (fold js_add es (fst cq), snd cq) \<le> pot U cq"
  by (auto simp: pot_def intro!: card_mono)

lemma pot_cdsr_step: "cdsr \<in> env_vals env \<Longrightarrow> pot (env_vals env) (cdsr_step env cdsr cq) = pot (env_vals env) cq"
  by (auto simp: cdsr_step_def pot_push_new subset_iff env_valsI(2) intro: trans [OF pot_fold_push])

lemma pot_fold_cdsr:
  "set cs \<subseteq> env_vals env \<Longrightarrow> pot (env_vals env) (fold (cdsr_step env) cs cq) = pot (env_vals env) cq"
  by (induction cs arbitrary: cq) (auto simp: pot_cdsr_step)

lemma pot_srr_step: "srrId \<in> env_vals env \<Longrightarrow> pot (env_vals env) (srr_step env srrId cq) \<le> pot (env_vals env) cq"
proof -
  assume s: "srrId \<in> env_vals env"
  let ?U = "env_vals env"
  let ?new = "filter (\<lambda>r. r \<notin> set (fst cq)) (succs (env_refs env) srrId)"
  let ?cross = "filter (is_cross env) ?new"
  let ?safe = "filter (\<lambda>r. r \<notin> set ?cross) ?new"
  have sub: "set (collectForwardClosure (js_set_of rs) (env_refs env)) \<subseteq> ?U"
    if "set rs \<subseteq> set (succs (env_refs env) srrId)" for rs
  proof
    fix x
    assume "x \<in> set (collectForwardClosure (js_set_of rs) (env_refs env))"
    moreover have "set (js_set_of rs) \<subseteq> ?U" using that env_valsI(2) [of _ env srrId] by auto
    ultimately show "x \<in> ?U" by (rule closure_env_vals)
  qed
  have rv: "set (succs (env_rev env) srrId) \<subseteq> ?U" using env_valsI(3) by blast
  show ?thesis
  proof (cases "srrId \<in> set (fst cq)")
    case False
    then have 1: "pot ?U (fst cq @ [srrId], snd cq @ [srrId]) = pot ?U cq" using s by (simp add: pot_push_new)
    have 2: "pot ?U (fold js_add ?cross (fst cq @ [srrId]), snd cq @ [srrId]) \<le> pot ?U cq"
      using pot_js_add [of ?U ?cross "(fst cq @ [srrId], snd cq @ [srrId])"] 1 by simp
    have s1: "set (collectForwardClosure (js_set_of ?new) (env_refs env)) \<subseteq> ?U" by (rule sub) auto
    have s2: "set (collectForwardClosure (js_set_of ?safe) (env_refs env)) \<subseteq> ?U" by (rule sub) auto
    show ?thesis
    proof (cases "?cross = []")
      case True
      then have "srr_step env srrId cq =
          fold add_push (collectForwardClosure (js_set_of ?new) (env_refs env)) (fst cq @ [srrId], snd cq @ [srrId])"
        using False by (simp add: srr_step_def Let_def)
      then show ?thesis using pot_fold_push [OF finite_env_vals s1] 1 by (simp only: order_refl)
    next
      case ne: False
      then have step: "srr_step env srrId cq = fold (cdsr_step env) (succs (env_rev env) srrId)
          (fold add_push (collectForwardClosure (js_set_of ?safe) (env_refs env))
            (fold js_add ?cross (fst cq @ [srrId]), snd cq @ [srrId]))"
        using False by (simp add: srr_step_def Let_def)
      show ?thesis
        unfolding step pot_fold_cdsr [OF rv] pot_fold_push [OF finite_env_vals s2] by (rule 2)
    qed
  qed (simp add: srr_step_def)
qed

lemma pot_fold_srr:
  "set ss \<subseteq> env_vals env \<Longrightarrow> pot (env_vals env) (fold (srr_step env) ss cq) \<le> pot (env_vals env) cq"
proof (induction ss arbitrary: cq)
  case (Cons x ss)
  have "pot (env_vals env) (srr_step env x cq) \<le> pot (env_vals env) cq"
    using Cons.prems by (intro pot_srr_step) simp
  with Cons.IH [of "srr_step env x cq"] Cons.prems show ?case by simp
qed simp

definition srr_visit :: "srr_env \<Rightarrow> string \<Rightarrow> string list \<times> string list \<Rightarrow> string list \<times> string list" where
  "srr_visit env eid cq = fold (srr_step env) (succs (reverseFromSRR env) eid) cq"

lemma pot_srr_visit: "pot (env_vals env) (srr_visit env eid cq) \<le> pot (env_vals env) cq"
  unfolding srr_visit_def by (rule pot_fold_srr) (auto dest: env_valsI)

function srr_loop :: "srr_env \<Rightarrow> string list \<times> string list \<Rightarrow> string list \<Rightarrow> nat \<Rightarrow> string list" where
  "srr_loop env cq checked i =
     (if i < length (snd cq) then
        (let entityId = snd cq ! i
         in if entityId \<in> set checked then srr_loop env cq checked (i + 1)
            else srr_loop env (srr_visit env entityId cq) (js_add entityId checked) (i + 1))
      else fst cq)"
  by pat_completeness auto
termination
proof (relation "measure (\<lambda>(env, cq, checked, i). pot (env_vals env) cq - i)", goal_cases)
  case (2 env cq checked i x)
  then have "i < pot (env_vals env) cq" by (simp add: pot_def)
  then show ?case by simp
next
  case (3 env cq checked i x)
  then have "i < pot (env_vals env) cq" by (simp add: pot_def)
  then show ?case using pot_srr_visit [of env x cq] by simp
qed simp

declare srr_loop.simps [simp del]

definition expandSRRClosure :: "srr_env \<Rightarrow> string list \<Rightarrow> string list" where
  \<comment> \<open>the closure is updated in place: this is its final value\<close>
  "expandSRRClosure env closure = srr_loop env (closure, closure) [] 0"

section \<open>What the expansion adds\<close>

definition boundary :: "srr_env \<Rightarrow> string set \<Rightarrow> string \<Rightarrow> bool" where
  \<comment> \<open>the only members whose own references may stay outside: the entry shape representation of
      another product, and what a placement record of a member relationship refers to\<close>
  "boundary env C x \<longleftrightarrow> is_cross env x
     \<or> (\<exists>srr \<in> C. \<exists>cdsr \<in> C. cdsr \<in> set (succs (env_rev env) srr) \<and> x \<in> set (succs (env_refs env) cdsr))"

definition refs_inside :: "srr_env \<Rightarrow> string set \<Rightarrow> bool" where
  "refs_inside env C \<longleftrightarrow> (\<forall>x \<in> C. set (succs (env_refs env) x) \<subseteq> C \<or> boundary env C x)"

lemma boundary_mono: "boundary env C x \<Longrightarrow> C \<subseteq> D \<Longrightarrow> boundary env D x"
  unfolding boundary_def by blast

lemma refs_inside_union:
  "refs_inside env C \<Longrightarrow> (\<And>x. x \<in> D \<Longrightarrow> set (succs (env_refs env) x) \<subseteq> C \<union> D \<or> boundary env (C \<union> D) x) \<Longrightarrow>
   refs_inside env (C \<union> D)"
  unfolding refs_inside_def using boundary_mono [of env C _ "C \<union> D"] by blast

lemma set_fold_add_push: "set (fst (fold add_push es cq)) = set (fst cq) \<union> set es"
  by (induction es arbitrary: cq) (auto simp: add_push_def)

lemma set_cdsr_step:
  "set (fst (cdsr_step env cdsr cq)) =
   set (fst cq) \<union> (if cdsr \<in> set (fst cq) then {} else insert cdsr (set (succs (env_refs env) cdsr)))"
  by (simp add: cdsr_step_def set_fold_add_push)

lemma cdsr_fold_inside:
  "srr \<in> set (fst cq) \<Longrightarrow> set cs \<subseteq> set (succs (env_rev env) srr) \<Longrightarrow> refs_inside env (set (fst cq)) \<Longrightarrow>
   refs_inside env (set (fst (fold (cdsr_step env) cs cq)))
   \<and> set (fst cq) \<subseteq> set (fst (fold (cdsr_step env) cs cq))"
proof (induction cs arbitrary: cq)
  case (Cons c cs)
  let ?cq = "cdsr_step env c cq"
  have sub: "set (fst cq) \<subseteq> set (fst ?cq)" by (simp add: set_cdsr_step)
  have "refs_inside env (set (fst ?cq))"
  proof (cases "c \<in> set (fst cq)")
    case True
    then show ?thesis using Cons.prems(3) by (simp add: set_cdsr_step)
  next
    case False
    have "refs_inside env (set (fst cq) \<union> insert c (set (succs (env_refs env) c)))"
    proof (rule refs_inside_union [OF Cons.prems(3)])
      fix x
      assume "x \<in> insert c (set (succs (env_refs env) c))"
      then show "set (succs (env_refs env) x) \<subseteq> set (fst cq) \<union> insert c (set (succs (env_refs env) c))
          \<or> boundary env (set (fst cq) \<union> insert c (set (succs (env_refs env) c))) x"
        using Cons.prems(1,2) unfolding boundary_def by auto
    qed
    with False show ?thesis by (simp add: set_cdsr_step)
  qed
  with Cons.IH [of ?cq] Cons.prems sub show ?case by auto
qed simp

lemma srr_step_inside:
  assumes "refs_inside env (set (fst cq))"
  shows "refs_inside env (set (fst (srr_step env srrId cq)))
    \<and> insert srrId (set (fst cq)) \<subseteq> set (fst (srr_step env srrId cq))"
proof (cases "srrId \<in> set (fst cq)")
  case False
  let ?C = "set (fst cq)"
  let ?refs = "env_refs env"
  let ?new = "filter (\<lambda>r. r \<notin> ?C) (succs ?refs srrId)"
  let ?cross = "filter (is_cross env) ?new"
  let ?safe = "filter (\<lambda>r. r \<notin> set ?cross) ?new"
  let ?cl = "\<lambda>rs. set (collectForwardClosure (js_set_of rs) ?refs)"
  have ins: "refs_inside env (?C \<union> (insert srrId (set cr) \<union> ?cl rs))"
    if "set (succs ?refs srrId) \<subseteq> ?C \<union> set cr \<union> set rs" "\<forall>x \<in> set cr. is_cross env x" for cr rs
  proof (rule refs_inside_union [OF assms])
    fix x
    assume "x \<in> insert srrId (set cr) \<union> ?cl rs"
    then show "set (succs ?refs x) \<subseteq> ?C \<union> (insert srrId (set cr) \<union> ?cl rs)
        \<or> boundary env (?C \<union> (insert srrId (set cr) \<union> ?cl rs)) x"
      using that fwd.cl_closed [of x "js_set_of rs" ?refs] fwd.cl_seeds [of "js_set_of rs" ?refs]
      unfolding boundary_def by auto
  qed
  show ?thesis
  proof (cases "?cross = []")
    case True
    then have "set (fst (srr_step env srrId cq)) = ?C \<union> (insert srrId (set []) \<union> ?cl ?new)"
      using False by (auto simp: srr_step_def Let_def set_fold_add_push)
    with ins [of "[]" ?new] show ?thesis by auto
  next
    case ne: False
    let ?cq3 = "fold add_push (collectForwardClosure (js_set_of ?safe) ?refs)
      (fold js_add ?cross (fst cq @ [srrId]), snd cq @ [srrId])"
    have step: "srr_step env srrId cq = fold (cdsr_step env) (succs (env_rev env) srrId) ?cq3"
      using False ne by (simp add: srr_step_def Let_def)
    have st: "set (fst ?cq3) = ?C \<union> (insert srrId (set ?cross) \<union> ?cl ?safe)"
      by (auto simp: set_fold_add_push)
    have "refs_inside env (set (fst ?cq3))" unfolding st by (rule ins) auto
    moreover have "srrId \<in> set (fst ?cq3)" unfolding st by blast
    ultimately have "refs_inside env (set (fst (srr_step env srrId cq)))
        \<and> set (fst ?cq3) \<subseteq> set (fst (srr_step env srrId cq))"
      unfolding step by (intro cdsr_fold_inside) auto
    then show ?thesis unfolding st by blast
  qed
qed (use assms in \<open>simp add: srr_step_def\<close>)

lemma srr_visit_inside:
  "refs_inside env (set (fst cq)) \<Longrightarrow>
   refs_inside env (set (fst (fold (srr_step env) ss cq)))
   \<and> set ss \<union> set (fst cq) \<subseteq> set (fst (fold (srr_step env) ss cq))"
proof (induction ss arbitrary: cq)
  case (Cons s ss)
  from srr_step_inside [OF Cons.prems, of s] Cons.IH [of "srr_step env s cq"] show ?case by auto
qed simp

lemma srr_loop_inside:
  "refs_inside env (set (fst cq)) \<Longrightarrow>
   refs_inside env (set (srr_loop env cq checked i)) \<and> set (fst cq) \<subseteq> set (srr_loop env cq checked i)"
proof (induction env cq checked i rule: srr_loop.induct)
  case (1 env cq checked i)
  show ?case
  proof (cases "i < length (snd cq)")
    case True
    let ?e = "snd cq ! i"
    show ?thesis
    proof (cases "?e \<in> set checked")
      case inn: True
      with "1.IH"(1) [OF True refl inn "1.prems"] True show ?thesis by (subst (1 2) srr_loop.simps) (simp add: Let_def)
    next
      case out: False
      from srr_visit_inside [OF "1.prems", of "succs (reverseFromSRR env) ?e"]
      have v: "refs_inside env (set (fst (srr_visit env ?e cq)))" "set (fst cq) \<subseteq> set (fst (srr_visit env ?e cq))"
        by (simp_all add: srr_visit_def)
      from "1.IH"(2) [OF True refl out v(1)] v(2) True out show ?thesis
        by (subst (1 2) srr_loop.simps) (auto simp: Let_def)
    qed
  next
    case False
    with "1.prems" show ?thesis by (subst (1 2) srr_loop.simps) simp
  qed
qed

lemma queue_add_push: "\<exists>zs. snd (add_push e cq) = snd cq @ zs"
  by (simp add: add_push_def)

lemma queue_fold:
  assumes "\<And>e cq. \<exists>zs. snd (f e cq) = snd cq @ (zs :: string list)"
  shows "\<exists>zs. snd (fold f es (cq :: string list \<times> string list)) = snd cq @ zs"
proof (induction es arbitrary: cq)
  case (Cons e es)
  obtain zs where "snd (f e cq) = snd cq @ zs" using assms by blast
  moreover obtain ys where "snd (fold f es (f e cq)) = snd (f e cq) @ ys" using Cons by blast
  ultimately show ?case by simp
qed simp

lemma queue_cdsr_step: "\<exists>zs. snd (cdsr_step env c cq) = snd cq @ zs"
proof -
  obtain zs where "snd (fold add_push (succs (env_refs env) c) (fst cq @ [c], snd cq @ [c])) = (snd cq @ [c]) @ zs"
    using queue_fold [of add_push, OF queue_add_push, of _ "(fst cq @ [c], snd cq @ [c])"] by auto
  then show ?thesis by (simp add: cdsr_step_def)
qed

lemma queue_srr_step: "\<exists>zs. snd (srr_step env s cq) = snd cq @ zs"
proof -
  have push: "\<exists>zs. snd (fold add_push es (c, snd cq @ [s])) = snd cq @ zs" for es c
    using queue_fold [of add_push, OF queue_add_push, of es "(c, snd cq @ [s])"] by auto
  have "\<exists>zs. snd (fold (cdsr_step env) cs (fold add_push es (c, snd cq @ [s]))) = snd cq @ zs" for cs es c
    using queue_fold [of "cdsr_step env", OF queue_cdsr_step, of cs "fold add_push es (c, snd cq @ [s])"]
      push [of es c] by auto
  with push show ?thesis by (simp add: srr_step_def Let_def)
qed

lemma queue_srr_visit: "\<exists>zs. snd (srr_visit env e cq) = snd cq @ zs"
  unfolding srr_visit_def by (rule queue_fold) (rule queue_srr_step)

lemma srr_loop_complete:
  assumes "refs_inside env (set (fst cq))"
    and "\<forall>x \<in> set checked. set (succs (reverseFromSRR env) x) \<subseteq> set (fst cq)"
    and "\<forall>j < i. j < length (snd cq) \<longrightarrow> snd cq ! j \<in> set checked"
  shows "\<forall>x \<in> set (snd cq). set (succs (reverseFromSRR env) x) \<subseteq> set (srr_loop env cq checked i)"
  using assms
proof (induction env cq checked i rule: srr_loop.induct)
  case (1 env cq checked i)
  show ?case
  proof (cases "i < length (snd cq)")
    case True
    let ?e = "snd cq ! i"
    show ?thesis
    proof (cases "?e \<in> set checked")
      case inn: True
      have "\<forall>j < i + 1. j < length (snd cq) \<longrightarrow> snd cq ! j \<in> set checked"
        using "1.prems"(3) inn by (auto simp: less_Suc_eq)
      with "1.IH"(1) [OF True refl inn "1.prems"(1,2)] True inn show ?thesis
        by (subst srr_loop.simps) (simp add: Let_def)
    next
      case out: False
      let ?cq = "srr_visit env ?e cq"
      obtain zs where zs: "snd ?cq = snd cq @ zs" using queue_srr_visit by blast
      from srr_visit_inside [OF "1.prems"(1), of "succs (reverseFromSRR env) ?e"]
      have v: "refs_inside env (set (fst ?cq))" "set (fst cq) \<subseteq> set (fst ?cq)"
        "set (succs (reverseFromSRR env) ?e) \<subseteq> set (fst ?cq)"
        by (simp_all add: srr_visit_def)
      have c: "\<forall>x \<in> set (js_add ?e checked). set (succs (reverseFromSRR env) x) \<subseteq> set (fst ?cq)"
        using "1.prems"(2) v(2,3) by auto
      have q: "\<forall>j < i + 1. j < length (snd ?cq) \<longrightarrow> snd ?cq ! j \<in> set (js_add ?e checked)"
        using "1.prems"(3) True by (auto simp: less_Suc_eq zs nth_append)
      from "1.IH"(2) [OF True refl out v(1) c q] True out show ?thesis
        by (subst srr_loop.simps) (simp add: Let_def zs)
    qed
  next
    case False
    have "set (succs (reverseFromSRR env) x) \<subseteq> set (fst cq)" if "x \<in> set (snd cq)" for x
    proof -
      from that obtain j where "j < length (snd cq)" "snd cq ! j = x" by (auto simp: in_set_conv_nth)
      with False "1.prems"(2,3) show ?thesis by auto
    qed
    with False show ?thesis by (subst srr_loop.simps) simp
  qed
qed

section \<open>Renumbering writer\<close>

definition rs_pairs :: "string list \<Rightarrow> string jsobj \<Rightarrow> (nat \<times> string) list" where
  \<comment> \<open>the ids present in the map with their numeric value, in numeric order\<close>
  "rs_pairs closureIds entityMap =
     sort_key fst (map (\<lambda>eid. (nat_of_digits eid, eid))
       (filter (\<lambda>eid. or_nil (obj_get entityMap eid) \<noteq> []) closureIds))"

definition rs_renumber :: "(nat \<times> string) list \<Rightarrow> string \<Rightarrow> string" where
  \<comment> \<open>\<open>renumber.get(refId) ?? refId\<close>\<close>
  "rs_renumber pairs refId =
     (case map_of (rev (zip (map snd pairs) (map (\<lambda>i. digits_of_nat (i + 1)) [0..<length pairs]))) refId of
        Some n \<Rightarrow> n | None \<Rightarrow> refId)"

definition rs_line :: "(nat \<times> string) list \<Rightarrow> string \<Rightarrow> string" where
  "rs_line pairs line = js_replace rx_ref (\<lambda>m. ''#'' @ rs_renumber pairs (grp 1 m)) line"

definition rs_data_lines :: "string list \<Rightarrow> string jsobj \<Rightarrow> string list" where
  "rs_data_lines closureIds entityMap =
     (let pairs = rs_pairs closureIds entityMap
      in map (\<lambda>(_, oldId). rs_line pairs (or_nil (obj_get entityMap oldId))) pairs)"

definition reconstructStepFile :: "string \<Rightarrow> string list \<Rightarrow> string jsobj \<Rightarrow> string" where
  "reconstructStepFile headerSection closureIds entityMap =
     join [nl] ([''ISO-10303-21;'', headerSection, ''DATA;''] @ rs_data_lines closureIds entityMap
       @ [''ENDSEC;'', ''END-ISO-10303-21;''])"

lemma takeWhile_digits: "list_all digit d \<Longrightarrow> s = [] \<or> \<not> digit (hd s) \<Longrightarrow>
   takeWhile digit (d @ s) = d \<and> dropWhile digit (d @ s) = s"
  by (cases s) (auto simp: list_all_iff takeWhile_append2 dropWhile_append2)

lemma refs_in_replace:
  "\<forall>d \<in> set (refs_in s). f d \<noteq> [] \<and> list_all digit (f d) \<Longrightarrow>
   refs_in (repl_from rx_ref (\<lambda>m. ''#'' @ f (grp 1 m)) i s) = map f (refs_in s)
   \<and> (s \<noteq> [] \<longrightarrow> repl_from rx_ref (\<lambda>m. ''#'' @ f (grp 1 m)) i s \<noteq> []
        \<and> hd (repl_from rx_ref (\<lambda>m. ''#'' @ f (grp 1 m)) i s) = hd s)"
proof (induction "length s" arbitrary: s i rule: less_induct)
  case less
  show ?case
  proof (cases s)
    case (Cons c t)
    show ?thesis
    proof (cases "c = CHR ''#'' \<and> takeWhile digit t \<noteq> []")
      case True
      let ?d = "takeWhile digit t" and ?t = "dropWhile digit t"
      let ?r = "repl_from rx_ref (\<lambda>m. ''#'' @ f (grp 1 m)) (i + 1 + length ?d) ?t"
      have "length ?t < length s" using length_dropWhile_le [of digit t] Cons by simp
      moreover have "\<forall>d \<in> set (refs_in ?t). f d \<noteq> [] \<and> list_all digit (f d)"
        using less.prems True by (auto simp: Cons refs_in_Cons)
      ultimately have ih: "refs_in ?r = map f (refs_in ?t)" "?t \<noteq> [] \<longrightarrow> ?r \<noteq> [] \<and> hd ?r = hd ?t"
        using less.hyps by blast+
      have stop: "?r = [] \<or> \<not> digit (hd ?r)"
      proof (cases "?t = []")
        case False
        with ih(2) hd_dropWhile [of digit t] show ?thesis by simp
      next
        case True
        show ?thesis unfolding True by simp
      qed
      have fd: "f ?d \<noteq> []" "list_all digit (f ?d)" using less.prems True by (auto simp: Cons refs_in_Cons)
      have rep: "repl_from rx_ref (\<lambda>m. ''#'' @ f (grp 1 m)) i s = CHR ''#'' # f ?d @ ?r"
        using True by (simp add: Cons repl_from_hit rx_at_ref grp_def)
      show ?thesis
        unfolding rep using takeWhile_digits [OF fd(2) stop] fd True ih
        by (simp add: refs_in_Cons Cons)
    next
      case False
      then have "rx_at rx_ref i (c # t) = None" by (auto simp: rx_at_ref)
      then have rep: "repl_from rx_ref (\<lambda>m. ''#'' @ f (grp 1 m)) i s =
          c # repl_from rx_ref (\<lambda>m. ''#'' @ f (grp 1 m)) (Suc i) t"
        by (simp add: Cons repl_from_skip)
      let ?r = "repl_from rx_ref (\<lambda>m. ''#'' @ f (grp 1 m)) (Suc i) t"
      have ih: "refs_in ?r = map f (refs_in t)" "t \<noteq> [] \<longrightarrow> ?r \<noteq> [] \<and> hd ?r = hd t"
        using less.hyps [of t "Suc i"] less.prems False by (auto simp: Cons refs_in_Cons)
      have "takeWhile digit ?r = [] \<longleftrightarrow> takeWhile digit t = []"
      proof (cases t)
        case (Cons x u)
        with ih(2) obtain v where "?r = x # v" by (cases ?r) auto
        then show ?thesis by (simp add: Cons)
      qed simp
      then show ?thesis unfolding rep using ih(1) False by (auto simp: refs_in_Cons Cons)
    qed
  qed simp
qed

lemma rs_renumber_digits:
  assumes "r \<noteq> [] \<and> list_all digit r"
  shows "rs_renumber pairs r \<noteq> [] \<and> list_all digit (rs_renumber pairs r)"
proof (cases "map_of (rev (zip (map snd pairs) (map (\<lambda>i. digits_of_nat (i + 1)) [0..<length pairs]))) r")
  case (Some n)
  from map_of_SomeD [OF Some] obtain k where "n = digits_of_nat k"
    by (auto simp: set_zip)
  with Some digits_of_nat_digits show ?thesis by (simp add: rs_renumber_def)
qed (use assms in \<open>simp add: rs_renumber_def\<close>)

lemma rs_line_refs: "refs_in (rs_line pairs line) = map (rs_renumber pairs) (refs_in line)"
  unfolding rs_line_def js_replace_from
  using refs_in_replace [of line "rs_renumber pairs" 0] rs_renumber_digits refs_in_digits by blast

section \<open>What the splitter relies on\<close>

text \<open>C4. The forward closure of a set of entities is exactly what can be reached from them along
  references, without repetition: nothing is missed and nothing else is taken.\<close>

theorem collectForwardClosure_exact:
  "set (collectForwardClosure seeds refGraph) = {x. reach (succs refGraph) (set seeds) x}
   \<and> distinct (collectForwardClosure seeds refGraph)"
  using collect_reach by blast

text \<open>C5. The definitional chain of a product is exactly what can be reached from it backwards
  through admitted referrers; so apart from the product itself it holds no other product and no
  record that ties one of its definitions to a definition of another product.\<close>

theorem findDefinitionalChain_exact:
  "set (findDefinitionalChain p reverse refGraph products prodDefs byProduct) =
     {x. reach (\<lambda>x. filter (chain_admits p refGraph products prodDefs (my_prod_defs p prodDefs byProduct))
                      (succs reverse x)) {p} x}
   \<and> (\<forall>x \<in> set (findDefinitionalChain p reverse refGraph products prodDefs byProduct).
        x = p \<or> x \<notin> set products
          \<and> \<not> ((\<exists>r \<in> set (succs refGraph x). r \<in> set (my_prod_defs p prodDefs byProduct))
              \<and> (\<exists>r \<in> set (succs refGraph x). obj_get prodDefs r \<notin> {None, Some p})))"
    (is "?C = ?R \<and> ?M")
proof
  show eq: "?C = ?R" by (simp add: findDefinitionalChain_walk chain_walk_reach)
  show ?M
    unfolding eq
  proof (rule ballI)
    fix x
    assume "x \<in> ?R"
    then have "reach (\<lambda>x. filter (chain_admits p refGraph products prodDefs (my_prod_defs p prodDefs byProduct))
        (succs reverse x)) {p} x" by simp
    then show "x = p \<or> x \<notin> set products
          \<and> \<not> ((\<exists>r \<in> set (succs refGraph x). r \<in> set (my_prod_defs p prodDefs byProduct))
              \<and> (\<exists>r \<in> set (succs refGraph x). obj_get prodDefs r \<notin> {None, Some p}))"
      by cases (auto simp: chain_admits_def Let_def list_ex_iff)
  qed
qed

theorem findDefinitionalChain_exact_witness:
  "\<exists>x \<in> set (findDefinitionalChain ''1'' [(''1'', [''2'']), (''2'', [''3''])] [] [''1'', ''3''] [] None).
     x \<noteq> ''1'' \<and> x \<notin> set [''1'', ''3'' :: string]"
proof -
  have "''2'' \<in> set (findDefinitionalChain ''1'' [(''1'', [''2'']), (''2'', [''3''])] [] [''1'', ''3''] [] None)"
    by code_simp
  with findDefinitionalChain_exact [of "''1''" "[(''1'', [''2'']), (''2'', [''3''])]" "[]" "[''1'', ''3'']" "[]" None]
  show ?thesis by (intro bexI [of _ "''2''"]) auto
qed

text \<open>Expanding a forward-closed set over shape-representation relationships keeps what it
  had, takes in every relationship attached to it, and leaves references outside only at the
  boundary: at the entry shape of another product and at what a placement record refers to.\<close>

theorem expandSRRClosure_inside:
  assumes "closure = collectForwardClosure seeds (env_refs env)"
  shows "set closure \<subseteq> set (expandSRRClosure env closure)
    \<and> (\<forall>x \<in> set closure. set (succs (reverseFromSRR env) x) \<subseteq> set (expandSRRClosure env closure))
    \<and> (\<forall>x \<in> set (expandSRRClosure env closure).
         set (succs (env_refs env) x) \<subseteq> set (expandSRRClosure env closure)
         \<or> boundary env (set (expandSRRClosure env closure)) x)"
proof -
  have inside: "refs_inside env (set (fst (closure, closure)))"
    using fwd.cl_closed [of _ seeds "env_refs env"] assms by (simp add: refs_inside_def)
  from srr_loop_inside [OF inside, of "[]" 0] srr_loop_complete [OF inside, of "[]" 0]
  show ?thesis by (simp add: expandSRRClosure_def refs_inside_def)
qed

theorem expandSRRClosure_inside_witness:
  "set [''1'', ''2'', ''9'', ''3'', ''4''] \<subseteq> set (expandSRRClosure
     \<lparr>reverseFromSRR = [(''1'', [''9''])], env_refs = [(''1'', [''2'']), (''9'', [''1'', ''3'']), (''3'', [''4''])],
      env_rev = [], allEntrySRIds = [''3''], srToProductId = [(''3'', ''7'')], env_step = ''7''\<rparr> [''1'', ''2''])"
proof -
  let ?env = "\<lparr>reverseFromSRR = [(''1'', [''9''])], env_refs = [(''1'', [''2'']), (''9'', [''1'', ''3'']), (''3'', [''4''])],
      env_rev = [], allEntrySRIds = [''3''], srToProductId = [(''3'', ''7'')], env_step = ''7''\<rparr> :: srr_env"
  have "[''1'', ''2''] = collectForwardClosure [''1''] (env_refs ?env)" by code_simp
  from expandSRRClosure_inside [OF this] have "set [''1'', ''2''] \<subseteq> set (expandSRRClosure ?env [''1'', ''2''])"
    by blast
  moreover have "expandSRRClosure ?env [''1'', ''2''] = [''1'', ''2'', ''9'', ''3'', ''4'']" by code_simp
  ultimately show ?thesis by simp
qed

text \<open>The renumbering writer maps the references of every record it writes through one
  numbering, member by member and in order.\<close>

theorem reconstruct_references:
  "map refs_in (rs_data_lines closureIds entityMap) =
   map (\<lambda>(_, oldId). map (rs_renumber (rs_pairs closureIds entityMap))
     (refs_in (or_nil (obj_get entityMap oldId)))) (rs_pairs closureIds entityMap)"
  by (auto simp: rs_data_lines_def Let_def rs_line_refs)

text \<open>A reference to an entity outside the closure keeps its old number, which the new
  numbering may have given to a member: here entity 5 is written as number 1, and its reference
  to the absent entity 1 becomes a reference to itself.\<close>

theorem reconstruct_dangling_collides:
  "rs_data_lines [''5''] [(''5'', ''#5=A(#1);'')] = [''#1=A(#1);'']"
  by code_simp

end
