(* ===== verification/StepBom.thy ===== *)
theory StepBom
  imports StepMatrix StepGraph
begin

text \<open>
  The bill-of-materials parser of \<open>cad-parser/app.js\<close> (\<open>POST /parse\<close>): which entities the streaming
  pass keeps as text and which it only indexes, the on-demand fetch of the geometry the assembly
  transforms reach, and the resolution of products, definitions and occurrences into nodes.
  \<open>randomUUID()\<close> is the parameter \<open>uuid\<close>, the n-th call giving \<open>uuid n\<close>; the file is its bytes.
\<close>

section \<open>What the streaming pass keeps\<close>

definition KEEP_STRUCT :: "string list" where
  "KEEP_STRUCT = [''PRODUCT'', ''PRODUCT_DEFINITION_FORMATION'',
     ''PRODUCT_DEFINITION_FORMATION_WITH_SPECIFIED_SOURCE'', ''PRODUCT_DEFINITION'',
     ''PRODUCT_DEFINITION_SHAPE'', ''NEXT_ASSEMBLY_USAGE_OCCURRENCE'', ''ASSEMBLY_COMPONENT_USAGE'',
     ''CONTEXT_DEPENDENT_SHAPE_REPRESENTATION'', ''SHAPE_DEFINITION_REPRESENTATION'',
     ''SHAPE_REPRESENTATION_RELATIONSHIP'', ''SHAPE_REPRESENTATION'',
     ''ADVANCED_BREP_SHAPE_REPRESENTATION'', ''GEOMETRICALLY_BOUNDED_WIREFRAME_SHAPE_REPRESENTATION'',
     ''ITEM_DEFINED_TRANSFORMATION'', ''REPRESENTATION_MAP'', ''MAPPED_ITEM'']"

definition KEEP_GEOM :: "string list" where
  "KEEP_GEOM = [''CARTESIAN_POINT'', ''DIRECTION'', ''AXIS2_PLACEMENT_3D'']"

definition rx_compound_rrwt :: rx where
  \<comment> \<open>\<open>/^#\d+\s*=\s*\(.*REPRESENTATION_RELATIONSHIP_WITH_TRANSFORMATION/\<close>\<close>
  "rx_compound_rrwt = RCat [RBos, RChr CHR ''#'', rx_digits, rx_ws, RChr CHR ''='', rx_ws, RChr CHR ''('',
     RStar True (RSet not_nl), RLit ''REPRESENTATION_RELATIONSHIP_WITH_TRANSFORMATION'']"

type_synonym offsets = "(nat \<times> nat) jsobj"       \<comment> \<open>id to (offset, length)\<close>

fun parse_on_entity :: "scan_event \<Rightarrow> string jsobj \<times> offsets \<Rightarrow> string jsobj \<times> offsets" where
  "parse_on_entity (OnEntity (Some eid) (Some ty) text offset len) (structMap, geomOffsets) =
     (if ty \<in> set KEEP_GEOM then (structMap, obj_put eid (offset, len) geomOffsets)
      else if ty \<in> set KEEP_STRUCT then (obj_put eid (text @ '';'') structMap, geomOffsets)
      else if ty = ''_COMPOUND_'' \<and> rx_exec rx_compound_rrwt text \<noteq> None
      then (obj_put eid (text @ '';'') structMap, geomOffsets)
      else (structMap, geomOffsets))"
| "parse_on_entity e st = st"

section \<open>Geometry on demand\<close>

definition collect_refs :: "offsets \<Rightarrow> string list \<Rightarrow> string list \<times> string list \<Rightarrow> string list \<times> string list" where
  \<comment> \<open>\<open>collectRefs\<close> on the pair of \<open>needed\<close> and \<open>wave\<close>\<close>
  "collect_refs geom texts cq =
     fold (\<lambda>text cq. fold (\<lambda>r cq. if obj_get geom r \<noteq> None then add_push r cq else cq) (refs_in text) cq)
       texts cq"

definition wave_texts :: "(nat \<Rightarrow> string) \<Rightarrow> (string \<Rightarrow> string) \<Rightarrow> string \<Rightarrow> offsets \<Rightarrow> string list \<Rightarrow> string list" where
  "wave_texts junk decode bytes geom wave =
     (let ranges = sort_key fst (map (\<lambda>r. the (obj_get geom r)) wave)
      in readEntitiesAt junk bytes ranges (\<lambda>raw _ ts. ts @ [reread decode raw]) [])"

lemma fold_admit_keys:
  "set (fst (fold (\<lambda>r cq. if obj_get geom r \<noteq> None then add_push r cq else cq) rs cq)) =
     set (fst cq) \<union> set (filter (\<lambda>r. obj_get geom r \<noteq> None) rs)"
  by (rule fst_fold_add_push)

lemma collect_extends:
  "extends cq (collect_refs geom texts cq) {r. obj_get geom r \<noteq> None \<and> (\<exists>t \<in> set texts. r \<in> set (refs_in t))}
   \<and> set (fst (collect_refs geom texts cq)) = set (fst cq) \<union>
        {r. obj_get geom r \<noteq> None \<and> (\<exists>t \<in> set texts. r \<in> set (refs_in t))}"
proof (induction texts arbitrary: cq)
  case (Cons t ts)
  let ?f = "\<lambda>r cq. if obj_get geom r \<noteq> None then add_push r cq else cq"
  let ?cq = "fold ?f (refs_in t) cq"
  have "extends cq ?cq (set (filter (\<lambda>r. obj_get geom r \<noteq> None) (refs_in t)))"
    by (rule extends_fold)
  moreover have "collect_refs geom (t # ts) cq = collect_refs geom ts ?cq"
    by (simp add: collect_refs_def)
  ultimately show ?case
    using Cons [of ?cq] fold_admit_keys [of geom "refs_in t" cq]
    by (auto intro: extends_mono [OF extends_trans])
qed (simp add: collect_refs_def)

definition geom_keys :: "offsets \<Rightarrow> string set" where
  "geom_keys geom = fst ` set geom"

lemma geom_keys_iff: "r \<in> geom_keys geom \<longleftrightarrow> obj_get geom r \<noteq> None"
  by (simp add: geom_keys_def obj_get_def map_of_eq_None_iff image_iff)

function geo_loop ::
  "(nat \<Rightarrow> string) \<Rightarrow> (string \<Rightarrow> string) \<Rightarrow> string \<Rightarrow> offsets \<Rightarrow> string list \<times> string list \<Rightarrow> string list \<Rightarrow>
   string list \<times> string list" where
  \<comment> \<open>\<open>while (wave.length)\<close>: \<open>needed\<close> and \<open>fetched\<close> at the end\<close>
  "geo_loop junk decode bytes geom cq fetched =
     (if snd cq = [] then (fst cq, fetched)
      else
        (let waveTexts = wave_texts junk decode bytes geom (snd cq)
         in geo_loop junk decode bytes geom (collect_refs geom waveTexts (fst cq, []))
              (fetched @ map (\<lambda>t. t @ '';'') waveTexts)))"
  by pat_completeness auto
termination
proof (relation "measure (\<lambda>(junk, decode, bytes, geom, cq, fetched).
    2 * card (geom_keys geom - set (fst cq)) + (if snd cq = [] then 0 else 1))", goal_cases)
  case (2 junk decode bytes geom cq fetched waveTexts)
  let ?cq = "collect_refs geom waveTexts (fst cq, [])"
  from collect_extends [of "(fst cq, [])" geom waveTexts] obtain zs where
    z: "snd ?cq = zs" "fst ?cq = fst cq @ zs" "distinct zs" "set zs \<inter> set (fst cq) = {}"
      "set zs \<subseteq> geom_keys geom"
    by (auto simp: extends_def geom_keys_iff subset_iff)
  have fin: "finite (geom_keys geom - set (fst cq))" by (simp add: geom_keys_def)
  show ?case
  proof (cases "zs = []")
    case True
    with z 2 show ?thesis by simp
  next
    case False
    have "geom_keys geom - set (fst ?cq) \<subset> geom_keys geom - set (fst cq)"
      using z False by (cases zs) auto
    then have "card (geom_keys geom - set (fst ?cq)) < card (geom_keys geom - set (fst cq))"
      by (rule psubset_card_mono [OF fin])
    then show ?thesis using 2 by auto
  qed
qed simp

declare geo_loop.simps [simp del]

definition merge_geometry :: "typeidx \<Rightarrow> typeidx \<Rightarrow> typeidx" where
  "merge_geometry geomIdx typeIdx = fold (\<lambda>ty idx.
     case obj_get geomIdx ty of
       Some g \<Rightarrow> obj_put ty (obj_merge (idx_get idx ty) g) idx
     | None \<Rightarrow> idx) KEEP_GEOM typeIdx"

definition resolveAssemblyGeometry ::
  "(nat \<Rightarrow> string) \<Rightarrow> (string \<Rightarrow> string) \<Rightarrow> string \<Rightarrow> string jsobj \<Rightarrow> offsets \<Rightarrow> typeidx \<Rightarrow> typeidx" where
  "resolveAssemblyGeometry junk decode bytes structMap geomOffsets typeIdx =
     (let fetched = snd (geo_loop junk decode bytes geomOffsets
            (collect_refs geomOffsets (obj_values structMap) ([], [])) [])
      in if fetched = [] then typeIdx
         else merge_geometry (buildTypeIndex (join [nl] fetched)) typeIdx)"

section \<open>Bill of materials\<close>

datatype cad_type = PART | ASSEMBLY

datatype bom_error = NoProducts

record product =
  partNumber :: string
  pname :: string                        \<comment> \<open>\<open>name\<close>\<close>
  description :: string

record 'f occurrence =
  parentId :: string
  positionMatrix :: "'f list option"

record 'f node =
  node_id :: string
  node_name :: string
  node_type :: cad_type
  occurrences :: "'f occurrence list"
  attributes :: "string jsobj"

definition bom_products :: "typeidx \<Rightarrow> product jsobj" where
  "bom_products ti = scan_entries ti ''PRODUCT'' (\<lambda>eid args.
     let p = splitArgs args
     in obj_put eid \<lparr>partNumber = str (arg p 0), pname = str (arg p 1),
          description = str (option_or (arg p 2) (Some []))\<rparr>) []"

definition bom_formations :: "typeidx \<Rightarrow> (string \<times> string) jsobj" where
  \<comment> \<open>id to (revision, product)\<close>
  "bom_formations ti = fold (\<lambda>(eid, args) ob.
     let p = splitArgs args
     in case ref (arg p 2) of Some pid \<Rightarrow> obj_put eid (str (arg p 0), pid) ob | None \<Rightarrow> ob)
     (formation_entries ti) []"

definition bom_prod_defs :: "(string \<times> string) jsobj \<Rightarrow> typeidx \<Rightarrow> string jsobj" where
  "bom_prod_defs formations ti = scan_entries ti ''PRODUCT_DEFINITION'' (\<lambda>eid args ob.
     case Option.bind (ref (arg (splitArgs args) 2)) (obj_get formations) of
       Some f \<Rightarrow> obj_put eid (snd f) ob | None \<Rightarrow> ob) []"

definition bom_occurrences :: "string jsobj \<Rightarrow> typeidx \<Rightarrow> (string \<times> string) list jsobj" where
  \<comment> \<open>\<open>occurrencesOf\<close>: child product to the list of (parent product, occurrence id)\<close>
  "bom_occurrences prodDefs ti = fold (\<lambda>(nauoId, args) ob.
     let p = splitArgs args
     in case (Option.bind (ref (arg p 3)) (obj_get prodDefs), Option.bind (ref (arg p 4)) (obj_get prodDefs)) of
          (Some par, Some chi) \<Rightarrow> obj_push chi (par, nauoId) ob
        | _ \<Rightarrow> ob) (obj_entries (nauo_entries ti)) []"

definition display_name :: "string \<Rightarrow> product \<Rightarrow> string" where
  "display_name stepId pr =
     (if pname pr \<noteq> [] then pname pr
      else if partNumber pr \<noteq> [] then partNumber pr else ''Part-'' @ stepId)"

definition product_attributes :: "product \<Rightarrow> string jsobj" where
  "product_attributes pr = filter (\<lambda>(_, v). v \<noteq> [])
     [(''partNumber'', partNumber pr), (''description'', description pr)]"

definition id_map :: "(nat \<Rightarrow> string) \<Rightarrow> product jsobj \<Rightarrow> string jsobj" where
  "id_map uuid products = fold (\<lambda>(i, k). obj_put k (uuid i)) (enumerate 0 (obj_keys products)) []"

definition node_occurrences ::
  "string jsobj \<Rightarrow> (string \<Rightarrow> 'f list option) \<Rightarrow> (string \<times> string) list \<Rightarrow> 'f occurrence list" where
  "node_occurrences idMap matrix occs =
     concat (map (\<lambda>(par, nauoId). case obj_get idMap par of
        Some pid \<Rightarrow> [\<lparr>parentId = pid, positionMatrix = matrix nauoId\<rparr>] | None \<Rightarrow> []) occs)"

definition parseBOM :: "'f fp_ops \<Rightarrow> (nat \<Rightarrow> string) \<Rightarrow> typeidx \<Rightarrow> string \<Rightarrow> bom_error + 'f node list" where
  "parseBOM fp uuid ti dat =
     (let products = bom_products ti;
          prodDefs = bom_prod_defs (bom_formations ti) ti;
          nauoEntities = nauo_entries ti;
          occurrencesOf = bom_occurrences prodDefs ti
      in if obj_keys products = [] then Inl NoProducts
         else
           let matrix = getMatrixForNauo fp (precomputeNauoData fp (obj_keys nauoEntities) ti dat);
               idMap = id_map uuid products;
               nodes = map (\<lambda>(i, stepId, pr). \<lparr>node_id = uuid i, node_name = display_name stepId pr,
                   node_type = PART,
                   occurrences = node_occurrences idMap matrix (or_nil (obj_get occurrencesOf stepId)),
                   attributes = product_attributes pr\<rparr>)
                 (enumerate 0 (obj_entries products));
               hasChildren = js_set_of (concat (map (\<lambda>n. map parentId (occurrences n)) nodes))
           in Inr (map (\<lambda>n. n\<lparr>node_type := (if node_id n \<in> set hasChildren then ASSEMBLY else PART)\<rparr>) nodes))"

definition parseStepFromFile ::
  "'f fp_ops \<Rightarrow> (nat \<Rightarrow> string) \<Rightarrow> (nat \<Rightarrow> string) \<Rightarrow> (string \<Rightarrow> string) \<Rightarrow> string list \<Rightarrow>
   (bom_error + 'f node list) option" where
  \<comment> \<open>the file arrives in the given chunks; None would be a scan that does not return\<close>
  "parseStepFromFile fp uuid junk decode chunks =
     map_option (\<lambda>events.
       let (structMap, geomOffsets) = fold parse_on_entity events ([], []);
           structData = join [nl] (obj_values structMap);
           typeIdx = resolveAssemblyGeometry junk decode (concat chunks) structMap geomOffsets
             (buildTypeIndex structData)
       in parseBOM fp uuid typeIdx structData) (scanStep decode chunks)"

definition rx_data_section :: rx where            \<comment> \<open>\<open>/DATA;([\s\S]*?)ENDSEC;/\<close>\<close>
  "rx_data_section = RCat [RLit ''DATA;'', RGrp 1 (RStar False (RSet (\<lambda>_. True))), RLit ''ENDSEC;'']"

definition rx_newline_ws :: rx where              \<comment> \<open>\<open>/\r?\n\s*/g\<close>\<close>
  "rx_newline_ws = RCat [ROpt (RChr cr), RChr nl, rx_ws]"

definition parseStep :: "'f fp_ops \<Rightarrow> (nat \<Rightarrow> string) \<Rightarrow> string \<Rightarrow> (bom_error + 'f node list) option" where
  \<comment> \<open>None: no DATA section\<close>
  "parseStep fp uuid content = map_option (\<lambda>m.
     let dat = js_replace rx_newline_ws (\<lambda>_. '' '') (js_replace rx_comment (\<lambda>_. '' '') (grp 1 m))
     in parseBOM fp uuid (buildTypeIndex dat) dat) (rx_exec rx_data_section content)"

section \<open>Facts: geometry\<close>

lemma wave_texts_map:
  "wave_texts junk decode bytes geom wave =
     map (\<lambda>r. reread decode (read_range junk bytes r)) (sort_key fst (map (\<lambda>r. the (obj_get geom r)) wave))"
proof -
  have "fold (\<lambda>r ts. ts @ [f r]) rs ts = ts @ map f rs" for f :: "nat \<times> nat \<Rightarrow> string" and rs ts
    by (induction rs arbitrary: ts) auto
  then show ?thesis by (simp add: wave_texts_def readEntitiesAt_def)
qed

definition geom_text :: "(nat \<Rightarrow> string) \<Rightarrow> (string \<Rightarrow> string) \<Rightarrow> string \<Rightarrow> offsets \<Rightarrow> string \<Rightarrow> string" where
  "geom_text junk decode bytes geom r = reread decode (read_range junk bytes (the (obj_get geom r)))"

definition geom_succ :: "(nat \<Rightarrow> string) \<Rightarrow> (string \<Rightarrow> string) \<Rightarrow> string \<Rightarrow> offsets \<Rightarrow> string \<Rightarrow> string list" where
  \<comment> \<open>the indexed geometry an indexed geometry refers to\<close>
  "geom_succ junk decode bytes geom r =
     filter (\<lambda>r. obj_get geom r \<noteq> None) (refs_in (geom_text junk decode bytes geom r))"

lemma mset_wave_texts:
  "mset (wave_texts junk decode bytes geom wave) = mset (map (geom_text junk decode bytes geom) wave)"
proof -
  have "mset (map f (sort_key fst (map g wave))) = mset (map (\<lambda>r. f (g r)) wave)"
    for f :: "nat \<times> nat \<Rightarrow> string" and g :: "string \<Rightarrow> nat \<times> nat"
    by (simp add: image_mset.compositionality comp_def)
  then show ?thesis by (simp add: wave_texts_map geom_text_def [abs_def])
qed

lemma set_wave_texts:
  "set (wave_texts junk decode bytes geom wave) = geom_text junk decode bytes geom ` set wave"
  using arg_cong [OF mset_wave_texts, of set_mset junk decode bytes geom wave] by simp

definition geo_inv ::
  "(nat \<Rightarrow> string) \<Rightarrow> (string \<Rightarrow> string) \<Rightarrow> string \<Rightarrow> offsets \<Rightarrow> string set \<Rightarrow>
   string list \<times> string list \<Rightarrow> string list \<Rightarrow> bool" where
  "geo_inv junk decode bytes geom S cq fetched \<longleftrightarrow>
     distinct (fst cq) \<and> S \<subseteq> set (fst cq) \<and> (\<exists>done. fst cq = done @ snd cq
       \<and> mset fetched = mset (map (\<lambda>r. geom_text junk decode bytes geom r @ '';'') done)
       \<and> (\<forall>r \<in> set done. set (geom_succ junk decode bytes geom r) \<subseteq> set (fst cq)))
     \<and> (\<forall>r \<in> set (fst cq). reach (geom_succ junk decode bytes geom) S r)"

lemma geo_loop_facts:
  "geo_inv junk decode bytes geom S cq fetched \<Longrightarrow>
   geo_loop junk decode bytes geom cq fetched = (needed, texts) \<Longrightarrow>
   distinct needed \<and> set needed = {r. reach (geom_succ junk decode bytes geom) S r}
   \<and> mset texts = mset (map (\<lambda>r. geom_text junk decode bytes geom r @ '';'') needed)"
proof (induction junk decode bytes geom cq fetched rule: geo_loop.induct)
  case (1 junk decode bytes geom cq fetched)
  let ?succ = "geom_succ junk decode bytes geom" and ?text = "geom_text junk decode bytes geom"
  from "1.prems"(1) obtain dn where i: "distinct (fst cq)" "S \<subseteq> set (fst cq)" "fst cq = dn @ snd cq"
    "mset fetched = mset (map (\<lambda>r. ?text r @ '';'') dn)"
    "\<forall>r \<in> set dn. set (?succ r) \<subseteq> set (fst cq)" "\<forall>r \<in> set (fst cq). reach ?succ S r"
    unfolding geo_inv_def by blast
  show ?case
  proof (cases "snd cq = []")
    case True
    have "r \<in> set (fst cq)" if "reach ?succ S r" for r
      by (rule reach_least [OF that i(2)]) (use i(3,5) True in auto)
    with i True "1.prems"(2) show ?thesis by (subst (asm) geo_loop.simps) auto
  next
    case False
    let ?w = "wave_texts junk decode bytes geom (snd cq)"
    let ?cq = "collect_refs geom ?w (fst cq, [])"
    from collect_extends [of "(fst cq, [])" geom ?w] obtain zs where
      z: "snd ?cq = zs" "fst ?cq = fst cq @ zs" "distinct zs" "set zs \<inter> set (fst cq) = {}"
      and zsub: "set zs \<subseteq> {r. obj_get geom r \<noteq> None \<and> (\<exists>t \<in> set ?w. r \<in> set (refs_in t))}"
      and all: "set (fst ?cq) = set (fst cq) \<union> {r. obj_get geom r \<noteq> None \<and> (\<exists>t \<in> set ?w. r \<in> set (refs_in t))}"
      by (auto simp: extends_def)
    have ws: "{r. obj_get geom r \<noteq> None \<and> (\<exists>t \<in> set ?w. r \<in> set (refs_in t))} =
        (\<Union>x \<in> set (snd cq). set (?succ x))"
      by (auto simp: set_wave_texts geom_succ_def)
    have "geo_inv junk decode bytes geom S ?cq (fetched @ map (\<lambda>t. t @ '';'') ?w)"
      unfolding geo_inv_def
    proof (intro conjI exI [of _ "fst cq"])
      show "distinct (fst ?cq)" "S \<subseteq> set (fst ?cq)" "fst ?cq = fst cq @ snd ?cq"
        using i z by auto
      show "mset (fetched @ map (\<lambda>t. t @ '';'') ?w) = mset (map (\<lambda>r. ?text r @ '';'') (fst cq))"
        using i(3,4) by (simp add: mset_wave_texts image_mset.compositionality comp_def)
      show "\<forall>r \<in> set (fst cq). set (?succ r) \<subseteq> set (fst ?cq)"
        using i(3,5) all ws by auto
      show "\<forall>r \<in> set (fst ?cq). reach ?succ S r"
      proof
        fix r
        assume "r \<in> set (fst ?cq)"
        then have "r \<in> set (fst cq) \<or> (\<exists>x \<in> set (snd cq). r \<in> set (?succ x))" using all ws by blast
        then show "reach ?succ S r"
        proof
          assume "\<exists>x \<in> set (snd cq). r \<in> set (?succ x)"
          then obtain x where "x \<in> set (fst cq)" "r \<in> set (?succ x)" using i(3) by auto
          then show ?thesis using i(6) reach_step by metis
        qed (use i(6) in blast)
      qed
    qed
    moreover have "geo_loop junk decode bytes geom ?cq (fetched @ map (\<lambda>t. t @ '';'') ?w) = (needed, texts)"
      using "1.prems"(2) False by (simp add: geo_loop.simps [of junk decode bytes geom cq] Let_def)
    ultimately show ?thesis by (rule "1.IH" [OF False refl])
  qed
qed

section \<open>Facts: nodes\<close>

lemma scan_entries_distinct:
  "distinct (map fst ob) \<Longrightarrow> (\<And>eid args ob. distinct (map fst ob) \<Longrightarrow> distinct (map fst (f eid args ob))) \<Longrightarrow>
   distinct (map fst (scan_entries ti ty f ob))"
  unfolding scan_entries_def by (rule fold_keeps) auto

lemma bom_products_distinct: "distinct (map fst (bom_products ti))"
  unfolding bom_products_def by (rule scan_entries_distinct) (auto simp: Let_def obj_put_distinct)

lemma id_map_get:
  assumes "distinct ks"
  shows "obj_get (fold (\<lambda>(i, k). obj_put k (uuid i)) (enumerate n ks) ob) k =
    (case position_in k ks of Some i \<Rightarrow> Some (uuid (n + i)) | None \<Rightarrow> obj_get ob k)"
  using assms
proof (induction ks arbitrary: n ob)
  case (Cons x ks)
  have "x \<notin> set ks \<Longrightarrow> position_in x ks = None" for x by (induction ks) auto
  with Cons show ?case by (auto split: option.splits)
qed simp

lemma position_in_bound: "position_in k ks = Some i \<Longrightarrow> i < length ks \<and> ks ! i = k"
  by (induction ks arbitrary: i) (auto split: if_splits simp: nth_Cons split: nat.splits)

lemma node_occurrences_parent:
  assumes "occ \<in> set (node_occurrences (id_map uuid products) matrix occs)" and "distinct (map fst products)"
  shows "\<exists>i < length (obj_entries products). parentId occ = uuid i"
proof -
  from assms(1) obtain par where "obj_get (id_map uuid products) par = Some (parentId occ)"
    by (auto simp: node_occurrences_def split: option.splits)
  with id_map_get [of "obj_keys products" uuid 0 "[]" par] assms(2)
  obtain i where "position_in par (obj_keys products) = Some i" "parentId occ = uuid i"
    by (auto simp: id_map_def split: option.splits)
  with position_in_bound show ?thesis by (fastforce simp: obj_keys_def)
qed

section \<open>What the service promises\<close>

text \<open>C6. Resolving geometry on demand fetches exactly the indexed geometry entities that can be
  reached from the structural text through references, each of them once; so the type index gets
  every placement the assembly uses without the file being parsed.\<close>

theorem geo_loop_exact:
  assumes "geo_loop junk decode bytes geom (collect_refs geom texts ([], [])) [] = (needed, fetched)"
  shows "distinct needed
    \<and> set needed = {r. reach (geom_succ junk decode bytes geom)
         {r. obj_get geom r \<noteq> None \<and> (\<exists>t \<in> set texts. r \<in> set (refs_in t))} r}
    \<and> mset fetched = mset (map (\<lambda>r. geom_text junk decode bytes geom r @ '';'') needed)"
proof -
  let ?S = "{r. obj_get geom r \<noteq> None \<and> (\<exists>t \<in> set texts. r \<in> set (refs_in t))}"
  let ?cq = "collect_refs geom texts ([], [])"
  from collect_extends [of "([], [])" geom texts] obtain zs where
    "snd ?cq = zs" "fst ?cq = zs" "distinct zs" "set (fst ?cq) = ?S"
    by (auto simp: extends_def)
  then have "geo_inv junk decode bytes geom ?S ?cq []"
    by (auto simp: geo_inv_def intro: reach_seed)
  from geo_loop_facts [OF this assms] show ?thesis .
qed

theorem geo_loop_exact_witness:
  "distinct [''5'', ''6''] \<and> mset [''#5=A(#6);'', ''#6=B();''] =
     mset (map (\<lambda>r. geom_text (\<lambda>n. []) (\<lambda>s. s) ''#5=A(#6);#6=B();'' [(''5'', 0, 9), (''6'', 9, 7)] r @ '';'')
       [''5'', ''6''])"
proof -
  have "geo_loop (\<lambda>n. []) (\<lambda>s. s) ''#5=A(#6);#6=B();'' [(''5'', 0, 9), (''6'', 9, 7)]
      (collect_refs [(''5'', 0, 9), (''6'', 9, 7)] [''#1=Q(#5,#9);''] ([], [])) [] =
      ([''5'', ''6''], [''#5=A(#6);'', ''#6=B();''])" by code_simp
  from geo_loop_exact [OF this] show ?thesis by simp
qed

text \<open>C7. The parser answers with an error exactly when the file has no product. Otherwise there
  is one node per product, with distinct ids; every occurrence hangs below a node of the answer,
  and a node is an assembly exactly when some occurrence names it as its parent.\<close>

theorem parseBOM_tree:
  assumes "inj uuid"
  shows "(parseBOM fp uuid ti dat = Inl NoProducts \<longleftrightarrow> bom_products ti = [])
    \<and> (\<forall>nodes. parseBOM fp uuid ti dat = Inr nodes \<longrightarrow>
        length nodes = length (bom_products ti) \<and> distinct (map node_id nodes)
        \<and> (\<forall>n \<in> set nodes. \<forall>occ \<in> set (occurrences n). parentId occ \<in> set (map node_id nodes))
        \<and> (\<forall>n \<in> set nodes. node_type n = ASSEMBLY \<longleftrightarrow>
             (\<exists>c \<in> set nodes. \<exists>occ \<in> set (occurrences c). parentId occ = node_id n)))"
proof -
  let ?p = "bom_products ti"
  have empty: "obj_keys ?p = [] \<longleftrightarrow> ?p = []"
    by (simp add: obj_keys_def flip: length_0_conv)
  have "length nodes = length ?p \<and> distinct (map node_id nodes)
        \<and> (\<forall>n \<in> set nodes. \<forall>occ \<in> set (occurrences n). parentId occ \<in> set (map node_id nodes))
        \<and> (\<forall>n \<in> set nodes. node_type n = ASSEMBLY \<longleftrightarrow>
             (\<exists>c \<in> set nodes. \<exists>occ \<in> set (occurrences c). parentId occ = node_id n))"
    if r: "parseBOM fp uuid ti dat = Inr nodes" for nodes
  proof -
    let ?occs = "bom_occurrences (bom_prod_defs (bom_formations ti) ti) ti"
    let ?matrix = "getMatrixForNauo fp (precomputeNauoData fp (obj_keys (nauo_entries ti)) ti dat)"
    define ns where "ns = map (\<lambda>(i, stepId, pr). \<lparr>node_id = uuid i, node_name = display_name stepId pr,
       node_type = PART,
       occurrences = node_occurrences (id_map uuid ?p) ?matrix (or_nil (obj_get ?occs stepId)),
       attributes = product_attributes pr\<rparr>) (enumerate 0 (obj_entries ?p))"
    define hc where "hc = js_set_of (concat (map (\<lambda>n. map parentId (occurrences n)) ns))"
    have nodes: "nodes = map (\<lambda>n. n\<lparr>node_type := (if node_id n \<in> set hc then ASSEMBLY else PART)\<rparr>) ns"
      using r by (simp add: parseBOM_def Let_def ns_def hc_def split: if_splits)
    have ids: "map node_id nodes = map uuid [0..<length (obj_entries ?p)]"
      by (simp add: nodes ns_def comp_def case_prod_unfold flip: map_map [of uuid fst, unfolded comp_def])
    have hcs: "x \<in> set hc \<longleftrightarrow> (\<exists>c \<in> set nodes. \<exists>occ \<in> set (occurrences c). parentId occ = x)" for x
      by (auto simp: hc_def nodes)
    have par: "parentId occ \<in> set (map node_id nodes)" if "n \<in> set nodes" "occ \<in> set (occurrences n)" for n occ
    proof -
      from that obtain occs where "occ \<in> set (node_occurrences (id_map uuid ?p) ?matrix occs)"
        by (auto simp: nodes ns_def)
      from node_occurrences_parent [OF this bom_products_distinct] show ?thesis unfolding ids by auto
    qed
    have ty: "node_type n = ASSEMBLY \<longleftrightarrow> node_id n \<in> set hc" if "n \<in> set nodes" for n
      using that by (auto simp: nodes split: if_splits)
    have "distinct (map node_id nodes)" unfolding ids
      using inj_on_subset [OF assms subset_UNIV] by (simp add: distinct_map)
    moreover have "length nodes = length ?p" using ids by (metis length_map length_obj_entries length_upt diff_zero)
    ultimately show ?thesis using par ty hcs by blast
  qed
  then show ?thesis using empty by (auto simp: parseBOM_def Let_def)
qed

theorem parseBOM_tree_witness:
  "\<exists>nodes. parseBOM sample_ops digits_of_nat [(''PRODUCT'', [(''1'', ''a,b''), (''2'', ''c,d'')])] [] = Inr nodes
     \<and> length nodes = 2 \<and> distinct (map node_id nodes)"
proof -
  let ?ti = "[(''PRODUCT'', [(''1'', ''a,b''), (''2'', ''c,d'')])] :: typeidx"
  have p: "length (bom_products ?ti) = 2" by code_simp
  note t = parseBOM_tree [OF inj_digits_of_nat, of sample_ops ?ti "[]"]
  have "parseBOM sample_ops digits_of_nat ?ti [] \<noteq> Inl NoProducts" using t p by auto
  then obtain nodes where "parseBOM sample_ops digits_of_nat ?ti [] = Inr nodes"
    by (cases "parseBOM sample_ops digits_of_nat ?ti []") (metis bom_error.exhaust)+
  with t p show ?thesis by auto
qed

end
