(* ===== verification/StepSplit.thy ===== *)
theory StepSplit
  imports StepBom
begin

text \<open>
  The splitter of \<open>cad-parser\<close> (\<open>POST /split\<close>): \<open>splitStepFromFile\<close> of \<open>app.js\<close> with the index it
  builds in one streaming pass, the closure of each product, the byte-range table of each part and
  the distribution over workers; and \<open>worker-split.js\<close>, which copies the ranges of a part out of the
  source file. The name, the occurrences and the attributes of a part are computed by the code
  twice, here and in \<open>parseBOM\<close>: the definitions of StepBom are used for the shared blocks.
\<close>

section \<open>Pass 1: the index\<close>

record entity_info =
  e_type :: "string option"
  e_offset :: nat
  e_length :: nat

record split_index =
  refGraphs :: "graph \<times> graph"          \<comment> \<open>\<open>refGraph\<close> and \<open>reverseRefGraph\<close>\<close>
  entities :: "entity_info jsobj"
  typeEntityMap :: "string jsobj"
  sp_geomOffsets :: offsets
  headerSection :: string

definition after_equals :: "string \<Rightarrow> string" where
  \<comment> \<open>\<open>text.slice(text.indexOf('=') + 1)\<close>\<close>
  "after_equals text = drop (nat (index_of ''='' text 0 + 1)) text"

fun split_on_event :: "scan_event \<Rightarrow> split_index \<Rightarrow> split_index" where
  "split_on_event (OnHeader h) st = st\<lparr>headerSection := h\<rparr>"
| "split_on_event (OnEntity None ty text offset len) st = st"
| "split_on_event (OnEntity (Some eid) ty text offset len) st =
     (let st1 = st\<lparr>entities := obj_put eid \<lparr>e_type = ty, e_offset = offset, e_length = len\<rparr> (entities st)\<rparr>;
          st2 = (if ty \<in> Some ` set KEEP_GEOM
                 then st1\<lparr>sp_geomOffsets := obj_put eid (offset, len) (sp_geomOffsets st1)\<rparr> else st1);
          st3 = st2\<lparr>refGraphs := link_entity eid (after_equals text) (refGraphs st2)\<rparr>
      in if ty \<in> Some ` set KEEP_STRUCT then
           st3\<lparr>typeEntityMap := obj_put eid (text @ '';'') (typeEntityMap st3)\<rparr>
         else if ty = Some ''_COMPOUND_'' \<and> str_includes text ''REPRESENTATION_RELATIONSHIP'' then
           (let st4 = st3\<lparr>typeEntityMap := obj_put eid (text @ '';'') (typeEntityMap st3)\<rparr>
            in if str_includes text ''SHAPE_REPRESENTATION_RELATIONSHIP''
               then st4\<lparr>entities := obj_put eid \<lparr>e_type = Some ''SHAPE_REPRESENTATION_RELATIONSHIP'',
                      e_offset = offset, e_length = len\<rparr> (entities st4)\<rparr>
               else st4)
         else st3)"

definition split_index_init :: split_index where
  "split_index_init = \<lparr>refGraphs = ([], []), entities = [], typeEntityMap = [], sp_geomOffsets = [],
     headerSection = ''HEADER;'' @ [nl] @ ''ENDSEC;''\<rparr>"

section \<open>Tables derived from the type index\<close>

definition prod_defs_by_product :: "string jsobj \<Rightarrow> string list jsobj" where
  "prod_defs_by_product prodDefs =
     fold (\<lambda>(pdId, productId) m. graph_add productId pdId m) (obj_entries prodDefs) []"

definition sr_to_product :: "string jsobj \<Rightarrow> typeidx \<Rightarrow> string jsobj" where
  "sr_to_product prodDefs ti =
     (let pdsToPdId = scan_entries ti ''PRODUCT_DEFINITION_SHAPE'' (\<lambda>pdsId args.
            put_some (Some pdsId) (ref (arg (splitArgs args) 2))) []
      in scan_entries ti ''SHAPE_DEFINITION_REPRESENTATION'' (\<lambda>_ args ob.
           let p = splitArgs args
           in case (ref (arg p 0), ref (arg p 1)) of
                (Some pdsId, Some srId) \<Rightarrow>
                  (case Option.bind (obj_get pdsToPdId pdsId) (obj_get prodDefs) of
                     Some productId \<Rightarrow> obj_put srId productId ob | None \<Rightarrow> ob)
              | _ \<Rightarrow> ob) [])"

definition reverse_from_srr :: "entity_info jsobj \<Rightarrow> graph \<Rightarrow> graph" where
  "reverse_from_srr ents refGraph = fold (\<lambda>(eid, e) g.
     if e_type e \<noteq> Some ''SHAPE_REPRESENTATION_RELATIONSHIP'' then g
     else fold (\<lambda>refId. graph_add refId eid) (succs refGraph eid) g) ents []"

section \<open>Parts\<close>

record 'f part =
  part_step :: string                    \<comment> \<open>\<open>stepId\<close>\<close>
  closureArr :: "string list"
  part_meta :: "'f node"                 \<comment> \<open>\<open>nodeId, name, cadType, occurrences, attributes\<close>\<close>

definition part_closure :: "srr_env \<Rightarrow> string list \<Rightarrow> string jsobj \<Rightarrow> string list jsobj \<Rightarrow> string \<Rightarrow> string list" where
  "part_closure env productStepIds prodDefs byProduct stepId =
     (let chain = findDefinitionalChain stepId (env_rev env) (env_refs env) productStepIds prodDefs (Some byProduct);
          closure = collectForwardClosure chain (env_refs env)
      in expandSRRClosure (env\<lparr>env_step := stepId\<rparr>) closure)"

definition split_parts ::
  "'f fp_ops \<Rightarrow> (nat \<Rightarrow> string) \<Rightarrow> split_index \<Rightarrow> typeidx \<Rightarrow> typeidx \<Rightarrow> string \<Rightarrow> bom_error + 'f part list" where
  \<comment> \<open>\<open>ti0\<close> is the type index before, \<open>ti\<close> after the geometry has been merged in\<close>
  "split_parts fp uuid ix ti0 ti dat =
     (let products = bom_products ti0;
          prodDefs = bom_prod_defs (bom_formations ti0) ti0;
          nauoEntities = nauo_entries ti0;
          occurrencesOf = bom_occurrences prodDefs ti0
      in if obj_keys products = [] then Inl NoProducts
         else
           let hasChildren = js_set_of (map fst (concat (obj_values occurrencesOf)));
               idMap = id_map uuid products;
               byProduct = prod_defs_by_product prodDefs;
               srToProduct = sr_to_product prodDefs ti0;
               env = \<lparr>reverseFromSRR = reverse_from_srr (entities ix) (fst (refGraphs ix)),
                 env_refs = fst (refGraphs ix), env_rev = snd (refGraphs ix),
                 allEntrySRIds = obj_keys srToProduct, srToProductId = srToProduct, env_step = []\<rparr>;
               matrix = getMatrixForNauo fp (precomputeNauoData fp (obj_keys nauoEntities) ti dat)
           in Inr (map (\<lambda>(stepId, pr).
                \<lparr>part_step = stepId,
                 closureArr = part_closure env (obj_keys products) prodDefs byProduct stepId,
                 part_meta = \<lparr>node_id = (case obj_get idMap stepId of Some i \<Rightarrow> i | None \<Rightarrow> []),
                   node_name = display_name stepId pr,
                   node_type = (if stepId \<in> set hasChildren then ASSEMBLY else PART),
                   occurrences = node_occurrences idMap matrix (or_nil (obj_get occurrencesOf stepId)),
                   attributes = product_attributes pr\<rparr>\<rparr>) (obj_entries products)))"

section \<open>Part jobs and their distribution\<close>

record part_job =
  partIndex :: nat
  offArr :: "nat list"
  lenArr :: "nat list"

definition job_count :: "part_job \<Rightarrow> nat" where
  "job_count j = length (offArr j)"

definition part_ranges :: "entity_info jsobj \<Rightarrow> string list \<Rightarrow> (nat \<times> nat) list" where
  "part_ranges ents closure = concat (map (\<lambda>eid. case obj_get ents eid of
     Some e \<Rightarrow> [(e_offset e, e_length e)] | None \<Rightarrow> []) closure)"

definition part_jobs :: "entity_info jsobj \<Rightarrow> 'f part list \<Rightarrow> part_job list" where
  "part_jobs ents parts = map (\<lambda>(i, p). let rs = part_ranges ents (closureArr p)
     in \<lparr>partIndex = i, offArr = map fst rs, lenArr = map snd rs\<rparr>) (enumerate 0 parts)"

record bucket =
  load :: nat
  bparts :: "part_job list"

function min_bucket :: "bucket list \<Rightarrow> nat \<Rightarrow> nat \<Rightarrow> nat" where
  \<comment> \<open>\<open>buckets.reduce((min, b) => b.load < min.load ? b : min)\<close>, as a position; \<open>best\<close> so far, \<open>i\<close> next\<close>
  "min_bucket bs best i =
     (if i < length bs
      then min_bucket bs (if load (bs ! i) < load (bs ! best) then i else best) (i + 1)
      else best)"
  by pat_completeness auto
termination
  by (relation "measure (\<lambda>(bs, best, i). length bs - i)") auto

declare min_bucket.simps [simp del]

definition assign_job :: "part_job \<Rightarrow> bucket list \<Rightarrow> bucket list" where
  "assign_job job bs =
     (let b = min_bucket bs 0 1
      in bs[b := \<lparr>load = load (bs ! b) + job_count job, bparts = bparts (bs ! b) @ [job]\<rparr>])"

definition distribute :: "nat \<Rightarrow> part_job list \<Rightarrow> bucket list" where
  "distribute cpus partJobs =
     (let numWorkers = min cpus (length partJobs);
          buckets = replicate numWorkers \<lparr>load = 0, bparts = []\<rparr>
      in fold assign_job (sort_key (\<lambda>j. - int (job_count j)) partJobs) buckets)"

section \<open>Writing a part\<close>

definition FLUSH :: int where "FLUSH = 8 * 1024 * 1024"

record run =
  run_start :: nat
  run_end :: nat

definition job_ranges :: "part_job \<Rightarrow> (nat \<times> nat) list" where
  \<comment> \<open>\<open>order\<close>: the ranges by ascending offset\<close>
  "job_ranges p = sort_key fst (zip (offArr p) (lenArr p))"

definition coalesce :: "(nat \<times> nat) list \<Rightarrow> run list" where
  "coalesce rs = fold (\<lambda>(start, len) runs.
     if runs \<noteq> [] \<and> run_end (last runs) = start
     then butlast runs @ [(last runs)\<lparr>run_end := start + len\<rparr>]
     else runs @ [\<lparr>run_start = start, run_end = start + len\<rparr>]) rs []"

record wstate =
  written :: "string list"               \<comment> \<open>the buffers handed to \<open>ws.write\<close>\<close>
  pending :: "string list"
  pendingSize :: int

definition w_push :: "string \<Rightarrow> wstate \<Rightarrow> wstate" where
  "w_push chunk st = st\<lparr>pending := pending st @ [chunk], pendingSize := pendingSize st + int (length chunk)\<rparr>"

definition w_flush :: "wstate \<Rightarrow> wstate" where
  "w_flush st = (if pendingSize st = 0 then st
     else st\<lparr>written := written st @ [concat (pending st)], pending := [], pendingSize := 0\<rparr>)"

definition part_prefix :: "string \<Rightarrow> string" where
  "part_prefix header = ''ISO-10303-21;'' @ [nl] @ header @ [nl] @ ''DATA;'' @ [nl]"

definition part_suffix :: string where
  "part_suffix = [nl] @ ''ENDSEC;'' @ [nl] @ ''END-ISO-10303-21;'' @ [nl]"

definition writePart :: "string \<Rightarrow> string \<Rightarrow> part_job \<Rightarrow> string list" where
  \<comment> \<open>the buffers written to \<open>part-<index>.stp\<close>, in order\<close>
  "writePart fileBuf header p =
     (let st0 = w_push (part_prefix header) \<lparr>written = [], pending = [], pendingSize = 0\<rparr>;
          st1 = fold (\<lambda>r st.
              let st' = w_push (slice (run_start r) (run_end r) fileBuf) st
              in if pendingSize st' \<ge> FLUSH then w_flush st' else st') (coalesce (job_ranges p)) st0;
          st2 = w_flush (w_push part_suffix st1)
      in written st2)"

definition writeParts :: "string \<Rightarrow> string \<Rightarrow> part_job list \<Rightarrow> (nat \<times> string) list" where
  \<comment> \<open>file index and content, in the order written\<close>
  "writeParts fileBuf header parts = map (\<lambda>p. (partIndex p, concat (writePart fileBuf header p))) parts"

section \<open>The splitter\<close>

definition PARALLEL_PASS2_THRESHOLD :: int where "PARALLEL_PASS2_THRESHOLD = 200000"

definition pass2 :: "nat \<Rightarrow> string \<Rightarrow> string \<Rightarrow> entity_info jsobj \<Rightarrow> part_job list \<Rightarrow> (nat \<times> string) list" where
  \<comment> \<open>inline for small inputs; otherwise one worker per non-empty bucket, each reading the same bytes\<close>
  "pass2 cpus bytes header ents partJobs =
     (if int (length ents) < PARALLEL_PASS2_THRESHOLD \<or> length partJobs < 2
      then writeParts bytes header partJobs
      else concat (map (\<lambda>b. writeParts bytes header (bparts b))
             (filter (\<lambda>b. bparts b \<noteq> []) (distribute cpus partJobs))))"

definition splitStepFromFile ::
  "'f fp_ops \<Rightarrow> (nat \<Rightarrow> string) \<Rightarrow> (nat \<Rightarrow> string) \<Rightarrow> (string \<Rightarrow> string) \<Rightarrow> nat \<Rightarrow> string list \<Rightarrow>
   (bom_error + 'f node list \<times> (nat \<times> string) list) option" where
  \<comment> \<open>metadata of the parts, and the part files written\<close>
  "splitStepFromFile fp uuid junk decode cpus chunks =
     map_option (\<lambda>events.
       let ix = fold split_on_event events split_index_init;
           bytes = concat chunks;
           sparseData = join [nl] (obj_values (typeEntityMap ix));
           ti0 = buildTypeIndex sparseData;
           ti = resolveAssemblyGeometry junk decode bytes (typeEntityMap ix) (sp_geomOffsets ix) ti0
       in case split_parts fp uuid ix ti0 ti sparseData of
            Inl e \<Rightarrow> Inl e
          | Inr parts \<Rightarrow>
              Inr (map part_meta parts,
                   pass2 cpus bytes (headerSection ix) (entities ix) (part_jobs (entities ix) parts)))
       (scanStep decode chunks)"

section \<open>Facts: the part file\<close>

lemma coalesce_slices:
  "concat (map (\<lambda>r. slice (run_start r) (run_end r) buf) (fold (\<lambda>(start, len) runs.
     if runs \<noteq> [] \<and> run_end (last runs) = start
     then butlast runs @ [(last runs)\<lparr>run_end := start + len\<rparr>]
     else runs @ [\<lparr>run_start = start, run_end = start + len\<rparr>]) rs runs)) =
   concat (map (\<lambda>r. slice (run_start r) (run_end r) buf) runs) @
   concat (map (\<lambda>(s, l). slice s (s + l) buf) rs)"
  if "\<forall>r \<in> set runs. run_start r \<le> run_end r"
  using that
proof (induction rs arbitrary: runs)
  case (Cons x rs)
  obtain s l where x: "x = (s, l)" by (cases x)
  show ?case
  proof (cases "runs \<noteq> [] \<and> run_end (last runs) = s")
    case True
    then obtain rs' r where r: "runs = rs' @ [r]" "run_end r = s" by (metis append_butlast_last_id last_snoc)
    let ?runs = "rs' @ [r\<lparr>run_end := s + l\<rparr>]"
    have "\<forall>r \<in> set ?runs. run_start r \<le> run_end r" using Cons.prems r by auto
    moreover have "slice (run_start r) (s + l) buf = slice (run_start r) s buf @ slice s (s + l) buf"
      using Cons.prems r by (subst slice_append) auto
    ultimately show ?thesis using Cons.IH [of ?runs] r by (simp add: x)
  next
    case False
    have "\<forall>r \<in> set (runs @ [\<lparr>run_start = s, run_end = s + l\<rparr>]). run_start r \<le> run_end r"
      using Cons.prems by auto
    with Cons.IH [of "runs @ [\<lparr>run_start = s, run_end = s + l\<rparr>]"] False show ?thesis by (auto simp: x)
  qed
qed simp

definition w_total :: "wstate \<Rightarrow> string" where
  "w_total st = concat (written st) @ concat (pending st)"

definition w_ok :: "wstate \<Rightarrow> bool" where
  "w_ok st \<longleftrightarrow> pendingSize st = int (length (concat (pending st)))"

lemma w_push_facts: "w_ok st \<Longrightarrow> w_ok (w_push c st) \<and> w_total (w_push c st) = w_total st @ c"
  by (simp add: w_ok_def w_total_def w_push_def)

lemma w_flush_facts: "w_ok st \<Longrightarrow> w_ok (w_flush st) \<and> w_total (w_flush st) = w_total st
    \<and> concat (written (w_flush st)) = w_total st"
  by (auto simp: w_ok_def w_total_def w_flush_def)

lemma w_fold_facts:
  "w_ok st \<Longrightarrow>
   w_ok (fold (\<lambda>r st. let st' = w_push (g r) st in if pendingSize st' \<ge> FLUSH then w_flush st' else st') rs st)
   \<and> w_total (fold (\<lambda>r st. let st' = w_push (g r) st in if pendingSize st' \<ge> FLUSH then w_flush st' else st') rs st)
     = w_total st @ concat (map g rs)"
proof (induction rs arbitrary: st)
  case (Cons r rs)
  note p = w_push_facts [OF Cons.prems, of "g r"]
  show ?case
    using p w_flush_facts [of "w_push (g r) st"]
      Cons.IH [of "if pendingSize (w_push (g r) st) \<ge> FLUSH then w_flush (w_push (g r) st) else w_push (g r) st"]
    by (simp add: Let_def split: if_splits)
qed simp

lemma writePart_bytes:
  "concat (writePart buf header p) =
     part_prefix header @ concat (map (\<lambda>(s, l). slice s (s + l) buf) (job_ranges p)) @ part_suffix"
proof -
  let ?g = "\<lambda>r. slice (run_start r) (run_end r) buf"
  let ?st0 = "w_push (part_prefix header) \<lparr>written = [], pending = [], pendingSize = 0\<rparr>"
  have 0: "w_ok ?st0" "w_total ?st0 = part_prefix header"
    by (simp_all add: w_ok_def w_total_def w_push_def)
  let ?st1 = "fold (\<lambda>r st. let st' = w_push (?g r) st in
      if pendingSize st' \<ge> FLUSH then w_flush st' else st') (coalesce (job_ranges p)) ?st0"
  have 1: "w_ok ?st1" "w_total ?st1 = part_prefix header @ concat (map ?g (coalesce (job_ranges p)))"
    using w_fold_facts [OF 0(1), of ?g "coalesce (job_ranges p)"] 0(2) by simp_all
  have 2: "w_ok (w_push part_suffix ?st1)" "w_total (w_push part_suffix ?st1) = w_total ?st1 @ part_suffix"
    using w_push_facts [OF 1(1)] by blast+
  have "concat (writePart buf header p) = concat (written (w_flush (w_push part_suffix ?st1)))"
    by (simp add: writePart_def Let_def)
  also have "\<dots> = w_total (w_push part_suffix ?st1)" using w_flush_facts [OF 2(1)] by blast
  finally show ?thesis
    using 1 2 coalesce_slices [of "[]" buf "job_ranges p"] by (simp add: coalesce_def)
qed

section \<open>Facts: distribution\<close>

lemma min_bucket_facts:
  "best < length bs \<Longrightarrow> (\<forall>j < i. j < length bs \<longrightarrow> load (bs ! best) \<le> load (bs ! j)) \<Longrightarrow>
   min_bucket bs best i < length bs
   \<and> (\<forall>j < length bs. load (bs ! min_bucket bs best i) \<le> load (bs ! j))"
proof (induction bs best i rule: min_bucket.induct)
  case (1 bs best i)
  show ?case
  proof (cases "i < length bs")
    case True
    let ?b = "if load (bs ! i) < load (bs ! best) then i else best"
    have "?b < length bs" using True "1.prems"(1) by simp
    moreover have "\<forall>j < i + 1. j < length bs \<longrightarrow> load (bs ! ?b) \<le> load (bs ! j)"
      using "1.prems"(2) by (auto simp: less_Suc_eq intro: order.strict_implies_order less_le_trans)
    ultimately show ?thesis using "1.IH" [OF True] True
      by (subst (1 2) min_bucket.simps) simp
  next
    case False
    with "1.prems" show ?thesis by (subst (1 2) min_bucket.simps) auto
  qed
qed

definition balanced :: "nat \<Rightarrow> bucket list \<Rightarrow> bool" where
  "balanced m bs \<longleftrightarrow> (\<forall>a \<in> set bs. \<forall>b \<in> set bs. load a \<le> load b + m)"

definition loads_ok :: "bucket list \<Rightarrow> bool" where
  "loads_ok bs \<longleftrightarrow> (\<forall>b \<in> set bs. load b = sum_list (map job_count (bparts b)))"

lemma mset_concat_update:
  "i < length bs \<Longrightarrow> bparts b' = bparts (bs ! i) @ [job] \<Longrightarrow>
   mset (concat (map bparts (bs[i := b']))) = add_mset job (mset (concat (map bparts bs)))"
proof (induction bs arbitrary: i)
  case (Cons b bs)
  then show ?case by (cases i) auto
qed simp

lemma assign_job_facts:
  assumes "bs \<noteq> []" and "balanced m bs" and "loads_ok bs" and "job_count job \<le> m"
  shows "length (assign_job job bs) = length bs \<and> balanced m (assign_job job bs) \<and> loads_ok (assign_job job bs)
    \<and> mset (concat (map bparts (assign_job job bs))) = add_mset job (mset (concat (map bparts bs)))"
proof -
  let ?b = "min_bucket bs 0 1"
  let ?new = "\<lparr>load = load (bs ! ?b) + job_count job, bparts = bparts (bs ! ?b) @ [job]\<rparr>"
  have b: "?b < length bs" "\<forall>j < length bs. load (bs ! ?b) \<le> load (bs ! j)"
    using min_bucket_facts [of 0 bs 1] assms(1) by auto
  have low: "load (bs ! ?b) \<le> load a" if "a \<in> set bs" for a
    using b(2) that by (metis in_set_conv_nth)
  have mem: "bs ! ?b \<in> set bs" using b(1) by simp
  have sub: "set (bs[?b := ?new]) \<subseteq> insert ?new (set bs)" by (rule set_update_subset_insert)
  have "balanced m (bs[?b := ?new])"
    unfolding balanced_def
  proof (intro ballI)
    fix x y
    assume "x \<in> set (bs[?b := ?new])" "y \<in> set (bs[?b := ?new])"
    with sub have x: "x = ?new \<or> x \<in> set bs" and y: "y = ?new \<or> y \<in> set bs" by blast+
    have old: "load a \<le> load c + m" if "a \<in> set bs" "c \<in> set bs" for a c
      using assms(2) that unfolding balanced_def by blast
    from x y show "load x \<le> load y + m"
      using old [of x y] old [of x "bs ! ?b"] low [of y] assms(4) mem by (elim disjE) simp_all
  qed
  moreover have "loads_ok (bs[?b := ?new])"
    using sub assms(3) mem unfolding loads_ok_def by auto
  ultimately show ?thesis
    using b(1) mset_concat_update [of ?b bs ?new job] by (simp add: assign_job_def Let_def)
qed

lemma fold_assign_facts:
  "bs \<noteq> [] \<Longrightarrow> balanced m bs \<Longrightarrow> loads_ok bs \<Longrightarrow> \<forall>j \<in> set jobs. job_count j \<le> m \<Longrightarrow>
   balanced m (fold assign_job jobs bs) \<and> loads_ok (fold assign_job jobs bs)
   \<and> mset (concat (map bparts (fold assign_job jobs bs))) = mset jobs + mset (concat (map bparts bs))"
proof (induction jobs arbitrary: bs)
  case (Cons j jobs)
  from assign_job_facts [OF Cons.prems(1-3)] Cons.prems(4)
  have a: "length (assign_job j bs) = length bs" "balanced m (assign_job j bs)" "loads_ok (assign_job j bs)"
    "mset (concat (map bparts (assign_job j bs))) = add_mset j (mset (concat (map bparts bs)))"
    by auto
  then have "assign_job j bs \<noteq> []" using Cons.prems(1) by auto
  from Cons.IH [OF this a(2,3)] Cons.prems(4) a(4) show ?case by simp
qed simp

lemma distribute_facts:
  assumes "0 < cpus" and "jobs \<noteq> []" and "\<forall>j \<in> set jobs. job_count j \<le> m"
  shows "balanced m (distribute cpus jobs) \<and> loads_ok (distribute cpus jobs)
   \<and> mset (concat (map bparts (distribute cpus jobs))) = mset jobs"
proof -
  let ?bs = "replicate (min cpus (length jobs)) \<lparr>load = 0, bparts = []\<rparr>"
  have ne: "?bs \<noteq> []" using assms(1,2) by simp
  have "balanced m ?bs" "loads_ok ?bs" "mset (concat (map bparts ?bs)) = {#}"
    by (auto simp: balanced_def loads_ok_def map_replicate_const)
  with fold_assign_facts [OF ne, of m "sort_key (\<lambda>j. - int (job_count j)) jobs"] assms(3)
  show ?thesis by (simp add: distribute_def Let_def)
qed

section \<open>Facts: metadata\<close>

lemma idx_get_merge: "ty \<notin> set KEEP_GEOM \<Longrightarrow> idx_get (merge_geometry g ti) ty = idx_get ti ty"
proof -
  assume ty: "ty \<notin> set KEEP_GEOM"
  have "set ks \<subseteq> set KEEP_GEOM \<Longrightarrow> idx_get (fold (\<lambda>ty idx. case obj_get g ty of
       Some v \<Rightarrow> obj_put ty (obj_merge (idx_get idx ty) v) idx | None \<Rightarrow> idx) ks ti) ty = idx_get ti ty" for ks
  proof (induction ks arbitrary: ti)
    case (Cons k ks)
    then have "k \<noteq> ty" "set ks \<subseteq> set KEEP_GEOM" using ty by auto
    with Cons.IH show ?case by (auto simp: idx_get_def split: option.splits)
  qed simp
  then show ?thesis by (simp add: merge_geometry_def)
qed

definition same_structure :: "typeidx \<Rightarrow> typeidx \<Rightarrow> bool" where
  "same_structure ti ti' \<longleftrightarrow> (\<forall>ty. ty \<notin> set KEEP_GEOM \<longrightarrow> idx_get ti ty = idx_get ti' ty)"

lemma resolve_same_structure:
  "same_structure ti (resolveAssemblyGeometry junk decode bytes structMap geom ti)"
  by (simp add: same_structure_def resolveAssemblyGeometry_def Let_def idx_get_merge)

lemma same_structure_tables:
  assumes "same_structure ti ti'"
  shows "bom_products ti = bom_products ti'" "bom_formations ti = bom_formations ti'"
    "bom_prod_defs f ti = bom_prod_defs f ti'" "nauo_entries ti = nauo_entries ti'"
    "bom_occurrences d ti = bom_occurrences d ti'"
proof -
  have eq: "idx_get ti ty = idx_get ti' ty" if "ty \<notin> set KEEP_GEOM" for ty
    using assms that by (simp add: same_structure_def)
  have names: "''PRODUCT'' \<notin> set KEEP_GEOM" "''PRODUCT_DEFINITION_FORMATION'' \<notin> set KEEP_GEOM"
    "''PRODUCT_DEFINITION_FORMATION_WITH_SPECIFIED_SOURCE'' \<notin> set KEEP_GEOM"
    "''PRODUCT_DEFINITION'' \<notin> set KEEP_GEOM" "''NEXT_ASSEMBLY_USAGE_OCCURRENCE'' \<notin> set KEEP_GEOM"
    "''ASSEMBLY_COMPONENT_USAGE'' \<notin> set KEEP_GEOM"
    by (simp_all add: KEEP_GEOM_def)
  note e = eq [OF names(1)] eq [OF names(2)] eq [OF names(3)] eq [OF names(4)] eq [OF names(5)] eq [OF names(6)]
  show "bom_products ti = bom_products ti'" by (simp only: bom_products_def scan_entries_def e)
  show "bom_formations ti = bom_formations ti'" by (simp only: bom_formations_def formation_entries_def e)
  show "bom_prod_defs f ti = bom_prod_defs f ti'" by (simp only: bom_prod_defs_def scan_entries_def e)
  show n: "nauo_entries ti = nauo_entries ti'" by (simp only: nauo_entries_def e)
  show "bom_occurrences d ti = bom_occurrences d ti'" by (simp only: bom_occurrences_def n)
qed

definition products_closed :: "typeidx \<Rightarrow> bool" where
  \<comment> \<open>every product a definition belongs to is there\<close>
  "products_closed ti \<longleftrightarrow>
     snd ` set (bom_prod_defs (bom_formations ti) ti) \<subseteq> fst ` set (bom_products ti)"

definition occ_values :: "string set \<Rightarrow> (string \<times> string) list jsobj \<Rightarrow> bool" where
  "occ_values A ob \<longleftrightarrow> (\<forall>chi occs. obj_get ob chi = Some occs \<longrightarrow> chi \<in> A \<and> fst ` set occs \<subseteq> A)"

lemma occ_values_push: "occ_values A ob \<Longrightarrow> par \<in> A \<Longrightarrow> chi \<in> A \<Longrightarrow> occ_values A (obj_push chi (par, n) ob)"
  by (cases "obj_get ob chi") (auto simp: occ_values_def obj_get_push)

lemma bom_occurrences_values: "occ_values (snd ` set d) (bom_occurrences d ti)"
proof -
  have get: "obj_get d k = Some v \<Longrightarrow> v \<in> snd ` set d" for k v
    by (force simp: obj_get_def dest: map_of_SomeD)
  show ?thesis
    unfolding bom_occurrences_def
  proof (rule fold_keeps)
    show "occ_values (snd ` set d) []" by (simp add: occ_values_def)
    fix x :: "string \<times> string" and ob :: "(string \<times> string) list jsobj"
    assume "occ_values (snd ` set d) ob"
    then show "occ_values (snd ` set d) ((\<lambda>(nauoId, args) ob. let p = splitArgs args
       in case (Option.bind (ref (arg p 3)) (obj_get d), Option.bind (ref (arg p 4)) (obj_get d)) of
            (Some par, Some chi) \<Rightarrow> obj_push chi (par, nauoId) ob | _ \<Rightarrow> ob) x ob)"
      by (cases x) (auto simp: Let_def bind_eq_Some_conv split: option.split intro!: occ_values_push get)
  qed
qed

lemma bom_occurrences_distinct: "distinct (map fst (bom_occurrences d ti))"
  unfolding bom_occurrences_def
  by (rule fold_keeps) (auto simp: Let_def obj_push_def intro!: obj_put_distinct split: option.splits)

lemma id_map_nth:
  assumes "distinct (map fst products)" and "i < length (obj_keys products)"
  shows "obj_get (id_map uuid products) (obj_keys products ! i) = Some (uuid i)"
  using id_map_get [of "obj_keys products" uuid 0 "[]"] position_in_nth [of "obj_keys products" i] assms
  by (simp add: id_map_def)

lemma id_map_Some:
  assumes "distinct (map fst products)" and "obj_get (id_map uuid products) k = Some u"
  shows "\<exists>i < length (obj_keys products). obj_keys products ! i = k \<and> u = uuid i"
  using id_map_get [of "obj_keys products" uuid 0 "[]" k] assms position_in_bound [of k "obj_keys products"]
  by (auto simp: id_map_def split: option.splits)

lemma parents_iff:
  assumes "distinct (map fst occ)"
  shows "par \<in> set (js_set_of (map fst (concat (obj_values occ)))) \<longleftrightarrow>
    (\<exists>chi occs n. obj_get occ chi = Some occs \<and> (par, n) \<in> set occs)"
proof -
  have "occs \<in> snd ` set occ \<longleftrightarrow> (\<exists>chi. (chi, occs) \<in> set occ)" for occs
    by (simp only: Range_iff flip: Range_snd)
  then have v: "occs \<in> snd ` set occ \<longleftrightarrow> (\<exists>chi. obj_get occ chi = Some occs)" for occs
    by (simp add: obj_entries_get [OF assms])
  have "par \<in> set (js_set_of (map fst (concat (obj_values occ)))) \<longleftrightarrow>
      (\<exists>n. (par, n) \<in> \<Union> (set ` (snd ` set occ)))"
    by (simp only: set_js_set_of set_map set_concat set_obj_values flip: Domain_fst) (simp only: Domain_iff)
  also have "\<dots> \<longleftrightarrow> (\<exists>occs \<in> snd ` set occ. \<exists>n. (par, n) \<in> set occs)" by blast
  finally show ?thesis using v by metis
qed

lemma part_type_agrees:
  assumes "inj uuid" and dist: "distinct (map fst products)" and occ: "distinct (map fst occ)"
    and vals: "occ_values A occ" and sub: "A \<subseteq> fst ` set products" and i: "i < length (obj_keys products)"
  shows "(\<exists>k \<in> set (obj_keys products). uuid i \<in> parentId ` set (node_occurrences (id_map uuid products) matrix
            (or_nil (obj_get occ k))))
     \<longleftrightarrow> obj_keys products ! i \<in> set (js_set_of (map fst (concat (obj_values occ))))"
    (is "?L \<longleftrightarrow> ?R")
proof
  assume ?L
  then obtain k par n where "(par, n) \<in> set (or_nil (obj_get occ k))"
    "obj_get (id_map uuid products) par = Some (uuid i)"
    by (auto simp: node_occurrences_def split: option.splits)
  moreover from id_map_Some [OF dist this(2)] have "par = obj_keys products ! i"
    using assms(1) by (auto dest: injD)
  ultimately show ?R unfolding parents_iff [OF occ] by (cases "obj_get occ k") auto
next
  assume ?R
  then obtain chi occs n where c: "obj_get occ chi = Some occs" "(obj_keys products ! i, n) \<in> set occs"
    unfolding parents_iff [OF occ] by blast
  then have "chi \<in> set (obj_keys products)" using vals sub by (auto simp: occ_values_def)
  moreover have "\<lparr>parentId = uuid i, positionMatrix = matrix n\<rparr> \<in>
      set (node_occurrences (id_map uuid products) matrix (or_nil (obj_get occ chi)))"
    unfolding node_occurrences_def set_concat set_map image_image
    by (rule UN_I [of "(obj_keys products ! i, n)"]) (simp_all add: c id_map_nth [OF dist i])
  then have "uuid i \<in> parentId ` set (node_occurrences (id_map uuid products) matrix (or_nil (obj_get occ chi)))"
    by (rule rev_image_eqI) simp
  ultimately show ?L by (rule bexI [rotated])
qed

lemma split_metadata:
  assumes "inj uuid" and same: "same_structure ti0 ti" and closed: "products_closed ti0"
    and parts: "split_parts fp uuid ix ti0 ti dat = Inr parts"
  shows "parseBOM fp uuid ti dat = Inr (map part_meta parts)"
proof -
  note t = same_structure_tables [OF same]
  let ?p = "bom_products ti0" and ?d = "bom_prod_defs (bom_formations ti0) ti0"
  let ?occ = "bom_occurrences ?d ti0"
  let ?m = "getMatrixForNauo fp (precomputeNauoData fp (obj_keys (nauo_entries ti0)) ti dat)"
  let ?no = "\<lambda>k. node_occurrences (id_map uuid ?p) ?m (or_nil (obj_get ?occ k))"
  let ?ns = "map (\<lambda>(i, stepId, pr). \<lparr>node_id = uuid i, node_name = display_name stepId pr, node_type = PART,
       occurrences = ?no stepId, attributes = product_attributes pr\<rparr>) (enumerate 0 (obj_entries ?p))"
  let ?hc = "js_set_of (concat (map (\<lambda>n. map parentId (occurrences n)) ?ns))"
  have hc: "x \<in> set ?hc \<longleftrightarrow> (\<exists>k \<in> set (obj_keys ?p). x \<in> parentId ` set (?no k))" for x
  proof -
    have "map (\<lambda>n. map parentId (occurrences n)) ?ns =
        map (\<lambda>k. map parentId (?no k)) (map fst (map snd (enumerate 0 (obj_entries ?p))))"
      by (simp only: map_map comp_def case_prod_unfold node.select_convs)
    then have "map (\<lambda>n. map parentId (occurrences n)) ?ns = map (\<lambda>k. map parentId (?no k)) (obj_keys ?p)"
      by (simp only: map_snd_enumerate obj_keys_def)
    then show ?thesis by (simp only: set_js_set_of set_concat) auto
  qed
  have ne: "obj_keys ?p \<noteq> []" using parts by (auto simp: split_parts_def Let_def)
  have parse: "parseBOM fp uuid ti dat =
      Inr (map (\<lambda>n. n\<lparr>node_type := (if node_id n \<in> set ?hc then ASSEMBLY else PART)\<rparr>) ?ns)"
    using ne by (simp only: parseBOM_def Let_def t [symmetric] if_False)
  have metas: "map part_meta parts = map (\<lambda>(stepId, pr).
      \<lparr>node_id = (case obj_get (id_map uuid ?p) stepId of Some i \<Rightarrow> i | None \<Rightarrow> []),
       node_name = display_name stepId pr,
       node_type = (if stepId \<in> set (js_set_of (map fst (concat (obj_values ?occ)))) then ASSEMBLY else PART),
       occurrences = ?no stepId, attributes = product_attributes pr\<rparr>) (obj_entries ?p)"
    using parts ne by (auto simp: split_parts_def Let_def)
  have "map (\<lambda>n. n\<lparr>node_type := (if node_id n \<in> set ?hc then ASSEMBLY else PART)\<rparr>) ?ns = map part_meta parts"
    unfolding metas
  proof (rule nth_equalityI)
    show "length (map (\<lambda>n. n\<lparr>node_type := (if node_id n \<in> set ?hc then ASSEMBLY else PART)\<rparr>) ?ns) =
      length (map (\<lambda>(stepId, pr).
      \<lparr>node_id = (case obj_get (id_map uuid ?p) stepId of Some i \<Rightarrow> i | None \<Rightarrow> []),
       node_name = display_name stepId pr,
       node_type = (if stepId \<in> set (js_set_of (map fst (concat (obj_values ?occ)))) then ASSEMBLY else PART),
       occurrences = ?no stepId, attributes = product_attributes pr\<rparr>) (obj_entries ?p))" by simp
  next
    fix i
    assume "i < length (map (\<lambda>n. n\<lparr>node_type := (if node_id n \<in> set ?hc then ASSEMBLY else PART)\<rparr>) ?ns)"
    then have i: "i < length (obj_entries ?p)" by simp
    obtain k pr where e: "obj_entries ?p ! i = (k, pr)" by (cases "obj_entries ?p ! i")
    have k: "obj_keys ?p ! i = k" "i < length (obj_keys ?p)" using i e by (simp_all add: obj_keys_def)
    have "obj_get (id_map uuid ?p) k = Some (uuid i)"
      using id_map_nth [OF bom_products_distinct k(2)] k(1) by simp
    moreover have "uuid i \<in> set ?hc \<longleftrightarrow> k \<in> set (js_set_of (map fst (concat (obj_values ?occ))))"
      using part_type_agrees [OF assms(1) bom_products_distinct bom_occurrences_distinct
          bom_occurrences_values closed [unfolded products_closed_def] k(2), of ?m] hc k(1) by blast
    ultimately show "map (\<lambda>n. n\<lparr>node_type := (if node_id n \<in> set ?hc then ASSEMBLY else PART)\<rparr>) ?ns ! i =
      map (\<lambda>(stepId, pr).
      \<lparr>node_id = (case obj_get (id_map uuid ?p) stepId of Some i \<Rightarrow> i | None \<Rightarrow> []),
       node_name = display_name stepId pr,
       node_type = (if stepId \<in> set (js_set_of (map fst (concat (obj_values ?occ)))) then ASSEMBLY else PART),
       occurrences = ?no stepId, attributes = product_attributes pr\<rparr>) (obj_entries ?p) ! i"
      using i e by (simp add: nth_enumerate_eq del: set_js_set_of)
  qed
  then show ?thesis using parse by simp
qed

section \<open>Facts: scanning a part file\<close>

definition h_init :: seg_out where
  "h_init = \<lparr>headerLines = [], inHeader = False, inData = False, emitted = []\<rparr>"

definition take_segs :: "seg list \<Rightarrow> seg_out \<Rightarrow> seg_out" where
  "take_segs ss h = fold (\<lambda>(a, s, l). handle_segment (normalise a) s l) ss h"

fun entity_views :: "scan_event list \<Rightarrow> (string option \<times> string option \<times> string) list" where
  "entity_views [] = []"
| "entity_views (OnEntity eid ty text offset len # es) = (eid, ty, text) # entity_views es"
| "entity_views (OnHeader h # es) = entity_views es"

definition record_view :: "string \<Rightarrow> string option \<times> string option \<times> string" where
  "record_view r = (let text = normalise (strip False (butlast r))
     in (entity_id text, if entity_id text = None then None else Some (entity_type text), text))"

definition keyword :: "string \<Rightarrow> bool" where
  "keyword text \<longleftrightarrow> text \<in> {[], ''HEADER'', ''DATA'', ''ENDSEC''}"

definition header_ok :: "string \<Rightarrow> bool" where
  \<comment> \<open>the header section leaves the scanner in the data section, outside comments\<close>
  "header_ok header \<longleftrightarrow>
     (let r = lex False 0 0 [] (part_prefix header); h = take_segs (fst r) h_init
      in inData h \<and> \<not> inHeader h \<and> entity_views (emitted h) = []
         \<and> fst (snd r) = [nl] \<and> \<not> ends_open False (part_prefix header))"

lemma entity_views_append [simp]: "entity_views (a @ b) = entity_views a @ entity_views b"
  by (induction a rule: entity_views.induct) auto

lemma take_segs_append: "take_segs (a @ b) h = take_segs b (take_segs a h)"
  by (simp add: take_segs_def)

lemma take_segs_data:
  "inData h \<Longrightarrow> \<not> inHeader h \<Longrightarrow> \<forall>(a, s, l) \<in> set ss. \<not> keyword (normalise a) \<Longrightarrow>
   inData (take_segs ss h) \<and> \<not> inHeader (take_segs ss h)
   \<and> entity_views (emitted (take_segs ss h)) = entity_views (emitted h) @
       map (\<lambda>(a, _, _). let t = normalise a
         in (entity_id t, if entity_id t = None then None else Some (entity_type t), t)) ss"
proof (induction ss arbitrary: h)
  case (Cons x ss)
  obtain a s l where x: "x = (a, s, l)" by (cases x)
  let ?h = "handle_segment (normalise a) s l h"
  have k: "\<not> keyword (normalise a)" using Cons.prems(3) by (simp add: x)
  then have "inData ?h" "\<not> inHeader ?h" "entity_views (emitted ?h) = entity_views (emitted h) @
      [(entity_id (normalise a), if entity_id (normalise a) = None then None else Some (entity_type (normalise a)),
        normalise a)]"
    using Cons.prems(1,2) by (auto simp: handle_segment_def keyword_def Let_def)
  with Cons.IH [of ?h] Cons.prems(3) show ?case by (simp add: x take_segs_def Let_def)
qed (simp add: take_segs_def)

lemma scan_spec_plain: "scan_spec (\<lambda>s. s) bytes =
   emitted (let r = lex False 0 0 [] bytes; h = take_segs (fst r) h_init
     in if fst (snd r) = [] then h else handle_segment (normalise (fst (snd r))) (fst (snd (snd r))) (snd (snd (snd r))) h)"
  by (simp add: scan_spec_def deliver_def take_segs_def h_init_def Let_def split: prod.split)

lemma normalise_marks:
  "normalise (nl # ''ENDSEC'') = ''ENDSEC''" "normalise (nl # ''END-ISO-10303-21'') = ''END-ISO-10303-21''"
  "normalise [nl] = []" "normalise (nl # nl # ''ENDSEC'') = ''ENDSEC''"
  by code_simp+

lemma lex_suffix:
  "lex False p s acc part_suffix =
     ([(acc @ nl # ''ENDSEC'', s, p + 7 - s + 1), (nl # ''END-ISO-10303-21'', p + 8, 18)],
      ([nl], p + 26, 1))"
  by (simp add: part_suffix_def nl_def)

lemma take_suffix:
  assumes "inData h" "\<not> inHeader h" "acc = [] \<or> acc = [nl]"
  shows "entity_views (emitted (let r = lex False p s acc part_suffix; h' = take_segs (fst r) h
     in if fst (snd r) = [] then h' else handle_segment (normalise (fst (snd r))) (fst (snd (snd r))) (snd (snd (snd r))) h'))
   = entity_views (emitted h)"
  using assms normalise_marks
  by (auto simp: lex_suffix take_segs_def handle_segment_def Let_def)

lemma scan_part:
  assumes h: "header_ok header" and recs: "\<forall>r \<in> set rs. is_record r \<and> \<not> keyword (normalise (strip False (butlast r)))"
  shows "entity_views (scan_spec (\<lambda>s. s) (part_prefix header @ concat rs @ part_suffix)) = map record_view rs"
proof -
  let ?pre = "part_prefix header"
  obtain ss0 s0 l0 where pre: "lex False 0 0 [] ?pre = (ss0, [nl], s0, l0)" "\<not> ends_open False ?pre"
    using h by (cases "lex False 0 0 [] ?pre") (auto simp: header_ok_def Let_def)
  let ?h = "take_segs ss0 h_init"
  have hh: "inData ?h" "\<not> inHeader ?h" "entity_views (emitted ?h) = []"
    using h by (auto simp: header_ok_def Let_def pre)
  have app: "lex False 0 0 [] (?pre @ ys) = (case lex False (length ?pre) s0 [nl] ys of (ss, t) \<Rightarrow> (ss0 @ ss, t))" for ys
    using lex_append [OF pre] by (simp add: part_prefix_def nl_def)
  show ?thesis
  proof (cases rs)
    case Nil
    show ?thesis
      using take_suffix [OF hh(1,2), of "[nl]" "length ?pre" s0] hh(3)
      by (simp add: scan_spec_plain app Nil take_segs_append Let_def lex_suffix)
  next
    case (Cons r rs')
    then obtain b where r: "r = b @ [CHR '';'']" "\<not> ends_open False b" "semi_free False b"
      using recs by (auto simp: is_record_def) (metis append_butlast_last_id)
    let ?p1 = "length ?pre + length b + 1"
    let ?p2 = "?p1 + length (concat rs')"
    have "lex False (length ?pre) s0 [nl] (concat rs @ part_suffix) =
        (case lex False ?p1 ?p1 [] (concat rs' @ part_suffix) of
           (ss, t) \<Rightarrow> (([nl] @ strip False b, s0, length ?pre + length b - s0 + 1) # ss, t))"
      using lex_record [OF r(2,3), of "length ?pre" s0 "[nl]" "concat rs' @ part_suffix"] by (simp add: Cons r(1))
    also have "lex False ?p1 ?p1 [] (concat rs' @ part_suffix) =
        (case lex False ?p2 ?p2 [] part_suffix of (ss, t) \<Rightarrow> (records_from ?p1 rs' @ ss, t))"
      using recs Cons by (intro lex_records) auto
    finally have lx: "lex False 0 0 [] (?pre @ concat rs @ part_suffix) =
        (let r = lex False ?p2 ?p2 [] part_suffix
         in (ss0 @ ((nl # strip False b, s0, length ?pre + length b - s0 + 1) # records_from ?p1 rs') @ fst r, snd r))"
      unfolding app by (simp add: Let_def split: prod.splits)
    let ?segs = "(nl # strip False b, s0, length ?pre + length b - s0 + 1) # records_from ?p1 rs'"
    have views: "map (\<lambda>(a, _, _). let t = normalise a
         in (entity_id t, if entity_id t = None then None else Some (entity_type t), t)) ?segs = map record_view rs"
    proof -
      have "map (\<lambda>(a, _, _). let t = normalise a
         in (entity_id t, if entity_id t = None then None else Some (entity_type t), t)) (records_from ?p1 rs') =
        map (\<lambda>a. let t = normalise a
         in (entity_id t, if entity_id t = None then None else Some (entity_type t), t)) (map fst (records_from ?p1 rs'))"
        by (simp add: comp_def case_prod_unfold)
      then show ?thesis
        by (simp add: Cons r(1) record_view_def normalise_nl records_from_text comp_def Let_def)
    qed
    have "\<forall>a \<in> set (map fst ?segs). \<not> keyword (normalise a)"
      unfolding list.map records_from_text using recs by (simp add: Cons r(1) normalise_nl)
    then have "\<forall>(a, s, l) \<in> set ?segs. \<not> keyword (normalise a)" by auto
    note d = take_segs_data [OF hh(1,2) this]
    show ?thesis
      using take_suffix [of "take_segs ?segs ?h" "[]" ?p2 ?p2] d hh(3) views
      by (simp only: scan_spec_plain lx Let_def fst_conv snd_conv take_segs_append append_Nil) simp
  qed
qed

section \<open>What the service promises\<close>

lemma slice_record:
  assumes "(s, l) \<in> set (event_ranges (scan_spec (\<lambda>s. s) bytes))" and "terminated (\<lambda>s. s) bytes"
  shows "is_record (slice s (s + l) bytes) \<and> \<not> keyword (normalise (strip False (butlast (slice s (s + l) bytes))))
    \<and> slice s (s + l) bytes = slice s (s + l - 1) bytes @ [CHR '';'']"
proof -
  have "\<exists>eid ty text. OnEntity eid ty text s l \<in> set es" if "(s, l) \<in> set (event_ranges es)" for es
    using that by (induction es rule: event_ranges.induct) auto
  with assms(1) obtain eid ty tx where "OnEntity eid ty tx s l \<in> set (scan_spec (\<lambda>s. s) bytes)" by blast
  note r = scan_spec_ranges [OF this assms(2)]
  then have b: "s \<le> s + l - 1" "s + l - 1 < length bytes" "Suc (s + l - 1) = s + l" by linarith+
  have "slice s (s + l) bytes = slice s (s + l - 1) bytes @ [CHR '';'']"
    using slice_snoc [OF b(1,2)] r unfolding b(3) by simp
  with r show ?thesis by (auto simp: is_record_def keyword_def)
qed

text \<open>C8. Splitting keeps the records: scanning a part file again reports, in ascending file
  order, exactly the entities whose ranges the part lists, with the id, type and text the source
  file gave them.\<close>

theorem part_file_rescans:
  assumes "header_ok header" and "terminated (\<lambda>s. s) bytes"
    and "set (job_ranges p) \<subseteq> set (event_ranges (scan_spec (\<lambda>s. s) bytes))"
  shows "entity_views (scan_spec (\<lambda>s. s) (concat (writePart bytes header p))) =
      map (\<lambda>(s, l). record_view (slice s (s + l) bytes)) (job_ranges p)
    \<and> (\<forall>eid ty text s l. OnEntity eid ty text s l \<in> set (scan_spec (\<lambda>s. s) bytes) \<longrightarrow>
         record_view (slice s (s + l) bytes) = (eid, ty, text))"
proof
  let ?rs = "map (\<lambda>(s, l). slice s (s + l) bytes) (job_ranges p)"
  have "\<forall>r \<in> set ?rs. is_record r \<and> \<not> keyword (normalise (strip False (butlast r)))"
    using assms(3) slice_record [OF _ assms(2)] by fastforce
  from scan_part [OF assms(1) this]
  show "entity_views (scan_spec (\<lambda>s. s) (concat (writePart bytes header p))) =
      map (\<lambda>(s, l). record_view (slice s (s + l) bytes)) (job_ranges p)"
    by (simp add: writePart_bytes comp_def case_prod_unfold)
  show "\<forall>eid ty text s l. OnEntity eid ty text s l \<in> set (scan_spec (\<lambda>s. s) bytes) \<longrightarrow>
         record_view (slice s (s + l) bytes) = (eid, ty, text)"
  proof (intro allI impI)
    fix eid ty tx s l
    assume e: "OnEntity eid ty tx s l \<in> set (scan_spec (\<lambda>s. s) bytes)"
    have "(s, l) \<in> set (event_ranges es)" if "OnEntity eid ty tx s l \<in> set es" for es
      using that by (induction es rule: event_ranges.induct) auto
    from slice_record [OF this [OF e] assms(2)] scan_spec_ranges [OF e assms(2)]
    show "record_view (slice s (s + l) bytes) = (eid, ty, tx)" by (simp add: record_view_def Let_def)
  qed
qed

theorem part_file_rescans_witness:
  "entity_views (scan_spec (\<lambda>s. s) (concat (writePart ''DATA;#1=A(#2);#2=B();#3=C();ENDSEC;''
       (''HEADER;'' @ [nl] @ ''ENDSEC;'') \<lparr>partIndex = 0, offArr = [21, 5], lenArr = [7, 9]\<rparr>))) =
   [(Some ''1'', Some ''A'', ''#1=A(#2)''), (Some ''3'', Some ''C'', ''#3=C()'')]"
proof -
  let ?b = "''DATA;#1=A(#2);#2=B();#3=C();ENDSEC;''" and ?h = "''HEADER;'' @ [nl] @ ''ENDSEC;''"
  let ?p = "\<lparr>partIndex = 0, offArr = [21, 5], lenArr = [7, 9]\<rparr>"
  have h: "header_ok ?h" by code_simp
  have t: "terminated (\<lambda>s. s) ?b" by code_simp
  have j: "job_ranges ?p = [(5, 9), (21, 7)]" by code_simp
  have e: "event_ranges (scan_spec (\<lambda>s. s) ?b) = [(5, 9), (14, 7), (21, 7)]" by code_simp
  have v: "map (\<lambda>(s, l). record_view (slice s (s + l) ?b)) [(5, 9), (21, 7)] =
      [(Some ''1'', Some ''A'', ''#1=A(#2)''), (Some ''3'', Some ''C'', ''#3=C()'')]" by code_simp
  from part_file_rescans [OF h t, of ?p] show ?thesis unfolding j e v by simp
qed

text \<open>C9. A part file is the header, the byte ranges of the part in ascending order and the
  trailer, byte for byte: neither the coalescing of adjacent ranges nor the write buffer changes
  what is written.\<close>

theorem writePart_content:
  "concat (writePart fileBuf header p) =
     part_prefix header @ concat (map (\<lambda>(s, l). slice s (s + l) fileBuf) (job_ranges p)) @ part_suffix"
  by (rule writePart_bytes)

text \<open>Distribution over workers loses and repeats no part, and is balanced: no worker gets more
  than another beyond the size of one largest part.\<close>

theorem distribute_balanced:
  assumes "0 < cpus" and "jobs \<noteq> []"
  shows "mset (concat (map bparts (distribute cpus jobs))) = mset jobs
    \<and> (\<forall>a \<in> set (distribute cpus jobs). \<forall>b \<in> set (distribute cpus jobs).
         sum_list (map job_count (bparts a)) \<le> sum_list (map job_count (bparts b)) + Max (job_count ` set jobs))"
  using distribute_facts [OF assms, of "Max (job_count ` set jobs)"]
  by (auto simp: balanced_def loads_ok_def)

theorem distribute_balanced_witness:
  "mset (concat (map bparts (distribute 2 [\<lparr>partIndex = 0, offArr = [0], lenArr = [1]\<rparr>,
      \<lparr>partIndex = 1, offArr = [0, 1], lenArr = [1, 1]\<rparr>, \<lparr>partIndex = 2, offArr = [1], lenArr = [1]\<rparr>]))) =
   {#\<lparr>partIndex = 0, offArr = [0], lenArr = [1]\<rparr>, \<lparr>partIndex = 1, offArr = [0, 1], lenArr = [1, 1]\<rparr>,
     \<lparr>partIndex = 2, offArr = [1], lenArr = [1]\<rparr>#}"
  using distribute_balanced [of 2 "[\<lparr>partIndex = 0, offArr = [0], lenArr = [1]\<rparr>,
      \<lparr>partIndex = 1, offArr = [0, 1], lenArr = [1, 1]\<rparr>, \<lparr>partIndex = 2, offArr = [1], lenArr = [1]\<rparr>]"]
  by simp



end
