(* ===== verification/ConvertPool.thy ===== *)
theory ConvertPool
  imports Prelude
begin

text \<open>
  The conversion worker pool, \<open>cad-parser/convert-pool.js\<close>. A worker is a number, its \<open>task\<close> field
  an entry of \<open>tasks\<close>; the \<open>resolve\<close>/\<open>reject\<close> pair of a task is the entry it leaves in \<open>settled\<close>.
  The handlers are functions on the pool; the events that may arrive are a step relation: any
  caller may submit, a worker that holds a task answers it once (as \<open>worker-convert.js\<close> does), any
  live worker may fail and is heard of no more. \<open>posted\<close> logs what was sent to the workers.
\<close>

section \<open>The pool as written\<close>

record task =
  task_id :: nat
  stepBuffer :: string

datatype reply = Converted string nat | Failed string   \<comment> \<open>\<open>{ glb, meshCount }\<close>, \<open>{ error }\<close>\<close>

record pool =
  idle :: "nat list"
  queue :: "task list"
  tasks :: "(nat \<times> task) list"            \<comment> \<open>worker and its current task\<close>
  spawned :: nat                          \<comment> \<open>workers created so far\<close>
  dead :: "nat list"
  posted :: "(nat \<times> task) list"
  settled :: "(task \<times> reply) list"

definition task_of :: "nat \<Rightarrow> pool \<Rightarrow> task option" where
  "task_of w p = map_of (tasks p) w"

definition spawn :: "pool \<Rightarrow> nat \<times> pool" where
  \<comment> \<open>\<open>_spawn\<close>\<close>
  "spawn p = (spawned p, p\<lparr>spawned := spawned p + 1\<rparr>)"

fun spawn_idle :: "nat \<Rightarrow> pool \<Rightarrow> pool" where
  "spawn_idle 0 p = p"
| "spawn_idle (Suc n) p = spawn_idle n (case spawn p of (w, p') \<Rightarrow> p'\<lparr>idle := idle p' @ [w]\<rparr>)"

definition new_pool :: "nat \<Rightarrow> pool" where
  \<comment> \<open>\<open>constructor(size)\<close>\<close>
  "new_pool sz = spawn_idle sz
     \<lparr>idle = [], queue = [], tasks = [], spawned = 0, dead = [], posted = [], settled = []\<rparr>"

function pump :: "pool \<Rightarrow> pool" where
  \<comment> \<open>\<open>_pump\<close>: \<open>idle.pop()\<close> takes the last, \<open>queue.shift()\<close> the first\<close>
  "pump p =
     (if idle p \<noteq> [] \<and> queue p \<noteq> [] then
        (let w = last (idle p); t = hd (queue p)
         in pump (p\<lparr>idle := butlast (idle p), queue := tl (queue p), tasks := (w, t) # tasks p,
              posted := posted p @ [(w, t)]\<rparr>))
      else p)"
  by pat_completeness auto
termination
  by (relation "measure (\<lambda>p. length (queue p))") auto

declare pump.simps [simp del]

definition run_task :: "task \<Rightarrow> pool \<Rightarrow> pool" where
  \<comment> \<open>\<open>run(stepBuffer)\<close>\<close>
  "run_task t p = pump (p\<lparr>queue := queue p @ [t]\<rparr>)"

definition clear_task :: "nat \<Rightarrow> pool \<Rightarrow> pool" where
  \<comment> \<open>\<open>w.task = null\<close>\<close>
  "clear_task w p = p\<lparr>tasks := filter (\<lambda>(v, _). v \<noteq> w) (tasks p)\<rparr>"

definition on_message :: "nat \<Rightarrow> reply \<Rightarrow> pool \<Rightarrow> pool" where
  "on_message w msg p =
     (let t = task_of w p;
          p1 = clear_task w p;
          p2 = p1\<lparr>idle := idle p1 @ [w]\<rparr>;
          p3 = (case t of Some t \<Rightarrow> p2\<lparr>settled := settled p2 @ [(t, msg)]\<rparr> | None \<Rightarrow> p2)
      in pump p3)"

definition on_error :: "nat \<Rightarrow> string \<Rightarrow> pool \<Rightarrow> pool" where
  "on_error w err p =
     (let p1 = (case task_of w p of
                  Some t \<Rightarrow> clear_task w (p\<lparr>settled := settled p @ [(t, Failed err)]\<rparr>)
                | None \<Rightarrow> p);
          p2 = p1\<lparr>idle := remove1 w (idle p1), dead := w # dead p1\<rparr>
      in pump (case spawn p2 of (v, p3) \<Rightarrow> p3\<lparr>idle := idle p3 @ [v]\<rparr>))"

section \<open>Events\<close>

datatype event = Run task | Message nat reply | Error nat string

inductive pool_step :: "pool \<Rightarrow> event \<Rightarrow> pool \<Rightarrow> bool" where
  step_run: "pool_step p (Run t) (run_task t p)"
| step_message: "w \<in> fst ` set (tasks p) \<Longrightarrow> pool_step p (Message w r) (on_message w r p)"
| step_error: "w < spawned p \<Longrightarrow> w \<notin> set (dead p) \<Longrightarrow> pool_step p (Error w err) (on_error w err p)"

inductive_simps pool_step_simps: "pool_step p (Run t) p'" "pool_step p (Message w r) p'" "pool_step p (Error w err) p'"

inductive pool_run :: "nat \<Rightarrow> event list \<Rightarrow> pool \<Rightarrow> bool" for sz where
  run_start: "pool_run sz [] (new_pool sz)"
| run_event: "pool_run sz es p \<Longrightarrow> pool_step p e p' \<Longrightarrow> pool_run sz (es @ [e]) p'"

definition submitted :: "event list \<Rightarrow> task list" where
  "submitted es = concat (map (\<lambda>e. case e of Run t \<Rightarrow> [t] | _ \<Rightarrow> []) es)"

lemma submitted_simps [simp]:
  "submitted [] = []" "submitted [Run t] = [t]" "submitted [Message w r] = []" "submitted [Error w e] = []"
  by (simp_all add: submitted_def)

lemma submitted_append [simp]: "submitted (a @ b) = submitted a @ submitted b"
  by (simp add: submitted_def)

section \<open>Invariant\<close>

definition pool_inv :: "nat \<Rightarrow> task list \<Rightarrow> pool \<Rightarrow> bool" where
  "pool_inv sz subs p \<longleftrightarrow>
     distinct (idle p @ map fst (tasks p) @ dead p)
     \<and> set (idle p @ map fst (tasks p) @ dead p) = {..<spawned p}
     \<and> length (idle p) + length (tasks p) = sz
     \<and> map snd (posted p) @ queue p = subs
     \<and> mset (map snd (posted p)) = mset (map snd (tasks p)) + mset (map fst (settled p))"

definition conserving :: "pool \<Rightarrow> bool" where
  "conserving p \<longleftrightarrow> idle p = [] \<or> queue p = []"

lemma pump_inv: "pool_inv sz subs p \<Longrightarrow> pool_inv sz subs (pump p) \<and> conserving (pump p)"
proof (induction p rule: pump.induct)
  case (1 p)
  show ?case
  proof (cases "idle p \<noteq> [] \<and> queue p \<noteq> []")
    case True
    let ?p = "p\<lparr>idle := butlast (idle p), queue := tl (queue p), tasks := (last (idle p), hd (queue p)) # tasks p,
      posted := posted p @ [(last (idle p), hd (queue p))]\<rparr>"
    obtain xs w where i: "idle p = xs @ [w]" using True by (metis append_butlast_last_id)
    obtain t q where q: "queue p = t # q" using True by (cases "queue p") auto
    have "pool_inv sz subs ?p" using 1(2) i q unfolding pool_inv_def by auto
    with 1(1) [OF True refl refl] True show ?thesis by (subst (1 2) pump.simps) (simp add: Let_def)
  next
    case False
    with 1(2) show ?thesis by (subst (1 2) pump.simps) (auto simp: conserving_def)
  qed
qed

lemma spawn_idle_facts:
  "idle (spawn_idle n p) = idle p @ [spawned p..<spawned p + n] \<and> spawned (spawn_idle n p) = spawned p + n
   \<and> queue (spawn_idle n p) = queue p \<and> tasks (spawn_idle n p) = tasks p \<and> dead (spawn_idle n p) = dead p
   \<and> posted (spawn_idle n p) = posted p \<and> settled (spawn_idle n p) = settled p"
  by (induction n arbitrary: p) (simp_all add: spawn_def upt_conv_Cons)

lemma new_pool_inv: "pool_inv sz [] (new_pool sz) \<and> conserving (new_pool sz)"
  using spawn_idle_facts [of sz "\<lparr>idle = [], queue = [], tasks = [], spawned = 0, dead = [], posted = [], settled = []\<rparr>"]
  by (auto simp: new_pool_def pool_inv_def conserving_def)

lemma task_split:
  assumes "task_of w p = Some t" "distinct (map fst (tasks p))"
  shows "\<exists>a b. tasks p = a @ (w, t) # b \<and> filter (\<lambda>(v, _). v \<noteq> w) (tasks p) = a @ b"
proof -
  from assms(1) have "(w, t) \<in> set (tasks p)" by (simp add: task_of_def map_of_SomeD)
  then obtain a b where ab: "tasks p = a @ (w, t) # b" by (meson split_list)
  then have "filter (\<lambda>(v, _). v \<noteq> w) a = a" "filter (\<lambda>(v, _). v \<noteq> w) b = b"
    using assms(2) by (force simp: filter_id_conv)+
  with ab show ?thesis by auto
qed

lemma task_some: "w \<in> fst ` set (tasks p) \<Longrightarrow> \<exists>t. task_of w p = Some t"
  by (simp add: task_of_def map_of_eq_None_iff flip: not_None_eq)

lemma on_message_inv:
  assumes "pool_inv sz subs p" "w \<in> fst ` set (tasks p)"
  shows "pool_inv sz subs (on_message w r p) \<and> conserving (on_message w r p)"
proof -
  obtain t where t: "task_of w p = Some t" using task_some [OF assms(2)] by blast
  obtain a b where ab: "tasks p = a @ (w, t) # b" "filter (\<lambda>(v, _). v \<noteq> w) (tasks p) = a @ b"
    using task_split [OF t] assms(1) by (auto simp: pool_inv_def)
  have "pool_inv sz subs ((clear_task w p)\<lparr>idle := idle p @ [w], settled := settled p @ [(t, r)]\<rparr>)"
    using assms(1) ab unfolding pool_inv_def clear_task_def by auto
  from pump_inv [OF this] show ?thesis by (simp add: on_message_def t Let_def clear_task_def)
qed

lemma on_error_inv:
  assumes "pool_inv sz subs p" "w < spawned p" "w \<notin> set (dead p)"
  shows "pool_inv sz subs (on_error w err p) \<and> conserving (on_error w err p)"
proof (cases "task_of w p")
  case None
  then have "w \<notin> fst ` set (tasks p)" using task_some by fastforce
  then have "w \<in> set (idle p)" using assms by (auto simp: pool_inv_def)
  then obtain a b where ab: "idle p = a @ w # b" "w \<notin> set a" by (meson split_list_first)
  then have rm: "remove1 w (idle p) = a @ b" by (simp add: remove1_append)
  have "pool_inv sz subs (p\<lparr>dead := w # dead p, spawned := spawned p + 1, idle := (a @ b) @ [spawned p]\<rparr>)"
    using assms ab unfolding pool_inv_def by auto
  from pump_inv [OF this] show ?thesis by (simp add: on_error_def None rm spawn_def Let_def)
next
  case (Some t)
  obtain a b where ab: "tasks p = a @ (w, t) # b" "filter (\<lambda>(v, _). v \<noteq> w) (tasks p) = a @ b"
    using task_split [OF Some] assms(1) by (auto simp: pool_inv_def)
  have "w \<notin> set (idle p)" using assms(1) ab by (auto simp: pool_inv_def)
  then have rm: "remove1 w (idle p) = idle p" by (simp add: remove1_idem)
  have "pool_inv sz subs (p\<lparr>settled := settled p @ [(t, Failed err)], tasks := a @ b, dead := w # dead p,
      spawned := spawned p + 1, idle := idle p @ [spawned p]\<rparr>)"
    using assms ab unfolding pool_inv_def by auto
  from pump_inv [OF this] show ?thesis
    using ab(2) by (simp add: on_error_def Some rm spawn_def Let_def clear_task_def)
qed

lemma run_task_inv: "pool_inv sz subs p \<Longrightarrow>
   pool_inv sz (subs @ [t]) (run_task t p) \<and> conserving (run_task t p)"
  unfolding run_task_def by (rule pump_inv) (auto simp: pool_inv_def)

lemma pool_run_inv: "pool_run sz es p \<Longrightarrow> pool_inv sz (submitted es) p \<and> conserving p"
proof (induction rule: pool_run.induct)
  case run_start
  then show ?case using new_pool_inv by simp
next
  case (run_event es p e p')
  from run_event.IH have i: "pool_inv sz (submitted es) p" by blast
  from run_event.hyps(2) show ?case
  proof (cases rule: pool_step.cases)
    case (step_run t)
    then show ?thesis using run_task_inv [OF i, of t] by simp
  next
    case (step_message w r)
    then show ?thesis using on_message_inv [OF i, of w r] by simp
  next
    case (step_error w err)
    then show ?thesis using on_error_inv [OF i, of w err] by simp
  qed
qed

section \<open>What callers rely on\<close>

text \<open>C11. In every reachable state each submitted conversion is in exactly one place, waiting,
  running or settled, so it is settled at most once; conversions start in the order they were
  submitted.\<close>

theorem pool_settles_once:
  assumes "pool_run sz es p"
  shows "mset (submitted es) = mset (queue p) + mset (map snd (tasks p)) + mset (map fst (settled p))
    \<and> map snd (posted p) @ queue p = submitted es"
proof -
  from pool_run_inv [OF assms] have i: "pool_inv sz (submitted es) p" by blast
  then have "mset (submitted es) = mset (map snd (posted p)) + mset (queue p)"
    unfolding pool_inv_def by (metis mset_append)
  with i show ?thesis by (simp add: pool_inv_def)
qed

text \<open>C12. Failed workers are replaced: the pool keeps exactly \<open>size\<close> workers, none of them twice,
  and never leaves one idle while a conversion waits.\<close>

theorem pool_keeps_capacity:
  assumes "pool_run sz es p"
  shows "length (idle p) + length (tasks p) = sz \<and> distinct (idle p @ map fst (tasks p))
    \<and> (queue p \<noteq> [] \<longrightarrow> length (tasks p) = sz)"
  using pool_run_inv [OF assms] by (auto simp: pool_inv_def conserving_def)

definition pending :: "pool \<Rightarrow> nat" where
  "pending p = length (queue p) + length (tasks p)"

definition is_answer :: "event \<Rightarrow> bool" where
  "is_answer e = (case e of Message _ _ \<Rightarrow> True | _ \<Rightarrow> False)"

lemma pump_pending: "pending (pump p) = pending p"
proof (induction p rule: pump.induct)
  case (1 p)
  then show ?case by (cases "queue p") (simp_all add: pump.simps [of p] pending_def Let_def)
qed

lemma on_message_pending:
  assumes "pool_inv sz subs p" "w \<in> fst ` set (tasks p)"
  shows "Suc (pending (on_message w r p)) = pending p"
proof -
  obtain t where t: "task_of w p = Some t" using task_some [OF assms(2)] by blast
  obtain a b where ab: "tasks p = a @ (w, t) # b" "filter (\<lambda>(v, _). v \<noteq> w) (tasks p) = a @ b"
    using task_split [OF t] assms(1) by (auto simp: pool_inv_def)
  have "Suc (pending ((clear_task w p)\<lparr>idle := idle p @ [w], settled := settled p @ [(t, r)]\<rparr>)) = pending p"
    using ab by (simp add: pending_def clear_task_def)
  then show ?thesis by (simp add: on_message_def t Let_def pump_pending) (simp add: clear_task_def)
qed

text \<open>C13. As long as a conversion is unsettled some worker holds one, so an answer can arrive, and
  every answer settles one: after as many answers as there were unsettled conversions, with whatever
  workers answering in whatever order, all of them are settled.\<close>

theorem pool_progress:
  assumes "pool_run sz es p" "0 < sz"
  shows "(pending p \<noteq> 0 \<longrightarrow> (\<exists>w. \<forall>r. pool_step p (Message w r) (on_message w r p)))
    \<and> (\<forall>e p'. pool_step p e p' \<longrightarrow> is_answer e \<longrightarrow> Suc (pending p') = pending p)
    \<and> (pending p = 0 \<longrightarrow> mset (map fst (settled p)) = mset (submitted es))"
proof (intro conjI impI allI)
  from pool_run_inv [OF assms(1)] have i: "pool_inv sz (submitted es) p" and c: "conserving p" by blast+
  { assume "pending p \<noteq> 0"
    then have "tasks p \<noteq> []" using i c assms(2) by (auto simp: pending_def conserving_def pool_inv_def)
    then obtain w t where "(w, t) \<in> set (tasks p)" by (cases "tasks p") auto
    then have "w \<in> fst ` set (tasks p)" by (rule image_eqI [rotated]) simp
    then show "\<exists>w. \<forall>r. pool_step p (Message w r) (on_message w r p)" by (blast intro: step_message) }
  { fix e p' assume "pool_step p e p'" "is_answer e"
    then show "Suc (pending p') = pending p"
      by (cases rule: pool_step.cases) (simp_all add: is_answer_def on_message_pending [OF i]) }
  assume z: "pending p = 0"
  from i have "mset (submitted es) = mset (map snd (posted p)) + mset (queue p)"
    unfolding pool_inv_def by (metis mset_append)
  with i z show "mset (map fst (settled p)) = mset (submitted es)" by (simp add: pending_def pool_inv_def)
qed

lemma sample_run:
  "\<exists>p. pool_run 1 [Run \<lparr>task_id = 1, stepBuffer = ''a''\<rparr>, Run \<lparr>task_id = 2, stepBuffer = ''b''\<rparr>, Error 0 ''oom'']
     p \<and> idle p = [] \<and> tasks p = [(1, \<lparr>task_id = 2, stepBuffer = ''b''\<rparr>)] \<and> queue p = []
     \<and> settled p = [(\<lparr>task_id = 1, stepBuffer = ''a''\<rparr>, Failed ''oom'')]"
proof -
  let ?a = "\<lparr>task_id = 1, stepBuffer = ''a''\<rparr>" and ?b = "\<lparr>task_id = 2, stepBuffer = ''b''\<rparr>"
  let ?p1 = "run_task ?a (new_pool 1)"
  let ?p2 = "run_task ?b ?p1"
  let ?p3 = "on_error 0 ''oom'' ?p2"
  have "pool_run 1 (([] @ [Run ?a]) @ [Run ?b]) ?p2"
    by (rule run_event [OF run_event [OF run_start step_run] step_run])
  moreover have "0 < spawned ?p2" "0 \<notin> set (dead ?p2)" by code_simp+
  ultimately have "pool_run 1 ((([] @ [Run ?a]) @ [Run ?b]) @ [Error 0 ''oom'']) ?p3"
    using run_event [OF _ step_error] by blast
  moreover have "idle ?p3 = []" "tasks ?p3 = [(1, ?b)]" "queue ?p3 = []" "settled ?p3 = [(?a, Failed ''oom'')]"
    by code_simp+
  ultimately show ?thesis by auto
qed

theorem pool_settles_once_witness:
  "(\<exists>es p. pool_run 1 es p \<and> settled p \<noteq> []
     \<and> mset (submitted es) = mset (queue p) + mset (map snd (tasks p)) + mset (map fst (settled p)))"
proof -
  from sample_run obtain es p where r: "pool_run 1 es p" and s: "settled p \<noteq> []" by force
  from pool_settles_once [OF r] r s show ?thesis by auto
qed

theorem pool_keeps_capacity_witness:
  "\<exists>es p. pool_run 1 es p \<and> settled p \<noteq> [] \<and> length (idle p) + length (tasks p) = 1"
proof -
  from sample_run obtain es p where r: "pool_run 1 es p" and s: "settled p \<noteq> []" by force
  from pool_keeps_capacity [OF r] r s show ?thesis by blast
qed

theorem pool_progress_witness:
  "\<exists>es p. pool_run 1 es p \<and> pending p = 1 \<and> (\<exists>w. \<forall>r. pool_step p (Message w r) (on_message w r p))"
proof -
  from sample_run obtain es p x where r: "pool_run 1 es p" and "tasks p = [x]" "queue p = []" by force
  then have "pending p = 1" by (simp add: pending_def)
  with pool_progress [OF r] r show ?thesis by auto
qed

end
