(* ===== verification/JsValue.thy ===== *)
theory JsValue
  imports Prelude
begin

text \<open>
  JSON values and the JavaScript operators on them that the browser code and the CATIA reader use:
  truthiness, property access, \<open>Object.entries\<close>, \<open>??\<close> and \<open>||\<close>, string conversion, percent encoding,
  and loops whose body may throw. \<open>undefined\<close> is \<open>None\<close>. The numbers the modelled code handles
  (status codes, counts, byte sizes) are integers.
\<close>

section \<open>Values\<close>

datatype json =
    JNull
  | JBool bool
  | JNum int
  | JStr string
  | JArr "json list"
  | JObj "(string \<times> json) list"

definition is_object :: "json \<Rightarrow> bool" where
  \<comment> \<open>\<open>typeof v === 'object'\<close>: \<open>null\<close> and arrays included\<close>
  "is_object v = (case v of JNull \<Rightarrow> True | JArr _ \<Rightarrow> True | JObj _ \<Rightarrow> True | _ \<Rightarrow> False)"

definition truthy :: "json option \<Rightarrow> bool" where
  "truthy v = (case v of None \<Rightarrow> False | Some JNull \<Rightarrow> False | Some (JBool b) \<Rightarrow> b | Some (JNum n) \<Rightarrow> n \<noteq> 0
     | Some (JStr s) \<Rightarrow> s \<noteq> [] | Some _ \<Rightarrow> True)"

definition js_or :: "json option \<Rightarrow> json option \<Rightarrow> json option" where
  \<comment> \<open>\<open>a || b\<close>\<close>
  "js_or a b = (if truthy a then a else b)"

definition nullish :: "json option \<Rightarrow> bool" where
  "nullish v \<longleftrightarrow> v = None \<or> v = Some JNull"

definition js_coalesce :: "json option \<Rightarrow> json option \<Rightarrow> json option" where
  \<comment> \<open>\<open>a ?? b\<close>\<close>
  "js_coalesce a b = (if nullish a then b else a)"

definition array_entries :: "json list \<Rightarrow> (string \<times> json) list" where
  "array_entries vs = map (\<lambda>i. (digits_of_nat i, vs ! i)) [0..<length vs]"

definition entries :: "json \<Rightarrow> (string \<times> json) list" where
  \<comment> \<open>\<open>Object.entries(v)\<close> of a value that is not null\<close>
  "entries v = (case v of JObj kvs \<Rightarrow> obj_entries kvs | JArr vs \<Rightarrow> array_entries vs | _ \<Rightarrow> [])"

definition jprop :: "json option \<Rightarrow> string \<Rightarrow> json option" where
  \<comment> \<open>\<open>v?.k\<close> for a name \<open>k\<close> that no built-in property has\<close>
  "jprop v k = (case v of Some (JObj kvs) \<Rightarrow> obj_get kvs k | Some (JArr vs) \<Rightarrow> map_of (array_entries vs) k | _ \<Rightarrow> None)"

definition js_in :: "string \<Rightarrow> json \<Rightarrow> bool" where
  \<comment> \<open>\<open>k in v\<close> for an own property\<close>
  "js_in k v = (case v of JObj kvs \<Rightarrow> k \<in> fst ` set kvs | JArr vs \<Rightarrow> k \<in> fst ` set (array_entries vs) | _ \<Rightarrow> False)"

definition digits_of_int :: "int \<Rightarrow> string" where
  "digits_of_int n = (if n < 0 then CHR ''-'' # digits_of_nat (nat (- n)) else digits_of_nat (nat n))"

section \<open>Strings and numbers\<close>

definition upper_char :: "char \<Rightarrow> char" where
  "upper_char c = (let n = of_char c :: nat in if 97 \<le> n \<and> n \<le> 122 then char_of (n - 32) else c)"

definition toUpperCase :: "string \<Rightarrow> string" where
  \<comment> \<open>on ASCII text, which method and shape names are\<close>
  "toUpperCase s = map upper_char s"

definition lower_char :: "char \<Rightarrow> char" where
  "lower_char c = (let n = of_char c :: nat in if 65 \<le> n \<and> n \<le> 90 then char_of (n + 32) else c)"

definition toLowerCase :: "string \<Rightarrow> string" where
  \<comment> \<open>on ASCII text\<close>
  "toLowerCase s = map lower_char s"

definition parse_int :: "string \<Rightarrow> int option" where
  \<comment> \<open>\<open>parseInt(s, 10)\<close>, \<open>NaN\<close> is None\<close>
  "parse_int s = (let t = dropWhile js_ws s;
       (neg, u) = (case t of c # r \<Rightarrow> if c = CHR ''-'' then (True, r) else if c = CHR ''+'' then (False, r) else (False, t) | [] \<Rightarrow> (False, t));
       ds = takeWhile digit u
     in if ds = [] then None else Some (if neg then - int (nat_of_digits ds) else int (nat_of_digits ds)))"

lemma parse_int_digits: "parse_int (digits_of_nat n) = Some (int n)"
proof -
  let ?s = "digits_of_nat n"
  have d: "?s \<noteq> []" "list_all digit ?s" using digits_of_nat_digits by auto
  then have "digit (hd ?s)" by (cases ?s) auto
  then have "\<not> js_ws (hd ?s)" "hd ?s \<noteq> CHR ''-''" "hd ?s \<noteq> CHR ''+''" by (auto simp: digit_def js_ws_def)
  moreover have "takeWhile digit ?s = ?s" using d(2) by (simp add: list_all_iff)
  ultimately show ?thesis using d(1) nat_of_digits_of_nat [of n]
    by (cases ?s) (simp_all add: parse_int_def dropWhile_hd_id Let_def)
qed

fun js_string :: "json \<Rightarrow> string" where
  \<comment> \<open>\<open>String(v)\<close>, and the text of \<open>${v}\<close>\<close>
  "js_string JNull = ''null''"
| "js_string (JBool b) = (if b then ''true'' else ''false'')"
| "js_string (JNum n) = digits_of_int n"
| "js_string (JStr s) = s"
| "js_string (JArr vs) = join '','' (map (\<lambda>v. case v of JNull \<Rightarrow> [] | _ \<Rightarrow> js_string v) vs)"
| "js_string (JObj _) = ''[object Object]''"

definition opt_string :: "json option \<Rightarrow> string" where
  "opt_string v = (case v of None \<Rightarrow> ''undefined'' | Some v \<Rightarrow> js_string v)"

lemma truthy_simps [simp, js_simps]:
  "\<not> truthy None" "\<not> truthy (Some JNull)" "truthy (Some (JBool b)) = b" "truthy (Some (JNum n)) = (n \<noteq> 0)"
  "truthy (Some (JStr s)) = (s \<noteq> [])" "truthy (Some (JArr vs))" "truthy (Some (JObj kvs))"
  by (simp_all add: truthy_def)

lemma is_object_simps [simp, js_simps]:
  "is_object JNull" "\<not> is_object (JBool b)" "\<not> is_object (JNum n)" "\<not> is_object (JStr s)" "is_object (JArr vs)"
  "is_object (JObj kvs)"
  by (simp_all add: is_object_def)

lemma jprop_simps [simp, js_simps]:
  "jprop None k = None" "jprop (Some JNull) k = None" "jprop (Some (JBool b)) k = None" "jprop (Some (JNum n)) k = None"
  "jprop (Some (JStr s)) k = None" "jprop (Some (JObj kvs)) k = obj_get kvs k"
  by (simp_all add: jprop_def)

lemma truthy_js_or [simp]: "truthy (js_or a b) \<longleftrightarrow> truthy a \<or> truthy b"
  by (simp add: js_or_def)

lemma js_or_cases: "js_or a b = a \<or> js_or a b = b"
  by (simp add: js_or_def)

section \<open>Depth of a value\<close>

fun depth :: "json \<Rightarrow> nat" where
  "depth (JArr vs) = Suc (foldr (\<lambda>v. max (depth v)) vs 0)"
| "depth (JObj kvs) = Suc (foldr (\<lambda>(_, v). max (depth v)) kvs 0)"
| "depth _ = 0"

lemma foldr_max_le: "x \<in> set xs \<Longrightarrow> f x \<le> foldr (\<lambda>x. max (f x)) xs (0::nat)"
  by (induction xs) auto

lemma depth_entry: "(k, v) \<in> set kvs \<Longrightarrow> depth v < depth (JObj kvs)"
  using foldr_max_le [of "(k, v)" kvs "\<lambda>(_, v). depth v"] by (simp add: case_prod_unfold)

lemma depth_item: "v \<in> set vs \<Longrightarrow> depth v < depth (JArr vs)"
  using foldr_max_le [of v vs depth] by simp

section \<open>Loops that may throw\<close>

fun fold_err :: "('a \<Rightarrow> 's \<Rightarrow> 'e + 's) \<Rightarrow> 'a list \<Rightarrow> 's \<Rightarrow> 'e + 's" where
  \<comment> \<open>\<open>for (const x of xs) { ... }\<close>; the first exception ends the loop\<close>
  "fold_err f [] s = Inr s"
| "fold_err f (x # xs) s = (case f x s of Inl e \<Rightarrow> Inl e | Inr s' \<Rightarrow> fold_err f xs s')"

lemma fold_err_Inr: "(\<And>x s. x \<in> set xs \<Longrightarrow> f x s = Inr (g x s)) \<Longrightarrow> fold_err f xs s = Inr (fold g xs s)"
  by (induction xs arbitrary: s) auto

lemma fold_err_append: "fold_err f (xs @ ys) s = (case fold_err f xs s of Inl e \<Rightarrow> Inl e | Inr s' \<Rightarrow> fold_err f ys s')"
  by (induction xs arbitrary: s) (auto split: sum.split)

lemma fold_err_raises: "x \<in> set xs \<Longrightarrow> (\<And>s. \<exists>e. f x s = Inl e) \<Longrightarrow> \<exists>e. fold_err f xs s = Inl e"
proof (induction xs arbitrary: s)
  case (Cons y xs)
  then show ?case by (cases "f y s") (auto, metis Inl_Inr_False)
qed simp

lemma fold_err_cong [fundef_cong]:
  "xs = ys \<Longrightarrow> s = t \<Longrightarrow> (\<And>x s. x \<in> set ys \<Longrightarrow> f x s = g x s) \<Longrightarrow> fold_err f xs s = fold_err g ys t"
  by (induction xs arbitrary: ys s t) (auto split: sum.split)

section \<open>Percent encoding\<close>

definition uri_unreserved :: "char \<Rightarrow> bool" where
  "uri_unreserved c \<longleftrightarrow> (let n = of_char c :: nat in 48 \<le> n \<and> n \<le> 57 \<or> 65 \<le> n \<and> n \<le> 90 \<or> 97 \<le> n \<and> n \<le> 122)
     \<or> c \<in> set ''-_.!~*'' \<or> of_char c \<in> {39, 40, 41 :: nat}"

definition hex_digit :: "nat \<Rightarrow> char" where
  "hex_digit n = (if n < 10 then char_of (48 + n) else char_of (55 + n))"

definition pct :: "nat \<Rightarrow> string" where
  "pct n = [CHR ''%'', hex_digit (n div 16), hex_digit (n mod 16)]"

definition encode_char :: "char \<Rightarrow> string" where
  \<comment> \<open>the UTF-8 bytes of the code unit, each as \<open>%XX\<close>\<close>
  "encode_char c = (if uri_unreserved c then [c]
     else (let n = of_char c :: nat in if n < 128 then pct n else pct (192 + n div 64) @ pct (128 + n mod 64)))"

definition encodeURIComponent :: "string \<Rightarrow> string" where
  "encodeURIComponent s = concat (map encode_char s)"

definition hex_value :: "char \<Rightarrow> nat" where
  "hex_value c = (let n = of_char c :: nat in if n < 58 then n - 48 else n - 55)"

fun pct_decode :: "string \<Rightarrow> string" where
  \<comment> \<open>the bytes a percent-encoded text stands for\<close>
  "pct_decode (c # s) = (if c = CHR ''%'' then
       (case s of h # l # r \<Rightarrow> char_of (16 * hex_value h + hex_value l) # pct_decode r | _ \<Rightarrow> c # pct_decode s)
     else c # pct_decode s)"
| "pct_decode [] = []"

definition utf8_char :: "char \<Rightarrow> string" where
  "utf8_char c = (let n = of_char c :: nat in
     if n < 128 then [c] else [char_of (192 + n div 64), char_of (128 + n mod 64)])"

lemma hex_value_digit: "n < 16 \<Longrightarrow> hex_value (hex_digit n) = n"
  by (simp add: hex_value_def hex_digit_def Let_def)

lemma pct_decode_pct: "n < 256 \<Longrightarrow> pct_decode (pct n @ s) = char_of n # pct_decode s"
  by (simp add: pct_def hex_value_digit)

lemma unreserved_facts: "uri_unreserved c \<Longrightarrow> c \<noteq> CHR ''%'' \<and> of_char c < (128 :: nat)"
  by (auto simp: uri_unreserved_def Let_def)

lemma char_div64: "of_char (c :: char) div 64 < (4 :: nat)"
  by (rule less_mult_imp_div_less) (use nat_of_char_less_256 [of c] in simp)

lemma pct_decode_encode_char: "pct_decode (encode_char c @ s) = utf8_char c @ pct_decode s"
proof (cases "uri_unreserved c \<or> of_char c < (128 :: nat)")
  case True
  with unreserved_facts [of c] nat_of_char_less_256 [of c] show ?thesis
    by (auto simp: encode_char_def utf8_char_def Let_def pct_decode_pct)
next
  case False
  have "of_char c div 64 < (4 :: nat)" by (rule char_div64)
  then have "192 + of_char c div 64 < (256 :: nat)" "128 + of_char c mod 64 < (256 :: nat)" by simp_all
  with False show ?thesis by (simp add: encode_char_def utf8_char_def Let_def pct_decode_pct)
qed

lemma pct_decode_encode: "pct_decode (encodeURIComponent s) = concat (map utf8_char s)"
  by (induction s) (simp_all add: encodeURIComponent_def pct_decode_encode_char)

lemma utf8_char_prefix:
  assumes "utf8_char c @ s = utf8_char d @ t"
  shows "c = d \<and> s = t"
proof -
  have b: "of_char x div 64 < (4 :: nat)" "of_char x = 64 * (of_char x div 64) + of_char x mod (64 :: nat)" for x :: char
    by (rule char_div64) simp
  have eq: "of_char c = (of_char d :: nat) \<Longrightarrow> c = d" by simp
  consider "of_char c < (128 :: nat)" "of_char d < (128 :: nat)" | "\<not> of_char c < (128 :: nat)" "\<not> of_char d < (128 :: nat)"
    | "of_char c < (128 :: nat)" "\<not> of_char d < (128 :: nat)" | "\<not> of_char c < (128 :: nat)" "of_char d < (128 :: nat)"
    by blast
  then show ?thesis
  proof cases
    case 1
    with assms show ?thesis by (simp add: utf8_char_def Let_def)
  next
    case 2
    with assms have e: "char_of (192 + of_char c div 64 :: nat) = (char_of (192 + of_char d div 64 :: nat) :: char)"
        "char_of (128 + of_char c mod 64 :: nat) = (char_of (128 + of_char d mod 64 :: nat) :: char)" "s = t"
      by (simp_all add: utf8_char_def Let_def del: char_of_eq_iff)
    have "of_char c div 64 = (of_char d div 64 :: nat)" "of_char c mod 64 = (of_char d mod 64 :: nat)"
      using arg_cong [OF e(1), of "of_char :: _ \<Rightarrow> nat"] arg_cong [OF e(2), of "of_char :: _ \<Rightarrow> nat"] b(1) [of c] b(1) [of d]
      by simp_all
    with b(2) [of c] b(2) [of d] e(3) eq show ?thesis by metis
  next
    case 3
    with assms have "of_char c = (192 + of_char d div 64 :: nat)" using b(1) [of d] by (simp add: utf8_char_def Let_def)
    with 3 show ?thesis by simp
  next
    case 4
    with assms have "char_of (192 + of_char c div 64 :: nat) = d" by (simp add: utf8_char_def Let_def)
    then have "of_char d = (192 + of_char c div 64 :: nat)" using b(1) [of c] by auto
    with 4 show ?thesis by linarith
  qed
qed

lemma utf8_char_nonempty: "utf8_char c \<noteq> []"
  by (simp add: utf8_char_def Let_def)

lemma utf8_inj: "concat (map utf8_char s) = concat (map utf8_char t) \<Longrightarrow> s = t"
proof (induction s arbitrary: t)
  case Nil
  then show ?case by (cases t) (simp_all add: utf8_char_nonempty)
next
  case (Cons c s)
  then obtain d t' where t: "t = d # t'" by (cases t) (simp_all add: utf8_char_nonempty)
  with Cons.prems have "utf8_char c @ concat (map utf8_char s) = utf8_char d @ concat (map utf8_char t')" by simp
  from utf8_char_prefix [OF this] Cons.IH t show ?case by blast
qed

lemma encodeURIComponent_inj: "encodeURIComponent s = encodeURIComponent t \<longleftrightarrow> s = t"
  using pct_decode_encode [of s] pct_decode_encode [of t] utf8_inj by fastforce

definition uri_delims :: "char set" where
  "uri_delims = {CHR ''/'', CHR ''?'', CHR ''&'', CHR ''='', CHR ''#'', CHR '':''}"

lemma hex_digit_plain: "n < 16 \<Longrightarrow> hex_digit n \<notin> uri_delims"
proof -
  have "list_all (\<lambda>n. hex_digit n \<notin> uri_delims) [0..<16]" by code_simp
  then show "n < 16 \<Longrightarrow> ?thesis" by (simp add: list_all_iff)
qed

lemma pct_plain: "n < 256 \<Longrightarrow> set (pct n) \<inter> uri_delims = {}"
  using hex_digit_plain [of "n div 16"] hex_digit_plain [of "n mod 16"]
  by (auto simp: pct_def uri_delims_def)

lemma encode_char_plain: "set (encode_char c) \<inter> uri_delims = {}"
proof (cases "uri_unreserved c")
  case True
  then show ?thesis by (auto simp: encode_char_def uri_unreserved_def uri_delims_def Let_def)
next
  case False
  have c: "of_char c < (256 :: nat)" by (rule nat_of_char_less_256)
  have d: "of_char c div 64 < (4 :: nat)" by (rule char_div64)
  have "set (pct (128 + of_char c mod 64)) \<inter> uri_delims = {}"
    using mod_less_divisor [of 64 "of_char c :: nat"] by (intro pct_plain) linarith
  with False pct_plain [OF c] pct_plain [of "192 + of_char c div 64"] d show ?thesis
    by (auto simp: encode_char_def Let_def)
qed

lemma encode_plain: "x \<in> uri_delims \<Longrightarrow> x \<notin> set (encodeURIComponent s)"
  using encode_char_plain by (fastforce simp: encodeURIComponent_def)

lemma path_segment:
  \<comment> \<open>an encoded segment ends at the next slash\<close>
  assumes "encodeURIComponent a @ CHR ''/'' # s = encodeURIComponent b @ CHR ''/'' # t"
  shows "a = b \<and> s = t"
proof -
  have n: "CHR ''/'' \<notin> set (encodeURIComponent x)" for x by (rule encode_plain) (simp add: uri_delims_def)
  have "takeWhile (\<lambda>c. c \<noteq> CHR ''/'') (encodeURIComponent x @ CHR ''/'' # r) = encodeURIComponent x"
    "dropWhile (\<lambda>c. c \<noteq> CHR ''/'') (encodeURIComponent x @ CHR ''/'' # r) = CHR ''/'' # r" for x r
    using n [of x] by (simp_all add: takeWhile_append dropWhile_append)
  then have "encodeURIComponent a = encodeURIComponent b" "CHR ''/'' # s = CHR ''/'' # t"
    using assms by metis+
  then show ?thesis by (simp add: encodeURIComponent_inj)
qed

lemma path_segment_iff [simp]:
  "encodeURIComponent a @ CHR ''/'' # s = encodeURIComponent b @ CHR ''/'' # t \<longleftrightarrow> a = b \<and> s = t"
  using path_segment by blast

lemma no_slash_end: "encodeURIComponent a \<noteq> encodeURIComponent b @ CHR ''/'' # t"
  using encode_plain [of "CHR ''/''" a] by (auto simp: uri_delims_def)

end
