(* ===== verification/Catia.thy ===== *)
theory Catia
  imports JsValue
begin

text \<open>
  The CATIA V5 reader of \<open>cad-parser/app.js\<close> (\<open>parseCatiaProduct\<close>, \<open>walkXml\<close>). The XML parser is a
  package: it is the parameter \<open>xml_parse\<close>, which gives the document as nested objects or a message;
  \<open>randomUUID\<close> is the parameter \<open>uuid\<close>, the n-th identifier drawn. \<open>walkXml\<close> calls itself without a
  bound, so its model counts the stack frames that are left and overflows at none; its theorems speak
  of every stack size.
\<close>

section \<open>The reader as written\<close>

record cat_node =
  cn_id :: json
  cn_name :: json
  cn_type :: string
  cn_parents :: "json list"            \<comment> \<open>the \<open>parentId\<close> of the occurrences\<close>
  cn_attributes :: "json jsobj"

record walk_state =
  out :: "cat_node list"
  drawn :: nat                         \<comment> \<open>identifiers drawn from \<open>randomUUID\<close>\<close>

datatype walk_error = StackOverflow | TypeError | InvalidXml string

definition CAT_TAGS :: "string list" where
  "CAT_TAGS = [''Node'', ''ProductInstance'', ''Reference3D'', ''Product'', ''PRODUCTSTRUCTURE'']"

definition skipped :: "string \<Rightarrow> bool" where
  "skipped tag \<longleftrightarrow> starts_with tag ''@_'' \<or> tag = ''#text''"

definition items_of :: "json \<Rightarrow> json list" where
  \<comment> \<open>\<open>Array.isArray(value) ? value : [value]\<close>\<close>
  "items_of value = (case value of JArr vs \<Rightarrow> vs | _ \<Rightarrow> [value])"

definition has_kids :: "json \<Rightarrow> bool" where
  "has_kids child \<longleftrightarrow>
     list_ex (\<lambda>k. k \<in> set CAT_TAGS) (filter (\<lambda>k. \<not> skipped k) (map fst (entries child)))"

definition or_else :: "json option \<Rightarrow> json \<Rightarrow> json" where
  \<comment> \<open>\<open>v ?? d\<close> with a default \<open>d\<close> that is not nullish\<close>
  "or_else v d = (case js_coalesce v (Some d) of Some w \<Rightarrow> w | None \<Rightarrow> d)"

definition cat_push :: "(nat \<Rightarrow> string) \<Rightarrow> string \<Rightarrow> json \<Rightarrow> json option \<Rightarrow> walk_state \<Rightarrow> json \<times> walk_state" where
  "cat_push uuid tag child parentId st =
     (let at = jprop (Some child);
          fresh = nullish (at ''@_id'');
          i = (if fresh then JStr (uuid (drawn st)) else or_else (at ''@_id'') JNull);
          name = or_else (at ''@_NodeName'') (or_else (at ''@_PartNumber'') (or_else (at ''@_name'') (JStr tag)));
          revision = or_else (at ''@_Revision'') (or_else (at ''@_revision'') (JStr []));
          desc = or_else (at ''@_DescriptionRef'') (or_else (at ''@_description'') (JStr []));
          node = \<lparr>cn_id = i, cn_name = name, cn_type = (if has_kids child then ''ASSEMBLY'' else ''PART''),
                  cn_parents = (if truthy parentId then [the parentId] else []),
                  cn_attributes = filter (\<lambda>(_, v). truthy (Some v)) [(''revision'', revision), (''description'', desc)]\<rparr>
      in (i, st\<lparr>out := out st @ [node], drawn := drawn st + (if fresh then 1 else 0)\<rparr>))"

fun walkXml :: "(nat \<Rightarrow> string) \<Rightarrow> nat \<Rightarrow> json \<Rightarrow> json option \<Rightarrow> walk_state \<Rightarrow> walk_error + walk_state" where
  "walkXml uuid 0 el parentId st = Inl StackOverflow"
| "walkXml uuid (Suc frames) el parentId st =
     (if \<not> is_object el \<or> el = JNull then Inr st
      else fold_err (\<lambda>(tag, value) st.
             if skipped tag then Inr st
             else fold_err (\<lambda>child st.
                    if \<not> is_object child then Inr st
                    else if tag \<in> set CAT_TAGS then
                      (if child = JNull then Inl TypeError
                       else case cat_push uuid tag child parentId st of
                              (i, st') \<Rightarrow> walkXml uuid frames child (Some i) st')
                    else walkXml uuid frames (JObj [(tag, child)]) parentId st)
                  (items_of value) st)
           (entries el) st)"

definition unknown_part :: "(nat \<Rightarrow> string) \<Rightarrow> nat \<Rightarrow> cat_node" where
  "unknown_part uuid n =
     \<lparr>cn_id = JStr (uuid n), cn_name = JStr ''Unknown'', cn_type = ''PART'', cn_parents = [], cn_attributes = []\<rparr>"

definition parseCatiaProduct ::
  "(string \<Rightarrow> string + json) \<Rightarrow> (nat \<Rightarrow> string) \<Rightarrow> nat \<Rightarrow> string \<Rightarrow> walk_error + cat_node list" where
  "parseCatiaProduct xml_parse uuid frames xml =
     (case xml_parse xml of
        Inl message \<Rightarrow> Inl (InvalidXml (''Invalid CATProduct XML: '' @ message))
      | Inr doc \<Rightarrow>
          (case walkXml uuid frames doc None \<lparr>out = [], drawn = 0\<rparr> of
             Inl e \<Rightarrow> Inl e
           | Inr st \<Rightarrow> Inr (if out st = [] then [unknown_part uuid (drawn st)] else out st)))"

section \<open>Which documents it can read\<close>

text \<open>Every element below a document must carry one of the five tags; an object under any other tag
  is wrapped and visited again for ever.\<close>

fun no_elements :: "json \<Rightarrow> bool" where
  "no_elements (JArr vs) = list_all no_elements vs"
| "no_elements v = (\<not> is_object v)"

lemma depth_items: "c \<in> set (items_of v) \<Longrightarrow> depth c \<le> depth v"
  using depth_item by (cases v) (force simp: items_of_def less_imp_le)+

function clean :: "json \<Rightarrow> bool" where
  "clean (JObj kvs) = list_all (\<lambda>(k, v). skipped k
     \<or> (if k \<in> set CAT_TAGS then list_all (\<lambda>c. \<not> is_object c \<or> c \<noteq> JNull \<and> clean c) (items_of v)
        else no_elements v)) kvs"
| "clean (JArr vs) = list_all no_elements vs"
| "clean JNull = True" | "clean (JBool b) = True" | "clean (JNum n) = True" | "clean (JStr s) = True"
  by pat_completeness auto
termination
  by (relation "measure depth") (auto dest!: depth_items depth_entry)

lemma no_elements_items: "list_all no_elements (items_of v) = no_elements v"
  by (cases v) (simp_all add: items_of_def)

lemma index_not_cat: "digits_of_nat i \<notin> set CAT_TAGS \<and> \<not> skipped (digits_of_nat i)"
proof -
  have "digit (hd (digits_of_nat i))" for i
  proof (induction i rule: digits_of_nat.induct)
    case (1 n)
    then show ?case
      by (subst digits_of_nat.simps)
        (cases "digits_of_nat (n div 10)"; auto simp: digit_def digits_of_nat.simps [of "n div 10"] split: if_splits)
  qed
  from this [of i] show ?thesis
    by (cases "digits_of_nat i") (auto simp: digit_def CAT_TAGS_def skipped_def starts_with_def)
qed

lemma fold_err_all:
  assumes "fold_err f xs s = Inr t" "x \<in> set xs"
  shows "\<exists>u v. f x u = Inr v"
  using assms by (induction xs arbitrary: s) (auto split: sum.splits)

lemma fold_err_ok: "(\<And>x s. x \<in> set xs \<Longrightarrow> \<exists>t. f x s = Inr t) \<Longrightarrow> \<exists>t. fold_err f xs s = Inr t"
proof (induction xs arbitrary: s)
  case (Cons x xs)
  then obtain t where "f x s = Inr t" by (meson list.set_intros(1))
  with Cons show ?case by simp
qed simp

definition element_step :: "(nat \<Rightarrow> string) \<Rightarrow> nat \<Rightarrow> json option \<Rightarrow> string \<Rightarrow> json \<Rightarrow> walk_state \<Rightarrow> walk_error + walk_state" where
  \<comment> \<open>the body of the inner loop\<close>
  "element_step uuid frames parentId tag child st =
     (if \<not> is_object child then Inr st
      else if tag \<in> set CAT_TAGS then
        (if child = JNull then Inl TypeError
         else case cat_push uuid tag child parentId st of (i, st') \<Rightarrow> walkXml uuid frames child (Some i) st')
      else walkXml uuid frames (JObj [(tag, child)]) parentId st)"

lemma walkXml_Suc:
  "walkXml uuid (Suc frames) el parentId st =
     (if \<not> is_object el \<or> el = JNull then Inr st
      else fold_err (\<lambda>(tag, value) st. if skipped tag then Inr st
             else fold_err (element_step uuid frames parentId tag) (items_of value) st) (entries el) st)"
proof -
  have "element_step uuid frames parentId tag = (\<lambda>child st.
     if \<not> is_object child then Inr st
      else if tag \<in> set CAT_TAGS then
        (if child = JNull then Inl TypeError
         else case cat_push uuid tag child parentId st of (i, st') \<Rightarrow> walkXml uuid frames child (Some i) st')
      else walkXml uuid frames (JObj [(tag, child)]) parentId st)" for tag
    by (intro ext) (simp add: element_step_def)
  then show ?thesis by (simp only: walkXml.simps)
qed

declare walkXml.simps(2) [simp del]

definition child_readable :: "string \<Rightarrow> json \<Rightarrow> bool" where
  "child_readable tag c \<longleftrightarrow> (if tag \<in> set CAT_TAGS then \<not> is_object c \<or> c \<noteq> JNull \<and> clean c else no_elements c)"

lemma clean_entries:
  "clean el \<longleftrightarrow> \<not> is_object el \<or> el = JNull
     \<or> (\<forall>(tag, v) \<in> set (entries el). skipped tag \<or> (\<forall>c \<in> set (items_of v). child_readable tag c))"
proof (cases el)
  case (JArr vs)
  have "list_all no_elements vs \<longleftrightarrow> (\<forall>i < length vs. \<forall>c \<in> set (items_of (vs ! i)). no_elements c)"
    using no_elements_items unfolding list_all_length list_all_iff [symmetric] by metis
  with JArr show ?thesis
    by (auto simp: entries_def array_entries_def child_readable_def index_not_cat)
next
  case (JObj kvs)
  have m: "(if k \<in> set CAT_TAGS then list_all (\<lambda>c. \<not> is_object c \<or> c \<noteq> JNull \<and> clean c) (items_of v)
        else no_elements v) = (\<forall>c \<in> set (items_of v). child_readable k c)" for k v
    unfolding no_elements_items [symmetric, of v] by (simp add: list_all_iff child_readable_def)
  show ?thesis unfolding JObj clean.simps(1) m by (simp add: entries_def list_all_iff)
qed simp_all

lemma clean_wrapped: "tag \<notin> set CAT_TAGS \<Longrightarrow> \<not> skipped tag \<Longrightarrow> clean (JObj [(tag, c)]) = no_elements c"
  by (simp)

lemma depth_entries: "(tag, v) \<in> set (entries el) \<Longrightarrow> depth v < depth el"
proof (cases el)
  case (JArr vs)
  assume "(tag, v) \<in> set (entries el)"
  with JArr have "v \<in> set vs" by (auto simp: entries_def array_entries_def)
  with JArr depth_item show ?thesis by blast
next
  case (JObj kvs)
  assume "(tag, v) \<in> set (entries el)"
  with JObj have "(tag, v) \<in> set kvs" by (simp add: entries_def)
  with JObj depth_entry show ?thesis by blast
qed (simp_all add: entries_def)

lemma element_step_returns:
  assumes IH: "\<And>el par st. clean el \<Longrightarrow> depth el < n \<Longrightarrow> \<exists>t. walkXml uuid n el par st = Inr t"
    and r: "child_readable tag c" and d: "depth v < n" and c: "c \<in> set (items_of v)" and s: "\<not> skipped tag"
  shows "\<exists>t. element_step uuid n par tag c st = Inr t"
proof (cases "tag \<in> set CAT_TAGS")
  case True
  have "depth c < n" using depth_items [OF c] d by simp
  with True r IH show ?thesis
    by (auto simp: element_step_def child_readable_def split: prod.split)
next
  case False
  show ?thesis
  proof (cases "is_object c")
    case True
    with False r obtain vs where vs: "c = JArr vs" by (cases c) (auto simp: child_readable_def)
    have "depth c < depth v"
    proof (cases v)
      case (JArr ws)
      with c have "c \<in> set ws" by (simp add: items_of_def)
      with JArr depth_item show ?thesis by blast
    qed (use c vs in \<open>simp_all add: items_of_def\<close>)
    with d have "depth (JObj [(tag, c)]) < n" by simp
    with False r s IH clean_wrapped show ?thesis by (simp add: element_step_def child_readable_def)
  qed (simp add: element_step_def)
qed

lemma walk_returns: "clean el \<Longrightarrow> depth el < n \<Longrightarrow> \<exists>t. walkXml uuid n el par st = Inr t"
proof (induction n arbitrary: el par st)
  case (Suc n)
  show ?case
  proof (cases "\<not> is_object el \<or> el = JNull")
    case False
    { fix tag v and st
      assume e: "(tag, v) \<in> set (entries el)" "\<not> skipped tag"
      have "depth v < n" using depth_entries [OF e(1)] Suc.prems(2) by simp
      moreover have "child_readable tag c" if "c \<in> set (items_of v)" for c
        using Suc.prems(1) False e that unfolding clean_entries [of el] by auto
      ultimately have "\<exists>t. fold_err (element_step uuid n par tag) (items_of v) st = Inr t"
        using element_step_returns [OF Suc.IH] e(2) by (intro fold_err_ok) blast
    } with False show ?thesis unfolding walkXml_Suc by (auto intro!: fold_err_ok)
  qed (auto simp: walkXml_Suc)
qed simp

lemma element_step_readable:
  assumes IH: "\<And>el par st t. walkXml uuid n el par st = Inr t \<Longrightarrow> clean el"
    and r: "element_step uuid n par tag c st = Inr t" and s: "\<not> skipped tag"
  shows "child_readable tag c"
proof -
  consider "\<not> is_object c" | "is_object c" "tag \<in> set CAT_TAGS" | "is_object c" "tag \<notin> set CAT_TAGS" by blast
  then show ?thesis
  proof cases
    case 1
    then show ?thesis by (cases c) (simp_all add: child_readable_def)
  next
    case 2
    obtain i st' where p: "cat_push uuid tag c par st = (i, st')" by fastforce
    from 2 r have "c \<noteq> JNull" by (auto simp: element_step_def)
    with 2 r p have "walkXml uuid n c (Some i) st' = Inr t" by (simp add: element_step_def)
    from IH [OF this] \<open>c \<noteq> JNull\<close> 2 show ?thesis by (simp add: child_readable_def del: clean.simps)
  next
    case 3
    with r have "walkXml uuid n (JObj [(tag, c)]) par st = Inr t" by (simp add: element_step_def)
    from IH [OF this] 3 s show ?thesis by (simp add: clean_wrapped child_readable_def del: clean.simps)
  qed
qed

lemma walk_clean: "walkXml uuid n el par st = Inr t \<Longrightarrow> clean el"
proof (induction n arbitrary: el par st t)
  case (Suc n)
  show ?case
  proof (cases "\<not> is_object el \<or> el = JNull")
    case False
    with Suc.prems have f: "fold_err (\<lambda>(tag, value) st. if skipped tag then Inr st
        else fold_err (element_step uuid n par tag) (items_of value) st) (entries el) st = Inr t"
      by (simp add: walkXml_Suc)
    { fix tag v c
      assume e: "(tag, v) \<in> set (entries el)" "\<not> skipped tag" "c \<in> set (items_of v)"
      from fold_err_all [OF f e(1)] e(2) obtain a b where
        "fold_err (element_step uuid n par tag) (items_of v) a = Inr b" by auto
      from fold_err_all [OF this e(3)] obtain a b where "element_step uuid n par tag c a = Inr b" by blast
      from element_step_readable [OF Suc.IH this e(2)] have "child_readable tag c" .
    } then show ?thesis unfolding clean_entries [of el] by blast
  qed (subst clean_entries, simp)
qed simp

section \<open>The tree it builds\<close>

definition tree_ok :: "cat_node list \<Rightarrow> bool" where
  "tree_ok ns \<longleftrightarrow> (\<forall>xs x ys. ns = xs @ x # ys \<longrightarrow>
     (\<forall>p \<in> set (cn_parents x). \<exists>y \<in> set xs. cn_id y = p \<and> cn_type y = ''ASSEMBLY''))"

definition anchored :: "json option \<Rightarrow> json \<Rightarrow> cat_node list \<Rightarrow> bool" where
  "anchored par el ns \<longleftrightarrow> (truthy par \<and> has_kids el \<longrightarrow> (\<exists>y \<in> set ns. cn_id y = the par \<and> cn_type y = ''ASSEMBLY''))"

lemma tree_ok_snoc:
  "tree_ok (ns @ [n]) \<longleftrightarrow> tree_ok ns \<and> (\<forall>p \<in> set (cn_parents n). \<exists>y \<in> set ns. cn_id y = p \<and> cn_type y = ''ASSEMBLY'')"
proof -
  have "ns @ [n] = xs @ x # ys \<longleftrightarrow> ys = [] \<and> xs = ns \<and> x = n \<or> (\<exists>zs. ys = zs @ [n] \<and> ns = xs @ x # zs)" for xs x ys
    by (cases ys rule: rev_cases) auto
  then show ?thesis unfolding tree_ok_def by (auto simp: ball_conj_distrib)
qed

lemma fold_err_inv:
  assumes "fold_err f xs s = Inr t" "P s" "\<And>x u v. x \<in> set xs \<Longrightarrow> P u \<Longrightarrow> f x u = Inr v \<Longrightarrow> P v"
  shows "P t"
  using assms
proof (induction xs arbitrary: s)
  case (Cons x xs)
  from Cons.prems(1) obtain u where u: "f x s = Inr u" "fold_err f xs u = Inr t" by (auto split: sum.splits)
  from Cons.prems(3) [OF _ Cons.prems(2) u(1)] Cons.IH [OF u(2)] Cons.prems(3) show ?case by auto
qed simp

definition grows :: "cat_node list \<Rightarrow> cat_node list \<Rightarrow> bool" where
  "grows a b \<longleftrightarrow> tree_ok b \<and> (\<exists>new. b = a @ new)"

lemma grows_trans: "grows a b \<Longrightarrow> grows b c \<Longrightarrow> grows a c"
  by (auto simp: grows_def)

lemma anchored_grows: "anchored par el a \<Longrightarrow> grows a b \<Longrightarrow> anchored par el b"
  by (auto simp: anchored_def grows_def)

lemma has_kidsI: "(tag, v) \<in> set (entries el) \<Longrightarrow> \<not> skipped tag \<Longrightarrow> tag \<in> set CAT_TAGS \<Longrightarrow> has_kids el"
  by (force simp: has_kids_def list_ex_iff)

lemma cat_push_grows:
  assumes "cat_push uuid tag child par st = (i, st')" "tree_ok (out st)"
    and "truthy par \<Longrightarrow> \<exists>y \<in> set (out st). cn_id y = the par \<and> cn_type y = ''ASSEMBLY''"
  shows "grows (out st) (out st')" "anchored (Some i) child (out st')"
proof -
  from assms(1) obtain n where n: "out st' = out st @ [n]" "cn_id n = i"
      "cn_type n = (if has_kids child then ''ASSEMBLY'' else ''PART'')"
      "cn_parents n = (if truthy par then [the par] else [])"
    by (auto simp: cat_push_def Let_def)
  show "grows (out st) (out st')" using n assms(2,3) by (simp add: grows_def tree_ok_snoc)
  show "anchored (Some i) child (out st')" using n by (simp add: anchored_def)
qed

lemma element_step_grows:
  assumes IH: "\<And>el par st t. walkXml uuid n el par st = Inr t \<Longrightarrow> tree_ok (out st) \<Longrightarrow> anchored par el (out st) \<Longrightarrow>
        grows (out st) (out t)"
    and r: "element_step uuid n par tag c st = Inr t" and ok: "tree_ok (out st)"
    and an: "anchored par el (out st)" and e: "(tag, v) \<in> set (entries el)" "\<not> skipped tag"
  shows "grows (out st) (out t)"
proof -
  consider "\<not> is_object c" | "is_object c" "tag \<in> set CAT_TAGS" | "is_object c" "tag \<notin> set CAT_TAGS" by blast
  then show ?thesis
  proof cases
    case 1
    with r ok show ?thesis by (simp add: element_step_def grows_def)
  next
    case 2
    obtain i st' where p: "cat_push uuid tag c par st = (i, st')" by fastforce
    from 2 r p have w: "walkXml uuid n c (Some i) st' = Inr t" by (auto simp: element_step_def split: if_splits)
    have "truthy par \<Longrightarrow> \<exists>y \<in> set (out st). cn_id y = the par \<and> cn_type y = ''ASSEMBLY''"
      using an has_kidsI [OF e 2(2)] by (simp add: anchored_def)
    from cat_push_grows [OF p ok this] have g: "grows (out st) (out st')" "anchored (Some i) c (out st')" by auto
    from IH [OF w _ g(2)] g(1) show ?thesis using grows_trans by (auto simp: grows_def)
  next
    case 3
    with r have w: "walkXml uuid n (JObj [(tag, c)]) par st = Inr t" by (simp add: element_step_def)
    have "anchored par (JObj [(tag, c)]) (out st)"
      using 3 e by (simp add: anchored_def has_kids_def entries_def obj_entries_def)
    from IH [OF w ok this] show ?thesis .
  qed
qed

lemma walk_grows:
  "walkXml uuid n el par st = Inr t \<Longrightarrow> tree_ok (out st) \<Longrightarrow> anchored par el (out st) \<Longrightarrow> grows (out st) (out t)"
proof (induction n arbitrary: el par st t)
  case (Suc n)
  have st: "grows (out st) (out st)" using Suc.prems(2) by (simp add: grows_def)
  show ?case
  proof (cases "\<not> is_object el \<or> el = JNull")
    case True
    with Suc.prems(1) st show ?thesis by (auto simp: walkXml_Suc)
  next
    case False
    with Suc.prems(1) have f: "fold_err (\<lambda>(tag, value) st. if skipped tag then Inr st
        else fold_err (element_step uuid n par tag) (items_of value) st) (entries el) st = Inr t"
      by (simp add: walkXml_Suc)
    have step: "grows (out st) (out b)"
      if "(tag, v) \<in> set (entries el)" "\<not> skipped tag" "grows (out st) (out a)" "element_step uuid n par tag c a = Inr b"
      for tag v c a b
      using element_step_grows [OF Suc.IH that(4) _ anchored_grows [OF Suc.prems(3) that(3)] that(1,2)] that(3)
        grows_trans by (auto simp: grows_def)
    show ?thesis
    proof (rule fold_err_inv [OF f, of "\<lambda>u. grows (out st) (out u)", OF st])
      fix x u v
      assume x: "x \<in> set (entries el)" and u: "grows (out st) (out u)"
        and v: "(case x of (tag, value) \<Rightarrow> \<lambda>st. if skipped tag then Inr st
          else fold_err (element_step uuid n par tag) (items_of value) st) u = Inr v"
      obtain tag w where tv: "x = (tag, w)" by fastforce
      show "grows (out st) (out v)"
      proof (cases "skipped tag")
        case True
        with v tv u show ?thesis by simp
      next
        case False
        with v tv have "fold_err (element_step uuid n par tag) (items_of w) u = Inr v" by simp
        from fold_err_inv [OF this, of "\<lambda>u. grows (out st) (out u)", OF u] step x tv False show ?thesis by blast
      qed
    qed
  qed
qed simp

section \<open>What the endpoint gets\<close>

text \<open>C14. The reader returns nodes, with enough stack, exactly for the documents that the XML parser
  accepts and in which every element carries one of the known tags; for every other document it fails
  whatever the stack size.\<close>

theorem parseCatiaProduct_reads:
  "(\<exists>frames nodes. parseCatiaProduct xml_parse uuid frames xml = Inr nodes)
     = (\<exists>doc. xml_parse xml = Inr doc \<and> clean doc)"
proof (cases "xml_parse xml")
  case (Inr doc)
  have "(\<exists>frames st. walkXml uuid frames doc None \<lparr>out = [], drawn = 0\<rparr> = Inr st) = clean doc"
    using walk_clean walk_returns [OF _ lessI] by blast
  moreover have "(\<exists>nodes. parseCatiaProduct xml_parse uuid frames xml = Inr nodes)
      = (\<exists>st. walkXml uuid frames doc None \<lparr>out = [], drawn = 0\<rparr> = Inr st)" for frames
    using Inr by (auto simp: parseCatiaProduct_def split: sum.split)
  ultimately show ?thesis using Inr by simp
qed (simp add: parseCatiaProduct_def)

text \<open>A document that starts with an XML declaration is never read: the parser hands the
  declaration over as an object under the tag \<open>?xml\<close>, which the reader wraps and visits again until
  the stack is full.\<close>

theorem parseCatiaProduct_declaration:
  "parseCatiaProduct (\<lambda>_. Inr (JObj ((''?xml'', JObj attributes) # elements))) uuid frames xml \<noteq> Inr nodes"
proof
  assume "parseCatiaProduct (\<lambda>_. Inr (JObj ((''?xml'', JObj attributes) # elements))) uuid frames xml = Inr nodes"
  then have "clean (JObj ((''?xml'', JObj attributes) # elements))"
    using parseCatiaProduct_reads [of "\<lambda>_. Inr (JObj ((''?xml'', JObj attributes) # elements))"] by blast
  then show False by (simp add: skipped_def starts_with_def CAT_TAGS_def)
qed

text \<open>In the answer every parent identifier belongs to an earlier node, which is an assembly.\<close>

theorem parseCatiaProduct_tree:
  assumes "parseCatiaProduct xml_parse uuid frames xml = Inr nodes"
  shows "nodes \<noteq> [] \<and> (\<forall>xs x ys p. nodes = xs @ x # ys \<longrightarrow> p \<in> set (cn_parents x) \<longrightarrow>
    (\<exists>y \<in> set xs. cn_id y = p \<and> cn_type y = ''ASSEMBLY''))"
proof -
  from assms obtain doc st where st: "walkXml uuid frames doc None \<lparr>out = [], drawn = 0\<rparr> = Inr st"
    and n: "nodes = (if out st = [] then [unknown_part uuid (drawn st)] else out st)"
    by (auto simp: parseCatiaProduct_def split: sum.splits)
  have "tree_ok (out st)"
    using walk_grows [OF st] by (simp add: tree_ok_def anchored_def grows_def)
  moreover have "tree_ok [unknown_part uuid k]" for k
    using tree_ok_snoc [of "[]" "unknown_part uuid k"] by (simp add: unknown_part_def tree_ok_def)
  ultimately have "tree_ok nodes" using n by simp
  with n show ?thesis unfolding tree_ok_def by (auto split: if_splits)
qed

definition sample_doc :: json where
  "sample_doc = JObj [(''Product'', JObj [(''@_id'', JStr ''p1''),
     (''Node'', JArr [JObj [(''@_id'', JStr ''n1''), (''@_name'', JStr ''bolt'')], JStr ''text'']) ])]"

lemma sample_nodes:
  "parseCatiaProduct (\<lambda>_. Inr sample_doc) (\<lambda>n. ''u'') 4 [] = Inr
     [\<lparr>cn_id = JStr ''p1'', cn_name = JStr ''Product'', cn_type = ''ASSEMBLY'', cn_parents = [], cn_attributes = []\<rparr>,
      \<lparr>cn_id = JStr ''n1'', cn_name = JStr ''bolt'', cn_type = ''PART'', cn_parents = [JStr ''p1''], cn_attributes = []\<rparr>]"
  by code_simp

theorem parseCatiaProduct_tree_witness:
  "\<exists>nodes. parseCatiaProduct (\<lambda>_. Inr sample_doc) (\<lambda>n. ''u'') 4 [] = Inr nodes \<and> length nodes = 2
     \<and> (\<forall>xs x ys p. nodes = xs @ x # ys \<longrightarrow> p \<in> set (cn_parents x) \<longrightarrow>
         (\<exists>y \<in> set xs. cn_id y = p \<and> cn_type y = ''ASSEMBLY''))"
  using parseCatiaProduct_tree [OF sample_nodes] sample_nodes by simp

end
