(* ===== verification/ApiStats.thy ===== *)
theory ApiStats
  imports Prelude Complex_Main
begin

text \<open>
  The call statistics of the browser client, \<open>frontend/src/services/apiStats.js\<close>: a rolling window
  of samples, the aggregation per method and endpoint, and the percentiles. Durations and times are
  rational numbers of milliseconds; the rounding of floating-point sums is not modelled. The
  subscribers of the module hold no data and are not modelled.
\<close>

section \<open>Endpoint names\<close>

definition hex_char :: "char \<Rightarrow> bool" where
  \<comment> \<open>\<open>[0-9a-f]\<close> with the flag \<open>i\<close>\<close>
  "hex_char c \<longleftrightarrow> (let n = of_char c :: nat in 48 \<le> n \<and> n \<le> 57 \<or> 65 \<le> n \<and> n \<le> 70 \<or> 97 \<le> n \<and> n \<le> 102)"

fun match_hex :: "nat \<Rightarrow> string \<Rightarrow> string option" where
  "match_hex 0 s = Some s"
| "match_hex (Suc n) (c # s) = (if hex_char c then match_hex n s else None)"
| "match_hex (Suc n) [] = None"

fun match_lit :: "string \<Rightarrow> string \<Rightarrow> string option" where
  "match_lit [] s = Some s"
| "match_lit (p # ps) (c # s) = (if p = c then match_lit ps s else None)"
| "match_lit (p # ps) [] = None"

fun match_groups :: "nat list \<Rightarrow> string \<Rightarrow> string option" where
  "match_groups [] s = Some s"
| "match_groups [n] s = match_hex n s"
| "match_groups (n # m # ns) s =
     Option.bind (match_hex n s) (\<lambda>s. Option.bind (match_lit ''-'' s) (match_groups (m # ns)))"

definition match_uuid :: "string \<Rightarrow> string option" where
  \<comment> \<open>\<open>UUID_RE\<close> at the start of the text: the text after the match\<close>
  "match_uuid s = Option.bind (match_lit ''/'' s) (match_groups [8, 4, 4, 4, 12])"

definition match_num :: "string \<Rightarrow> string option" where
  \<comment> \<open>\<open>NUM_RE\<close>: as many digits as there are, then a slash or the end\<close>
  "match_num s = Option.bind (match_lit ''/'' s) (\<lambda>s.
     let ds = takeWhile digit s; r = dropWhile digit s
     in if ds \<noteq> [] \<and> (r = [] \<or> hd r = CHR ''/'') then Some r else None)"

function replace_all :: "(string \<Rightarrow> string option) \<Rightarrow> string \<Rightarrow> string \<Rightarrow> string" where
  \<comment> \<open>\<open>s.replace(re, t)\<close> with the flag \<open>g\<close>\<close>
  "replace_all m t [] = []"
| "replace_all m t (c # s) =
     (case m (c # s) of
        Some r \<Rightarrow> if length r < length (c # s) then t @ replace_all m t r else c # replace_all m t s
      | None \<Rightarrow> c # replace_all m t s)"
  by pat_completeness auto
termination
  by (relation "measure (\<lambda>(_, _, s). length s)") auto

definition normalizeEndpoint :: "string \<Rightarrow> string" where
  "normalizeEndpoint fullPath =
     replace_all match_num ''/{n}'' (replace_all match_uuid ''/{id}'' (hd (split_on (CHR ''?'') fullPath)))"

section \<open>The window\<close>

definition MAX_SAMPLES :: nat where "MAX_SAMPLES = 500"

record sample =
  s_method :: string
  s_endpoint :: string
  s_status :: int
  s_durationMs :: rat
  s_ok :: bool
  s_at :: rat

definition recordApiCall :: "sample \<Rightarrow> sample list \<Rightarrow> sample list" where
  \<comment> \<open>the sample carries the endpoint as called and the time of the call\<close>
  "recordApiCall s samples =
     (let pushed = samples @ [s\<lparr>s_endpoint := normalizeEndpoint (s_endpoint s)\<rparr>]
      in if length pushed > MAX_SAMPLES then tl pushed else pushed)"

definition resetApiStats :: "sample list" where
  "resetApiStats = []"

section \<open>Aggregation\<close>

definition percentile :: "rat list \<Rightarrow> rat \<Rightarrow> rat" where
  "percentile srt p = (if srt = [] then 0
     else srt ! min (length srt - 1) (nat \<lfloor>of_nat (length srt) * p\<rfloor>))"

record stat_entry =
  e_method :: string
  e_endpoint :: string
  e_durations :: "rat list"
  e_errorCount :: nat
  e_lastMs :: rat
  e_lastAt :: rat

definition stat_key :: "sample \<Rightarrow> string" where
  "stat_key s = s_method s @ '' '' @ s_endpoint s"

definition add_sample :: "sample \<Rightarrow> (string \<times> stat_entry) list \<Rightarrow> (string \<times> stat_entry) list" where
  \<comment> \<open>one turn of the first loop of \<open>getApiStats\<close>; a \<open>Map\<close> keeps the order of insertion\<close>
  "add_sample s byKey =
     (let e = (case map_of byKey (stat_key s) of Some e \<Rightarrow> e
        | None \<Rightarrow> \<lparr>e_method = s_method s, e_endpoint = s_endpoint s, e_durations = [], e_errorCount = 0, e_lastMs = 0, e_lastAt = 0\<rparr>)
      in AList.update (stat_key s)
           (e\<lparr>e_durations := e_durations e @ [s_durationMs s], e_errorCount := e_errorCount e + (if s_ok s then 0 else 1),
              e_lastMs := s_durationMs s, e_lastAt := s_at s\<rparr>) byKey)"

record endpoint_stat =
  b_method :: string
  b_endpoint :: string
  b_count :: nat
  b_avgMs :: rat
  b_p50 :: rat
  b_p95 :: rat
  b_maxMs :: rat
  b_lastMs :: rat
  b_lastAt :: rat
  b_errorCount :: nat

definition endpoint_stat_of :: "stat_entry \<Rightarrow> endpoint_stat" where
  "endpoint_stat_of e =
     (let srt = sort (e_durations e)
      in \<lparr>b_method = e_method e, b_endpoint = e_endpoint e, b_count = length (e_durations e),
          b_avgMs = sum_list (e_durations e) / of_nat (length (e_durations e)),
          b_p50 = percentile srt (1/2), b_p95 = percentile srt (95/100), b_maxMs = last srt,
          b_lastMs = e_lastMs e, b_lastAt = e_lastAt e, b_errorCount = e_errorCount e\<rparr>)"

record overall_stat =
  total :: nat
  windowSize :: nat
  avgMs :: rat
  p50 :: rat
  p75 :: rat
  p90 :: rat
  p95 :: rat
  p99 :: rat
  maxMs :: rat
  errorCount :: nat
  sorted_ms :: "rat list"

definition getApiStats :: "sample list \<Rightarrow> overall_stat \<times> endpoint_stat list" where
  "getApiStats samples =
     (let byEndpoint = map (\<lambda>(_, e). endpoint_stat_of e) (fold add_sample samples []);
          al = sort (map s_durationMs samples)
      in (\<lparr>total = length samples, windowSize = MAX_SAMPLES,
           avgMs = (if al = [] then 0 else sum_list al / of_nat (length al)),
           p50 = percentile al (1/2), p75 = percentile al (75/100), p90 = percentile al (90/100),
           p95 = percentile al (95/100), p99 = percentile al (99/100),
           maxMs = (if al = [] then 0 else last al),
           errorCount = length (filter (\<lambda>s. \<not> s_ok s) samples), sorted_ms = al\<rparr>,
          sort_key (\<lambda>b. - int (b_count b)) byEndpoint))"

record window_stat =
  w_windowMs :: rat
  w_count :: nat
  w_avgMs :: rat
  w_p50 :: rat
  w_p95 :: rat
  w_maxMs :: rat
  w_errorCount :: nat

definition getWindowStats :: "rat \<Rightarrow> rat \<Rightarrow> sample list \<Rightarrow> window_stat" where
  \<comment> \<open>\<open>now\<close> is \<open>Date.now()\<close>\<close>
  "getWindowStats now windowMs samples =
     (let window = filter (\<lambda>s. s_at s \<ge> now - windowMs) samples;
          durations = sort (map s_durationMs window)
      in \<lparr>w_windowMs = windowMs, w_count = length window,
          w_avgMs = (if durations = [] then 0 else sum_list durations / of_nat (length durations)),
          w_p50 = percentile durations (1/2), w_p95 = percentile durations (95/100),
          w_maxMs = (if durations = [] then 0 else last durations),
          w_errorCount = length (filter (\<lambda>s. \<not> s_ok s) window)\<rparr>)"

section \<open>Facts\<close>

lemma record_window:
  assumes "window = drop (length h - MAX_SAMPLES) h"
  shows "recordApiCall s window =
    drop (length (h @ [s\<lparr>s_endpoint := normalizeEndpoint (s_endpoint s)\<rparr>]) - MAX_SAMPLES) (h @ [s\<lparr>s_endpoint := normalizeEndpoint (s_endpoint s)\<rparr>])"
proof (cases "length h < MAX_SAMPLES")
  case True
  with assms show ?thesis by (simp add: recordApiCall_def)
next
  case False
  then have "length window = MAX_SAMPLES" "window \<noteq> []" using assms by (auto simp: MAX_SAMPLES_def)
  moreover have "tl window = drop (Suc (length h) - MAX_SAMPLES) h"
    using False assms by (simp add: tl_drop drop_Suc Suc_diff_le)
  ultimately show ?thesis using False by (simp add: recordApiCall_def MAX_SAMPLES_def)
qed

lemma percentile_mono:
  assumes "sorted xs" "p \<le> q" "0 \<le> p"
  shows "percentile xs p \<le> percentile xs q"
proof (cases "xs = []")
  case False
  have "of_nat (length xs) * p \<le> of_nat (length xs) * q" using assms(2) by (simp add: mult_left_mono)
  then have "nat \<lfloor>of_nat (length xs) * p\<rfloor> \<le> nat \<lfloor>of_nat (length xs) * q\<rfloor>" by (intro nat_mono floor_mono)
  then have "min (length xs - 1) (nat \<lfloor>of_nat (length xs) * p\<rfloor>) \<le> min (length xs - 1) (nat \<lfloor>of_nat (length xs) * q\<rfloor>)" by simp
  moreover have "min (length xs - 1) (nat \<lfloor>of_nat (length xs) * q\<rfloor>) < length xs" using False by (cases xs) auto
  ultimately show ?thesis using False assms(1) by (simp add: percentile_def sorted_nth_mono)
qed (simp add: percentile_def)

lemma percentile_le_last: "sorted xs \<Longrightarrow> xs \<noteq> [] \<Longrightarrow> percentile xs p \<le> last xs"
  by (auto simp: percentile_def last_conv_nth intro!: sorted_nth_mono)

definition entry_total :: "(string \<times> stat_entry) list \<Rightarrow> nat" where
  "entry_total es = sum_list (map (\<lambda>(_, e). length (e_durations e)) es)"

definition entry_errors :: "(string \<times> stat_entry) list \<Rightarrow> nat" where
  "entry_errors es = sum_list (map (\<lambda>(_, e). e_errorCount e) es)"

lemma update_sum:
  fixes f :: "'v \<Rightarrow> nat"
  shows "sum_list (map (\<lambda>(_, v). f v) (AList.update k v es)) + (case map_of es k of Some w \<Rightarrow> f w | None \<Rightarrow> 0)
   = sum_list (map (\<lambda>(_, v). f v) es) + f v"
  by (induction es) (auto split: option.splits)

lemma add_sample_totals:
  "entry_total (add_sample s es) = Suc (entry_total es) \<and>
   entry_errors (add_sample s es) = (if s_ok s then entry_errors es else Suc (entry_errors es))"
proof -
  define old where "old = (case map_of es (stat_key s) of Some e \<Rightarrow> e
    | None \<Rightarrow> \<lparr>e_method = s_method s, e_endpoint = s_endpoint s, e_durations = [], e_errorCount = 0, e_lastMs = 0, e_lastAt = 0\<rparr>)"
  define new where "new = old\<lparr>e_durations := e_durations old @ [s_durationMs s], e_errorCount := e_errorCount old + (if s_ok s then 0 else 1),
    e_lastMs := s_durationMs s, e_lastAt := s_at s\<rparr>"
  have a: "add_sample s es = AList.update (stat_key s) new es" by (simp add: add_sample_def old_def new_def Let_def)
  have o: "(case map_of es (stat_key s) of Some w \<Rightarrow> length (e_durations w) | None \<Rightarrow> 0) = length (e_durations old)"
    "(case map_of es (stat_key s) of Some w \<Rightarrow> e_errorCount w | None \<Rightarrow> 0) = e_errorCount old"
    by (auto simp: old_def split: option.split)
  show ?thesis
    using update_sum [of "\<lambda>e. length (e_durations e)" "stat_key s" new es] update_sum [of e_errorCount "stat_key s" new es]
    unfolding a o entry_total_def entry_errors_def by (auto simp: new_def)
qed

lemma fold_totals:
  "entry_total (fold add_sample ss es) = length ss + entry_total es \<and>
   entry_errors (fold add_sample ss es) = length (filter (\<lambda>s. \<not> s_ok s) ss) + entry_errors es"
  by (induction ss arbitrary: es) (auto simp: add_sample_totals)

text \<open>The statistics are those of the last 500 calls: whatever calls were recorded, the window is
  the tail of the history; the per-endpoint counts and error counts of the report add up to the
  overall ones, and the percentiles are in order.\<close>

theorem getApiStats_consistent:
  fixes calls :: "sample list"
  defines "h \<equiv> map (\<lambda>s. s\<lparr>s_endpoint := normalizeEndpoint (s_endpoint s)\<rparr>) calls"
  shows "fold recordApiCall calls resetApiStats = drop (length h - MAX_SAMPLES) h
    \<and> (case getApiStats (fold recordApiCall calls resetApiStats) of (ov, per) \<Rightarrow>
         total ov = min (length calls) MAX_SAMPLES
         \<and> sum_list (map b_count per) = total ov \<and> sum_list (map b_errorCount per) = errorCount ov
         \<and> p50 ov \<le> p75 ov \<and> p75 ov \<le> p90 ov \<and> p90 ov \<le> p95 ov \<and> p95 ov \<le> p99 ov \<and> p99 ov \<le> maxMs ov)"
proof -
  have w: "fold recordApiCall calls resetApiStats = drop (length h - MAX_SAMPLES) h"
    if "h = map (\<lambda>s. s\<lparr>s_endpoint := normalizeEndpoint (s_endpoint s)\<rparr>) calls" for calls h
    using that
  proof (induction calls arbitrary: h rule: rev_induct)
    case (snoc s calls)
    from record_window [OF snoc.IH [OF refl], of s] snoc.prems show ?case by simp
  qed (simp add: resetApiStats_def)
  let ?w = "fold recordApiCall calls resetApiStats"
  have len: "length ?w = min (length calls) MAX_SAMPLES" using w [OF refl, of calls] by simp
  have sums: "sum_list (map f (sort_key g xs)) = sum_list (map f xs)" for f :: "endpoint_stat \<Rightarrow> nat" and g :: "_ \<Rightarrow> int" and xs
    by (metis mset_map mset_sort sum_mset_sum_list)
  have "map b_count (map (\<lambda>(_, e). endpoint_stat_of e) es) = map (\<lambda>(_, e). length (e_durations e)) es"
    "map b_errorCount (map (\<lambda>(_, e). endpoint_stat_of e) es) = map (\<lambda>(_, e). e_errorCount e) es" for es :: "(string \<times> stat_entry) list"
    by (auto simp: endpoint_stat_of_def Let_def)
  note counts = this [of "fold add_sample ?w []"]
  have z: "percentile [] p = 0" for p by (simp add: percentile_def)
  have "case getApiStats ?w of (ov, per) \<Rightarrow>
         total ov = min (length calls) MAX_SAMPLES
         \<and> sum_list (map b_count per) = total ov \<and> sum_list (map b_errorCount per) = errorCount ov"
    using fold_totals [of ?w "[]"] len
    unfolding getApiStats_def Let_def entry_total_def entry_errors_def by (simp only: sums counts split_conv) simp
  moreover have "case getApiStats ?w of (ov, per) \<Rightarrow>
         p50 ov \<le> p75 ov \<and> p75 ov \<le> p90 ov \<and> p90 ov \<le> p95 ov \<and> p95 ov \<le> p99 ov \<and> p99 ov \<le> maxMs ov"
    unfolding getApiStats_def Let_def
    by (simp add: percentile_mono percentile_le_last z)
  ultimately show ?thesis using w [OF refl, of calls] unfolding h_def by auto
qed

end
