(* ===== verification/ApiClient.thy ===== *)
theory ApiClient
  imports JsValue ApiStats
begin

text \<open>
  The request core of the browser client, \<open>frontend/src/services/api.js\<close>: session token and project
  space, the timed fetch, the two request functions with their silent re-login, the error path with
  its banner and its modal, and the list helpers. The network is the parameter \<open>net\<close>: what it answers
  to a request after the requests sent before. The handlers that \<open>App.jsx\<close> installs are modelled as
  that file writes them: the error handler shows a toast, the expiry handler logs the user in again.
  Calls are modelled one at a time.
\<close>

section \<open>Requests and answers\<close>

datatype payload = NoBody | JsonBody json | FormBody "(string \<times> json) list"

record http_request =
  rq_method :: string
  rq_url :: string
  rq_headers :: "(string \<times> string) list"
  rq_body :: payload

datatype body_text = EmptyText | JsonText json | OtherText string   \<comment> \<open>nothing, JSON, anything else\<close>

record response =
  r_status :: int
  r_statusText :: string
  r_text :: body_text
  r_took :: rat

datatype outcome = NetworkFailure rat | Reply response

type_synonym network = "http_request list \<Rightarrow> http_request \<Rightarrow> outcome"

datatype error_kind = PlainError | ApiErrorKind | NetworkErrorKind | SyntaxErrorKind | TypeErrorKind

record thrown =
  t_kind :: error_kind
  t_status :: "int option"
  t_message :: string
  t_detail :: "json option"

record client =
  sessionToken :: "json option"
  projectSpaceId :: "json option"
  onErrorSet :: bool
  authExpired :: "string option"       \<comment> \<open>the user the installed handler logs in again\<close>
  backendDown :: bool
  polling :: bool
  reloaded :: bool
  samples :: "sample list"
  clock :: rat
  sent :: "http_request list"
  modals :: "thrown list"              \<comment> \<open>errors handed to \<open>_onError\<close>\<close>

definition r_ok :: "response \<Rightarrow> bool" where
  "r_ok r \<longleftrightarrow> 200 \<le> r_status r \<and> r_status r < 300"

definition plain :: "string \<Rightarrow> thrown" where
  "plain msg = \<lparr>t_kind = PlainError, t_status = None, t_message = msg, t_detail = None\<rparr>"

definition type_error :: thrown where
  "type_error = \<lparr>t_kind = TypeErrorKind, t_status = None, t_message = [], t_detail = None\<rparr>"

definition syntax_error :: thrown where
  "syntax_error = \<lparr>t_kind = SyntaxErrorKind, t_status = None, t_message = [], t_detail = None\<rparr>"

definition network_error :: thrown where
  "network_error = \<lparr>t_kind = NetworkErrorKind, t_status = None, t_message = ''Failed to fetch'', t_detail = None\<rparr>"

definition serviceBase :: "string \<Rightarrow> string" where
  "serviceBase svc = ''/api/'' @ svc"

definition BASE_PLATFORM :: string where "BASE_PLATFORM = ''/api/platform''"

definition bearer :: "client \<Rightarrow> (string \<times> string) list" where
  \<comment> \<open>\<open>if (_sessionToken) h['Authorization'] = ...\<close>\<close>
  "bearer c = (if truthy (sessionToken c) then [(''Authorization'', ''Bearer '' @ opt_string (sessionToken c))] else [])"

definition timedFetch :: "network \<Rightarrow> http_request \<Rightarrow> client \<Rightarrow> outcome \<times> client" where
  "timedFetch net rq c =
     (let res = net (sent c) rq;
          took = (case res of NetworkFailure d \<Rightarrow> d | Reply r \<Rightarrow> r_took r);
          c1 = c\<lparr>sent := sent c @ [rq], clock := clock c + took\<rparr>;
          smp = \<lparr>s_method = rq_method rq, s_endpoint = hd (split_on (CHR ''?'') (rq_url rq)),
                 s_status = (case res of NetworkFailure _ \<Rightarrow> 0 | Reply r \<Rightarrow> r_status r), s_durationMs = took,
                 s_ok = (case res of NetworkFailure _ \<Rightarrow> False | Reply r \<Rightarrow> r_ok r), s_at = clock c1\<rparr>
      in (res, c1\<lparr>samples := recordApiCall smp (samples c1)\<rparr>))"

definition res_json :: "response \<Rightarrow> thrown + json" where
  \<comment> \<open>\<open>await res.json()\<close>\<close>
  "res_json r = (case r_text r of JsonText j \<Rightarrow> Inr j | _ \<Rightarrow> Inl syntax_error)"

definition json_or_null :: "response \<Rightarrow> json" where
  \<comment> \<open>\<open>await res.json().catch(() => null)\<close>\<close>
  "json_or_null r = (case r_text r of JsonText j \<Rightarrow> j | _ \<Rightarrow> JNull)"

definition parse_text :: "response \<Rightarrow> thrown + json" where
  \<comment> \<open>\<open>text ? JSON.parse(text) : null\<close>\<close>
  "parse_text r = (case r_text r of EmptyText \<Rightarrow> Inr JNull | JsonText j \<Rightarrow> Inr j | OtherText _ \<Rightarrow> Inl syntax_error)"

section \<open>Logging in\<close>

definition error_payload :: "response \<Rightarrow> json" where
  \<comment> \<open>\<open>res.json().catch(() => ({ error: res.statusText }))\<close>\<close>
  "error_payload r = (case r_text r of JsonText j \<Rightarrow> j | _ \<Rightarrow> JObj [(''error'', JStr (r_statusText r))])"

definition http_text :: "response \<Rightarrow> json option" where
  "http_text r = Some (JStr (''HTTP '' @ digits_of_int (r_status r)))"

definition login_error :: "response \<Rightarrow> thrown" where
  "login_error r = (if error_payload r = JNull then type_error
     else plain (opt_string (js_or (jprop (Some (error_payload r)) ''error'') (http_text r))))"

definition adopt_session :: "json \<Rightarrow> client \<Rightarrow> client" where
  \<comment> \<open>\<open>_sessionToken = body.token; if (body.projectSpaceId) _projectSpaceId = body.projectSpaceId\<close>\<close>
  "adopt_session body c =
     (let c1 = c\<lparr>sessionToken := jprop (Some body) ''token''\<rparr>; ps = jprop (Some body) ''projectSpaceId''
      in if truthy ps then c1\<lparr>projectSpaceId := ps\<rparr> else c1)"

definition login :: "network \<Rightarrow> string \<Rightarrow> client \<Rightarrow> (thrown + json) \<times> client" where
  "login net userId c =
     (case timedFetch net \<lparr>rq_method = ''POST'', rq_url = ''/api/spe/auth/login'', rq_headers = [(''X-User'', userId)],
         rq_body = NoBody\<rparr> c of
        (NetworkFailure _, c) \<Rightarrow> (Inl network_error, c)
      | (Reply r, c) \<Rightarrow>
          if \<not> r_ok r then (Inl (login_error r), c)
          else (case res_json r of Inl e \<Rightarrow> (Inl e, c)
                | Inr body \<Rightarrow> if body = JNull then (Inl type_error, c) else (Inr body, adopt_session body c)))"

definition switchProject :: "network \<Rightarrow> string \<Rightarrow> client \<Rightarrow> (thrown + json option) \<times> client" where
  "switchProject net ps c =
     (case timedFetch net \<lparr>rq_method = ''POST'', rq_url = ''/api/spe/auth/switch-project'',
         rq_headers = [(''Authorization'', ''Bearer '' @ (case sessionToken c of None \<Rightarrow> ''null'' | Some t \<Rightarrow> js_string t)),
           (''Content-Type'', ''application/json'')],
         rq_body = JsonBody (JObj [(''projectSpaceId'', JStr ps)])\<rparr> c of
        (NetworkFailure _, c) \<Rightarrow> (Inl network_error, c)
      | (Reply r, c) \<Rightarrow>
          if \<not> r_ok r then
            (Inl (if error_payload r = JNull then type_error
                  else (plain (opt_string (js_or (js_or (jprop (Some (error_payload r)) ''error'')
                          (jprop (Some (error_payload r)) ''message'')) (http_text r))))\<lparr>t_status := Some (r_status r)\<rparr>), c)
          else (case res_json r of Inl e \<Rightarrow> (Inl e, c)
                | Inr body \<Rightarrow> if body = JNull then (Inl type_error, c)
                    else (Inr (jprop (Some body) ''projectSpaceId''), adopt_session body c)))"

definition logout :: "network \<Rightarrow> client \<Rightarrow> client" where
  "logout net c =
     (let token = sessionToken c; c1 = c\<lparr>sessionToken := None\<rparr>
      in if \<not> truthy token then c1
         else snd (timedFetch net \<lparr>rq_method = ''POST'', rq_url = ''/api/spe/auth/logout'',
                rq_headers = [(''Authorization'', ''Bearer '' @ opt_string token)], rq_body = NoBody\<rparr> c1))"

definition auth_expired :: "network \<Rightarrow> string \<Rightarrow> client \<Rightarrow> json option \<times> client" where
  \<comment> \<open>the handler of \<open>App.jsx\<close>: \<open>try { return (await authApi.login(userId)).token } catch { return null }\<close>\<close>
  "auth_expired net userId c =
     (case login net userId c of (Inl _, c) \<Rightarrow> (None, c) | (Inr body, c) \<Rightarrow> (jprop (Some body) ''token'', c))"

section \<open>A backend that does not answer\<close>

definition onBackendUnreachable :: "client \<Rightarrow> client" where
  \<comment> \<open>the banner is shown exactly while \<open>_backendDown\<close> holds\<close>
  "onBackendUnreachable c = (if backendDown c then c else c\<lparr>backendDown := True, polling := True\<rparr>)"

definition poll_tick :: "network \<Rightarrow> client \<Rightarrow> client" where
  \<comment> \<open>one turn of the 3 s interval; its fetch is not timed\<close>
  "poll_tick net c =
     (if \<not> polling c then c
      else let rq = \<lparr>rq_method = ''GET'', rq_url = ''/api/platform/status'', rq_headers = [], rq_body = NoBody\<rparr>;
               c1 = c\<lparr>sent := sent c @ [rq]\<rparr>
           in case net (sent c) rq of
                Reply r \<Rightarrow> if r_ok r then c1\<lparr>polling := False, reloaded := True\<rparr> else c1
              | NetworkFailure _ \<Rightarrow> c1)"

definition isAppErrorBody :: "json \<Rightarrow> bool" where
  "isAppErrorBody payload \<longleftrightarrow> truthy (Some payload) \<and> is_object payload
     \<and> (jprop (Some payload) ''category'' = Some (JStr ''FUNCTIONAL'') \<or> js_in ''error'' payload
        \<or> js_in ''message'' payload \<or> js_in ''violations'' payload)"

section \<open>The request functions\<close>

definition violation_text :: "json \<Rightarrow> string" where
  \<comment> \<open>\<open>typeof v === 'string' ? v : v.message\<close> as \<open>join\<close> writes it\<close>
  "violation_text v = (case v of JStr s \<Rightarrow> s
     | _ \<Rightarrow> (case jprop (Some v) ''message'' of None \<Rightarrow> [] | Some JNull \<Rightarrow> [] | Some m \<Rightarrow> js_string m))"

definition response_error :: "response \<Rightarrow> json \<Rightarrow> thrown + string \<times> bool" where
  \<comment> \<open>message of a failed call and whether it carries field violations; an answer of another shape
    makes the error path itself throw\<close>
  "response_error r body =
     (let fallback = opt_string (js_or (js_or (jprop (Some body) ''error'') (jprop (Some body) ''message'')) (http_text r))
      in case jprop (Some body) ''violations'' of
           None \<Rightarrow> Inr (fallback, False)
         | Some JNull \<Rightarrow> Inr (fallback, False)
         | Some (JArr vs) \<Rightarrow>
             if JNull \<in> set vs then Inl type_error
             else Inr (if vs = [] then fallback else join ''; '' (map violation_text vs),
                       list_ex (\<lambda>v. truthy (jprop (Some v) ''attrCode'')) vs)
         | Some _ \<Rightarrow> Inl type_error)"

definition fail_response :: "error_kind \<Rightarrow> response \<Rightarrow> json \<Rightarrow> client \<Rightarrow> thrown \<times> client" where
  \<comment> \<open>the \<open>if (!res.ok)\<close> block of both request functions\<close>
  "fail_response kind r payload c =
     (let unreachable = (r_status r = 502 \<or> r_status r = 503) \<and> \<not> isAppErrorBody payload;
          c1 = (if unreachable then onBackendUnreachable c else c);
          body = (if truthy (Some payload) then payload else JObj [(''error'', JStr (r_statusText r))])
      in case response_error r body of
           Inl e \<Rightarrow> (e, c1)
         | Inr (msg, perField) \<Rightarrow>
             (let err = \<lparr>t_kind = kind, t_status = Some (r_status r), t_message = msg, t_detail = Some body\<rparr>
              in (err, if onErrorSet c1 \<and> \<not> perField \<and> \<not> unreachable then c1\<lparr>modals := modals c1 @ [err]\<rparr> else c1)))"

definition stale :: "response \<Rightarrow> json \<Rightarrow> bool" where
  "stale r payload \<longleftrightarrow> r_status r = 401 \<and> jprop (Some payload) ''code'' = Some (JStr ''TOKEN_STALE'')"

definition fetch_headers :: "string option \<Rightarrow> client \<Rightarrow> (string \<times> string) list" where
  "fetch_headers txId c = (''Content-Type'', ''application/json'') # bearer c
     @ (case txId of Some t \<Rightarrow> if t \<noteq> [] then [(''X-PLM-Tx'', t)] else [] | None \<Rightarrow> [])"

function doFetch ::
  "network \<Rightarrow> string \<Rightarrow> string \<Rightarrow> string \<Rightarrow> json option \<Rightarrow> string option \<Rightarrow> bool \<Rightarrow> client \<Rightarrow> (thrown + json) \<times> client" where
  "doFetch net base method path body txId isRetry c =
     (case timedFetch net \<lparr>rq_method = method, rq_url = base @ path, rq_headers = fetch_headers txId c,
         rq_body = (if truthy body then JsonBody (the body) else NoBody)\<rparr> c of
        (NetworkFailure _, c) \<Rightarrow> (Inl (plain ''Backend unreachable''), onBackendUnreachable c)
      | (Reply r, c) \<Rightarrow>
          if r_ok r then (parse_text r, c)
          else let payload = json_or_null r in
            if stale r payload \<and> \<not> isRetry \<and> authExpired c \<noteq> None then
              (case auth_expired net (the (authExpired c)) c of (newToken, c) \<Rightarrow>
                 if truthy newToken then doFetch net base method path body txId True (c\<lparr>sessionToken := newToken\<rparr>)
                 else (case fail_response ApiErrorKind r payload c of (e, c) \<Rightarrow> (Inl e, c)))
            else (case fail_response ApiErrorKind r payload c of (e, c) \<Rightarrow> (Inl e, c)))"
  by pat_completeness auto
termination
  by (relation "measure (\<lambda>(net, base, method, path, body, txId, isRetry, c). if isRetry then 0 else 1)") auto

declare doFetch.simps [simp del]

function gatewayJson ::
  "network \<Rightarrow> string \<Rightarrow> string \<Rightarrow> json option \<Rightarrow> bool \<Rightarrow> client \<Rightarrow> (thrown + json) \<times> client" where
  "gatewayJson net method fullPath body isRetry c =
     (case timedFetch net \<lparr>rq_method = method, rq_url = fullPath,
         rq_headers = bearer c @ (if body \<noteq> None then [(''Content-Type'', ''application/json'')] else []),
         rq_body = (case body of None \<Rightarrow> NoBody | Some b \<Rightarrow> JsonBody b)\<rparr> c of
        (NetworkFailure _, c) \<Rightarrow> (Inl (plain ''Backend unreachable''), onBackendUnreachable c)
      | (Reply r, c) \<Rightarrow>
          if r_ok r then (parse_text r, c)
          else let payload = json_or_null r in
            if stale r payload \<and> \<not> isRetry \<and> authExpired c \<noteq> None then
              (case auth_expired net (the (authExpired c)) c of (newToken, c) \<Rightarrow>
                 if truthy newToken then gatewayJson net method fullPath body True (c\<lparr>sessionToken := newToken\<rparr>)
                 else (case fail_response PlainError r payload c of (e, c) \<Rightarrow> (Inl e, c)))
            else (case fail_response PlainError r payload c of (e, c) \<Rightarrow> (Inl e, c)))"
  by pat_completeness auto
termination
  by (relation "measure (\<lambda>(net, method, fullPath, body, isRetry, c). if isRetry then 0 else 1)") auto

declare gatewayJson.simps [simp del]

section \<open>Facts: one call\<close>

definition the_request :: "string \<Rightarrow> string \<Rightarrow> string \<Rightarrow> json option \<Rightarrow> string option \<Rightarrow> client \<Rightarrow> http_request" where
  "the_request base method path body txId c = \<lparr>rq_method = method, rq_url = base @ path, rq_headers = fetch_headers txId c,
     rq_body = (if truthy body then JsonBody (the body) else NoBody)\<rparr>"

definition login_request :: "string \<Rightarrow> http_request" where
  "login_request u = \<lparr>rq_method = ''POST'', rq_url = ''/api/spe/auth/login'', rq_headers = [(''X-User'', u)], rq_body = NoBody\<rparr>"

lemma timedFetch_client:
  "timedFetch net rq c = (res, c') \<Longrightarrow> res = net (sent c) rq \<and> sent c' = sent c @ [rq] \<and> sessionToken c' = sessionToken c
   \<and> projectSpaceId c' = projectSpaceId c \<and> onErrorSet c' = onErrorSet c \<and> authExpired c' = authExpired c
   \<and> backendDown c' = backendDown c \<and> polling c' = polling c \<and> modals c' = modals c"
  by (auto simp: timedFetch_def Let_def)

lemma adopt_client:
  "sent (adopt_session b c) = sent c" "onErrorSet (adopt_session b c) = onErrorSet c"
  "authExpired (adopt_session b c) = authExpired c" "backendDown (adopt_session b c) = backendDown c"
  "modals (adopt_session b c) = modals c" "sessionToken (adopt_session b c) = jprop (Some b) ''token''"
  by (simp_all add: adopt_session_def Let_def)

lemma login_client:
  assumes "login net u c = (res, c')"
  shows "sent c' = sent c @ [login_request u] \<and> onErrorSet c' = onErrorSet c \<and> authExpired c' = authExpired c
    \<and> backendDown c' = backendDown c \<and> modals c' = modals c
    \<and> (case res of Inl _ \<Rightarrow> sessionToken c' = sessionToken c \<and> projectSpaceId c' = projectSpaceId c
       | Inr body \<Rightarrow> sessionToken c' = jprop (Some body) ''token''
           \<and> projectSpaceId c' = (if truthy (jprop (Some body) ''projectSpaceId'') then jprop (Some body) ''projectSpaceId''
               else projectSpaceId c))"
proof -
  obtain out c1 where t: "timedFetch net (login_request u) c = (out, c1)" by fastforce
  have "(\<exists>e. res = Inl e \<and> c' = c1) \<or> (\<exists>body. res = Inr body \<and> c' = adopt_session body c1)"
    using assms t unfolding login_def login_request_def [symmetric]
    by (auto split: outcome.splits sum.splits if_splits) metis+
  with timedFetch_client [OF t] show ?thesis by (elim disjE exE conjE) (simp_all add: adopt_client adopt_session_def Let_def)
qed

lemma auth_expired_client:
  assumes "auth_expired net u c = (tok, c')"
  shows "sent c' = sent c @ [login_request u] \<and> onErrorSet c' = onErrorSet c \<and> backendDown c' = backendDown c
    \<and> authExpired c' = authExpired c \<and> modals c' = modals c"
  using assms login_client [of net u c] unfolding auth_expired_def by (cases "login net u c") (auto split: sum.splits)

lemma fail_client:
  assumes "fail_response k r payload c = (e, c')"
  shows "sent c' = sent c \<and> sessionToken c' = sessionToken c \<and> onErrorSet c' = onErrorSet c \<and> authExpired c' = authExpired c"
  using assms by (auto simp: fail_response_def Let_def onBackendUnreachable_def split: sum.splits if_splits)

lemma onBackendUnreachable_client:
  "sent (onBackendUnreachable c) = sent c" "modals (onBackendUnreachable c) = modals c" "backendDown (onBackendUnreachable c)"
  by (simp_all add: onBackendUnreachable_def)

text \<open>Unfolding of one call into its first answer.\<close>

lemma doFetch_first:
  assumes "timedFetch net (the_request base method path body txId c) c = (ans, c1)"
  shows "doFetch net base method path body txId isRetry c =
    (case ans of NetworkFailure _ \<Rightarrow> (Inl (plain ''Backend unreachable''), onBackendUnreachable c1)
     | Reply r \<Rightarrow>
         if r_ok r then (parse_text r, c1)
         else if stale r (json_or_null r) \<and> \<not> isRetry \<and> authExpired c1 \<noteq> None then
           (case auth_expired net (the (authExpired c1)) c1 of (newToken, c2) \<Rightarrow>
              if truthy newToken then doFetch net base method path body txId True (c2\<lparr>sessionToken := newToken\<rparr>)
              else (case fail_response ApiErrorKind r (json_or_null r) c2 of (e, c3) \<Rightarrow> (Inl e, c3)))
         else (case fail_response ApiErrorKind r (json_or_null r) c1 of (e, c3) \<Rightarrow> (Inl e, c3)))"
  using assms by (subst doFetch.simps) (simp add: the_request_def Let_def split: outcome.split)

lemma retry_sends_one:
  assumes "doFetch net base method path body txId True c = (res, c')"
  shows "sent c' = sent c @ [the_request base method path body txId c]"
proof -
  obtain ans c1 where t: "timedFetch net (the_request base method path body txId c) c = (ans, c1)" by fastforce
  from timedFetch_client [OF t] assms show ?thesis unfolding doFetch_first [OF t]
    by (auto simp: onBackendUnreachable_client split: outcome.splits if_splits prod.splits dest!: fail_client)
qed

definition refreshes :: "network \<Rightarrow> http_request \<Rightarrow> client \<Rightarrow> bool" where
  \<comment> \<open>the first answer says that the token is stale and a handler is installed\<close>
  "refreshes net rq c \<longleftrightarrow> (case net (sent c) rq of Reply r \<Rightarrow> \<not> r_ok r \<and> stale r (json_or_null r) | NetworkFailure _ \<Rightarrow> False)
     \<and> authExpired c \<noteq> None"

text \<open>C15. A call goes out once. Only when the first answer is the gateway's stale-token refusal and
  an expiry handler is installed does the client log in again, once, and repeat the call once more,
  with the token of that login; the repeated call is never repeated, so no answer makes it loop.\<close>

theorem doFetch_requests:
  assumes "doFetch net base method path body txId False c = (res, c')"
  defines "rq \<equiv> the_request base method path body txId c"
  shows "if refreshes net rq c
    then \<exists>tok c2. auth_expired net (the (authExpired c)) (snd (timedFetch net rq c)) = (tok, c2)
      \<and> sent c' = sent c @ [rq, login_request (the (authExpired c))]
          @ (if truthy tok then [the_request base method path body txId (c2\<lparr>sessionToken := tok\<rparr>)] else [])
    else sent c' = sent c @ [rq]"
proof -
  obtain ans c1 where t: "timedFetch net rq c = (ans, c1)" by fastforce
  note f = timedFetch_client [OF t]
  show ?thesis
  proof (cases "refreshes net rq c")
    case False
    then have "\<not> (\<exists>r. ans = Reply r \<and> \<not> r_ok r \<and> stale r (json_or_null r) \<and> authExpired c1 \<noteq> None)"
      using f by (auto simp: refreshes_def split: outcome.splits)
    with f False assms(1) show ?thesis unfolding doFetch_first [OF t [unfolded rq_def]]
      by (auto simp: onBackendUnreachable_client split: outcome.splits if_splits prod.splits dest!: fail_client)
  next
    case True
    then obtain r u where r: "ans = Reply r" "\<not> r_ok r" "stale r (json_or_null r)" and u: "authExpired c1 = Some u"
      using f by (auto simp: refreshes_def split: outcome.splits)
    obtain tok c2 where a: "auth_expired net u c1 = (tok, c2)" by fastforce
    note g = auth_expired_client [OF a]
    have u': "the (authExpired c) = u" using f u by (metis option.sel)
    have au: "auth_expired net (the (authExpired c)) (snd (timedFetch net rq c)) = (tok, c2)" using a t u' by simp
    have "sent c' = sent c @ [rq, login_request u]
        @ (if truthy tok then [the_request base method path body txId (c2\<lparr>sessionToken := tok\<rparr>)] else [])"
    proof (cases "truthy tok")
      case yes: True
      with assms(1) r u a have "doFetch net base method path body txId True (c2\<lparr>sessionToken := tok\<rparr>) = (res, c')"
        unfolding doFetch_first [OF t [unfolded rq_def]] by simp
      from retry_sends_one [OF this] f g yes show ?thesis by (simp add: rq_def)
    next
      case no: False
      obtain e c3 where e: "fail_response ApiErrorKind r (json_or_null r) c2 = (e, c3)" by fastforce
      with assms(1) r u a no have "c' = c3" unfolding doFetch_first [OF t [unfolded rq_def]] by simp
      with fail_client [OF e] f g no show ?thesis by simp
    qed
    with True au u' show ?thesis by auto
  qed
qed

lemma doFetch_sends_first:
  assumes "doFetch net base method path body txId isRetry c = (res, c')"
  shows "\<exists>rest. sent c' = sent c @ the_request base method path body txId c # rest"
proof (cases isRetry)
  case True
  with assms retry_sends_one show ?thesis by auto
next
  case False
  obtain ans c1 where t: "timedFetch net (the_request base method path body txId c) c = (ans, c1)" by fastforce
  note f = timedFetch_client [OF t]
  have grow: "\<exists>rest. sent d = sent c1 @ rest"
    if "auth_expired net u c1 = (tok, c2)" "doFetch net base method path body txId True (c2\<lparr>sessionToken := tok\<rparr>) = (res, d)"
    for u tok c2 d
    using auth_expired_client [OF that(1)] retry_sends_one [OF that(2)] by simp
  have "\<exists>rest. sent c' = sent c1 @ rest"
    using assms grow unfolding doFetch_first [OF t]
    by (auto simp: onBackendUnreachable_client split: outcome.splits if_splits prod.splits dest!: fail_client auth_expired_client)
  with f show ?thesis by auto
qed

section \<open>Facts: what the user sees of a failure\<close>

definition field_violations :: "thrown \<Rightarrow> bool" where
  \<comment> \<open>the caller shows these next to the form fields\<close>
  "field_violations e = (case jprop (t_detail e) ''violations'' of
     Some (JArr vs) \<Rightarrow> list_ex (\<lambda>v. truthy (jprop (Some v) ''attrCode'')) vs | _ \<Rightarrow> False)"

definition broken_answer :: "thrown \<Rightarrow> bool" where
  "broken_answer e \<longleftrightarrow> t_kind e = SyntaxErrorKind \<or> t_kind e = TypeErrorKind"

lemma fail_shown:
  assumes "fail_response k r payload c = (e, c')" "onErrorSet c" "\<not> backendDown c" "k \<notin> {SyntaxErrorKind, TypeErrorKind}"
  shows "if backendDown c' then modals c' = modals c
    else if broken_answer e \<or> field_violations e then modals c' = modals c
    else modals c' = modals c @ [e]"
proof -
  define body where "body = (if truthy (Some payload) then payload else JObj [(''error'', JStr (r_statusText r))])"
  define bare where "bare \<longleftrightarrow> (r_status r = 502 \<or> r_status r = 503) \<and> \<not> isAppErrorBody payload"
  have c1: "modals (if bare then onBackendUnreachable c else c) = modals c"
      "backendDown (if bare then onBackendUnreachable c else c) = bare" "onErrorSet (if bare then onBackendUnreachable c else c)"
    using assms(2,3) by (auto simp: onBackendUnreachable_def)
  show ?thesis
  proof (cases "response_error r body")
    case (Inl x)
    then have "x = type_error" by (auto simp: response_error_def Let_def split: option.splits json.splits if_splits)
    with Inl assms(1) c1 show ?thesis
      by (auto simp: fail_response_def body_def [symmetric] bare_def [symmetric] Let_def broken_answer_def type_error_def)
  next
    case (Inr p)
    obtain msg pf where p: "p = (msg, pf)" by fastforce
    have e: "e = \<lparr>t_kind = k, t_status = Some (r_status r), t_message = msg, t_detail = Some body\<rparr>"
      using Inr p assms(1) by (auto simp: fail_response_def body_def [symmetric] bare_def [symmetric] Let_def)
    have "field_violations e = pf" using Inr p
      by (auto simp: e field_violations_def response_error_def Let_def split: option.splits json.splits if_splits)
    then show ?thesis using Inr p assms(1,4) c1
      by (auto simp: fail_response_def body_def [symmetric] bare_def [symmetric] Let_def broken_answer_def split: if_splits)
  qed
qed

definition shown_once :: "client \<Rightarrow> thrown + json \<Rightarrow> client \<Rightarrow> bool" where
  "shown_once c res c' \<longleftrightarrow> (case res of Inr _ \<Rightarrow> modals c' = modals c \<and> \<not> backendDown c'
    | Inl e \<Rightarrow> if backendDown c' then modals c' = modals c
        else if broken_answer e \<or> field_violations e then modals c' = modals c
        else modals c' = modals c @ [e])"

definition quiet :: "client \<Rightarrow> client \<Rightarrow> bool" where
  "quiet c d \<longleftrightarrow> modals d = modals c \<and> \<not> backendDown d \<and> onErrorSet d"

lemma fail_shown_once:
  "quiet c d \<Longrightarrow> fail_response ApiErrorKind r payload d = (e, d') \<Longrightarrow> shown_once c (Inl e) d'"
  using fail_shown [of ApiErrorKind r payload d e d'] by (simp add: quiet_def shown_once_def)

lemma shown_once_later: "quiet c d \<Longrightarrow> shown_once d res c' \<Longrightarrow> shown_once c res c'"
  by (cases res) (simp_all add: quiet_def shown_once_def)

lemma quiet_fetch: "quiet c c \<Longrightarrow> timedFetch net rq c = (ans, c1) \<Longrightarrow> quiet c c1"
  by (drule timedFetch_client) (simp add: quiet_def)

lemma quiet_login: "quiet c d \<Longrightarrow> auth_expired net u d = (tok, d') \<Longrightarrow> quiet c d'"
  by (drule auth_expired_client) (simp add: quiet_def)

lemma answered_shown:
  assumes t: "timedFetch net (the_request base method path body txId c) c = (ans, c1)" and q: "quiet c c"
    and no: "\<And>r. ans = Reply r \<Longrightarrow> r_ok r \<or> \<not> (stale r (json_or_null r) \<and> \<not> isRetry \<and> authExpired c1 \<noteq> None)"
    and d: "doFetch net base method path body txId isRetry c = (res, c')"
  shows "shown_once c res c'"
proof (cases ans)
  case (NetworkFailure x)
  with d have "res = Inl (plain ''Backend unreachable'')" "c' = onBackendUnreachable c1" unfolding doFetch_first [OF t] by auto
  with quiet_fetch [OF q t] show ?thesis by (simp add: shown_once_def onBackendUnreachable_client quiet_def)
next
  case (Reply r)
  show ?thesis
  proof (cases "r_ok r")
    case True
    with Reply d have "res = parse_text r" "c' = c1" unfolding doFetch_first [OF t] by auto
    with quiet_fetch [OF q t] show ?thesis
      by (auto simp: parse_text_def broken_answer_def syntax_error_def shown_once_def quiet_def split: body_text.split)
  next
    case False
    obtain e c3 where e: "fail_response ApiErrorKind r (json_or_null r) c1 = (e, c3)" by fastforce
    with Reply False d no have "res = Inl e" "c' = c3" unfolding doFetch_first [OF t] by auto
    with fail_shown_once [OF quiet_fetch [OF q t] e] show ?thesis by simp
  qed
qed

lemma retry_shown:
  assumes "quiet c c" "doFetch net base method path body txId True c = (res, c')"
  shows "shown_once c res c'"
proof -
  obtain ans c1 where t: "timedFetch net (the_request base method path body txId c) c = (ans, c1)" by fastforce
  show ?thesis by (rule answered_shown [OF t assms(1) _ assms(2)]) simp
qed

lemma doFetch_shown:
  assumes q: "quiet c c" and d: "doFetch net base method path body txId False c = (res, c')"
  shows "shown_once c res c'"
proof -
  obtain ans c1 where t: "timedFetch net (the_request base method path body txId c) c = (ans, c1)" by fastforce
  show ?thesis
  proof (cases "\<exists>r. ans = Reply r \<and> \<not> r_ok r \<and> stale r (json_or_null r) \<and> authExpired c1 \<noteq> None")
    case False
    then show ?thesis using answered_shown [OF t q _ d] by blast
  next
    case True
    then obtain r where r: "ans = Reply r" "\<not> r_ok r" "stale r (json_or_null r)" "authExpired c1 \<noteq> None" by blast
    obtain tok c2 where a: "auth_expired net (the (authExpired c1)) c1 = (tok, c2)" by fastforce
    note q2 = quiet_login [OF quiet_fetch [OF q t] a]
    show ?thesis
    proof (cases "truthy tok")
      case yes: True
      with d r a have "doFetch net base method path body txId True (c2\<lparr>sessionToken := tok\<rparr>) = (res, c')"
        unfolding doFetch_first [OF t] by simp
      moreover have "quiet c (c2\<lparr>sessionToken := tok\<rparr>)" "quiet (c2\<lparr>sessionToken := tok\<rparr>) (c2\<lparr>sessionToken := tok\<rparr>)"
        using q2 by (simp_all add: quiet_def)
      ultimately show ?thesis using retry_shown shown_once_later by blast
    next
      case no: False
      obtain e c3 where e: "fail_response ApiErrorKind r (json_or_null r) c2 = (e, c3)" by fastforce
      with d r a no have "res = Inl e" "c' = c3" unfolding doFetch_first [OF t] by auto
      with fail_shown_once [OF q2 e] show ?thesis by simp
    qed
  qed
qed


section \<open>Facts: the project after a silent login\<close>

text \<open>The silent login is an ordinary login of the user, so it also sets the project space to the
  one the login answer names, the user's default: a call that was made in another project, chosen by
  \<open>switchProject\<close>, is repeated in the default project, and the client stays there.\<close>

theorem refresh_resets_project:
  assumes "refreshes net (the_request base method path body txId c) c"
    and "login net (the (authExpired c)) (snd (timedFetch net (the_request base method path body txId c) c)) = (Inr session, c2)"
    and "truthy (jprop (Some session) ''token'')" "truthy (jprop (Some session) ''projectSpaceId'')"
  shows "\<exists>d. sessionToken d = jprop (Some session) ''token'' \<and> projectSpaceId d = jprop (Some session) ''projectSpaceId''
    \<and> doFetch net base method path body txId False c = doFetch net base method path body txId True d"
proof -
  obtain ans c1 where t: "timedFetch net (the_request base method path body txId c) c = (ans, c1)" by fastforce
  obtain r where r: "ans = Reply r" "\<not> r_ok r" "stale r (json_or_null r)" "authExpired c1 \<noteq> None"
    using assms(1) timedFetch_client [OF t] by (auto simp: refreshes_def split: outcome.splits)
  have u: "authExpired c1 = authExpired c" using timedFetch_client [OF t] by simp
  have l: "login net (the (authExpired c)) c1 = (Inr session, c2)" using assms(2) t by simp
  then have a: "auth_expired net (the (authExpired c1)) c1 = (jprop (Some session) ''token'', c2)"
    by (simp add: auth_expired_def u)
  have "doFetch net base method path body txId False c =
      doFetch net base method path body txId True (c2\<lparr>sessionToken := jprop (Some session) ''token''\<rparr>)"
    unfolding doFetch_first [OF t] using r a assms(3) by simp
  moreover have "projectSpaceId c2 = jprop (Some session) ''projectSpaceId''"
    using login_client [OF l] assms(4) by simp
  ultimately show ?thesis by (intro exI [of _ "c2\<lparr>sessionToken := jprop (Some session) ''token''\<rparr>"]) simp
qed

section \<open>A run\<close>

definition fresh_client :: client where
  "fresh_client = \<lparr>sessionToken = None, projectSpaceId = None, onErrorSet = True, authExpired = Some ''ann'', backendDown = False,
     polling = False, reloaded = False, samples = [], clock = 0, sent = [], modals = []\<rparr>"

definition sample_net :: network where
  \<comment> \<open>login gives token t and project p1, switching gives token s and project p2; a call is refused once\<close>
  "sample_net h rq =
     (let rp = (\<lambda>st txt. Reply \<lparr>r_status = st, r_statusText = [], r_text = txt, r_took = 1\<rparr>)
      in if rq_url rq = ''/api/spe/auth/login'' then rp 200 (JsonText (JObj [(''token'', JStr ''t''), (''projectSpaceId'', JStr ''p1'')]))
         else if rq_url rq = ''/api/spe/auth/switch-project''
              then rp 200 (JsonText (JObj [(''token'', JStr ''s''), (''projectSpaceId'', JStr ''p2'')]))
         else if length h < 3 then rp 401 (JsonText (JObj [(''code'', JStr ''TOKEN_STALE'')]))
         else rp 200 EmptyText)"

definition switched :: client where
  "switched = snd (switchProject sample_net ''p2'' (snd (login sample_net ''ann'' fresh_client)))"

lemma switched_facts:
  "refreshes sample_net (the_request ''/api/psm'' ''GET'' ''/nodes'' None None switched) switched"
  "projectSpaceId switched = Some (JStr ''p2'') \<and> onErrorSet switched \<and> \<not> backendDown switched \<and> authExpired switched = Some ''ann''"
  by code_simp code_simp

lemma switched_call:
  "case doFetch sample_net ''/api/psm'' ''GET'' ''/nodes'' None None False switched of (res, c) \<Rightarrow>
     res = Inr JNull \<and> projectSpaceId c = Some (JStr ''p1'') \<and> length (sent c) = 5"
  by code_simp

lemma switched_login:
  "fst (login sample_net ''ann'' (snd (timedFetch sample_net (the_request ''/api/psm'' ''GET'' ''/nodes'' None None switched) switched)))
     = Inr (JObj [(''token'', JStr ''t''), (''projectSpaceId'', JStr ''p1'')])"
  by code_simp

theorem doFetch_requests_witness:
  "\<exists>res c'. doFetch sample_net ''/api/psm'' ''GET'' ''/nodes'' None None False switched = (res, c')
     \<and> refreshes sample_net (the_request ''/api/psm'' ''GET'' ''/nodes'' None None switched) switched
     \<and> length (sent c') \<le> length (sent switched) + 3"
proof -
  obtain res c' where d: "doFetch sample_net ''/api/psm'' ''GET'' ''/nodes'' None None False switched = (res, c')" by fastforce
  from doFetch_requests [OF d] switched_facts(1) d show ?thesis by (auto split: if_splits)
qed


theorem refresh_resets_project_witness:
  "projectSpaceId switched = Some (JStr ''p2'') \<and> (\<exists>d. projectSpaceId d = Some (JStr ''p1'')
     \<and> doFetch sample_net ''/api/psm'' ''GET'' ''/nodes'' None None False switched =
       doFetch sample_net ''/api/psm'' ''GET'' ''/nodes'' None None True d)"
proof -
  obtain c2 where l: "login sample_net (the (authExpired switched))
      (snd (timedFetch sample_net (the_request ''/api/psm'' ''GET'' ''/nodes'' None None switched) switched))
      = (Inr (JObj [(''token'', JStr ''t''), (''projectSpaceId'', JStr ''p1'')]), c2)"
    using switched_login switched_facts(2) by (metis option.sel prod.collapse)
  have "truthy (jprop (Some (JObj [(''token'', JStr ''t''), (''projectSpaceId'', JStr ''p1'')])) ''token'')"
    "jprop (Some (JObj [(''token'', JStr ''t''), (''projectSpaceId'', JStr ''p1'')])) ''projectSpaceId'' = Some (JStr ''p1'')"
    by code_simp+
  with refresh_resets_project [OF switched_facts(1) l] switched_facts(2) show ?thesis by auto
qed

end
