(* ===== verification/ApiEndpoints.thy ===== *)
theory ApiEndpoints
  imports ApiClient
begin

text \<open>
  The endpoint tables of \<open>frontend/src/services/api.js\<close>: one datatype per group of functions, a
  constructor for each function with the arguments that reach the wire, and the request it stands
  for. The \<open>userId\<close> arguments that the request helpers drop are left out; an argument that may be
  \<open>undefined\<close> is an option, and \<open>JSON.stringify\<close> leaves out the fields whose value is undefined. Path
  arguments are strings, put into the path as they are unless the code encodes them.
\<close>

section \<open>Requests\<close>

record wire_call =
  c_base :: string
  c_method :: string
  c_path :: string
  c_body :: "json option"

definition call :: "string \<Rightarrow> string \<Rightarrow> string \<Rightarrow> json option \<Rightarrow> wire_call" where
  \<comment> \<open>\<open>request\<close>, \<open>adminRequest\<close>, \<open>pnoRequest\<close> and \<open>platformRequest\<close>, by the base they pass on\<close>
  "call base method path body = \<lparr>c_base = base, c_method = method, c_path = path, c_body = body\<rparr>"

definition obj_of :: "(string \<times> json option) list \<Rightarrow> json" where
  "obj_of fs = JObj (List.map_filter (\<lambda>(k, v). map_option (Pair k) v) fs)"

definition or_null :: "json option \<Rightarrow> json option" where
  \<comment> \<open>\<open>x || null\<close>\<close>
  "or_null v = js_or v (Some JNull)"

definition or_default :: "json option \<Rightarrow> json \<Rightarrow> json option" where
  \<comment> \<open>a parameter with a default\<close>
  "or_default v d = (case v of None \<Rightarrow> Some d | Some w \<Rightarrow> Some w)"

definition if_truthy :: "json option \<Rightarrow> json option" where
  \<comment> \<open>\<open>...(x ? { x } : {})\<close>\<close>
  "if_truthy v = (if truthy v then v else None)"

definition opt_query :: "string \<Rightarrow> bool \<Rightarrow> string option \<Rightarrow> string" where
  \<comment> \<open>\<open>${x ? `?k=${x}` : ''}\<close>, the value encoded or not\<close>
  "opt_query prefix enc v = (case v of None \<Rightarrow> []
     | Some s \<Rightarrow> if s = [] then [] else prefix @ (if enc then encodeURIComponent s else s))"

definition opt_part :: "string \<Rightarrow> string option \<Rightarrow> string list" where
  \<comment> \<open>\<open>if (x) parts.push(`k=${x}`)\<close>\<close>
  "opt_part prefix v = (case v of None \<Rightarrow> [] | Some s \<Rightarrow> if s = [] then [] else [prefix @ s])"

definition form_char :: "char \<Rightarrow> string" where
  \<comment> \<open>\<open>URLSearchParams\<close>: letters, digits and \<open>*-._\<close> stay, a space is a plus sign\<close>
  "form_char c = (if c = CHR '' '' then ''+'' else if c \<in> {CHR ''!'', CHR ''~'', CHR ''('', CHR '')'', CHR 0x27}
     then pct (of_char c) else encode_char c)"

definition form_encode :: "string \<Rightarrow> string" where
  "form_encode s = concat (map form_char s)"

definition key_params :: "string option \<Rightarrow> string option \<Rightarrow> string option \<Rightarrow> string" where
  "key_params keyType q limit = join ''&''
     (opt_part ''type='' (map_option form_encode keyType) @ opt_part ''q='' (map_option form_encode q)
      @ [''limit='' @ form_encode (case limit of None \<Rightarrow> ''25'' | Some l \<Rightarrow> l)])"

section \<open>The tables\<close>

datatype spe_call =
    GetStatus
  | GetRegistryTags
  | GetEnvironment
  | UpdateEnvironment "json option"
  | AddExpectedService "json option"
  | RemoveExpectedService string
  | GetNatsStatus

fun spe_call_request :: "spe_call \<Rightarrow> wire_call" where
  "spe_call_request GetStatus = call BASE_PLATFORM ''GET'' (''/status'') (None)"
| "spe_call_request GetRegistryTags = call BASE_PLATFORM ''GET'' (''/admin/registry/tags'') (None)"
| "spe_call_request GetEnvironment = call BASE_PLATFORM ''GET'' (''/admin/environment/expected-services'') (None)"
| "spe_call_request (UpdateEnvironment expectedServices)
     = call BASE_PLATFORM ''PUT'' (''/admin/environment/expected-services'')
         (Some (obj_of [(''expectedServices'', expectedServices)]))"
| "spe_call_request (AddExpectedService serviceCode)
     = call BASE_PLATFORM ''POST'' (''/admin/environment/expected-services/services'')
         (Some (obj_of [(''serviceCode'', serviceCode)]))"
| "spe_call_request (RemoveExpectedService serviceCode)
     = call BASE_PLATFORM ''DELETE'' (''/admin/environment/expected-services/services/'' @ serviceCode) (None)"
| "spe_call_request GetNatsStatus = call BASE_PLATFORM ''GET'' (''/status/nats'') (None)"

datatype node_call =
    GetMetadataKeys "string option"
  | GetNodeTypes
  | GetVersionHistory string
  | GetVersionDiff string string string
  | CreateNode string "json jsobj" "json option" "json option"
  | GetNodeDescription string "string option" "string option"
  | UpdateExternalId string "json option"
  | GetSignatures string
  | GetSignatureHistory string
  | GetComments string
  | AddComment string "json option" "json option" "json option" "json option"
  | GetLinkTypes
  | GetNodeTypeLinkTypes string
  | GetRegistryGrouped
  | GetRegistryTagsAdmin
  | GetRegistryOverview
  | GetItems

fun node_call_request :: "node_call \<Rightarrow> wire_call" where
  "node_call_request (GetMetadataKeys targetType)
     = call ''/api/psa'' ''GET'' (case targetType of Some t \<Rightarrow> if t \<noteq> [] then ''/metamodel/metadata/keys/'' @ t else ''/metamodel/metadata/keys'' | None \<Rightarrow> ''/metamodel/metadata/keys'') None"
| "node_call_request GetNodeTypes = call ''/api/psa'' ''GET'' (''/metamodel/nodetypes'') (None)"
| "node_call_request (GetVersionHistory nodeId) = call ''/api/psm'' ''GET'' (''/nodes/'' @ nodeId @ ''/versions'') (None)"
| "node_call_request (GetVersionDiff nodeId v1 v2)
     = call ''/api/psm'' ''GET'' (''/nodes/'' @ nodeId @ ''/versions/diff?v1='' @ v1 @ ''&v2='' @ v2) (None)"
| "node_call_request (CreateNode nodeTypeId attributes logicalId externalId)
     = call ''/api/psm'' ''POST'' (''/actions/create_node/'' @ nodeTypeId)
      (Some (JObj [(''parameters'', JObj (obj_put ''_externalId'' (the (or_null externalId)) (obj_put ''_logicalId'' (the (or_null logicalId)) (obj_merge [] attributes))))]))"
| "node_call_request (GetNodeDescription nodeId txId versionNumber) = (let parts = opt_part ''txId='' txId @ opt_part ''versionNumber='' versionNumber
      in call ''/api/psm'' ''GET'' (''/nodes/'' @ nodeId @ ''/description'' @ (if parts = [] then [] else ''?'' @ join ''&'' parts)) None)"
| "node_call_request (UpdateExternalId nodeId externalId)
     = call ''/api/psm'' ''PATCH'' (''/nodes/'' @ nodeId @ ''/external-id'') (Some (obj_of [(''externalId'', externalId)]))"
| "node_call_request (GetSignatures nodeId) = call ''/api/psm'' ''GET'' (''/nodes/'' @ nodeId @ ''/signatures'') (None)"
| "node_call_request (GetSignatureHistory nodeId)
     = call ''/api/psm'' ''GET'' (''/nodes/'' @ nodeId @ ''/signatures/history'') (None)"
| "node_call_request (GetComments nodeId) = call ''/api/psm'' ''GET'' (''/nodes/'' @ nodeId @ ''/comments'') (None)"
| "node_call_request (AddComment nodeId nodeVersionId commentText parentCommentId attributeName)
     = call ''/api/psm'' ''POST'' (''/nodes/'' @ nodeId @ ''/comments'')
      (Some (obj_of [(''nodeVersionId'', nodeVersionId), (''text'', commentText), (''parentCommentId'', if_truthy parentCommentId), (''attributeName'', if_truthy attributeName)]))"
| "node_call_request GetLinkTypes = call ''/api/psa'' ''GET'' (''/metamodel/linktypes'') (None)"
| "node_call_request (GetNodeTypeLinkTypes nodeTypeId)
     = call ''/api/psa'' ''GET'' (''/metamodel/nodetypes/'' @ nodeTypeId @ ''/linktypes'') (None)"
| "node_call_request GetRegistryGrouped = call BASE_PLATFORM ''GET'' (''/admin/registry/grouped'') (None)"
| "node_call_request GetRegistryTagsAdmin = call BASE_PLATFORM ''GET'' (''/admin/registry/tags'') (None)"
| "node_call_request GetRegistryOverview = call BASE_PLATFORM ''GET'' (''/admin/registry/overview'') (None)"
| "node_call_request GetItems = call BASE_PLATFORM ''GET'' (''/items'') (None)"

datatype link_call =
    GetSourceKeys string "string option" string "string option"
  | GetChildLinks string
  | GetParentLinks string

fun link_call_request :: "link_call \<Rightarrow> wire_call" where
  "link_call_request (GetSourceKeys sourceId keyType q limit)
     = call ''/api/psm'' ''GET'' (''/sources/'' @ encodeURIComponent sourceId @ ''/keys?'' @ key_params keyType (Some q) limit) None"
| "link_call_request (GetChildLinks nodeId) = call ''/api/psm'' ''GET'' (''/nodes/'' @ nodeId @ ''/links/children'') (None)"
| "link_call_request (GetParentLinks nodeId) = call ''/api/psm'' ''GET'' (''/nodes/'' @ nodeId @ ''/links/parents'') (None)"

datatype lifecycle_call =
    GetLifecycles
  | GetLifecycleStates string
  | GetLifecycleTransitions string
  | GetCascadesByParentTransition string
  | CreateLifecycle "json option"
  | DuplicateLifecycle string "json option"
  | DeleteLifecycle string
  | AddLifecycleState string "json option"
  | UpdateLifecycleState string string "json option"
  | DeleteLifecycleState string string
  | ListLifecycleStateActions string string
  | AttachLifecycleStateAction string string "json option" "json option" "json option" "json option"
  | DetachLifecycleStateAction string string string
  | AddLifecycleTransition string "json option"
  | UpdateLifecycleTransition string string "json option"
  | DeleteLifecycleTransition string string
  | AddTransitionSignatureRequirement string "json option" "json option"
  | RemoveTransitionSignatureRequirement string string

fun lifecycle_call_request :: "lifecycle_call \<Rightarrow> wire_call" where
  "lifecycle_call_request GetLifecycles = call ''/api/psa'' ''GET'' (''/metamodel/lifecycles'') (None)"
| "lifecycle_call_request (GetLifecycleStates itemId)
     = call ''/api/psa'' ''GET'' (''/metamodel/lifecycles/'' @ itemId @ ''/states'') (None)"
| "lifecycle_call_request (GetLifecycleTransitions itemId)
     = call ''/api/psa'' ''GET'' (''/metamodel/lifecycles/'' @ itemId @ ''/transitions'') (None)"
| "lifecycle_call_request (GetCascadesByParentTransition transitionId)
     = call ''/api/psa'' ''GET'' (''/metamodel/transitions/'' @ transitionId @ ''/cascades'') (None)"
| "lifecycle_call_request (CreateLifecycle body) = call ''/api/psa'' ''POST'' (''/metamodel/lifecycles'') (body)"
| "lifecycle_call_request (DuplicateLifecycle sourceId name)
     = call ''/api/psa'' ''POST'' (''/metamodel/lifecycles/'' @ sourceId @ ''/duplicate'') (Some (obj_of [(''name'', name)]))"
| "lifecycle_call_request (DeleteLifecycle lifecycleId)
     = call ''/api/psa'' ''DELETE'' (''/metamodel/lifecycles/'' @ lifecycleId) (None)"
| "lifecycle_call_request (AddLifecycleState lifecycleId body)
     = call ''/api/psa'' ''POST'' (''/metamodel/lifecycles/'' @ lifecycleId @ ''/states'') (body)"
| "lifecycle_call_request (UpdateLifecycleState lifecycleId stateId body)
     = call ''/api/psa'' ''PUT'' (''/metamodel/lifecycles/'' @ lifecycleId @ ''/states/'' @ stateId) (body)"
| "lifecycle_call_request (DeleteLifecycleState lifecycleId stateId)
     = call ''/api/psa'' ''DELETE'' (''/metamodel/lifecycles/'' @ lifecycleId @ ''/states/'' @ stateId) (None)"
| "lifecycle_call_request (ListLifecycleStateActions lifecycleId stateId)
     = call ''/api/psa'' ''GET'' (''/metamodel/lifecycles/'' @ lifecycleId @ ''/states/'' @ stateId @ ''/actions'') (None)"
| "lifecycle_call_request (AttachLifecycleStateAction lifecycleId stateId instanceId trigger executionMode displayOrder)
     = call ''/api/psa'' ''POST'' (''/metamodel/lifecycles/'' @ lifecycleId @ ''/states/'' @ stateId @ ''/actions'')
      (Some (obj_of [(''instanceId'', instanceId), (''trigger'', trigger), (''executionMode'', executionMode), (''displayOrder'', or_default displayOrder (JNum 0))]))"
| "lifecycle_call_request (DetachLifecycleStateAction lifecycleId stateId actionId)
     = call ''/api/psa'' ''DELETE'' (''/metamodel/lifecycles/'' @ lifecycleId @ ''/states/'' @ stateId @ ''/actions/'' @ actionId) (None)"
| "lifecycle_call_request (AddLifecycleTransition lifecycleId body)
     = call ''/api/psa'' ''POST'' (''/metamodel/lifecycles/'' @ lifecycleId @ ''/transitions'') (body)"
| "lifecycle_call_request (UpdateLifecycleTransition lifecycleId transId body)
     = call ''/api/psa'' ''PUT'' (''/metamodel/lifecycles/'' @ lifecycleId @ ''/transitions/'' @ transId) (body)"
| "lifecycle_call_request (DeleteLifecycleTransition lifecycleId transId)
     = call ''/api/psa'' ''DELETE'' (''/metamodel/lifecycles/'' @ lifecycleId @ ''/transitions/'' @ transId) (None)"
| "lifecycle_call_request (AddTransitionSignatureRequirement transId roleId displayOrder)
     = call ''/api/psa'' ''POST'' (''/metamodel/transitions/'' @ transId @ ''/signature-requirements'')
      (Some (obj_of [(''roleId'', roleId), (''displayOrder'', or_default displayOrder (JNum 0))]))"
| "lifecycle_call_request (RemoveTransitionSignatureRequirement transId reqId)
     = call ''/api/psa'' ''DELETE'' (''/metamodel/transitions/'' @ transId @ ''/signature-requirements/'' @ reqId) (None)"

datatype nodetype_call =
    DeleteNodeType string
  | UpdateNodeTypeIdentity string "json option"
  | UpdateNodeTypeNumberingScheme string "json option"
  | UpdateNodeTypeVersionPolicy string "json option"
  | UpdateNodeTypeCollapseHistory string "json option"
  | UpdateNodeTypeLifecycle string "json option"
  | UpdateNodeTypeAppearance string "json option" "json option"
  | UpdateAttribute string string "json option"
  | DeleteAttribute string string
  | UpdateLinkType string "json option"
  | DeleteLinkType string
  | GetLinkTypeAttributes string
  | CreateLinkTypeAttribute string "json option"
  | UpdateLinkTypeAttribute string string "json option"
  | DeleteLinkTypeAttribute string string
  | GetLinkTypeCascades string
  | CreateLinkTypeCascade string "json option" "json option" "json option"
  | DeleteLinkTypeCascade string string string
  | GetNodeTypeAttributes string
  | CreateNodeType "json option"
  | UpdateNodeTypeParent string "json option"
  | CreateAttribute string "json option"
  | CreateLinkType "json option"

fun nodetype_call_request :: "nodetype_call \<Rightarrow> wire_call" where
  "nodetype_call_request (DeleteNodeType nodeTypeId)
     = call ''/api/psa'' ''DELETE'' (''/metamodel/nodetypes/'' @ nodeTypeId) (None)"
| "nodetype_call_request (UpdateNodeTypeIdentity nodeTypeId body)
     = call ''/api/psa'' ''PUT'' (''/metamodel/nodetypes/'' @ nodeTypeId @ ''/identity'') (body)"
| "nodetype_call_request (UpdateNodeTypeNumberingScheme nodeTypeId numberingScheme)
     = call ''/api/psa'' ''PUT'' (''/metamodel/nodetypes/'' @ nodeTypeId @ ''/numbering-scheme'')
         (Some (obj_of [(''numberingScheme'', numberingScheme)]))"
| "nodetype_call_request (UpdateNodeTypeVersionPolicy nodeTypeId versionPolicy)
     = call ''/api/psa'' ''PUT'' (''/metamodel/nodetypes/'' @ nodeTypeId @ ''/version-policy'')
         (Some (obj_of [(''versionPolicy'', versionPolicy)]))"
| "nodetype_call_request (UpdateNodeTypeCollapseHistory nodeTypeId collapseHistory)
     = call ''/api/psa'' ''PUT'' (''/metamodel/nodetypes/'' @ nodeTypeId @ ''/collapse-history'')
         (Some (obj_of [(''collapseHistory'', collapseHistory)]))"
| "nodetype_call_request (UpdateNodeTypeLifecycle nodeTypeId lifecycleId)
     = call ''/api/psa'' ''PUT'' (''/metamodel/nodetypes/'' @ nodeTypeId @ ''/lifecycle'')
         (Some (obj_of [(''lifecycleId'', or_null lifecycleId)]))"
| "nodetype_call_request (UpdateNodeTypeAppearance nodeTypeId color icon)
     = call ''/api/psa'' ''PUT'' (''/metamodel/nodetypes/'' @ nodeTypeId @ ''/appearance'')
         (Some (obj_of [(''color'', or_null color), (''icon'', or_null icon)]))"
| "nodetype_call_request (UpdateAttribute nodeTypeId attrId body)
     = call ''/api/psa'' ''PUT'' (''/metamodel/nodetypes/'' @ nodeTypeId @ ''/attributes/'' @ attrId) (body)"
| "nodetype_call_request (DeleteAttribute nodeTypeId attrId)
     = call ''/api/psa'' ''DELETE'' (''/metamodel/nodetypes/'' @ nodeTypeId @ ''/attributes/'' @ attrId) (None)"
| "nodetype_call_request (UpdateLinkType linkTypeId body)
     = call ''/api/psa'' ''PUT'' (''/metamodel/linktypes/'' @ linkTypeId) (body)"
| "nodetype_call_request (DeleteLinkType linkTypeId)
     = call ''/api/psa'' ''DELETE'' (''/metamodel/linktypes/'' @ linkTypeId) (None)"
| "nodetype_call_request (GetLinkTypeAttributes linkTypeId)
     = call ''/api/psa'' ''GET'' (''/metamodel/linktypes/'' @ linkTypeId @ ''/attributes'') (None)"
| "nodetype_call_request (CreateLinkTypeAttribute linkTypeId body)
     = call ''/api/psa'' ''POST'' (''/metamodel/linktypes/'' @ linkTypeId @ ''/attributes'') (body)"
| "nodetype_call_request (UpdateLinkTypeAttribute linkTypeId attrId body)
     = call ''/api/psa'' ''PUT'' (''/metamodel/linktypes/'' @ linkTypeId @ ''/attributes/'' @ attrId) (body)"
| "nodetype_call_request (DeleteLinkTypeAttribute linkTypeId attrId)
     = call ''/api/psa'' ''DELETE'' (''/metamodel/linktypes/'' @ linkTypeId @ ''/attributes/'' @ attrId) (None)"
| "nodetype_call_request (GetLinkTypeCascades linkTypeId)
     = call ''/api/psa'' ''GET'' (''/metamodel/linktypes/'' @ linkTypeId @ ''/cascades'') (None)"
| "nodetype_call_request (CreateLinkTypeCascade linkTypeId parentTransitionId childFromStateId childTransitionId)
     = call ''/api/psa'' ''POST'' (''/metamodel/linktypes/'' @ linkTypeId @ ''/cascades'')
         (Some (obj_of [(''parentTransitionId'', parentTransitionId), (''childFromStateId'', childFromStateId), (''childTransitionId'', childTransitionId)]))"
| "nodetype_call_request (DeleteLinkTypeCascade linkTypeId parentTransitionId childFromStateId)
     = call ''/api/psa'' ''DELETE'' (''/metamodel/linktypes/'' @ linkTypeId @ ''/cascades/'' @ parentTransitionId @ ''/'' @ childFromStateId) (None)"
| "nodetype_call_request (GetNodeTypeAttributes nodeTypeId)
     = call ''/api/psa'' ''GET'' (''/metamodel/nodetypes/'' @ nodeTypeId @ ''/attributes'') (None)"
| "nodetype_call_request (CreateNodeType body) = call ''/api/psa'' ''POST'' (''/metamodel/nodetypes'') (body)"
| "nodetype_call_request (UpdateNodeTypeParent nodeTypeId parentNodeTypeId)
     = call ''/api/psa'' ''PUT'' (''/metamodel/nodetypes/'' @ nodeTypeId @ ''/parent'')
         (Some (obj_of [(''parentNodeTypeId'', or_null parentNodeTypeId)]))"
| "nodetype_call_request (CreateAttribute nodeTypeId body)
     = call ''/api/psa'' ''POST'' (''/metamodel/nodetypes/'' @ nodeTypeId @ ''/attributes'') (body)"
| "nodetype_call_request (CreateLinkType body) = call ''/api/psa'' ''POST'' (''/metamodel/linktypes'') (body)"

datatype source_call =
    GetSourcesAdmin
  | GetSourceResolversAdmin
  | CreateSource "json option"
  | UpdateSource string "json option"
  | DeleteSource string
  | GetImportContexts
  | CreateImportContext "json option"
  | UpdateImportContext string "json option"
  | DeleteImportContext string
  | GetImportAlgorithmInstances
  | GetValidationAlgorithmInstances
  | GetSources
  | GetSourceTypes string
  | SuggestSourceKeys string "string option" "string option" "string option"

fun source_call_request :: "source_call \<Rightarrow> wire_call" where
  "source_call_request GetSourcesAdmin = call ''/api/psa'' ''GET'' (''/sources'') (None)"
| "source_call_request GetSourceResolversAdmin = call ''/api/psa'' ''GET'' (''/sources/resolvers'') (None)"
| "source_call_request (CreateSource body) = call ''/api/psa'' ''POST'' (''/sources'') (body)"
| "source_call_request (UpdateSource itemId body) = call ''/api/psa'' ''PUT'' (''/sources/'' @ itemId) (body)"
| "source_call_request (DeleteSource itemId) = call ''/api/psa'' ''DELETE'' (''/sources/'' @ itemId) (None)"
| "source_call_request GetImportContexts = call ''/api/psa'' ''GET'' (''/admin/import-contexts'') (None)"
| "source_call_request (CreateImportContext body) = call ''/api/psa'' ''POST'' (''/admin/import-contexts'') (body)"
| "source_call_request (UpdateImportContext itemId body)
     = call ''/api/psa'' ''PUT'' (''/admin/import-contexts/'' @ itemId) (body)"
| "source_call_request (DeleteImportContext itemId) = call ''/api/psa'' ''DELETE'' (''/admin/import-contexts/'' @ itemId) (None)"
| "source_call_request GetImportAlgorithmInstances
     = call ''/api/psa'' ''GET'' (''/admin/import-contexts/algorithm-instances/import'') (None)"
| "source_call_request GetValidationAlgorithmInstances
     = call ''/api/psa'' ''GET'' (''/admin/import-contexts/algorithm-instances/validation'') (None)"
| "source_call_request GetSources = call ''/api/psm'' ''GET'' (''/sources'') (None)"
| "source_call_request (GetSourceTypes sourceCode) = call ''/api/psm'' ''GET'' (''/sources/'' @ sourceCode @ ''/types'') (None)"
| "source_call_request (SuggestSourceKeys sourceCode keyType query limit)
     = call ''/api/psm'' ''GET'' (''/sources/'' @ sourceCode @ ''/keys?'' @ key_params keyType query limit) None"

datatype registry_call =
    GetAllActions
  | GetActionsForNodeType string
  | RegisterCustomAction "json option"
  | GetPermissionGrants string string "string option"
  | AddPermissionGrant string string "json option" "json option"
  | RemovePermissionGrant string string "json option" "json option"
  | GetDomains
  | CreateDomain "json option"
  | UpdateDomain string "json option"
  | DeleteDomain string
  | GetDomainAttributes string
  | CreateDomainAttribute string "json option"
  | UpdateDomainAttribute string string "json option"
  | DeleteDomainAttribute string string

fun registry_call_request :: "registry_call \<Rightarrow> wire_call" where
  "registry_call_request GetAllActions = call ''/api/psa'' ''GET'' (''/metamodel/actions'') (None)"
| "registry_call_request (GetActionsForNodeType nodeTypeId)
     = call ''/api/psa'' ''GET'' (''/metamodel/nodetypes/'' @ nodeTypeId @ ''/actions'') (None)"
| "registry_call_request (RegisterCustomAction body) = call ''/api/psa'' ''POST'' (''/metamodel/actions'') (body)"
| "registry_call_request (GetPermissionGrants nodeTypeId permissionCode transitionId)
     = call ''/api/pno'' ''GET'' (''/nodetypes/'' @ nodeTypeId @ ''/permissions/'' @ permissionCode @ opt_query ''?transitionId='' True transitionId) (None)"
| "registry_call_request (AddPermissionGrant nodeTypeId permissionCode roleId transitionId)
     = call ''/api/pno'' ''POST'' (''/nodetypes/'' @ nodeTypeId @ ''/permissions/'' @ permissionCode)
         (Some (obj_of [(''roleId'', roleId), (''transitionId'', or_null transitionId)]))"
| "registry_call_request (RemovePermissionGrant nodeTypeId permissionCode roleId transitionId)
     = call ''/api/pno'' ''DELETE'' (''/nodetypes/'' @ nodeTypeId @ ''/permissions/'' @ permissionCode)
         (Some (obj_of [(''roleId'', roleId), (''transitionId'', or_null transitionId)]))"
| "registry_call_request GetDomains = call ''/api/psa'' ''GET'' (''/domains'') (None)"
| "registry_call_request (CreateDomain body) = call ''/api/psa'' ''POST'' (''/domains'') (body)"
| "registry_call_request (UpdateDomain domainId body) = call ''/api/psa'' ''PUT'' (''/domains/'' @ domainId) (body)"
| "registry_call_request (DeleteDomain domainId) = call ''/api/psa'' ''DELETE'' (''/domains/'' @ domainId) (None)"
| "registry_call_request (GetDomainAttributes domainId)
     = call ''/api/psa'' ''GET'' (''/domains/'' @ domainId @ ''/attributes'') (None)"
| "registry_call_request (CreateDomainAttribute domainId body)
     = call ''/api/psa'' ''POST'' (''/domains/'' @ domainId @ ''/attributes'') (body)"
| "registry_call_request (UpdateDomainAttribute domainId attrId body)
     = call ''/api/psa'' ''PUT'' (''/domains/'' @ domainId @ ''/attributes/'' @ attrId) (body)"
| "registry_call_request (DeleteDomainAttribute domainId attrId)
     = call ''/api/psa'' ''DELETE'' (''/domains/'' @ domainId @ ''/attributes/'' @ attrId) (None)"

datatype enum_call =
    GetEnums
  | GetEnumDetail string
  | CreateEnum "json option"
  | UpdateEnum string "json option"
  | DeleteEnum string
  | GetEnumValues string
  | AddEnumValue string "json option"
  | UpdateEnumValue string string "json option"
  | DeleteEnumValue string string
  | ReorderEnumValues string "json option"
  | ListBaselines
  | CreateBaseline "json option" "json option" "json option" "json option"
  | GetBaselineContent string

fun enum_call_request :: "enum_call \<Rightarrow> wire_call" where
  "enum_call_request GetEnums = call ''/api/psa'' ''GET'' (''/enums'') (None)"
| "enum_call_request (GetEnumDetail enumId) = call ''/api/psa'' ''GET'' (''/enums/'' @ enumId) (None)"
| "enum_call_request (CreateEnum body) = call ''/api/psa'' ''POST'' (''/enums'') (body)"
| "enum_call_request (UpdateEnum enumId body) = call ''/api/psa'' ''PUT'' (''/enums/'' @ enumId) (body)"
| "enum_call_request (DeleteEnum enumId) = call ''/api/psa'' ''DELETE'' (''/enums/'' @ enumId) (None)"
| "enum_call_request (GetEnumValues enumId) = call ''/api/psa'' ''GET'' (''/enums/'' @ enumId @ ''/values'') (None)"
| "enum_call_request (AddEnumValue enumId body) = call ''/api/psa'' ''POST'' (''/enums/'' @ enumId @ ''/values'') (body)"
| "enum_call_request (UpdateEnumValue enumId valueId body)
     = call ''/api/psa'' ''PUT'' (''/enums/'' @ enumId @ ''/values/'' @ valueId) (body)"
| "enum_call_request (DeleteEnumValue enumId valueId)
     = call ''/api/psa'' ''DELETE'' (''/enums/'' @ enumId @ ''/values/'' @ valueId) (None)"
| "enum_call_request (ReorderEnumValues enumId valueIds)
     = call ''/api/psa'' ''PUT'' (''/enums/'' @ enumId @ ''/values/reorder'') (valueIds)"
| "enum_call_request ListBaselines = call ''/api/psm'' ''GET'' (''/baselines'') (None)"
| "enum_call_request (CreateBaseline userId rootNodeId name description)
     = call ''/api/psm'' ''POST'' ''/baselines''
         (Some (obj_of [(''userId'', userId), (''rootNodeId'', rootNodeId), (''name'', name), (''description'', description)]))"
| "enum_call_request (GetBaselineContent baselineId)
     = call ''/api/psm'' ''GET'' (''/baselines/'' @ baselineId @ ''/content'') (None)"

datatype pno_call =
    GetRoles
  | CreateRole "json option" "json option"
  | UpdateRole string "json option" "json option"
  | DeleteRole string
  | ListProjectSpaces "string option"
  | CreateProjectSpace "json option" "json option"
  | DeactivateProjectSpace string
  | GetProjectSpaceServiceTags string
  | SetProjectSpaceServiceTags string string "json option"
  | SetProjectSpaceIsolated string "json option"
  | ListUsers
  | GetUser string
  | UpdateUser string "json option" "json option"
  | CreateUser "json option" "json option" "json option"
  | DeactivateUser string
  | ListAccessTokens string
  | CreateAccessToken string "json option" "json option"
  | RevokeAccessToken string string
  | GetUserRoles string "string option"
  | AssignRole string string string
  | RemoveRole string string string
  | SetUserAdmin string "json option"
  | SetUserDefaultSpace string "json option"
  | GetUserContext string "string option"

fun pno_call_request :: "pno_call \<Rightarrow> wire_call" where
  "pno_call_request GetRoles = call ''/api/pno'' ''GET'' (''/roles'') (None)"
| "pno_call_request (CreateRole name description)
     = call ''/api/pno'' ''POST'' (''/roles'') (Some (obj_of [(''name'', name), (''description'', description)]))"
| "pno_call_request (UpdateRole roleId name description)
     = call ''/api/pno'' ''PUT'' (''/roles/'' @ roleId) (Some (obj_of [(''name'', name), (''description'', description)]))"
| "pno_call_request (DeleteRole roleId) = call ''/api/pno'' ''DELETE'' (''/roles/'' @ roleId) (None)"
| "pno_call_request (ListProjectSpaces userId)
     = call ''/api/pno'' ''GET'' (''/project-spaces'' @ opt_query ''?userId='' True userId) (None)"
| "pno_call_request (CreateProjectSpace name description)
     = call ''/api/pno'' ''POST'' (''/project-spaces'') (Some (obj_of [(''name'', name), (''description'', description)]))"
| "pno_call_request (DeactivateProjectSpace itemId) = call ''/api/pno'' ''DELETE'' (''/project-spaces/'' @ itemId) (None)"
| "pno_call_request (GetProjectSpaceServiceTags itemId)
     = call ''/api/pno'' ''GET'' (''/project-spaces/'' @ itemId @ ''/service-tags'') (None)"
| "pno_call_request (SetProjectSpaceServiceTags itemId serviceCode tags)
     = call ''/api/pno'' ''PUT'' (''/project-spaces/'' @ itemId @ ''/service-tags/'' @ serviceCode)
         (Some (obj_of [(''tags'', tags)]))"
| "pno_call_request (SetProjectSpaceIsolated itemId isolated)
     = call ''/api/pno'' ''PUT'' (''/project-spaces/'' @ itemId @ ''/isolated'') (Some (obj_of [(''isolated'', isolated)]))"
| "pno_call_request ListUsers = call ''/api/pno'' ''GET'' (''/users'') (None)"
| "pno_call_request (GetUser targetUserId) = call ''/api/pno'' ''GET'' (''/users/'' @ targetUserId) (None)"
| "pno_call_request (UpdateUser targetUserId displayName email)
     = call ''/api/pno'' ''PUT'' (''/users/'' @ targetUserId)
         (Some (obj_of [(''displayName'', displayName), (''email'', email)]))"
| "pno_call_request (CreateUser username displayName email)
     = call ''/api/pno'' ''POST'' (''/users'')
         (Some (obj_of [(''username'', username), (''displayName'', displayName), (''email'', email)]))"
| "pno_call_request (DeactivateUser targetUserId) = call ''/api/pno'' ''DELETE'' (''/users/'' @ targetUserId) (None)"
| "pno_call_request (ListAccessTokens userId) = call ''/api/pno'' ''GET'' (''/users/'' @ userId @ ''/tokens'') (None)"
| "pno_call_request (CreateAccessToken userId label ttlDays)
     = call ''/api/pno'' ''POST'' (''/users/'' @ userId @ ''/tokens'')
         (Some (obj_of [(''label'', label), (''ttlDays'', ttlDays)]))"
| "pno_call_request (RevokeAccessToken userId tokenId)
     = call ''/api/pno'' ''DELETE'' (''/users/'' @ userId @ ''/tokens/'' @ tokenId) (None)"
| "pno_call_request (GetUserRoles targetUserId psId)
     = call ''/api/pno'' ''GET'' (''/users/'' @ targetUserId @ ''/roles'' @ opt_query ''?projectSpaceId='' True psId) (None)"
| "pno_call_request (AssignRole targetUserId roleId psId)
     = call ''/api/pno'' ''POST'' (''/users/'' @ targetUserId @ ''/roles/'' @ roleId @ ''?projectSpaceId='' @ encodeURIComponent psId) (None)"
| "pno_call_request (RemoveRole targetUserId roleId psId)
     = call ''/api/pno'' ''DELETE'' (''/users/'' @ targetUserId @ ''/roles/'' @ roleId @ ''?projectSpaceId='' @ encodeURIComponent psId) (None)"
| "pno_call_request (SetUserAdmin targetUserId isAdmin)
     = call ''/api/pno'' ''PUT'' (''/users/'' @ targetUserId @ ''/admin'') (Some (obj_of [(''isAdmin'', isAdmin)]))"
| "pno_call_request (SetUserDefaultSpace targetUserId psId)
     = call ''/api/pno'' ''PUT'' (''/users/'' @ targetUserId @ ''/default-space'')
         (Some (obj_of [(''projectSpaceId'', psId)]))"
| "pno_call_request (GetUserContext userId psId)
     = call ''/api/pno'' ''GET'' (''/users/'' @ userId @ ''/context'' @ opt_query ''?projectSpaceId='' True psId) (None)"

datatype access_call =
    GetDashboardEntries
  | ListPermissions
  | CreatePermission "json option" "json option" "json option" "json option" "json option"
  | UpdatePermission string "json option" "json option" "json option"
  | GetRolePolicies string
  | ListGlobalActions
  | GetMyGlobalPermissions
  | GetSettingsSections
  | GetUiManifest
  | GetRoleGlobalPermissions string
  | AddRoleGlobalPermission string "json option"
  | RemoveRoleGlobalPermission string string
  | GetRoleScopePermissions string string
  | AddRoleScopePermission string string "json option"
  | RemoveRoleScopePermission string string string
  | GetAccessRightsTree "string option"
  | GetGrantsForRoleAndScope string string
  | AddScopedGrant "json option"
  | RemoveScopedGrant "json option"

fun access_call_request :: "access_call \<Rightarrow> wire_call" where
  "access_call_request GetDashboardEntries = call BASE_PLATFORM ''GET'' (''/dashboard/entries'') (None)"
| "access_call_request ListPermissions = call ''/api/pno'' ''GET'' (''/permissions'') (None)"
| "access_call_request (CreatePermission permissionCode scope displayName description displayOrder)
     = call ''/api/pno'' ''POST'' (''/permissions'')
         (Some (obj_of [(''permissionCode'', permissionCode), (''scope'', scope), (''displayName'', displayName), (''description'', description), (''displayOrder'', displayOrder)]))"
| "access_call_request (UpdatePermission permissionCode displayName description displayOrder)
     = call ''/api/pno'' ''PUT'' (''/permissions/'' @ permissionCode)
         (Some (obj_of [(''displayName'', displayName), (''description'', description), (''displayOrder'', displayOrder)]))"
| "access_call_request (GetRolePolicies roleId) = call ''/api/pno'' ''GET'' (''/roles/'' @ roleId @ ''/policies'') (None)"
| "access_call_request ListGlobalActions = call ''/api/pno'' ''GET'' (''/global-actions'') (None)"
| "access_call_request GetMyGlobalPermissions = call ''/api/pno'' ''GET'' (''/my-global-permissions'') (None)"
| "access_call_request GetSettingsSections = call BASE_PLATFORM ''GET'' (''/sections'') (None)"
| "access_call_request GetUiManifest = call BASE_PLATFORM ''GET'' (''/ui/manifest'') (None)"
| "access_call_request (GetRoleGlobalPermissions roleId)
     = call ''/api/pno'' ''GET'' (''/roles/'' @ roleId @ ''/global-permissions'') (None)"
| "access_call_request (AddRoleGlobalPermission roleId permissionCode)
     = call ''/api/pno'' ''POST'' (''/roles/'' @ roleId @ ''/global-permissions'')
         (Some (obj_of [(''permissionCode'', permissionCode)]))"
| "access_call_request (RemoveRoleGlobalPermission roleId permissionCode)
     = call ''/api/pno'' ''DELETE'' (''/roles/'' @ roleId @ ''/global-permissions/'' @ permissionCode) (None)"
| "access_call_request (GetRoleScopePermissions roleId scopeCode)
     = call ''/api/pno'' ''GET'' (''/roles/'' @ roleId @ ''/scope-permissions/'' @ scopeCode) (None)"
| "access_call_request (AddRoleScopePermission roleId scopeCode permissionCode)
     = call ''/api/pno'' ''POST'' (''/roles/'' @ roleId @ ''/scope-permissions/'' @ scopeCode)
         (Some (obj_of [(''permissionCode'', permissionCode)]))"
| "access_call_request (RemoveRoleScopePermission roleId scopeCode permissionCode)
     = call ''/api/pno'' ''DELETE'' (''/roles/'' @ roleId @ ''/scope-permissions/'' @ scopeCode @ ''/'' @ permissionCode) (None)"
| "access_call_request (GetAccessRightsTree psId)
     = call ''/api/pno'' ''GET'' (''/access-rights/tree'' @ opt_query ''?projectSpaceId='' False psId) (None)"
| "access_call_request (GetGrantsForRoleAndScope roleId scopeCode)
     = call ''/api/pno'' ''GET'' (''/access-rights/roles/'' @ roleId @ ''/grants?scopeCode='' @ scopeCode) (None)"
| "access_call_request (AddScopedGrant req) = call ''/api/pno'' ''POST'' (''/access-rights/grants'') (req)"
| "access_call_request (RemoveScopedGrant req) = call ''/api/pno'' ''DELETE'' (''/access-rights/grants'') (req)"

datatype admin_call =
    ListSecrets
  | RevealSecret string
  | CreateSecret "json option" "json option"
  | UpdateSecret string "json option"
  | DeleteSecret string
  | ListAllInstances
  | ListTransitionGuards string
  | AttachTransitionGuard string "json option" "json option" "json option"
  | UpdateTransitionGuard string "json option"
  | DetachTransitionGuard string

fun admin_call_request :: "admin_call \<Rightarrow> wire_call" where
  "admin_call_request ListSecrets = call BASE_PLATFORM ''GET'' (''/admin/secrets'') (None)"
| "admin_call_request (RevealSecret key) = call BASE_PLATFORM ''GET'' (''/admin/secrets/'' @ encodeURIComponent key) (None)"
| "admin_call_request (CreateSecret key value)
     = call BASE_PLATFORM ''POST'' (''/admin/secrets'') (Some (obj_of [(''key'', key), (''value'', value)]))"
| "admin_call_request (UpdateSecret key value)
     = call BASE_PLATFORM ''PUT'' (''/admin/secrets/'' @ encodeURIComponent key) (Some (obj_of [(''value'', value)]))"
| "admin_call_request (DeleteSecret key) = call BASE_PLATFORM ''DELETE'' (''/admin/secrets/'' @ encodeURIComponent key) (None)"
| "admin_call_request ListAllInstances = call BASE_PLATFORM ''GET'' (''/algorithms/instances'') (None)"
| "admin_call_request (ListTransitionGuards transitionId)
     = call ''/api/psa'' ''GET'' (''/metamodel/lifecycles/transitions/'' @ transitionId @ ''/guards'') (None)"
| "admin_call_request (AttachTransitionGuard transitionId instanceId effect displayOrder)
     = call ''/api/psa'' ''POST'' (''/metamodel/lifecycles/transitions/'' @ transitionId @ ''/guards'')
         (Some (obj_of [(''instanceId'', instanceId), (''effect'', effect), (''displayOrder'', displayOrder)]))"
| "admin_call_request (UpdateTransitionGuard guardId effect)
     = call ''/api/psa'' ''PUT'' (''/metamodel/lifecycles/transitions/guards/'' @ guardId) (Some (obj_of [(''effect'', effect)]))"
| "admin_call_request (DetachTransitionGuard guardId)
     = call ''/api/psa'' ''DELETE'' (''/metamodel/lifecycles/transitions/guards/'' @ guardId) (None)"

datatype platform_call =
    PlatformListActions "string option"
  | PlatformGetAction string
  | PlatformCreateAction "json option"
  | PlatformUpdateAction string "json option"
  | PlatformDeleteAction string
  | PlatformListParameters string
  | PlatformAddParameter string "json option"
  | PlatformListActionGuards string
  | PlatformAttachActionGuard string "json option" "json option" "json option"
  | PlatformUpdateActionGuard string string "json option"
  | PlatformDetachActionGuard string string
  | PlatformListAlgorithmTypes "string option"
  | PlatformListAlgorithms "string option"
  | PlatformListAlgorithmParameters string
  | PlatformListAllInstances "string option"
  | PlatformCreateInstance "json option" "json option" "json option"
  | PlatformUpdateInstance string "json option"
  | PlatformDeleteInstance string
  | PlatformGetInstanceParams string
  | PlatformSetInstanceParam string string "json option"
  | PlatformGetAlgorithmStats "string option"
  | PlatformGetAlgorithmTimeseries "string option" "string option"
  | PlatformResetAlgorithmStats "string option"
  | PlatformListActionWrappers string
  | PlatformAttachActionWrapper string "json option" "json option" "json option"
  | PlatformDetachActionWrapper string string
  | PlatformGetRegisteredServices

fun platform_call_request :: "platform_call \<Rightarrow> wire_call" where
  "platform_call_request (PlatformListActions serviceCode)
     = call BASE_PLATFORM ''GET'' (''/actions'' @ opt_query ''?serviceCode='' True serviceCode) (None)"
| "platform_call_request (PlatformGetAction actionId) = call BASE_PLATFORM ''GET'' (''/actions/'' @ actionId) (None)"
| "platform_call_request (PlatformCreateAction body) = call BASE_PLATFORM ''POST'' (''/actions'') (body)"
| "platform_call_request (PlatformUpdateAction actionId body) = call BASE_PLATFORM ''PUT'' (''/actions/'' @ actionId) (body)"
| "platform_call_request (PlatformDeleteAction actionId) = call BASE_PLATFORM ''DELETE'' (''/actions/'' @ actionId) (None)"
| "platform_call_request (PlatformListParameters actionId)
     = call BASE_PLATFORM ''GET'' (''/actions/'' @ actionId @ ''/parameters'') (None)"
| "platform_call_request (PlatformAddParameter actionId body)
     = call BASE_PLATFORM ''POST'' (''/actions/'' @ actionId @ ''/parameters'') (body)"
| "platform_call_request (PlatformListActionGuards actionId)
     = call BASE_PLATFORM ''GET'' (''/actions/'' @ actionId @ ''/guards'') (None)"
| "platform_call_request (PlatformAttachActionGuard actionId instanceId effect displayOrder)
     = call BASE_PLATFORM ''POST'' (''/actions/'' @ actionId @ ''/guards'')
         (Some (obj_of [(''instanceId'', instanceId), (''effect'', effect), (''displayOrder'', displayOrder)]))"
| "platform_call_request (PlatformUpdateActionGuard actionId guardId effect)
     = call BASE_PLATFORM ''PUT'' (''/actions/'' @ actionId @ ''/guards/'' @ guardId) (Some (obj_of [(''effect'', effect)]))"
| "platform_call_request (PlatformDetachActionGuard actionId guardId)
     = call BASE_PLATFORM ''DELETE'' (''/actions/'' @ actionId @ ''/guards/'' @ guardId) (None)"
| "platform_call_request (PlatformListAlgorithmTypes serviceCode)
     = call BASE_PLATFORM ''GET'' (''/algorithms/types'' @ opt_query ''?serviceCode='' True serviceCode) (None)"
| "platform_call_request (PlatformListAlgorithms serviceCode)
     = call BASE_PLATFORM ''GET'' (''/algorithms'' @ opt_query ''?serviceCode='' True serviceCode) (None)"
| "platform_call_request (PlatformListAlgorithmParameters algorithmId)
     = call BASE_PLATFORM ''GET'' (''/algorithms/'' @ algorithmId @ ''/parameters'') (None)"
| "platform_call_request (PlatformListAllInstances serviceCode)
     = call BASE_PLATFORM ''GET'' (''/algorithms/instances'' @ opt_query ''?serviceCode='' True serviceCode) (None)"
| "platform_call_request (PlatformCreateInstance algorithmId name serviceCode)
     = call BASE_PLATFORM ''POST'' (''/algorithms/instances'')
         (Some (obj_of [(''algorithmId'', algorithmId), (''name'', name), (''serviceCode'', serviceCode)]))"
| "platform_call_request (PlatformUpdateInstance instanceId name)
     = call BASE_PLATFORM ''PUT'' (''/algorithms/instances/'' @ instanceId) (Some (obj_of [(''name'', name)]))"
| "platform_call_request (PlatformDeleteInstance instanceId)
     = call BASE_PLATFORM ''DELETE'' (''/algorithms/instances/'' @ instanceId) (None)"
| "platform_call_request (PlatformGetInstanceParams instanceId)
     = call BASE_PLATFORM ''GET'' (''/algorithms/instances/'' @ instanceId @ ''/params'') (None)"
| "platform_call_request (PlatformSetInstanceParam instanceId parameterId value)
     = call BASE_PLATFORM ''PUT'' (''/algorithms/instances/'' @ instanceId @ ''/params/'' @ parameterId)
         (Some (obj_of [(''value'', value)]))"
| "platform_call_request (PlatformGetAlgorithmStats serviceCode)
     = call BASE_PLATFORM ''GET'' (''/algorithms/stats'' @ opt_query ''?serviceCode='' True serviceCode) (None)"
| "platform_call_request (PlatformGetAlgorithmTimeseries hours serviceCode)
     = call BASE_PLATFORM ''GET'' (''/algorithms/stats/timeseries?hours='' @ (case hours of None \<Rightarrow> ''24'' | Some h \<Rightarrow> h) @ opt_query ''&serviceCode='' True serviceCode) None"
| "platform_call_request (PlatformResetAlgorithmStats serviceCode)
     = call BASE_PLATFORM ''DELETE'' (''/algorithms/stats'' @ opt_query ''?serviceCode='' True serviceCode) (None)"
| "platform_call_request (PlatformListActionWrappers actionId)
     = call BASE_PLATFORM ''GET'' (''/algorithms/actions/'' @ actionId @ ''/wrappers'') (None)"
| "platform_call_request (PlatformAttachActionWrapper actionId instanceId executionOrder serviceCode)
     = call BASE_PLATFORM ''POST'' (''/algorithms/actions/'' @ actionId @ ''/wrappers'')
         (Some (obj_of [(''instanceId'', instanceId), (''executionOrder'', executionOrder), (''serviceCode'', serviceCode)]))"
| "platform_call_request (PlatformDetachActionWrapper actionId wrapperId)
     = call BASE_PLATFORM ''DELETE'' (''/algorithms/actions/'' @ actionId @ ''/wrappers/'' @ wrapperId) (None)"
| "platform_call_request PlatformGetRegisteredServices = call BASE_PLATFORM ''GET'' (''/algorithms/services'') (None)"

datatype basket_call =
    BasketList string
  | BasketAdd string string string string
  | BasketRemove string string string string
  | BasketClear string

fun basket_call_request :: "basket_call \<Rightarrow> wire_call" where
  "basket_call_request (BasketList userId)
     = call ''/api/pno'' ''GET'' (''/users/'' @ encodeURIComponent userId @ ''/basket'') (None)"
| "basket_call_request (BasketAdd userId source typeCode itemId)
     = call ''/api/pno'' ''PUT'' (''/users/'' @ encodeURIComponent userId @ ''/basket/'' @ encodeURIComponent source @ ''/'' @ encodeURIComponent typeCode @ ''/'' @ encodeURIComponent itemId) (None)"
| "basket_call_request (BasketRemove userId source typeCode itemId)
     = call ''/api/pno'' ''DELETE'' (''/users/'' @ encodeURIComponent userId @ ''/basket/'' @ encodeURIComponent source @ ''/'' @ encodeURIComponent typeCode @ ''/'' @ encodeURIComponent itemId) (None)"
| "basket_call_request (BasketClear userId)
     = call ''/api/pno'' ''DELETE'' (''/users/'' @ encodeURIComponent userId @ ''/basket'') (None)"

datatype kv_call =
    KvGetSingle string string string
  | KvSetSingle string string string string

fun kv_call_request :: "kv_call \<Rightarrow> wire_call" where
  "kv_call_request (KvGetSingle userId grp key)
     = call ''/api/pno'' ''GET'' (''/users/'' @ encodeURIComponent userId @ ''/kv/'' @ encodeURIComponent grp @ ''/single/'' @ encodeURIComponent key) (None)"
| "kv_call_request (KvSetSingle userId grp key value)
     = call ''/api/pno'' ''PUT'' (''/users/'' @ encodeURIComponent userId @ ''/kv/'' @ encodeURIComponent grp @ ''/single/'' @ encodeURIComponent key @ ''/'' @ encodeURIComponent value) (None)"

section \<open>Facts\<close>

datatype api_call =
    Spe spe_call | Nodes node_call | Links link_call | Lifecycles lifecycle_call | NodeTypes nodetype_call
  | Sources source_call | Registry registry_call | Enums enum_call | Pno pno_call | Access access_call
  | Admin admin_call | Platform platform_call | Basket basket_call | Kv kv_call

fun api_request :: "api_call \<Rightarrow> wire_call" where
  "api_request (Spe a) = spe_call_request a"
| "api_request (Nodes a) = node_call_request a"
| "api_request (Links a) = link_call_request a"
| "api_request (Lifecycles a) = lifecycle_call_request a"
| "api_request (NodeTypes a) = nodetype_call_request a"
| "api_request (Sources a) = source_call_request a"
| "api_request (Registry a) = registry_call_request a"
| "api_request (Enums a) = enum_call_request a"
| "api_request (Pno a) = pno_call_request a"
| "api_request (Access a) = access_call_request a"
| "api_request (Admin a) = admin_call_request a"
| "api_request (Platform a) = platform_call_request a"
| "api_request (Basket a) = basket_call_request a"
| "api_request (Kv a) = kv_call_request a"

definition perform :: "network \<Rightarrow> api_call \<Rightarrow> client \<Rightarrow> (thrown + json) \<times> client" where
  \<comment> \<open>\<open>doFetch(base, method, path, body)\<close>\<close>
  "perform net a c = (let q = api_request a in doFetch net (c_base q) (c_method q) (c_path q) (c_body q) None False c)"

definition well_formed :: "wire_call \<Rightarrow> bool" where
  "well_formed q \<longleftrightarrow> c_base q \<in> {''/api/psa'', ''/api/psm'', ''/api/pno'', ''/api/platform''}
     \<and> c_method q \<in> {''GET'', ''POST'', ''PUT'', ''PATCH'', ''DELETE''}
     \<and> starts_with (c_path q) ''/'' \<and> (c_method q = ''GET'' \<longrightarrow> c_body q = None)"

lemmas well_formed_simps = well_formed_def call_def BASE_PLATFORM_def starts_with_def

lemma well_formed_tables:
  "well_formed (spe_call_request a1)" "well_formed (node_call_request a2)" "well_formed (link_call_request a3)"
  "well_formed (lifecycle_call_request a4)" "well_formed (nodetype_call_request a5)" "well_formed (source_call_request a6)"
  "well_formed (registry_call_request a7)" "well_formed (enum_call_request a8)" "well_formed (pno_call_request a9)"
  "well_formed (access_call_request a10)" "well_formed (admin_call_request a11)" "well_formed (platform_call_request a12)"
  "well_formed (basket_call_request a13)" "well_formed (kv_call_request a14)"
  subgoal by (cases a1) (simp_all add: well_formed_simps)
  subgoal by (cases a2) (simp_all add: well_formed_simps Let_def split: option.split)
  subgoal by (cases a3) (simp_all add: well_formed_simps)
  subgoal by (cases a4) (simp_all add: well_formed_simps)
  subgoal by (cases a5) (simp_all add: well_formed_simps)
  subgoal by (cases a6) (simp_all add: well_formed_simps)
  subgoal by (cases a7) (simp_all add: well_formed_simps)
  subgoal by (cases a8) (simp_all add: well_formed_simps)
  subgoal by (cases a9) (simp_all add: well_formed_simps)
  subgoal by (cases a10) (simp_all add: well_formed_simps)
  subgoal by (cases a11) (simp_all add: well_formed_simps)
  subgoal by (cases a12) (simp_all add: well_formed_simps)
  subgoal by (cases a13) (simp_all add: well_formed_simps)
  subgoal by (cases a14) (simp_all add: well_formed_simps)
  done


text \<open>The basket and preference calls keep their arguments apart: whatever characters a user
  name, a source, a type code, an item or a preference value contains, slashes included, two calls
  that send the same request are the same call.\<close>

theorem encoded_paths_injective: "inj basket_call_request \<and> inj kv_call_request"
proof
  show "inj basket_call_request"
  proof (rule injI)
    fix a b assume "basket_call_request a = basket_call_request b"
    then show "a = b" by (cases a; cases b) (simp_all add: call_def encodeURIComponent_inj)
  qed
  show "inj kv_call_request"
  proof (rule injI)
    fix a b assume "kv_call_request a = kv_call_request b"
    then show "a = b" by (cases a; cases b) (simp_all add: call_def encodeURIComponent_inj)
  qed
qed

text \<open>The calls that put an argument into the path as it is do not: suggesting the keys of a source
  whose code is \<open>a/types?x=\<close> goes to the route that lists the types of source \<open>a\<close>, the rest of the
  path being its query, although the same operation elsewhere encodes the source.\<close>

theorem unencoded_paths_collide:
  "\<exists>rest. source_call_request (SuggestSourceKeys ''a/types?x='' None None None) =
      source_call_request (GetSourceTypes ''a'')\<lparr>c_path := c_path (source_call_request (GetSourceTypes ''a'')) @ ''?'' @ rest\<rparr>"
  by (rule exI [of _ "''x=/keys?limit=25''"]) code_simp

end
