(* ===== verification/ApiCalls.thy ===== *)
theory ApiCalls
  imports ApiClient
begin

text \<open>
  The calls of \<open>frontend/src/services/api.js\<close> that do more than forward a request: paging, item
  detail and creation, capped text download, search, transactions, uploads and the actions of a
  node. A file upload is a form; the browser's \<open>XMLHttpRequest\<close> is one more request of the network.
\<close>

section \<open>Errors and strings\<close>

definition swallowStatus :: "int list \<Rightarrow> (thrown + json) \<Rightarrow> thrown + json" where
  "swallowStatus statuses res = (case res of Inr v \<Rightarrow> Inr v
     | Inl e \<Rightarrow> if t_kind e = ApiErrorKind \<and> (case t_status e of Some s \<Rightarrow> s \<in> set statuses | None \<Rightarrow> False) then Inr JNull
       else Inl e)"

fun expand_replacement :: "string \<Rightarrow> string \<Rightarrow> string \<Rightarrow> string \<Rightarrow> string" where
  \<comment> \<open>the \<open>$\<close> patterns of a replacement text: before, match, after\<close>
  "expand_replacement b m a (x # y # r) =
     (if x \<noteq> CHR ''$'' then x # expand_replacement b m a (y # r)
      else if y = CHR ''$'' then CHR ''$'' # expand_replacement b m a r
      else if y = CHR ''&'' then m @ expand_replacement b m a r
      else if y = CHR 0x60 then b @ expand_replacement b m a r
      else if y = CHR 0x27 then a @ expand_replacement b m a r
      else x # expand_replacement b m a (y # r))"
| "expand_replacement b m a s = s"

definition replace_first :: "string \<Rightarrow> string \<Rightarrow> string \<Rightarrow> string" where
  \<comment> \<open>\<open>s.replace(pattern, replacement)\<close> with two strings\<close>
  "replace_first pat repl s = (case find_sub pat s of None \<Rightarrow> s
     | Some i \<Rightarrow> (let b = take i s; a = drop (i + length pat) s in b @ expand_replacement b pat a repl @ a))"

definition str_or :: "string option \<Rightarrow> string \<Rightarrow> string" where
  \<comment> \<open>\<open>s || d\<close>\<close>
  "str_or s d = (case s of None \<Rightarrow> d | Some t \<Rightarrow> if t = [] then d else t)"

section \<open>Lists\<close>

record page =
  pg_items :: "json list"
  pg_totalElements :: json
  pg_totalPages :: json
  pg_page :: json
  pg_size :: json

definition coalesce_to :: "json option \<Rightarrow> json \<Rightarrow> json" where
  "coalesce_to v d = (if nullish v then d else the v)"

definition page_of :: "string \<Rightarrow> json \<Rightarrow> json list \<Rightarrow> int \<Rightarrow> int \<Rightarrow> page" where
  "page_of number body xs page sz =
     \<lparr>pg_items = xs, pg_totalElements = coalesce_to (jprop (Some body) ''totalElements'') (JNum (int (length xs))),
      pg_totalPages = coalesce_to (jprop (Some body) ''totalPages'') (JNum 1),
      pg_page = coalesce_to (jprop (Some body) number) (JNum page),
      pg_size = coalesce_to (jprop (Some body) ''size'') (JNum sz)\<rparr>"

definition normalisePage :: "json \<Rightarrow> int \<Rightarrow> int \<Rightarrow> page" where
  "normalisePage body page sz =
     (case body of
        JArr xs \<Rightarrow> \<lparr>pg_items = xs, pg_totalElements = JNum (int (length xs)), pg_totalPages = JNum 1, pg_page = JNum page, pg_size = JNum sz\<rparr>
      | _ \<Rightarrow> (case jprop (Some body) ''content'' of Some (JArr xs) \<Rightarrow> page_of ''number'' body xs page sz
         | _ \<Rightarrow> (case jprop (Some body) ''items'' of Some (JArr xs) \<Rightarrow> page_of ''page'' body xs page sz
            | _ \<Rightarrow> \<lparr>pg_items = [], pg_totalElements = JNum 0, pg_totalPages = JNum 0, pg_page = JNum page, pg_size = JNum sz\<rparr>)))"

record list_action =
  la_path :: string
  la_pageParam :: "string option"
  la_sizeParam :: "string option"

definition detail_message :: "response \<Rightarrow> json \<Rightarrow> thrown + string" where
  \<comment> \<open>\<open>detail.violations?.length ? detail.violations.join('; ') : ...\<close>\<close>
  "detail_message r detail =
     (if detail = JNull then Inl type_error
      else let fallback = opt_string (js_or (js_or (jprop (Some detail) ''error'') (jprop (Some detail) ''message'')) (http_text r))
      in case jprop (Some detail) ''violations'' of
           Some (JArr vs) \<Rightarrow> Inr (if vs = [] then fallback
             else join ''; '' (map (\<lambda>v. case v of JNull \<Rightarrow> [] | _ \<Rightarrow> js_string v) vs))
         | Some (JStr s) \<Rightarrow> if s = [] then Inr fallback else Inl type_error
         | _ \<Rightarrow> Inr fallback)"

definition detail_error :: "response \<Rightarrow> thrown" where
  "detail_error r = (let detail = error_payload r in
     case detail_message r detail of Inl e \<Rightarrow> e | Inr msg \<Rightarrow> (plain msg)\<lparr>t_detail := Some detail\<rparr>)"

definition list_url :: "string option \<Rightarrow> list_action \<Rightarrow> int \<Rightarrow> int \<Rightarrow> string" where
  "list_url serviceCode a page sz =
     (case serviceCode of None \<Rightarrow> [] | Some s \<Rightarrow> if s = [] then [] else serviceBase s) @ la_path a
     @ (if str_includes (la_path a) ''?'' then ''&'' else ''?'') @ str_or (la_pageParam a) ''page'' @ ''='' @ digits_of_int page
     @ ''&'' @ str_or (la_sizeParam a) ''size'' @ ''='' @ digits_of_int sz"

definition fetchListableItems ::
  "network \<Rightarrow> string option \<Rightarrow> list_action \<Rightarrow> int \<Rightarrow> int \<Rightarrow> client \<Rightarrow> (thrown + page) \<times> client" where
  "fetchListableItems net serviceCode a page sz c =
     (case timedFetch net \<lparr>rq_method = ''GET'', rq_url = list_url serviceCode a page sz, rq_headers = bearer c, rq_body = NoBody\<rparr> c of
        (NetworkFailure _, c) \<Rightarrow> (Inl network_error, c)
      | (Reply r, c) \<Rightarrow>
          if \<not> r_ok r then (Inl (detail_error r), c)
          else (case parse_text r of Inl e \<Rightarrow> Inl e | Inr body \<Rightarrow> Inr (normalisePage body page sz), c))"

section \<open>Item detail and creation\<close>

record item_action =
  ia_path :: string
  ia_httpMethod :: "string option"
  ia_bodyShape :: "string option"
  ia_transitionId :: "string option"        \<comment> \<open>\<open>metadata?.transitionId\<close>\<close>

definition fetchItemDetail ::
  "network \<Rightarrow> string \<Rightarrow> item_action \<Rightarrow> string \<Rightarrow> (string \<times> json) list \<Rightarrow> client \<Rightarrow> (thrown + json) \<times> client" where
  "fetchItemDetail net serviceCode getAction itemId extraParams c =
     (let path = replace_first ''{id}'' itemId (ia_path getAction);
          qs = join ''&'' (map (\<lambda>(k, v). k @ ''='' @ encodeURIComponent (js_string v))
                 (filter (\<lambda>(_, v). v \<noteq> JNull) (obj_entries extraParams)))
      in gatewayJson net (str_or (ia_httpMethod getAction) ''GET'')
           (serviceBase serviceCode @ path @ (if qs = [] then [] else ''?'' @ qs)) None False c)"

definition form_of :: "(string \<times> json) list \<Rightarrow> payload" where
  \<comment> \<open>one part per value that is neither null nor empty\<close>
  "form_of values = FormBody (filter (\<lambda>(_, v). v \<noteq> JNull \<and> v \<noteq> JStr []) (obj_entries values))"

definition submitItemCreate ::
  "network \<Rightarrow> string \<Rightarrow> item_action \<Rightarrow> (string \<times> json) list \<Rightarrow> client \<Rightarrow> (thrown + json) \<times> client" where
  "submitItemCreate net serviceCode action values c =
     (let method = toUpperCase (str_or (ia_httpMethod action) ''POST'');
          shape = toUpperCase (str_or (ia_bodyShape action) ''RAW'');
          rq = \<lparr>rq_method = method, rq_url = serviceBase serviceCode @ ia_path action,
                rq_headers = bearer c @ (if shape = ''MULTIPART'' then [] else [(''Content-Type'', ''application/json'')]),
                rq_body = (if shape = ''MULTIPART'' then form_of values
                           else if shape = ''WRAPPED'' then JsonBody (JObj [(''parameters'', JObj values)])
                           else JsonBody (JObj values))\<rparr>
      in case timedFetch net rq c of
           (NetworkFailure _, c) \<Rightarrow> (Inl network_error, c)
         | (Reply r, c) \<Rightarrow>
             if r_ok r then (parse_text r, c)
             else (case detail_message r (error_payload r) of
                     Inl e \<Rightarrow> (Inl e, c)
                   | Inr _ \<Rightarrow> (Inl (detail_error r), if onErrorSet c then c\<lparr>modals := modals c @ [detail_error r]\<rparr> else c)))"

section \<open>Capped download\<close>

fun read_capped :: "nat \<Rightarrow> string list \<Rightarrow> nat \<Rightarrow> string list \<Rightarrow> string list \<times> nat" where
  \<comment> \<open>the reader loop: chunks still to come, bytes so far, chunks so far\<close>
  "read_capped maxBytes [] tot chunks = (chunks, tot)"
| "read_capped maxBytes (v # vs) tot chunks =
     (let tot' = tot + length v; chunks' = chunks @ [v]
      in if tot' \<ge> maxBytes then (chunks', tot') else read_capped maxBytes vs tot' chunks')"

record raw_text =
  rt_text :: string
  rt_truncated :: bool
  rt_totalBytes :: "int option"

definition total_of_range :: "string option \<Rightarrow> int option" where
  "total_of_range contentRange = (case contentRange of None \<Rightarrow> None
     | Some s \<Rightarrow> if s = [] then None
         else (case tl (split_on (CHR ''/'') s) of [] \<Rightarrow> None
               | p # _ \<Rightarrow> (case parse_int p of None \<Rightarrow> None | Some n \<Rightarrow> if n = 0 then None else Some n)))"

definition gatewayRawText ::
  "network \<Rightarrow> (response \<Rightarrow> string list) \<Rightarrow> (response \<Rightarrow> string option) \<Rightarrow> (string \<Rightarrow> string) \<Rightarrow> string \<Rightarrow> nat \<Rightarrow> client
    \<Rightarrow> (thrown + raw_text) \<times> client" where
  \<comment> \<open>the body as the reader delivers it, the \<open>Content-Range\<close> header, and the UTF-8 decoder\<close>
  "gatewayRawText net stream contentRange decode url maxBytes c =
     (case timedFetch net \<lparr>rq_method = ''GET'', rq_url = url,
         rq_headers = bearer c @ [(''Range'', ''bytes=0-'' @ digits_of_int (int maxBytes - 1))], rq_body = NoBody\<rparr> c of
        (NetworkFailure _, c) \<Rightarrow> (Inl network_error, c)
      | (Reply r, c) \<Rightarrow>
          if \<not> r_ok r \<and> r_status r \<noteq> 206 then (Inl (plain (''HTTP '' @ digits_of_int (r_status r))), c)
          else (case read_capped maxBytes (stream r) 0 [] of (chunks, tot) \<Rightarrow>
                  (Inr \<lparr>rt_text = decode (concat chunks), rt_truncated = (r_status r = 206 \<or> tot \<ge> maxBytes),
                        rt_totalBytes = total_of_range (contentRange r)\<rparr>, c)))"

section \<open>Plain reads\<close>

definition status_error :: "string \<Rightarrow> response \<Rightarrow> thrown" where
  "status_error prefix r = plain (prefix @ ''HTTP '' @ digits_of_int (r_status r))"

definition plain_call ::
  "network \<Rightarrow> http_request \<Rightarrow> (response \<Rightarrow> thrown + 'v) \<Rightarrow> (response \<Rightarrow> thrown + 'v) \<Rightarrow> client \<Rightarrow> (thrown + 'v) \<times> client" where
  \<comment> \<open>one timed fetch, \<open>bad\<close> when the answer is not ok and \<open>good\<close> otherwise\<close>
  "plain_call net rq bad good c = (case timedFetch net rq c of (NetworkFailure _, c) \<Rightarrow> (Inl network_error, c)
     | (Reply r, c) \<Rightarrow> (if r_ok r then good r else bad r, c))"

definition searchNodes ::
  "network \<Rightarrow> json \<Rightarrow> json option \<Rightarrow> json option \<Rightarrow> json option \<Rightarrow> json option \<Rightarrow> client \<Rightarrow> (thrown + json) \<times> client" where
  "searchNodes net query filterTerms rangeFilters facetOn limit c =
     (let dflt = (\<lambda>v d. case v of None \<Rightarrow> d | Some w \<Rightarrow> w)
      in plain_call net \<lparr>rq_method = ''POST'', rq_url = serviceBase ''search'' @ ''/search'',
          rq_headers = (''Content-Type'', ''application/json'') # bearer c,
          rq_body = JsonBody (JObj [(''query'', query), (''filterTerms'', dflt filterTerms (JObj [])), (''rangeFilters'', dflt rangeFilters (JObj [])),
            (''facetOn'', dflt facetOn (JArr [JStr ''_type'', JStr ''*''])), (''size'', dflt limit (JNum 100))])\<rparr>
        (\<lambda>r. let d = error_payload r in
           Inl (if d = JNull then type_error
                else \<lparr>t_kind = ApiErrorKind, t_status = Some (r_status r),
                   t_message = opt_string (js_or (jprop (Some d) ''error'') (http_text r)), t_detail = Some d\<rparr>))
        res_json c)"

definition searchInfo :: "network \<Rightarrow> client \<Rightarrow> (thrown + json) \<times> client" where
  "searchInfo net c = plain_call net \<lparr>rq_method = ''GET'', rq_url = serviceBase ''search'' @ ''/search/info'', rq_headers = bearer c, rq_body = NoBody\<rparr>
     (\<lambda>_. Inr (JObj [(''available'', JBool False), (''nodeCount'', JNum 0), (''edgeCount'', JNum 0)])) res_json c"

definition reindexSearch :: "network \<Rightarrow> client \<Rightarrow> (thrown + json) \<times> client" where
  "reindexSearch net c = doFetch net (serviceBase ''psm'') ''POST'' ''/nodes/internal/search/reindex'' (Some (JObj [])) None False c"

definition searchChildren :: "network \<Rightarrow> string \<Rightarrow> client \<Rightarrow> (thrown + json) \<times> client" where
  "searchChildren net nodeId c = plain_call net \<lparr>rq_method = ''GET'',
     rq_url = serviceBase ''search'' @ ''/search/children/'' @ encodeURIComponent nodeId, rq_headers = bearer c, rq_body = NoBody\<rparr>
     (\<lambda>r. Inl (status_error [] r)) res_json c"

definition getServiceCatalog :: "network \<Rightarrow> string \<Rightarrow> client \<Rightarrow> (thrown + json) \<times> client" where
  "getServiceCatalog net serviceCode c =
     (case doFetch net BASE_PLATFORM ''GET'' ''/registry/actions'' None None False c of
        (Inl e, c) \<Rightarrow> (Inl e, c)
      | (Inr dat, c) \<Rightarrow> (Inr (the (js_or (jprop (jprop (Some dat) ''services'') serviceCode)
            (Some (JObj [(''handlers'', JArr []), (''guards'', JArr [])])))), c))"

definition bearer_always :: "client \<Rightarrow> (string \<times> string) list" where
  "bearer_always c = [(''Authorization'', ''Bearer '' @ (case sessionToken c of None \<Rightarrow> ''null'' | Some t \<Rightarrow> js_string t))]"

definition downloadFile :: "network \<Rightarrow> string \<Rightarrow> client \<Rightarrow> (thrown + body_text) \<times> client" where
  "downloadFile net uuid c = plain_call net \<lparr>rq_method = ''GET'', rq_url = ''/api/dst/data/'' @ uuid, rq_headers = bearer_always c, rq_body = NoBody\<rparr>
     (\<lambda>r. Inl (status_error ''Download failed: '' r)) (\<lambda>r. Inr (r_text r)) c"

definition getStats :: "network \<Rightarrow> client \<Rightarrow> (thrown + json) \<times> client" where
  "getStats net c = plain_call net \<lparr>rq_method = ''GET'', rq_url = ''/api/dst/stats'', rq_headers = bearer_always c, rq_body = NoBody\<rparr>
     (\<lambda>r. Inl (status_error ''Stats failed: '' r)) res_json c"

definition json_headers :: "client \<Rightarrow> (string \<times> string) list" where
  "json_headers c = (''Content-Type'', ''application/json'') # bearer c"

definition pollJobStatus :: "network \<Rightarrow> string \<Rightarrow> string \<Rightarrow> client \<Rightarrow> (thrown + json) \<times> client" where
  "pollJobStatus net serviceCode jobStatusUrl c = plain_call net \<lparr>rq_method = ''GET'', rq_url = ''/api/'' @ serviceCode @ jobStatusUrl,
     rq_headers = json_headers c, rq_body = NoBody\<rparr> (\<lambda>r. Inl (status_error [] r)) res_json c"

definition getJobStatus :: "network \<Rightarrow> string \<Rightarrow> client \<Rightarrow> (thrown + json) \<times> client" where
  "getJobStatus net jobId c = plain_call net \<lparr>rq_method = ''GET'', rq_url = ''/api/psm/cad/jobs/'' @ jobId,
     rq_headers = json_headers c, rq_body = NoBody\<rparr> (\<lambda>r. Inl (status_error [] r)) res_json c"

definition getImportContexts :: "network \<Rightarrow> client \<Rightarrow> (thrown + json) \<times> client" where
  "getImportContexts net c = plain_call net \<lparr>rq_method = ''GET'', rq_url = ''/api/psm/cad/import-contexts'',
     rq_headers = json_headers c, rq_body = NoBody\<rparr> (\<lambda>_. Inr (JArr [])) res_json c"

section \<open>Uploads\<close>

definition body_string :: "response \<Rightarrow> string \<Rightarrow> string" where
  \<comment> \<open>\<open>await res.text()\<close>; the text of a JSON answer is the parameter\<close>
  "body_string r json_text = (case r_text r of EmptyText \<Rightarrow> [] | OtherText s \<Rightarrow> s | JsonText _ \<Rightarrow> json_text)"

definition text_error :: "response \<Rightarrow> string \<Rightarrow> thrown" where
  "text_error r json_text = plain (''HTTP '' @ digits_of_int (r_status r) @ '': '' @ body_string r json_text)"

definition uploadWithProgress :: "network \<Rightarrow> http_request \<Rightarrow> client \<Rightarrow> (thrown + response) \<times> client" where
  \<comment> \<open>not timed; \<open>onProgress\<close> calls are not modelled\<close>
  "uploadWithProgress net rq c = (case net (sent c) rq of
       NetworkFailure _ \<Rightarrow> (Inl (plain ''Network error during upload''), c\<lparr>sent := sent c @ [rq]\<rparr>)
     | Reply r \<Rightarrow> (Inr r, c\<lparr>sent := sent c @ [rq]\<rparr>))"

definition send_form :: "network \<Rightarrow> bool \<Rightarrow> http_request \<Rightarrow> client \<Rightarrow> (thrown + response) \<times> client" where
  \<comment> \<open>\<open>onProgress ? await uploadWithProgress(...) : await timedFetch(...)\<close>\<close>
  "send_form net progress rq c = (if progress then uploadWithProgress net rq c
     else (case timedFetch net rq c of (NetworkFailure _, c) \<Rightarrow> (Inl network_error, c) | (Reply r, c) \<Rightarrow> (Inr r, c)))"

definition submitImport ::
  "network \<Rightarrow> (json \<Rightarrow> string) \<Rightarrow> json \<Rightarrow> string \<Rightarrow> string option \<Rightarrow> bool \<Rightarrow> client \<Rightarrow> (thrown + json) \<times> client" where
  "submitImport net stringify upload rootNodeId contextCode progress c =
     (let rq = \<lparr>rq_method = ''POST'', rq_url = ''/api/psm/cad/import/'' @ rootNodeId, rq_headers = bearer c,
            rq_body = FormBody ((''file'', upload) # (case contextCode of Some s \<Rightarrow> if s = [] then [] else [(''contextCode'', JStr s)] | None \<Rightarrow> []))\<rparr>
      in case send_form net progress rq c of
           (Inl e, c) \<Rightarrow> (Inl e, c)
         | (Inr r, c) \<Rightarrow> (if r_ok r then res_json r
              else Inl (text_error r (case r_text r of JsonText j \<Rightarrow> stringify j | _ \<Rightarrow> [])), c))"

section \<open>Transactions and actions\<close>

definition txRequest :: "network \<Rightarrow> string \<Rightarrow> string \<Rightarrow> string option \<Rightarrow> json option \<Rightarrow> client \<Rightarrow> (thrown + json) \<times> client" where
  "txRequest net method path txId body c = doFetch net (serviceBase ''psm'') method path body txId False c"

definition authHeaders :: "string option \<Rightarrow> client \<Rightarrow> (string \<times> string) list" where
  "authHeaders txId c = (''Content-Type'', ''application/json'') # bearer c
     @ (case txId of Some t \<Rightarrow> if t \<noteq> [] then [(''X-PLM-Tx'', t)] else [] | None \<Rightarrow> [])"

definition platformRequest :: "network \<Rightarrow> string \<Rightarrow> string \<Rightarrow> json option \<Rightarrow> client \<Rightarrow> (thrown + json) \<times> client" where
  "platformRequest net method path body c = doFetch net BASE_PLATFORM method path body None False c"

definition tx_open :: "network \<Rightarrow> string option \<Rightarrow> client \<Rightarrow> (thrown + json) \<times> client" where
  "tx_open net serviceCode c = platformRequest net ''POST'' (''/transactions/'' @ (case serviceCode of None \<Rightarrow> ''psm'' | Some s \<Rightarrow> s)) None c"

definition tx_current :: "network \<Rightarrow> client \<Rightarrow> (thrown + json) \<times> client" where
  "tx_current net c = (case platformRequest net ''GET'' ''/transactions?status=OPEN'' None c of
       (Inl e, c) \<Rightarrow> (Inl e, c)
     | (Inr v, c) \<Rightarrow> (Inr (case v of JArr (x # _) \<Rightarrow> x | _ \<Rightarrow> JNull), c))"

definition tx_commit :: "network \<Rightarrow> string \<Rightarrow> string \<Rightarrow> json option \<Rightarrow> json list option \<Rightarrow> client \<Rightarrow> (thrown + json) \<times> client" where
  "tx_commit net serviceCode txId comment nodeIds c =
     platformRequest net ''POST'' (''/transactions/'' @ serviceCode @ ''/'' @ txId @ ''/commit'')
       (Some (JObj ((case comment of Some v \<Rightarrow> [(''comment'', v)] | None \<Rightarrow> [])
          @ (case nodeIds of Some (x # xs) \<Rightarrow> [(''itemIds'', JArr (x # xs))] | _ \<Rightarrow> [])))) c"

definition tx_release :: "network \<Rightarrow> string \<Rightarrow> string \<Rightarrow> json option \<Rightarrow> client \<Rightarrow> (thrown + json) \<times> client" where
  "tx_release net serviceCode txId nodeIds c =
     platformRequest net ''DELETE'' (''/transactions/'' @ serviceCode @ ''/'' @ txId @ ''/items'')
       (Some (JObj (case nodeIds of Some v \<Rightarrow> [(''itemIds'', v)] | None \<Rightarrow> []))) c"

definition tx_rollback :: "network \<Rightarrow> string \<Rightarrow> string \<Rightarrow> client \<Rightarrow> (thrown + json) \<times> client" where
  "tx_rollback net serviceCode txId c = platformRequest net ''POST'' (''/transactions/'' @ serviceCode @ ''/'' @ txId @ ''/rollback'') None c"

definition tx_get :: "network \<Rightarrow> string \<Rightarrow> string \<Rightarrow> client \<Rightarrow> (thrown + json) \<times> client" where
  "tx_get net serviceCode txId c = platformRequest net ''GET'' (''/transactions/'' @ serviceCode @ ''/'' @ txId) None c"

definition tx_nodes :: "network \<Rightarrow> string \<Rightarrow> string \<Rightarrow> client \<Rightarrow> (thrown + json) \<times> client" where
  "tx_nodes net serviceCode txId c = (case tx_get net serviceCode txId c of
       (Inl e, c) \<Rightarrow> (Inl e, c) | (Inr d, c) \<Rightarrow> (Inr (the (js_or (jprop (Some d) ''items'') (Some (JArr [])))), c))"

definition tx_versions :: "network \<Rightarrow> string \<Rightarrow> client \<Rightarrow> (thrown + json) \<times> client" where
  "tx_versions net txId c = doFetch net (serviceBase ''psm'') ''GET'' (''/transactions/'' @ txId @ ''/versions'') None None False c"

definition parameters_body :: "(string \<times> json) list \<Rightarrow> json option" where
  "parameters_body ps = Some (JObj [(''parameters'', JObj ps)])"

definition executeAction ::
  "network \<Rightarrow> string \<Rightarrow> string \<Rightarrow> string option \<Rightarrow> (string \<times> json) list \<Rightarrow> string option \<Rightarrow> client \<Rightarrow> (thrown + json) \<times> client" where
  "executeAction net nodeId actionCode txId parameters transitionId c =
     (let base = ''/actions/'' @ actionCode @ ''/'' @ nodeId
      in txRequest net ''POST'' (case transitionId of Some t \<Rightarrow> if t \<noteq> [] then base @ ''/'' @ t else base | None \<Rightarrow> base)
           txId (parameters_body parameters) c)"

definition descriptor_path :: "item_action \<Rightarrow> string \<Rightarrow> string" where
  "descriptor_path action nodeId =
     replace_first ''{transitionId}'' (str_or (ia_transitionId action) []) (replace_first ''{id}'' nodeId (ia_path action))"

definition executeViaDescriptor ::
  "network \<Rightarrow> (json \<Rightarrow> string) \<Rightarrow> item_action \<Rightarrow> string \<Rightarrow> string option \<Rightarrow> (string \<times> json) list \<Rightarrow> bool \<Rightarrow> client
    \<Rightarrow> (thrown + json) \<times> client" where
  "executeViaDescriptor net stringify action nodeId txId parameters progress c =
     (let path = descriptor_path action nodeId; method = str_or (ia_httpMethod action) ''POST''
      in if ia_bodyShape action = Some ''MULTIPART'' then
           (case send_form net progress \<lparr>rq_method = method, rq_url = ''/api/psm'' @ path,
                rq_headers = bearer c @ (case txId of Some t \<Rightarrow> if t \<noteq> [] then [(''X-PLM-Tx'', t)] else [] | None \<Rightarrow> []),
                rq_body = FormBody (filter (\<lambda>(_, v). v \<noteq> JNull) (obj_entries parameters))\<rparr> c of
              (Inl e, c) \<Rightarrow> (Inl e, c)
            | (Inr r, c) \<Rightarrow> (if r_ok r then parse_text r
                 else Inl (text_error r (case r_text r of JsonText j \<Rightarrow> stringify j | _ \<Rightarrow> [])), c))
         else txRequest net method path txId (parameters_body parameters) c)"

section \<open>Facts\<close>

lemma read_capped_spec:
  "read_capped m vs tot cs = (chunks, n) \<Longrightarrow> tot < m \<Longrightarrow>
   \<exists>k. chunks = cs @ take k vs \<and> n = tot + length (concat (take k vs))
     \<and> (n < m \<longrightarrow> take k vs = vs) \<and> (\<forall>j < k. tot + length (concat (take j vs)) < m)"
proof (induction m vs tot cs rule: read_capped.induct)
  case (1 m tot cs)
  then show ?case by (intro exI [of _ 0]) simp
next
  case (2 m v vs tot cs)
  show ?case
  proof (cases "tot + length v \<ge> m")
    case True
    with 2 show ?thesis by (intro exI [of _ 1]) (auto simp: Let_def)
  next
    case False
    from 2(2) False have rc: "read_capped m vs (tot + length v) (cs @ [v]) = (chunks, n)" by (simp add: Let_def)
    have "tot + length v < m" using False by simp
    from "2.IH" [OF refl refl False rc this] obtain k where k: "chunks = (cs @ [v]) @ take k vs" "n = tot + length v + length (concat (take k vs))"
      "n < m \<longrightarrow> take k vs = vs" "\<forall>j < k. tot + length v + length (concat (take j vs)) < m"
      by blast
    have "tot + length (concat (take j (v # vs))) < m" if "j < Suc k" for j
      using k(4) that 2(3) by (cases j) auto
    with k show ?thesis by (intro exI [of _ "Suc k"]) auto
  qed
qed



end
