(* ===== verification/Glb.thy ===== *)
theory Glb
  imports Prelude "HOL-Library.Word" Complex_Main
begin

text \<open>
  Binary glTF between the two ends of the program: the writer \<open>buildGlb\<close> of
  \<open>cad-parser/worker-convert.js\<close> and the reader \<open>parseGlb\<close> of \<open>frontend/src/workers/stepWorker.js\<close>.
  A 32-bit float is its bit pattern, a byte is a \<open>char\<close>; JSON text is the parameter pair
  \<open>stringify\<close>/\<open>parse\<close> on the glTF document, kept as the record of the fields both sides use. An
  exception (a size that does not fit 32 bits, a view out of range) is None.
\<close>

unbundle bit_operations_syntax

section \<open>Typed arrays\<close>

type_synonym f32 = "32 word"

definition f32_mag :: "f32 \<Rightarrow> int" where
  "f32_mag w = uint (w AND 0x7FFFFFFF)"

definition f32_ord :: "f32 \<Rightarrow> int" where
  \<comment> \<open>the order of IEEE floats on their bit patterns\<close>
  "f32_ord w = (if bit w 31 then - f32_mag w else f32_mag w)"

definition f32_less :: "f32 \<Rightarrow> f32 \<Rightarrow> bool" where
  "f32_less a b \<longleftrightarrow> f32_mag a \<le> 0x7F800000 \<and> f32_mag b \<le> 0x7F800000 \<and> f32_ord a < f32_ord b"

definition le_bytes :: "nat \<Rightarrow> string" where
  \<comment> \<open>the four bytes of a 32-bit number, little end first\<close>
  "le_bytes n = [char_of (n mod 256), char_of (n div 256 mod 256), char_of (n div 65536 mod 256), char_of (n div 16777216 mod 256)]"

definition array_bytes :: "32 word list \<Rightarrow> string" where
  "array_bytes ws = concat (map (\<lambda>w. le_bytes (unat w)) ws)"

fun of_le :: "string \<Rightarrow> nat" where
  "of_le [a, b, c, d] = of_char a + 256 * of_char b + 65536 * of_char c + 16777216 * of_char d"
| "of_le _ = 0"

fun words_of :: "string \<Rightarrow> 32 word list" where
  "words_of (a # b # c # d # s) = word_of_nat (of_le [a, b, c, d]) # words_of s"
| "words_of _ = []"

definition array_view :: "string \<Rightarrow> nat \<Rightarrow> nat \<Rightarrow> 32 word list option" where
  \<comment> \<open>\<open>new Float32Array(bin, off, n).slice()\<close>, likewise \<open>Uint32Array\<close>\<close>
  "array_view bin off n = (if off mod 4 = 0 \<and> off + 4 * n \<le> length bin then Some (words_of (Prelude.slice off (off + 4 * n) bin)) else None)"

section \<open>The document\<close>

record gmesh =
  g_positions :: "f32 list"
  g_normals :: "f32 list option"
  g_indices :: "32 word list option"
  g_color :: "(rat \<times> rat \<times> rat) option"

record buffer_view =
  bv_offset :: nat
  bv_length :: nat
  bv_target :: nat

record accessor =
  ac_view :: nat
  ac_componentType :: nat
  ac_count :: rat
  ac_type :: string
  ac_range :: "(f32 list \<times> f32 list) option"

record primitive =
  p_POSITION :: nat
  p_NORMAL :: "nat option"
  p_indices :: "nat option"
  p_material :: nat

record gltf =
  gl_meshes :: "primitive list"
  gl_materials :: "(rat \<times> rat \<times> rat) list"       \<comment> \<open>\<open>baseColorFactor\<close>; its alpha is always 1\<close>
  gl_accessors :: "accessor list"
  gl_bufferViews :: "buffer_view list"
  gl_byteLength :: nat

section \<open>Writing\<close>

definition align4 :: "nat \<Rightarrow> int" where
  \<comment> \<open>\<open>(n + 3) & ~3\<close>: JavaScript computes it on 32-bit signed integers\<close>
  "align4 n = signed_take_bit 31 (int n + 3) AND NOT 3"

record build =
  b_parts :: "string list"
  b_offset :: nat
  b_views :: "buffer_view list"
  b_accessors :: "accessor list"
  b_materials :: "(rat \<times> rat \<times> rat) list"
  b_meshes :: "primitive list"

definition push_bytes :: "string \<Rightarrow> build \<Rightarrow> build" where
  "push_bytes bytes b = b\<lparr>b_parts := b_parts b @ [bytes], b_offset := b_offset b + length bytes\<rparr>"

definition pad_to4 :: "build \<Rightarrow> build" where
  "pad_to4 b = (let r = b_offset b mod 4 in if r = 0 then b else push_bytes (replicate (4 - r) (CHR 0x00)) b)"

definition push_array :: "32 word list \<Rightarrow> nat \<Rightarrow> nat \<Rightarrow> rat \<Rightarrow> string \<Rightarrow> (f32 list \<times> f32 list) option \<Rightarrow> build \<Rightarrow> nat \<times> build" where
  \<comment> \<open>a buffer view, its bytes and its accessor; the index of the accessor\<close>
  "push_array ws target component cnt kind rng b =
     (let view = length (b_views b);
          b1 = b\<lparr>b_views := b_views b @ [\<lparr>bv_offset = b_offset b, bv_length = 4 * length ws, bv_target = target\<rparr>]\<rparr>;
          b2 = push_bytes (array_bytes ws) b1;
          acc = length (b_accessors b2)
      in (acc, b2\<lparr>b_accessors := b_accessors b2 @
            [\<lparr>ac_view = view, ac_componentType = component, ac_count = cnt, ac_type = kind, ac_range = rng\<rparr>]\<rparr>))"

fun bounds_loop :: "f32 list \<Rightarrow> f32 list \<times> f32 list \<Rightarrow> f32 list \<times> f32 list" where
  \<comment> \<open>one turn for three coordinates; a missing coordinate compares false\<close>
  "bounds_loop [] mm = mm"
| "bounds_loop (x # xs) (mn, mx) =
     (let vs = x # take 2 xs
      in bounds_loop (drop 2 xs)
           (map2 (\<lambda>i m. if i < length vs \<and> f32_less (vs ! i) m then vs ! i else m) [0..<3] mn,
            map2 (\<lambda>i m. if i < length vs \<and> f32_less m (vs ! i) then vs ! i else m) [0..<3] mx))"

definition bounds :: "f32 list \<Rightarrow> f32 list \<times> f32 list" where
  "bounds ps = bounds_loop ps (replicate 3 0x7F800000, replicate 3 0xFF800000)"

definition default_color :: "rat \<times> rat \<times> rat" where
  "default_color = (357 / 1000, 608 / 1000, 965 / 1000)"

definition add_mesh :: "gmesh \<Rightarrow> build \<Rightarrow> build" where
  \<comment> \<open>one turn of the loop of \<open>buildGlb\<close>\<close>
  "add_mesh m b =
     (let vertCount = of_nat (length (g_positions m)) / 3;
          (pos, b1) = push_array (g_positions m) 34962 5126 vertCount ''VEC3'' (Some (bounds (g_positions m))) b;
          (norm, b2) = (case g_normals m of
              Some ns \<Rightarrow> (case push_array ns 34962 5126 vertCount ''VEC3'' None b1 of (i, b) \<Rightarrow> (Some i, b))
            | None \<Rightarrow> (None, b1));
          (idx, b3) = (case g_indices m of
              Some ix \<Rightarrow> (case push_array ix 34963 5125 (of_nat (length ix)) ''SCALAR'' None (pad_to4 b2) of (i, b) \<Rightarrow> (Some i, b))
            | None \<Rightarrow> (None, b2));
          mat = length (b_materials b3)
      in b3\<lparr>b_materials := b_materials b3 @ [case g_color m of Some col \<Rightarrow> col | None \<Rightarrow> default_color],
           b_meshes := b_meshes b3 @ [\<lparr>p_POSITION = pos, p_NORMAL = norm, p_indices = idx, p_material = mat\<rparr>]\<rparr>)"

definition empty_build :: build where
  "empty_build = \<lparr>b_parts = [], b_offset = 0, b_views = [], b_accessors = [], b_materials = [], b_meshes = []\<rparr>"

definition gltf_of :: "build \<Rightarrow> nat \<Rightarrow> gltf" where
  "gltf_of b totalBin = \<lparr>gl_meshes = b_meshes b, gl_materials = b_materials b, gl_accessors = b_accessors b,
     gl_bufferViews = b_views b, gl_byteLength = totalBin\<rparr>"

definition pad_with :: "char \<Rightarrow> nat \<Rightarrow> string \<Rightarrow> string" where
  \<comment> \<open>\<open>Buffer.alloc(n, c)\<close> with \<open>s\<close> copied to its start\<close>
  "pad_with c n s = s @ replicate (n - length s) c"

definition buildGlb :: "(gltf \<Rightarrow> string) \<Rightarrow> gmesh list \<Rightarrow> string option" where
  "buildGlb stringify meshes =
     (let b = fold add_mesh meshes empty_build;
          totalBin = align4 (b_offset b);
          json = stringify (gltf_of b (nat totalBin));
          jsonLen = align4 (length json)
      in if totalBin < 0 \<or> jsonLen < 0 \<or> 12 + 8 + jsonLen + 8 + totalBin \<ge> 2 ^ 32 then None
         else Some (le_bytes 0x46546C67 @ le_bytes 2 @ le_bytes (12 + 8 + nat jsonLen + 8 + nat totalBin)
                @ le_bytes (nat jsonLen) @ le_bytes 0x4E4F534A @ pad_with (CHR '' '') (nat jsonLen) json
                @ le_bytes (nat totalBin) @ le_bytes 0x004E4942 @ pad_with (CHR 0x00) (nat totalBin) (concat (b_parts b))))"

section \<open>Reading\<close>

definition get_uint32 :: "string \<Rightarrow> nat \<Rightarrow> nat option" where
  \<comment> \<open>\<open>view.getUint32(i, true)\<close>\<close>
  "get_uint32 buf i = (if i + 4 \<le> length buf then Some (of_le (Prelude.slice i (i + 4) buf)) else None)"

definition nth_opt :: "'a list \<Rightarrow> nat \<Rightarrow> 'a option" where
  "nth_opt xs i = (if i < length xs then Some (xs ! i) else None)"

definition read_accessor :: "gltf \<Rightarrow> string \<Rightarrow> nat \<Rightarrow> rat \<Rightarrow> 32 word list option" where
  \<comment> \<open>\<open>per\<close> words for each counted element\<close>
  "read_accessor g bin i per =
     Option.bind (nth_opt (gl_accessors g) i) (\<lambda>acc.
       Option.bind (nth_opt (gl_bufferViews g) (ac_view acc)) (\<lambda>bv.
         array_view bin (bv_offset bv) (nat \<lfloor>ac_count acc * per\<rfloor>)))"

definition opt_accessor :: "gltf \<Rightarrow> string \<Rightarrow> nat option \<Rightarrow> rat \<Rightarrow> 32 word list option option" where
  "opt_accessor g bin i per = (case i of None \<Rightarrow> Some None | Some i \<Rightarrow> map_option Some (read_accessor g bin i per))"

definition parse_mesh :: "gltf \<Rightarrow> string \<Rightarrow> primitive \<Rightarrow> gmesh option" where
  "parse_mesh g bin prim =
     Option.bind (nth_opt (gl_materials g) (p_material prim)) (\<lambda>col.
     Option.bind (read_accessor g bin (p_POSITION prim) 3) (\<lambda>ps.
     Option.bind (opt_accessor g bin (p_NORMAL prim) 3) (\<lambda>ns.
     Option.bind (opt_accessor g bin (p_indices prim) 1) (\<lambda>ix.
       Some \<lparr>g_positions = ps, g_normals = ns, g_indices = ix, g_color = Some col\<rparr>))))"

fun map_opt :: "('a \<Rightarrow> 'b option) \<Rightarrow> 'a list \<Rightarrow> 'b list option" where
  "map_opt f [] = Some []"
| "map_opt f (x # xs) = Option.bind (f x) (\<lambda>y. map_option (Cons y) (map_opt f xs))"

definition parseGlb :: "(string \<Rightarrow> gltf option) \<Rightarrow> string \<Rightarrow> gmesh list option" where
  "parseGlb parse buffer =
     (if get_uint32 buffer 0 \<noteq> Some 0x46546C67 then None
      else Option.bind (get_uint32 buffer 12) (\<lambda>jsonLen.
        if 20 + jsonLen > length buffer then None
        else Option.bind (parse (Prelude.slice 20 (20 + jsonLen) buffer)) (\<lambda>g.
          let binStart = 12 + 8 + jsonLen
          in Option.bind (get_uint32 buffer binStart) (\<lambda>binLen.
               map_opt (parse_mesh g (Prelude.slice (binStart + 8) (binStart + 8 + binLen) buffer)) (gl_meshes g)))))"

section \<open>Facts: bytes\<close>

lemma of_le_bytes: "n < 2 ^ 32 \<Longrightarrow> of_le (le_bytes n) = n"
proof -
  assume n: "n < 2 ^ 32"
  have d: "n div 65536 = n div 256 div 256" "n div 16777216 = n div 256 div 256 div 256"
    by (simp_all add: div_mult2_eq [symmetric])
  have "n div 256 div 256 div 256 < 256" using n by (simp add: div_mult2_eq [symmetric] less_mult_imp_div_less)
  moreover have "n = n mod 256 + 256 * (n div 256 mod 256) + 65536 * (n div 256 div 256 mod 256) + 16777216 * (n div 256 div 256 div 256)"
    using mult_div_mod_eq [of 256 n] mult_div_mod_eq [of 256 "n div 256"] mult_div_mod_eq [of 256 "n div 256 div 256"] by linarith
  ultimately show ?thesis by (simp add: le_bytes_def d)
qed

lemma length_le_bytes [simp]: "length (le_bytes n) = 4"
  by (simp add: le_bytes_def)

lemma words_of_le: "words_of (le_bytes (unat (w :: 32 word)) @ s) = w # words_of s"
proof -
  have "of_le (le_bytes (unat w)) = unat w" by (rule of_le_bytes) (use unsigned_less [of w, where ?'a = nat] in simp)
  moreover have "words_of (le_bytes n @ s) = word_of_nat (of_le (le_bytes n)) # words_of s" for n
    by (simp add: le_bytes_def del: of_le.simps)
  ultimately show ?thesis by simp
qed

lemma words_of_array [simp]: "words_of (array_bytes ws) = ws"
  by (induction ws) (simp_all add: array_bytes_def words_of_le)

lemma length_array_bytes [simp]: "length (array_bytes ws) = 4 * length ws"
  by (induction ws) (simp_all add: array_bytes_def)

lemma align4_small:
  assumes "n + 3 < 2 ^ 31"
  shows "align4 n = int ((n + 3) div 4 * 4)"
proof -
  have s: "signed_take_bit 31 (int n + 3) = int n + 3"
    using assms by (intro signed_take_bit_int_eq_self) auto
  have two: "Suc (Suc (k - 2)) = k" if "2 \<le> k" for k :: nat using that by simp
  have three: "(3 :: int) = mask 2" by (simp add: mask_eq_exp_minus_1)
  have "x AND NOT 3 = push_bit 2 (drop_bit 2 x)" for x :: int
    using two by (intro bit_eqI) (auto simp: bit_simps three not_less)
  then have "x AND NOT 3 = x div 4 * 4" for x :: int by (simp only: push_bit_eq_mult drop_bit_eq_div) simp
  then have "align4 n = (int n + 3) div 4 * 4" by (simp only: align4_def s)
  then show ?thesis by (simp add: zdiv_int)
qed

section \<open>Facts: what the writer has laid out\<close>

definition data_of :: "build \<Rightarrow> string" where
  "data_of b = concat (b_parts b)"

definition build_ok :: "build \<Rightarrow> bool" where
  "build_ok b \<longleftrightarrow> length (data_of b) = b_offset b \<and> b_offset b mod 4 = 0"

definition extends :: "build \<Rightarrow> build \<Rightarrow> bool" where
  "extends b b' \<longleftrightarrow> (\<exists>ps vs as ms qs. b_parts b' = b_parts b @ ps \<and> b_views b' = b_views b @ vs
     \<and> b_accessors b' = b_accessors b @ as \<and> b_materials b' = b_materials b @ ms \<and> b_meshes b' = b_meshes b @ qs)"

definition laid_out :: "build \<Rightarrow> nat \<Rightarrow> 32 word list \<Rightarrow> rat \<Rightarrow> bool" where
  \<comment> \<open>accessor \<open>i\<close> stands for the words \<open>ws\<close>\<close>
  "laid_out b i ws per \<longleftrightarrow> i < length (b_accessors b) \<and> (let acc = b_accessors b ! i in
     ac_view acc < length (b_views b) \<and> (let off = bv_offset (b_views b ! ac_view acc) in
       off mod 4 = 0 \<and> nat \<lfloor>ac_count acc * per\<rfloor> = length ws \<and> off + 4 * length ws \<le> length (data_of b)
       \<and> Prelude.slice off (off + 4 * length ws) (data_of b) = array_bytes ws))"

definition decodes :: "build \<Rightarrow> primitive \<Rightarrow> gmesh \<Rightarrow> bool" where
  "decodes b q m \<longleftrightarrow> laid_out b (p_POSITION q) (g_positions m) 3
     \<and> (case g_normals m of None \<Rightarrow> p_NORMAL q = None | Some ns \<Rightarrow> (\<exists>i. p_NORMAL q = Some i \<and> laid_out b i ns 3))
     \<and> (case g_indices m of None \<Rightarrow> p_indices q = None | Some ix \<Rightarrow> (\<exists>i. p_indices q = Some i \<and> laid_out b i ix 1))
     \<and> p_material q < length (b_materials b)
     \<and> b_materials b ! p_material q = (case g_color m of Some col \<Rightarrow> col | None \<Rightarrow> default_color)"

lemma build_extends_refl: "extends b b"
  by (simp add: extends_def)

lemma build_extends_trans: "extends a b \<Longrightarrow> extends b c \<Longrightarrow> extends a c"
  unfolding extends_def by (elim exE conjE) simp

lemma slice_prefix: "hi \<le> length xs \<Longrightarrow> Prelude.slice lo hi (xs @ ys) = Prelude.slice lo hi xs"
  by (simp add: Prelude.slice_def)

lemma laid_out_extends:
  assumes "laid_out b i ws per" "extends b b'"
  shows "laid_out b' i ws per"
proof -
  from assms(2) obtain ps vs as where "data_of b' = data_of b @ concat ps" "b_views b' = b_views b @ vs"
      "b_accessors b' = b_accessors b @ as"
    by (auto simp: extends_def data_of_def)
  with assms(1) show ?thesis by (auto simp: laid_out_def Let_def nth_append slice_prefix)
qed

lemma decodes_extends:
  assumes "decodes b q m" "extends b b'"
  shows "decodes b' q m"
proof -
  from assms(2) obtain ms where "b_materials b' = b_materials b @ ms" by (auto simp: extends_def)
  with assms laid_out_extends [OF _ assms(2)] show ?thesis
    unfolding decodes_def by (auto simp: nth_append split: option.splits)
qed

lemma push_array_lays:
  assumes "push_array ws t cp cnt kind rng b = (i, b')" "build_ok b" "cnt * per = of_nat (length ws)"
  shows "extends b b' \<and> build_ok b' \<and> laid_out b' i ws per"
proof -
  have i: "i = length (b_accessors b)" and b': "b' = b\<lparr>b_parts := b_parts b @ [array_bytes ws], b_offset := b_offset b + 4 * length ws,
      b_views := b_views b @ [\<lparr>bv_offset = b_offset b, bv_length = 4 * length ws, bv_target = t\<rparr>],
      b_accessors := b_accessors b @ [\<lparr>ac_view = length (b_views b), ac_componentType = cp, ac_count = cnt, ac_type = kind, ac_range = rng\<rparr>]\<rparr>"
    using assms(1) by (auto simp: push_array_def push_bytes_def Let_def)
  have d: "data_of b' = data_of b @ array_bytes ws" by (simp add: b' data_of_def)
  have n: "nat \<lfloor>cnt * per\<rfloor> = length ws" using assms(3) by simp
  have o: "length (data_of b) = b_offset b" "b_offset b mod 4 = 0" using assms(2) by (auto simp: build_ok_def)
  have "extends b b'" by (simp add: extends_def b')
  moreover have "build_ok b'" using o by (simp add: build_ok_def d) (simp add: b' mod_add_eq [symmetric])
  moreover have "laid_out b' i ws per"
    using o n unfolding laid_out_def i by (simp add: Let_def d) (simp add: b' Prelude.slice_def)
  ultimately show ?thesis by blast
qed

lemma pad_to4_ok: "build_ok b \<Longrightarrow> pad_to4 b = b"
  by (simp add: pad_to4_def build_ok_def)

definition mesh_ok :: "gmesh \<Rightarrow> bool" where
  \<comment> \<open>one normal per vertex, as the tessellator delivers them\<close>
  "mesh_ok m \<longleftrightarrow> (\<forall>ns. g_normals m = Some ns \<longrightarrow> length ns = length (g_positions m))"

lemma add_mesh_decodes:
  assumes "build_ok b" "mesh_ok m"
  shows "\<exists>q. b_meshes (add_mesh m b) = b_meshes b @ [q] \<and> decodes (add_mesh m b) q m
    \<and> extends b (add_mesh m b) \<and> build_ok (add_mesh m b)"
proof -
  define vc :: rat where "vc = of_nat (length (g_positions m)) / 3"
  obtain pos b1 where p: "push_array (g_positions m) 34962 5126 vc ''VEC3'' (Some (bounds (g_positions m))) b = (pos, b1)" by fastforce
  have 1: "extends b b1" "build_ok b1" "laid_out b1 pos (g_positions m) 3"
    using push_array_lays [OF p assms(1), of 3] by (auto simp: vc_def)
  obtain norm b2 where n: "(case g_normals m of
              Some ns \<Rightarrow> (case push_array ns 34962 5126 vc ''VEC3'' None b1 of (i, b) \<Rightarrow> (Some i, b))
            | None \<Rightarrow> (None, b1)) = (norm, b2)" by fastforce
  have 2: "extends b1 b2 \<and> build_ok b2 \<and> (case g_normals m of None \<Rightarrow> norm = None | Some ns \<Rightarrow> (\<exists>i. norm = Some i \<and> laid_out b2 i ns 3))"
  proof (cases "g_normals m")
    case None
    with n 1 show ?thesis by (simp add: build_extends_refl)
  next
    case (Some ns)
    obtain i b' where a: "push_array ns 34962 5126 vc ''VEC3'' None b1 = (i, b')" by fastforce
    have "vc * 3 = of_nat (length ns)" using assms(2) Some by (simp add: vc_def mesh_ok_def)
    from push_array_lays [OF a 1(2) this] a n Some show ?thesis by auto
  qed
  obtain idx b3 where x: "(case g_indices m of
              Some ix \<Rightarrow> (case push_array ix 34963 5125 (of_nat (length ix)) ''SCALAR'' None (pad_to4 b2) of (i, b) \<Rightarrow> (Some i, b))
            | None \<Rightarrow> (None, b2)) = (idx, b3)" by fastforce
  have 3: "extends b2 b3 \<and> build_ok b3 \<and> (case g_indices m of None \<Rightarrow> idx = None | Some ix \<Rightarrow> (\<exists>i. idx = Some i \<and> laid_out b3 i ix 1))"
  proof (cases "g_indices m")
    case None
    with x 2 show ?thesis by (simp add: build_extends_refl)
  next
    case (Some ix)
    obtain i b' where a: "push_array ix 34963 5125 (of_nat (length ix)) ''SCALAR'' None b2 = (i, b')" by fastforce
    have p4: "pad_to4 b2 = b2" using 2 pad_to4_ok by blast
    from push_array_lays [OF a, of 1] 2 a x Some p4 show ?thesis by auto
  qed
  define q where "q = \<lparr>p_POSITION = pos, p_NORMAL = norm, p_indices = idx, p_material = length (b_materials b3)\<rparr>"
  define b4 where "b4 = b3\<lparr>b_materials := b_materials b3 @ [case g_color m of Some col \<Rightarrow> col | None \<Rightarrow> default_color],
      b_meshes := b_meshes b3 @ [q]\<rparr>"
  have b4: "add_mesh m b = b4"
    unfolding add_mesh_def Let_def vc_def [symmetric] p split_conv n x b4_def q_def by simp
  have 4: "extends b3 b4" "build_ok b4" using 3 by (simp_all add: extends_def b4_def build_ok_def data_of_def)
  have e: "extends b1 b4" "extends b2 b4" "extends b b4"
    using 1 2 3 4 build_extends_trans by blast+
  have "decodes b4 q m"
    using laid_out_extends [OF 1(3) e(1)] 2 3 laid_out_extends [OF _ e(2)] laid_out_extends [OF _ 4(1)]
    unfolding decodes_def by (auto simp: q_def b4_def split: option.splits)
  moreover have "b_meshes b4 = b_meshes b @ [q]"
  proof -
    have keep: "b_meshes d' = b_meshes d" if "push_array ws t c k kd r d = (i, d')" for ws t c k kd r d i d'
      using that by (auto simp: push_array_def push_bytes_def Let_def)
    have "b_meshes b1 = b_meshes b" using keep [OF p] .
    moreover have "b_meshes b2 = b_meshes b1" using n keep by (auto split: option.splits prod.splits)
    moreover have "b_meshes b3 = b_meshes b2" using x keep pad_to4_ok 2 by (auto split: option.splits prod.splits)
    ultimately show ?thesis by (simp add: b4_def)
  qed
  ultimately show ?thesis using b4 e 4 by auto
qed

lemma fold_decodes:
  assumes "build_ok b" "\<forall>m \<in> set ms. mesh_ok m" "list_all2 (decodes b) (b_meshes b) done_ms"
  shows "build_ok (fold add_mesh ms b)
    \<and> list_all2 (decodes (fold add_mesh ms b)) (b_meshes (fold add_mesh ms b)) (done_ms @ ms)"
  using assms
proof (induction ms arbitrary: b done_ms)
  case (Cons m ms)
  from add_mesh_decodes [OF Cons.prems(1), of m] Cons.prems(2) obtain q where
    q: "b_meshes (add_mesh m b) = b_meshes b @ [q]" "decodes (add_mesh m b) q m" "extends b (add_mesh m b)" "build_ok (add_mesh m b)"
    by auto
  have "list_all2 (decodes (add_mesh m b)) (b_meshes b) done_ms"
    using Cons.prems(3) by (rule list_all2_mono) (rule decodes_extends [OF _ q(3)])
  then have "list_all2 (decodes (add_mesh m b)) (b_meshes (add_mesh m b)) (done_ms @ [m])"
    using q by (simp add: list_all2_appendI)
  from Cons.IH [OF q(4) _ this] Cons.prems(2) show ?case by simp
qed simp

section \<open>Facts: the reader on the writer's output\<close>

definition as_read :: "gmesh \<Rightarrow> gmesh" where
  \<comment> \<open>a mesh without a colour gets the default one\<close>
  "as_read m = m\<lparr>g_color := Some (case g_color m of Some col \<Rightarrow> col | None \<Rightarrow> default_color)\<rparr>"

lemma read_laid_out:
  assumes "laid_out b i ws per"
  shows "read_accessor (gltf_of b n) (data_of b @ z) i per = Some ws"
  using assms by (auto simp: laid_out_def Let_def read_accessor_def nth_opt_def gltf_of_def array_view_def slice_prefix)

lemma parse_decodes:
  assumes "decodes b q m"
  shows "parse_mesh (gltf_of b n) (data_of b @ z) q = Some (as_read m)"
proof -
  note r = read_laid_out [of b _ _ _ n z]
  have "nth_opt (gl_materials (gltf_of b n)) (p_material q) = Some (case g_color m of Some col \<Rightarrow> col | None \<Rightarrow> default_color)"
    "read_accessor (gltf_of b n) (data_of b @ z) (p_POSITION q) 3 = Some (g_positions m)"
    "opt_accessor (gltf_of b n) (data_of b @ z) (p_NORMAL q) 3 = Some (g_normals m)"
    "opt_accessor (gltf_of b n) (data_of b @ z) (p_indices q) 1 = Some (g_indices m)"
    using assms r by (auto simp: decodes_def nth_opt_def gltf_of_def opt_accessor_def split: option.splits)
  then show ?thesis by (simp add: parse_mesh_def as_read_def)
qed

lemma map_opt_decodes:
  "list_all2 (decodes b) qs ms \<Longrightarrow> map_opt (parse_mesh (gltf_of b n) (data_of b @ z)) qs = Some (map as_read ms)"
  by (induction qs ms rule: list_all2_induct) (simp_all add: parse_decodes)

lemma slice_mid: "Prelude.slice (length a) (length a + length b) (a @ b @ c) = b"
  by (simp add: Prelude.slice_def)

lemma get_uint32_mid: "n < 2 ^ 32 \<Longrightarrow> length a = k \<Longrightarrow> get_uint32 (a @ le_bytes n @ c) k = Some n"
  using slice_mid [of a "le_bytes n" c] by (auto simp: get_uint32_def of_le_bytes)

lemma length_pad_with: "length s \<le> n \<Longrightarrow> length (pad_with c n s) = n"
  by (simp add: pad_with_def)

definition glb_document :: "gmesh list \<Rightarrow> gltf" where
  \<comment> \<open>the document that goes with the meshes\<close>
  "glb_document meshes = (let b = fold add_mesh meshes empty_build in gltf_of b (nat (align4 (b_offset b))))"

lemma glb_decodes:
  assumes "\<forall>m \<in> set meshes. mesh_ok m"
    and "\<And>k. parse (stringify (glb_document meshes) @ replicate k (CHR '' '')) = Some (glb_document meshes)"
    and "buildGlb stringify meshes = Some glb"
    and "b_offset (fold add_mesh meshes empty_build) < 2 ^ 30"
    and "length (stringify (glb_document meshes)) < 2 ^ 30"
  shows "parseGlb parse glb = Some (map as_read meshes)"
proof -
  define b where "b = fold add_mesh meshes empty_build"
  have d: "build_ok b" "list_all2 (decodes b) (b_meshes b) meshes"
    using fold_decodes [of empty_build meshes "[]"] assms(1)
    by (simp_all add: b_def empty_build_def build_ok_def data_of_def)
  define tb where "tb = nat (align4 (b_offset b))"
  have doc: "glb_document meshes = gltf_of b tb" by (simp add: glb_document_def b_def tb_def Let_def)
  define js where "js = stringify (gltf_of b tb)"
  define jl where "jl = nat (align4 (length js))"
  have tb: "length (data_of b) \<le> tb" "tb < 2 ^ 32"
    using assms(4) d(1) by (auto simp: tb_def b_def [symmetric] align4_small build_ok_def)
  have jl: "length js \<le> jl" "jl < 2 ^ 32"
    using assms(5) unfolding doc js_def [symmetric]
    by (auto simp: jl_def align4_small)
  define J where "J = pad_with (CHR '' '') jl js"
  define B where "B = pad_with (CHR 0x00) tb (data_of b)"
  have len: "length J = jl" "length B = tb" using tb jl by (simp_all add: J_def B_def length_pad_with)
  have glb: "glb = le_bytes 0x46546C67 @ le_bytes 2 @ le_bytes (12 + 8 + jl + 8 + tb) @ le_bytes jl @ le_bytes 0x4E4F534A
      @ J @ le_bytes tb @ le_bytes 0x004E4942 @ B"
    using assms(3) unfolding buildGlb_def Let_def b_def [symmetric] tb_def [symmetric] js_def [symmetric] jl_def [symmetric]
      data_of_def [symmetric] J_def [symmetric] B_def [symmetric] by (simp split: if_splits)
  have "get_uint32 glb 0 = Some 0x46546C67"
    unfolding glb using get_uint32_mid [of "0x46546C67" "[]" 0] by simp
  moreover have "get_uint32 glb 12 = Some jl"
    unfolding glb using get_uint32_mid [OF jl(2), of "le_bytes 0x46546C67 @ le_bytes 2 @ le_bytes (12 + 8 + jl + 8 + tb)" 12] by simp
  moreover have "Prelude.slice 20 (20 + jl) glb = J"
    unfolding glb using len slice_mid [of "le_bytes 0x46546C67 @ le_bytes 2 @ le_bytes (12 + 8 + jl + 8 + tb) @ le_bytes jl @ le_bytes 0x4E4F534A" J]
    by simp
  moreover have "get_uint32 glb (20 + jl) = Some tb"
    unfolding glb using len get_uint32_mid [OF tb(2), of "le_bytes 0x46546C67 @ le_bytes 2 @ le_bytes (12 + 8 + jl + 8 + tb) @ le_bytes jl @ le_bytes 0x4E4F534A @ J" "20 + jl"]
    by simp
  moreover have "Prelude.slice (28 + jl) (28 + jl + tb) glb = B"
    unfolding glb using len slice_mid [of "le_bytes 0x46546C67 @ le_bytes 2 @ le_bytes (12 + 8 + jl + 8 + tb) @ le_bytes jl @ le_bytes 0x4E4F534A @ J
      @ le_bytes tb @ le_bytes 0x004E4942" B "[]"] by simp
  moreover have "20 + jl \<le> length glb" unfolding glb using len by simp
  moreover have "parse J = Some (gltf_of b tb)"
    using assms(2) unfolding doc J_def pad_with_def js_def by simp
  moreover have "map_opt (parse_mesh (gltf_of b tb) B) (gl_meshes (gltf_of b tb)) = Some (map as_read meshes)"
    using map_opt_decodes [OF d(2)] unfolding B_def pad_with_def by (simp add: gltf_of_def)
  ultimately show ?thesis by (simp add: parseGlb_def Let_def)
qed

text \<open>C19. The browser reads back what the converter wrote: for meshes with one normal per vertex, and
  a document and data below one gigabyte each, the file that \<open>buildGlb\<close> writes is read by \<open>parseGlb\<close> as
  the same meshes, bit for bit, in the same order; a mesh without a colour has got the default.\<close>

theorem glb_round_trip:
  assumes "\<forall>m \<in> set meshes. mesh_ok m"
    and "\<And>k. parse (stringify (glb_document meshes) @ replicate k (CHR '' '')) = Some (glb_document meshes)"
    and "buildGlb stringify meshes = Some glb"
    and "b_offset (fold add_mesh meshes empty_build) < 2 ^ 30"
    and "length (stringify (glb_document meshes)) < 2 ^ 30"
  shows "parseGlb parse glb = Some (map as_read meshes)"
  using assms by (rule glb_decodes)

definition sample_meshes :: "gmesh list" where
  "sample_meshes = [\<lparr>g_positions = [0, 1, 2, 0x3F800000, 0, 0, 7, 8, 9], g_normals = None, g_indices = Some [0, 1, 2], g_color = None\<rparr>]"

theorem glb_round_trip_witness:
  "\<exists>parse stringify glb. buildGlb stringify sample_meshes = Some glb
     \<and> parseGlb parse glb = Some (map as_read sample_meshes)"
proof -
  let ?doc = "glb_document sample_meshes"
  let ?parse = "\<lambda>s. if takeWhile (\<lambda>c. c \<noteq> CHR '' '') s = ''{}'' then Some ?doc else None"
  have size: "b_offset (fold add_mesh sample_meshes empty_build) = 48"
    by (simp add: sample_meshes_def add_mesh_def empty_build_def push_array_def push_bytes_def pad_to4_def Let_def)
  have "align4 48 = 48" "align4 (Suc (Suc 0)) = 4" by (simp_all add: align4_small)
  then have "buildGlb (\<lambda>_. ''{}'') sample_meshes \<noteq> None" by (simp add: buildGlb_def Let_def size)
  then obtain glb where glb: "buildGlb (\<lambda>_. ''{}'') sample_meshes = Some glb" by blast
  have "takeWhile (\<lambda>c. c \<noteq> CHR '' '') (replicate k (CHR '' '')) = []" for k by (cases k) auto
  then have "?parse (''{}'' @ replicate k (CHR '' '')) = Some ?doc" for k by simp
  from glb_round_trip [of sample_meshes ?parse "\<lambda>_. ''{}''", OF _ this glb] size
  have "parseGlb ?parse glb = Some (map as_read sample_meshes)"
    by (simp add: sample_meshes_def mesh_ok_def)
  with glb show ?thesis by blast
qed

end
