(* ===== verification/CadService.thy ===== *)
theory CadService
  imports StepSplit Catia ConvertPool Glb
begin

text \<open>
  The HTTP service of \<open>cad-parser/app.js\<close>: the job store of the splitter, the handlers of the six
  routes, and the message handler of \<open>worker-convert.js\<close> behind the conversion routes. A request is an
  event together with what the world contributes to it (the uploaded file, a failing disk, a dying
  worker); a split runs later than the request that submitted it, and an expiry later still, as
  events of their own. express and multer are the surrounding event loop; an answer is its status
  and what it carries. The parsers are those of the other theories.
\<close>

section \<open>Conversion worker\<close>

definition worker_reply :: "(gltf \<Rightarrow> string) \<Rightarrow> string \<Rightarrow> (string \<Rightarrow> string + gmesh list option) \<Rightarrow> string \<Rightarrow> reply" where
  \<comment> \<open>the handler of \<open>worker-convert.js\<close>; \<open>occt\<close> throws, fails, or delivers meshes. \<open>rangeText\<close> is the
    engine's text for a number that does not fit 32 bits\<close>
  "worker_reply stringify rangeText occt step = (case occt step of
       Inl msg \<Rightarrow> Failed msg
     | Inr None \<Rightarrow> Failed ''No geometry found''
     | Inr (Some meshes) \<Rightarrow>
         if meshes = [] then Failed ''No geometry found''
         else (case buildGlb stringify meshes of None \<Rightarrow> Failed rangeText | Some glb \<Rightarrow> Converted glb (length meshes)))"

definition convert_pool_size :: "nat \<Rightarrow> rat option \<Rightarrow> rat" where
  \<comment> \<open>\<open>CONVERT_POOL_SIZE\<close>; the setting is \<open>Number(...)\<close>, None for NaN\<close>
  "convert_pool_size cpus setting =
     max 1 (min (of_nat cpus) (case setting of Some n \<Rightarrow> if n = 0 then 4 else n | None \<Rightarrow> 4))"

section \<open>State\<close>

datatype 'f job = JobPending | JobDone "'f node list" | JobError string

record upload =
  up_path :: string
  up_chunks :: "string list"

record 'f cad_env =
  cad_fp :: "'f fp_ops"
  cad_uuid :: "nat \<Rightarrow> nat \<Rightarrow> string"        \<comment> \<open>the ids one request draws\<close>
  cad_job_id :: "nat \<Rightarrow> string"
  cad_junk :: "nat \<Rightarrow> string"
  cad_decode :: "string \<Rightarrow> string"
  cad_cpus :: nat
  cad_xml :: "string \<Rightarrow> string + json"
  cad_frames :: nat
  cad_convert :: "string \<Rightarrow> reply"
  cad_messages :: "walk_error \<Rightarrow> string"    \<comment> \<open>the engine's texts\<close>

record 'f service =
  splitJobs :: "(string \<times> 'f job) list"
  jobDirs :: "(string \<times> (nat \<times> string) list) list"   \<comment> \<open>part files by index\<close>
  uploads :: "string list"                              \<comment> \<open>paths of the files multer has written\<close>
  scheduled :: "(string \<times> upload) list"
  expiring :: "string list"
  requests :: nat

datatype 'f tree = StepTree "'f node list" | CatTree "cat_node list"

datatype 'f answer =
    Up
  | Problem nat string
  | Parsed string "'f tree"
  | Accepted string
  | PendingAnswer
  | DoneAnswer "'f node list"
  | PartBytes string
  | GlbBytes string
  | StreamFailure                            \<comment> \<open>the part file is not there: an unhandled stream error\<close>

definition status :: "'f answer \<Rightarrow> nat" where
  "status a = (case a of Problem n _ \<Rightarrow> n | Accepted _ \<Rightarrow> 202 | _ \<Rightarrow> 200)"

definition bom_message :: "bom_error \<Rightarrow> string" where
  \<comment> \<open>the dash as its UTF-8 bytes\<close>
  "bom_message e = (case e of NoProducts \<Rightarrow>
     ''No PRODUCT entities found '' @ [CHR 0xE2, CHR 0x80, CHR 0x94] @ '' may not be an assembly STEP file'')"

definition format_of :: "string option \<Rightarrow> string" where
  "format_of f = toUpperCase (case f of Some s \<Rightarrow> s | None \<Rightarrow> ''STEP'')"

section \<open>Handlers\<close>

definition parse_file :: "'f cad_env \<Rightarrow> nat \<Rightarrow> string \<Rightarrow> upload \<Rightarrow> 'f answer" where
  "parse_file env n format f =
     (if format = ''STEP'' then
        (case parseStepFromFile (cad_fp env) (cad_uuid env n) (cad_junk env) (cad_decode env) (up_chunks f) of
           Some (Inr nodes) \<Rightarrow> Parsed format (StepTree nodes)
         | Some (Inl e) \<Rightarrow> Problem 422 (bom_message e)
         | None \<Rightarrow> StreamFailure)
      else if format = ''CATIA_V5'' then
        (case parseCatiaProduct (cad_xml env) (cad_uuid env n) (cad_frames env) (cad_decode env (concat (up_chunks f))) of
           Inr nodes \<Rightarrow> Parsed format (CatTree nodes)
         | Inl e \<Rightarrow> Problem 422 (case e of InvalidXml m \<Rightarrow> m | _ \<Rightarrow> cad_messages env e))
      else Problem 400 (''Unknown format: '' @ format))"

definition post_parse :: "'f cad_env \<Rightarrow> string option \<Rightarrow> upload option \<Rightarrow> 'f service \<Rightarrow> 'f answer \<times> 'f service" where
  \<comment> \<open>the upload is removed on every path that has one\<close>
  "post_parse env format f s = (case f of
       None \<Rightarrow> (Problem 400 ''No file provided'', s)
     | Some up \<Rightarrow> (parse_file env (requests s) (format_of format) up, s\<lparr>requests := requests s + 1\<rparr>))"

definition post_split :: "'f cad_env \<Rightarrow> string option \<Rightarrow> upload option \<Rightarrow> 'f service \<Rightarrow> 'f answer \<times> 'f service" where
  "post_split env format f s = (case f of
       None \<Rightarrow> (Problem 400 ''No file provided'', s)
     | Some up \<Rightarrow>
         if format_of format \<noteq> ''STEP''
         then (Problem 422 (''Split not supported for format: '' @ format_of format), s\<lparr>uploads := uploads s @ [up_path up]\<rparr>)
         else (let jobId = cad_job_id env (requests s) in
           (Accepted jobId,
            s\<lparr>splitJobs := AList.update jobId JobPending (splitJobs s), uploads := uploads s @ [up_path up],
              scheduled := scheduled s @ [(jobId, up)], requests := requests s + 1\<rparr>)))"

definition split_result :: "'f cad_env \<Rightarrow> nat \<Rightarrow> upload \<Rightarrow> (string \<times> (nat \<times> string) list) option \<Rightarrow>
    (string \<times> (nat \<times> string) list) + ('f node list \<times> (nat \<times> string) list)" where
  \<comment> \<open>a failing disk reports itself and what it has written\<close>
  "split_result env n f disk = (case disk of
       Some failure \<Rightarrow> Inl failure
     | None \<Rightarrow> (case splitStepFromFile (cad_fp env) (cad_uuid env n) (cad_junk env) (cad_decode env) (cad_cpus env) (up_chunks f) of
           Some (Inr res) \<Rightarrow> Inr res
         | Some (Inl e) \<Rightarrow> Inl (bom_message e, [])
         | None \<Rightarrow> Inl ([], [])))"

definition settle_job ::
  "string \<Rightarrow> (string \<times> (nat \<times> string) list) + ('f node list \<times> (nat \<times> string) list) \<Rightarrow> 'f service \<Rightarrow> 'f service" where
  "settle_job jobId res s = (case res of
       Inr (parts, files) \<Rightarrow>
         s\<lparr>splitJobs := AList.update jobId (JobDone parts) (splitJobs s),
           jobDirs := AList.update jobId files (jobDirs s), expiring := expiring s @ [jobId]\<rparr>
     | Inl (msg, files) \<Rightarrow>
         s\<lparr>splitJobs := AList.update jobId (JobError msg) (splitJobs s),
           jobDirs := AList.update jobId files (jobDirs s)\<rparr>)"

definition run_split :: "'f cad_env \<Rightarrow> nat \<Rightarrow> (string \<times> (nat \<times> string) list) option \<Rightarrow> 'f service \<Rightarrow> 'f service" where
  \<comment> \<open>the body of \<open>setImmediate\<close> for the \<open>k\<close>-th scheduled job\<close>
  "run_split env k disk s =
     (let (jobId, f) = scheduled s ! k;
          s1 = s\<lparr>scheduled := take k (scheduled s) @ drop (Suc k) (scheduled s), requests := requests s + 1\<rparr>;
          s2 = settle_job jobId (split_result env (requests s) f disk) s1
      in s2\<lparr>uploads := removeAll (up_path f) (uploads s2)\<rparr>)"

definition expire :: "string \<Rightarrow> 'f service \<Rightarrow> 'f service" where
  "expire jobId s = s\<lparr>jobDirs := AList.delete jobId (jobDirs s), splitJobs := AList.delete jobId (splitJobs s),
     expiring := remove1 jobId (expiring s)\<rparr>"

definition get_job :: "string \<Rightarrow> 'f service \<Rightarrow> 'f answer" where
  "get_job jobId s = (case map_of (splitJobs s) jobId of
       None \<Rightarrow> Problem 404 ''Job not found''
     | Some JobPending \<Rightarrow> PendingAnswer
     | Some (JobError e) \<Rightarrow> Problem 422 e
     | Some (JobDone parts) \<Rightarrow> DoneAnswer parts)"

definition part_file :: "string \<Rightarrow> nat \<Rightarrow> 'f service \<Rightarrow> string option" where
  "part_file jobId i s = Option.bind (map_of (jobDirs s) jobId) (\<lambda>files. map_of files i)"

definition part_index :: "string \<Rightarrow> string \<Rightarrow> 'f service \<Rightarrow> 'f answer + nat" where
  \<comment> \<open>the checks both part routes begin with\<close>
  "part_index jobId idx s = (case map_of (splitJobs s) jobId of
       None \<Rightarrow> Inl (Problem 404 ''Job not found'')
     | Some (JobDone parts) \<Rightarrow>
         (case parse_int idx of
            None \<Rightarrow> Inl (Problem 404 ''Part index out of range'')
          | Some i \<Rightarrow> if i < 0 \<or> i \<ge> int (length parts) then Inl (Problem 404 ''Part index out of range'') else Inr (nat i))
     | Some _ \<Rightarrow> Inl (Problem 409 ''Job not ready''))"

definition get_part :: "string \<Rightarrow> string \<Rightarrow> 'f service \<Rightarrow> 'f answer" where
  "get_part jobId idx s = (case part_index jobId idx s of
       Inl a \<Rightarrow> a
     | Inr i \<Rightarrow> (case part_file jobId i s of Some bytes \<Rightarrow> PartBytes bytes | None \<Rightarrow> StreamFailure))"

definition glb_answer :: "reply \<Rightarrow> 'f answer" where
  "glb_answer r = (case r of Converted glb _ \<Rightarrow> GlbBytes glb | Failed msg \<Rightarrow> Problem 422 msg)"

definition get_glb :: "'f cad_env \<Rightarrow> string \<Rightarrow> string \<Rightarrow> string option \<Rightarrow> 'f service \<Rightarrow> 'f answer" where
  \<comment> \<open>\<open>crash\<close>: the conversion worker dies with this message\<close>
  "get_glb env jobId idx crash s = (case part_index jobId idx s of
       Inl a \<Rightarrow> a
     | Inr i \<Rightarrow> (case part_file jobId i s of
           None \<Rightarrow> Problem 422 ''ENOENT''
         | Some bytes \<Rightarrow> glb_answer (case crash of Some msg \<Rightarrow> Failed msg | None \<Rightarrow> cad_convert env bytes)))"

definition post_convert :: "'f cad_env \<Rightarrow> upload option \<Rightarrow> string option \<Rightarrow> 'f answer" where
  "post_convert env f crash = (case f of
       None \<Rightarrow> Problem 400 ''No file provided''
     | Some up \<Rightarrow> glb_answer (case crash of Some msg \<Rightarrow> Failed msg | None \<Rightarrow> cad_convert env (concat (up_chunks up))))"

section \<open>The service\<close>

datatype event = Health | PostParse "string option" "upload option" | PostSplit "string option" "upload option"
  | RunSplit nat "(string \<times> (nat \<times> string) list) option" | Expire string | GetJob string | GetPart string string
  | GetGlb string string "string option" | PostConvert "upload option" "string option"

fun handle :: "'f cad_env \<Rightarrow> event \<Rightarrow> 'f service \<Rightarrow> 'f answer option \<times> 'f service" where
  "handle env Health s = (Some Up, s)"
| "handle env (PostParse fmt f) s = (case post_parse env fmt f s of (a, s') \<Rightarrow> (Some a, s'))"
| "handle env (PostSplit fmt f) s = (case post_split env fmt f s of (a, s') \<Rightarrow> (Some a, s'))"
| "handle env (RunSplit k disk) s = (None, run_split env k disk s)"
| "handle env (Expire jobId) s = (None, expire jobId s)"
| "handle env (GetJob jobId) s = (Some (get_job jobId s), s)"
| "handle env (GetPart jobId idx) s = (Some (get_part jobId idx s), s)"
| "handle env (GetGlb jobId idx crash) s = (Some (get_glb env jobId idx crash s), s)"
| "handle env (PostConvert f crash) s = (Some (post_convert env f crash), s)"

fun enabled :: "event \<Rightarrow> 'f service \<Rightarrow> bool" where
  \<comment> \<open>an upload gets a fresh name; only what is scheduled runs, only what is due expires\<close>
  "enabled (PostSplit _ (Some f)) s = (up_path f \<notin> set (uploads s))"
| "enabled (RunSplit k _) s = (k < length (scheduled s))"
| "enabled (Expire jobId) s = (jobId \<in> set (expiring s))"
| "enabled _ s = True"

definition started :: "'f service" where
  "started = \<lparr>splitJobs = [], jobDirs = [], uploads = [], scheduled = [], expiring = [], requests = 0\<rparr>"

abbreviation cad_step :: "'f cad_env \<Rightarrow> event \<Rightarrow> 'f service \<Rightarrow> 'f service" where
  "cad_step env e s \<equiv> snd (handle env e s)"

abbreviation serves :: "'f cad_env \<Rightarrow> event list \<Rightarrow> 'f service \<Rightarrow> bool" where
  "serves env es s \<equiv> run_machine enabled (cad_step env) es started = Some s"

section \<open>Facts: every part of a finished split is on disk\<close>

lemma pass2_files:
  assumes "0 < cpus"
  shows "mset (map fst (pass2 cpus bytes header ents (part_jobs ents' parts))) = mset [0..<length parts]"
proof -
  let ?jobs = "part_jobs ents' parts"
  have idx: "map partIndex ?jobs = [0..<length parts]" by (simp add: part_jobs_def enumerate_eq_zip Let_def comp_def case_prod_beta)
  have w: "map fst (writeParts bytes header js) = map partIndex js" for js by (simp add: writeParts_def)
  show ?thesis
  proof (cases "int (length ents) < PARALLEL_PASS2_THRESHOLD \<or> length ?jobs < 2")
    case True
    then show ?thesis by (simp add: pass2_def w idx)
  next
    case False
    then have ne: "?jobs \<noteq> []" by auto
    have "\<forall>j \<in> set ?jobs. job_count j \<le> sum_list (map job_count ?jobs)" by (auto intro: member_le_sum_list)
    from distribute_facts [OF assms ne this] have d: "mset (concat (map bparts (distribute cpus ?jobs))) = mset ?jobs" by blast
    have f: "concat (map bparts (filter (\<lambda>b. bparts b \<noteq> []) bs)) = concat (map bparts bs)" for bs by (induction bs) auto
    have "map fst (pass2 cpus bytes header ents ?jobs) = map partIndex (concat (map bparts (filter (\<lambda>b. bparts b \<noteq> []) (distribute cpus ?jobs))))"
      using False by (simp add: pass2_def map_concat o_def w)
    then have "mset (map fst (pass2 cpus bytes header ents ?jobs)) = image_mset partIndex (mset (concat (map bparts (distribute cpus ?jobs))))"
      by (simp only: f mset_map)
    also have "\<dots> = mset (map partIndex ?jobs)" by (simp only: d mset_map)
    finally show ?thesis by (simp only: idx)
  qed
qed

lemma sum_bind_Inr: "(case x of Inl e \<Rightarrow> Inl e | Inr p \<Rightarrow> Inr (g p)) = Inr r \<longleftrightarrow> (\<exists>p. x = Inr p \<and> g p = r)"
  by (cases x) auto

lemma split_files:
  fixes fp :: "'f fp_ops"
  assumes "0 < cpus" "splitStepFromFile fp uuid junk decode cpus chunks = Some (Inr (parts, files))"
  shows "mset (map fst files) = mset [0..<length parts]"
proof -
  from assms(2) obtain ix :: split_index and ps :: "'f part list" where "parts = map part_meta ps"
      "files = pass2 cpus (concat chunks) (headerSection ix) (entities ix) (part_jobs (entities ix) ps)"
    unfolding splitStepFromFile_def Let_def map_option_eq_Some sum_bind_Inr prod.inject
    by (elim exE conjE) (rule that [OF sym sym])
  then show ?thesis using pass2_files [OF assms(1)] by simp
qed

lemma split_file_there:
  assumes "0 < cpus" "splitStepFromFile fp uuid junk decode cpus chunks = Some (Inr (parts, files))" "i < length parts"
  shows "\<exists>bytes. map_of files i = Some bytes"
proof -
  have "set (map fst files) = {..<length parts}"
    using arg_cong [OF split_files [OF assms(1,2)], of set_mset] by auto
  with assms(3) have "i \<in> fst ` set files" by auto
  then show ?thesis by (metis map_of_eq_None_iff not_None_eq)
qed

section \<open>Facts: the jobs\<close>

definition job_submitted :: "event list \<Rightarrow> upload \<Rightarrow> bool" where
  "job_submitted es f \<longleftrightarrow> (\<exists>fmt. PostSplit fmt (Some f) \<in> set es)"

definition service_inv :: "'f cad_env \<Rightarrow> event list \<Rightarrow> 'f service \<Rightarrow> bool" where
  "service_inv env es s \<longleftrightarrow>
     distinct (map fst (scheduled s)) \<and> distinct (map (\<lambda>e. up_path (snd e)) (scheduled s))
     \<and> (\<forall>j. map_of (splitJobs s) j = Some JobPending \<longleftrightarrow> (\<exists>f. (j, f) \<in> set (scheduled s)))
     \<and> (\<forall>(j, f) \<in> set (scheduled s). job_submitted es f \<and> up_path f \<in> set (uploads s))
     \<and> dom (map_of (splitJobs s)) \<subseteq> cad_job_id env ` {..<requests s}
     \<and> (\<forall>j parts. map_of (splitJobs s) j = Some (JobDone parts) \<longrightarrow>
          j \<in> set (expiring s) \<and> (\<exists>f n files. job_submitted es f \<and> split_result env n f None = Inr (parts, files)
            \<and> map_of (jobDirs s) j = Some files))
     \<and> distinct (expiring s) \<and> (\<forall>j \<in> set (expiring s). \<exists>parts. map_of (splitJobs s) j = Some (JobDone parts))"

lemma service_inv_events: "service_inv env es s \<Longrightarrow> service_inv env (es @ [e]) s"
  unfolding service_inv_def job_submitted_def by fastforce

lemma expiring_done:
  "service_inv env es s \<Longrightarrow> j \<in> set (expiring s) \<Longrightarrow> \<exists>parts. map_of (splitJobs s) j = Some (JobDone parts)"
  by (simp add: service_inv_def)

lemma split_result_disk: "split_result env n f disk = Inr r \<Longrightarrow> split_result env n f None = Inr r"
  by (cases disk) (auto simp: split_result_def)

lemma next_job_new:
  assumes "service_inv env es s" "inj (cad_job_id env)"
  shows "map_of (splitJobs s) (cad_job_id env (requests s)) = None"
proof -
  have "cad_job_id env (requests s) \<notin> cad_job_id env ` {..<requests s}" using assms(2) by (auto dest: injD)
  with assms(1) show ?thesis by (auto simp: service_inv_def)
qed

lemma post_split_inv:
  assumes "service_inv env es s" "inj (cad_job_id env)" "enabled (PostSplit fmt f) s"
  shows "service_inv env (es @ [PostSplit fmt f]) (snd (post_split env fmt f s))"
proof (cases f)
  case None
  then show ?thesis using service_inv_events [OF assms(1)] by (simp add: post_split_def)
next
  case (Some up)
  let ?j = "cad_job_id env (requests s)"
  have new: "map_of (splitJobs s) ?j = None" by (rule next_job_new [OF assms(1,2)])
  have old: "(?j, b) \<notin> set (scheduled s)" for b
  proof
    assume "(?j, b) \<in> set (scheduled s)"
    then have "map_of (splitJobs s) ?j = Some JobPending" using assms(1) unfolding service_inv_def by blast
    with new show False by simp
  qed
  moreover have "?j \<notin> set (expiring s)" using new expiring_done [OF assms(1), of ?j] by auto
  moreover have "?j \<notin> fst ` set (scheduled s)" using old by force
  moreover have "up_path up \<notin> (\<lambda>e. up_path (snd e)) ` set (scheduled s)"
    using assms(1,3) Some by (fastforce simp: service_inv_def)
  moreover have "job_submitted (es @ [PostSplit fmt f]) up" by (auto simp: job_submitted_def Some)
  ultimately show ?thesis
    using service_inv_events [OF assms(1), of "PostSplit fmt f"] new old unfolding Some
    by (auto simp: post_split_def service_inv_def Let_def update_conv' lessThan_Suc)
qed

definition without :: "nat \<Rightarrow> 'a list \<Rightarrow> 'a list" where
  "without k xs = take k xs @ drop (Suc k) xs"

lemma without_facts:
  assumes "k < length xs" "distinct (map f xs)"
  shows "distinct (map f (without k xs))" "set (without k xs) = set xs - {xs ! k}" "f (xs ! k) \<notin> f ` set (without k xs)"
proof -
  have x: "xs = take k xs @ xs ! k # drop (Suc k) xs" using assms(1) by (rule id_take_nth_drop)
  then have d: "distinct (map f (take k xs @ xs ! k # drop (Suc k) xs))" using assms(2) by simp
  then show "distinct (map f (without k xs))" by (auto simp: without_def)
  show n: "f (xs ! k) \<notin> f ` set (without k xs)" using d by (auto simp: without_def)
  then have "xs ! k \<notin> set (without k xs)" by force
  with arg_cong [OF x, of set] show "set (without k xs) = set xs - {xs ! k}" by (auto simp: without_def)
qed

lemma settle_job_facts:
  "scheduled (settle_job j res s) = scheduled s" "requests (settle_job j res s) = requests s" "uploads (settle_job j res s) = uploads s"
  "map_of (splitJobs (settle_job j res s)) = (map_of (splitJobs s))(j \<mapsto> (case res of Inl r \<Rightarrow> JobError (fst r) | Inr r \<Rightarrow> JobDone (fst r)))"
  "map_of (jobDirs (settle_job j res s)) = (map_of (jobDirs s))(j \<mapsto> (case res of Inl r \<Rightarrow> snd r | Inr r \<Rightarrow> snd r))"
  "expiring (settle_job j res s) = expiring s @ (case res of Inl r \<Rightarrow> [] | Inr r \<Rightarrow> [j])"
  by (auto simp: settle_job_def update_conv' split: sum.split)

lemma run_split_facts:
  assumes "scheduled s ! k = (j, f)"
  shows "scheduled (run_split env k disk s) = without k (scheduled s)" "requests (run_split env k disk s) = requests s + 1"
    "uploads (run_split env k disk s) = removeAll (up_path f) (uploads s)"
    "map_of (splitJobs (run_split env k disk s)) = (map_of (splitJobs s))
       (j \<mapsto> (case split_result env (requests s) f disk of Inl r \<Rightarrow> JobError (fst r) | Inr r \<Rightarrow> JobDone (fst r)))"
    "map_of (jobDirs (run_split env k disk s)) = (map_of (jobDirs s))
       (j \<mapsto> (case split_result env (requests s) f disk of Inl r \<Rightarrow> snd r | Inr r \<Rightarrow> snd r))"
    "expiring (run_split env k disk s) = expiring s @ (case split_result env (requests s) f disk of Inl r \<Rightarrow> [] | Inr r \<Rightarrow> [j])"
  by (simp_all add: run_split_def assms settle_job_facts without_def Let_def)

lemma run_split_inv:
  assumes "service_inv env es s" "k < length (scheduled s)"
  shows "service_inv env (es @ [e]) (run_split env k disk s)"
proof -
  obtain j f where jf: "scheduled s ! k = (j, f)" by fastforce
  then have mem: "(j, f) \<in> set (scheduled s)" using assms(2) nth_mem by metis
  have d: "distinct (map fst (scheduled s))" "distinct (map (\<lambda>e. up_path (snd e)) (scheduled s))"
    using assms(1) by (auto simp: service_inv_def)
  let ?rest = "without k (scheduled s)"
  note rest = without_facts [OF assms(2) d(1), unfolded jf fst_conv] without_facts [OF assms(2) d(2), unfolded jf snd_conv]
  have one: "f' = f" if "(j, f') \<in> set (scheduled s)" for f' using d(1) mem that by (simp add: eq_key_imp_eq_value)
  have pend: "map_of (splitJobs s) j = Some JobPending" using assms(1) mem by (auto simp: service_inv_def)
  then have ne: "j \<notin> set (expiring s)" using expiring_done [OF assms(1), of j] by auto
  have sub: "job_submitted (es @ [e]) f" using service_inv_events [OF assms(1), of e] mem by (auto simp: service_inv_def)
  note I = service_inv_events [OF assms(1), of e, unfolded service_inv_def]
  note R = run_split_facts [OF jf, of env disk]
  have pending: "(map_of (splitJobs (run_split env k disk s)) j' = Some JobPending) = (\<exists>f. (j', f) \<in> set ?rest)" for j'
    using I one jf by (auto simp: R rest(2) split: sum.splits)
  have waiting: "\<forall>(j', f') \<in> set ?rest. job_submitted (es @ [e]) f' \<and> up_path f' \<in> set (removeAll (up_path f) (uploads s))"
  proof (intro ballI, clarify)
    fix j' f'
    assume m: "(j', f') \<in> set ?rest"
    then have "(j', f') \<in> set (scheduled s)" using rest(2) by simp
    with I have "job_submitted (es @ [e]) f' \<and> up_path f' \<in> set (uploads s)" by blast
    moreover have "up_path f' \<noteq> up_path f" using rest(6) m by force
    ultimately show "job_submitted (es @ [e]) f' \<and> up_path f' \<in> set (removeAll (up_path f) (uploads s))" by simp
  qed
  have keys: "dom (map_of (splitJobs (run_split env k disk s))) \<subseteq> cad_job_id env ` {..<requests s + 1}"
  proof -
    have k: "dom (map_of (splitJobs s)) \<subseteq> cad_job_id env ` {..<requests s}" using I by blast
    then have "j \<in> cad_job_id env ` {..<requests s}" using domI [of "map_of (splitJobs s)" j, OF pend] by blast
    moreover have "dom (map_of (splitJobs (run_split env k disk s))) = insert j (dom (map_of (splitJobs s)))" by (simp add: R)
    ultimately show ?thesis using k by (auto simp: lessThan_Suc)
  qed
  show ?thesis
  proof (cases "split_result env (requests s) f disk")
    case (Inl r)
    then show ?thesis
      unfolding service_inv_def R(1-3) using I rest(1,4) pending waiting keys ne by (auto simp: R)
  next
    case (Inr r)
    obtain parts files where r: "r = (parts, files)" by fastforce
    have "j' \<in> set (expiring s @ [j]) \<and> (\<exists>f n files. job_submitted (es @ [e]) f
         \<and> split_result env n f None = Inr (parts', files) \<and> map_of (jobDirs (run_split env k disk s)) j' = Some files)"
      if "map_of (splitJobs (run_split env k disk s)) j' = Some (JobDone parts')" for j' parts'
    proof (cases "j' = j")
      case True
      with that have "split_result env (requests s) f None = Inr (parts', files)" 
        using split_result_disk [OF Inr] by (simp add: R Inr r)
      with True sub show ?thesis by (auto simp: R Inr r)
    next
      case False
      with that I show ?thesis by (simp add: R)
    qed
    then show ?thesis
      unfolding service_inv_def R(1-3) using I rest(1,4) pending waiting keys ne
      by (intro conjI) (auto simp: R Inr)
  qed
qed

lemma expire_inv:
  assumes "service_inv env es s" "j \<in> set (expiring s)"
  shows "service_inv env (es @ [e]) (expire j s)"
proof -
  note I = service_inv_events [OF assms(1), of e, unfolded service_inv_def]
  obtain parts where "map_of (splitJobs s) j = Some (JobDone parts)" using expiring_done [OF assms] by blast
  then have "(j, f) \<notin> set (scheduled s)" for f using I by (metis job.distinct(1) option.inject)
  then show ?thesis using I by (auto simp: service_inv_def expire_def map_of_delete delete_conv')
qed

lemma cad_step_inv:
  assumes "service_inv env es s" "inj (cad_job_id env)" "enabled e s"
  shows "service_inv env (es @ [e]) (cad_step env e s)"
proof (cases e)
  case (PostParse fmt f)
  then show ?thesis using service_inv_events [OF assms(1), of e]
    by (cases f) (auto simp: post_parse_def service_inv_def lessThan_Suc)
next
  case (PostSplit fmt f)
  with post_split_inv [OF assms(1,2)] assms(3) show ?thesis by (simp add: case_prod_beta)
next
  case (RunSplit k disk)
  with run_split_inv [OF assms(1)] assms(3) show ?thesis by simp
next
  case (Expire j)
  with expire_inv [OF assms(1)] assms(3) show ?thesis by simp
qed (use service_inv_events [OF assms(1), of e] in simp_all)

lemma started_inv: "service_inv env [] started"
  by (simp add: started_def service_inv_def)

interpretation cad: machine_invariant enabled "cad_step env" started "\<lambda>es s. inj (cad_job_id env) \<longrightarrow> service_inv env es s"
  for env :: "'f cad_env"
  by unfold_locales (use started_inv cad_step_inv in blast)+


section \<open>A sample run\<close>

definition sample_file :: string where
  "sample_file = ''DATA;#1=PRODUCT(a,b,c);ENDSEC;''"

definition sample_env :: "int cad_env" where
  "sample_env = \<lparr>cad_fp = sample_ops, cad_uuid = (\<lambda>_. digits_of_nat), cad_job_id = digits_of_nat, cad_junk = (\<lambda>_. []),
     cad_decode = (\<lambda>s. s), cad_cpus = 1, cad_xml = (\<lambda>_. Inl []), cad_frames = 0, cad_convert = (\<lambda>_. Failed []),
     cad_messages = (\<lambda>_. [])\<rparr>"

definition sample_upload :: upload where
  "sample_upload = \<lparr>up_path = ''f'', up_chunks = [sample_file]\<rparr>"

definition sample_pending :: "int service" where
  "sample_pending = \<lparr>splitJobs = [(''0'', JobPending)], jobDirs = [], uploads = [''f''], scheduled = [(''0'', sample_upload)],
     expiring = [], requests = 1\<rparr>"

lemma sample_submitted: "serves sample_env [PostSplit None (Some sample_upload)] sample_pending"
  by code_simp

definition sample_events :: "scan_event list" where
  "sample_events = [OnHeader (''HEADER;'' @ [nl] @ ''ENDSEC;''),
     OnEntity (Some ''1'') (Some ''PRODUCT'') ''#1=PRODUCT(a,b,c)'' 5 18]"

lemma sample_split:
  "\<exists>n parts files. splitStepFromFile sample_ops digits_of_nat (\<lambda>_. []) (\<lambda>s. s) 1 [sample_file] = Some (Inr (n # parts, files))"
proof -
  define ix where "ix = fold split_on_event sample_events split_index_init"
  let ?ti = "[(''PRODUCT'', [(''1'', ''a,b,c'')])]" and ?d = "''#1=PRODUCT(a,b,c);''"
  have scan: "scanStep (\<lambda>s. s) [sample_file] = Some sample_events" by code_simp
  have tem: "typeEntityMap ix = [(''1'', ?d)]" "sp_geomOffsets ix = []" unfolding ix_def by code_simp+
  have dat: "join [nl] (obj_values [(''1'', ?d)]) = ?d" by code_simp
  have bti: "buildTypeIndex ?d = ?ti" by code_simp
  have rag: "resolveAssemblyGeometry (\<lambda>_. []) (\<lambda>s. s) (concat [sample_file]) [(''1'', ?d)] [] ?ti = ?ti" by code_simp
  have "case split_parts sample_ops digits_of_nat ix ?ti ?ti ?d of Inr ps \<Rightarrow> length ps = 1 | _ \<Rightarrow> False"
    unfolding ix_def by code_simp
  then obtain ps where ps: "split_parts sample_ops digits_of_nat ix ?ti ?ti ?d = Inr ps" "length ps = 1"
    by (auto split: sum.splits)
  then obtain q where "ps = [q]" by (cases ps) auto
  with ps(1) show ?thesis
    unfolding splitStepFromFile_def Let_def scan option.map ix_def [symmetric] tem dat bti rag by simp
qed


definition job_status :: "string \<Rightarrow> 'f service \<Rightarrow> 'f job option" where
  "job_status j s = map_of (splitJobs s) j"

text \<open>C23. The life of a job: a new one is pending; a pending one stays so until its split has run and
  is done or failed then; a done one stays as it is until its expiry, which removes it; a failed one
  is kept for ever.\<close>

theorem job_life:
  assumes "serves env es s" "inj (cad_job_id env)" "enabled e s"
  shows "case job_status j s of
      None \<Rightarrow> job_status j (cad_step env e s) \<in> {None, Some JobPending}
    | Some JobPending \<Rightarrow> job_status j (cad_step env e s) = Some JobPending
        \<or> (\<exists>k disk. e = RunSplit k disk \<and> job_status j (cad_step env e s) \<noteq> None)
    | Some (JobDone parts) \<Rightarrow> job_status j (cad_step env e s) = (if e = Expire j then None else Some (JobDone parts))
    | Some (JobError msg) \<Rightarrow> job_status j (cad_step env e s) = Some (JobError msg)"
proof -
  have I: "service_inv env es s" using cad.holds [OF assms(1)] assms(2) by simp
  show ?thesis
  proof (cases e)
    case (PostParse fmt f)
    then show ?thesis by (cases f) (auto simp: post_parse_def job_status_def split: option.split job.split)
  next
    case (PostSplit fmt f)
    with next_job_new [OF I assms(2)] show ?thesis
      by (cases f) (auto simp: post_split_def job_status_def update_conv' Let_def split: option.split job.split)
  next
    case (RunSplit k disk)
    obtain i f where jf: "scheduled s ! k = (i, f)" by fastforce
    have "(i, f) \<in> set (scheduled s)" using jf RunSplit assms(3) nth_mem by fastforce
    then have "map_of (splitJobs s) i = Some JobPending" using I unfolding service_inv_def by blast
    with RunSplit show ?thesis
      by (auto simp: job_status_def run_split_facts [OF jf] split: option.split job.split sum.split)
  next
    case (Expire i)
    with assms(3) expiring_done [OF I, of i] show ?thesis
      by (auto simp: job_status_def expire_def map_of_delete delete_conv' split: option.split job.split)
  qed (auto simp: job_status_def split: option.split job.split)
qed

theorem job_life_witness:
  "job_status ''0'' (cad_step sample_env (GetJob ''0'') sample_pending) = Some JobPending"
proof -
  have "inj (cad_job_id sample_env)" "enabled (GetJob ''0'') sample_pending" "job_status ''0'' sample_pending = Some JobPending"
    by (simp_all add: sample_env_def inj_digits_of_nat job_status_def sample_pending_def)
  then show ?thesis using job_life [OF sample_submitted, of "GetJob ''0''" "''0''"] by simp
qed

text \<open>A file that comes with an unsupported format is refused before the code that removes uploads: it
  stays on the disk, whatever happens later.\<close>

definition left_behind :: "string \<Rightarrow> 'f service \<Rightarrow> bool" where
  "left_behind p s \<longleftrightarrow> p \<in> set (uploads s) \<and> p \<notin> up_path ` snd ` set (scheduled s)"

lemma left_behind_step:
  assumes "left_behind p s" "enabled e s"
  shows "left_behind p (cad_step env e s)"
proof (cases e)
  case (PostParse fmt f)
  with assms(1) show ?thesis by (cases f) (auto simp: post_parse_def left_behind_def)
next
  case (PostSplit fmt f)
  with assms show ?thesis by (cases f) (auto simp: post_split_def left_behind_def Let_def)
next
  case (RunSplit k disk)
  obtain j f where jf: "scheduled s ! k = (j, f)" by fastforce
  have k: "k < length (scheduled s)" using RunSplit assms(2) by simp
  then have "(j, f) \<in> set (scheduled s)" using jf nth_mem by metis
  then have "p \<noteq> up_path f" using assms(1) by (force simp: left_behind_def)
  moreover have "set (without k (scheduled s)) \<subseteq> set (scheduled s)"
    by (auto simp: without_def dest: in_set_takeD in_set_dropD)
  ultimately show ?thesis using assms(1) RunSplit by (auto simp: left_behind_def run_split_facts [OF jf])
next
  case (Expire j)
  with assms(1) show ?thesis by (auto simp: left_behind_def expire_def)
qed (use assms(1) in auto)

theorem rejected_split_keeps_upload:
  assumes "serves env es s" "inj (cad_job_id env)" "up_path f \<notin> set (uploads s)" "format_of fmt \<noteq> ''STEP''"
    and "run_machine enabled (cad_step env) later (cad_step env (PostSplit fmt (Some f)) s) = Some s'"
  shows "fst (handle env (PostSplit fmt (Some f)) s) = Some (Problem 422 (''Split not supported for format: '' @ format_of fmt))
    \<and> up_path f \<in> set (uploads s')"
proof -
  have "service_inv env es s" using cad.holds [OF assms(1)] assms(2) by simp
  then have "left_behind (up_path f) (cad_step env (PostSplit fmt (Some f)) s)"
    using assms(3,4) by (force simp: left_behind_def post_split_def service_inv_def)
  then have "left_behind (up_path f) s'"
    using run_machine_keeps [of "left_behind (up_path f)" enabled "cad_step env", OF left_behind_step] assms(5) by blast
  then show ?thesis using assms(4) by (simp add: left_behind_def post_split_def)
qed

end
