(* ===== verification/MeshCache.thy ===== *)
theory MeshCache
  imports Glb
begin

text \<open>
  The browser's 3D worker, \<open>frontend/src/workers/stepWorker.js\<close>, and the worker pool in front of it,
  \<open>stepWorkerInstance.js\<close>: merging of meshes by colour, the chunked download, the byte-bounded LRU
  cache with its load pipeline, and the routing by hash. A load is asynchronous; the points where it
  waits (IndexedDB, a running fetch, the network) are tasks of the state, and what arrives there is
  an event. IndexedDB and the network answer as they like. Log and progress messages carry no state
  and are not modelled, nor are the times of downloads and the record of past times.
\<close>

section \<open>Merging meshes\<close>

definition toFixed4 :: "rat \<Rightarrow> bool \<times> int" where
  \<comment> \<open>\<open>x.toFixed(4)\<close> by its sign and its digits\<close>
  "toFixed4 x = (x < 0, \<lfloor>\<bar>x\<bar> * 10000 + 1 / 2\<rfloor>)"

type_synonym color_text = "((bool \<times> int) \<times> (bool \<times> int) \<times> (bool \<times> int)) option"

definition color_key :: "gmesh \<Rightarrow> color_text" where
  "color_key m = map_option (\<lambda>(r, g, b). (toFixed4 r, toFixed4 g, toFixed4 b)) (g_color m)"

definition toIndexed :: "gmesh \<Rightarrow> gmesh" where
  "toIndexed m = (case g_indices m of Some _ \<Rightarrow> m
     | None \<Rightarrow> m\<lparr>g_indices := Some (map word_of_nat [0..<length (g_positions m) div 3])\<rparr>)"

definition add_to_group :: "gmesh \<Rightarrow> (color_text \<times> gmesh list) list \<Rightarrow> (color_text \<times> gmesh list) list" where
  "add_to_group = group_add color_key"

record merge_state =
  ms_positions :: "f32 list"
  ms_normals :: "f32 list"
  ms_indices :: "32 word list"
  ms_vOff :: nat

definition merge_step :: "gmesh \<Rightarrow> merge_state \<Rightarrow> merge_state" where
  \<comment> \<open>the arrays are allocated at their final length; what is written so far is kept here\<close>
  "merge_step m st =
     \<lparr>ms_positions = ms_positions st @ g_positions m,
      ms_normals = ms_normals st @ (case g_normals m of Some ns \<Rightarrow> ns | None \<Rightarrow> replicate (length (g_positions m)) 0),
      ms_indices = ms_indices st @ map (\<lambda>i. i + word_of_nat (ms_vOff st)) (case g_indices m of Some ix \<Rightarrow> ix | None \<Rightarrow> []),
      ms_vOff = ms_vOff st + length (g_positions m) div 3\<rparr>"

definition merge_group :: "gmesh list \<Rightarrow> gmesh" where
  "merge_group grp = (case grp of
       [m] \<Rightarrow> m
     | _ \<Rightarrow> (let st = fold merge_step (map toIndexed grp) \<lparr>ms_positions = [], ms_normals = [], ms_indices = [], ms_vOff = 0\<rparr>
            in \<lparr>g_positions = ms_positions st, g_normals = Some (ms_normals st), g_indices = Some (ms_indices st),
                g_color = g_color (hd grp)\<rparr>))"

definition mergeByColor :: "gmesh list \<Rightarrow> gmesh list" where
  "mergeByColor meshes = map (\<lambda>(_, grp). merge_group grp) (fold add_to_group meshes [])"

section \<open>Chunked download\<close>

definition CHUNK_SIZE :: nat where "CHUNK_SIZE = 4194304"

definition chunk_ranges :: "nat \<Rightarrow> nat \<Rightarrow> (nat \<times> nat) list" where
  \<comment> \<open>\<open>start\<close> and \<open>end\<close> of each turn; both ends are inclusive\<close>
  "chunk_ranges chunk sz = map (\<lambda>i. (i * chunk, min (i * chunk + chunk - 1) (sz - 1))) [0..<(sz + chunk - 1) div chunk]"

fun fetch_all :: "(nat \<Rightarrow> nat \<Rightarrow> int \<times> string) \<Rightarrow> (nat \<times> nat) list \<Rightarrow> string list option" where
  \<comment> \<open>status and body of each range request; a failed one ends the download\<close>
  "fetch_all net [] = Some []"
| "fetch_all net ((lo, hi) # rs) = (case net lo hi of (status, body) \<Rightarrow>
     if status \<noteq> 206 \<and> \<not> (200 \<le> status \<and> status < 300) then None else map_option (Cons body) (fetch_all net rs))"

definition fetchChunked :: "(nat \<Rightarrow> nat \<Rightarrow> int \<times> string) \<Rightarrow> nat \<Rightarrow> string option" where
  \<comment> \<open>\<open>out.set\<close> throws when the chunks exceed the size; missing bytes stay zero\<close>
  "fetchChunked net sz = Option.bind (fetch_all net (chunk_ranges CHUNK_SIZE sz)) (\<lambda>chunks.
     let got = concat chunks in if length got > sz then None else Some (got @ replicate (sz - length got) (CHR 0x00)))"

section \<open>The cache\<close>

record entry =
  en_meshes :: "gmesh list"
  en_bytes :: nat
  en_lastUsed :: nat

record job_stats =
  js_entries :: nat
  js_cacheBytes :: int
  js_maxBytes :: int
  js_memHits :: nat
  js_idbHits :: nat
  js_netFetches :: nat

datatype task = IdbWait string | Fetching nat string | Joined nat string   \<comment> \<open>a promise is a number\<close>

datatype message = Ready string "gmesh list" | ErrorMessage string string | StatsMessage job_stats

record worker =
  maxBytes :: int
  cacheBytes :: int
  cache :: "(string \<times> entry) list"
  memHits :: nat
  idbHits :: nat
  netFetches :: nat
  inflight :: "(string \<times> nat) list"
  tasks :: "task list"
  promises :: nat
  now :: nat
  posted :: "message list"
  stored :: "(string \<times> gmesh list) list"     \<comment> \<open>writes to IndexedDB\<close>

definition entryBytes :: "gmesh list \<Rightarrow> nat" where
  "entryBytes meshes = sum_list (map (\<lambda>m. 4 * length (g_positions m)
     + (case g_normals m of Some ns \<Rightarrow> 4 * length ns | None \<Rightarrow> 0) + (case g_indices m of Some ix \<Rightarrow> 4 * length ix | None \<Rightarrow> 0)) meshes)"

fun evict_loop :: "int \<Rightarrow> (string \<times> entry) list \<Rightarrow> worker \<Rightarrow> worker" where
  "evict_loop needed [] w = w"
| "evict_loop needed ((uuid, e) # es) w =
     (if cacheBytes w + needed \<le> maxBytes w then w
      else evict_loop needed es (w\<lparr>cache := AList.delete uuid (cache w), cacheBytes := cacheBytes w - int (en_bytes e)\<rparr>))"

definition evict :: "int \<Rightarrow> worker \<Rightarrow> worker" where
  "evict needed w = evict_loop needed (sort_key (\<lambda>(_, e). en_lastUsed e) (cache w)) w"

definition stats_of :: "worker \<Rightarrow> job_stats" where
  "stats_of w = \<lparr>js_entries = length (cache w), js_cacheBytes = cacheBytes w, js_maxBytes = maxBytes w,
     js_memHits = memHits w, js_idbHits = idbHits w, js_netFetches = netFetches w\<rparr>"

definition pushStats :: "worker \<Rightarrow> worker" where
  "pushStats w = w\<lparr>posted := posted w @ [StatsMessage (stats_of w)]\<rparr>"

definition post :: "message \<Rightarrow> worker \<Rightarrow> worker" where
  "post msg w = w\<lparr>posted := posted w @ [msg]\<rparr>"

definition insert_entry :: "string \<Rightarrow> gmesh list \<Rightarrow> worker \<Rightarrow> worker" where
  \<comment> \<open>\<open>evict(bytes); if (...) { _cache.set(...); _cacheBytes += bytes; }\<close>, then \<open>idbPut\<close>\<close>
  "insert_entry uuid meshes w =
     (let bytes = entryBytes meshes;
          w1 = evict (int bytes) w;
          w2 = (if cacheBytes w1 + int bytes \<le> maxBytes w1
                then w1\<lparr>cache := AList.update uuid \<lparr>en_meshes = meshes, en_bytes = bytes, en_lastUsed = now w1\<rparr> (cache w1),
                        cacheBytes := cacheBytes w1 + int bytes\<rparr>
                else w1)
      in w2\<lparr>stored := stored w2 @ [(uuid, meshes)]\<rparr>)"

definition load_part :: "string \<Rightarrow> worker \<Rightarrow> worker" where
  \<comment> \<open>\<open>loadPart\<close> up to its first wait\<close>
  "load_part uuid w =
     (case map_of (cache w) uuid of
        Some e \<Rightarrow> pushStats (post (Ready uuid (en_meshes e))
          (w\<lparr>memHits := memHits w + 1, cache := AList.update uuid (e\<lparr>en_lastUsed := now w\<rparr>) (cache w)\<rparr>))
      | None \<Rightarrow>
          (case map_of (inflight w) uuid of
             Some p \<Rightarrow> w\<lparr>tasks := tasks w @ [Joined p uuid]\<rparr>
           | None \<Rightarrow> w\<lparr>tasks := tasks w @ [IdbWait uuid]\<rparr>))"

definition drop_task :: "nat \<Rightarrow> worker \<Rightarrow> worker" where
  "drop_task k w = w\<lparr>tasks := take k (tasks w) @ drop (Suc k) (tasks w)\<rparr>"

definition idb_answer :: "nat \<Rightarrow> string \<Rightarrow> gmesh list option \<Rightarrow> worker \<Rightarrow> worker" where
  \<comment> \<open>\<open>loadPart\<close> after \<open>idbGet\<close>\<close>
  "idb_answer k uuid found w =
     (let w1 = drop_task k w in
      case found of
        Some meshes \<Rightarrow> pushStats (post (Ready uuid meshes) (insert_entry uuid meshes (w1\<lparr>idbHits := idbHits w1 + 1\<rparr>)))
      | None \<Rightarrow> w1\<lparr>tasks := tasks w1 @ [Fetching (promises w1) uuid],
                  inflight := AList.update uuid (promises w1) (inflight w1), promises := promises w1 + 1\<rparr>)"

definition joined_on :: "nat \<Rightarrow> task \<Rightarrow> bool" where
  "joined_on p t = (case t of Joined q _ \<Rightarrow> q = p | _ \<Rightarrow> False)"

definition serve_joined :: "string \<Rightarrow> string option \<Rightarrow> worker \<Rightarrow> worker" where
  \<comment> \<open>a load that had joined a fetch, once that is over\<close>
  "serve_joined uuid err w = (case err of
       Some msg \<Rightarrow> pushStats (post (ErrorMessage uuid msg) w)
     | None \<Rightarrow> (case map_of (cache w) uuid of Some e \<Rightarrow> post (Ready uuid (en_meshes e)) w | None \<Rightarrow> w))"

definition fetched :: "nat \<Rightarrow> nat \<Rightarrow> string \<Rightarrow> string + gmesh list \<Rightarrow> worker \<Rightarrow> worker" where
  \<comment> \<open>the end of \<open>_fetchAndParse\<close> and the loads that wait for it\<close>
  "fetched k p uuid res w =
     (let w1 = drop_task k w;
          joined = length (filter (joined_on p) (tasks w1));
          w2 = w1\<lparr>tasks := filter (\<lambda>t. \<not> joined_on p t) (tasks w1)\<rparr>;
          w3 = (case res of
                  Inl msg \<Rightarrow> w2
                | Inr meshes \<Rightarrow> (let v = insert_entry uuid meshes w2 in
                    pushStats (post (Ready uuid meshes) (v\<lparr>netFetches := netFetches v + 1\<rparr>))));
          w4 = w3\<lparr>inflight := AList.delete uuid (inflight w3)\<rparr>;
          w5 = (case res of Inl msg \<Rightarrow> pushStats (post (ErrorMessage uuid msg) w4) | Inr _ \<Rightarrow> w4)
      in (serve_joined uuid (case res of Inl msg \<Rightarrow> Some msg | Inr _ \<Rightarrow> None) ^^ joined) w5)"

definition clear_cache :: "worker \<Rightarrow> worker" where
  "clear_cache w = pushStats (w\<lparr>cache := [], cacheBytes := 0\<rparr>)"

definition set_max_bytes :: "int \<Rightarrow> worker \<Rightarrow> worker" where
  "set_max_bytes n w = pushStats (evict 0 (w\<lparr>maxBytes := n\<rparr>))"

datatype event = Load string | IdbAnswer nat "gmesh list option" | Fetched nat "string + gmesh list"
  | Clear | SetMaxBytes int | StatsRequest | Tick

inductive worker_step :: "worker \<Rightarrow> event \<Rightarrow> worker \<Rightarrow> bool" where
  on_load: "worker_step w (Load uuid) (load_part uuid w)"
| on_idb: "k < length (tasks w) \<Longrightarrow> tasks w ! k = IdbWait uuid \<Longrightarrow> worker_step w (IdbAnswer k found) (idb_answer k uuid found w)"
| on_fetched: "k < length (tasks w) \<Longrightarrow> tasks w ! k = Fetching p uuid \<Longrightarrow> worker_step w (Fetched k res) (fetched k p uuid res w)"
| on_clear: "worker_step w Clear (clear_cache w)"
| on_max: "0 \<le> n \<Longrightarrow> worker_step w (SetMaxBytes n) (set_max_bytes n w)"
| on_stats: "worker_step w StatsRequest (pushStats w)"
| on_tick: "worker_step w Tick (w\<lparr>now := now w + 1\<rparr>)"

inductive_simps worker_step_simps:
  "worker_step w (Load uuid) w'" "worker_step w (IdbAnswer k found) w'" "worker_step w (Fetched k res) w'"

definition MAX_BYTES :: int where "MAX_BYTES = 268435456"

definition new_worker :: worker where
  "new_worker = \<lparr>maxBytes = MAX_BYTES, cacheBytes = 0, cache = [], memHits = 0, idbHits = 0, netFetches = 0,
     inflight = [], tasks = [], promises = 0, now = 0, posted = [], stored = []\<rparr>"

inductive worker_run :: "event list \<Rightarrow> worker \<Rightarrow> bool" where
  run_start: "worker_run [] new_worker"
| run_event: "worker_run es w \<Longrightarrow> worker_step w e w' \<Longrightarrow> worker_run (es @ [e]) w'"

section \<open>The pool\<close>

definition hash_code :: "string \<Rightarrow> 32 word" where
  \<comment> \<open>\<open>h = (h * 31 + code) >>> 0\<close>\<close>
  "hash_code uuid = fold (\<lambda>c h. h * 31 + word_of_nat (of_char c)) uuid 0"

definition workerFor :: "nat \<Rightarrow> string \<Rightarrow> nat" where
  "workerFor poolSize uuid = unat (hash_code uuid) mod poolSize"

definition pool_size :: "int \<Rightarrow> int" where
  \<comment> \<open>\<open>Math.max(1, Math.min(navigator.hardwareConcurrency || 2, 4))\<close>\<close>
  "pool_size concurrency = max 1 (min (if concurrency = 0 then 2 else concurrency) 4)"

definition route :: "nat \<Rightarrow> string option \<Rightarrow> nat list" where
  \<comment> \<open>\<open>stepWorker.postMessage\<close>: the workers that get the message\<close>
  "route poolSize uuid = (case uuid of
       Some u \<Rightarrow> if u \<noteq> [] then [workerFor poolSize u] else [0..<poolSize]
     | None \<Rightarrow> [0..<poolSize])"

definition pool_stats :: "job_stats list \<Rightarrow> job_stats" where
  \<comment> \<open>the sums of \<open>useCacheStats\<close>\<close>
  "pool_stats xs = \<lparr>js_entries = sum_list (map js_entries xs), js_cacheBytes = sum_list (map js_cacheBytes xs),
     js_maxBytes = sum_list (map js_maxBytes xs), js_memHits = sum_list (map js_memHits xs),
     js_idbHits = sum_list (map js_idbHits xs), js_netFetches = sum_list (map js_netFetches xs)\<rparr>"

definition empty_stats :: job_stats where
  "empty_stats = \<lparr>js_entries = 0, js_cacheBytes = 0, js_maxBytes = 268435456, js_memHits = 0, js_idbHits = 0, js_netFetches = 0\<rparr>"

definition record_stats :: "nat \<Rightarrow> job_stats \<Rightarrow> job_stats list \<Rightarrow> job_stats list" where
  \<comment> \<open>what the stats handler of worker \<open>i\<close> keeps\<close>
  "record_stats i st arr = arr[i := st]"

definition poolAvg :: "rat option list \<Rightarrow> rat option" where
  "poolAvg xs = (let vals = List.map_filter (\<lambda>x. x) xs in if vals = [] then None else Some (sum_list vals / of_nat (length vals)))"

section \<open>Facts: the bound of the cache\<close>

definition held :: "(string \<times> entry) list \<Rightarrow> int" where
  \<comment> \<open>the bytes of the meshes the cache holds\<close>
  "held c = sum_list (map (\<lambda>(_, e). int (entryBytes (en_meshes e))) c)"

definition cache_ok :: "worker \<Rightarrow> bool" where
  "cache_ok w \<longleftrightarrow> distinct (map fst (cache w)) \<and> (\<forall>(_, e) \<in> set (cache w). en_bytes e = entryBytes (en_meshes e))
     \<and> held (cache w) \<le> cacheBytes w"

definition cache_inv :: "worker \<Rightarrow> bool" where
  "cache_inv w \<longleftrightarrow> cache_ok w \<and> 0 \<le> maxBytes w \<and> (cacheBytes w \<le> maxBytes w \<or> cache w = [])"

lemma held_simps [simp]: "held [] = 0" "held ((u, e) # c) = int (entryBytes (en_meshes e)) + held c"
  by (simp_all add: held_def)

lemma held_delete: "distinct (map fst c) \<Longrightarrow> map_of c u = Some e \<Longrightarrow> held (AList.delete u c) = held c - int (entryBytes (en_meshes e))"
proof (induction c)
  case (Cons a c)
  obtain v f where a: "a = (v, f)" by fastforce
  show ?case
  proof (cases "v = u")
    case True
    with Cons.prems a have "AList.delete u c = c" by (simp add: delete_id)
    with True Cons.prems a show ?thesis by simp
  qed (use Cons a in simp)
qed simp

lemma held_update: "held (AList.update u e c) = held c + int (entryBytes (en_meshes e))
    - (case map_of c u of Some f \<Rightarrow> int (entryBytes (en_meshes f)) | None \<Rightarrow> 0)"
  by (induction c) (auto split: option.splits)

lemma set_update_entries: "set (AList.update u e c) \<subseteq> insert (u, e) (set c)"
  by (induction c) auto

lemma cache_ok_delete:
  assumes "cache_ok w" "map_of (cache w) u = Some e"
  shows "cache_ok (w\<lparr>cache := AList.delete u (cache w), cacheBytes := cacheBytes w - int (en_bytes e)\<rparr>)"
proof -
  have "(u, e) \<in> set (cache w)" using assms(2) by (rule map_of_SomeD)
  with assms(1) have "en_bytes e = entryBytes (en_meshes e)" by (auto simp: cache_ok_def)
  moreover have "set (AList.delete u (cache w)) \<subseteq> set (cache w)" by (simp add: AList.delete_eq)
  ultimately show ?thesis using assms held_delete [of "cache w" u e]
    by (auto simp: cache_ok_def distinct_delete)
qed

lemma evict_loop_spec:
  assumes "cache_ok w" "distinct (map fst es)" "\<forall>(u, e) \<in> set es. map_of (cache w) u = Some e"
    "fst ` set (cache w) \<subseteq> fst ` set es"
  shows "\<exists>c n. evict_loop needed es w = w\<lparr>cache := c, cacheBytes := n\<rparr> \<and> cache_ok (evict_loop needed es w)
    \<and> (n + needed \<le> maxBytes w \<or> c = [])"
  using assms
proof (induction needed es w rule: evict_loop.induct)
  case (1 needed w)
  then show ?case by (intro exI [of _ "cache w"] exI [of _ "cacheBytes w"]) auto
next
  case (2 needed u e es w)
  show ?case
  proof (cases "cacheBytes w + needed \<le> maxBytes w")
    case True
    with 2 show ?thesis by (intro exI [of _ "cache w"] exI [of _ "cacheBytes w"]) auto
  next
    case False
    let ?w = "w\<lparr>cache := AList.delete u (cache w), cacheBytes := cacheBytes w - int (en_bytes e)\<rparr>"
    have ok: "cache_ok ?w" using 2 by (intro cache_ok_delete) auto
    have dom: "fst ` set (AList.delete u (cache w)) \<subseteq> fst ` set es"
      using 2(5) by (force simp: AList.delete_eq)
    have "\<forall>(v, f) \<in> set es. map_of (AList.delete u (cache w)) v = Some f"
      using 2(3,4) by (force simp: map_of_delete delete_conv')
    with 2(1) [OF False ok] 2(3) dom False show ?thesis by (force)
  qed
qed

lemma evict_spec:
  assumes "cache_ok w"
  shows "\<exists>c n. evict needed w = w\<lparr>cache := c, cacheBytes := n\<rparr> \<and> cache_ok (evict needed w)
    \<and> (n + needed \<le> maxBytes w \<or> c = [])"
proof -
  have d: "distinct (map fst (cache w))" using assms by (simp add: cache_ok_def)
  have m: "mset (sort_key (\<lambda>(_, e). en_lastUsed e) (cache w)) = mset (cache w)" by simp
  have "distinct (map fst (sort_key (\<lambda>(_, e). en_lastUsed e) (cache w)))"
    using d m by (metis mset_map mset_eq_imp_distinct_iff)
  with d show ?thesis unfolding evict_def by (intro evict_loop_spec [OF assms]) auto
qed

lemma insert_entry_inv:
  assumes "cache_inv w"
  shows "cache_inv (insert_entry u ms w)"
proof -
  obtain c n where e: "evict (int (entryBytes ms)) w = w\<lparr>cache := c, cacheBytes := n\<rparr>"
      "cache_ok (w\<lparr>cache := c, cacheBytes := n\<rparr>)" "n + int (entryBytes ms) \<le> maxBytes w \<or> c = []"
    using evict_spec [of w "int (entryBytes ms)"] assms by (auto simp: cache_inv_def)
  let ?e = "\<lparr>en_meshes = ms, en_bytes = entryBytes ms, en_lastUsed = now w\<rparr>"
  have h: "held (AList.update u ?e c) \<le> held c + int (entryBytes ms)" by (auto simp: held_update split: option.split)
  have "cache_inv (w\<lparr>cache := AList.update u ?e c, cacheBytes := n + int (entryBytes ms)\<rparr>)"
    if "n + int (entryBytes ms) \<le> maxBytes w"
    using that e(2) h assms set_update_entries [of u ?e c]
    by (force simp: cache_inv_def cache_ok_def distinct_update)
  moreover have "cache_inv (w\<lparr>cache := c, cacheBytes := n\<rparr>)" if "\<not> n + int (entryBytes ms) \<le> maxBytes w"
    using that e assms by (auto simp: cache_inv_def)
  ultimately show ?thesis by (auto simp: insert_entry_def Let_def e(1) cache_inv_def cache_ok_def)
qed

definition same_cache :: "worker \<Rightarrow> worker \<Rightarrow> bool" where
  "same_cache w v \<longleftrightarrow> cache v = cache w \<and> cacheBytes v = cacheBytes w \<and> maxBytes v = maxBytes w"

lemma same_cache_inv: "same_cache w v \<Longrightarrow> cache_inv v = cache_inv w"
  by (simp add: same_cache_def cache_inv_def cache_ok_def)

lemma quiet_ops [simp]:
  "cache_inv (pushStats w) = cache_inv w" "cache_inv (post m w) = cache_inv w" "cache_inv (drop_task k w) = cache_inv w"
  "cache_inv (w\<lparr>tasks := ts\<rparr>) = cache_inv w" "cache_inv (w\<lparr>idbHits := a\<rparr>) = cache_inv w" "cache_inv (w\<lparr>netFetches := b\<rparr>) = cache_inv w"
  "cache_inv (w\<lparr>inflight := c\<rparr>) = cache_inv w" "cache_inv (w\<lparr>promises := d\<rparr>) = cache_inv w" "cache_inv (w\<lparr>now := f\<rparr>) = cache_inv w"
  by (rule same_cache_inv, simp add: same_cache_def pushStats_def post_def drop_task_def)+

lemma serve_joined_inv: "cache_inv w \<Longrightarrow> cache_inv ((serve_joined u err ^^ n) w)"
  by (induction n) (auto simp: serve_joined_def split: option.split)

lemma touch_inv:
  assumes "cache_inv w" "map_of (cache w) u = Some e"
  shows "cache_inv (w\<lparr>memHits := h, cache := AList.update u (e\<lparr>en_lastUsed := t\<rparr>) (cache w)\<rparr>)"
proof -
  have "(u, e) \<in> set (cache w)" using assms(2) by (rule map_of_SomeD)
  moreover have "held (AList.update u (e\<lparr>en_lastUsed := t\<rparr>) (cache w)) = held (cache w)"
    using assms(2) by (simp add: held_update)
  moreover have "cache w \<noteq> []" using assms(2) by auto
  ultimately show ?thesis using assms(1) set_update_entries [of u "e\<lparr>en_lastUsed := t\<rparr>" "cache w"]
    by (force simp: cache_inv_def cache_ok_def distinct_update)
qed

lemma worker_step_inv: "worker_step w e w' \<Longrightarrow> cache_inv w \<Longrightarrow> cache_inv w'"
proof (induction rule: worker_step.induct)
  case (on_load w uuid)
  then show ?case using touch_inv by (auto simp: load_part_def split: option.split)
next
  case (on_idb k w uuid found)
  then show ?case using insert_entry_inv by (auto simp: idb_answer_def Let_def split: option.split)
next
  case (on_fetched k w p uuid res)
  then show ?case
    by (auto simp: fetched_def Let_def insert_entry_inv serve_joined_inv split: sum.split)
next
  case (on_clear w)
  then show ?case by (simp add: clear_cache_def) (simp add: cache_inv_def cache_ok_def)
next
  case (on_max n w)
  have "cache_ok (w\<lparr>maxBytes := n\<rparr>)" using on_max by (simp add: cache_inv_def cache_ok_def)
  from evict_spec [OF this, of 0] on_max show ?case by (auto simp: set_max_bytes_def) (auto simp: cache_inv_def)
qed simp_all


definition tri :: "gmesh list" where
  "tri = [\<lparr>g_positions = [0, 0, 0, 1, 0, 0, 0, 1, 0], g_normals = None, g_indices = None, g_color = None\<rparr>]"

lemma twice_loaded:
  "let w = idb_answer 0 ''u'' (Some tri) (idb_answer 0 ''u'' (Some tri) (load_part ''u'' (load_part ''u'' new_worker)))
   in length (cache w) = 1 \<and> held (cache w) = 36 \<and> cacheBytes w = 72 \<and> tasks w = []"
  by code_simp

lemma twice_loaded_run:
  "worker_run [Load ''u'', Load ''u'', IdbAnswer 0 (Some tri), IdbAnswer 0 (Some tri)]
     (idb_answer 0 ''u'' (Some tri) (idb_answer 0 ''u'' (Some tri) (load_part ''u'' (load_part ''u'' new_worker))))"
proof -
  let ?w2 = "load_part ''u'' (load_part ''u'' new_worker)" and ?w3 = "idb_answer 0 ''u'' (Some tri) (load_part ''u'' (load_part ''u'' new_worker))"
  have "0 < length (tasks ?w2) \<and> tasks ?w2 ! 0 = IdbWait ''u''" "0 < length (tasks ?w3) \<and> tasks ?w3 ! 0 = IdbWait ''u''" by code_simp+
  then have s: "worker_step ?w2 (IdbAnswer 0 (Some tri)) ?w3"
    "worker_step ?w3 (IdbAnswer 0 (Some tri)) (idb_answer 0 ''u'' (Some tri) ?w3)" by (blast intro: on_idb)+
  have "worker_run (((([] @ [Load ''u'']) @ [Load ''u'']) @ [IdbAnswer 0 (Some tri)]) @ [IdbAnswer 0 (Some tri)]) (idb_answer 0 ''u'' (Some tri) ?w3)"
    by (rule run_event [OF run_event [OF run_event [OF run_event [OF run_start on_load] on_load] s(1)] s(2)])
  then show ?thesis by simp
qed


text \<open>Two loads of one part that both wait for IndexedDB count its bytes twice: the counter is then
  above what the cache holds, and the difference is lost to it until the cache is cleared.\<close>

theorem cache_counts_twice:
  "\<exists>es w. worker_run es w \<and> tasks w = [] \<and> length (cache w) = 1 \<and> 0 < held (cache w) \<and> cacheBytes w = 2 * held (cache w)"
  using twice_loaded_run twice_loaded unfolding Let_def by force

definition answers :: "string \<Rightarrow> worker \<Rightarrow> nat" where
  "answers u w = length (filter (\<lambda>m. case m of Ready v _ \<Rightarrow> v = u | ErrorMessage v _ \<Rightarrow> v = u | _ \<Rightarrow> False) (posted w))"

lemma joined_silent:
  "let w1 = load_part ''u'' (idb_answer 0 ''u'' None (load_part ''u'' (set_max_bytes 0 new_worker)));
       w2 = fetched 0 0 ''u'' (Inr tri) w1
   in tasks w1 = [Fetching 0 ''u'', Joined 0 ''u''] \<and> tasks w2 = [] \<and> answers ''u'' w2 = 1"
  by code_simp

text \<open>A load that joined a running fetch of its part is answered from the cache when the fetch is
  over; if the part was too large to be cached it gets no answer, neither meshes nor an error.\<close>

theorem joined_load_unanswered:
  "\<exists>w. worker_run [SetMaxBytes 0, Load ''u'', IdbAnswer 0 None, Load ''u'', Fetched 0 (Inr tri)] w
     \<and> tasks w = [] \<and> answers ''u'' w = 1"
proof -
  let ?w1 = "load_part ''u'' (set_max_bytes 0 new_worker)"
  let ?w3 = "load_part ''u'' (idb_answer 0 ''u'' None ?w1)"
  have "0 < length (tasks ?w1) \<and> tasks ?w1 ! 0 = IdbWait ''u''" "0 < length (tasks ?w3) \<and> tasks ?w3 ! 0 = Fetching 0 ''u''" by code_simp+
  then have s: "worker_step ?w1 (IdbAnswer 0 None) (idb_answer 0 ''u'' None ?w1)"
    "worker_step ?w3 (Fetched 0 (Inr tri)) (fetched 0 0 ''u'' (Inr tri) ?w3)"
    by (blast intro: on_idb on_fetched)+
  have m: "worker_step new_worker (SetMaxBytes 0) (set_max_bytes 0 new_worker)" by (rule on_max) simp
  have "worker_run ((((([] @ [SetMaxBytes 0]) @ [Load ''u'']) @ [IdbAnswer 0 None]) @ [Load ''u'']) @ [Fetched 0 (Inr tri)])
      (fetched 0 0 ''u'' (Inr tri) ?w3)"
    by (rule run_event [OF run_event [OF run_event [OF run_event [OF run_event [OF run_start m] on_load] s(1)] on_load] s(2)])
  with joined_silent show ?thesis unfolding Let_def by (intro exI [of _ "fetched 0 0 ''u'' (Inr tri) ?w3"]) simp
qed

section \<open>Facts: merging\<close>

definition corner :: "f32 list \<Rightarrow> nat \<Rightarrow> f32 list" where
  "corner ps i = take 3 (drop (3 * i) ps)"

definition corners :: "gmesh \<Rightarrow> f32 list list" where
  \<comment> \<open>the points of the triangles, three after three\<close>
  "corners m = (case g_indices m of Some ix \<Rightarrow> map (\<lambda>i. corner (g_positions m) (unat i)) ix
     | None \<Rightarrow> map (corner (g_positions m)) [0..<length (g_positions m) div 3])"

definition geometry_ok :: "gmesh \<Rightarrow> bool" where
  "geometry_ok m \<longleftrightarrow> length (g_positions m) mod 3 = 0
     \<and> (\<forall>ix. g_indices m = Some ix \<longrightarrow> (\<forall>i \<in> set ix. unat i < length (g_positions m) div 3))"

definition vertices :: "gmesh list \<Rightarrow> nat" where
  "vertices ms = sum_list (map (\<lambda>m. length (g_positions m) div 3) ms)"

lemma corner_append: "3 * i + 3 \<le> length ps \<Longrightarrow> corner (ps @ qs) i = corner ps i"
  by (simp add: corner_def)

lemma corner_shift: "length ps = 3 * v \<Longrightarrow> corner (ps @ qs) (i + v) = corner qs i"
  by (simp add: corner_def algebra_simps)

lemma toIndexed_facts:
  assumes "geometry_ok m" "length (g_positions m) div 3 < 2 ^ 32"
  shows "corners (toIndexed m) = corners m" "geometry_ok (toIndexed m)" "g_positions (toIndexed m) = g_positions m"
    "\<exists>ix. g_indices (toIndexed m) = Some ix"
proof -
  have u: "i < length (g_positions m) div 3 \<Longrightarrow> unat (word_of_nat i :: 32 word) = i" for i
    using assms(2) by (simp add: unat_of_nat)
  show "corners (toIndexed m) = corners m"
    by (cases "g_indices m") (auto simp: toIndexed_def corners_def u)
  show "geometry_ok (toIndexed m)" using assms(1)
    by (cases "g_indices m") (auto simp: toIndexed_def geometry_ok_def u)
qed (auto simp: toIndexed_def split: option.split)

definition state_corners :: "merge_state \<Rightarrow> f32 list list" where
  "state_corners st = map (\<lambda>i. corner (ms_positions st) (unat i)) (ms_indices st)"

definition merge_ok :: "merge_state \<Rightarrow> bool" where
  "merge_ok st \<longleftrightarrow> length (ms_positions st) = 3 * ms_vOff st \<and> (\<forall>i \<in> set (ms_indices st). unat i < ms_vOff st)"

lemma merge_step_corners:
  assumes "merge_ok st" "geometry_ok m" "g_indices m = Some ix" "ms_vOff st + length (g_positions m) div 3 < 2 ^ 32"
  shows "merge_ok (merge_step m st)" "state_corners (merge_step m st) = state_corners st @ corners m"
proof -
  define n where "n = length (g_positions m) div 3"
  have len: "length (ms_positions st) = 3 * ms_vOff st" "length (g_positions m) = 3 * n"
    using assms(1,2) by (auto simp: merge_ok_def geometry_ok_def n_def)
  have old: "unat i < ms_vOff st" if "i \<in> set (ms_indices st)" for i using assms(1) that by (simp add: merge_ok_def)
  have lt: "unat i < n" if "i \<in> set ix" for i using assms(2,3) that by (auto simp: geometry_ok_def n_def)
  have u: "unat (i + word_of_nat (ms_vOff st)) = unat i + ms_vOff st" if "i \<in> set ix" for i :: "32 word"
  proof -
    have "unat (word_of_nat (ms_vOff st) :: 32 word) = ms_vOff st" using assms(4) by (simp add: unat_of_nat)
    with lt [OF that] assms(4) show ?thesis by (subst unat_add_lem [THEN iffD1]) (simp_all add: n_def)
  qed
  show "merge_ok (merge_step m st)"
    using old lt len u by (auto simp: merge_ok_def merge_step_def assms(3) n_def [symmetric] trans_less_add1)
  have "corner (ms_positions st @ g_positions m) (unat i) = corner (ms_positions st) (unat i)" if "i \<in> set (ms_indices st)" for i
    using old [OF that] len by (intro corner_append) simp
  moreover have "corner (ms_positions st @ g_positions m) (unat (i + word_of_nat (ms_vOff st))) = corner (g_positions m) (unat i)"
    if "i \<in> set ix" for i using len by (simp add: u [OF that] corner_shift)
  ultimately show "state_corners (merge_step m st) = state_corners st @ corners m"
    by (simp add: state_corners_def merge_step_def corners_def assms(3))
qed

lemma merge_fold_corners:
  assumes "merge_ok st" "\<forall>m \<in> set ms. geometry_ok m \<and> (\<exists>ix. g_indices m = Some ix)" "ms_vOff st + vertices ms < 2 ^ 32"
  shows "state_corners (fold merge_step ms st) = state_corners st @ concat (map corners ms)"
  using assms
proof (induction ms arbitrary: st)
  case (Cons m ms)
  from Cons.prems(2) obtain ix where m: "geometry_ok m" "g_indices m = Some ix" by auto
  have v: "ms_vOff st + length (g_positions m) div 3 < 2 ^ 32" using Cons.prems(3) by (simp add: vertices_def)
  note st = merge_step_corners [OF Cons.prems(1) m v]
  have "ms_vOff (merge_step m st) + vertices ms < 2 ^ 32" using Cons.prems(3) by (simp add: vertices_def merge_step_def)
  from Cons.IH [OF st(1) _ this] Cons.prems(2) st(2) show ?case by simp
qed simp

lemma merge_group_corners:
  assumes "\<forall>m \<in> set ms. geometry_ok m" "vertices ms < 2 ^ 32"
  shows "corners (merge_group ms) = concat (map corners ms)"
proof (cases "\<exists>m. ms = [m]")
  case True
  then show ?thesis by (auto simp: merge_group_def)
next
  case False
  let ?st0 = "\<lparr>ms_positions = [], ms_normals = [], ms_indices = [], ms_vOff = 0\<rparr>"
  have le: "length (g_positions m) div 3 < 2 ^ 32" if "m \<in> set ms" for m
    using member_le_sum_list [of "length (g_positions m) div 3" "map (\<lambda>m. length (g_positions m) div 3) ms"] that assms(2)
    by (simp add: vertices_def)
  have t: "corners (toIndexed m) = corners m" "geometry_ok (toIndexed m)" "g_positions (toIndexed m) = g_positions m"
    "\<exists>ix. g_indices (toIndexed m) = Some ix" if "m \<in> set ms" for m
    using toIndexed_facts [OF _ le [OF that]] assms(1) that by auto
  have "vertices (map toIndexed ms) = vertices ms" using t(3) by (simp add: vertices_def o_def cong: map_cong)
  then have "state_corners (fold merge_step (map toIndexed ms) ?st0) = concat (map corners (map toIndexed ms))"
    using merge_fold_corners [of ?st0 "map toIndexed ms"] t(2,4) assms(2) by (simp add: merge_ok_def state_corners_def)
  also have "map corners (map toIndexed ms) = map corners ms" using t(1) by simp
  finally have "state_corners (fold merge_step (map toIndexed ms) ?st0) = concat (map corners ms)" .
  moreover have "merge_group ms = (let st = fold merge_step (map toIndexed ms) ?st0
            in \<lparr>g_positions = ms_positions st, g_normals = Some (ms_normals st), g_indices = Some (ms_indices st),
                g_color = g_color (hd ms)\<rparr>)"
    using False by (auto simp: merge_group_def split: list.split)
  ultimately show ?thesis by (simp add: corners_def state_corners_def Let_def)
qed

lemma groups_spec:
  "fold add_to_group ms [] = map (\<lambda>k. (k, filter (\<lambda>m. color_key m = k) ms)) (js_set_of (map color_key ms))"
  using group_by_spec [of color_key ms] by (simp add: add_to_group_def)

lemma color_key_group: "ms \<noteq> [] \<Longrightarrow> \<forall>m \<in> set ms. color_key m = k \<Longrightarrow> color_key (merge_group ms) = k"
  by (cases ms rule: list.exhaust) (auto simp: merge_group_def color_key_def Let_def split: list.split)

text \<open>C21. Merging by colour keeps the picture: the result has one mesh for each colour that occurs, in
  the order in which the colours first occur, and its triangles are those of the meshes of that
  colour, corner for corner, in their order.\<close>

theorem mergeByColor_triangles:
  assumes "\<forall>m \<in> set ms. geometry_ok m" "vertices ms < 2 ^ 32"
  shows "map (\<lambda>g. (color_key g, corners g)) (mergeByColor ms) =
    map (\<lambda>k. (k, concat (map corners (filter (\<lambda>m. color_key m = k) ms)))) (js_set_of (map color_key ms))"
proof -
  have "color_key (merge_group grp) = k \<and> corners (merge_group grp) = concat (map corners grp)"
    if "k \<in> set (js_set_of (map color_key ms))" "grp = filter (\<lambda>m. color_key m = k) ms" for k grp
  proof -
    from that(1) obtain m where "m \<in> set ms" "color_key m = k" by auto
    then have "grp \<noteq> []" using that(2) by (auto simp: filter_empty_conv)
    moreover have "vertices grp \<le> vertices ms" unfolding that(2) vertices_def by (induction ms) auto
    ultimately show ?thesis using that(2) assms by (auto intro!: color_key_group merge_group_corners)
  qed
  then show ?thesis by (simp add: mergeByColor_def groups_spec)
qed

lemma tri_merges: "length (mergeByColor (tri @ tri)) = 1"
  by code_simp

theorem mergeByColor_triangles_witness:
  "map (\<lambda>g. (color_key g, corners g)) (mergeByColor (tri @ tri)) =
     map (\<lambda>k. (k, concat (map corners (filter (\<lambda>m. color_key m = k) (tri @ tri))))) (js_set_of (map color_key (tri @ tri)))
   \<and> length (mergeByColor (tri @ tri)) = 1"
proof -
  have "\<forall>m \<in> set (tri @ tri). geometry_ok m" "vertices (tri @ tri) < 2 ^ 32"
    by (simp_all add: tri_def geometry_ok_def vertices_def)
  from mergeByColor_triangles [OF this] show ?thesis using tri_merges by blast
qed

end
