(* ===== verification/WsClient.thy ===== *)
theory WsClient
  imports JsValue
begin

text \<open>
  The shared WebSocket of a browser tab, \<open>frontend/src/hooks/useWebSocket.js\<close>: the module variables
  are the record \<open>ws\<close>, every socket object ever made is an entry of \<open>sockets\<close> with its ready state and
  the handlers it carries, a timer is a number and pending until it fires or is cleared. What the
  browser may do next (a socket opens, delivers or closes, a timer fires) is an event; timers fire
  at any time and in any order, so the delays play no part. Log messages are not modelled.
\<close>

section \<open>State\<close>

datatype ready_state = CONNECTING | OPEN | CLOSING | CLOSED
datatype open_handler = Connected | CloseIt          \<comment> \<open>the two functions \<open>onopen\<close> may be\<close>

record ws_socket =
  readyState :: ready_state
  onopen :: open_handler
  onclose :: bool
  onmessage :: bool

datatype frame = Ping | Subscribe string

record ws =
  sockets :: "ws_socket list"
  socket :: "nat option"
  refCount :: nat
  currentUserId :: "string option"
  currentProjectSpaceId :: "string option"
  reconnectTimer :: "nat option"
  reconnects :: "nat list"                 \<comment> \<open>reconnect timers that are pending\<close>
  reconnectDelay :: nat
  closeTimer :: "nat option"
  closes :: "nat list"                     \<comment> \<open>close timers that are pending\<close>
  timerIds :: nat
  monitors :: bool
  lastActivity :: nat
  clock :: nat
  sent :: "(nat \<times> frame) list"
  fired :: "(nat \<times> json) list"            \<comment> \<open>socket and event, as given to the shell's bus\<close>

definition ws_loaded :: ws where
  \<comment> \<open>the module as loaded\<close>
  "ws_loaded = \<lparr>sockets = [], socket = None, refCount = 0, currentUserId = None, currentProjectSpaceId = None,
     reconnectTimer = None, reconnects = [], reconnectDelay = 1000, closeTimer = None, closes = [], timerIds = 0,
     monitors = False, lastActivity = 0, clock = 0, sent = [], fired = []\<rparr>"

section \<open>Operations\<close>

definition ws_url :: "bool \<Rightarrow> string \<Rightarrow> string option \<Rightarrow> string" where
  \<comment> \<open>\<open>https\<close>, the host, the session token\<close>
  "ws_url https host token = (let proto = (if https then ''wss:'' else ''ws:'') in
     case token of
       Some t \<Rightarrow> if t \<noteq> [] then proto @ ''//'' @ host @ ''/api/ws/?token='' @ encodeURIComponent t
                 else proto @ ''//'' @ host @ ''/api/ws/''
     | None \<Rightarrow> proto @ ''//'' @ host @ ''/api/ws/'')"

definition KEEPALIVE_MS :: nat where "KEEPALIVE_MS = 25000"
definition STALE_MS :: nat where "STALE_MS = 40000"

definition modify :: "nat \<Rightarrow> (ws_socket \<Rightarrow> ws_socket) \<Rightarrow> ws \<Rightarrow> ws" where
  "modify k f s = s\<lparr>sockets := (sockets s)[k := f (sockets s ! k)]\<rparr>"

definition close :: "ws_socket \<Rightarrow> ws_socket" where
  \<comment> \<open>the browser's \<open>close()\<close>\<close>
  "close c = (if readyState c = CLOSED then c else c\<lparr>readyState := CLOSING\<rparr>)"

definition socket_open :: "ws \<Rightarrow> bool" where
  \<comment> \<open>\<open>socket && socket.readyState === WebSocket.OPEN\<close>\<close>
  "socket_open s = (case socket s of Some k \<Rightarrow> readyState (sockets s ! k) = OPEN | None \<Rightarrow> False)"

definition send :: "frame \<Rightarrow> ws \<Rightarrow> ws" where
  "send m s = s\<lparr>sent := sent s @ [(the (socket s), m)]\<rparr>"

definition startMonitors :: "ws \<Rightarrow> ws" where
  "startMonitors s = s\<lparr>monitors := True, lastActivity := clock s\<rparr>"

definition stopMonitors :: "ws \<Rightarrow> ws" where
  "stopMonitors s = s\<lparr>monitors := False\<rparr>"

definition keepalive_tick :: "ws \<Rightarrow> ws" where
  "keepalive_tick s = (if socket_open s then send Ping s else s)"

definition watchdog_tick :: "ws \<Rightarrow> ws" where
  "watchdog_tick s = (if socket_open s \<and> clock s - lastActivity s > STALE_MS then modify (the (socket s)) close s else s)"

definition sendSubscribe :: "ws \<Rightarrow> ws" where
  "sendSubscribe s = (case currentProjectSpaceId s of
       Some ps \<Rightarrow> if ps \<noteq> [] \<and> socket_open s then send (Subscribe ps) s else s
     | None \<Rightarrow> s)"

definition openSocket :: "ws \<Rightarrow> ws" where
  "openSocket s = s\<lparr>sockets := sockets s @ [\<lparr>readyState = CONNECTING, onopen = Connected, onclose = True, onmessage = True\<rparr>],
     socket := Some (length (sockets s))\<rparr>"

definition on_open :: "nat \<Rightarrow> ws \<Rightarrow> ws" where
  "on_open k s = (let s1 = modify k (\<lambda>c. c\<lparr>readyState := OPEN\<rparr>) s in
     case onopen (sockets s ! k) of
       Connected \<Rightarrow> sendSubscribe (startMonitors (s1\<lparr>reconnectDelay := 1000\<rparr>))
     | CloseIt \<Rightarrow> modify k close s1)"

definition on_message :: "(string \<Rightarrow> json option) \<Rightarrow> nat \<Rightarrow> string \<Rightarrow> ws \<Rightarrow> ws" where
  \<comment> \<open>\<open>JSON.parse\<close>, None when it throws; reading a property of \<open>null\<close> throws too\<close>
  "on_message parse k text s =
     (if \<not> onmessage (sockets s ! k) then s
      else (let s1 = s\<lparr>lastActivity := clock s\<rparr> in
        case parse text of
          None \<Rightarrow> s1
        | Some e \<Rightarrow> if e = JNull then s1
                    else if jprop (Some e) ''type'' = Some (JStr ''heartbeat'') then s1
                    else s1\<lparr>fired := fired s1 @ [(k, e)]\<rparr>))"

definition on_close :: "nat \<Rightarrow> ws \<Rightarrow> ws" where
  "on_close k s = (let s1 = modify k (\<lambda>c. c\<lparr>readyState := CLOSED\<rparr>) s in
     if \<not> onclose (sockets s ! k) then s1
     else (let s2 = stopMonitors (s1\<lparr>socket := None\<rparr>) in
       if refCount s2 = 0 then s2
       else s2\<lparr>reconnectTimer := Some (timerIds s2), reconnects := reconnects s2 @ [timerIds s2], timerIds := timerIds s2 + 1\<rparr>))"

definition reconnect_fires :: "nat \<Rightarrow> ws \<Rightarrow> ws" where
  "reconnect_fires t s = openSocket (s\<lparr>reconnects := removeAll t (reconnects s), reconnectDelay := min (reconnectDelay s * 2) 30000\<rparr>)"

definition clear_reconnect :: "ws \<Rightarrow> ws" where
  "clear_reconnect s = (case reconnectTimer s of
       Some t \<Rightarrow> s\<lparr>reconnects := removeAll t (reconnects s), reconnectTimer := None\<rparr> | None \<Rightarrow> s)"

definition closeSocket :: "ws \<Rightarrow> ws" where
  "closeSocket s = (let s1 = stopMonitors (clear_reconnect s) in
     case socket s1 of
       None \<Rightarrow> s1
     | Some k \<Rightarrow> (modify k (\<lambda>c. let c1 = c\<lparr>onclose := False, onmessage := False\<rparr>
           in if readyState c = CONNECTING then c1\<lparr>onopen := CloseIt\<rparr> else close c1) s1)\<lparr>socket := None\<rparr>)"

definition reconnect :: "ws \<Rightarrow> ws" where
  "reconnect s = (let s1 = (closeSocket s)\<lparr>reconnectDelay := 1000\<rparr> in if refCount s1 > 0 then openSocket s1 else s1)"

definition clear_close :: "ws \<Rightarrow> ws" where
  "clear_close s = (case closeTimer s of
       Some t \<Rightarrow> s\<lparr>closes := removeAll t (closes s), closeTimer := None\<rparr> | None \<Rightarrow> s)"

definition acquire :: "string option \<Rightarrow> ws \<Rightarrow> ws" where
  "acquire userId s = (let s1 = clear_close s; s2 = s1\<lparr>refCount := refCount s1 + 1\<rparr> in
     if socket s2 = None then openSocket (s2\<lparr>currentUserId := userId\<rparr>)
     else if userId \<noteq> currentUserId s2 then reconnect (s2\<lparr>currentUserId := userId\<rparr>)
     else s2)"

definition release :: "ws \<Rightarrow> ws" where
  "release s = (let s1 = s\<lparr>refCount := refCount s - 1\<rparr> in
     if refCount s1 = 0 then s1\<lparr>closeTimer := Some (timerIds s1), closes := closes s1 @ [timerIds s1], timerIds := timerIds s1 + 1\<rparr>
     else s1)"

definition close_fires :: "nat \<Rightarrow> ws \<Rightarrow> ws" where
  "close_fires t s = (let s1 = s\<lparr>closes := removeAll t (closes s), closeTimer := None\<rparr> in
     if refCount s1 = 0 then closeSocket s1 else s1)"

definition setProjectSpace :: "string option \<Rightarrow> ws \<Rightarrow> ws" where
  "setProjectSpace ps s = sendSubscribe (s\<lparr>currentProjectSpaceId := ps\<rparr>)"

section \<open>Events\<close>

datatype event = Acquire "string option" | Release | ProjectSpace "string option" | Opened nat | Message nat string
  | Closed nat | ReconnectFires nat | CloseFires nat | Keepalive | Watchdog | Tick nat

fun enabled :: "event \<Rightarrow> ws \<Rightarrow> bool" where
  "enabled (Opened k) s = (k < length (sockets s) \<and> readyState (sockets s ! k) = CONNECTING)"
| "enabled (Message k _) s = (k < length (sockets s) \<and> readyState (sockets s ! k) \<in> {OPEN, CLOSING})"
| "enabled (Closed k) s = (k < length (sockets s) \<and> readyState (sockets s ! k) \<noteq> CLOSED)"
| "enabled (ReconnectFires t) s = (t \<in> set (reconnects s))"
| "enabled (CloseFires t) s = (t \<in> set (closes s))"
| "enabled Keepalive s = monitors s"
| "enabled Watchdog s = monitors s"
| "enabled _ s = True"

fun ws_step :: "(string \<Rightarrow> json option) \<Rightarrow> event \<Rightarrow> ws \<Rightarrow> ws" where
  "ws_step parse (Acquire u) s = acquire u s"
| "ws_step parse Release s = release s"
| "ws_step parse (ProjectSpace ps) s = setProjectSpace ps s"
| "ws_step parse (Opened k) s = on_open k s"
| "ws_step parse (Message k text) s = on_message parse k text s"
| "ws_step parse (Closed k) s = on_close k s"
| "ws_step parse (ReconnectFires t) s = reconnect_fires t s"
| "ws_step parse (CloseFires t) s = close_fires t s"
| "ws_step parse Keepalive s = keepalive_tick s"
| "ws_step parse Watchdog s = watchdog_tick s"
| "ws_step parse (Tick n) s = s\<lparr>clock := clock s + n\<rparr>"

abbreviation ws_run :: "(string \<Rightarrow> json option) \<Rightarrow> event list \<Rightarrow> ws \<Rightarrow> bool" where
  "ws_run parse es s \<equiv> run_machine enabled (ws_step parse) es ws_loaded = Some s"

section \<open>Facts: the current socket\<close>

definition attached :: "ws_socket \<Rightarrow> bool" where
  "attached c \<longleftrightarrow> readyState c \<noteq> CLOSED \<and> onopen c = Connected \<and> onclose c \<and> onmessage c"

definition ws_inv :: "ws \<Rightarrow> bool" where
  "ws_inv s \<longleftrightarrow> (\<forall>k. socket s = Some k \<longrightarrow> k < length (sockets s) \<and> attached (sockets s ! k))
     \<and> (0 < refCount s \<longrightarrow> socket s \<noteq> None \<or> reconnects s \<noteq> [])"

lemmas ws_ops = modify_def close_def send_def startMonitors_def stopMonitors_def sendSubscribe_def openSocket_def
  clear_reconnect_def clear_close_def

lemma same_connection:
  assumes "sockets s' = sockets s" "socket s' = socket s" "refCount s' = refCount s" "reconnects s' = reconnects s"
  shows "ws_inv s' = ws_inv s"
  using assms by (simp add: ws_inv_def)

lemma subscribe_keeps [simp]:
  "sockets (sendSubscribe s) = sockets s" "socket (sendSubscribe s) = socket s" "refCount (sendSubscribe s) = refCount s"
  "reconnects (sendSubscribe s) = reconnects s" "reconnectTimer (sendSubscribe s) = reconnectTimer s"
  by (auto simp: sendSubscribe_def send_def split: option.split)

lemma closeSocket_facts:
  "socket (closeSocket s) = None" "refCount (closeSocket s) = refCount s" "length (sockets (closeSocket s)) = length (sockets s)"
  by (auto simp: closeSocket_def ws_ops Let_def split: option.split)

lemma openSocket_inv: "ws_inv (openSocket s)"
  by (simp add: ws_inv_def openSocket_def attached_def)

lemma acquire_inv: "ws_inv s \<Longrightarrow> ws_inv (acquire u s)"
proof -
  assume I: "ws_inv s"
  define s2 where "s2 = (clear_close s)\<lparr>refCount := refCount (clear_close s) + 1\<rparr>"
  have k: "sockets s2 = sockets s" "socket s2 = socket s" "reconnects s2 = reconnects s"
    by (auto simp: s2_def clear_close_def split: option.split)
  have "ws_inv s2" if "socket s2 \<noteq> None" using I that by (simp add: ws_inv_def k)
  moreover have "ws_inv (reconnect (s2\<lparr>currentUserId := u\<rparr>))"
    using openSocket_inv by (simp add: reconnect_def Let_def closeSocket_facts) (simp add: s2_def)
  moreover have "acquire u s = (if socket s2 = None then openSocket (s2\<lparr>currentUserId := u\<rparr>)
     else if u \<noteq> currentUserId s2 then reconnect (s2\<lparr>currentUserId := u\<rparr>) else s2)"
    by (simp add: acquire_def s2_def Let_def)
  ultimately show ?thesis using openSocket_inv by simp
qed

lemma watchdog_inv: "ws_inv s \<Longrightarrow> ws_inv (watchdog_tick s)"
  by (auto simp: watchdog_tick_def ws_inv_def ws_ops socket_open_def attached_def nth_list_update split: option.splits)

lemma on_open_inv: "ws_inv s \<Longrightarrow> k < length (sockets s) \<Longrightarrow> ws_inv (on_open k s)"
  by (auto simp: on_open_def ws_inv_def modify_def close_def startMonitors_def attached_def Let_def nth_list_update
      split: open_handler.split)

lemma on_close_inv: "ws_inv s \<Longrightarrow> k < length (sockets s) \<Longrightarrow> ws_inv (on_close k s)"
  by (auto simp: on_close_def ws_inv_def modify_def stopMonitors_def attached_def Let_def nth_list_update)

lemma close_fires_inv: "ws_inv s \<Longrightarrow> ws_inv (close_fires t s)"
  by (auto simp: close_fires_def ws_inv_def Let_def closeSocket_facts)

lemma ws_step_inv:
  assumes "ws_inv s" "enabled e s"
  shows "ws_inv (ws_step parse e s)"
proof (cases e)
  case Release
  with assms show ?thesis by (auto simp: release_def ws_inv_def Let_def)
next
  case (ProjectSpace ps)
  with assms show ?thesis by (simp add: setProjectSpace_def ws_inv_def)
next
  case (Message k m)
  with assms show ?thesis by (auto simp: on_message_def ws_inv_def Let_def split: option.split)
next
  case (ReconnectFires t)
  then show ?thesis by (simp add: reconnect_fires_def openSocket_inv)
next
  case Keepalive
  with assms show ?thesis by (simp add: keepalive_tick_def send_def ws_inv_def)
next
  case (Tick n)
  with assms show ?thesis by (simp add: ws_inv_def)
qed (use assms in \<open>simp_all add: acquire_inv on_open_inv on_close_inv close_fires_inv watchdog_inv\<close>)

lemma ws_loaded_inv: "ws_inv ws_loaded"
  by (simp add: ws_inv_def ws_loaded_def)

interpretation ws_live: machine_invariant enabled "ws_step parse" ws_loaded "\<lambda>_. ws_inv" for parse
  by unfold_locales (simp_all add: ws_step_inv ws_loaded_inv)

text \<open>C24. A tab in use is never left without a connection for good: while some component holds the
  connection, either the current socket carries its handlers, and closing it schedules a reconnect,
  or a reconnect is pending already, and each pending one opens a socket when it fires.\<close>

theorem ws_never_deaf:
  assumes "ws_run parse es s" "0 < refCount s"
  shows "(\<exists>k. socket s = Some k \<and> attached (sockets s ! k) \<and> enabled (Closed k) s \<and> reconnects (ws_step parse (Closed k) s) \<noteq> [])
    \<or> (reconnects s \<noteq> [] \<and> (\<forall>t \<in> set (reconnects s). enabled (ReconnectFires t) s
          \<and> (\<exists>k. socket (ws_step parse (ReconnectFires t) s) = Some k \<and> attached (sockets (ws_step parse (ReconnectFires t) s) ! k))))"
proof (cases "socket s")
  case None
  with ws_live.holds [OF assms(1)] assms(2) show ?thesis
    by (simp add: ws_inv_def reconnect_fires_def openSocket_def attached_def)
next
  case (Some k)
  with ws_live.holds [OF assms(1)] assms(2) show ?thesis
    by (simp add: ws_inv_def attached_def on_close_def Let_def ws_ops)
qed

theorem ws_never_deaf_witness:
  "\<exists>s. ws_run (\<lambda>_. None) [Acquire None, Opened 0, Closed 0] s \<and> socket s = None \<and> reconnects s \<noteq> []"
proof -
  have "case run_machine enabled (ws_step (\<lambda>_. None)) [Acquire None, Opened 0, Closed 0] ws_loaded of
      Some s \<Rightarrow> socket s = None \<and> 0 < refCount s | None \<Rightarrow> False" by code_simp
  then obtain s where s: "ws_run (\<lambda>_. None) [Acquire None, Opened 0, Closed 0] s" "socket s = None" "0 < refCount s"
    using case_Some_ex by blast
  with ws_never_deaf [OF s(1,3)] show ?thesis by auto
qed

section \<open>Facts: one connection\<close>

definition receives :: "ws_socket \<Rightarrow> bool" where
  "receives c \<longleftrightarrow> readyState c \<noteq> CLOSED \<and> onmessage c"

fun calm :: "event \<Rightarrow> ws \<Rightarrow> bool" where
  \<comment> \<open>no component acquires the connection while a reconnect is pending\<close>
  "calm (Acquire u) s = (socket s \<noteq> None \<or> reconnects s = [])"
| "calm e s = enabled e s"

definition single_inv :: "ws \<Rightarrow> bool" where
  "single_inv s \<longleftrightarrow> ws_inv s
     \<and> (\<forall>k < length (sockets s). socket s \<noteq> Some k \<longrightarrow> readyState (sockets s ! k) = CLOSED \<or> \<not> onclose (sockets s ! k) \<and> \<not> onmessage (sockets s ! k))
     \<and> (reconnects s \<noteq> [] \<longrightarrow> socket s = None \<and> (\<exists>t. reconnects s = [t] \<and> reconnectTimer s = Some t))"

lemma same_connection_single:
  assumes "sockets s' = sockets s" "socket s' = socket s" "0 < refCount s' \<longrightarrow> 0 < refCount s" "reconnects s' = reconnects s"
    "reconnectTimer s' = reconnectTimer s"
  shows "single_inv s \<Longrightarrow> single_inv s'"
  using assms by (simp add: single_inv_def ws_inv_def)

lemma closeSocket_single:
  assumes "single_inv s"
  shows "reconnects (closeSocket s) = [] \<and> socket (closeSocket s) = None
    \<and> (\<forall>k < length (sockets (closeSocket s)). readyState (sockets (closeSocket s) ! k) = CLOSED
        \<or> \<not> onclose (sockets (closeSocket s) ! k) \<and> \<not> onmessage (sockets (closeSocket s) ! k))"
  using assms
  by (auto simp: single_inv_def ws_inv_def closeSocket_def ws_ops Let_def nth_list_update split: option.splits)

lemma openSocket_single:
  assumes "reconnects s = []"
    "\<forall>k < length (sockets s). readyState (sockets s ! k) = CLOSED \<or> \<not> onclose (sockets s ! k) \<and> \<not> onmessage (sockets s ! k)"
  shows "single_inv (openSocket s)"
  using assms openSocket_inv by (auto simp: single_inv_def openSocket_def nth_append less_Suc_eq)

lemma all_detached: "single_inv s \<Longrightarrow> socket s = None \<Longrightarrow> k < length (sockets s) \<Longrightarrow>
    readyState (sockets s ! k) = CLOSED \<or> \<not> onclose (sockets s ! k) \<and> \<not> onmessage (sockets s ! k)"
  by (simp add: single_inv_def)

lemma acquire_single:
  assumes "single_inv s" "socket s \<noteq> None \<or> reconnects s = []"
  shows "single_inv (acquire u s)"
proof -
  define s2 where "s2 = (clear_close s)\<lparr>refCount := refCount (clear_close s) + 1\<rparr>"
  have k: "sockets s2 = sockets s" "socket s2 = socket s" "reconnects s2 = reconnects s" "reconnectTimer s2 = reconnectTimer s"
    by (auto simp: s2_def clear_close_def split: option.split)
  have "single_inv s2" if "socket s2 \<noteq> None" using assms that by (auto simp: single_inv_def ws_inv_def k)
  moreover have "single_inv (openSocket (s2\<lparr>currentUserId := u\<rparr>))" if "socket s2 = None"
    using that assms all_detached [OF assms(1)] by (intro openSocket_single) (auto simp: k)
  moreover have "single_inv (reconnect (s2\<lparr>currentUserId := u\<rparr>))" if "single_inv s2"
  proof -
    have "single_inv (s2\<lparr>currentUserId := u\<rparr>)" by (rule same_connection_single [OF _ _ _ _ _ that]) simp_all
    note c = closeSocket_single [OF this]
    have "0 < refCount (closeSocket (s2\<lparr>currentUserId := u\<rparr>))" by (simp add: closeSocket_facts) (simp add: s2_def)
    with c show ?thesis by (auto simp: reconnect_def Let_def intro!: openSocket_single)
  qed
  moreover have "acquire u s = (if socket s2 = None then openSocket (s2\<lparr>currentUserId := u\<rparr>)
     else if u \<noteq> currentUserId s2 then reconnect (s2\<lparr>currentUserId := u\<rparr>) else s2)"
    by (simp add: acquire_def s2_def Let_def)
  ultimately show ?thesis by simp
qed

lemma attached_current: "single_inv s \<Longrightarrow> k < length (sockets s) \<Longrightarrow> readyState (sockets s ! k) \<noteq> CLOSED \<Longrightarrow>
    onclose (sockets s ! k) \<Longrightarrow> socket s = Some k"
  by (auto simp: single_inv_def)

lemma on_close_single:
  assumes "single_inv s" "k < length (sockets s)" "readyState (sockets s ! k) \<noteq> CLOSED"
  shows "single_inv (on_close k s)"
proof (cases "onclose (sockets s ! k)")
  case True
  with attached_current assms have "socket s = Some k" by blast
  with True assms on_close_inv [of s k] show ?thesis
    by (auto simp: on_close_def single_inv_def modify_def stopMonitors_def Let_def nth_list_update)
next
  case False
  with assms on_close_inv [of s k] show ?thesis
    by (auto simp: on_close_def single_inv_def modify_def Let_def nth_list_update)
qed

lemma close_fires_single: "single_inv s \<Longrightarrow> single_inv (close_fires t s)"
proof -
  assume I: "single_inv s"
  let ?s = "s\<lparr>closes := removeAll t (closes s), closeTimer := None\<rparr>"
  have J: "single_inv ?s" by (rule same_connection_single [OF _ _ _ _ _ I]) simp_all
  with closeSocket_single [OF J] show ?thesis
    by (auto simp: close_fires_def Let_def single_inv_def ws_inv_def closeSocket_facts)
qed

lemma ws_step_single:
  assumes "single_inv s" "calm e s"
  shows "single_inv (ws_step parse e s)"
proof (cases e)
  case (Acquire u)
  with acquire_single assms show ?thesis by simp
next
  case (Opened k)
  with assms on_open_inv [of s k] show ?thesis
    by (auto simp: on_open_def single_inv_def modify_def close_def startMonitors_def Let_def nth_list_update split: open_handler.split)
next
  case (Message k m)
  show ?thesis by (rule same_connection_single [OF _ _ _ _ _ assms(1)]) (auto simp: Message on_message_def Let_def split: option.split)
next
  case (Closed k)
  with on_close_single assms show ?thesis by simp
next
  case (ReconnectFires t)
  with assms have r: "reconnects s = [t]" "socket s = None" by (auto simp: single_inv_def)
  have "single_inv (openSocket (s\<lparr>reconnects := removeAll t (reconnects s), reconnectDelay := d\<rparr>))" for d
    using all_detached [OF assms(1) r(2)] r by (intro openSocket_single) simp_all
  then show ?thesis by (simp add: ReconnectFires reconnect_fires_def)
next
  case (CloseFires t)
  with close_fires_single assms show ?thesis by simp
next
  case Watchdog
  with assms watchdog_inv [of s] show ?thesis
    by (auto simp: watchdog_tick_def single_inv_def ws_ops socket_open_def nth_list_update split: option.splits)
next
  case Keepalive
  show ?thesis by (rule same_connection_single [OF _ _ _ _ _ assms(1)]) (auto simp: Keepalive keepalive_tick_def send_def)
next
  case Release
  show ?thesis by (rule same_connection_single [OF _ _ _ _ _ assms(1)]) (auto simp: Release release_def Let_def)
next
  case (ProjectSpace ps)
  show ?thesis by (rule same_connection_single [OF _ _ _ _ _ assms(1)]) (auto simp: ProjectSpace setProjectSpace_def)
next
  case (Tick n)
  show ?thesis by (rule same_connection_single [OF _ _ _ _ _ assms(1)]) (auto simp: Tick)
qed

interpretation ws_single: machine_invariant calm "ws_step parse" ws_loaded "\<lambda>_. single_inv" for parse
  by unfold_locales (use ws_step_single in \<open>simp_all add: single_inv_def ws_inv_def ws_loaded_def\<close>)

text \<open>C25. As long as no component acquires the connection while a reconnect is pending, there is one
  connection: at any time at most one socket, the current one, can hand frames to the shell, so no
  frame is dispatched twice.\<close>

theorem one_connection:
  assumes "run_machine calm (ws_step parse) es ws_loaded = Some s"
    and "k < length (sockets s)" "receives (sockets s ! k)"
  shows "socket s = Some k"
  using ws_single.holds [OF assms(1)] assms(2,3) by (auto simp: single_inv_def receives_def)

theorem one_connection_witness:
  "\<exists>s. run_machine calm (ws_step (\<lambda>_. None)) [Acquire None, Opened 0, Closed 0, ReconnectFires 0, Opened 1] ws_loaded = Some s
     \<and> receives (sockets s ! 1) \<and> socket s = Some 1"
proof -
  have "case run_machine calm (ws_step (\<lambda>_. None)) [Acquire None, Opened 0, Closed 0, ReconnectFires 0, Opened 1] ws_loaded of
      Some s \<Rightarrow> 1 < length (sockets s) \<and> receives (sockets s ! 1) | None \<Rightarrow> False" by code_simp
  then obtain s where s: "run_machine calm (ws_step (\<lambda>_. None)) [Acquire None, Opened 0, Closed 0, ReconnectFires 0, Opened 1] ws_loaded = Some s"
    "1 < length (sockets s)" "receives (sockets s ! 1)" using case_Some_ex by blast
  with one_connection [OF s] show ?thesis by blast
qed

text \<open>Acquiring the connection while a reconnect is pending, as a change of user does after a lost
  connection, opens a second one: the pending timer is not cleared and opens another socket when it
  fires. Both stay connected and every frame the server sends to the tab is dispatched twice.\<close>

theorem frames_dispatched_twice:
  "\<exists>s. ws_run (\<lambda>_. Some (JObj [])) [Acquire (Some ''u''), Opened 0, Closed 0, Release, Acquire (Some ''v''), ReconnectFires 0,
      Opened 1, Opened 2, Message 1 ''{}'', Message 2 ''{}''] s
    \<and> refCount s = 1 \<and> receives (sockets s ! 1) \<and> receives (sockets s ! 2) \<and> fired s = [(1, JObj []), (2, JObj [])]"
proof -
  have "case run_machine enabled (ws_step (\<lambda>_. Some (JObj []))) [Acquire (Some ''u''), Opened 0, Closed 0, Release, Acquire (Some ''v''),
      ReconnectFires 0, Opened 1, Opened 2, Message 1 ''{}'', Message 2 ''{}''] ws_loaded of
    Some s \<Rightarrow> refCount s = 1 \<and> receives (sockets s ! 1) \<and> receives (sockets s ! 2) \<and> fired s = [(1, JObj []), (2, JObj [])]
    | None \<Rightarrow> False" by code_simp
  then show ?thesis by (rule case_Some_ex)
qed

end
