(* ===== verification/PlmStore.thy ===== *)
theory PlmStore
  imports JsValue
begin

text \<open>
  The browser's global store, \<open>frontend/src/store/usePlmStore.js\<close>: the record is the state, an action
  a function on it. An action that waits for the server is two functions where it changes the state
  before the answer, otherwise one that gets the answer; None is a rejected call. The basket actions
  also return the calls of \<open>basketApi\<close> they make. User, node and item ids are strings. The slices
  of plugins are theirs and are not modelled.
\<close>

section \<open>State\<close>

datatype items_status = Idle | Loading | Loaded

record plm_store =
  userId :: "string option"
  projectSpaceId :: "string option"
  items :: "json list"
  nodeTypes :: "json list"
  resources :: "json list"
  itemsStatus :: items_status
  stateColorMap :: "json jsobj"
  stateColorMapLoaded :: bool
  projectSpaces :: "json list"
  users :: "json list"
  nodes :: "json list"
  lastCreatedItem :: "(json option \<times> nat) option"
  activeTx :: "json option"
  txNodes :: "json list"
  lockedByMe :: "string list"
  basketItems :: "string list jsobj"
  basketLoaded :: bool

definition fresh_store :: plm_store where
  "fresh_store = \<lparr>userId = None, projectSpaceId = None, items = [], nodeTypes = [], resources = [], itemsStatus = Idle,
     stateColorMap = [], stateColorMapLoaded = False, projectSpaces = [], users = [], nodes = [], lastCreatedItem = None,
     activeTx = None, txNodes = [], lockedByMe = [], basketItems = [], basketLoaded = False\<rparr>"

definition signed_in :: "plm_store \<Rightarrow> bool" where
  \<comment> \<open>\<open>userId\<close> is truthy\<close>
  "signed_in s = (case userId s of Some u \<Rightarrow> u \<noteq> [] | None \<Rightarrow> False)"

definition array_or_nil :: "json \<Rightarrow> json list" where
  \<comment> \<open>\<open>Array.isArray(v) ? v : []\<close>\<close>
  "array_or_nil v = (case v of JArr vs \<Rightarrow> vs | _ \<Rightarrow> [])"

section \<open>Metadata\<close>

definition is_psm_listable :: "json \<Rightarrow> bool" where
  "is_psm_listable d \<longleftrightarrow> jprop (Some d) ''serviceCode'' = Some (JStr ''psm'') \<and> truthy (jprop (Some d) ''list'')"

definition or_undefined :: "string \<Rightarrow> json option \<Rightarrow> (string \<times> json) list" where
  \<comment> \<open>a property that may be \<open>undefined\<close>\<close>
  "or_undefined k v = (case v of Some x \<Rightarrow> [(k, x)] | None \<Rightarrow> [])"

definition node_type_of :: "json \<Rightarrow> json" where
  "node_type_of d = JObj (or_undefined ''id'' (jprop (Some d) ''itemCode'') @ or_undefined ''name'' (jprop (Some d) ''displayName'')
     @ or_undefined ''description'' (jprop (Some d) ''description'') @ or_undefined ''color'' (jprop (Some d) ''color'')
     @ or_undefined ''icon'' (jprop (Some d) ''icon''))"

definition refreshItems_start :: "plm_store \<Rightarrow> plm_store" where
  "refreshItems_start s = (if signed_in s then s\<lparr>itemsStatus := Loading\<rparr> else s)"

definition refreshItems :: "json option \<Rightarrow> plm_store \<Rightarrow> plm_store" where
  \<comment> \<open>the answer of \<open>getItems\<close>; reading a property of a null descriptor throws\<close>
  "refreshItems rawItems s = (if \<not> signed_in s then s else case rawItems of
       Some raw \<Rightarrow> (let arr = array_or_nil raw in
         if JNull \<in> set arr then s\<lparr>items := [], nodeTypes := [], resources := [], itemsStatus := Idle\<rparr>
         else s\<lparr>items := arr, nodeTypes := map node_type_of (filter is_psm_listable arr),
                resources := filter (\<lambda>d. truthy (jprop (Some d) ''create'')) arr, itemsStatus := Loaded\<rparr>)
     | None \<Rightarrow> s\<lparr>items := [], nodeTypes := [], resources := [], itemsStatus := Idle\<rparr>)"

definition add_color :: "json \<Rightarrow> json jsobj \<Rightarrow> json jsobj" where
  "add_color st m = (let sid = js_or (jprop (Some st) ''id'') (jprop (Some st) ''ID'');
        color = js_or (jprop (Some st) ''color'') (jprop (Some st) ''COLOR'')
      in if truthy sid \<and> truthy color then obj_put (opt_string sid) (the color) m else m)"

definition refreshStateColorMap :: "json option \<Rightarrow> (json \<Rightarrow> json option) \<Rightarrow> plm_store \<Rightarrow> plm_store" where
  \<comment> \<open>the answers of \<open>getLifecycles\<close> and, for each lifecycle, of \<open>getLifecycleStates\<close>; a failed one of the
    latter is an empty list, anything that is not a list of objects ends the action\<close>
  "refreshStateColorMap lcs statesOf s = (if \<not> signed_in s then s else case lcs of
       Some (JArr ls) \<Rightarrow>
         (let lists = map (\<lambda>lc. case statesOf lc of Some v \<Rightarrow> v | None \<Rightarrow> JArr []) ls in
          if JNull \<in> set ls \<or> (\<exists>l \<in> set lists. case l of JArr xs \<Rightarrow> JNull \<in> set xs | _ \<Rightarrow> True) then s
          else s\<lparr>stateColorMap := fold add_color (concat (map array_or_nil lists)) [], stateColorMapLoaded := True\<rparr>)
     | _ \<Rightarrow> s)"

definition refreshProjectSpaces :: "json option \<Rightarrow> plm_store \<Rightarrow> plm_store" where
  "refreshProjectSpaces d s = (if \<not> signed_in s then s else case d of Some v \<Rightarrow> s\<lparr>projectSpaces := array_or_nil v\<rparr> | None \<Rightarrow> s)"

definition refreshUsers :: "json option \<Rightarrow> plm_store \<Rightarrow> plm_store" where
  "refreshUsers d s = (if \<not> signed_in s then s else case d of
       Some v \<Rightarrow> if JNull \<in> set (array_or_nil v) then s
         else s\<lparr>users := filter (\<lambda>u. jprop (Some u) ''active'' \<noteq> Some (JBool False)) (array_or_nil v)\<rparr>
     | None \<Rightarrow> s)"

definition page_items :: "json option \<Rightarrow> json list" where
  \<comment> \<open>\<open>.then(r => r.items || []).catch(() => [])\<close>, flattened one level\<close>
  "page_items r = (case js_or (jprop r ''items'') (Some (JArr [])) of Some (JArr xs) \<Rightarrow> xs | Some v \<Rightarrow> [v] | None \<Rightarrow> [])"

definition refreshNodes :: "(json \<Rightarrow> json option) \<Rightarrow> plm_store \<Rightarrow> plm_store" where
  \<comment> \<open>what \<open>fetchListableItems\<close> answers for each descriptor\<close>
  "refreshNodes fetch s = (if signed_in s
     then s\<lparr>nodes := concat (map (\<lambda>d. page_items (fetch d)) (filter is_psm_listable (items s)))\<rparr> else s)"

definition notifyCreated :: "json option \<Rightarrow> plm_store \<Rightarrow> plm_store" where
  "notifyCreated typeCode s = s\<lparr>lastCreatedItem := Some (typeCode, (case lastCreatedItem s of Some (_, n) \<Rightarrow> n | None \<Rightarrow> 0) + 1)\<rparr>"

section \<open>Transaction\<close>

definition lockItem :: "string \<Rightarrow> plm_store \<Rightarrow> plm_store" where
  "lockItem nodeId s = s\<lparr>lockedByMe := js_add nodeId (lockedByMe s)\<rparr>"

definition unlockItem :: "string \<Rightarrow> plm_store \<Rightarrow> plm_store" where
  "unlockItem nodeId s = s\<lparr>lockedByMe := js_delete nodeId (lockedByMe s)\<rparr>"

definition unlockAll :: "plm_store \<Rightarrow> plm_store" where
  "unlockAll s = s\<lparr>lockedByMe := []\<rparr>"

definition clearTx :: "plm_store \<Rightarrow> plm_store" where
  "clearTx s = s\<lparr>activeTx := None, txNodes := [], lockedByMe := []\<rparr>"

definition refreshTx :: "json option \<Rightarrow> json option \<Rightarrow> plm_store \<Rightarrow> plm_store" where
  \<comment> \<open>the answers of \<open>txApi.current\<close> and \<open>txApi.nodes\<close>\<close>
  "refreshTx t ns s = (if \<not> signed_in s then s else if \<not> truthy t then clearTx s
     else (let nds = (case ns of Some v \<Rightarrow> array_or_nil v | None \<Rightarrow> []) in
       if JNull \<in> set nds then clearTx s
       else s\<lparr>activeTx := t, txNodes := nds,
              lockedByMe := js_set_of (map opt_string (filter truthy (map (\<lambda>n. jprop (Some n) ''itemId'') nds)))\<rparr>))"

section \<open>Basket\<close>

datatype basket_request = AddRequest string string string string | RemoveRequest string string string string | ClearRequest string

definition basket_key :: "string \<Rightarrow> string \<Rightarrow> string" where
  "basket_key source typeCode = source @ '':'' @ typeCode"

definition key_parts :: "string \<Rightarrow> string \<times> string" where
  \<comment> \<open>\<open>source\<close> and \<open>typeCode\<close> of a key\<close>
  "key_parts key = (let colonIdx = index_of '':'' key 0 in
     if colonIdx > -1 then (take (nat colonIdx) key, drop (nat colonIdx + 1) key) else (key, []))"

definition ids_at :: "string \<Rightarrow> plm_store \<Rightarrow> string list" where
  "ids_at key s = or_nil (obj_get (basketItems s) key)"

definition add_entry :: "json \<Rightarrow> string list jsobj \<Rightarrow> string list jsobj" where
  "add_entry e m = (let key = basket_key (opt_string (jprop (Some e) ''source'')) (opt_string (jprop (Some e) ''typeCode''))
     in obj_put key (js_add (opt_string (jprop (Some e) ''itemId'')) (or_nil (obj_get m key))) m)"

definition loadBasket :: "json option \<Rightarrow> plm_store \<Rightarrow> plm_store" where
  \<comment> \<open>the answer of \<open>basketApi.list\<close>\<close>
  "loadBasket answer s = (case answer of
       Some v \<Rightarrow> (case js_or (Some v) (Some (JArr [])) of
           Some (JArr es) \<Rightarrow> if JNull \<in> set es then s\<lparr>basketItems := [], basketLoaded := True\<rparr>
             else s\<lparr>basketItems := fold add_entry es [], basketLoaded := True\<rparr>
         | _ \<Rightarrow> s\<lparr>basketItems := [], basketLoaded := True\<rparr>)
     | None \<Rightarrow> s\<lparr>basketItems := [], basketLoaded := True\<rparr>)"

definition put_ids :: "string \<Rightarrow> string list \<Rightarrow> plm_store \<Rightarrow> plm_store" where
  \<comment> \<open>\<open>{ ...state.basketItems, [key]: ids }\<close>\<close>
  "put_ids key ids s = s\<lparr>basketItems := obj_put key ids (obj_merge [] (basketItems s))\<rparr>"

definition addToBasket :: "string \<Rightarrow> string \<Rightarrow> string \<Rightarrow> string \<Rightarrow> plm_store \<Rightarrow> plm_store \<times> basket_request list" where
  "addToBasket user source typeCode itemId s =
     (let key = basket_key source typeCode
      in (put_ids key (js_add itemId (ids_at key s)) s, [AddRequest user source typeCode itemId]))"

definition removeFromBasket :: "string \<Rightarrow> string \<Rightarrow> string \<Rightarrow> string \<Rightarrow> plm_store \<Rightarrow> plm_store \<times> basket_request list" where
  "removeFromBasket user source typeCode itemId s =
     (let key = basket_key source typeCode
      in (put_ids key (js_delete itemId (ids_at key s)) s, [RemoveRequest user source typeCode itemId]))"

definition kept_ids :: "string list \<Rightarrow> string \<Rightarrow> string list \<Rightarrow> string list" where
  \<comment> \<open>the \<open>continue\<close> branch of the inner loop\<close>
  "kept_ids locked source ids = js_set_of (filter (\<lambda>i. source = ''psm'' \<and> i \<in> set locked) ids)"

definition empty_step :: "string \<Rightarrow> string list \<Rightarrow> string \<times> string list \<Rightarrow> string list jsobj \<times> basket_request list
    \<Rightarrow> string list jsobj \<times> basket_request list" where
  \<comment> \<open>one turn of the slow path\<close>
  "empty_step user locked e acc = (case (e, acc) of ((key, ids), (nextItems, removes)) \<Rightarrow>
     let (source, typeCode) = key_parts key;
         kept = kept_ids locked source ids;
         gone = filter (\<lambda>i. \<not> (source = ''psm'' \<and> i \<in> set locked)) ids
     in (if kept \<noteq> [] then obj_put key kept nextItems else nextItems,
         removes @ map (\<lambda>i. RemoveRequest user source typeCode i) gone))"

definition has_locked :: "plm_store \<Rightarrow> bool" where
  "has_locked s \<longleftrightarrow> (\<exists>(key, ids) \<in> set (obj_entries (basketItems s)). starts_with key ''psm:'' \<and> (\<exists>i \<in> set ids. i \<in> set (lockedByMe s)))"

definition emptyBasket :: "string \<Rightarrow> plm_store \<Rightarrow> plm_store \<times> basket_request list" where
  "emptyBasket user s =
     (if \<not> has_locked s then (s\<lparr>basketItems := []\<rparr>, [ClearRequest user])
      else (case fold (empty_step user (lockedByMe s)) (obj_entries (basketItems s)) ([], []) of
              (nextItems, removes) \<Rightarrow> (s\<lparr>basketItems := nextItems\<rparr>, removes)))"

definition isInBasket :: "string \<Rightarrow> string \<Rightarrow> string \<Rightarrow> plm_store \<Rightarrow> bool" where
  "isInBasket source typeCode itemId s \<longleftrightarrow> itemId \<in> set (ids_at (basket_key source typeCode) s)"

definition syncBasketAdd :: "string \<Rightarrow> string \<Rightarrow> plm_store \<Rightarrow> plm_store" where
  "syncBasketAdd key v s = put_ids key (js_add v (ids_at key s)) s"

definition syncBasketRemove :: "string \<Rightarrow> string \<Rightarrow> plm_store \<Rightarrow> plm_store" where
  "syncBasketRemove key v s = (case obj_get (basketItems s) key of
       None \<Rightarrow> s | Some ids \<Rightarrow> put_ids key (js_delete v ids) s)"

definition syncBasketClear :: "plm_store \<Rightarrow> plm_store" where
  "syncBasketClear s = s\<lparr>basketItems := []\<rparr>"

definition removeBasketItemIds :: "string list \<Rightarrow> plm_store \<Rightarrow> plm_store" where
  "removeBasketItemIds itemIds s = s\<lparr>basketItems := fold (\<lambda>(key, vs) next.
       let filtered = filter (\<lambda>v. v \<notin> set itemIds) vs in if filtered \<noteq> [] then obj_put key filtered next else next)
     (obj_entries (basketItems s)) []\<rparr>"

section \<open>The basket as a set\<close>

type_synonym pin = "string \<times> string \<times> string"       \<comment> \<open>source, type code, item\<close>

definition basket_abs :: "plm_store \<Rightarrow> pin set" where
  "basket_abs s = {(source, typeCode, i). CHR '':'' \<notin> set source \<and> i \<in> set (ids_at (basket_key source typeCode) s)}"

fun apply_request :: "basket_request \<Rightarrow> pin set \<Rightarrow> pin set" where
  \<comment> \<open>what a request asks the server to do to the basket\<close>
  "apply_request (AddRequest _ source typeCode i) B = insert (source, typeCode, i) B"
| "apply_request (RemoveRequest _ source typeCode i) B = B - {(source, typeCode, i)}"
| "apply_request (ClearRequest _) B = {}"

datatype basket_op = Pin string string string | Unpin string string string | EmptyAll

fun perform_op :: "string \<Rightarrow> basket_op \<Rightarrow> plm_store \<Rightarrow> plm_store \<times> basket_request list" where
  "perform_op user (Pin source typeCode i) s = addToBasket user source typeCode i s"
| "perform_op user (Unpin source typeCode i) s = removeFromBasket user source typeCode i s"
| "perform_op user EmptyAll s = emptyBasket user s"

definition colon_free :: "basket_op \<Rightarrow> bool" where
  \<comment> \<open>service codes have no colon\<close>
  "colon_free op \<longleftrightarrow> (case op of Pin source _ _ \<Rightarrow> CHR '':'' \<notin> set source | Unpin source _ _ \<Rightarrow> CHR '':'' \<notin> set source | EmptyAll \<Rightarrow> True)"

definition basket_ok :: "plm_store \<Rightarrow> bool" where
  "basket_ok s \<longleftrightarrow> distinct (map fst (basketItems s)) \<and> (\<forall>(key, ids) \<in> set (basketItems s). CHR '':'' \<in> set key \<and> distinct ids)"

lemma colon_at: "CHR '':'' \<notin> set a \<Longrightarrow> index_of '':'' (a @ '':'' @ b) 0 = int (length a)"
  by (rule index_of_unique) (auto simp: take_Suc drop_Cons' nth_append hd_conv_nth hd_drop_conv_nth take_Suc_conv_app_nth in_set_conv_nth)

lemma key_parts_basket_key: "CHR '':'' \<notin> set a \<Longrightarrow> key_parts (basket_key a b) = (a, b)"
  unfolding key_parts_def basket_key_def by (subst colon_at) (simp_all add: colon_at)

lemma key_split:
  assumes "CHR '':'' \<in> set key"
  obtains a b where "key = basket_key a b" "CHR '':'' \<notin> set a" "key_parts key = (a, b)"
proof -
  obtain a b where "key = a @ CHR '':'' # b" "CHR '':'' \<notin> set a" using split_list_first [OF assms] by blast
  then have "key = basket_key a b" by (simp add: basket_key_def)
  with that key_parts_basket_key \<open>CHR '':'' \<notin> set a\<close> show thesis by blast
qed

lemma basket_key_inj: "CHR '':'' \<notin> set a \<Longrightarrow> CHR '':'' \<notin> set c \<Longrightarrow> basket_key a b = basket_key c d \<longleftrightarrow> a = c \<and> b = d"
  using key_parts_basket_key by (metis prod.inject)

lemma put_ids_get:
  "distinct (map fst (basketItems s)) \<Longrightarrow>
   obj_get (basketItems (put_ids key ids s)) k = (if k = key then Some ids else obj_get (basketItems s) k)"
  by (simp add: put_ids_def obj_merge_get split: option.split)

lemma basket_ok_get: "basket_ok s \<longleftrightarrow> distinct (map fst (basketItems s))
    \<and> (\<forall>key ids. obj_get (basketItems s) key = Some ids \<longrightarrow> CHR '':'' \<in> set key \<and> distinct ids)"
  by (auto simp: basket_ok_def simp flip: obj_entries_get)

lemma put_ids_ok: "basket_ok s \<Longrightarrow> CHR '':'' \<in> set key \<Longrightarrow> distinct ids \<Longrightarrow> basket_ok (put_ids key ids s)"
  by (auto simp: basket_ok_get put_ids_get) (simp add: put_ids_def obj_put_distinct obj_merge_distinct)

lemma ids_at_ok: "basket_ok s \<Longrightarrow> distinct (ids_at key s)"
  by (cases "obj_get (basketItems s) key") (auto simp: basket_ok_get ids_at_def)

lemma ids_at_put: "basket_ok s \<Longrightarrow> ids_at k (put_ids key ids s) = (if k = key then ids else ids_at k s)"
  by (simp add: ids_at_def put_ids_get basket_ok_get)

lemma abs_add:
  "basket_ok s \<Longrightarrow> CHR '':'' \<notin> set a \<Longrightarrow>
   basket_abs (put_ids (basket_key a b) (js_add i (ids_at (basket_key a b) s)) s) = insert (a, b, i) (basket_abs s)"
  by (auto simp: basket_abs_def ids_at_put basket_key_inj split: if_splits)

lemma abs_delete:
  "basket_ok s \<Longrightarrow> CHR '':'' \<notin> set a \<Longrightarrow>
   basket_abs (put_ids (basket_key a b) (js_delete i (ids_at (basket_key a b) s)) s) = basket_abs s - {(a, b, i)}"
  by (auto simp: basket_abs_def ids_at_put basket_key_inj split: if_splits)

lemma colon_in_key [simp]: "CHR '':'' \<in> set (basket_key a b)"
  by (simp add: basket_key_def)

definition locked_pin :: "string list \<Rightarrow> pin \<Rightarrow> bool" where
  "locked_pin locked p \<longleftrightarrow> fst p = ''psm'' \<and> snd (snd p) \<in> set locked"

definition pins_of :: "string \<Rightarrow> string list \<Rightarrow> pin list" where
  "pins_of key ids = map (\<lambda>i. (fst (key_parts key), snd (key_parts key), i)) ids"

definition remove_of :: "string \<Rightarrow> pin \<Rightarrow> basket_request" where
  "remove_of user p = RemoveRequest user (fst p) (fst (snd p)) (snd (snd p))"

lemma apply_removes: "fold apply_request (map (remove_of user) ps) B = B - set ps"
  by (induction ps arbitrary: B) (auto simp: remove_of_def)

lemma empty_fold:
  "distinct (map fst es) \<Longrightarrow>
   snd (fold (empty_step user locked) es (m, rs)) =
     rs @ map (remove_of user) (filter (\<lambda>p. \<not> locked_pin locked p) (concat (map (\<lambda>(key, ids). pins_of key ids) es)))
   \<and> obj_get (fst (fold (empty_step user locked) es (m, rs))) k = (case map_of es k of
       None \<Rightarrow> obj_get m k
     | Some ids \<Rightarrow> let kept = kept_ids locked (fst (key_parts k)) ids in if kept \<noteq> [] then Some kept else obj_get m k)"
proof (induction es arbitrary: m rs)
  case (Cons e es)
  obtain key ids where e: "e = (key, ids)" by fastforce
  obtain source typeCode where p: "key_parts key = (source, typeCode)" by fastforce
  let ?kept = "kept_ids locked source ids"
  let ?m = "if ?kept \<noteq> [] then obj_put key ?kept m else m"
  let ?rs = "rs @ map (remove_of user) (filter (\<lambda>p. \<not> locked_pin locked p) (pins_of key ids))"
  have step: "empty_step user locked (key, ids) (m, rs) = (?m, ?rs)"
    by (simp add: empty_step_def p pins_of_def remove_of_def locked_pin_def filter_map o_def)
  have new: "map_of es key = None" using Cons.prems e by (simp add: map_of_eq_None_iff)
  show ?case using Cons.IH [of ?m ?rs] Cons.prems new
    by (cases "k = key") (auto simp: step e p Let_def split: option.split)
qed simp

lemma empty_distinct: "distinct (map fst (fst (fold (empty_step user locked) es ([], rs))))"
  by (rule fold_keeps [where P = "\<lambda>acc. distinct (map fst (fst acc))"])
    (auto simp: empty_step_def obj_put_distinct Let_def split: prod.split)

lemma kept_ids_facts [simp]:
  "set (kept_ids locked source ids) = {i \<in> set ids. source = ''psm'' \<and> i \<in> set locked}" "distinct (kept_ids locked source ids)"
  by (auto simp: kept_ids_def)

lemma or_nil_if: "or_nil (if xs \<noteq> [] then Some xs else None) = xs"
  by simp

lemma abs_pins:
  assumes "basket_ok s"
  shows "set (concat (map (\<lambda>(key, ids). pins_of key ids) (obj_entries (basketItems s)))) = basket_abs s"
proof (intro set_eqI iffI)
  fix p
  assume "p \<in> set (concat (map (\<lambda>(key, ids). pins_of key ids) (obj_entries (basketItems s))))"
  then obtain key ids i where k: "(key, ids) \<in> set (basketItems s)" "i \<in> set ids" "p = (fst (key_parts key), snd (key_parts key), i)"
    by (auto simp: pins_of_def)
  then have "CHR '':'' \<in> set key" "obj_get (basketItems s) key = Some ids"
    using assms by (auto simp: basket_ok_def obj_entries_get)
  from key_split [OF this(1)] obtain a b where "key = basket_key a b" "CHR '':'' \<notin> set a" "key_parts key = (a, b)" by blast
  with k \<open>obj_get (basketItems s) key = Some ids\<close> show "p \<in> basket_abs s" by (simp add: basket_abs_def ids_at_def)
next
  fix p
  assume "p \<in> basket_abs s"
  then obtain a b i where p: "p = (a, b, i)" "CHR '':'' \<notin> set a" "i \<in> set (ids_at (basket_key a b) s)" by (auto simp: basket_abs_def)
  then obtain ids where "obj_get (basketItems s) (basket_key a b) = Some ids" "i \<in> set ids"
    by (cases "obj_get (basketItems s) (basket_key a b)") (auto simp: ids_at_def)
  then have "(basket_key a b, ids) \<in> set (basketItems s)" using assms by (simp add: basket_ok_get obj_entries_get)
  moreover have "p \<in> set (pins_of (basket_key a b) ids)"
    using p(2) \<open>i \<in> set ids\<close> by (simp add: pins_of_def key_parts_basket_key p(1))
  ultimately show "p \<in> set (concat (map (\<lambda>(key, ids). pins_of key ids) (obj_entries (basketItems s))))"
    by (auto intro!: bexI [of _ "(basket_key a b, ids)"])
qed

lemma emptyBasket_abs:
  assumes "basket_ok s" "emptyBasket user s = (s', reqs)"
  shows "basket_ok s' \<and> basket_abs s' = {p \<in> basket_abs s. locked_pin (lockedByMe s) p}
    \<and> fold apply_request reqs (basket_abs s) = basket_abs s'"
proof (cases "has_locked s")
  case False
  then have s': "s' = s\<lparr>basketItems := []\<rparr>" "reqs = [ClearRequest user]" using assms(2) by (auto simp: emptyBasket_def)
  have "\<not> locked_pin (lockedByMe s) p" if "p \<in> basket_abs s" for p
  proof
    assume l: "locked_pin (lockedByMe s) p"
    from that l obtain b i where p: "p = (''psm'', b, i)" "i \<in> set (lockedByMe s)" "i \<in> set (ids_at (basket_key ''psm'' b) s)"
      by (auto simp: basket_abs_def locked_pin_def)
    then obtain ids where "obj_get (basketItems s) (basket_key ''psm'' b) = Some ids" "i \<in> set ids"
      by (cases "obj_get (basketItems s) (basket_key ''psm'' b)") (auto simp: ids_at_def)
    then have "(basket_key ''psm'' b, ids) \<in> set (basketItems s)" using assms(1) by (simp add: basket_ok_get obj_entries_get)
    moreover have "starts_with (basket_key ''psm'' b) ''psm:''" by (simp add: starts_with_def basket_key_def)
    ultimately show False using False p(2) \<open>i \<in> set ids\<close> by (auto simp: has_locked_def)
  qed
  then show ?thesis by (auto simp: s' basket_ok_def basket_abs_def ids_at_def)
next
  case True
  let ?es = "obj_entries (basketItems s)" and ?l = "lockedByMe s"
  have s': "s' = s\<lparr>basketItems := fst (fold (empty_step user ?l) ?es ([], []))\<rparr>" "reqs = snd (fold (empty_step user ?l) ?es ([], []))"
    using assms(2) True by (auto simp: emptyBasket_def split: prod.splits)
  have d: "distinct (map fst ?es)" using assms(1) by (simp add: basket_ok_def flip: obj_keys_def)
  note f = empty_fold [OF d, of user ?l "[]" "[]"]
  have get: "obj_get (basketItems s') k = (case obj_get (basketItems s) k of None \<Rightarrow> None
      | Some ids \<Rightarrow> if kept_ids ?l (fst (key_parts k)) ids \<noteq> [] then Some (kept_ids ?l (fst (key_parts k)) ids) else None)" for k
    using f [of k] assms(1) by (auto simp: s' map_of_obj_entries basket_ok_def obj_get_def Let_def split: option.split)
  have "distinct (map fst (basketItems s'))" using empty_distinct by (simp add: s')
  then have "basket_ok s'" using assms(1)
    by (auto simp: basket_ok_get get split: option.splits if_splits)
  moreover have ids: "set (ids_at (basket_key a b) s') = {i \<in> set (ids_at (basket_key a b) s). a = ''psm'' \<and> i \<in> set ?l}"
    if "CHR '':'' \<notin> set a" for a b
  proof (cases "obj_get (basketItems s) (basket_key a b)")
    case (Some ids)
    then have "ids_at (basket_key a b) s' = kept_ids ?l a ids"
      unfolding ids_at_def get using that by (simp only: option.case key_parts_basket_key [OF that] fst_conv or_nil_if)
    with Some show ?thesis by (simp add: ids_at_def)
  qed (simp add: ids_at_def get)
  then have "basket_abs s' = {p \<in> basket_abs s. locked_pin ?l p}" by (auto simp: basket_abs_def locked_pin_def)
  moreover have "fold apply_request reqs (basket_abs s) = basket_abs s - {p \<in> basket_abs s. \<not> locked_pin ?l p}"
    using conjunct1 [OF f] by (simp only: s' apply_removes append_Nil) (auto simp flip: abs_pins [OF assms(1)])
  ultimately show ?thesis by auto
qed

text \<open>C26. The optimistic basket: what a basket action does to the local basket at once is what the
  requests it sends ask the server to do, so a browser and a server that hold the same pins still do
  so afterwards; emptying the basket keeps exactly the PSM nodes the user holds locked.\<close>

theorem basket_refines:
  assumes "basket_ok s" "colon_free op" "perform_op user op s = (s', reqs)"
  shows "basket_ok s' \<and> basket_abs s' = fold apply_request reqs (basket_abs s)
    \<and> (op = EmptyAll \<longrightarrow> basket_abs s' = {(source, typeCode, i) \<in> basket_abs s. source = ''psm'' \<and> i \<in> set (lockedByMe s)})"
proof (cases op)
  case (Pin source typeCode i)
  with assms(2,3) have p: "CHR '':'' \<notin> set source" "reqs = [AddRequest user source typeCode i]"
    "s' = put_ids (basket_key source typeCode) (js_add i (ids_at (basket_key source typeCode) s)) s"
    by (auto simp: addToBasket_def Let_def colon_free_def)
  then show ?thesis using abs_add [OF assms(1) p(1)] put_ids_ok [OF assms(1)] ids_at_ok [OF assms(1)] Pin by simp
next
  case (Unpin source typeCode i)
  with assms(2,3) have p: "CHR '':'' \<notin> set source" "reqs = [RemoveRequest user source typeCode i]"
    "s' = put_ids (basket_key source typeCode) (js_delete i (ids_at (basket_key source typeCode) s)) s"
    by (auto simp: removeFromBasket_def Let_def colon_free_def)
  then show ?thesis
    using abs_delete [OF assms(1) p(1)] put_ids_ok [OF assms(1) colon_in_key distinct_js_delete [OF ids_at_ok [OF assms(1)]]] Unpin by simp
next
  case EmptyAll
  with emptyBasket_abs [OF assms(1)] assms(3) show ?thesis by (auto simp: locked_pin_def)
qed

definition sample_store :: plm_store where
  "sample_store = fresh_store\<lparr>lockedByMe := [''n1''], basketItems := [(''psm:part'', [''n1'', ''n2'']), (''dst:file'', [''n1''])]\<rparr>"

theorem basket_refines_witness:
  "case emptyBasket ''u'' sample_store of (s', reqs) \<Rightarrow>
     basket_abs s' = fold apply_request reqs (basket_abs sample_store)
     \<and> basketItems s' = [(''psm:part'', [''n1''])]
     \<and> reqs = [RemoveRequest ''u'' ''psm'' ''part'' ''n2'', RemoveRequest ''u'' ''dst'' ''file'' ''n1'']"
proof -
  have "basket_ok sample_store" "colon_free EmptyAll" by code_simp+
  moreover obtain s' reqs where e: "emptyBasket ''u'' sample_store = (s', reqs)" by fastforce
  moreover have "case emptyBasket ''u'' sample_store of (s', reqs) \<Rightarrow> basketItems s' = [(''psm:part'', [''n1''])]
     \<and> reqs = [RemoveRequest ''u'' ''psm'' ''part'' ''n2'', RemoveRequest ''u'' ''dst'' ''file'' ''n1'']" by code_simp
  ultimately show ?thesis using basket_refines [of sample_store EmptyAll "''u''" s' reqs] by simp
qed

end
