(* ===== verification/AppShell.thy ===== *)
theory AppShell
  imports PlmStore
begin

text \<open>
  The shell component, \<open>frontend/src/App.jsx\<close>: its tabs with the data loaded for them, and the handler
  of server events that drives them and the store. A React state setter is an update of the record;
  a callback that reads a state variable reads the value of the render that made it, which is then
  an argument. An asynchronous call is a request in the result; its answer is an operation of its
  own.
\<close>

section \<open>State\<close>

record tab_source =
  ts_serviceCode :: json
  ts_itemCode :: "json option"
  ts_itemKey :: "json option"
  ts_get :: "json option"                  \<comment> \<open>\<open>descriptor.get || null\<close>\<close>

record tab =
  tab_id :: string
  tab_nodeId :: "string option"
  tab_label :: string
  tab_pinned :: bool
  tab_source_of :: "tab_source option"

datatype fetch_status = LoadingData | OkData | ErrorData

record tab_entry =
  te_status :: fetch_status
  te_data :: "json option"
  te_error :: "string option"

record app =
  tabs :: "tab list"
  activeTabId :: "string option"
  selectedDesc :: "json option"
  tabData :: "tab_entry jsobj"
  fetchedNodeIds :: "string list"

definition DASHBOARD_TAB :: tab where
  "DASHBOARD_TAB = \<lparr>tab_id = ''dashboard'', tab_nodeId = None, tab_label = ''Dashboard'', tab_pinned = True, tab_source_of = None\<rparr>"

definition fresh_app :: app where
  "fresh_app = \<lparr>tabs = [DASHBOARD_TAB], activeTabId = Some ''dashboard'', selectedDesc = None, tabData = [], fetchedNodeIds = []\<rparr>"

section \<open>Tabs\<close>

definition source_of :: "json \<Rightarrow> tab_source option" where
  \<comment> \<open>\<open>tabSource\<close>; None where \<open>navigate\<close> throws\<close>
  "source_of descriptor = (if \<not> truthy (jprop (Some descriptor) ''serviceCode'') then None
     else Some \<lparr>ts_serviceCode = the (jprop (Some descriptor) ''serviceCode''), ts_itemCode = jprop (Some descriptor) ''itemCode'',
       ts_itemKey = jprop (Some descriptor) ''itemKey'',
       ts_get = (if truthy (jprop (Some descriptor) ''get'') then jprop (Some descriptor) ''get'' else None)\<rparr>)"

definition label_or :: "string option \<Rightarrow> string \<Rightarrow> string" where
  \<comment> \<open>\<open>label || nodeId.slice(0, 10)\<close>\<close>
  "label_or label nodeId = (case label of Some l \<Rightarrow> if l \<noteq> [] then l else take 10 nodeId | None \<Rightarrow> take 10 nodeId)"

definition open_node :: "string \<Rightarrow> string option \<Rightarrow> tab_source \<Rightarrow> string \<Rightarrow> app \<Rightarrow> app" where
  \<comment> \<open>\<open>navigate\<close> after its check; \<open>newId\<close> is the id a new tab gets from the clock\<close>
  "open_node nodeId label src newId a =
     (case find (\<lambda>t. tab_nodeId t = Some nodeId) (tabs a) of
        Some existing \<Rightarrow>
          a\<lparr>activeTabId := Some (tab_id existing),
            tabs := map (\<lambda>t. if tab_id t = tab_id existing then t\<lparr>tab_source_of := Some src\<rparr> else t) (tabs a)\<rparr>
      | None \<Rightarrow>
          (case find (\<lambda>t. \<not> tab_pinned t \<and> tab_id t \<noteq> ''dashboard'') (tabs a) of
             Some unpinned \<Rightarrow>
               a\<lparr>activeTabId := Some (tab_id unpinned),
                 tabs := map (\<lambda>t. if tab_id t = tab_id unpinned
                   then t\<lparr>tab_nodeId := Some nodeId, tab_label := label_or label nodeId, tab_source_of := Some src\<rparr> else t) (tabs a)\<rparr>
           | None \<Rightarrow>
               a\<lparr>activeTabId := Some newId,
                 tabs := tabs a @ [\<lparr>tab_id = newId, tab_nodeId = Some nodeId, tab_label = label_or label nodeId,
                   tab_pinned = False, tab_source_of = Some src\<rparr>]\<rparr>))"

definition navigate :: "string \<Rightarrow> string option \<Rightarrow> json \<Rightarrow> string \<Rightarrow> app \<Rightarrow> app option" where
  "navigate nodeId label descriptor newId a = map_option (\<lambda>src. open_node nodeId label src newId a) (source_of descriptor)"

definition forget_node :: "string \<Rightarrow> app \<Rightarrow> app" where
  \<comment> \<open>\<open>fetchedNodeIds.current.delete\<close> and \<open>delete next[nodeId]\<close>\<close>
  "forget_node nodeId a = a\<lparr>fetchedNodeIds := js_delete nodeId (fetchedNodeIds a), tabData := AList.delete nodeId (tabData a)\<rparr>"

definition last_id :: "tab list \<Rightarrow> string option" where
  "last_id ts = (if ts = [] then None else Some (tab_id (last ts)))"

definition closeTab :: "string option \<Rightarrow> string \<Rightarrow> app \<Rightarrow> app" where
  \<comment> \<open>the first argument is the \<open>activeTabId\<close> of the render that made the callback\<close>
  "closeTab captured tabId a =
     (let a1 = (case find (\<lambda>t. tab_id t = tabId) (tabs a) of
                  Some t \<Rightarrow> (case tab_nodeId t of Some n \<Rightarrow> if n \<noteq> [] then forget_node n a else a | None \<Rightarrow> a)
                | None \<Rightarrow> a);
          remaining = filter (\<lambda>t. tab_id t \<noteq> tabId) (tabs a1);
          a2 = (if captured = Some tabId then a1\<lparr>activeTabId := last_id remaining, selectedDesc := None\<rparr> else a1)
      in a2\<lparr>tabs := remaining\<rparr>)"

definition drop_tabs_of :: "string \<Rightarrow> string \<Rightarrow> app \<Rightarrow> app" where
  \<comment> \<open>the tabs of a node that is gone, and the focus of tab \<open>tabId\<close>\<close>
  "drop_tabs_of nodeId tabId a =
     (let remaining = filter (\<lambda>t. tab_nodeId t \<noteq> Some nodeId) (tabs a)
      in a\<lparr>tabs := remaining, activeTabId := (if activeTabId a = Some tabId then last_id remaining else activeTabId a)\<rparr>)"

definition item_deleted :: "string \<Rightarrow> app \<Rightarrow> app" where
  \<comment> \<open>the tab part of \<open>ITEM_DELETED\<close>\<close>
  "item_deleted nodeId a = (case find (\<lambda>t. tab_nodeId t = Some nodeId) (tabs a) of
       None \<Rightarrow> a | Some t \<Rightarrow> drop_tabs_of nodeId (tab_id t) (forget_node nodeId a))"

record detail_request =
  dr_tab :: string
  dr_service :: json
  dr_get :: json
  dr_node :: string
  dr_tx :: "json option"                   \<comment> \<open>\<open>txId\<close>, for a node locked in the transaction\<close>

definition get_path :: "tab \<Rightarrow> bool" where
  \<comment> \<open>\<open>tab?.get?.path\<close> is truthy\<close>
  "get_path t = (case tab_source_of t of Some src \<Rightarrow> truthy (jprop (ts_get src) ''path'') | None \<Rightarrow> False)"

definition refreshTabData :: "json option \<Rightarrow> string list \<Rightarrow> string \<Rightarrow> app \<Rightarrow> app \<times> detail_request list" where
  \<comment> \<open>\<open>tx\<close> and \<open>lockedByMe\<close> are the store's\<close>
  "refreshTabData tx locked nodeId a = (case find (\<lambda>t. tab_nodeId t = Some nodeId) (tabs a) of
       None \<Rightarrow> (a, [])
     | Some t \<Rightarrow> if \<not> get_path t then (a, [])
         else (let src = the (tab_source_of t); txId = jprop tx ''txId'';
                   prev = (case obj_get (tabData a) nodeId of Some e \<Rightarrow> e | None \<Rightarrow> \<lparr>te_status = LoadingData, te_data = None, te_error = None\<rparr>)
               in (a\<lparr>tabData := obj_put nodeId (prev\<lparr>te_status := LoadingData\<rparr>) (tabData a)\<rparr>,
                   [\<lparr>dr_tab = tab_id t, dr_service = ts_serviceCode src, dr_get = the (ts_get src), dr_node = nodeId,
                     dr_tx = (if truthy txId \<and> nodeId \<in> set locked then txId else None)\<rparr>])))"

definition detail_arrived :: "string \<Rightarrow> json \<Rightarrow> app \<Rightarrow> app" where
  "detail_arrived nodeId data a =
     a\<lparr>tabData := obj_put nodeId \<lparr>te_status = OkData, te_data = Some data, te_error = None\<rparr> (tabData a)\<rparr>"

definition detail_failed :: "string \<Rightarrow> string \<Rightarrow> int option \<Rightarrow> string \<Rightarrow> app \<Rightarrow> app" where
  \<comment> \<open>\<open>tabId\<close> and \<open>nodeId\<close> as they were when the request was made\<close>
  "detail_failed tabId nodeId status msg a =
     (if status = Some 404 then drop_tabs_of nodeId tabId (forget_node nodeId a)
      else a\<lparr>tabData := obj_put nodeId \<lparr>te_status = ErrorData, te_data = None, te_error = Some msg\<rparr> (tabData a)\<rparr>)"

definition refreshAllTabData :: "json option \<Rightarrow> string list \<Rightarrow> app \<Rightarrow> app \<times> detail_request list" where
  "refreshAllTabData tx locked a = fold (\<lambda>t (a, rs). case tab_nodeId t of
       Some n \<Rightarrow> if n \<noteq> [] \<and> get_path t then (case refreshTabData tx locked n a of (a', rs') \<Rightarrow> (a', rs @ rs')) else (a, rs)
     | None \<Rightarrow> (a, rs)) (tabs a) (a, [])"

definition on_activation :: "json option \<Rightarrow> string list \<Rightarrow> app \<Rightarrow> app \<times> detail_request list" where
  \<comment> \<open>the effect on \<open>activeTabId\<close> and \<open>tabs\<close>: the first fetch of a tab\<close>
  "on_activation tx locked a = (case activeTabId a of
       None \<Rightarrow> (a, [])
     | Some i \<Rightarrow> if i = ''dashboard'' then (a, [])
         else (case find (\<lambda>t. tab_id t = i) (tabs a) of
             None \<Rightarrow> (a, [])
           | Some t \<Rightarrow> (case tab_nodeId t of
                 None \<Rightarrow> (a, [])
               | Some n \<Rightarrow> if \<not> get_path t \<or> n = [] \<or> n \<in> set (fetchedNodeIds a) then (a, [])
                   else refreshTabData tx locked n (a\<lparr>fetchedNodeIds := js_add n (fetchedNodeIds a)\<rparr>))))"

definition activate :: "string \<Rightarrow> app \<Rightarrow> app" where
  "activate tabId a = a\<lparr>activeTabId := Some tabId\<rparr>"

definition toggle_pin :: "string \<Rightarrow> app \<Rightarrow> app" where
  "toggle_pin tabId a = a\<lparr>tabs := map (\<lambda>t. if tab_id t = tabId then t\<lparr>tab_pinned := \<not> tab_pinned t\<rparr> else t) (tabs a)\<rparr>"

definition node_json :: "tab \<Rightarrow> json" where
  "node_json t = (case tab_nodeId t of Some n \<Rightarrow> JStr n | None \<Rightarrow> JNull)"

definition onDescriptionLoaded :: "json \<Rightarrow> app \<Rightarrow> app" where
  "onDescriptionLoaded desc a =
     (let node = jprop (Some desc) ''nodeId'';
          activeNode = (case activeTabId a of None \<Rightarrow> None
            | Some i \<Rightarrow> map_option node_json (find (\<lambda>t. tab_id t = i) (tabs a)));
          a1 = (if node = activeNode then a\<lparr>selectedDesc := Some desc\<rparr> else a);
          label = js_or (jprop (Some desc) ''logicalId'') (jprop (Some desc) ''identity'')
      in if \<not> truthy node then a1
         else a1\<lparr>tabs := map (\<lambda>t. if Some (node_json t) = node \<and> truthy label
                then t\<lparr>tab_label := opt_string label\<rparr> else t) (tabs a1)\<rparr>)"

definition handleUserChange :: "app \<Rightarrow> app" where
  "handleUserChange a = a\<lparr>tabs := [DASHBOARD_TAB], activeTabId := Some ''dashboard'', selectedDesc := None, tabData := [],
     fetchedNodeIds := []\<rparr>"

definition project_changed :: "app \<Rightarrow> app" where
  \<comment> \<open>the tabs after \<open>handleProjectSpaceChange\<close> has succeeded\<close>
  "project_changed a = a\<lparr>tabs := [DASHBOARD_TAB], activeTabId := Some ''dashboard'', selectedDesc := None\<rparr>"

section \<open>Server events\<close>

datatype call = RefreshTx | RefreshNodes | RefreshItems | RefreshStateColorMap | RefreshUsers | RefreshProjectSpaces
  | RefreshTab string | RefreshAllTabs | ClearItemTypeCache | BumpBrowse | Toast string string

definition ev :: "json \<Rightarrow> string \<Rightarrow> json option" where
  "ev e k = jprop (Some e) k"

definition by_me :: "json option \<Rightarrow> string \<Rightarrow> bool" where
  "by_me v user \<longleftrightarrow> v = Some (JStr user)"

definition notice :: "string \<Rightarrow> json \<Rightarrow> string \<Rightarrow> string \<Rightarrow> call list" where
  \<comment> \<open>a toast when somebody else did it\<close>
  "notice user e level msg = (let by = ev e ''byUser'' in
     if truthy by \<and> \<not> by_me by user then [Toast (opt_string by @ msg) level] else [])"

definition tab_refresh :: "json option \<Rightarrow> call list" where
  "tab_refresh nodeId = (if truthy nodeId then [RefreshTab (opt_string nodeId)] else [])"

definition on_ws_event :: "string \<Rightarrow> (string \<Rightarrow> string) \<Rightarrow> json \<Rightarrow> app \<times> plm_store \<Rightarrow> (app \<times> plm_store) \<times> call list" where
  \<comment> \<open>the calls in the order they are made; \<open>lower\<close> is \<open>toLowerCase\<close>\<close>
  "on_ws_event user lower e st = (case st of (a, s) \<Rightarrow>
     let kind = ev e ''event''; node = ev e ''nodeId''; by = ev e ''byUser'' in
     if kind = Some (JStr ''LOCK_ACQUIRED'') then
       ((a, if by_me (ev e ''lockedBy'') user then lockItem (opt_string node) s else s), tab_refresh node)
     else if kind = Some (JStr ''LOCK_RELEASED'') then
       ((a, if by_me (ev e ''releasedBy'') user then unlockItem (opt_string node) s else s), tab_refresh node)
     else if kind = Some (JStr ''TX_COMMITTED'') then
       ((a, if by_me by user then unlockAll s else s), RefreshTx # notice user e ''info'' '' committed a transaction'')
     else if kind = Some (JStr ''ITEM_DELETED'') then
       (let deleted = js_or node (ev e ''itemId'') in
        ((if truthy deleted then item_deleted (opt_string deleted) a else a,
          if truthy deleted then removeBasketItemIds [opt_string deleted] s else s), [RefreshNodes, BumpBrowse]))
     else if kind = Some (JStr ''TX_ROLLED_BACK'') then
       ((a, if by_me by user then unlockAll s else s),
        [RefreshTx, RefreshNodes, RefreshAllTabs, BumpBrowse] @ notice user e ''warn'' '' rolled back a transaction'')
     else if kind = Some (JStr ''ITEMS_RELEASED'') then
       ((a, if by_me by user
            then fold (\<lambda>n. unlockItem (js_string n)) (case js_or (ev e ''nodeIds'') (Some (JArr [])) of Some (JArr ns) \<Rightarrow> ns | _ \<Rightarrow> []) s
            else s), [RefreshTx, BumpBrowse])
     else if kind = Some (JStr ''ITEM_CREATED'') then ((a, notifyCreated (ev e ''typeCode'') s), [RefreshTx])
     else if kind = Some (JStr ''ITEM_CAPTURED'') then ((a, s), [RefreshTx])
     else if kind = Some (JStr ''BASKET_ITEM_ADDED'') then
       ((a, syncBasketAdd (opt_string (ev e ''key'')) (opt_string (ev e ''value'')) s), [])
     else if kind = Some (JStr ''BASKET_ITEM_REMOVED'') then
       ((a, syncBasketRemove (opt_string (ev e ''key'')) (opt_string (ev e ''value'')) s), [])
     else if kind = Some (JStr ''BASKET_CLEARED'') then ((a, syncBasketClear s), [])
     else if kind \<in> {Some (JStr ''ITEM_VERSION_CREATED''), Some (JStr ''ITEM_UPDATED''), Some (JStr ''ITEM_DEFINITION_UPDATED'')} then
       ((a, s), tab_refresh (js_or node (ev e ''itemId'')) @ [RefreshNodes, BumpBrowse])
     else if kind = Some (JStr ''METAMODEL_CHANGED'') then
       ((a, s), [ClearItemTypeCache, RefreshItems, BumpBrowse] @ (if stateColorMapLoaded s then [RefreshStateColorMap] else [])
          @ notice user e ''info'' '' updated the metamodel'')
     else if kind = Some (JStr ''PNO_CHANGED'') then
       ((a, s), [RefreshUsers, RefreshProjectSpaces]
          @ notice user e ''info'' ('' updated '' @ lower (opt_string (js_or (ev e ''entity'') (Some (JStr ''PNO data''))))))
     else ((a, s), []))"

section \<open>Facts: the tabs\<close>

datatype shell_event = Navigate string "string option" json string | Close string | Activate string | TogglePin string
  | NodeDeleted string | Refresh "json option" "string list" string | Activation "json option" "string list"
  | Arrived string json | DetailFailed string string "int option" string | Described json | UserChange | ProjectChange

definition tab_ids :: "app \<Rightarrow> string set" where
  "tab_ids a = tab_id ` set (tabs a)"

fun enabled :: "shell_event \<Rightarrow> app \<Rightarrow> bool" where
  \<comment> \<open>a new id is one the clock has not given before; the interface closes no dashboard and offers the
    tabs that are there\<close>
  "enabled (Navigate _ _ descriptor newId) a = (newId \<notin> tab_ids a \<and> source_of descriptor \<noteq> None)"
| "enabled (Close i) a = (i \<noteq> ''dashboard'')"
| "enabled (Activate i) a = (i \<in> tab_ids a)"
| "enabled (DetailFailed i n _ _) a = (case find (\<lambda>t. tab_nodeId t = Some n) (tabs a) of Some t \<Rightarrow> tab_id t = i | None \<Rightarrow> True)"
| "enabled _ a = True"

fun shell_step :: "shell_event \<Rightarrow> app \<Rightarrow> app" where
  "shell_step (Navigate n l descriptor newId) a = the (navigate n l descriptor newId a)"
| "shell_step (Close i) a = closeTab (activeTabId a) i a"
| "shell_step (Activate i) a = activate i a"
| "shell_step (TogglePin i) a = toggle_pin i a"
| "shell_step (NodeDeleted n) a = item_deleted n a"
| "shell_step (Refresh tx locked n) a = fst (refreshTabData tx locked n a)"
| "shell_step (Activation tx locked) a = fst (on_activation tx locked a)"
| "shell_step (Arrived n d) a = detail_arrived n d a"
| "shell_step (DetailFailed i n status msg) a = detail_failed i n status msg a"
| "shell_step (Described d) a = onDescriptionLoaded d a"
| "shell_step UserChange a = handleUserChange a"
| "shell_step ProjectChange a = project_changed a"

definition list_ok :: "tab list \<Rightarrow> bool" where
  "list_ok ts \<longleftrightarrow> distinct (map tab_id ts) \<and> distinct (map tab_nodeId ts)
     \<and> (\<forall>t \<in> set ts. tab_nodeId t = None \<longleftrightarrow> tab_id t = ''dashboard'') \<and> ''dashboard'' \<in> tab_id ` set ts"

definition tabs_ok :: "app \<Rightarrow> bool" where
  "tabs_ok a \<longleftrightarrow> list_ok (tabs a) \<and> (\<exists>i \<in> tab_ids a. activeTabId a = Some i)"

lemma found: "find P xs = Some x \<Longrightarrow> x \<in> set xs \<and> P x"
  by (auto simp: find_Some_iff)

lemma distinct_retarget:
  "distinct (map f ts) \<Longrightarrow> distinct (map g ts) \<Longrightarrow> v \<notin> g ` set ts \<Longrightarrow> distinct (map (\<lambda>t. if f t = i then v else g t) ts)"
proof (induction ts)
  case (Cons t ts)
  have ne: "\<forall>x \<in> set ts. f x \<noteq> f t" using Cons.prems(1) by (auto simp: image_iff)
  show ?case
  proof (cases "f t = i")
    case True
    then have eq: "map (\<lambda>t. if f t = i then v else g t) ts = map g ts" using ne by (intro map_cong) auto
    show ?thesis using Cons.prems(2,3) by (simp add: True eq del: map_eq_conv)
  next
    case False
    have "g t \<notin> (\<lambda>t. if f t = i then v else g t) ` set ts" using Cons.prems(2,3) by auto
    with False Cons show ?thesis by simp
  qed
qed simp

lemma tabs_same:
  assumes "tabs a' = tabs a" "activeTabId a' = activeTabId a"
  shows "tabs_ok a' = tabs_ok a"
  using assms by (simp add: tabs_ok_def tab_ids_def)

lemma list_ok_map:
  assumes "list_ok ts" "\<And>t. tab_id (f t) = tab_id t" "\<And>t. tab_nodeId (f t) = tab_nodeId t"
  shows "list_ok (map f ts)"
  using assms(1) unfolding list_ok_def by (simp add: o_def image_image assms(2,3))

lemma list_ok_filter:
  assumes "list_ok ts" "\<And>t. t \<in> set ts \<Longrightarrow> tab_id t = ''dashboard'' \<Longrightarrow> P t"
  shows "list_ok (filter P ts)"
proof -
  have "''dashboard'' \<in> tab_id ` set ts" using assms(1) by (simp add: list_ok_def)
  then obtain t where t: "''dashboard'' = tab_id t" "t \<in> set ts" by (rule imageE)
  then have "t \<in> set (filter P ts)" using assms(2) [of t] by simp
  with t(1) have "''dashboard'' \<in> tab_id ` set (filter P ts)" by (rule image_eqI)
  moreover have "distinct (map tab_id (filter P ts))" "distinct (map tab_nodeId (filter P ts))"
    using assms(1) unfolding list_ok_def by (blast intro: distinct_map_filter)+
  moreover have "set (filter P ts) \<subseteq> set ts" by (rule filter_is_subset)
  ultimately show ?thesis using assms(1) unfolding list_ok_def by blast
qed

lemma last_id_ok: "list_ok ts \<Longrightarrow> \<exists>i \<in> tab_id ` set ts. last_id ts = Some i"
  by (auto simp: list_ok_def last_id_def)

lemma pick_ok:
  assumes "list_ok ts" "c \<noteq> i \<Longrightarrow> c \<in> tab_id ` set ts"
  shows "\<exists>k \<in> tab_id ` set ts. (if c = i then last_id ts else Some c) = Some k"
  using last_id_ok [OF assms(1)] assms(2) by (cases "c = i") auto

lemma map_ids: "(\<And>t. tab_id (f t) = tab_id t) \<Longrightarrow> tab_id ` set (map f ts) = tab_id ` set ts"
  by (auto simp: image_iff)

lemma open_node_ok:
  assumes "tabs_ok a" "newId \<notin> tab_ids a"
  shows "tabs_ok (open_node n label src newId a)"
proof (cases "find (\<lambda>t. tab_nodeId t = Some n) (tabs a)")
  case (Some t)
  let ?f = "\<lambda>u. if tab_id u = tab_id t then u\<lparr>tab_source_of := Some src\<rparr> else u"
  have "list_ok (map ?f (tabs a))" using assms(1) by (intro list_ok_map) (auto simp: tabs_ok_def)
  moreover have "tab_id ` set (map ?f (tabs a)) = tab_id ` set (tabs a)" by (rule map_ids) simp
  then have "tab_id t \<in> tab_id ` set (map ?f (tabs a))" using found [OF Some] by (simp del: set_map)
  ultimately show ?thesis by (simp add: open_node_def Some tabs_ok_def tab_ids_def del: set_map)
next
  case None
  then have new: "Some n \<notin> tab_nodeId ` set (tabs a)" by (auto simp: find_None_iff)
  have I: "list_ok (tabs a)" using assms(1) by (simp add: tabs_ok_def)
  show ?thesis
  proof (cases "find (\<lambda>t. \<not> tab_pinned t \<and> tab_id t \<noteq> ''dashboard'') (tabs a)")
    case (Some u)
    let ?f = "\<lambda>t. if tab_id t = tab_id u then t\<lparr>tab_nodeId := Some n, tab_label := label_or label n, tab_source_of := Some src\<rparr> else t"
    have u: "u \<in> set (tabs a)" "tab_id u \<noteq> ''dashboard''" using found [OF Some] by auto
    have ids: "tab_id ` set (map ?f (tabs a)) = tab_id ` set (tabs a)" by (rule map_ids) simp
    have eq: "map tab_nodeId (map ?f (tabs a)) = map (\<lambda>t. if tab_id t = tab_id u then Some n else tab_nodeId t) (tabs a)" by simp
    have "distinct (map tab_nodeId (map ?f (tabs a)))"
      unfolding eq using distinct_retarget [of tab_id "tabs a" tab_nodeId "Some n" "tab_id u"] new I by (simp add: list_ok_def)
    moreover have "map tab_id (map ?f (tabs a)) = map tab_id (tabs a)" by simp
    moreover have "tab_nodeId t = None \<longleftrightarrow> tab_id t = ''dashboard''" if "t \<in> set (map ?f (tabs a))" for t
    proof -
      from that obtain w where w: "w \<in> set (tabs a)" "t = ?f w" by auto
      with I u(2) show ?thesis by (cases "tab_id w = tab_id u") (simp_all add: list_ok_def)
    qed
    moreover have "''dashboard'' \<in> tab_id ` set (map ?f (tabs a))" unfolding ids using I by (simp add: list_ok_def)
    moreover have "distinct (map tab_id (map ?f (tabs a)))" unfolding \<open>map tab_id (map ?f (tabs a)) = map tab_id (tabs a)\<close>
      using I by (simp add: list_ok_def)
    ultimately have "list_ok (map ?f (tabs a))" unfolding list_ok_def by blast
    then show ?thesis using u(1) ids by (simp add: open_node_def None Some tabs_ok_def tab_ids_def del: set_map)
  next
    case None
    have "newId \<noteq> ''dashboard''" using assms I by (auto simp: tab_ids_def list_ok_def)
    then show ?thesis using \<open>find (\<lambda>t. tab_nodeId t = Some n) (tabs a) = None\<close> None new I assms(2)
      by (simp add: open_node_def tabs_ok_def tab_ids_def list_ok_def)
  qed
qed

lemma forget_keeps [simp]: "tabs (forget_node n a) = tabs a" "activeTabId (forget_node n a) = activeTabId a"
  by (simp_all add: forget_node_def)

lemma closeTab_ok:
  assumes "tabs_ok a" "i \<noteq> ''dashboard''"
  shows "tabs_ok (closeTab (activeTabId a) i a)"
proof -
  define a1 where "a1 = (case find (\<lambda>t. tab_id t = i) (tabs a) of
                  Some t \<Rightarrow> (case tab_nodeId t of Some n \<Rightarrow> if n \<noteq> [] then forget_node n a else a | None \<Rightarrow> a)
                | None \<Rightarrow> a)"
  have k: "tabs a1 = tabs a" "activeTabId a1 = activeTabId a" by (auto simp: a1_def split: option.split)
  let ?r = "filter (\<lambda>t. tab_id t \<noteq> i) (tabs a)"
  have r: "list_ok ?r" using assms by (intro list_ok_filter) (auto simp: tabs_ok_def)
  obtain c where c: "activeTabId a = Some c" "c \<in> tab_ids a" using assms(1) by (auto simp: tabs_ok_def)
  have cl: "tabs (closeTab (activeTabId a) i a) = ?r"
    "activeTabId (closeTab (activeTabId a) i a) = (if c = i then last_id ?r else Some c)"
    by (simp_all add: closeTab_def a1_def [symmetric] k c(1) Let_def)
  have "c \<in> tab_id ` set ?r" if "c \<noteq> i" using c(2) that by (auto simp: tab_ids_def)
  with r pick_ok [OF r] show ?thesis unfolding tabs_ok_def tab_ids_def cl by blast
qed

lemma drop_tabs_ok:
  assumes "tabs_ok a" "\<And>t. find (\<lambda>t. tab_nodeId t = Some n) (tabs a) = Some t \<Longrightarrow> tab_id t = i"
  shows "tabs_ok (drop_tabs_of n i a)"
proof -
  let ?r = "filter (\<lambda>t. tab_nodeId t \<noteq> Some n) (tabs a)"
  have I: "list_ok (tabs a)" using assms(1) by (simp add: tabs_ok_def)
  have r: "list_ok ?r" using I by (intro list_ok_filter) (auto simp: list_ok_def)
  obtain c where c: "activeTabId a = Some c" "c \<in> tab_ids a" using assms(1) by (auto simp: tabs_ok_def)
  have cin: "c \<in> tab_id ` set ?r" if "c \<noteq> i"
  proof -
    from c(2) obtain u where u: "u \<in> set (tabs a)" "c = tab_id u" by (auto simp: tab_ids_def)
    have "tab_nodeId u \<noteq> Some n"
    proof
      assume n: "tab_nodeId u = Some n"
      then obtain t where t: "find (\<lambda>t. tab_nodeId t = Some n) (tabs a) = Some t"
        using u(1) by (cases "find (\<lambda>t. tab_nodeId t = Some n) (tabs a)") (auto simp: find_None_iff)
      have "inj_on tab_nodeId (set (tabs a))" using I by (simp add: list_ok_def distinct_map)
      with found [OF t] u(1) n have "t = u" by (metis inj_onD)
      with assms(2) [OF t] u(2) that show False by simp
    qed
    with u show ?thesis by simp
  qed
  have d: "tabs (drop_tabs_of n i a) = ?r" "activeTabId (drop_tabs_of n i a) = (if c = i then last_id ?r else Some c)"
    by (simp_all add: drop_tabs_of_def Let_def c(1))
  with r pick_ok [OF r cin] show ?thesis unfolding tabs_ok_def tab_ids_def d by blast
qed

lemma refresh_keeps [simp]:
  "tabs (fst (refreshTabData tx locked n a)) = tabs a" "activeTabId (fst (refreshTabData tx locked n a)) = activeTabId a"
  by (auto simp: refreshTabData_def Let_def split: option.split)

lemma fresh_app_ok: "tabs_ok fresh_app"
  by (simp add: tabs_ok_def list_ok_def tab_ids_def fresh_app_def DASHBOARD_TAB_def)

lemma relabel_ok: "tabs_ok a \<Longrightarrow> (\<And>t. tab_id (f t) = tab_id t) \<Longrightarrow> (\<And>t. tab_nodeId (f t) = tab_nodeId t) \<Longrightarrow>
    tabs_ok (a\<lparr>tabs := map f (tabs a)\<rparr>)"
  using list_ok_map [of "tabs a" f] map_ids [of f "tabs a"] by (simp add: tabs_ok_def tab_ids_def del: set_map)

lemma described_ok:
  assumes "tabs_ok a"
  shows "tabs_ok (onDescriptionLoaded d a)"
proof -
  define a1 where "a1 = (if ev d ''nodeId'' = (case activeTabId a of None \<Rightarrow> None
            | Some i \<Rightarrow> map_option node_json (find (\<lambda>t. tab_id t = i) (tabs a))) then a\<lparr>selectedDesc := Some d\<rparr> else a)"
  have a1: "tabs_ok a1" using assms tabs_same [of a1 a] by (simp add: a1_def)
  define f where "f = (\<lambda>t. if Some (node_json t) = ev d ''nodeId'' \<and> truthy (js_or (ev d ''logicalId'') (ev d ''identity''))
      then t\<lparr>tab_label := opt_string (js_or (ev d ''logicalId'') (ev d ''identity''))\<rparr> else t)"
  have "onDescriptionLoaded d a = (if truthy (ev d ''nodeId'') then a1\<lparr>tabs := map f (tabs a1)\<rparr> else a1)"
    unfolding onDescriptionLoaded_def a1_def f_def ev_def Let_def by simp
  moreover have "tabs_ok (a1\<lparr>tabs := map f (tabs a1)\<rparr>)" by (rule relabel_ok [OF a1]) (simp_all add: f_def)
  ultimately show ?thesis using a1 by simp
qed

lemma shell_step_ok:
  assumes "tabs_ok a" "enabled e a"
  shows "tabs_ok (shell_step e a)"
proof (cases e)
  case (Navigate n l descriptor newId)
  with assms obtain src where "source_of descriptor = Some src" by auto
  with Navigate assms open_node_ok show ?thesis by (simp add: navigate_def)
next
  case (Close i)
  with assms closeTab_ok show ?thesis by simp
next
  case (Activate i)
  with assms show ?thesis by (simp add: activate_def tabs_ok_def tab_ids_def)
next
  case (TogglePin i)
  with assms show ?thesis by (simp add: toggle_pin_def relabel_ok)
next
  case (NodeDeleted n)
  show ?thesis
  proof (cases "find (\<lambda>t. tab_nodeId t = Some n) (tabs a)")
    case (Some t)
    have "tabs_ok (forget_node n a)" using assms(1) tabs_same [of "forget_node n a" a] by simp
    with drop_tabs_ok [where a = "forget_node n a" and n = n and i = "tab_id t"] Some NodeDeleted show ?thesis by (simp add: item_deleted_def)
  qed (use assms NodeDeleted in \<open>simp add: item_deleted_def\<close>)
next
  case (DetailFailed i n status msg)
  show ?thesis
  proof (cases "status = Some 404")
    case True
    have "tabs_ok (drop_tabs_of n i (forget_node n a))"
    proof (rule drop_tabs_ok)
      show "tabs_ok (forget_node n a)" using assms(1) tabs_same [of "forget_node n a" a] by simp
      show "tab_id t = i" if "find (\<lambda>t. tab_nodeId t = Some n) (tabs (forget_node n a)) = Some t" for t
        using that assms(2) DetailFailed by simp
    qed
    with True DetailFailed show ?thesis by (simp add: detail_failed_def)
  next
    case False
    with assms(1) DetailFailed show ?thesis by (simp add: detail_failed_def tabs_ok_def tab_ids_def)
  qed
next
  case (Activation tx locked)
  have "tabs (fst (on_activation tx locked a)) = tabs a" "activeTabId (fst (on_activation tx locked a)) = activeTabId a"
    by (auto simp: on_activation_def split: option.split)
  with assms Activation tabs_same [of "fst (on_activation tx locked a)" a] show ?thesis by simp
next
  case (Refresh tx locked n)
  with assms tabs_same [of "fst (refreshTabData tx locked n a)" a] show ?thesis by simp
next
  case (Described d)
  with assms described_ok show ?thesis by simp
next
  case (Arrived n d)
  with assms show ?thesis by (simp add: detail_arrived_def tabs_ok_def tab_ids_def)
next
  case UserChange
  then show ?thesis by (simp add: handleUserChange_def tabs_ok_def list_ok_def tab_ids_def DASHBOARD_TAB_def)
next
  case ProjectChange
  then show ?thesis by (simp add: project_changed_def tabs_ok_def list_ok_def tab_ids_def DASHBOARD_TAB_def)
qed

interpretation shell: machine_invariant enabled shell_step fresh_app "\<lambda>_. tabs_ok"
  by unfold_locales (simp_all add: shell_step_ok fresh_app_ok)

text \<open>C27. The tabs stay in order: whatever the user opens, closes, pins and selects and whatever
  answers arrive, no two tabs have the same id, no node is open in two tabs, the dashboard is there,
  and the active tab is one of them, as long as a 404 is answered while the tab still shows the node
  it was asked for.\<close>

theorem tabs_consistent:
  assumes "run_machine enabled shell_step es fresh_app = Some a"
  shows "distinct (map tab_id (tabs a)) \<and> distinct (map tab_nodeId (tabs a))
    \<and> (\<exists>t \<in> set (tabs a). tab_id t = ''dashboard'') \<and> (\<exists>t \<in> set (tabs a). activeTabId a = Some (tab_id t))"
  using shell.holds [OF assms] by (auto simp: tabs_ok_def list_ok_def tab_ids_def image_iff eq_commute [of "''dashboard''"])

definition part_descriptor :: json where
  "part_descriptor = JObj [(''serviceCode'', JStr ''psm''), (''itemCode'', JStr ''part''), (''get'', JObj [(''path'', JStr ''/n'')])]"

definition sample_clicks :: "shell_event list" where
  "sample_clicks = [Navigate ''a'' None part_descriptor ''tab-1'', TogglePin ''tab-1'', Navigate ''b'' None part_descriptor ''tab-2'',
     Close ''tab-2'']"

theorem tabs_consistent_witness:
  "\<exists>a. run_machine enabled shell_step sample_clicks fresh_app = Some a \<and> map tab_id (tabs a) = [''dashboard'', ''tab-1'']
     \<and> (\<exists>t \<in> set (tabs a). activeTabId a = Some (tab_id t))"
proof -
  have "case run_machine enabled shell_step sample_clicks fresh_app of
      Some a \<Rightarrow> map tab_id (tabs a) = [''dashboard'', ''tab-1''] | None \<Rightarrow> False" by code_simp
  from case_Some_ex [OF this] obtain a where
    a: "run_machine enabled shell_step sample_clicks fresh_app = Some a \<and> map tab_id (tabs a) = [''dashboard'', ''tab-1'']" ..
  with tabs_consistent [OF conjunct1 [OF a]] show ?thesis by (intro exI [of _ a]) (simp only: simp_thms)
qed

text \<open>The shell hands the plugins the \<open>closeTab\<close> of its first render, which has the dashboard as the
  active tab: through it, closing the active tab leaves the shell without an active tab.\<close>

theorem plugin_close_leaves_no_tab:
  "\<exists>a. run_machine enabled shell_step [Navigate ''a'' None part_descriptor ''tab-1''] fresh_app = Some a
     \<and> activeTabId (closeTab (activeTabId fresh_app) ''tab-1'' a) = Some ''tab-1''
     \<and> tabs (closeTab (activeTabId fresh_app) ''tab-1'' a) = [DASHBOARD_TAB]"
proof -
  have "case run_machine enabled shell_step [Navigate ''a'' None part_descriptor ''tab-1''] fresh_app of
      Some a \<Rightarrow> activeTabId (closeTab (activeTabId fresh_app) ''tab-1'' a) = Some ''tab-1''
        \<and> tabs (closeTab (activeTabId fresh_app) ''tab-1'' a) = [DASHBOARD_TAB] | None \<Rightarrow> False" by code_simp
  then show ?thesis by (rule case_Some_ex)
qed

text \<open>A change of the project space resets the tabs but neither the data loaded for them nor the record
  of what has been fetched: a node opened again is shown as the old project had it, and not fetched.\<close>

theorem project_switch_shows_old_data:
  "\<exists>a. run_machine enabled shell_step [Navigate ''a'' None part_descriptor ''tab-1'', Activation None [], Arrived ''a'' (JStr ''old''),
        ProjectChange, Navigate ''a'' None part_descriptor ''tab-2''] fresh_app = Some a
     \<and> activeTabId a = Some ''tab-2'' \<and> snd (on_activation None [] a) = []
     \<and> map_option te_data (obj_get (tabData a) ''a'') = Some (Some (JStr ''old''))"
proof -
  have "case run_machine enabled shell_step [Navigate ''a'' None part_descriptor ''tab-1'', Activation None [], Arrived ''a'' (JStr ''old''),
        ProjectChange, Navigate ''a'' None part_descriptor ''tab-2''] fresh_app of
      Some a \<Rightarrow> activeTabId a = Some ''tab-2'' \<and> snd (on_activation None [] a) = []
     \<and> map_option te_data (obj_get (tabData a) ''a'') = Some (Some (JStr ''old'')) | None \<Rightarrow> False" by code_simp
  then show ?thesis by (rule case_Some_ex)
qed

text \<open>A 404 that comes when its tab shows another node already moves the focus to the last tab, or
  leaves a closed tab active.\<close>

theorem late_404_moves_focus:
  "\<exists>a. run_machine enabled shell_step [Navigate ''a'' None part_descriptor ''tab-1'', Navigate ''b'' None part_descriptor ''tab-2'',
        TogglePin ''tab-1'', Navigate ''a'' None part_descriptor ''tab-3''] fresh_app = Some a
     \<and> activeTabId a = Some ''tab-3''
     \<and> activeTabId (detail_failed ''tab-1'' ''a'' (Some 404) [] a) = Some ''tab-3''
     \<and> map tab_id (tabs (detail_failed ''tab-1'' ''a'' (Some 404) [] a)) = [''dashboard'', ''tab-1'']"
proof -
  have "case run_machine enabled shell_step [Navigate ''a'' None part_descriptor ''tab-1'', Navigate ''b'' None part_descriptor ''tab-2'',
        TogglePin ''tab-1'', Navigate ''a'' None part_descriptor ''tab-3''] fresh_app of
      Some a \<Rightarrow> activeTabId a = Some ''tab-3''
     \<and> activeTabId (detail_failed ''tab-1'' ''a'' (Some 404) [] a) = Some ''tab-3''
     \<and> map tab_id (tabs (detail_failed ''tab-1'' ''a'' (Some 404) [] a)) = [''dashboard'', ''tab-1''] | None \<Rightarrow> False" by code_simp
  then show ?thesis by (rule case_Some_ex)
qed

end
