(* ===== verification/ShellPlugins.thy ===== *)
theory ShellPlugins
  imports JsValue
begin

text \<open>
  The plugin registries of the browser shell: \<open>services/sourcePlugins.js\<close>, \<open>settingsPlugins.js\<close> and
  \<open>statusPlugins.js\<close>, \<open>shell/pluginRegistry.js\<close>, \<open>shell/searchItemRegistry.js\<close>, and
  \<open>shell/PluginLoader.js\<close> that fills them. Components and functions a plugin brings are opaque values
  of a type variable; a plugin's properties are a dictionary of them, None where the loader puts
  null.
\<close>

section \<open>Source plugins\<close>

record plugin_match =
  m_serviceCode :: string
  m_itemCode :: "string option"
  m_itemKey :: "string option"

record 'c source_plugin =
  pl_match :: plugin_match
  pl_specificity :: nat
  pl_props :: "'c option jsobj"

record plugin_ref =
  ref_serviceCode :: "string option"
  ref_itemCode :: "string option"
  ref_itemKey :: "string option"

definition given :: "string option \<Rightarrow> bool" where
  \<comment> \<open>a truthy string\<close>
  "given x = (case x of Some s \<Rightarrow> s \<noteq> [] | None \<Rightarrow> False)"

definition specificity :: "plugin_match \<Rightarrow> nat" where
  "specificity m = (if given (m_itemKey m) then 4 else 0) + (if given (m_itemCode m) then 2 else 0)
     + (if m_serviceCode m = ''*'' then 0 else 1)"

definition by_specificity :: "'c source_plugin list \<Rightarrow> 'c source_plugin list" where
  \<comment> \<open>\<open>_plugins.sort(...)\<close>, which is stable\<close>
  "by_specificity ps = sort_key (\<lambda>p. - int (pl_specificity p)) ps"

definition registerSourcePlugin :: "plugin_match \<Rightarrow> 'c option jsobj \<Rightarrow> 'c source_plugin list \<Rightarrow> 'c source_plugin list option" where
  \<comment> \<open>None: the plugin has no service code\<close>
  "registerSourcePlugin m props ps = (if m_serviceCode m = [] then None
     else Some (by_specificity (ps @ [\<lparr>pl_match = m, pl_specificity = specificity m, pl_props = props\<rparr>])))"

definition key_of :: "plugin_ref \<Rightarrow> string" where
  \<comment> \<open>\<open>descriptorKey\<close> and \<open>tabKey\<close>\<close>
  "key_of r = join '':'' (map the (filter given [ref_serviceCode r, ref_itemCode r, ref_itemKey r]))"

definition matches :: "plugin_ref \<Rightarrow> 'c source_plugin \<Rightarrow> bool" where
  "matches r p = (let m = pl_match p in
     if m_serviceCode m \<noteq> ''*'' \<and> Some (m_serviceCode m) \<noteq> ref_serviceCode r then False
     else if given (m_itemCode m) \<and> m_itemCode m \<noteq> ref_itemCode r then False
     else if given (m_itemKey m) \<and> m_itemKey m \<noteq> ref_itemKey r then False
     else True)"

definition no_ref :: plugin_ref where
  "no_ref = \<lparr>ref_serviceCode = None, ref_itemCode = None, ref_itemKey = None\<rparr>"

definition lookupPluginForDescriptor :: "'c source_plugin \<Rightarrow> plugin_ref option \<Rightarrow> 'c source_plugin list \<Rightarrow> 'c source_plugin" where
  "lookupPluginForDescriptor dflt d ps =
     (case find (matches (case d of Some r \<Rightarrow> r | None \<Rightarrow> no_ref)) ps of Some p \<Rightarrow> p | None \<Rightarrow> dflt)"

definition lookupPluginForTab :: "'c source_plugin \<Rightarrow> plugin_ref option \<Rightarrow> 'c source_plugin list \<Rightarrow> 'c source_plugin" where
  "lookupPluginForTab dflt t ps = (case t of
       None \<Rightarrow> dflt
     | Some r \<Rightarrow> (case find (matches r) ps of Some p \<Rightarrow> p | None \<Rightarrow> dflt))"

definition registerDefaultPlugin :: "'c option jsobj \<Rightarrow> 'c source_plugin \<Rightarrow> 'c source_plugin" where
  "registerDefaultPlugin props dflt = dflt\<lparr>pl_props := obj_merge (pl_props dflt) props,
     pl_match := \<lparr>m_serviceCode = ''*'', m_itemCode = None, m_itemKey = None\<rparr>\<rparr>"

definition prop_of :: "string \<Rightarrow> 'c source_plugin \<Rightarrow> 'c option" where
  "prop_of k p = (case obj_get (pl_props p) k of Some v \<Rightarrow> v | None \<Rightarrow> None)"

definition lookupLinkRowForSource :: "string \<Rightarrow> 'c source_plugin list \<Rightarrow> 'c option" where
  "lookupLinkRowForSource sourceCode ps =
     (case find (\<lambda>p. prop_of ''LinkRow'' p \<noteq> None
          \<and> (m_serviceCode (pl_match p) = ''*'' \<or> m_serviceCode (pl_match p) = sourceCode)) ps of
        Some p \<Rightarrow> prop_of ''LinkRow'' p | None \<Rightarrow> None)"

fun assign_first :: "('c source_plugin \<Rightarrow> bool) \<Rightarrow> 'c option jsobj \<Rightarrow> 'c source_plugin list \<Rightarrow> 'c source_plugin list" where
  \<comment> \<open>\<open>Object.assign(existing, updates)\<close> on the plugin \<open>find\<close> returns\<close>
  "assign_first P updates [] = []"
| "assign_first P updates (p # ps) =
     (if P p then p\<lparr>pl_props := obj_merge (pl_props p) updates\<rparr> # ps else p # assign_first P updates ps)"

definition to_update :: "string \<Rightarrow> string option \<Rightarrow> 'c source_plugin \<Rightarrow> bool" where
  "to_update serviceCode itemCode p \<longleftrightarrow> m_serviceCode (pl_match p) = serviceCode
     \<and> (\<not> given itemCode \<or> m_itemCode (pl_match p) = itemCode)"

definition updateSourcePlugin ::
  "string \<Rightarrow> string option \<Rightarrow> 'c option jsobj \<Rightarrow> 'c source_plugin list \<Rightarrow> 'c source_plugin list option" where
  "updateSourcePlugin serviceCode itemCode updates ps =
     (if \<exists>p \<in> set ps. to_update serviceCode itemCode p then Some (assign_first (to_update serviceCode itemCode) updates ps)
      else registerSourcePlugin \<lparr>m_serviceCode = serviceCode, m_itemCode = itemCode, m_itemKey = None\<rparr> updates ps)"

section \<open>The other registries\<close>

record 'c remote_plugin =
  rp_id :: "string option"
  rp_zone :: string
  rp_match :: "(string \<times> string option) option"     \<comment> \<open>service and item code\<close>
  rp_props :: "'c jsobj"                             \<comment> \<open>\<open>NavLabel\<close>, \<open>ChildRow\<close>, \<open>LinkRow\<close>, \<open>SearchItem\<close>, \<open>matches\<close>, ...\<close>
  rp_linkSources :: "string list option"

record 'c registries =
  sourcePlugins :: "'c source_plugin list"
  plugins :: "(string \<times> 'c remote_plugin) list"
  byZone :: "(string \<times> 'c remote_plugin list) list"
  searchItems :: "(string \<times> 'c) list"
  searchDefault :: "'c option"

definition registerPlugin :: "'c remote_plugin \<Rightarrow> 'c registries \<Rightarrow> 'c registries" where
  "registerPlugin p r = (if \<not> given (rp_id p) then r
     else r\<lparr>plugins := AList.update (the (rp_id p)) p (plugins r),
            byZone := AList.update (rp_zone p) (or_nil (map_of (byZone r) (rp_zone p)) @ [p]) (byZone r)\<rparr>)"

definition getPluginsForZone :: "string \<Rightarrow> 'c registries \<Rightarrow> 'c remote_plugin list" where
  "getPluginsForZone zone r = or_nil (map_of (byZone r) zone)"

definition findEditorPlugin :: "('c \<Rightarrow> bool) \<Rightarrow> 'c registries \<Rightarrow> 'c remote_plugin option" where
  \<comment> \<open>\<open>accepts\<close>: the plugin's \<open>matches\<close> function holds of the descriptor\<close>
  "findEditorPlugin accepts r = find (\<lambda>p. case obj_get (rp_props p) ''matches'' of Some f \<Rightarrow> accepts f | None \<Rightarrow> False)
     (getPluginsForZone ''editor'' r)"

definition findNavPlugin :: "('c \<Rightarrow> bool) \<Rightarrow> 'c registries \<Rightarrow> 'c remote_plugin option" where
  "findNavPlugin accepts r = (let navs = getPluginsForZone ''nav'' r in
     option_or (find (\<lambda>p. case obj_get (rp_props p) ''matches'' of Some f \<Rightarrow> accepts f | None \<Rightarrow> False) navs)
       (if navs = [] then None else Some (hd navs)))"

definition findSettingsSectionComponent :: "('c remote_plugin \<Rightarrow> string \<Rightarrow> 'c option) \<Rightarrow> string \<Rightarrow> 'c registries \<Rightarrow> ('c \<times> bool) option" where
  \<comment> \<open>\<open>plugin.sections?.[key]\<close>; the flag is \<open>wrapBody\<close>\<close>
  "findSettingsSectionComponent sections key r =
     (case List.map_filter (\<lambda>p. sections p key) (getPluginsForZone ''settings'' r) of c # _ \<Rightarrow> Some (c, True) | [] \<Rightarrow> None)"

definition search_key :: "string \<Rightarrow> string option \<Rightarrow> string" where
  "search_key serviceCode itemCode = serviceCode @ '':'' @ (if given itemCode then the itemCode else [])"

definition registerSearchItemPlugin :: "string \<Rightarrow> string option \<Rightarrow> 'c \<Rightarrow> 'c registries \<Rightarrow> 'c registries" where
  "registerSearchItemPlugin serviceCode itemCode c r =
     r\<lparr>searchItems := AList.update (search_key serviceCode itemCode) c (searchItems r)\<rparr>"

definition registerDefaultSearchItemPlugin :: "'c \<Rightarrow> 'c registries \<Rightarrow> 'c registries" where
  "registerDefaultSearchItemPlugin c r = r\<lparr>searchDefault := Some c\<rparr>"

definition lookupSearchItemPlugin :: "string \<Rightarrow> string \<Rightarrow> 'c registries \<Rightarrow> 'c option" where
  "lookupSearchItemPlugin serviceCode itemCode r =
     option_or (map_of (searchItems r) (serviceCode @ '':'' @ itemCode))
       (option_or (map_of (searchItems r) (serviceCode @ '':'')) (searchDefault r))"

definition registerSettingsPlugin :: "string \<Rightarrow> 'c \<Rightarrow> bool option \<Rightarrow> (string \<times> 'c \<times> bool) list \<Rightarrow> (string \<times> 'c \<times> bool) list" where
  \<comment> \<open>\<open>wrapBody\<close> is true by default\<close>
  "registerSettingsPlugin key c wrapBody reg = AList.update key (c, case wrapBody of Some b \<Rightarrow> b | None \<Rightarrow> True) reg"

definition lookupSettingsPlugin :: "string \<Rightarrow> (string \<times> 'c \<times> bool) list \<Rightarrow> ('c \<times> bool) option" where
  "lookupSettingsPlugin key reg = map_of reg key"

section \<open>The loader\<close>

record manifest_entry =
  me_url :: string
  me_pluginId :: "string option"

definition nav_updates :: "'c \<Rightarrow> 'c remote_plugin \<Rightarrow> 'c option jsobj" where
  \<comment> \<open>\<open>never\<close> is \<open>() => false\<close>\<close>
  "nav_updates never p = (let get = obj_get (rp_props p) in
     [(''NavLabel'', get ''NavLabel''), (''getRowProps'', get ''getRowProps''), (''ChildRow'', get ''ChildRow''),
      (''hasItemChildren'', option_or (get ''hasItemChildren'') (Some never)), (''fetchChildren'', get ''fetchChildren''),
      (''LinkRow'', get ''LinkRow'')])"

definition set_sources :: "'c registries \<Rightarrow> 'c source_plugin list option \<Rightarrow> 'c registries option" where
  "set_sources r ps = map_option (\<lambda>ps. r\<lparr>sourcePlugins := ps\<rparr>) ps"

definition bridge_nav :: "'c \<Rightarrow> 'c remote_plugin \<Rightarrow> 'c registries \<Rightarrow> 'c registries option" where
  \<comment> \<open>the part of the loader for navigation plugins; None where \<open>registerSourcePlugin\<close> throws\<close>
  "bridge_nav never p r = (case rp_match p of
       None \<Rightarrow> Some r
     | Some (sc, ic) \<Rightarrow>
         if rp_zone p \<noteq> ''nav'' then Some r
         else Option.bind (set_sources r (updateSourcePlugin sc ic (nav_updates never p) (sourcePlugins r))) (\<lambda>r1.
           let r2 = (case obj_get (rp_props p) ''SearchItem'' of Some c \<Rightarrow> registerSearchItemPlugin sc ic c r1 | None \<Rightarrow> r1)
           in case (rp_linkSources p, obj_get (rp_props p) ''LinkRow'') of
                (Some scs, Some row) \<Rightarrow> fold (\<lambda>s r. Option.bind r (\<lambda>r. set_sources r
                    (updateSourcePlugin s None [(''LinkRow'', Some row)] (sourcePlugins r)))) scs (Some r2)
              | _ \<Rightarrow> Some r2))"

definition load_entry :: "'c \<Rightarrow> ('c remote_plugin \<Rightarrow> 'c registries \<Rightarrow> string option \<times> 'c registries) \<Rightarrow> manifest_entry \<Rightarrow>
  string + 'c remote_plugin \<Rightarrow> 'c registries \<Rightarrow> string option \<times> 'c registries" where
  \<comment> \<open>one entry once its import is over; the reason when it is rejected. \<open>init\<close> is the plugin's own code: what
    it throws and what it registers\<close>
  "load_entry never init e imported r = (case imported of
       Inl reason \<Rightarrow> (Some reason, r)
     | Inr p \<Rightarrow>
         if \<not> given (rp_id p) then (Some (''Plugin at '' @ me_url e @ '' has no id''), r)
         else (case init p r of
           (Some reason, r0) \<Rightarrow> (Some reason, r0)
         | (None, r0) \<Rightarrow> let r1 = registerPlugin p r0 in
             case bridge_nav never p r1 of
               Some r2 \<Rightarrow> (None, r2)
             | None \<Rightarrow> (Some ''Plugin requires match.serviceCode'', r1)))"

definition error_text :: "manifest_entry \<Rightarrow> string option \<Rightarrow> string option" where
  "error_text e reason = map_option (\<lambda>m. (case me_pluginId e of Some i \<Rightarrow> i | None \<Rightarrow> me_url e) @ '': '' @ m) reason"

definition loadRemotePlugins :: "'c \<Rightarrow> ('c remote_plugin \<Rightarrow> 'c registries \<Rightarrow> string option \<times> 'c registries) \<Rightarrow>
  (manifest_entry \<times> (string + 'c remote_plugin)) list \<Rightarrow> nat list \<Rightarrow> 'c registries \<Rightarrow> string list \<times> 'c registries" where
  \<comment> \<open>\<open>order\<close>: the positions of the entries in the order in which their imports end; the error texts are those
    of the manifest's order\<close>
  "loadRemotePlugins never init es order r =
     (case fold (\<lambda>i (reasons, r). case load_entry never init (fst (es ! i)) (snd (es ! i)) r of
          (reason, r') \<Rightarrow> (reasons[i := reason], r')) order (replicate (length es) None, r) of
        (reasons, r') \<Rightarrow> (List.map_filter (\<lambda>(e, reason). error_text e reason) (zip (map fst es) reasons), r'))"

definition registerStatusPlugin :: "'c \<Rightarrow> 'c list \<Rightarrow> 'c list" where
  "registerStatusPlugin p ps = ps @ [p]"

definition getStatusPlugins :: "'c list \<Rightarrow> 'c list" where
  "getStatusPlugins ps = ps"

section \<open>Facts: the most specific plugin wins\<close>

lemma sort_key_stable': "filter (\<lambda>x. k = f x) (sort_key f xs) = filter (\<lambda>x. k = f x) xs"
  using sort_key_stable [of f k xs] by (simp add: eq_commute)

lemma sort_key_resort: "sort_key f (sort_key f xs @ [x]) = sort_key f (xs @ [x])"
  by (rule properties_for_sort_key) (auto simp: sort_key_stable')

lemma registered_sorted:
  "\<forall>(m, props) \<in> set regs. m_serviceCode m \<noteq> [] \<Longrightarrow>
   fold (\<lambda>(m, props) ps. Option.bind ps (registerSourcePlugin m props)) regs (Some []) =
     Some (by_specificity (map (\<lambda>(m, props). \<lparr>pl_match = m, pl_specificity = specificity m, pl_props = props\<rparr>) regs))"
proof (induction regs rule: rev_induct)
  case (snoc e regs)
  then show ?case by (cases e) (simp add: registerSourcePlugin_def by_specificity_def sort_key_resort)
qed (simp add: by_specificity_def)

lemma find_filter: "find P xs = (if filter P xs = [] then None else Some (hd (filter P xs)))"
  by (induction xs) auto

lemma sort_key_empty: "sort_key f xs = [] \<longleftrightarrow> xs = []"
  by (metis length_0_conv length_sort)

lemma hd_sort_desc:
  assumes "xs \<noteq> []"
  shows "hd (sort_key (\<lambda>x. - int (s x)) xs) = hd (filter (\<lambda>x. s x = Max (s ` set xs)) xs)"
proof -
  let ?f = "\<lambda>x. - int (s x)"
  have "sort_key ?f xs \<noteq> []" using assms by (simp add: sort_key_empty)
  then obtain y ys where y: "sort_key ?f xs = y # ys" by (cases "sort_key ?f xs") auto
  have st: "set xs = set (y # ys)" by (metis set_sort y)
  have "sorted (map ?f (y # ys))" using sorted_sort_key [of ?f xs] y by simp
  then have "\<forall>z \<in> set xs. s z \<le> s y" unfolding st by auto
  then have mx: "Max (s ` set xs) = s y" using st by (intro Max_eqI) auto
  have "hd (filter (\<lambda>x. ?f x = ?f y) (sort_key ?f xs)) = y" by (simp add: y)
  moreover have "filter (\<lambda>x. ?f x = ?f y) (sort_key ?f xs) = filter (\<lambda>x. ?f x = ?f y) xs" by (rule sort_key_stable)
  ultimately have "hd (filter (\<lambda>x. ?f x = ?f y) xs) = y" by simp
  then show ?thesis by (simp add: y mx)
qed

definition most_specific :: "plugin_ref \<Rightarrow> 'c source_plugin list \<Rightarrow> 'c source_plugin option" where
  \<comment> \<open>reference: the first registered of the most specific plugins that match\<close>
  "most_specific r ps = (let ms = filter (matches r) ps in
     if ms = [] then None else Some (hd (filter (\<lambda>p. pl_specificity p = Max (pl_specificity ` set ms)) ms)))"

text \<open>C28. Whatever plugins are registered, in whatever order: a lookup finds the most specific one that
  matches, the first registered among equals, and the default plugin when none matches.\<close>

theorem lookup_most_specific:
  assumes "\<forall>(m, props) \<in> set regs. m_serviceCode m \<noteq> []"
    and "fold (\<lambda>(m, props) ps. Option.bind ps (registerSourcePlugin m props)) regs (Some []) = Some ps"
  shows "lookupPluginForTab dflt (Some r) ps = (case most_specific r
      (map (\<lambda>(m, props). \<lparr>pl_match = m, pl_specificity = specificity m, pl_props = props\<rparr>) regs) of Some p \<Rightarrow> p | None \<Rightarrow> dflt)
    \<and> lookupPluginForDescriptor dflt (Some r) ps = lookupPluginForTab dflt (Some r) ps"
proof -
  let ?all = "map (\<lambda>(m, props). \<lparr>pl_match = m, pl_specificity = specificity m, pl_props = props\<rparr>) regs"
  have ps: "ps = by_specificity ?all" using registered_sorted [OF assms(1)] assms(2) by simp
  have f: "filter (matches r) ps = sort_key (\<lambda>p. - int (pl_specificity p)) (filter (matches r) ?all)"
    unfolding ps by_specificity_def by (rule filter_sort)
  have "find (matches r) ps = most_specific r ?all"
  proof (cases "filter (matches r) ?all = []")
    case True
    then show ?thesis unfolding find_filter f most_specific_def Let_def by (simp only: sort_key_simps refl if_True)
  next
    case False
    then show ?thesis
      unfolding find_filter most_specific_def Let_def by (simp only: f sort_key_empty hd_sort_desc [OF False] if_False)
  qed
  then show ?thesis by (simp add: lookupPluginForTab_def lookupPluginForDescriptor_def)
qed

definition sample_plugins :: "(plugin_match \<times> nat option jsobj) list" where
  "sample_plugins = [(\<lparr>m_serviceCode = ''psm'', m_itemCode = None, m_itemKey = None\<rparr>, [(''LinkRow'', Some 1)]),
     (\<lparr>m_serviceCode = ''psm'', m_itemCode = Some ''part'', m_itemKey = None\<rparr>, [(''LinkRow'', Some 2)])]"

definition sample_default :: "nat source_plugin" where
  "sample_default = \<lparr>pl_match = \<lparr>m_serviceCode = ''*'', m_itemCode = None, m_itemKey = None\<rparr>, pl_specificity = 0, pl_props = []\<rparr>"

definition sample_ref :: plugin_ref where
  "sample_ref = \<lparr>ref_serviceCode = Some ''psm'', ref_itemCode = Some ''part'', ref_itemKey = None\<rparr>"

theorem lookup_most_specific_witness:
  "\<exists>ps. fold (\<lambda>(m, props) ps. Option.bind ps (registerSourcePlugin m props)) sample_plugins (Some []) = Some ps
     \<and> prop_of ''LinkRow'' (lookupPluginForTab sample_default (Some sample_ref) ps) = Some 2"
proof -
  have ok: "\<forall>(m, props) \<in> set sample_plugins. m_serviceCode m \<noteq> []" by code_simp
  obtain ps where ps: "fold (\<lambda>(m, props) ps. Option.bind ps (registerSourcePlugin m props)) sample_plugins (Some []) = Some ps"
    using registered_sorted [OF ok] by blast
  have "case most_specific sample_ref (map (\<lambda>(m, props). \<lparr>pl_match = m, pl_specificity = specificity m, pl_props = props\<rparr>) sample_plugins)
     of Some p \<Rightarrow> prop_of ''LinkRow'' p = Some 2 | None \<Rightarrow> False" by code_simp
  with lookup_most_specific [OF ok ps, of sample_default sample_ref] ps show ?thesis by (auto split: option.splits)
qed

text \<open>An update for a whole service changes the most specific plugin of that service instead: the first in
  the list, whatever its item. The items of the service that have no plugin of their own still get
  the default one.\<close>

theorem service_update_hits_item:
  "\<exists>ps. updateSourcePlugin ''psm'' None [(''NavLabel'', Some 7)] [\<lparr>pl_match = \<lparr>m_serviceCode = ''psm'', m_itemCode = Some ''part'', m_itemKey = None\<rparr>,
      pl_specificity = 3, pl_props = [(''NavLabel'', Some (2 :: nat))]\<rparr>] = Some ps
     \<and> prop_of ''NavLabel'' (lookupPluginForTab sample_default (Some sample_ref) ps) = Some 7
     \<and> lookupPluginForTab sample_default (Some (sample_ref\<lparr>ref_itemCode := Some ''doc''\<rparr>)) ps = sample_default"
proof -
  have "case updateSourcePlugin ''psm'' None [(''NavLabel'', Some 7)] [\<lparr>pl_match = \<lparr>m_serviceCode = ''psm'', m_itemCode = Some ''part'', m_itemKey = None\<rparr>,
      pl_specificity = 3, pl_props = [(''NavLabel'', Some (2 :: nat))]\<rparr>] of
    Some ps \<Rightarrow> prop_of ''NavLabel'' (lookupPluginForTab sample_default (Some sample_ref) ps) = Some 7
     \<and> lookupPluginForTab sample_default (Some (sample_ref\<lparr>ref_itemCode := Some ''doc''\<rparr>)) ps = sample_default
    | None \<Rightarrow> False" by code_simp
  then show ?thesis by (rule case_Some_ex)
qed

end
