(* ===== verification/ShellState.thy ===== *)
theory ShellState
  imports JsValue
begin

text \<open>
  The rest of the browser shell's state: the event bus \<open>shell/EventBus.js\<close>, the panel store
  \<open>shell/shellStore.js\<close>, the neutral item identities of \<open>shell/navTypes.js\<close>, the descriptor cache
  \<open>services/itemTypeCache.js\<close> and the drag payload \<open>services/dragState.js\<close>. A handler is a number, a
  component an opaque value; calling handlers is returning them in the order of the calls.
\<close>

section \<open>Event bus\<close>

record pattern_entry =
  pe_id :: nat
  pe_glob :: "string list"
  pe_handler :: nat

record bus =
  exact :: "nat list jsobj"
  patterns :: "pattern_entry list"
  pattern_ids :: nat

definition matchGlob :: "string list \<Rightarrow> string list \<Rightarrow> bool" where
  "matchGlob typeSegs globSegs \<longleftrightarrow> length typeSegs = length globSegs
     \<and> list_all2 (\<lambda>g t. g = ''*'' \<or> g = t) globSegs typeSegs"

definition emit :: "json \<Rightarrow> bus \<Rightarrow> nat list" where
  \<comment> \<open>the handlers called for an event; \<open>type\<close> is a string\<close>
  "emit event b = (let type = jprop (Some event) ''type'' in
     if \<not> truthy type then []
     else (let t = opt_string type in
       or_nil (obj_get (exact b) t)
         @ map pe_handler (filter (\<lambda>p. matchGlob (split_on (CHR '':'') t) (pe_glob p)) (patterns b))))"

definition bus_on :: "string \<Rightarrow> nat \<Rightarrow> bus \<Rightarrow> bus" where
  "bus_on type h b = b\<lparr>exact := obj_push type h (exact b)\<rparr>"

definition bus_off :: "string \<Rightarrow> nat \<Rightarrow> bus \<Rightarrow> bus" where
  "bus_off type h b = b\<lparr>exact := obj_put type (filter (\<lambda>f. f \<noteq> h) (or_nil (obj_get (exact b) type))) (exact b)\<rparr>"

definition onPattern :: "string \<Rightarrow> nat \<Rightarrow> bus \<Rightarrow> nat \<times> bus" where
  "onPattern glob h b = (pattern_ids b,
     b\<lparr>patterns := patterns b @ [\<lparr>pe_id = pattern_ids b, pe_glob = split_on (CHR '':'') glob, pe_handler = h\<rparr>],
       pattern_ids := pattern_ids b + 1\<rparr>)"

definition off_pattern :: "nat \<Rightarrow> bus \<Rightarrow> bus" where
  \<comment> \<open>the function \<open>onPattern\<close> returns\<close>
  "off_pattern i b = b\<lparr>patterns := filter (\<lambda>p. pe_id p \<noteq> i) (patterns b)\<rparr>"

definition shell_emit :: "json \<Rightarrow> json \<Rightarrow> bus \<Rightarrow> nat list" where
  \<comment> \<open>\<open>shellAPI.emit(event, payload)\<close>\<close>
  "shell_emit event payload b = emit event b"

section \<open>Panels\<close>

record 'c panel_tab =
  pt_id :: string
  pt_label :: string
  pt_component :: 'c

record 'c status_slot =
  ss_id :: string
  ss_component :: 'c
  ss_position :: string

datatype job_state = Running | JobFinished | JobFailed | OtherState string

record 'c bg_job =
  bj_id :: string
  bj_label :: string
  bj_status :: job_state
  bj_onOpen :: 'c

record log_line =
  ll_level :: string
  ll_message :: string
  ll_ts :: nat

record 'c shell_store =
  showCollab :: bool
  collabWidth :: int
  collabVersionFilter :: "string option"
  collabTriggerText :: "string option"
  collabTabs :: "'c panel_tab list"
  consoleVisible :: bool
  consoleHeight :: int
  consoleTabs :: "'c panel_tab list"
  consoleLog :: "log_line list"
  statusSlots :: "'c status_slot list"
  bgJobs :: "'c bg_job list"
  wsListeners :: "nat list"

definition new_shell_store :: "'c shell_store" where
  "new_shell_store = \<lparr>showCollab = False, collabWidth = 320, collabVersionFilter = None, collabTriggerText = None, collabTabs = [],
     consoleVisible = False, consoleHeight = 220, consoleTabs = [], consoleLog = [], statusSlots = [], bgJobs = [], wsListeners = []\<rparr>"

definition add_tab :: "'c panel_tab \<Rightarrow> 'c panel_tab list \<Rightarrow> 'c panel_tab list" where
  "add_tab t ts = (if \<exists>u \<in> set ts. pt_id u = pt_id t then ts else ts @ [t])"

definition toggleCollab :: "'c shell_store \<Rightarrow> 'c shell_store" where "toggleCollab s = s\<lparr>showCollab := \<not> showCollab s\<rparr>"
definition openCollab :: "'c shell_store \<Rightarrow> 'c shell_store" where "openCollab s = s\<lparr>showCollab := True\<rparr>"
definition closeCollab :: "'c shell_store \<Rightarrow> 'c shell_store" where "closeCollab s = s\<lparr>showCollab := False\<rparr>"
definition setCollabWidth :: "int \<Rightarrow> 'c shell_store \<Rightarrow> 'c shell_store" where "setCollabWidth w s = s\<lparr>collabWidth := w\<rparr>"
definition setVersionFilter :: "string option \<Rightarrow> 'c shell_store \<Rightarrow> 'c shell_store" where "setVersionFilter v s = s\<lparr>collabVersionFilter := v\<rparr>"
definition setTriggerText :: "string option \<Rightarrow> 'c shell_store \<Rightarrow> 'c shell_store" where "setTriggerText t s = s\<lparr>collabTriggerText := t\<rparr>"
definition clearTriggerText :: "'c shell_store \<Rightarrow> 'c shell_store" where "clearTriggerText s = s\<lparr>collabTriggerText := None\<rparr>"

definition addCollabTab :: "'c panel_tab \<Rightarrow> 'c shell_store \<Rightarrow> 'c shell_store" where
  "addCollabTab t s = s\<lparr>collabTabs := add_tab t (collabTabs s)\<rparr>"

definition removeCollabTab :: "string \<Rightarrow> 'c shell_store \<Rightarrow> 'c shell_store" where
  "removeCollabTab i s = s\<lparr>collabTabs := filter (\<lambda>t. pt_id t \<noteq> i) (collabTabs s)\<rparr>"

definition toggleConsole :: "'c shell_store \<Rightarrow> 'c shell_store" where "toggleConsole s = s\<lparr>consoleVisible := \<not> consoleVisible s\<rparr>"
definition openConsole :: "'c shell_store \<Rightarrow> 'c shell_store" where "openConsole s = s\<lparr>consoleVisible := True\<rparr>"
definition setConsoleHeight :: "int \<Rightarrow> 'c shell_store \<Rightarrow> 'c shell_store" where "setConsoleHeight h s = s\<lparr>consoleHeight := h\<rparr>"

definition addConsoleTab :: "'c panel_tab \<Rightarrow> 'c shell_store \<Rightarrow> 'c shell_store" where
  "addConsoleTab t s = s\<lparr>consoleTabs := add_tab t (consoleTabs s)\<rparr>"

definition removeConsoleTab :: "string \<Rightarrow> 'c shell_store \<Rightarrow> 'c shell_store" where
  "removeConsoleTab i s = s\<lparr>consoleTabs := filter (\<lambda>t. pt_id t \<noteq> i) (consoleTabs s)\<rparr>"

definition last_n :: "nat \<Rightarrow> 'a list \<Rightarrow> 'a list" where
  \<comment> \<open>\<open>xs.slice(-n)\<close> for \<open>0 < n\<close>\<close>
  "last_n n xs = drop (length xs - n) xs"

definition appendLog :: "log_line \<Rightarrow> 'c shell_store \<Rightarrow> 'c shell_store" where
  "appendLog l s = s\<lparr>consoleLog := last_n 500 (consoleLog s) @ [l]\<rparr>"

definition registerStatus :: "'c status_slot \<Rightarrow> 'c shell_store \<Rightarrow> 'c shell_store" where
  "registerStatus slot s = s\<lparr>statusSlots :=
     (if \<exists>u \<in> set (statusSlots s). ss_id u = ss_id slot then map (\<lambda>u. if ss_id u = ss_id slot then slot else u) (statusSlots s)
      else statusSlots s @ [slot])\<rparr>"

definition unregisterStatus :: "string \<Rightarrow> 'c shell_store \<Rightarrow> 'c shell_store" where
  "unregisterStatus i s = s\<lparr>statusSlots := filter (\<lambda>u. ss_id u \<noteq> i) (statusSlots s)\<rparr>"

definition registerBgJob :: "string \<Rightarrow> string \<Rightarrow> 'c \<Rightarrow> 'c shell_store \<Rightarrow> 'c shell_store" where
  "registerBgJob i label onOpen s = s\<lparr>bgJobs :=
     (if \<exists>j \<in> set (bgJobs s). bj_id j = i then map (\<lambda>j. if bj_id j = i then j\<lparr>bj_label := label, bj_onOpen := onOpen\<rparr> else j) (bgJobs s)
      else bgJobs s @ [\<lparr>bj_id = i, bj_label = label, bj_status = Running, bj_onOpen = onOpen\<rparr>])\<rparr>"

definition updateBgJob :: "string \<Rightarrow> job_state \<Rightarrow> 'c shell_store \<Rightarrow> 'c shell_store" where
  "updateBgJob i st s = s\<lparr>bgJobs := map (\<lambda>j. if bj_id j = i then j\<lparr>bj_status := st\<rparr> else j) (bgJobs s)\<rparr>"

definition removeBgJob :: "string \<Rightarrow> 'c shell_store \<Rightarrow> 'c shell_store" where
  "removeBgJob i s = s\<lparr>bgJobs := filter (\<lambda>j. bj_id j \<noteq> i) (bgJobs s)\<rparr>"

definition fireWsEvent :: "'c shell_store \<Rightarrow> nat list" where
  \<comment> \<open>the listeners called, in the order of their subscription\<close>
  "fireWsEvent s = wsListeners s"

definition subscribeWsEvent :: "nat \<Rightarrow> 'c shell_store \<Rightarrow> 'c shell_store" where
  "subscribeWsEvent fn s = s\<lparr>wsListeners := js_add fn (wsListeners s)\<rparr>"

definition unsubscribeWsEvent :: "nat \<Rightarrow> 'c shell_store \<Rightarrow> 'c shell_store" where
  "unsubscribeWsEvent fn s = s\<lparr>wsListeners := js_delete fn (wsListeners s)\<rparr>"

section \<open>Item identities\<close>

record nav_item_ref =
  nr_source :: json
  nr_type :: json
  nr_key :: json

definition or_empty :: "json option \<Rightarrow> json" where
  \<comment> \<open>\<open>v || ''\<close>\<close>
  "or_empty v = (if truthy v then the v else JStr [])"

definition tabToNavItemRef :: "json option \<Rightarrow> nav_item_ref option" where
  "tabToNavItemRef tab = (if \<not> truthy tab \<or> jprop tab ''id'' = Some (JStr ''dashboard'') \<or> \<not> truthy (jprop tab ''nodeId'') then None
     else Some \<lparr>nr_source = or_empty (jprop tab ''serviceCode''), nr_type = or_empty (jprop tab ''itemCode''),
       nr_key = the (jprop tab ''nodeId'')\<rparr>)"

definition makeNavItemKey :: "nav_item_ref \<Rightarrow> string" where
  "makeNavItemKey r = js_string (nr_source r) @ '':'' @ js_string (nr_type r) @ '':'' @ js_string (nr_key r)"

definition makeDescriptorKey :: "string \<Rightarrow> string \<Rightarrow> string" where
  "makeDescriptorKey source type = source @ '':'' @ type"

definition descriptorKey :: "json \<Rightarrow> string" where
  "descriptorKey d = opt_string (jprop (Some d) ''serviceCode'') @ '':'' @ js_string (or_empty (jprop (Some d) ''itemCode''))"

definition descriptorMatchesRef :: "json \<Rightarrow> nav_item_ref \<Rightarrow> bool" where
  "descriptorMatchesRef d r \<longleftrightarrow> jprop (Some d) ''serviceCode'' = Some (nr_source r) \<and> jprop (Some d) ''itemCode'' = Some (nr_type r)"

definition put_defined :: "string \<Rightarrow> json option \<Rightarrow> json jsobj \<Rightarrow> json jsobj" where
  \<comment> \<open>\<open>o[k] = v\<close>; a property that is \<open>undefined\<close> is not kept apart from one that is not there\<close>
  "put_defined k v ob = (case v of Some x \<Rightarrow> obj_put k x ob | None \<Rightarrow> AList.delete k ob)"

definition put_field :: "json \<Rightarrow> json jsobj \<Rightarrow> json jsobj" where
  "put_field f ob = put_defined (opt_string (jprop (Some f) ''name'')) (jprop (Some f) ''value'') ob"

definition system_fields :: "json option \<Rightarrow> (string \<times> json option) list" where
  "system_fields m = [(''logical_id'', jprop m ''logicalId''), (''revision'', jprop m ''revision''), (''iteration'', jprop m ''iteration''),
     (''lifecycle_state_id'', jprop m ''state''), (''tx_status'', jprop m ''txStatus''),
     (''locked_by'', js_or (jprop (jprop m ''lock'') ''lockedBy'') (Some JNull)), (''node_type_id'', jprop m ''nodeTypeId''),
     (''display_name'', jprop m ''displayName'')]"

definition detailToItem :: "json option \<Rightarrow> json jsobj option" where
  \<comment> \<open>None is \<open>null\<close>; \<open>values\<close> and \<open>fields\<close> are lists of objects\<close>
  "detailToItem detail = (if \<not> truthy detail then None
     else (let it = jprop detail ''itemType'';
               base = put_defined ''_title'' (jprop detail ''title'') (put_defined ''id'' (jprop detail ''id'') []);
               typed = (if truthy it
                 then put_defined ''_itemKey'' (js_coalesce (jprop it ''itemKey'') (Some JNull))
                        (put_defined ''_itemCode'' (jprop it ''itemCode'') (put_defined ''_serviceCode'' (jprop it ''serviceCode'') base))
                 else base);
               fs = (case js_coalesce (js_coalesce (jprop detail ''values'') (jprop detail ''fields'')) (Some (JArr [])) of
                       Some (JArr vs) \<Rightarrow> vs | _ \<Rightarrow> []);
               full = fold put_field fs typed;
               m = jprop detail ''metadata''
           in Some (if truthy m
                then fold (\<lambda>(k, v) ob. if v \<noteq> None \<and> obj_get ob k = None then obj_put k (the v) ob else ob) (system_fields m) full
                else full)))"

section \<open>Descriptor cache\<close>

record item_type =
  it_serviceCode :: string
  it_itemCode :: string
  it_itemKey :: "string option"

type_synonym type_cache = "(string \<times> json) list"

definition cacheKey :: "item_type \<Rightarrow> string" where
  "cacheKey t = it_serviceCode t @ '':'' @ it_itemCode t @ '':'' @ (case it_itemKey t of Some k \<Rightarrow> k | None \<Rightarrow> [])"

definition typeUrl :: "item_type \<Rightarrow> string" where
  "typeUrl t = ''/api/'' @ it_serviceCode t @ ''/item-type/'' @ encodeURIComponent (case it_itemKey t of Some k \<Rightarrow> k | None \<Rightarrow> it_itemCode t)"

datatype lookup = Answer "json option" | Ask string          \<comment> \<open>a value, or a request to send first\<close>

definition getItemTypeDescriptor :: "item_type option \<Rightarrow> type_cache \<Rightarrow> lookup" where
  "getItemTypeDescriptor t cache = (case t of
       None \<Rightarrow> Answer None
     | Some t \<Rightarrow> if it_serviceCode t = [] then Answer None
         else (case map_of cache (cacheKey t) of Some d \<Rightarrow> Answer (Some d) | None \<Rightarrow> Ask (typeUrl t)))"

definition descriptor_arrived :: "item_type \<Rightarrow> json option \<Rightarrow> type_cache \<Rightarrow> json option \<times> type_cache" where
  \<comment> \<open>the rest of \<open>getItemTypeDescriptor\<close>; None: the request failed\<close>
  "descriptor_arrived t answer cache = (case answer of
       Some d \<Rightarrow> (Some d, AList.update (cacheKey t) d cache) | None \<Rightarrow> (None, cache))"

definition invalidateItemTypeCache :: "item_type option \<Rightarrow> type_cache \<Rightarrow> type_cache" where
  "invalidateItemTypeCache t cache = (case t of Some t \<Rightarrow> AList.delete (cacheKey t) cache | None \<Rightarrow> cache)"

definition clearItemTypeCache :: "type_cache \<Rightarrow> type_cache" where
  "clearItemTypeCache cache = []"

section \<open>Drag state\<close>

definition setDraggedNode :: "json \<Rightarrow> json option \<Rightarrow> json option" where "setDraggedNode data d = Some data"
definition clearDraggedNode :: "json option \<Rightarrow> json option" where "clearDraggedNode d = None"
definition getDraggedNode :: "json option \<Rightarrow> json option" where "getDraggedNode d = d"

section \<open>Facts\<close>

lemma obj_get_single: "obj_get [(k, v)] k = Some v"
  by (simp add: obj_get_def)

lemma emit_after_on: "t \<noteq> [] \<Longrightarrow> h \<in> set (emit (JObj [(''type'', JStr t)]) (bus_on t h b))"
  by (simp add: emit_def bus_on_def obj_get_single obj_get_push opt_string_def)

lemma emit_after_off:
  assumes "\<forall>p \<in> set (patterns b). pe_handler p \<noteq> h" "jprop (Some e) ''type'' = Some (JStr t)"
  shows "h \<notin> set (emit e (bus_off t h b))"
  using assms by (auto simp: emit_def bus_off_def Let_def opt_string_def)

text \<open>The shell gives plugins \<open>emit(event, payload)\<close>, but the bus takes one object with a \<open>type\<close>: an event
  named by a string reaches no handler.\<close>

theorem plugin_emit_reaches_nobody: "shell_emit (JStr name) payload b = []"
  by (simp add: shell_emit_def emit_def)

lemma appendLog_bound: "length (consoleLog (appendLog l s)) \<le> 501"
  by (simp add: appendLog_def last_n_def)

lemma appendLog_last: "last (consoleLog (appendLog l s)) = l"
  by (simp add: appendLog_def)

lemma add_tab_distinct: "distinct (map pt_id ts) \<Longrightarrow> distinct (map pt_id (add_tab t ts))"
  by (auto simp: add_tab_def)

text \<open>The descriptor cache answers what it was given: after an answer has arrived, the same type is served
  without a request, until it is invalidated or the cache is cleared. An answer that was under way
  when the cache was cleared is stored all the same.\<close>

lemma cache_serves:
  assumes "it_serviceCode t \<noteq> []"
  shows "getItemTypeDescriptor (Some t) (snd (descriptor_arrived t (Some d) cache)) = Answer (Some d)"
    "getItemTypeDescriptor (Some t) (invalidateItemTypeCache (Some t) cache) = Ask (typeUrl t)"
    "getItemTypeDescriptor (Some t) (clearItemTypeCache cache) = Ask (typeUrl t)"
  using assms by (auto simp: getItemTypeDescriptor_def descriptor_arrived_def invalidateItemTypeCache_def clearItemTypeCache_def
      update_conv' map_of_delete delete_conv')

theorem late_descriptor_survives_clear:
  assumes "it_serviceCode t \<noteq> []"
  shows "getItemTypeDescriptor (Some t) (snd (descriptor_arrived t (Some old) (clearItemTypeCache cache))) = Answer (Some old)"
  by (rule cache_serves [OF assms])

end
