(* ===== verification/NavTree.thy ===== *)
theory NavTree
  imports AppShell ShellState
begin

text \<open>
  The navigation panel of the browser shell: \<open>components/NavPanel.jsx\<close> with \<open>NavSection.jsx\<close> and
  \<open>NavShell.jsx\<close>, the older \<open>BrowseNav.jsx\<close> that still lists the information band, and the link row of
  the PSM plugin, \<open>psm-api/ui/src/nav.jsx\<close>, which both trees render. What a component shows is a
  function of its state; a click and the arrival of an answer are operations. Descriptors are the
  JSON objects of the store's \<open>items\<close>; their priorities are integers.
\<close>

section \<open>Descriptors by source\<close>

definition panel_of :: "json \<Rightarrow> string" where
  "panel_of d = toUpperCase (opt_string (js_or (jprop (Some d) ''panelSection'') (Some (JStr ''MAIN''))))"

definition browse_descriptors :: "string option \<Rightarrow> json list \<Rightarrow> json list" where
  \<comment> \<open>\<open>descriptors\<close> of BrowseNav\<close>
  "browse_descriptors panelSection ds =
     (let want = toUpperCase (case panelSection of Some p \<Rightarrow> if p \<noteq> [] then p else ''MAIN'' | None \<Rightarrow> ''MAIN'')
      in filter (\<lambda>d. truthy (jprop (Some d) ''list'') \<and> panel_of d = want) ds)"

definition has_imports :: "json \<Rightarrow> bool" where
  "has_imports d = (case jprop (Some d) ''importActions'' of Some (JArr (_ # _)) \<Rightarrow> True | _ \<Rightarrow> False)"

definition nav_descriptors :: "json list \<Rightarrow> json list" where
  \<comment> \<open>\<open>descriptors\<close> of NavPanel\<close>
  "nav_descriptors ds = filter (\<lambda>d. panel_of d = ''MAIN''
     \<and> (truthy (jprop (Some d) ''list'') \<or> truthy (jprop (Some d) ''create'') \<or> has_imports d)) ds"

definition source_code :: "json \<Rightarrow> string" where
  "source_code d = opt_string (js_or (jprop (Some d) ''serviceCode'') (Some (JStr ''_unknown'')))"

definition priority :: "json \<Rightarrow> int" where
  \<comment> \<open>\<open>d.priority ?? 100\<close>\<close>
  "priority d = (case js_coalesce (jprop (Some d) ''priority'') (Some (JNum 100)) of Some (JNum n) \<Rightarrow> n | _ \<Rightarrow> 100)"

record source_group =
  sg_serviceCode :: string
  sg_label :: string
  sg_maxPriority :: int
  sg_descriptors :: "json list"

definition source_group_of :: "string \<times> json list \<Rightarrow> source_group" where
  "source_group_of e = (case e of (code, ds) \<Rightarrow>
     let ordered = sort_key (\<lambda>d. - priority d) ds
     in \<lparr>sg_serviceCode = code, sg_label = opt_string (js_or (jprop (Some (hd ordered)) ''sourceLabel'') (Some (JStr code))),
         sg_maxPriority = fold (\<lambda>d m. max m (priority d)) ordered 0, sg_descriptors = ordered\<rparr>)"

definition groupedSources :: "json list \<Rightarrow> source_group list" where
  "groupedSources ds = sort_key (\<lambda>g. - sg_maxPriority g) (map source_group_of (fold (group_add source_code) ds []))"

section \<open>Sections of the panel\<close>

record section_items =
  openIds :: "json list"
  pinnedIds :: "json list"

definition items_at :: "string \<Rightarrow> section_items jsobj \<Rightarrow> section_items" where
  "items_at k m = (case obj_get m k of Some e \<Rightarrow> e | None \<Rightarrow> \<lparr>openIds = [], pinnedIds = []\<rparr>)"

definition index_open :: "json list \<Rightarrow> nav_item_ref \<Rightarrow> section_items jsobj \<Rightarrow> section_items jsobj" where
  "index_open ds r m = (case find (\<lambda>d. descriptorMatchesRef d r) ds of
       None \<Rightarrow> m
     | Some d \<Rightarrow> (let k = descriptorKey d; e = items_at k m in obj_put k (e\<lparr>openIds := js_add (nr_key r) (openIds e)\<rparr>) m))"

definition index_pinned :: "json list \<Rightarrow> string \<times> string list \<Rightarrow> section_items jsobj \<Rightarrow> section_items jsobj" where
  "index_pinned ds entry m = (case entry of (basketKey, ids) \<Rightarrow> let (source, typeCode) = key_parts basketKey in
     (case find (\<lambda>d. jprop (Some d) ''serviceCode'' = Some (JStr source) \<and> jprop (Some d) ''itemCode'' = Some (JStr typeCode)) ds of
        None \<Rightarrow> m
      | Some d \<Rightarrow> (let k = descriptorKey d; e = items_at k m in obj_put k (e\<lparr>pinnedIds := fold js_add (map JStr ids) (pinnedIds e)\<rparr>) m)))"

definition itemsByDescriptor :: "json list \<Rightarrow> nav_item_ref list \<Rightarrow> string list jsobj \<Rightarrow> section_items jsobj" where
  "itemsByDescriptor ds refs basket = fold (index_pinned ds) (obj_entries basket) (fold (index_open ds) refs [])"

record nav_entry =
  ne_id :: json
  ne_isPinned :: bool
  ne_isOpen :: bool

definition allItems :: "json list \<Rightarrow> json list \<Rightarrow> nav_entry list" where
  \<comment> \<open>NavSection: two loops over the set \<open>seen\<close> and the list \<open>result\<close>\<close>
  "allItems openItemIds pinnedItemIds = snd
     (fold (\<lambda>i (seen, res). if i \<in> seen then (seen, res) else (insert i seen, res @ [\<lparr>ne_id = i, ne_isPinned = False, ne_isOpen = True\<rparr>]))
        openItemIds
       (fold (\<lambda>i (seen, res). if i \<in> seen then (seen, res)
            else (insert i seen, res @ [\<lparr>ne_id = i, ne_isPinned = True, ne_isOpen = i \<in> set openItemIds\<rparr>]))
          pinnedItemIds ({}, [])))"

definition tab_ref :: "tab \<Rightarrow> nav_item_ref option" where
  \<comment> \<open>\<open>tabToNavItemRef\<close> on a tab of the shell\<close>
  "tab_ref t = (case tab_nodeId t of
       None \<Rightarrow> None
     | Some n \<Rightarrow> if n = [] \<or> tab_id t = ''dashboard'' then None
         else Some \<lparr>nr_source = or_empty (map_option ts_serviceCode (tab_source_of t)),
                    nr_type = or_empty (Option.bind (tab_source_of t) ts_itemCode), nr_key = JStr n\<rparr>)"

definition openItems :: "app \<Rightarrow> nav_item_ref list" where
  "openItems a = List.map_filter tab_ref (tabs a)"

definition nav_section :: "app \<Rightarrow> plm_store \<Rightarrow> json \<Rightarrow> nav_entry list" where
  \<comment> \<open>what the section of a descriptor shows\<close>
  "nav_section a s d = (let e = items_at (descriptorKey d)
       (itemsByDescriptor (nav_descriptors (items s)) (openItems a) (basketItems s))
     in allItems (openIds e) (pinnedIds e))"

section \<open>Rows below an item\<close>

record child_link =
  ch_link :: "string option"                  \<comment> \<open>\<open>linkId\<close>\<close>
  ch_target :: string                         \<comment> \<open>\<open>targetNodeId || id || ID\<close>\<close>

datatype cached = CacheLoading | CacheLinks "child_link list"

record item_tree =
  it_expanded :: bool
  childCache :: "(string \<times> cached) list"
  expandedPaths :: "string list"

datatype row = Row (row_path: string) (row_link: child_link) (row_depth: nat) (row_cycle: bool) (row_children: "row list")

definition MAX_LINK_DEPTH :: nat where "MAX_LINK_DEPTH = 8"

definition link_key :: "child_link \<Rightarrow> string" where
  \<comment> \<open>\<open>child.linkId || childId\<close>\<close>
  "link_key c = (case ch_link c of Some l \<Rightarrow> if l \<noteq> [] then l else ch_target c | None \<Rightarrow> ch_target c)"

function renderChildTree :: "(string \<times> cached) list \<Rightarrow> string list \<Rightarrow> string \<Rightarrow> string \<Rightarrow> nat \<Rightarrow> string list \<Rightarrow> row list" where
  \<comment> \<open>\<open>renderChildTree\<close> of NavShell and \<open>renderChildren\<close> of BrowseNav, for a plugin that has a \<open>ChildRow\<close>\<close>
  "renderChildTree cache expanded parentId parentPath dep ancestorIds =
     (if dep > MAX_LINK_DEPTH then []
      else (case map_of cache (if parentId = [] then parentPath else parentId) of
          Some (CacheLinks cs) \<Rightarrow> map (\<lambda>c.
            let childPath = parentPath @ ''/'' @ link_key c; isCycle = ch_target c \<in> set ancestorIds
            in Row childPath c dep isCycle
                 (if \<not> isCycle \<and> childPath \<in> set expanded
                  then renderChildTree cache expanded (ch_target c) childPath (dep + 1) (js_add (ch_target c) ancestorIds) else [])) cs
        | _ \<Rightarrow> []))"
  by pat_completeness auto
termination
  by (relation "measure (\<lambda>(_, _, _, _, dep, _). Suc MAX_LINK_DEPTH - dep)") auto

declare renderChildTree.simps [simp del]

definition item_rows :: "string \<Rightarrow> string \<Rightarrow> item_tree \<Rightarrow> row list" where
  \<comment> \<open>the rows NavShell shows below its item\<close>
  "item_rows itemId itemPath t = (if it_expanded t then renderChildTree (childCache t) (expandedPaths t) itemId itemPath 1 [itemId] else [])"

definition toggle_path :: "string \<Rightarrow> string list \<Rightarrow> string list" where
  "toggle_path p ps = (if p \<in> set ps then js_delete p ps else js_add p ps)"

definition load_children :: "bool \<Rightarrow> string \<Rightarrow> item_tree \<Rightarrow> item_tree" where
  \<comment> \<open>up to the \<open>await\<close> of \<open>fetchChildren\<close>; \<open>fetches\<close>: the plugin has it\<close>
  "load_children fetches nid t = (if map_of (childCache t) nid \<noteq> None then t
     else t\<lparr>childCache := AList.update nid (if fetches then CacheLoading else CacheLinks []) (childCache t)\<rparr>)"

definition toggleExpand :: "bool \<Rightarrow> string \<Rightarrow> item_tree \<Rightarrow> item_tree" where
  "toggleExpand fetches itemId t = (let t1 = t\<lparr>it_expanded := \<not> it_expanded t\<rparr> in
     if it_expanded t1 then load_children fetches itemId t1 else t1)"

definition toggleNodeChildren :: "bool \<Rightarrow> string \<Rightarrow> string \<Rightarrow> item_tree \<Rightarrow> item_tree" where
  "toggleNodeChildren fetches pathKey nid t = load_children fetches nid (t\<lparr>expandedPaths := toggle_path pathKey (expandedPaths t)\<rparr>)"

definition children_arrived :: "string \<Rightarrow> child_link list option \<Rightarrow> item_tree \<Rightarrow> item_tree" where
  \<comment> \<open>the answer of \<open>fetchChildren\<close>; None where it throws or gives no array\<close>
  "children_arrived nid answer t = t\<lparr>childCache := AList.update nid (CacheLinks (or_nil answer)) (childCache t)\<rparr>"

definition row_toggle :: "bool \<Rightarrow> row \<Rightarrow> item_tree \<Rightarrow> item_tree" where
  \<comment> \<open>the chevron of \<open>PsmLinkRowRemote\<close>, which gets the path of its own row as \<open>parentPath\<close>\<close>
  "row_toggle fetches r t = (if row_cycle r then t
     else toggleNodeChildren fetches (row_path r @ ''/'' @ (case ch_link (row_link r) of Some l \<Rightarrow> l | None \<Rightarrow> ''undefined''))
       (ch_target (row_link r)) t)"

section \<open>Pages of a descriptor\<close>

record 'i browse_page =
  bp_items :: "'i list"
  bp_page :: nat
  bp_totalPages :: nat

record 'i browse =
  bw_pages :: "(string \<times> 'i browse_page) list"
  loadingItems :: "(string \<times> bool) list"
  expandedDescriptors :: "string list"

definition is_loading :: "string \<Rightarrow> 'i browse \<Rightarrow> bool" where
  "is_loading k b \<longleftrightarrow> map_of (loadingItems b) k = Some True"

definition loadDescriptorPage :: "string \<Rightarrow> 'i browse \<Rightarrow> 'i browse" where
  \<comment> \<open>up to the request for a page\<close>
  "loadDescriptorPage k b = b\<lparr>loadingItems := AList.update k True (loadingItems b)\<rparr>"

definition page_arrived :: "string \<Rightarrow> nat \<Rightarrow> 'i browse_page option \<Rightarrow> 'i browse \<Rightarrow> 'i browse" where
  \<comment> \<open>the answer to the request for page \<open>n\<close>; None when it failed\<close>
  "page_arrived k n res b =
     (let p = (case res of
            None \<Rightarrow> \<lparr>bp_items = [], bp_page = 0, bp_totalPages = 0\<rparr>
          | Some r \<Rightarrow> (case map_of (bw_pages b) k of
                Some prev \<Rightarrow> if n = 0 then r else r\<lparr>bp_items := bp_items prev @ bp_items r\<rparr>
              | None \<Rightarrow> r))
      in b\<lparr>bw_pages := AList.update k p (bw_pages b), loadingItems := AList.update k False (loadingItems b)\<rparr>)"

definition toggleDescriptor :: "string \<Rightarrow> 'i browse \<Rightarrow> 'i browse \<times> nat option" where
  \<comment> \<open>and the page it requests\<close>
  "toggleDescriptor k b =
     (if k \<in> set (expandedDescriptors b) then (b\<lparr>expandedDescriptors := js_delete k (expandedDescriptors b)\<rparr>, None)
      else (let b1 = b\<lparr>expandedDescriptors := js_add k (expandedDescriptors b)\<rparr> in
        if map_of (bw_pages b) k = None \<and> \<not> is_loading k b then (loadDescriptorPage k b1, Some 0) else (b1, None)))"

definition loadMore :: "string \<Rightarrow> 'i browse \<Rightarrow> 'i browse \<times> nat option" where
  "loadMore k b = (case map_of (bw_pages b) k of
       None \<Rightarrow> (b, None)
     | Some cur \<Rightarrow> if is_loading k b \<or> bp_page cur + 1 \<ge> bp_totalPages cur then (b, None)
         else (loadDescriptorPage k b, Some (bp_page cur + 1)))"

section \<open>Facts: grouping\<close>

lemma source_group_sel:
  "sg_serviceCode (source_group_of (c, ds)) = c" "sg_descriptors (source_group_of (c, ds)) = sort_key (\<lambda>d. - priority d) ds"
  "sg_maxPriority (source_group_of (c, ds)) = fold (\<lambda>d m. max m (priority d)) (sort_key (\<lambda>d. - priority d) ds) 0"
  by (simp_all add: source_group_of_def Let_def)

lemma fold_max: "fold (\<lambda>d m. max m (f d)) xs (a :: int) = Max (insert a (f ` set xs))"
proof (induction xs arbitrary: a)
  case (Cons x xs)
  have "insert (max a (f x)) (f ` set xs) = insert (max a (f x)) (f ` set xs)" ..
  show ?case by (cases "f ` set xs = {}") (simp_all add: Cons.IH max.assoc del: image_is_empty)
qed simp

lemma sorted_desc: "sorted_wrt (\<lambda>x y. f y \<le> (f x :: int)) (sort_key (\<lambda>x. - f x) xs)"
proof -
  have "sorted (map (\<lambda>x. - f x) (sort_key (\<lambda>x. - f x) xs))" by (rule sorted_sort_key)
  then show ?thesis by (simp add: sorted_map)
qed

lemma mset_concat_cong: "mset xss = mset yss \<Longrightarrow> mset (concat xss) = mset (concat yss)"
  by (simp add: mset_concat flip: sum_mset_sum_list)

lemma mset_groups: "mset (concat (map (\<lambda>k. filter (\<lambda>x. key x = k) xs) (js_set_of (map key xs)))) = mset xs"
proof -
  have g: "mset (concat (map (\<lambda>k. filter (\<lambda>x. key x = k) ys) ks)) = mset (filter (\<lambda>x. key x \<in> set ks) ys)"
    if "distinct ks" for ks ys
    using that
  proof (induction ks)
    case (Cons k ks)
    have "mset (filter (\<lambda>x. key x = k) ys) + mset (filter (\<lambda>x. key x \<in> set ks) ys) = mset (filter (\<lambda>x. key x \<in> set (k # ks)) ys)"
      using Cons.prems by (induction ys) auto
    with Cons show ?case by simp
  qed simp
  have "filter (\<lambda>x. key x \<in> set (js_set_of (map key xs))) xs = xs" by (simp add: filter_id_conv)
  with g [of "js_set_of (map key xs)" xs] show ?thesis by simp
qed

text \<open>The panel lists every descriptor exactly once, under the source it belongs to: sources by
  their highest priority, the descriptors of a source by theirs, and what has the same priority in
  the order in which the platform gave it.\<close>

theorem groupedSources_sorted:
  "mset (concat (map sg_descriptors (groupedSources ds))) = mset ds
   \<and> distinct (map sg_serviceCode (groupedSources ds))
   \<and> sorted_wrt (\<lambda>g h. sg_maxPriority h \<le> sg_maxPriority g) (groupedSources ds)
   \<and> list_all (\<lambda>g. sg_descriptors g = sort_key (\<lambda>d. - priority d) (filter (\<lambda>d. source_code d = sg_serviceCode g) ds)
        \<and> sorted_wrt (\<lambda>d e. priority e \<le> priority d) (sg_descriptors g)
        \<and> sg_maxPriority g = Max (insert 0 (priority ` set (sg_descriptors g)))) (groupedSources ds)"
proof -
  let ?gs = "map source_group_of (map (\<lambda>k. (k, filter (\<lambda>d. source_code d = k) ds)) (js_set_of (map source_code ds)))"
  have gs: "groupedSources ds = sort_key (\<lambda>g. - sg_maxPriority g) ?gs" by (simp add: groupedSources_def group_by_spec)
  have "mset (map sg_descriptors (groupedSources ds)) = mset (map sg_descriptors ?gs)" by (simp only: gs mset_map mset_sort)
  then have "mset (concat (map sg_descriptors (groupedSources ds))) = mset (concat (map sg_descriptors ?gs))"
    by (rule mset_concat_cong)
  also have "\<dots> = mset (concat (map (\<lambda>k. filter (\<lambda>d. source_code d = k) ds) (js_set_of (map source_code ds))))"
    by (simp add: mset_concat source_group_sel comp_def)
  also have "\<dots> = mset ds" by (rule mset_groups)
  finally have m: "mset (concat (map sg_descriptors (groupedSources ds))) = mset ds" .
  have "mset (map sg_serviceCode (groupedSources ds)) = mset (map sg_serviceCode ?gs)" by (simp only: gs mset_map mset_sort)
  also have "\<dots> = mset (js_set_of (map source_code ds))" by (simp add: source_group_sel comp_def)
  finally have "mset (map sg_serviceCode (groupedSources ds)) = mset (js_set_of (map source_code ds))" .
  then have d: "distinct (map sg_serviceCode (groupedSources ds))" by (metis distinct_js_set_of mset_eq_imp_distinct_iff)
  have a: "list_all (\<lambda>g. sg_descriptors g = sort_key (\<lambda>d. - priority d) (filter (\<lambda>d. source_code d = sg_serviceCode g) ds)
        \<and> sorted_wrt (\<lambda>d e. priority e \<le> priority d) (sg_descriptors g)
        \<and> sg_maxPriority g = Max (insert 0 (priority ` set (sg_descriptors g)))) (groupedSources ds)"
    by (auto simp: list_all_iff gs source_group_sel sorted_desc fold_max)
  show ?thesis using m d a sorted_desc [of sg_maxPriority ?gs] unfolding gs by blast
qed

section \<open>Facts: what a section shows\<close>

lemma js_set_of_snoc: "js_set_of (xs @ [x]) = js_add x (js_set_of xs)"
  by (simp add: js_set_of_def)

lemma seen_loop:
  "fold (\<lambda>i (seen, res). if i \<in> seen then (seen, res) else (insert i seen, res @ [f i])) xs (S, r)
     = (S \<union> set xs, r @ map f (filter (\<lambda>i. i \<notin> S) (js_set_of xs)))"
proof (induction xs rule: rev_induct)
  case Nil
  show ?case by (simp add: js_set_of_def)
next
  case (snoc x xs)
  then show ?case by (auto simp: js_set_of_snoc js_add_def)
qed

lemma allItems_spec:
  "allItems os ps = map (\<lambda>i. \<lparr>ne_id = i, ne_isPinned = True, ne_isOpen = i \<in> set os\<rparr>) (js_set_of ps)
     @ map (\<lambda>i. \<lparr>ne_id = i, ne_isPinned = False, ne_isOpen = True\<rparr>) (filter (\<lambda>i. i \<notin> set ps) (js_set_of os))"
  by (simp add: allItems_def seen_loop)

lemma items_at_put [simp]: "items_at k (obj_put k' e m) = (if k = k' then e else items_at k m)"
  by (simp add: items_at_def)

lemma items_at_Nil: "items_at k [] = \<lparr>openIds = [], pinnedIds = []\<rparr>"
  by (simp add: items_at_def)

lemma set_openItems: "r \<in> set (openItems a) \<longleftrightarrow> (\<exists>t \<in> set (tabs a). tab_ref t = Some r)"
  by (force simp: openItems_def List.map_filter_def)

definition target :: "json list \<Rightarrow> nav_item_ref \<Rightarrow> string option" where
  "target ds r = map_option descriptorKey (find (\<lambda>d. descriptorMatchesRef d r) ds)"

definition pin_target :: "json list \<Rightarrow> string \<Rightarrow> string option" where
  "pin_target ds key = map_option descriptorKey (find (\<lambda>d. jprop (Some d) ''serviceCode'' = Some (JStr (fst (key_parts key)))
     \<and> jprop (Some d) ''itemCode'' = Some (JStr (snd (key_parts key)))) ds)"

lemma fold_index_open:
  "items_at k (fold (index_open ds) refs m) =
     (items_at k m)\<lparr>openIds := fold js_add (map nr_key (filter (\<lambda>r. target ds r = Some k) refs)) (openIds (items_at k m))\<rparr>"
proof (induction refs arbitrary: m)
  case (Cons r refs)
  then show ?case by (auto simp: index_open_def target_def Let_def split: option.split)
qed simp

lemma fold_index_pinned:
  "items_at k (fold (index_pinned ds) es m) = (items_at k m)\<lparr>pinnedIds :=
     fold js_add (map JStr (concat (map snd (filter (\<lambda>e. pin_target ds (fst e) = Some k) es)))) (pinnedIds (items_at k m))\<rparr>"
proof (induction es arbitrary: m)
  case (Cons e es)
  then show ?case by (cases e) (auto simp: index_pinned_def pin_target_def Let_def case_prod_unfold split: option.split)
qed simp

definition coded :: "json \<Rightarrow> string \<Rightarrow> string \<Rightarrow> bool" where
  \<comment> \<open>a descriptor of service \<open>sc\<close> and item \<open>ic\<close>\<close>
  "coded d sc ic \<longleftrightarrow> jprop (Some d) ''serviceCode'' = Some (JStr sc) \<and> jprop (Some d) ''itemCode'' = Some (JStr ic)
     \<and> ic \<noteq> [] \<and> CHR '':'' \<notin> set sc"

definition described :: "json list \<Rightarrow> bool" where
  "described ds \<longleftrightarrow> (\<forall>d \<in> set ds. \<exists>sc ic. coded d sc ic) \<and> distinct (map descriptorKey ds)"

lemma coded_key: "coded d sc ic \<Longrightarrow> descriptorKey d = basket_key sc ic"
  by (simp add: coded_def descriptorKey_def basket_key_def opt_string_def or_empty_def)

lemma find_coded:
  assumes ds: "described ds" and d: "d \<in> set ds" "coded d sc ic"
    and P: "\<And>e. P e \<longleftrightarrow> jprop (Some e) ''serviceCode'' = Some a \<and> jprop (Some e) ''itemCode'' = Some b"
  shows "map_option descriptorKey (find P ds) = Some (descriptorKey d) \<longleftrightarrow> a = JStr sc \<and> b = JStr ic"
proof
  assume "map_option descriptorKey (find P ds) = Some (descriptorKey d)"
  then obtain e where e: "find P ds = Some e" "descriptorKey e = descriptorKey d" by auto
  then have "e \<in> set ds" "P e" by (auto simp: find_Some_iff)
  moreover have "inj_on descriptorKey (set ds)" using ds by (simp add: described_def distinct_map)
  ultimately have "e = d" using d(1) e(2) by (auto dest: inj_onD)
  with \<open>P e\<close> d(2) show "a = JStr sc \<and> b = JStr ic" by (simp add: P coded_def)
next
  assume ab: "a = JStr sc \<and> b = JStr ic"
  then have "P d" using d(2) by (simp add: P coded_def)
  then obtain e where e: "find P ds = Some e" using d(1) by (metis find_None_iff option.exhaust)
  then have "P e" by (auto simp: find_Some_iff)
  then have "coded e sc ic" using ab d(2) by (simp add: P coded_def)
  with coded_key [OF this] coded_key [OF d(2)] e show "map_option descriptorKey (find P ds) = Some (descriptorKey d)" by simp
qed

lemma section_open:
  assumes "described ds" "d \<in> set ds" "coded d sc ic"
  shows "set (openIds (items_at (descriptorKey d) (itemsByDescriptor ds refs basket)))
    = nr_key ` {r \<in> set refs. nr_source r = JStr sc \<and> nr_type r = JStr ic}"
proof -
  have "target ds r = Some (descriptorKey d) \<longleftrightarrow> nr_source r = JStr sc \<and> nr_type r = JStr ic" for r
    unfolding target_def by (rule find_coded [OF assms]) (simp add: descriptorMatchesRef_def)
  then show ?thesis
    by (auto simp: itemsByDescriptor_def fold_index_pinned fold_index_open items_at_Nil)
qed

lemma section_pinned:
  assumes "described ds" "d \<in> set ds" "coded d sc ic" "basket_ok s"
  shows "set (pinnedIds (items_at (descriptorKey d) (itemsByDescriptor ds refs (basketItems s)))) = {JStr i | i. isInBasket sc ic i s}"
proof -
  have t: "pin_target ds key = Some (descriptorKey d) \<longleftrightarrow> key_parts key = (sc, ic)" for key
    unfolding pin_target_def using find_coded [OF assms(1-3), of _ "JStr (fst (key_parts key))" "JStr (snd (key_parts key))"]
    by (simp add: prod_eq_iff)
  have k: "key_parts key = (sc, ic) \<longleftrightarrow> key = basket_key sc ic" if "(key, ids) \<in> set (basketItems s)" for key ids
  proof -
    have "CHR '':'' \<in> set key" using that assms(4) by (auto simp: basket_ok_def)
    then obtain a b where "key = basket_key a b" "CHR '':'' \<notin> set a" "key_parts key = (a, b)" by (rule key_split)
    with assms(3) show ?thesis by (auto simp: coded_def basket_key_inj)
  qed
  have g: "(basket_key sc ic, ids) \<in> set (basketItems s) \<longleftrightarrow> obj_get (basketItems s) (basket_key sc ic) = Some ids" for ids
    using assms(4) by (simp add: basket_ok_def obj_entries_get)
  have "set (pinnedIds (items_at (descriptorKey d) (itemsByDescriptor ds refs (basketItems s))))
      = JStr ` (\<Union>e \<in> {e \<in> set (basketItems s). key_parts (fst e) = (sc, ic)}. set (snd e))"
    by (simp add: itemsByDescriptor_def fold_index_pinned fold_index_open items_at_Nil t)
  also have "\<dots> = JStr ` set (ids_at (basket_key sc ic) s)"
  proof (rule arg_cong [of _ _ "(`) JStr"])
    have "{e \<in> set (basketItems s). key_parts (fst e) = (sc, ic)} = {e \<in> set (basketItems s). fst e = basket_key sc ic}"
      using k by (auto simp: split_paired_all)
    also have "\<dots> = (case obj_get (basketItems s) (basket_key sc ic) of Some ids \<Rightarrow> {(basket_key sc ic, ids)} | None \<Rightarrow> {})"
      using g by (auto split: option.split)
    finally show "(\<Union>e \<in> {e \<in> set (basketItems s). key_parts (fst e) = (sc, ic)}. set (snd e)) = set (ids_at (basket_key sc ic) s)"
      by (simp add: ids_at_def split: option.split)
  qed
  also have "\<dots> = {JStr i | i. isInBasket sc ic i s}" by (auto simp: isInBasket_def)
  finally show ?thesis .
qed

text \<open>The panel shows what is open and what is pinned: the section of an item type lists, each
  once, exactly the items of that type that are open in a tab of the shell or pinned in the basket
  of the store, and marks each with whether it is pinned and whether it is open.\<close>

theorem nav_section_exact:
  assumes "described (nav_descriptors (items s))" "basket_ok s" "d \<in> set (nav_descriptors (items s))" "coded d sc ic"
  shows "distinct (map ne_id (nav_section a s d)) \<and>
    (\<lparr>ne_id = x, ne_isPinned = p, ne_isOpen = opened\<rparr> \<in> set (nav_section a s d) \<longleftrightarrow> (p \<or> opened)
      \<and> p = (\<exists>i. x = JStr i \<and> isInBasket sc ic i s)
      \<and> opened = (\<exists>t \<in> set (tabs a). tab_ref t = Some \<lparr>nr_source = JStr sc, nr_type = JStr ic, nr_key = x\<rparr>))"
proof -
  let ?e = "items_at (descriptorKey d) (itemsByDescriptor (nav_descriptors (items s)) (openItems a) (basketItems s))"
  have o: "x \<in> set (openIds ?e) \<longleftrightarrow> (\<exists>t \<in> set (tabs a). tab_ref t = Some \<lparr>nr_source = JStr sc, nr_type = JStr ic, nr_key = x\<rparr>)" for x
    unfolding section_open [OF assms(1,3,4)] by (force simp: set_openItems)
  have p: "x \<in> set (pinnedIds ?e) \<longleftrightarrow> (\<exists>i. x = JStr i \<and> isInBasket sc ic i s)" for x
    unfolding section_pinned [OF assms(1,3,4,2)] by auto
  have n: "nav_section a s d = allItems (openIds ?e) (pinnedIds ?e)" by (simp add: nav_section_def Let_def)
  have "distinct (map ne_id (nav_section a s d))"
    by (auto simp: n allItems_spec comp_def)
  moreover have "\<lparr>ne_id = x, ne_isPinned = p, ne_isOpen = opened\<rparr> \<in> set (nav_section a s d) \<longleftrightarrow> (p \<or> opened)
      \<and> p = (x \<in> set (pinnedIds ?e)) \<and> opened = (x \<in> set (openIds ?e))"
    by (auto simp: n allItems_spec)
  ultimately show ?thesis unfolding o p by blast
qed

definition sample_items :: "json list" where
  "sample_items = [JObj [(''serviceCode'', JStr ''psm''), (''itemCode'', JStr ''part''), (''list'', JObj [])],
     JObj [(''serviceCode'', JStr ''dst''), (''itemCode'', JStr ''data-object''), (''create'', JObj []), (''priority'', JNum 200)],
     JObj [(''serviceCode'', JStr ''psm''), (''itemCode'', JStr ''note''), (''list'', JObj []), (''panelSection'', JStr ''info'')]]"

definition sample_pins :: plm_store where
  "sample_pins = fresh_store\<lparr>items := sample_items, basketItems := [(''psm:part'', [''n1'', ''n2''])]\<rparr>"

definition sample_tabs :: app where
  "sample_tabs = fresh_app\<lparr>tabs := [DASHBOARD_TAB, \<lparr>tab_id = ''tab-1'', tab_nodeId = Some ''n2'', tab_label = ''N2'', tab_pinned = False,
     tab_source_of = Some \<lparr>ts_serviceCode = JStr ''psm'', ts_itemCode = Some (JStr ''part''), ts_itemKey = None, ts_get = None\<rparr>\<rparr>]\<rparr>"

lemma sample_described: "described (nav_descriptors (items sample_pins)) \<and> coded (hd sample_items) ''psm'' ''part''
    \<and> basket_ok sample_pins \<and> hd sample_items \<in> set (nav_descriptors (items sample_pins))"
proof (intro conjI)
  have nd: "nav_descriptors (items sample_pins) = take 2 sample_items" by code_simp
  have c: "coded (sample_items ! 0) ''psm'' ''part''" "coded (sample_items ! 1) ''dst'' ''data-object''" by code_simp+
  have t: "take 2 sample_items = [sample_items ! 0, sample_items ! 1]" "hd sample_items = sample_items ! 0" by code_simp+
  have "distinct (map descriptorKey (take 2 sample_items))" by code_simp
  then show "described (nav_descriptors (items sample_pins))" unfolding nd t(1) using c by (auto simp: described_def)
  show "coded (hd sample_items) ''psm'' ''part''" "hd sample_items \<in> set (nav_descriptors (items sample_pins))"
    using c unfolding nd t by simp_all
  show "basket_ok sample_pins" by code_simp
qed

theorem nav_section_exact_witness:
  "\<lparr>ne_id = JStr ''n2'', ne_isPinned = True, ne_isOpen = True\<rparr> \<in> set (nav_section sample_tabs sample_pins (hd sample_items))"
proof -
  have "isInBasket ''psm'' ''part'' ''n2'' sample_pins" by code_simp
  moreover have "list_ex (\<lambda>t. tab_ref t = Some \<lparr>nr_source = JStr ''psm'', nr_type = JStr ''part'', nr_key = JStr ''n2''\<rparr>) (tabs sample_tabs)"
    by code_simp
  ultimately show ?thesis
    using nav_section_exact [of sample_pins "hd sample_items" "''psm''" "''part''" sample_tabs "JStr ''n2''" True True] sample_described
    by (auto simp: list_ex_iff)
qed

section \<open>Facts: rows below rows\<close>

datatype tree_event = ItemToggle | RowToggle row | ChildrenArrived string "child_link list option"

definition fresh_tree :: item_tree where
  "fresh_tree = \<lparr>it_expanded = False, childCache = [], expandedPaths = []\<rparr>"

fun with_below :: "row \<Rightarrow> row list" where
  "with_below (Row p c dep cyc kids) = Row p c dep cyc kids # concat (map with_below kids)"

definition slash_free :: "child_link \<Rightarrow> bool" where
  \<comment> \<open>ids are UUIDs\<close>
  "slash_free c \<longleftrightarrow> CHR ''/'' \<notin> set (link_key c)"

fun tree_enabled :: "string \<Rightarrow> string \<Rightarrow> tree_event \<Rightarrow> item_tree \<Rightarrow> bool" where
  "tree_enabled itemId itemPath ItemToggle t = True"
| "tree_enabled itemId itemPath (RowToggle r) t = (r \<in> set (concat (map with_below (item_rows itemId itemPath t))))"
| "tree_enabled itemId itemPath (ChildrenArrived nid answer) t =
     (map_of (childCache t) nid = Some CacheLoading \<and> list_all slash_free (or_nil answer))"

fun tree_step :: "bool \<Rightarrow> string \<Rightarrow> tree_event \<Rightarrow> item_tree \<Rightarrow> item_tree" where
  "tree_step fetches itemId ItemToggle t = toggleExpand fetches itemId t"
| "tree_step fetches itemId (RowToggle r) t = row_toggle fetches r t"
| "tree_step fetches itemId (ChildrenArrived nid answer) t = children_arrived nid answer t"

definition tree_inv :: "string \<Rightarrow> item_tree \<Rightarrow> bool" where
  "tree_inv itemPath t \<longleftrightarrow> (\<forall>p \<in> set (expandedPaths t). \<exists>x y. p = itemPath @ ''/'' @ x @ ''/'' @ y)
     \<and> (\<forall>nid cs. map_of (childCache t) nid = Some (CacheLinks cs) \<longrightarrow> list_all slash_free cs)"

lemma top_rows_closed:
  assumes "tree_inv itemPath t" "r \<in> set (item_rows itemId itemPath t)"
  shows "row_children r = [] \<and> (\<exists>x. row_path r = itemPath @ ''/'' @ x)"
proof -
  have r: "r \<in> set (renderChildTree (childCache t) (expandedPaths t) itemId itemPath 1 [itemId])"
    using assms(2) by (simp add: item_rows_def split: if_splits)
  define i where "i = (if itemId = [] then itemPath else itemId)"
  from r obtain cs where cs: "map_of (childCache t) i = Some (CacheLinks cs)" unfolding i_def
    by (cases "map_of (childCache t) (if itemId = [] then itemPath else itemId)";
        cases "the (map_of (childCache t) (if itemId = [] then itemPath else itemId))")
      (simp_all add: renderChildTree.simps [of _ _ itemId] split: if_splits)
  have "itemPath @ ''/'' @ link_key c \<notin> set (expandedPaths t)" if "c \<in> set cs" for c
  proof
    assume "itemPath @ ''/'' @ link_key c \<in> set (expandedPaths t)"
    then obtain x y where "itemPath @ ''/'' @ link_key c = itemPath @ ''/'' @ x @ ''/'' @ y"
      using assms(1) unfolding tree_inv_def by blast
    then have "CHR ''/'' \<in> set (link_key c)" by simp
    moreover have "slash_free c" using assms(1) cs that unfolding tree_inv_def by (auto simp: list_all_iff)
    ultimately show False by (simp add: slash_free_def)
  qed
  with r cs show ?thesis
    by (subst (asm) renderChildTree.simps) (auto simp: MAX_LINK_DEPTH_def Let_def i_def)
qed

lemma load_children_inv: "tree_inv itemPath t \<Longrightarrow> tree_inv itemPath (load_children fetches nid t)"
  by (auto simp: load_children_def tree_inv_def update_conv')

lemma tree_step_inv:
  assumes "tree_inv itemPath t" "tree_enabled itemId itemPath e t"
  shows "tree_inv itemPath (tree_step fetches itemId e t)"
proof (cases e)
  case ItemToggle
  have "tree_inv itemPath (t\<lparr>it_expanded := b\<rparr>)" for b using assms(1) by (simp add: tree_inv_def)
  then show ?thesis using load_children_inv by (simp add: ItemToggle toggleExpand_def Let_def)
next
  case (RowToggle r)
  then obtain q where q: "q \<in> set (item_rows itemId itemPath t)" "r \<in> set (with_below q)" using assms(2) by auto
  have "r = q" using top_rows_closed [OF assms(1) q(1)] q(2) by (cases q) auto
  then obtain x where x: "row_path r = itemPath @ ''/'' @ x" using top_rows_closed [OF assms(1) q(1)] by blast
  have "tree_inv itemPath (t\<lparr>expandedPaths := toggle_path (row_path r @ ''/'' @ y) (expandedPaths t)\<rparr>)" for y
    using assms(1) by (auto simp: tree_inv_def toggle_path_def x)
  then show ?thesis using assms(1) load_children_inv by (simp add: RowToggle row_toggle_def toggleNodeChildren_def)
next
  case (ChildrenArrived nid answer)
  then show ?thesis using assms by (auto simp: children_arrived_def tree_inv_def update_conv')
qed

interpretation rows: machine_invariant "tree_enabled itemId itemPath" "tree_step fetches itemId" fresh_tree "\<lambda>_. tree_inv itemPath"
  for itemId itemPath fetches
  by unfold_locales (auto simp: fresh_tree_def tree_inv_def [of _ "\<lparr>it_expanded = _, childCache = _, expandedPaths = _\<rparr>"] intro: tree_step_inv)

text \<open>The link tree is never deeper than one level: whatever rows the user opens and whatever
  children arrive, no row shows children. The row appends its link to a path that already ends with
  it, and marks that path as expanded, while the tree looks for the path without the repetition; the
  children are fetched, but shown nowhere.\<close>

theorem nested_rows_never_open:
  assumes "run_machine (tree_enabled itemId itemPath) (tree_step fetches itemId) es fresh_tree = Some t"
  shows "list_all (\<lambda>r. row_children r = []) (item_rows itemId itemPath t)"
  using rows.holds [OF assms] top_rows_closed by (simp add: list_all_iff)

definition sample_link :: "string \<Rightarrow> string \<Rightarrow> child_link" where
  "sample_link l n = \<lparr>ch_link = Some l, ch_target = n\<rparr>"

definition sample_tree_events :: "tree_event list" where
  \<comment> \<open>the item is opened, then its only row, whose children arrive\<close>
  "sample_tree_events = [ItemToggle, ChildrenArrived ''a'' (Some [sample_link ''l1'' ''b'']),
     RowToggle (Row ''psm:part:a/l1'' (sample_link ''l1'' ''b'') 1 False []), ChildrenArrived ''b'' (Some [sample_link ''l2'' ''c''])]"

theorem nested_rows_never_open_witness:
  "\<exists>t. run_machine (tree_enabled ''a'' ''psm:part:a'') (tree_step True ''a'') sample_tree_events fresh_tree = Some t
     \<and> map_of (childCache t) ''b'' = Some (CacheLinks [sample_link ''l2'' ''c''])
     \<and> list_all (\<lambda>r. row_children r = []) (item_rows ''a'' ''psm:part:a'' t)"
proof -
  have "case run_machine (tree_enabled ''a'' ''psm:part:a'') (tree_step True ''a'') sample_tree_events fresh_tree of
    Some t \<Rightarrow> map_of (childCache t) ''b'' = Some (CacheLinks [sample_link ''l2'' ''c'']) | None \<Rightarrow> False" by code_simp
  from case_Some_ex [OF this] obtain t where
    "run_machine (tree_enabled ''a'' ''psm:part:a'') (tree_step True ''a'') sample_tree_events fresh_tree = Some t
      \<and> map_of (childCache t) ''b'' = Some (CacheLinks [sample_link ''l2'' ''c''])" ..
  with nested_rows_never_open [of "''a''" "''psm:part:a''" True sample_tree_events t] show ?thesis by simp
qed

section \<open>Facts: pages in order\<close>

datatype browse_event = Reload string | More string | Toggled string | PageArrived string nat bool

type_synonym 'i browsing = "'i browse \<times> (string \<times> nat) list"      \<comment> \<open>with the requests that are under way\<close>

definition asked :: "string \<Rightarrow> 'i browse \<times> nat option \<Rightarrow> (string \<times> nat) list \<Rightarrow> 'i browsing" where
  "asked k res reqs = (fst res, case snd res of None \<Rightarrow> reqs | Some n \<Rightarrow> reqs @ [(k, n)])"

definition server_page :: "(string \<Rightarrow> nat \<Rightarrow> 'i list) \<Rightarrow> (string \<Rightarrow> nat) \<Rightarrow> string \<Rightarrow> nat \<Rightarrow> 'i browse_page" where
  "server_page content tot k n = \<lparr>bp_items = content k n, bp_page = n, bp_totalPages = tot k\<rparr>"

fun browse_step :: "(string \<Rightarrow> nat \<Rightarrow> 'i list) \<Rightarrow> (string \<Rightarrow> nat) \<Rightarrow> browse_event \<Rightarrow> 'i browsing \<Rightarrow> 'i browsing" where
  "browse_step content tot (Reload k) (b, reqs) = (loadDescriptorPage k b, reqs @ [(k, 0)])"
| "browse_step content tot (More k) (b, reqs) = asked k (loadMore k b) reqs"
| "browse_step content tot (Toggled k) (b, reqs) = asked k (toggleDescriptor k b) reqs"
| "browse_step content tot (PageArrived k n ok) (b, reqs) =
     (page_arrived k n (if ok then Some (server_page content tot k n) else None) b, remove1 (k, n) reqs)"

fun browse_enabled :: "browse_event \<Rightarrow> 'i browsing \<Rightarrow> bool" where
  \<comment> \<open>a reload waits for the page that is under way\<close>
  "browse_enabled (Reload k) (b, reqs) = (\<not> is_loading k b)"
| "browse_enabled (PageArrived k n ok) (b, reqs) = ((k, n) \<in> set reqs)"
| "browse_enabled _ _ = True"

definition fresh_browse :: "'i browsing" where
  "fresh_browse = (\<lparr>bw_pages = [], loadingItems = [], expandedDescriptors = []\<rparr>, [])"

definition pages_upto :: "(string \<Rightarrow> nat \<Rightarrow> 'i list) \<Rightarrow> string \<Rightarrow> nat \<Rightarrow> 'i list" where
  "pages_upto content k n = concat (map (content k) [0..<Suc n])"

definition page_ok :: "(string \<Rightarrow> nat \<Rightarrow> 'i list) \<Rightarrow> (string \<Rightarrow> nat) \<Rightarrow> string \<Rightarrow> 'i browse_page \<Rightarrow> bool" where
  "page_ok content tot k p \<longleftrightarrow> p = \<lparr>bp_items = [], bp_page = 0, bp_totalPages = 0\<rparr>
     \<or> bp_items p = pages_upto content k (bp_page p) \<and> bp_totalPages p = tot k"

definition browse_inv :: "(string \<Rightarrow> nat \<Rightarrow> 'i list) \<Rightarrow> (string \<Rightarrow> nat) \<Rightarrow> 'i browsing \<Rightarrow> bool" where
  "browse_inv content tot s \<longleftrightarrow> (\<forall>k.
     filter (\<lambda>q. fst q = k) (snd s) = [] \<and> \<not> is_loading k (fst s)
       \<or> (\<exists>n. filter (\<lambda>q. fst q = k) (snd s) = [(k, n)] \<and> is_loading k (fst s)
            \<and> (n = 0 \<or> (\<exists>p. map_of (bw_pages (fst s)) k = Some p \<and> bp_totalPages p \<noteq> 0 \<and> n = bp_page p + 1))))
   \<and> (\<forall>k p. map_of (bw_pages (fst s)) k = Some p \<longrightarrow> page_ok content tot k p)"

lemma loading_sel [simp]:
  "is_loading k (loadDescriptorPage j b) \<longleftrightarrow> k = j \<or> is_loading k b" "bw_pages (loadDescriptorPage j b) = bw_pages b"
  "is_loading k (page_arrived j n res b) \<longleftrightarrow> k \<noteq> j \<and> is_loading k b"
  "is_loading k (b\<lparr>expandedDescriptors := e\<rparr>) = is_loading k b"
  by (auto simp: is_loading_def loadDescriptorPage_def page_arrived_def Let_def update_conv')

lemma idle_no_request: "browse_inv content tot (b, reqs) \<Longrightarrow> \<not> is_loading k b \<Longrightarrow> filter (\<lambda>q. fst q = k) reqs = []"
  by (auto simp: browse_inv_def)

lemma request_inv:
  \<comment> \<open>a request for the first page, or the page after the last one shown, when none is under way\<close>
  assumes inv: "browse_inv content tot (b, reqs)" and idle: "\<not> is_loading k b"
    and n: "n = 0 \<or> (\<exists>p. map_of (bw_pages b) k = Some p \<and> bp_totalPages p \<noteq> 0 \<and> n = bp_page p + 1)"
  shows "browse_inv content tot (loadDescriptorPage k b, reqs @ [(k, n)])"
proof -
  have f: "filter (\<lambda>q. fst q = k) reqs = []" by (rule idle_no_request [OF inv idle])
  have "filter (\<lambda>q. fst q = j) (reqs @ [(k, n)]) = (if j = k then [(k, n)] else filter (\<lambda>q. fst q = j) reqs)" for j
    using f by simp
  with inv n show ?thesis unfolding browse_inv_def by auto
qed

lemma filter_remove1_fst: "filter (\<lambda>q. fst q = j) (remove1 (k, n) reqs) =
   (if j = k then remove1 (k, n) (filter (\<lambda>q. fst q = j) reqs) else filter (\<lambda>q. fst q = j) reqs)"
  by (induction reqs) (auto simp: remove1_idem)

lemma arrival_inv:
  assumes inv: "browse_inv content tot (b, reqs)" and here: "(k, n) \<in> set reqs"
  shows "browse_inv content tot (browse_step content tot (PageArrived k n ok) (b, reqs))"
proof -
  have "(k, n) \<in> set (filter (\<lambda>q. fst q = k) reqs)" using here by simp
  then have "filter (\<lambda>q. fst q = k) reqs \<noteq> []" by (metis empty_iff empty_set)
  then obtain m where m: "filter (\<lambda>q. fst q = k) reqs = [(k, m)]"
      "m = 0 \<or> (\<exists>p. map_of (bw_pages b) k = Some p \<and> bp_totalPages p \<noteq> 0 \<and> m = bp_page p + 1)"
    using inv unfolding browse_inv_def fst_conv snd_conv by blast
  with \<open>(k, n) \<in> set (filter (\<lambda>q. fst q = k) reqs)\<close> have "m = n" by simp
  note f = m(1) [unfolded \<open>m = n\<close>] and n = m(2) [unfolded \<open>m = n\<close>]
  have p: "page_ok content tot k p" if "map_of (bw_pages (page_arrived k n res b)) k = Some p"
    "res = (if ok then Some (server_page content tot k n) else None)" for p res
  proof (cases ok)
    case True
    show ?thesis
    proof (cases "n = 0")
      case True
      with that \<open>ok\<close> show ?thesis
        by (auto simp: page_arrived_def Let_def update_conv' server_page_def page_ok_def pages_upto_def split: option.splits)
    next
      case False
      with n obtain prev where prev: "map_of (bw_pages b) k = Some prev" "bp_totalPages prev \<noteq> 0" "n = bp_page prev + 1" by auto
      have "page_ok content tot k prev" using inv prev(1) unfolding browse_inv_def fst_conv snd_conv by blast
      then have "bp_items prev = pages_upto content k (bp_page prev)" using prev(2) by (auto simp: page_ok_def)
      with that \<open>ok\<close> False prev show ?thesis
        by (auto simp: page_arrived_def Let_def update_conv' server_page_def page_ok_def pages_upto_def)
    qed
  qed (use that in \<open>auto simp: page_arrived_def update_conv' page_ok_def\<close>)
  have o: "map_of (bw_pages (page_arrived k n res b)) j = map_of (bw_pages b) j" if "j \<noteq> k" for j res
    using that by (simp add: page_arrived_def Let_def update_conv')
  show ?thesis
    unfolding browse_inv_def browse_step.simps fst_conv snd_conv
  proof (intro conjI allI impI)
    fix j
    show "filter (\<lambda>q. fst q = j) (remove1 (k, n) reqs) = [] \<and>
        \<not> is_loading j (page_arrived k n (if ok then Some (server_page content tot k n) else None) b) \<or>
      (\<exists>m. filter (\<lambda>q. fst q = j) (remove1 (k, n) reqs) = [(j, m)] \<and>
        is_loading j (page_arrived k n (if ok then Some (server_page content tot k n) else None) b) \<and>
        (m = 0 \<or> (\<exists>p. map_of (bw_pages (page_arrived k n (if ok then Some (server_page content tot k n) else None) b)) j = Some p
            \<and> bp_totalPages p \<noteq> 0 \<and> m = bp_page p + 1)))"
      using inv by (cases "j = k") (simp_all add: filter_remove1_fst f o browse_inv_def)
  next
    fix j q assume "map_of (bw_pages (page_arrived k n (if ok then Some (server_page content tot k n) else None) b)) j = Some q"
    then show "page_ok content tot j q" using p inv o by (cases "j = k") (auto simp: browse_inv_def)
  qed
qed

lemma browse_step_inv:
  assumes "browse_inv content tot s" "browse_enabled e s"
  shows "browse_inv content tot (browse_step content tot e s)"
proof (cases s; cases e)
  fix b reqs k assume s: "s = (b, reqs)" and "e = Reload k"
  with assms request_inv [of content tot b reqs k 0] show ?thesis by simp
next
  fix b reqs k assume s: "s = (b, reqs)" and e: "e = More k"
  show ?thesis
  proof (cases "map_of (bw_pages b) k")
    case (Some cur)
    with assms s e request_inv [of content tot b reqs k "bp_page cur + 1"] show ?thesis
      by (auto simp: asked_def loadMore_def)
  qed (use assms s e in \<open>simp add: asked_def loadMore_def\<close>)
next
  fix b reqs k assume s: "s = (b, reqs)" and e: "e = Toggled k"
  have x: "browse_inv content tot (b\<lparr>expandedDescriptors := es\<rparr>, reqs)" for es
    using assms(1) by (simp add: s browse_inv_def)
  have "browse_inv content tot (loadDescriptorPage k (b\<lparr>expandedDescriptors := es\<rparr>), reqs @ [(k, 0)])"
    if "\<not> is_loading k b" for es
    by (rule request_inv [OF x]) (simp_all add: that)
  with x show ?thesis
    by (auto simp: s e asked_def toggleDescriptor_def Let_def)
next
  fix b reqs k n ok assume s: "s = (b, reqs)" and e: "e = PageArrived k n ok"
  with assms arrival_inv [of content tot b reqs k n ok] show ?thesis by simp
qed

interpretation paging: machine_invariant browse_enabled "browse_step content tot" fresh_browse "\<lambda>_. browse_inv content tot"
  for content :: "string \<Rightarrow> nat \<Rightarrow> 'i list" and tot
proof
  show "browse_inv content tot fresh_browse" by (simp add: browse_inv_def fresh_browse_def is_loading_def)
qed (rule browse_step_inv)

text \<open>C29. Pages join up: as long as a list is not reloaded while one of its pages is under way, then
  whatever lists the user opens, extends and reloads, and in whatever order pages arrive or fail,
  the list of a descriptor holds the pages of the server from the first to the last one loaded, in
  order and without gap or repetition, or is empty after a failure; at most one page of it is under
  way.\<close>

theorem browse_pages_in_order:
  assumes "run_machine browse_enabled (browse_step content tot) es fresh_browse = Some (b, reqs)"
    and "map_of (bw_pages b) k = Some p"
  shows "(bp_items p = [] \<and> bp_totalPages p = 0 \<or> bp_items p = pages_upto content k (bp_page p) \<and> bp_totalPages p = tot k)
     \<and> length (filter (\<lambda>q. fst q = k) reqs) \<le> 1"
proof -
  have inv: "browse_inv content tot (b, reqs)" by (rule paging.holds [OF assms(1)])
  then have "page_ok content tot k p" using assms(2) by (simp add: browse_inv_def)
  moreover have "filter (\<lambda>q. fst q = k) reqs = [] \<or> (\<exists>n. filter (\<lambda>q. fst q = k) reqs = [(k, n)])"
    using inv unfolding browse_inv_def fst_conv snd_conv by blast
  ultimately show ?thesis by (auto simp: page_ok_def)
qed

definition sample_content :: "string \<Rightarrow> nat \<Rightarrow> nat list" where
  "sample_content k n = [2 * n, 2 * n + 1]"

theorem browse_pages_in_order_witness:
  "\<exists>b reqs p. run_machine browse_enabled (browse_step sample_content (\<lambda>_. 3))
       [Toggled ''psm:part'', PageArrived ''psm:part'' 0 True, More ''psm:part'', PageArrived ''psm:part'' 1 True] fresh_browse = Some (b, reqs)
     \<and> map_of (bw_pages b) ''psm:part'' = Some p \<and> bp_items p = [0, 1, 2, 3] \<and> bp_totalPages p = 3"
proof -
  let ?run = "run_machine browse_enabled (browse_step sample_content (\<lambda>_. 3))
       [Toggled ''psm:part'', PageArrived ''psm:part'' 0 True, More ''psm:part'', PageArrived ''psm:part'' 1 True] fresh_browse"
  have "case ?run of Some (b, reqs) \<Rightarrow> (case map_of (bw_pages b) ''psm:part'' of Some p \<Rightarrow> bp_page p = 1 \<and> bp_items p \<noteq> [] | None \<Rightarrow> False)
     | None \<Rightarrow> False" by code_simp
  then obtain b reqs p where r: "?run = Some (b, reqs)" "map_of (bw_pages b) ''psm:part'' = Some p" "bp_page p = 1" "bp_items p \<noteq> []"
    by (cases ?run) (simp_all split: prod.splits option.splits)
  have "pages_upto sample_content ''psm:part'' 1 = [0, 1, 2, 3]" by code_simp
  with browse_pages_in_order [OF r(1,2)] r show ?thesis by (simp only: refl simp_thms) blast
qed

text \<open>A reload does not wait for that: every refresh of the panel reloads the first page of every
  list. Its answer clears the loading mark although a later page is still under way, that page can
  then be asked for again, and both answers are appended.\<close>

theorem reload_repeats_page:
  "\<exists>b. browse_step sample_content (\<lambda>_. 3) (PageArrived ''k'' 1 True) (browse_step sample_content (\<lambda>_. 3) (PageArrived ''k'' 1 True)
       (browse_step sample_content (\<lambda>_. 3) (More ''k'') (browse_step sample_content (\<lambda>_. 3) (PageArrived ''k'' 0 True)
       (browse_step sample_content (\<lambda>_. 3) (Reload ''k'') (browse_step sample_content (\<lambda>_. 3) (More ''k'')
       (browse_step sample_content (\<lambda>_. 3) (PageArrived ''k'' 0 True) (browse_step sample_content (\<lambda>_. 3) (Reload ''k'') fresh_browse)))))))
     = (b, []) \<and> map_option bp_items (map_of (bw_pages b) ''k'') = Some [0, 1, 2, 3, 2, 3]"
proof -
  define s where "s = browse_step sample_content (\<lambda>_. 3) (PageArrived ''k'' 1 True) (browse_step sample_content (\<lambda>_. 3) (PageArrived ''k'' 1 True)
       (browse_step sample_content (\<lambda>_. 3) (More ''k'') (browse_step sample_content (\<lambda>_. 3) (PageArrived ''k'' 0 True)
       (browse_step sample_content (\<lambda>_. 3) (Reload ''k'') (browse_step sample_content (\<lambda>_. 3) (More ''k'')
       (browse_step sample_content (\<lambda>_. 3) (PageArrived ''k'' 0 True) (browse_step sample_content (\<lambda>_. 3) (Reload ''k'') fresh_browse)))))))"
  have "snd s = [] \<and> map_option bp_items (map_of (bw_pages (fst s)) ''k'') = Some [0, 1, 2, 3, 2, 3]"
    unfolding s_def by code_simp
  then have "s = (fst s, []) \<and> map_option bp_items (map_of (bw_pages (fst s)) ''k'') = Some [0, 1, 2, 3, 2, 3]"
    by (metis prod.collapse)
  then show ?thesis unfolding s_def by blast
qed

end
