(* ===== verification/PluginApis.thy ===== *)
theory PluginApis
  imports ApiEndpoints ApiCalls
begin

text \<open>
  The service clients of the remote plugins: \<open>psm-admin/ui/src/psaApi.js\<close>, \<open>psm-api/ui/src/psmApi.js\<close>
  with its descriptor cache and \<open>linkTypeCache.js\<close>, \<open>dst-zig/ui/src/dstApi.js\<close>. They reach the network
  through the primitives the shell hands them (\<open>http\<close> of \<open>shell/ShellContext.jsx\<close>). The tables follow
  the conventions of ApiEndpoints; a \<open>userId\<close> that is not sent is left out.
\<close>

section \<open>The HTTP primitives of the shell\<close>

definition serviceRequest :: "network \<Rightarrow> string \<Rightarrow> string \<Rightarrow> string \<Rightarrow> json option \<Rightarrow> client \<Rightarrow> (thrown + json) \<times> client" where
  "serviceRequest net serviceCode method path body c = doFetch net (serviceBase serviceCode) method path body None False c"

definition serviceUpload :: "network \<Rightarrow> string \<Rightarrow> string \<Rightarrow> (string \<times> json) list \<Rightarrow> client \<Rightarrow> (thrown + response) \<times> client" where
  "serviceUpload net serviceCode path form c = uploadWithProgress net
     \<lparr>rq_method = ''POST'', rq_url = ''/api/'' @ serviceCode @ path,
      rq_headers = bearer_always c @ [(''X-PLM-ProjectSpace'', opt_string (js_or (projectSpaceId c) (Some (JStr []))))],
      rq_body = FormBody form\<rparr> c"

section \<open>The administration plugin\<close>

datatype psa_type_call =
    PsaGetMetadataKeys "string option"
  | PsaGetNodeTypes
  | PsaCreateNodeType "json option"
  | PsaDeleteNodeType string
  | PsaUpdateNodeTypeIdentity string "json option"
  | PsaUpdateNodeTypeNumberingScheme string "json option"
  | PsaUpdateNodeTypeVersionPolicy string "json option"
  | PsaUpdateNodeTypeCollapseHistory string "json option"
  | PsaUpdateNodeTypeLifecycle string "json option"
  | PsaUpdateNodeTypeAppearance string "json option" "json option"
  | PsaUpdateNodeTypeParent string "json option"
  | PsaGetNodeTypeAttributes string
  | PsaCreateAttribute string "json option"
  | PsaUpdateAttribute string string "json option"
  | PsaDeleteAttribute string string
  | PsaGetAllActions
  | PsaGetActionsForNodeType string
  | PsaRegisterCustomAction "json option"

fun psa_type_call_request :: "psa_type_call \<Rightarrow> wire_call" where
  "psa_type_call_request (PsaGetMetadataKeys targetType)
     = call ''/api/psa'' ''GET'' (case targetType of Some t \<Rightarrow> if t \<noteq> [] then ''/metamodel/metadata/keys/'' @ t else ''/metamodel/metadata/keys'' | None \<Rightarrow> ''/metamodel/metadata/keys'') None"
| "psa_type_call_request PsaGetNodeTypes = call ''/api/psa'' ''GET'' ''/metamodel/nodetypes'' None"
| "psa_type_call_request (PsaCreateNodeType body) = call ''/api/psa'' ''POST'' ''/metamodel/nodetypes'' body"
| "psa_type_call_request (PsaDeleteNodeType nodeTypeId)
     = call ''/api/psa'' ''DELETE'' (''/metamodel/nodetypes/'' @ nodeTypeId) None"
| "psa_type_call_request (PsaUpdateNodeTypeIdentity nodeTypeId body)
     = call ''/api/psa'' ''PUT'' (''/metamodel/nodetypes/'' @ nodeTypeId @ ''/identity'') body"
| "psa_type_call_request (PsaUpdateNodeTypeNumberingScheme nodeTypeId numberingScheme)
     = call ''/api/psa'' ''PUT'' (''/metamodel/nodetypes/'' @ nodeTypeId @ ''/numbering-scheme'')
         (Some (obj_of [(''numberingScheme'', numberingScheme)]))"
| "psa_type_call_request (PsaUpdateNodeTypeVersionPolicy nodeTypeId versionPolicy)
     = call ''/api/psa'' ''PUT'' (''/metamodel/nodetypes/'' @ nodeTypeId @ ''/version-policy'')
         (Some (obj_of [(''versionPolicy'', versionPolicy)]))"
| "psa_type_call_request (PsaUpdateNodeTypeCollapseHistory nodeTypeId collapseHistory)
     = call ''/api/psa'' ''PUT'' (''/metamodel/nodetypes/'' @ nodeTypeId @ ''/collapse-history'')
         (Some (obj_of [(''collapseHistory'', collapseHistory)]))"
| "psa_type_call_request (PsaUpdateNodeTypeLifecycle nodeTypeId lifecycleId)
     = call ''/api/psa'' ''PUT'' (''/metamodel/nodetypes/'' @ nodeTypeId @ ''/lifecycle'')
         (Some (obj_of [(''lifecycleId'', or_null lifecycleId)]))"
| "psa_type_call_request (PsaUpdateNodeTypeAppearance nodeTypeId color icon)
     = call ''/api/psa'' ''PUT'' (''/metamodel/nodetypes/'' @ nodeTypeId @ ''/appearance'')
         (Some (obj_of [(''color'', or_null color), (''icon'', or_null icon)]))"
| "psa_type_call_request (PsaUpdateNodeTypeParent nodeTypeId parentNodeTypeId)
     = call ''/api/psa'' ''PUT'' (''/metamodel/nodetypes/'' @ nodeTypeId @ ''/parent'')
         (Some (obj_of [(''parentNodeTypeId'', or_null parentNodeTypeId)]))"
| "psa_type_call_request (PsaGetNodeTypeAttributes nodeTypeId)
     = call ''/api/psa'' ''GET'' (''/metamodel/nodetypes/'' @ nodeTypeId @ ''/attributes'') None"
| "psa_type_call_request (PsaCreateAttribute nodeTypeId body)
     = call ''/api/psa'' ''POST'' (''/metamodel/nodetypes/'' @ nodeTypeId @ ''/attributes'') body"
| "psa_type_call_request (PsaUpdateAttribute nodeTypeId attrId body)
     = call ''/api/psa'' ''PUT'' (''/metamodel/nodetypes/'' @ nodeTypeId @ ''/attributes/'' @ attrId) body"
| "psa_type_call_request (PsaDeleteAttribute nodeTypeId attrId)
     = call ''/api/psa'' ''DELETE'' (''/metamodel/nodetypes/'' @ nodeTypeId @ ''/attributes/'' @ attrId) None"
| "psa_type_call_request PsaGetAllActions = call ''/api/psa'' ''GET'' ''/metamodel/actions'' None"
| "psa_type_call_request (PsaGetActionsForNodeType nodeTypeId)
     = call ''/api/psa'' ''GET'' (''/metamodel/nodetypes/'' @ nodeTypeId @ ''/actions'') None"
| "psa_type_call_request (PsaRegisterCustomAction body) = call ''/api/psa'' ''POST'' ''/metamodel/actions'' (body)"

datatype psa_link_call =
    PsaGetLinkTypes
  | PsaGetNodeTypeLinkTypes string
  | PsaCreateLinkType "json option"
  | PsaUpdateLinkType string "json option"
  | PsaDeleteLinkType string
  | PsaGetLinkTypeAttributes string
  | PsaCreateLinkTypeAttribute string "json option"
  | PsaUpdateLinkTypeAttribute string string "json option"
  | PsaDeleteLinkTypeAttribute string string
  | PsaGetLinkTypeCascades string
  | PsaCreateLinkTypeCascade string "json option" "json option" "json option"
  | PsaDeleteLinkTypeCascade string string

fun psa_link_call_request :: "psa_link_call \<Rightarrow> wire_call" where
  "psa_link_call_request PsaGetLinkTypes = call ''/api/psa'' ''GET'' ''/metamodel/linktypes'' None"
| "psa_link_call_request (PsaGetNodeTypeLinkTypes nodeTypeId)
     = call ''/api/psa'' ''GET'' (''/metamodel/nodetypes/'' @ nodeTypeId @ ''/linktypes'') None"
| "psa_link_call_request (PsaCreateLinkType body) = call ''/api/psa'' ''POST'' ''/metamodel/linktypes'' (body)"
| "psa_link_call_request (PsaUpdateLinkType linkTypeId body)
     = call ''/api/psa'' ''PUT'' (''/metamodel/linktypes/'' @ linkTypeId) body"
| "psa_link_call_request (PsaDeleteLinkType linkTypeId)
     = call ''/api/psa'' ''DELETE'' (''/metamodel/linktypes/'' @ linkTypeId) None"
| "psa_link_call_request (PsaGetLinkTypeAttributes linkTypeId)
     = call ''/api/psa'' ''GET'' (''/metamodel/linktypes/'' @ linkTypeId @ ''/attributes'') None"
| "psa_link_call_request (PsaCreateLinkTypeAttribute linkTypeId body)
     = call ''/api/psa'' ''POST'' (''/metamodel/linktypes/'' @ linkTypeId @ ''/attributes'') body"
| "psa_link_call_request (PsaUpdateLinkTypeAttribute linkTypeId attrId body)
     = call ''/api/psa'' ''PUT'' (''/metamodel/linktypes/'' @ linkTypeId @ ''/attributes/'' @ attrId) body"
| "psa_link_call_request (PsaDeleteLinkTypeAttribute linkTypeId attrId)
     = call ''/api/psa'' ''DELETE'' (''/metamodel/linktypes/'' @ linkTypeId @ ''/attributes/'' @ attrId) None"
| "psa_link_call_request (PsaGetLinkTypeCascades linkTypeId)
     = call ''/api/psa'' ''GET'' (''/metamodel/linktypes/'' @ linkTypeId @ ''/cascades'') None"
| "psa_link_call_request (PsaCreateLinkTypeCascade linkTypeId parentTransitionId childFromStateId childTransitionId)
     = call ''/api/psa'' ''POST'' (''/metamodel/linktypes/'' @ linkTypeId @ ''/cascades'')
         (Some (obj_of [(''parentTransitionId'', parentTransitionId), (''childFromStateId'', childFromStateId), (''childTransitionId'', childTransitionId)]))"
| "psa_link_call_request (PsaDeleteLinkTypeCascade linkTypeId cascadeId)
     = call ''/api/psa'' ''DELETE'' (''/metamodel/linktypes/'' @ linkTypeId @ ''/cascades/'' @ cascadeId) None"

datatype psa_lifecycle_call =
    PsaGetLifecycles
  | PsaGetLifecycleStates string
  | PsaGetLifecycleTransitions string
  | PsaCreateLifecycle "json option"
  | PsaDuplicateLifecycle string "json option" "json option"
  | PsaDeleteLifecycle string
  | PsaAddLifecycleState string "json option"
  | PsaUpdateLifecycleState string string "json option"
  | PsaDeleteLifecycleState string string
  | PsaListLifecycleStateActions string string
  | PsaAttachLifecycleStateAction string string "json option" "json option" "json option" "json option"
  | PsaDetachLifecycleStateAction string string string
  | PsaAddLifecycleTransition string "json option"
  | PsaUpdateLifecycleTransition string string "json option"
  | PsaDeleteLifecycleTransition string string
  | PsaAddTransitionSignatureRequirement string "json option" "json option"
  | PsaRemoveTransitionSignatureRequirement string string
  | PsaListTransitionGuards string
  | PsaAttachTransitionGuard string "json option" "json option" "json option"
  | PsaUpdateTransitionGuard string "json option"
  | PsaDetachTransitionGuard string

fun psa_lifecycle_call_request :: "psa_lifecycle_call \<Rightarrow> wire_call" where
  "psa_lifecycle_call_request PsaGetLifecycles = call ''/api/psa'' ''GET'' ''/metamodel/lifecycles'' None"
| "psa_lifecycle_call_request (PsaGetLifecycleStates itemId)
     = call ''/api/psa'' ''GET'' (''/metamodel/lifecycles/'' @ itemId @ ''/states'') None"
| "psa_lifecycle_call_request (PsaGetLifecycleTransitions itemId)
     = call ''/api/psa'' ''GET'' (''/metamodel/lifecycles/'' @ itemId @ ''/transitions'') None"
| "psa_lifecycle_call_request (PsaCreateLifecycle body) = call ''/api/psa'' ''POST'' ''/metamodel/lifecycles'' (body)"
| "psa_lifecycle_call_request (PsaDuplicateLifecycle sourceId code name)
     = call ''/api/psa'' ''POST'' (''/metamodel/lifecycles/'' @ sourceId @ ''/duplicate'')
         (Some (obj_of [(''code'', code), (''name'', name)]))"
| "psa_lifecycle_call_request (PsaDeleteLifecycle lifecycleId)
     = call ''/api/psa'' ''DELETE'' (''/metamodel/lifecycles/'' @ lifecycleId) None"
| "psa_lifecycle_call_request (PsaAddLifecycleState lifecycleId body)
     = call ''/api/psa'' ''POST'' (''/metamodel/lifecycles/'' @ lifecycleId @ ''/states'') body"
| "psa_lifecycle_call_request (PsaUpdateLifecycleState lifecycleId stateId body)
     = call ''/api/psa'' ''PUT'' (''/metamodel/lifecycles/'' @ lifecycleId @ ''/states/'' @ stateId) body"
| "psa_lifecycle_call_request (PsaDeleteLifecycleState lifecycleId stateId)
     = call ''/api/psa'' ''DELETE'' (''/metamodel/lifecycles/'' @ lifecycleId @ ''/states/'' @ stateId) None"
| "psa_lifecycle_call_request (PsaListLifecycleStateActions lifecycleId stateId)
     = call ''/api/psa'' ''GET'' (''/metamodel/lifecycles/'' @ lifecycleId @ ''/states/'' @ stateId @ ''/actions'') None"
| "psa_lifecycle_call_request (PsaAttachLifecycleStateAction lifecycleId stateId instanceId trigger executionMode displayOrder)
     = call ''/api/psa'' ''POST'' (''/metamodel/lifecycles/'' @ lifecycleId @ ''/states/'' @ stateId @ ''/actions'')
      (Some (obj_of [(''instanceId'', instanceId), (''trigger'', trigger), (''executionMode'', executionMode), (''displayOrder'', or_default displayOrder (JNum 0))]))"
| "psa_lifecycle_call_request (PsaDetachLifecycleStateAction lifecycleId stateId actionId)
     = call ''/api/psa'' ''DELETE'' (''/metamodel/lifecycles/'' @ lifecycleId @ ''/states/'' @ stateId @ ''/actions/'' @ actionId) None"
| "psa_lifecycle_call_request (PsaAddLifecycleTransition lifecycleId body)
     = call ''/api/psa'' ''POST'' (''/metamodel/lifecycles/'' @ lifecycleId @ ''/transitions'') body"
| "psa_lifecycle_call_request (PsaUpdateLifecycleTransition lifecycleId transId body)
     = call ''/api/psa'' ''PUT'' (''/metamodel/lifecycles/'' @ lifecycleId @ ''/transitions/'' @ transId) body"
| "psa_lifecycle_call_request (PsaDeleteLifecycleTransition lifecycleId transId)
     = call ''/api/psa'' ''DELETE'' (''/metamodel/lifecycles/'' @ lifecycleId @ ''/transitions/'' @ transId) None"
| "psa_lifecycle_call_request (PsaAddTransitionSignatureRequirement transId roleId displayOrder)
     = call ''/api/psa'' ''POST'' (''/metamodel/transitions/'' @ transId @ ''/signature-requirements'')
      (Some (obj_of [(''roleId'', roleId), (''displayOrder'', or_default displayOrder (JNum 0))]))"
| "psa_lifecycle_call_request (PsaRemoveTransitionSignatureRequirement transId reqId)
     = call ''/api/psa'' ''DELETE'' (''/metamodel/transitions/'' @ transId @ ''/signature-requirements/'' @ reqId) None"
| "psa_lifecycle_call_request (PsaListTransitionGuards transitionId)
     = call ''/api/psa'' ''GET'' (''/metamodel/lifecycles/transitions/'' @ transitionId @ ''/guards'') None"
| "psa_lifecycle_call_request (PsaAttachTransitionGuard transitionId instanceId effect displayOrder)
     = call ''/api/psa'' ''POST'' (''/metamodel/lifecycles/transitions/'' @ transitionId @ ''/guards'')
         (Some (obj_of [(''instanceId'', instanceId), (''effect'', effect), (''displayOrder'', displayOrder)]))"
| "psa_lifecycle_call_request (PsaUpdateTransitionGuard guardId effect)
     = call ''/api/psa'' ''PUT'' (''/metamodel/lifecycles/transitions/guards/'' @ guardId)
         (Some (obj_of [(''effect'', effect)]))"
| "psa_lifecycle_call_request (PsaDetachTransitionGuard guardId)
     = call ''/api/psa'' ''DELETE'' (''/metamodel/lifecycles/transitions/guards/'' @ guardId) None"

datatype psa_source_call =
    PsaGetSources
  | PsaGetSourceResolvers
  | PsaCreateSource "json option"
  | PsaUpdateSource string "json option"
  | PsaDeleteSource string
  | PsaGetImportContexts
  | PsaCreateImportContext "json option"
  | PsaUpdateImportContext string "json option"
  | PsaDeleteImportContext string
  | PsaGetImportAlgorithmInstances
  | PsaGetValidationAlgorithmInstances
  | PsaGetDomains
  | PsaCreateDomain "json option"
  | PsaUpdateDomain string "json option"
  | PsaDeleteDomain string
  | PsaGetDomainAttributes string
  | PsaCreateDomainAttribute string "json option"
  | PsaUpdateDomainAttribute string string "json option"
  | PsaDeleteDomainAttribute string string

fun psa_source_call_request :: "psa_source_call \<Rightarrow> wire_call" where
  "psa_source_call_request PsaGetSources = call ''/api/psa'' ''GET'' ''/sources'' None"
| "psa_source_call_request PsaGetSourceResolvers = call ''/api/psa'' ''GET'' ''/sources/resolvers'' None"
| "psa_source_call_request (PsaCreateSource body) = call ''/api/psa'' ''POST'' ''/sources'' (body)"
| "psa_source_call_request (PsaUpdateSource itemId body) = call ''/api/psa'' ''PUT'' (''/sources/'' @ itemId) body"
| "psa_source_call_request (PsaDeleteSource itemId) = call ''/api/psa'' ''DELETE'' (''/sources/'' @ itemId) None"
| "psa_source_call_request PsaGetImportContexts = call ''/api/psa'' ''GET'' ''/admin/import-contexts'' None"
| "psa_source_call_request (PsaCreateImportContext body) = call ''/api/psa'' ''POST'' ''/admin/import-contexts'' (body)"
| "psa_source_call_request (PsaUpdateImportContext itemId body)
     = call ''/api/psa'' ''PUT'' (''/admin/import-contexts/'' @ itemId) body"
| "psa_source_call_request (PsaDeleteImportContext itemId)
     = call ''/api/psa'' ''DELETE'' (''/admin/import-contexts/'' @ itemId) None"
| "psa_source_call_request PsaGetImportAlgorithmInstances
     = call ''/api/psa'' ''GET'' ''/admin/import-contexts/algorithm-instances/import'' None"
| "psa_source_call_request PsaGetValidationAlgorithmInstances
     = call ''/api/psa'' ''GET'' ''/admin/import-contexts/algorithm-instances/validation'' None"
| "psa_source_call_request PsaGetDomains = call ''/api/psa'' ''GET'' ''/domains'' None"
| "psa_source_call_request (PsaCreateDomain body) = call ''/api/psa'' ''POST'' ''/domains'' (body)"
| "psa_source_call_request (PsaUpdateDomain domainId body) = call ''/api/psa'' ''PUT'' (''/domains/'' @ domainId) body"
| "psa_source_call_request (PsaDeleteDomain domainId) = call ''/api/psa'' ''DELETE'' (''/domains/'' @ domainId) None"
| "psa_source_call_request (PsaGetDomainAttributes domainId)
     = call ''/api/psa'' ''GET'' (''/domains/'' @ domainId @ ''/attributes'') None"
| "psa_source_call_request (PsaCreateDomainAttribute domainId body)
     = call ''/api/psa'' ''POST'' (''/domains/'' @ domainId @ ''/attributes'') body"
| "psa_source_call_request (PsaUpdateDomainAttribute domainId attrId body)
     = call ''/api/psa'' ''PUT'' (''/domains/'' @ domainId @ ''/attributes/'' @ attrId) body"
| "psa_source_call_request (PsaDeleteDomainAttribute domainId attrId)
     = call ''/api/psa'' ''DELETE'' (''/domains/'' @ domainId @ ''/attributes/'' @ attrId) None"

datatype psa_enum_call =
    PsaGetEnums
  | PsaGetEnumDetail string
  | PsaCreateEnum "json option"
  | PsaUpdateEnum string "json option"
  | PsaDeleteEnum string
  | PsaGetEnumValues string
  | PsaAddEnumValue string "json option"
  | PsaUpdateEnumValue string string "json option"
  | PsaDeleteEnumValue string string
  | PsaReorderEnumValues string "json option"
  | PsaListAttributeValidators string string
  | PsaAttachAttributeValidator string "json option"
  | PsaDetachAttributeValidator string "string option" "string option" "string option"
  | PsaGetAttributeRegex string "string option"
  | PsaSetAttributeRegex string "json option"
  | PsaListAttributeMetadata string
  | PsaSetAttributeMetadata string string "json option"
  | PsaRemoveAttributeMetadata string string

fun psa_enum_call_request :: "psa_enum_call \<Rightarrow> wire_call" where
  "psa_enum_call_request PsaGetEnums = call ''/api/psa'' ''GET'' ''/enums'' None"
| "psa_enum_call_request (PsaGetEnumDetail enumId) = call ''/api/psa'' ''GET'' (''/enums/'' @ enumId) None"
| "psa_enum_call_request (PsaCreateEnum body) = call ''/api/psa'' ''POST'' ''/enums'' (body)"
| "psa_enum_call_request (PsaUpdateEnum enumId body) = call ''/api/psa'' ''PUT'' (''/enums/'' @ enumId) body"
| "psa_enum_call_request (PsaDeleteEnum enumId) = call ''/api/psa'' ''DELETE'' (''/enums/'' @ enumId) None"
| "psa_enum_call_request (PsaGetEnumValues enumId) = call ''/api/psa'' ''GET'' (''/enums/'' @ enumId @ ''/values'') None"
| "psa_enum_call_request (PsaAddEnumValue enumId body)
     = call ''/api/psa'' ''POST'' (''/enums/'' @ enumId @ ''/values'') body"
| "psa_enum_call_request (PsaUpdateEnumValue enumId valueId body)
     = call ''/api/psa'' ''PUT'' (''/enums/'' @ enumId @ ''/values/'' @ valueId) body"
| "psa_enum_call_request (PsaDeleteEnumValue enumId valueId)
     = call ''/api/psa'' ''DELETE'' (''/enums/'' @ enumId @ ''/values/'' @ valueId) None"
| "psa_enum_call_request (PsaReorderEnumValues enumId valueIds)
     = call ''/api/psa'' ''PUT'' (''/enums/'' @ enumId @ ''/values/reorder'') (valueIds)"
| "psa_enum_call_request (PsaListAttributeValidators nodeTypeId attrDefId)
     = call ''/api/psa'' ''GET'' (''/metamodel/attributes/'' @ attrDefId @ ''/validators?nodeTypeId='' @ encodeURIComponent nodeTypeId) None"
| "psa_enum_call_request (PsaAttachAttributeValidator attrDefId body)
     = call ''/api/psa'' ''POST'' (''/metamodel/attributes/'' @ attrDefId @ ''/validators'') body"
| "psa_enum_call_request (PsaDetachAttributeValidator attrDefId nodeTypeId stateId instanceId)
     = call ''/api/psa'' ''DELETE'' (''/metamodel/attributes/'' @ attrDefId @ ''/validators?'' @ join ''&'' (opt_part ''nodeTypeId='' (map_option form_encode nodeTypeId) @ opt_part ''stateId='' (map_option form_encode stateId) @ opt_part ''instanceId='' (map_option form_encode instanceId))) None"
| "psa_enum_call_request (PsaGetAttributeRegex attrDefId nodeTypeId)
     = call ''/api/psa'' ''GET'' (''/metamodel/attributes/'' @ attrDefId @ ''/regex'' @ opt_query ''?nodeTypeId='' True nodeTypeId) None"
| "psa_enum_call_request (PsaSetAttributeRegex attrDefId regex)
     = call ''/api/psa'' ''PUT'' (''/metamodel/attributes/'' @ attrDefId @ ''/regex'') (Some (obj_of [(''regex'', regex)]))"
| "psa_enum_call_request (PsaListAttributeMetadata attrDefId)
     = call ''/api/psa'' ''GET'' (''/metamodel/attributes/'' @ attrDefId @ ''/metadata'') None"
| "psa_enum_call_request (PsaSetAttributeMetadata attrDefId key value)
     = call ''/api/psa'' ''PUT'' (''/metamodel/attributes/'' @ attrDefId @ ''/metadata/'' @ encodeURIComponent key)
         (Some (obj_of [(''value'', value)]))"
| "psa_enum_call_request (PsaRemoveAttributeMetadata attrDefId key)
     = call ''/api/psa'' ''DELETE'' (''/metamodel/attributes/'' @ attrDefId @ ''/metadata/'' @ encodeURIComponent key) None"

datatype psa_call = PsaTypes psa_type_call | PsaLinks psa_link_call | PsaLifecycles psa_lifecycle_call | PsaSources psa_source_call | PsaEnums psa_enum_call

fun psa_call_request :: "psa_call \<Rightarrow> wire_call" where
  "psa_call_request (PsaTypes a) = psa_type_call_request a"
| "psa_call_request (PsaLinks a) = psa_link_call_request a"
| "psa_call_request (PsaLifecycles a) = psa_lifecycle_call_request a"
| "psa_call_request (PsaSources a) = psa_source_call_request a"
| "psa_call_request (PsaEnums a) = psa_enum_call_request a"

section \<open>The PSM plugin\<close>

datatype psm_call =
    PsmGetNodeTypeDescriptor string
  | PsmGetLinkTypeDescriptor string
  | PsmGetNodeDescription string "string option" "string option"
  | PsmGetVersionHistory string
  | PsmGetVersionDiff string string string
  | PsmGetSignatures string
  | PsmGetSignatureHistory string
  | PsmGetComments string
  | PsmGetChildLinks string
  | PsmGetParentLinks string
  | PsmUpdateExternalId string "json option"
  | PsmAddComment string "json option" "json option" "json option" "json option"
  | PsmCreateNode string "json jsobj" "json option" "json option"
  | PsmGetSources
  | PsmGetSourceTypes string
  | PsmGetSourceKeys string "string option" string "string option"
  | PsmSuggestSourceKeys string "string option" "string option" "string option"
  | PsmListBaselines
  | PsmCreateBaseline "json option" "json option" "json option"
  | PsmGetBaselineContent string
  | PsmGetDashboardTransaction
  | PsmGetDashboardWorkItems

fun psm_call_request :: "psm_call \<Rightarrow> wire_call" where
  "psm_call_request (PsmGetNodeTypeDescriptor nodeTypeId)
     = call ''/api/psm'' ''GET'' (''/item-type/'' @ nodeTypeId) None"
| "psm_call_request (PsmGetLinkTypeDescriptor linkTypeId)
     = call ''/api/psm'' ''GET'' (''/link-type/'' @ linkTypeId) None"
| "psm_call_request (PsmGetNodeDescription nodeId txId versionNumber) = (let parts = opt_part ''txId='' txId @ opt_part ''versionNumber='' versionNumber
      in call ''/api/psm'' ''GET'' (''/nodes/'' @ nodeId @ ''/description'' @ (if parts = [] then [] else ''?'' @ join ''&'' parts)) None)"
| "psm_call_request (PsmGetVersionHistory nodeId)
     = call ''/api/psm'' ''GET'' (''/nodes/'' @ nodeId @ ''/versions'') None"
| "psm_call_request (PsmGetVersionDiff nodeId v1 v2)
     = call ''/api/psm'' ''GET'' (''/nodes/'' @ nodeId @ ''/versions/diff?v1='' @ v1 @ ''&v2='' @ v2) None"
| "psm_call_request (PsmGetSignatures nodeId)
     = call ''/api/psm'' ''GET'' (''/nodes/'' @ nodeId @ ''/signatures'') None"
| "psm_call_request (PsmGetSignatureHistory nodeId)
     = call ''/api/psm'' ''GET'' (''/nodes/'' @ nodeId @ ''/signatures/history'') None"
| "psm_call_request (PsmGetComments nodeId) = call ''/api/psm'' ''GET'' (''/nodes/'' @ nodeId @ ''/comments'') None"
| "psm_call_request (PsmGetChildLinks nodeId)
     = call ''/api/psm'' ''GET'' (''/nodes/'' @ nodeId @ ''/links/children'') None"
| "psm_call_request (PsmGetParentLinks nodeId)
     = call ''/api/psm'' ''GET'' (''/nodes/'' @ nodeId @ ''/links/parents'') None"
| "psm_call_request (PsmUpdateExternalId nodeId externalId)
     = call ''/api/psm'' ''PATCH'' (''/nodes/'' @ nodeId @ ''/external-id'') (Some (obj_of [(''externalId'', externalId)]))"
| "psm_call_request (PsmAddComment nodeId nodeVersionId commentText parentCommentId attributeName)
     = call ''/api/psm'' ''POST'' (''/nodes/'' @ nodeId @ ''/comments'')
      (Some (obj_of [(''nodeVersionId'', nodeVersionId), (''text'', commentText), (''parentCommentId'', if_truthy parentCommentId), (''attributeName'', if_truthy attributeName)]))"
| "psm_call_request (PsmCreateNode nodeTypeId attributes logicalId externalId)
     = call ''/api/psm'' ''POST'' (''/actions/create_node/'' @ nodeTypeId)
      (Some (JObj [(''parameters'', JObj (obj_put ''_externalId'' (the (or_null externalId)) (obj_put ''_logicalId'' (the (or_null logicalId)) (obj_merge [] attributes))))]))"
| "psm_call_request PsmGetSources = call ''/api/psm'' ''GET'' ''/sources'' None"
| "psm_call_request (PsmGetSourceTypes sourceCode)
     = call ''/api/psm'' ''GET'' (''/sources/'' @ sourceCode @ ''/types'') None"
| "psm_call_request (PsmGetSourceKeys sourceId keyType q limit)
     = call ''/api/psm'' ''GET'' (''/sources/'' @ encodeURIComponent sourceId @ ''/keys?'' @ key_params keyType (Some q) limit) None"
| "psm_call_request (PsmSuggestSourceKeys sourceCode keyType query limit)
     = call ''/api/psm'' ''GET'' (''/sources/'' @ sourceCode @ ''/keys?'' @ key_params keyType query limit) None"
| "psm_call_request PsmListBaselines = call ''/api/psm'' ''GET'' ''/baselines'' None"
| "psm_call_request (PsmCreateBaseline rootNodeId name description)
     = call ''/api/psm'' ''POST'' ''/baselines''
         (Some (obj_of [(''rootNodeId'', rootNodeId), (''name'', name), (''description'', description)]))"
| "psm_call_request (PsmGetBaselineContent baselineId)
     = call ''/api/psm'' ''GET'' (''/baselines/'' @ baselineId @ ''/content'') None"
| "psm_call_request PsmGetDashboardTransaction = call ''/api/psm'' ''GET'' ''/dashboard/transaction'' None"
| "psm_call_request PsmGetDashboardWorkItems = call ''/api/psm'' ''GET'' ''/dashboard/workitems'' None"

section \<open>The data store plugin\<close>

datatype dst_call =
    DstList "string option" "string option"
  | DstGetMetadata string
  | DstGetDetail string
  | DstRef string
  | DstUnref string
  | DstGetStats

fun dst_call_request :: "dst_call \<Rightarrow> wire_call" where
  "dst_call_request (DstList page limit)
     = call ''/api/dst'' ''GET'' (''/data?page='' @ (case page of None \<Rightarrow> ''0'' | Some p \<Rightarrow> p) @ ''&size='' @ (case limit of None \<Rightarrow> ''50'' | Some l \<Rightarrow> l)) None"
| "dst_call_request (DstGetMetadata itemId) = call ''/api/dst'' ''GET'' (''/data/'' @ itemId @ ''/metadata'') None"
| "dst_call_request (DstGetDetail itemId) = call ''/api/dst'' ''GET'' (''/data/'' @ itemId @ ''/detail'') None"
| "dst_call_request (DstRef itemId) = call ''/api/dst'' ''POST'' (''/data/'' @ itemId @ ''/ref'') None"
| "dst_call_request (DstUnref itemId) = call ''/api/dst'' ''POST'' (''/data/'' @ itemId @ ''/unref'') None"
| "dst_call_request DstGetStats = call ''/api/dst'' ''GET'' ''/stats'' None"

definition upload_form :: "json \<Rightarrow> string option \<Rightarrow> (string \<times> json) list" where
  "upload_form content name = (''file'', content) # (case name of Some n \<Rightarrow> if n = [] then [] else [(''name'', JStr n)] | None \<Rightarrow> [])"

definition dst_upload :: "network \<Rightarrow> json \<Rightarrow> string option \<Rightarrow> client \<Rightarrow> (thrown + response) \<times> client" where
  "dst_upload net content name c = serviceUpload net ''dst'' ''/data'' (upload_form content name) c"

definition dst_download :: "network \<Rightarrow> string \<Rightarrow> client \<Rightarrow> (thrown + body_text) \<times> client" where
  \<comment> \<open>\<open>downloadFile\<close>: a plain \<open>fetch\<close>, which the call statistics do not see\<close>
  "dst_download net uuid c =
     (let rq = \<lparr>rq_method = ''GET'', rq_url = ''/api/dst/data/'' @ uuid,
            rq_headers = bearer c @ (if truthy (projectSpaceId c) then [(''X-PLM-ProjectSpace'', opt_string (projectSpaceId c))] else []),
            rq_body = NoBody\<rparr>;
          c1 = c\<lparr>sent := sent c @ [rq]\<rparr>
      in case net (sent c) rq of
           NetworkFailure _ \<Rightarrow> (Inl network_error, c1)
         | Reply r \<Rightarrow> (if r_ok r then Inr (r_text r) else Inl (status_error ''Download failed: '' r), c1))"

section \<open>Descriptor caches of the PSM plugin\<close>

record psm_plugin =
  psm_http :: client
  domainDescs :: "(string \<times> (thrown + json)) list"      \<comment> \<open>\<open>_domainDescCache\<close>: promises, by what they settle to\<close>
  linkTypes :: "(string \<times> json) list"                   \<comment> \<open>\<open>_cache\<close> of \<open>linkTypeCache.js\<close>\<close>

definition getDomainDescriptor :: "network \<Rightarrow> string \<Rightarrow> psm_plugin \<Rightarrow> (thrown + json) \<times> psm_plugin" where
  "getDomainDescriptor net domainId p = (case map_of (domainDescs p) domainId of
       Some res \<Rightarrow> (res, p)
     | None \<Rightarrow> (let (res, c) = serviceRequest net ''psm'' ''GET'' (''/item-type/domain/'' @ domainId) None (psm_http p)
                in (res, p\<lparr>psm_http := c, domainDescs := AList.update domainId res (domainDescs p)\<rparr>)))"

definition clearDomainDescriptorCache :: "psm_plugin \<Rightarrow> psm_plugin" where
  "clearDomainDescriptorCache p = p\<lparr>domainDescs := []\<rparr>"

definition getLinkTypeDescriptor :: "string \<Rightarrow> psm_plugin \<Rightarrow> json option" where
  \<comment> \<open>the cached descriptor; None where \<open>fetchFn\<close> is called and awaited\<close>
  "getLinkTypeDescriptor linkTypeId p = map_of (linkTypes p) linkTypeId"

definition link_type_arrived :: "string \<Rightarrow> thrown + json \<Rightarrow> psm_plugin \<Rightarrow> psm_plugin" where
  \<comment> \<open>after the \<open>await\<close>; an error is thrown on to the caller\<close>
  "link_type_arrived linkTypeId answer p = (case answer of Inl _ \<Rightarrow> p
     | Inr d \<Rightarrow> p\<lparr>linkTypes := AList.update linkTypeId d (linkTypes p)\<rparr>)"

definition clearLinkTypeCache :: "psm_plugin \<Rightarrow> psm_plugin" where
  "clearLinkTypeCache p = p\<lparr>linkTypes := []\<rparr>"

section \<open>Facts: the functions the shell has too\<close>

definition perform_psa :: "network \<Rightarrow> psa_call \<Rightarrow> client \<Rightarrow> (thrown + json) \<times> client" where
  "perform_psa net a c = (let q = psa_call_request a in serviceRequest net ''psa'' (c_method q) (c_path q) (c_body q) c)"

definition perform_psm :: "network \<Rightarrow> psm_call \<Rightarrow> client \<Rightarrow> (thrown + json) \<times> client" where
  "perform_psm net a c = (let q = psm_call_request a in serviceRequest net ''psm'' (c_method q) (c_path q) (c_body q) c)"

text \<open>The function of the shell's \<open>api\<close> object of the same name and with the same arguments, where
  there is one; \<open>u\<close> is the user the shell is given.\<close>

fun psa_type_shell :: "psa_type_call \<Rightarrow> api_call option" where
  "psa_type_shell (PsaGetMetadataKeys a) = Some (Nodes (GetMetadataKeys a))"
| "psa_type_shell PsaGetNodeTypes = Some (Nodes GetNodeTypes)"
| "psa_type_shell (PsaCreateNodeType a) = Some (NodeTypes (CreateNodeType a))"
| "psa_type_shell (PsaDeleteNodeType a) = Some (NodeTypes (DeleteNodeType a))"
| "psa_type_shell (PsaUpdateNodeTypeIdentity a b) = Some (NodeTypes (UpdateNodeTypeIdentity a b))"
| "psa_type_shell (PsaUpdateNodeTypeNumberingScheme a b) = Some (NodeTypes (UpdateNodeTypeNumberingScheme a b))"
| "psa_type_shell (PsaUpdateNodeTypeVersionPolicy a b) = Some (NodeTypes (UpdateNodeTypeVersionPolicy a b))"
| "psa_type_shell (PsaUpdateNodeTypeCollapseHistory a b) = Some (NodeTypes (UpdateNodeTypeCollapseHistory a b))"
| "psa_type_shell (PsaUpdateNodeTypeLifecycle a b) = Some (NodeTypes (UpdateNodeTypeLifecycle a b))"
| "psa_type_shell (PsaUpdateNodeTypeAppearance a b c) = Some (NodeTypes (UpdateNodeTypeAppearance a b c))"
| "psa_type_shell (PsaUpdateNodeTypeParent a b) = Some (NodeTypes (UpdateNodeTypeParent a b))"
| "psa_type_shell (PsaGetNodeTypeAttributes a) = Some (NodeTypes (GetNodeTypeAttributes a))"
| "psa_type_shell (PsaCreateAttribute a b) = Some (NodeTypes (CreateAttribute a b))"
| "psa_type_shell (PsaUpdateAttribute a b c) = Some (NodeTypes (UpdateAttribute a b c))"
| "psa_type_shell (PsaDeleteAttribute a b) = Some (NodeTypes (DeleteAttribute a b))"
| "psa_type_shell PsaGetAllActions = Some (Registry GetAllActions)"
| "psa_type_shell (PsaGetActionsForNodeType a) = Some (Registry (GetActionsForNodeType a))"
| "psa_type_shell (PsaRegisterCustomAction a) = Some (Registry (RegisterCustomAction a))"

fun psa_link_shell :: "psa_link_call \<Rightarrow> api_call option" where
  "psa_link_shell PsaGetLinkTypes = Some (Nodes GetLinkTypes)"
| "psa_link_shell (PsaGetNodeTypeLinkTypes a) = Some (Nodes (GetNodeTypeLinkTypes a))"
| "psa_link_shell (PsaCreateLinkType a) = Some (NodeTypes (CreateLinkType a))"
| "psa_link_shell (PsaUpdateLinkType a b) = Some (NodeTypes (UpdateLinkType a b))"
| "psa_link_shell (PsaDeleteLinkType a) = Some (NodeTypes (DeleteLinkType a))"
| "psa_link_shell (PsaGetLinkTypeAttributes a) = Some (NodeTypes (GetLinkTypeAttributes a))"
| "psa_link_shell (PsaCreateLinkTypeAttribute a b) = Some (NodeTypes (CreateLinkTypeAttribute a b))"
| "psa_link_shell (PsaUpdateLinkTypeAttribute a b c) = Some (NodeTypes (UpdateLinkTypeAttribute a b c))"
| "psa_link_shell (PsaDeleteLinkTypeAttribute a b) = Some (NodeTypes (DeleteLinkTypeAttribute a b))"
| "psa_link_shell (PsaGetLinkTypeCascades a) = Some (NodeTypes (GetLinkTypeCascades a))"
| "psa_link_shell (PsaCreateLinkTypeCascade a b c d) = Some (NodeTypes (CreateLinkTypeCascade a b c d))"
| "psa_link_shell (PsaDeleteLinkTypeCascade _ _) = None"

fun psa_lifecycle_shell :: "psa_lifecycle_call \<Rightarrow> api_call option" where
  "psa_lifecycle_shell PsaGetLifecycles = Some (Lifecycles GetLifecycles)"
| "psa_lifecycle_shell (PsaGetLifecycleStates a) = Some (Lifecycles (GetLifecycleStates a))"
| "psa_lifecycle_shell (PsaGetLifecycleTransitions a) = Some (Lifecycles (GetLifecycleTransitions a))"
| "psa_lifecycle_shell (PsaCreateLifecycle a) = Some (Lifecycles (CreateLifecycle a))"
| "psa_lifecycle_shell (PsaDuplicateLifecycle _ _ _) = None"
| "psa_lifecycle_shell (PsaDeleteLifecycle a) = Some (Lifecycles (DeleteLifecycle a))"
| "psa_lifecycle_shell (PsaAddLifecycleState a b) = Some (Lifecycles (AddLifecycleState a b))"
| "psa_lifecycle_shell (PsaUpdateLifecycleState a b c) = Some (Lifecycles (UpdateLifecycleState a b c))"
| "psa_lifecycle_shell (PsaDeleteLifecycleState a b) = Some (Lifecycles (DeleteLifecycleState a b))"
| "psa_lifecycle_shell (PsaListLifecycleStateActions a b) = Some (Lifecycles (ListLifecycleStateActions a b))"
| "psa_lifecycle_shell (PsaAttachLifecycleStateAction a b c d e f) = Some (Lifecycles (AttachLifecycleStateAction a b c d e f))"
| "psa_lifecycle_shell (PsaDetachLifecycleStateAction a b c) = Some (Lifecycles (DetachLifecycleStateAction a b c))"
| "psa_lifecycle_shell (PsaAddLifecycleTransition a b) = Some (Lifecycles (AddLifecycleTransition a b))"
| "psa_lifecycle_shell (PsaUpdateLifecycleTransition a b c) = Some (Lifecycles (UpdateLifecycleTransition a b c))"
| "psa_lifecycle_shell (PsaDeleteLifecycleTransition a b) = Some (Lifecycles (DeleteLifecycleTransition a b))"
| "psa_lifecycle_shell (PsaAddTransitionSignatureRequirement a b c) = Some (Lifecycles (AddTransitionSignatureRequirement a b c))"
| "psa_lifecycle_shell (PsaRemoveTransitionSignatureRequirement a b) = Some (Lifecycles (RemoveTransitionSignatureRequirement a b))"
| "psa_lifecycle_shell (PsaListTransitionGuards a) = Some (Admin (ListTransitionGuards a))"
| "psa_lifecycle_shell (PsaAttachTransitionGuard a b c d) = Some (Admin (AttachTransitionGuard a b c d))"
| "psa_lifecycle_shell (PsaUpdateTransitionGuard a b) = Some (Admin (UpdateTransitionGuard a b))"
| "psa_lifecycle_shell (PsaDetachTransitionGuard a) = Some (Admin (DetachTransitionGuard a))"

fun psa_source_shell :: "psa_source_call \<Rightarrow> api_call option" where
  "psa_source_shell PsaGetSources = Some (Sources GetSources)"
| "psa_source_shell PsaGetSourceResolvers = None"
| "psa_source_shell (PsaCreateSource a) = Some (Sources (CreateSource a))"
| "psa_source_shell (PsaUpdateSource a b) = Some (Sources (UpdateSource a b))"
| "psa_source_shell (PsaDeleteSource a) = Some (Sources (DeleteSource a))"
| "psa_source_shell PsaGetImportContexts = Some (Sources GetImportContexts)"
| "psa_source_shell (PsaCreateImportContext a) = Some (Sources (CreateImportContext a))"
| "psa_source_shell (PsaUpdateImportContext a b) = Some (Sources (UpdateImportContext a b))"
| "psa_source_shell (PsaDeleteImportContext a) = Some (Sources (DeleteImportContext a))"
| "psa_source_shell PsaGetImportAlgorithmInstances = Some (Sources GetImportAlgorithmInstances)"
| "psa_source_shell PsaGetValidationAlgorithmInstances = Some (Sources GetValidationAlgorithmInstances)"
| "psa_source_shell PsaGetDomains = Some (Registry GetDomains)"
| "psa_source_shell (PsaCreateDomain a) = Some (Registry (CreateDomain a))"
| "psa_source_shell (PsaUpdateDomain a b) = Some (Registry (UpdateDomain a b))"
| "psa_source_shell (PsaDeleteDomain a) = Some (Registry (DeleteDomain a))"
| "psa_source_shell (PsaGetDomainAttributes a) = Some (Registry (GetDomainAttributes a))"
| "psa_source_shell (PsaCreateDomainAttribute a b) = Some (Registry (CreateDomainAttribute a b))"
| "psa_source_shell (PsaUpdateDomainAttribute a b c) = Some (Registry (UpdateDomainAttribute a b c))"
| "psa_source_shell (PsaDeleteDomainAttribute a b) = Some (Registry (DeleteDomainAttribute a b))"

fun psa_enum_shell :: "psa_enum_call \<Rightarrow> api_call option" where
  "psa_enum_shell PsaGetEnums = Some (Enums GetEnums)"
| "psa_enum_shell (PsaGetEnumDetail a) = Some (Enums (GetEnumDetail a))"
| "psa_enum_shell (PsaCreateEnum a) = Some (Enums (CreateEnum a))"
| "psa_enum_shell (PsaUpdateEnum a b) = Some (Enums (UpdateEnum a b))"
| "psa_enum_shell (PsaDeleteEnum a) = Some (Enums (DeleteEnum a))"
| "psa_enum_shell (PsaGetEnumValues a) = Some (Enums (GetEnumValues a))"
| "psa_enum_shell (PsaAddEnumValue a b) = Some (Enums (AddEnumValue a b))"
| "psa_enum_shell (PsaUpdateEnumValue a b c) = Some (Enums (UpdateEnumValue a b c))"
| "psa_enum_shell (PsaDeleteEnumValue a b) = Some (Enums (DeleteEnumValue a b))"
| "psa_enum_shell (PsaReorderEnumValues a b) = Some (Enums (ReorderEnumValues a b))"
| "psa_enum_shell (PsaListAttributeValidators _ _) = None"
| "psa_enum_shell (PsaAttachAttributeValidator _ _) = None"
| "psa_enum_shell (PsaDetachAttributeValidator _ _ _ _) = None"
| "psa_enum_shell (PsaGetAttributeRegex _ _) = None"
| "psa_enum_shell (PsaSetAttributeRegex _ _) = None"
| "psa_enum_shell (PsaListAttributeMetadata _) = None"
| "psa_enum_shell (PsaSetAttributeMetadata _ _ _) = None"
| "psa_enum_shell (PsaRemoveAttributeMetadata _ _) = None"

fun psa_shell :: "psa_call \<Rightarrow> api_call option" where
  "psa_shell (PsaTypes a) = psa_type_shell a"
| "psa_shell (PsaLinks a) = psa_link_shell a"
| "psa_shell (PsaLifecycles a) = psa_lifecycle_shell a"
| "psa_shell (PsaSources a) = psa_source_shell a"
| "psa_shell (PsaEnums a) = psa_enum_shell a"

fun psm_shell :: "json option \<Rightarrow> psm_call \<Rightarrow> api_call option" where
  "psm_shell _ (PsmGetNodeTypeDescriptor _) = None"
| "psm_shell _ (PsmGetLinkTypeDescriptor _) = None"
| "psm_shell _ (PsmGetNodeDescription a b c) = Some (Nodes (GetNodeDescription a b c))"
| "psm_shell _ (PsmGetVersionHistory a) = Some (Nodes (GetVersionHistory a))"
| "psm_shell _ (PsmGetVersionDiff a b c) = Some (Nodes (GetVersionDiff a b c))"
| "psm_shell _ (PsmGetSignatures a) = Some (Nodes (GetSignatures a))"
| "psm_shell _ (PsmGetSignatureHistory a) = Some (Nodes (GetSignatureHistory a))"
| "psm_shell _ (PsmGetComments a) = Some (Nodes (GetComments a))"
| "psm_shell _ (PsmGetChildLinks a) = Some (Links (GetChildLinks a))"
| "psm_shell _ (PsmGetParentLinks a) = Some (Links (GetParentLinks a))"
| "psm_shell _ (PsmUpdateExternalId a b) = Some (Nodes (UpdateExternalId a b))"
| "psm_shell _ (PsmAddComment a b c d e) = Some (Nodes (AddComment a b c d e))"
| "psm_shell _ (PsmCreateNode a b c d) = Some (Nodes (CreateNode a b c d))"
| "psm_shell _ PsmGetSources = Some (Sources GetSources)"
| "psm_shell _ (PsmGetSourceTypes a) = Some (Sources (GetSourceTypes a))"
| "psm_shell _ (PsmGetSourceKeys a b c d) = Some (Links (GetSourceKeys a b c d))"
| "psm_shell _ (PsmSuggestSourceKeys a b c d) = Some (Sources (SuggestSourceKeys a b c d))"
| "psm_shell _ PsmListBaselines = Some (Enums ListBaselines)"
| "psm_shell u (PsmCreateBaseline a b c) = Some (Enums (CreateBaseline u a b c))"
| "psm_shell _ (PsmGetBaselineContent a) = Some (Enums (GetBaselineContent a))"
| "psm_shell _ PsmGetDashboardTransaction = None"
| "psm_shell _ PsmGetDashboardWorkItems = None"

lemma psa_type_agree: "psa_type_shell a = Some b \<Longrightarrow> api_request b = psa_type_call_request a"
  by (cases a) (auto simp: call_def)

lemma psa_link_agree: "psa_link_shell a = Some b \<Longrightarrow> api_request b = psa_link_call_request a"
  by (cases a) (auto simp: call_def)

lemma psa_lifecycle_agree: "psa_lifecycle_shell a = Some b \<Longrightarrow> api_request b = psa_lifecycle_call_request a"
  by (cases a) (auto simp: call_def)

lemma psa_source_agree: "psa_source_shell a = Some b \<Longrightarrow> a \<noteq> PsaGetSources \<Longrightarrow> api_request b = psa_source_call_request a"
  by (cases a) (auto simp: call_def)

lemma psa_enum_agree: "psa_enum_shell a = Some b \<Longrightarrow> api_request b = psa_enum_call_request a"
  by (cases a) (auto simp: call_def)

lemma psa_requests_agree: "psa_shell a = Some b \<Longrightarrow> a \<noteq> PsaSources PsaGetSources \<Longrightarrow> api_request b = psa_call_request a"
  by (cases a) (auto intro: psa_type_agree psa_link_agree psa_lifecycle_agree psa_source_agree psa_enum_agree)

lemma psm_requests_agree: "psm_shell None a = Some b \<Longrightarrow> api_request b = psm_call_request a"
  by (cases a) (auto simp: call_def obj_of_def Let_def)

lemma psa_type_base: "c_base (psa_type_call_request a) = ''/api/psa''"
  by (cases a) (simp_all add: call_def)

lemma psa_link_base: "c_base (psa_link_call_request a) = ''/api/psa''"
  by (cases a) (simp_all add: call_def)

lemma psa_lifecycle_base: "c_base (psa_lifecycle_call_request a) = ''/api/psa''"
  by (cases a) (simp_all add: call_def)

lemma psa_source_base: "c_base (psa_source_call_request a) = ''/api/psa''"
  by (cases a) (simp_all add: call_def)

lemma psa_enum_base: "c_base (psa_enum_call_request a) = ''/api/psa''"
  by (cases a) (simp_all add: call_def)

lemma psa_base: "c_base (psa_call_request a) = ''/api/psa''"
  by (cases a) (simp_all add: psa_type_base psa_link_base psa_lifecycle_base psa_source_base psa_enum_base)

lemma psm_base: "c_base (psm_call_request a) = ''/api/psm''"
  by (cases a) (simp_all add: call_def Let_def)



text \<open>Deleting a cascade rule is where they part: the plugin names the rule by its own id, the shell
  by its transition and its state, the two segments of the route of the service. The plugin's request
  is one of that route only if the id of the rule is those two ids joined by a slash.\<close>

theorem cascade_delete_misses_route:
  "psa_link_call_request (PsaDeleteLinkTypeCascade l ruleId) = nodetype_call_request (DeleteLinkTypeCascade l transId stateId)
   \<longleftrightarrow> ruleId = transId @ ''/'' @ stateId"
  by (simp add: call_def)

text \<open>And duplicating a lifecycle: only the plugin sends the code of the copy, which the service
  validates before anything else.\<close>

theorem duplicate_without_code:
  "jprop (c_body (lifecycle_call_request (DuplicateLifecycle l (Some (JStr n))))) ''code'' = None
   \<and> jprop (c_body (psa_lifecycle_call_request (PsaDuplicateLifecycle l (Some (JStr k)) (Some (JStr n))))) ''code'' = Some (JStr k)"
  by (simp add: call_def obj_of_def List.map_filter_def jprop_def obj_get_def)

section \<open>Facts: the caches\<close>

lemma domain_descriptor_cached:
  \<comment> \<open>a second call asks nothing and gives what the first one gave\<close>
  "getDomainDescriptor net k p = (res, p') \<Longrightarrow> getDomainDescriptor net' k p' = (res, p')"
  by (auto simp: getDomainDescriptor_def update_conv' split: option.splits prod.splits)

text \<open>So a failure is remembered like an answer: whatever the network does later, the descriptor of
  that domain fails without a request, until the meta-model changes and the cache is cleared.\<close>

theorem domain_failure_sticks:
  "getDomainDescriptor net k p = (Inl e, p') \<Longrightarrow> getDomainDescriptor net' k (p'\<lparr>psm_http := c\<rparr>) = (Inl e, p'\<lparr>psm_http := c\<rparr>)"
  by (auto simp: getDomainDescriptor_def update_conv' split: option.splits prod.splits)

text \<open>The cache of link types forgets failures, but stores an answer that was asked for before it was
  cleared.\<close>

theorem late_link_type_survives_clear:
  "getLinkTypeDescriptor k (link_type_arrived k (Inr old) (clearLinkTypeCache p)) = Some old
   \<and> link_type_arrived k (Inl e) p = p"
  by (simp add: getLinkTypeDescriptor_def link_type_arrived_def update_conv')

end
