(* ===== verification/Diagram.thy ===== *)
theory Diagram
  imports JsValue Complex_Main
begin

text \<open>
  The diagram of a lifecycle, \<open>frontend/src/components/LifecycleDiagram.jsx\<close>: states are boxes in a row,
  transitions are rails above it (towards later states) or below it (towards earlier ones), and the
  rails that meet at one edge of a box get attachment points of their own. The model is the layout:
  every coordinate up to the path commands. Coordinates are rationals where the code has doubles;
  colours, fonts and pointer feedback are left out. States and transitions are JSON objects of the
  service, in lower or upper case column names.
\<close>

section \<open>Boxes\<close>

definition BOX_W :: rat where "BOX_W = 110"
definition BOX_H :: rat where "BOX_H = 36"
definition H_GAP :: rat where "H_GAP = 72"
definition SVG_PAD :: rat where "SVG_PAD = 28"
definition BASE_CURVE :: rat where "BASE_CURVE = 46"
definition CURVE_STEP :: rat where "CURVE_STEP = 32"
definition CORNER :: rat where "CORNER = 10"          \<comment> \<open>\<open>R\<close>\<close>
definition BTN_H :: rat where "BTN_H = 16"
definition CHIP_GAP :: rat where "CHIP_GAP = 4"
definition SPREAD :: rat where "SPREAD = BOX_W * 3 / 5"

lemmas diagram_sizes = BOX_W_def BOX_H_def H_GAP_def SVG_PAD_def BASE_CURVE_def CURVE_STEP_def CORNER_def
  BTN_H_def CHIP_GAP_def SPREAD_def

definition db_column :: "json \<Rightarrow> string \<Rightarrow> string \<Rightarrow> json option" where
  \<comment> \<open>\<open>o.name || o.NAME\<close>\<close>
  "db_column d lower upper = js_or (jprop (Some d) lower) (jprop (Some d) upper)"

definition state_id :: "json \<Rightarrow> string" where
  "state_id s = opt_string (db_column s ''id'' ''ID'')"

definition display_order :: "json \<Rightarrow> int" where
  "display_order s = (case js_coalesce (js_coalesce (jprop (Some s) ''display_order'') (jprop (Some s) ''DISPLAY_ORDER'')) (Some (JNum 0)) of
       Some (JNum n) \<Rightarrow> n | _ \<Rightarrow> 0)"

definition sorted_states :: "json list \<Rightarrow> json list" where
  "sorted_states states = sort_key display_order states"

definition js_object :: "('k \<times> 'v) list \<Rightarrow> ('k \<times> 'v) list" where
  \<comment> \<open>the object after the assignments \<open>m[k] = v\<close>, in their order\<close>
  "js_object kvs = fold (\<lambda>(k, v). AList.update k v) kvs []"

definition indexMap :: "json list \<Rightarrow> (string \<times> nat) list" where
  "indexMap ss = js_object (map (\<lambda>(i, s). (state_id s, i)) (enumerate 0 ss))"

definition center :: "nat \<Rightarrow> rat" where
  "center i = SVG_PAD + of_nat i * (BOX_W + H_GAP) + BOX_W / 2"

definition stateX :: "json list \<Rightarrow> (string \<times> rat) list" where
  "stateX ss = js_object (map (\<lambda>(i, s). (state_id s, center i)) (enumerate 0 ss))"

section \<open>Transitions\<close>

record transition =
  tr_json :: json
  fromId :: string
  toId :: string
  fromIdx :: nat
  toIdx :: nat
  tr_i :: nat

definition span :: "transition \<Rightarrow> int" where
  "span t = int (toIdx t) - int (fromIdx t)"

definition enrich :: "json list \<Rightarrow> nat \<times> json \<Rightarrow> transition" where
  "enrich ss e = (case e of (i, t) \<Rightarrow>
     let f = opt_string (db_column t ''from_state_id'' ''FROM_STATE_ID''); g = opt_string (db_column t ''to_state_id'' ''TO_STATE_ID'');
         index = (\<lambda>k. case map_of (indexMap ss) k of Some j \<Rightarrow> j | None \<Rightarrow> 0)
     in \<lparr>tr_json = t, fromId = f, toId = g, fromIdx = index f, toIdx = index g, tr_i = i\<rparr>)"

definition enriched :: "json list \<Rightarrow> json list \<Rightarrow> transition list" where
  \<comment> \<open>\<open>stateX[id]\<close> is truthy where it is defined, since centres are positive\<close>
  "enriched ss ts = filter (\<lambda>t. map_of (stateX ss) (fromId t) \<noteq> None \<and> map_of (stateX ss) (toId t) \<noteq> None \<and> span t \<noteq> 0)
     (map (enrich ss) (enumerate 0 ts))"

section \<open>Attachment points\<close>

record conn =
  cn_t :: nat
  cn_from :: bool                  \<comment> \<open>role: \<open>'from'\<close> or \<open>'to'\<close>\<close>
  cn_other :: nat

definition edge_of :: "transition \<Rightarrow> string" where
  "edge_of t = (if span t > 0 then ''top'' else ''bot'')"

definition edge_key :: "string \<Rightarrow> string \<Rightarrow> string" where
  "edge_key sid e = sid @ ''::'' @ e"

definition conns :: "transition \<Rightarrow> (string \<times> conn) list" where
  "conns t = [(edge_key (fromId t) (edge_of t), \<lparr>cn_t = tr_i t, cn_from = True, cn_other = toIdx t\<rparr>),
              (edge_key (toId t) (edge_of t), \<lparr>cn_t = tr_i t, cn_from = False, cn_other = fromIdx t\<rparr>)]"

definition edgeConns :: "transition list \<Rightarrow> (string \<times> conn list) list" where
  "edgeConns enr = map (\<lambda>(k, cs). (k, map snd cs)) (fold (group_add fst) (concat (map conns enr)) [])"

definition edge_order :: "string \<Rightarrow> nat \<Rightarrow> conn list \<Rightarrow> conn list" where
  \<comment> \<open>\<open>ordered\<close>, left to right\<close>
  "edge_order edge idxS cs =
     (let dist = (\<lambda>c. \<bar>int (cn_other c) - int idxS\<bar>);
          incoming = filter (\<lambda>c. \<not> cn_from c) cs; outgoing = filter cn_from cs
      in if edge = ''top'' then sort_key dist incoming @ sort_key (\<lambda>c. - dist c) outgoing
         else sort_key dist outgoing @ sort_key (\<lambda>c. - dist c) incoming)"

definition spread_points :: "json list \<Rightarrow> string \<times> conn list \<Rightarrow> (conn \<times> rat) list" where
  \<comment> \<open>the points of one edge; a state id with \<open>::\<close> in it would give \<open>NaN\<close>, here no point\<close>
  "spread_points ss g = (case g of (key, cs) \<Rightarrow>
     if length cs \<le> 1 then []
     else (let sepIdx = nat (index_of ''::'' key 0); sid = take sepIdx key; edge = drop (sepIdx + 2) key
           in case (map_of (indexMap ss) sid, map_of (stateX ss) sid) of
                (Some idxS, Some cx) \<Rightarrow>
                  (let ordered = edge_order edge idxS cs; startX = cx - SPREAD / 2; step = SPREAD / (of_nat (length ordered) - 1)
                   in map (\<lambda>(i, c). (c, startX + of_nat i * step)) (enumerate 0 ordered))
              | _ \<Rightarrow> []))"

definition put_point :: "conn \<times> rat \<Rightarrow> (nat \<times> rat \<times> rat) list \<Rightarrow> (nat \<times> rat \<times> rat) list" where
  "put_point p m = (case p of (c, x) \<Rightarrow> AList.map_entry (cn_t c) (\<lambda>(x1, x2). if cn_from c then (x, x2) else (x1, x)) m)"

definition connX :: "json list \<Rightarrow> transition list \<Rightarrow> (nat \<times> rat \<times> rat) list" where
  "connX ss enr = fold put_point (concat (map (spread_points ss) (edgeConns enr)))
     (map (\<lambda>t. (tr_i t, the (map_of (stateX ss) (fromId t)), the (map_of (stateX ss) (toId t)))) enr)"

section \<open>Rows and rails\<close>

definition max_span :: "transition list \<Rightarrow> int" where
  \<comment> \<open>\<open>Math.max(...)\<close> of the spans, 0 where there is none\<close>
  "max_span ts = fold (\<lambda>t m. max m \<bar>span t\<bar>) ts 0"

definition rail_offset :: "int \<Rightarrow> rat" where
  "rail_offset absSpan = BASE_CURVE + (of_int absSpan - 1) * CURVE_STEP"

record layout =
  ROW_Y :: rat
  svgWidth :: rat
  svgHeight :: rat

definition layout_of :: "json list \<Rightarrow> transition list \<Rightarrow> layout" where
  "layout_of ss enr =
     (let maxFwdSpan = max_span (filter (\<lambda>t. span t > 0) enr); maxBwdSpan = max_span (filter (\<lambda>t. span t < 0) enr);
          topSpace = (if maxFwdSpan > 0 then rail_offset maxFwdSpan + BTN_H + 16 else 20);
          botSpace = (if maxBwdSpan > 0 then rail_offset maxBwdSpan + BTN_H + 28 else 30);
          y = SVG_PAD + topSpace + BOX_H / 2
      in \<lparr>ROW_Y = y, svgWidth = SVG_PAD * 2 + of_nat (length ss) * (BOX_W + H_GAP) - H_GAP,
          svgHeight = y + BOX_H / 2 + botSpace + SVG_PAD\<rparr>)"

record rail =
  rl_x1 :: rat
  rl_x2 :: rat
  connY :: rat
  midY :: rat

definition rail_of :: "json list \<Rightarrow> transition list \<Rightarrow> transition \<Rightarrow> rail" where
  "rail_of ss enr t =
     (let (p1, p2) = the (map_of (connX ss enr) (tr_i t)); y = ROW_Y (layout_of ss enr);
          c = (if span t > 0 then y - BOX_H / 2 else y + BOX_H / 2); offset = rail_offset \<bar>span t\<bar>
      in \<lparr>rl_x1 = p1, rl_x2 = p2, connY = c, midY = (if span t > 0 then c - offset else c + offset)\<rparr>)"

definition midX :: "rail \<Rightarrow> rat" where
  "midX r = (rl_x1 r + rl_x2 r) / 2"

text \<open>What the label needs to know: which transitions the current state offers, and which of them a
  guard holds back. A blocked label starts with a cross and a space.\<close>

record lc_view =
  currentStateId :: "string option"
  availableTransitionNames :: "string list option"
  transitionGuardViolations :: "(string \<times> json list) list"
  previewMode :: bool
  onTransition :: bool                                \<comment> \<open>a callback is given\<close>

definition tr_name :: "transition \<Rightarrow> string" where
  "tr_name t = (let n = db_column (tr_json t) ''name'' ''NAME'' in if truthy n then opt_string n else [])"

definition from_current :: "lc_view \<Rightarrow> transition \<Rightarrow> bool" where
  "from_current v t \<longleftrightarrow> \<not> previewMode v \<and> currentStateId v = Some (fromId t)"

definition has_violations :: "lc_view \<Rightarrow> transition \<Rightarrow> bool" where
  "has_violations v t \<longleftrightarrow> or_nil (map_of (transitionGuardViolations v) (tr_name t)) \<noteq> []"

definition blocked :: "lc_view \<Rightarrow> transition \<Rightarrow> bool" where
  "blocked v t \<longleftrightarrow> has_violations v t
     \<or> from_current v t \<and> (case availableTransitionNames v of None \<Rightarrow> False | Some ns \<Rightarrow> tr_name t \<notin> set ns)"

definition can_click :: "lc_view \<Rightarrow> transition \<Rightarrow> bool" where
  "can_click v t \<longleftrightarrow> from_current v t \<and> \<not> blocked v t \<and> onTransition v \<and> \<not> previewMode v"

definition chip_half_width :: "lc_view \<Rightarrow> transition \<Rightarrow> rat" where
  \<comment> \<open>\<open>hw\<close>\<close>
  "chip_half_width v t = (let n = length (tr_name t) + (if blocked v t then 2 else 0)
     in if n = 0 then 0 else max 44 (of_nat n * 6 + 18) / 2)"

datatype path_cmd = MoveTo rat rat | VTo rat | Curve rat rat rat rat | HTo rat

definition rail_paths :: "lc_view \<Rightarrow> transition \<Rightarrow> rail \<Rightarrow> path_cmd list \<times> path_cmd list" where
  \<comment> \<open>\<open>d1\<close> and \<open>d2\<close>: the two sides of the label\<close>
  "rail_paths v t r = (let hw = chip_half_width v t; R = CORNER; m = midX r in
     if span t > 0 then
       ([MoveTo (rl_x1 r) (connY r), VTo (midY r + R), Curve (rl_x1 r) (midY r) (rl_x1 r + R) (midY r), HTo (m - hw - CHIP_GAP)],
        [MoveTo (m + hw + CHIP_GAP) (midY r), HTo (rl_x2 r - R), Curve (rl_x2 r) (midY r) (rl_x2 r) (midY r + R), VTo (connY r)])
     else
       ([MoveTo (rl_x1 r) (connY r), VTo (midY r - R), Curve (rl_x1 r) (midY r) (rl_x1 r - R) (midY r), HTo (m + hw + CHIP_GAP)],
        [MoveTo (m - hw - CHIP_GAP) (midY r), HTo (rl_x2 r + R), Curve (rl_x2 r) (midY r) (rl_x2 r) (midY r - R), VTo (connY r)]))"

section \<open>Facts: where the points are\<close>

lemma js_object_lookup: "map_of (js_object kvs) k = map_of (rev kvs) k"
proof -
  have "map_of (fold (\<lambda>(k, v). AList.update k v) kvs m) k = (case map_of (rev kvs) k of Some v \<Rightarrow> Some v | None \<Rightarrow> map_of m k)" for m
    by (induction kvs arbitrary: m) (auto simp: update_conv' split: option.splits)
  then show ?thesis by (simp add: js_object_def split: option.split)
qed

definition unique_states :: "json list \<Rightarrow> bool" where
  "unique_states ss \<longleftrightarrow> distinct (map state_id ss) \<and> list_all (\<lambda>s. CHR '':'' \<notin> set (state_id s)) ss"

lemma keyed_lookup:
  assumes "distinct (map state_id ss)"
  shows "map_of (js_object (map (\<lambda>(i, s). (state_id s, f i)) (enumerate 0 ss))) k = Some y
    \<longleftrightarrow> (\<exists>i < length ss. k = state_id (ss ! i) \<and> y = f i)"
proof -
  let ?kvs = "map (\<lambda>(i, s). (state_id s, f i)) (enumerate 0 ss)"
  have "map fst ?kvs = map state_id ss"
    by (rule nth_equalityI) (simp_all add: nth_enumerate_eq)
  then have "distinct (map fst (rev ?kvs))" using assms by (metis distinct_rev rev_map)
  then have "map_of (rev ?kvs) k = Some y \<longleftrightarrow> (k, y) \<in> set (rev ?kvs)" by (rule map_of_eq_Some_iff)
  also have "\<dots> \<longleftrightarrow> (\<exists>i < length ss. k = state_id (ss ! i) \<and> y = f i)"
    by (force simp: in_set_conv_nth nth_enumerate_eq)
  finally show ?thesis by (simp add: js_object_lookup)
qed

lemma indexMap_iff: "unique_states ss \<Longrightarrow> map_of (indexMap ss) k = Some i \<longleftrightarrow> i < length ss \<and> k = state_id (ss ! i)"
  using keyed_lookup [of ss id k i] by (auto simp: indexMap_def unique_states_def)

lemma stateX_iff: "unique_states ss \<Longrightarrow> map_of (stateX ss) k = Some y \<longleftrightarrow> (\<exists>i < length ss. k = state_id (ss ! i) \<and> y = center i)"
  using keyed_lookup [of ss center k y] by (simp add: stateX_def unique_states_def)

lemma enriched_cases:
  assumes "unique_states ss" "t \<in> set (enriched ss ts)"
  shows "fromIdx t < length ss" "fromId t = state_id (ss ! fromIdx t)" "toIdx t < length ss" "toId t = state_id (ss ! toIdx t)"
    "fromIdx t \<noteq> toIdx t"
    "map_of (indexMap ss) (fromId t) = Some (fromIdx t)" "map_of (indexMap ss) (toId t) = Some (toIdx t)"
    "map_of (stateX ss) (fromId t) = Some (center (fromIdx t))" "map_of (stateX ss) (toId t) = Some (center (toIdx t))"
proof -
  obtain e where t: "t = enrich ss e" using assms(2) by (auto simp: enriched_def)
  have x: "map_of (stateX ss) (fromId t) \<noteq> None" "map_of (stateX ss) (toId t) \<noteq> None" "span t \<noteq> 0"
    using assms(2) by (simp_all add: enriched_def)
  show ne: "fromIdx t \<noteq> toIdx t" using x(3) by (simp add: span_def)
  have i: "map_of (indexMap ss) k = Some j" "map_of (stateX ss) k = Some (center j)" "j < length ss" "k = state_id (ss ! j)"
    if "map_of (stateX ss) k \<noteq> None" "j = (case map_of (indexMap ss) k of Some j \<Rightarrow> j | None \<Rightarrow> 0)" for k j
    using that by (auto simp: stateX_iff [OF assms(1)] indexMap_iff [OF assms(1)] split: option.splits)
      (metis indexMap_iff [OF assms(1)] option.distinct(1) option.inject)+
  have f: "fromIdx t = (case map_of (indexMap ss) (fromId t) of Some j \<Rightarrow> j | None \<Rightarrow> 0)"
    and g: "toIdx t = (case map_of (indexMap ss) (toId t) of Some j \<Rightarrow> j | None \<Rightarrow> 0)"
    by (simp_all add: t enrich_def case_prod_unfold Let_def)
  show "fromIdx t < length ss" "fromId t = state_id (ss ! fromIdx t)" "map_of (indexMap ss) (fromId t) = Some (fromIdx t)"
    "map_of (stateX ss) (fromId t) = Some (center (fromIdx t))" using i [OF x(1) f] by simp_all
  show "toIdx t < length ss" "toId t = state_id (ss ! toIdx t)" "map_of (indexMap ss) (toId t) = Some (toIdx t)"
    "map_of (stateX ss) (toId t) = Some (center (toIdx t))" using i [OF x(2) g] by simp_all
qed

lemma enriched_tr_i_inj:
  assumes "t \<in> set (enriched ss ts)" "u \<in> set (enriched ss ts)" "tr_i t = tr_i u"
  shows "t = u"
proof -
  obtain e e' where e: "t = enrich ss e" "u = enrich ss e'" "e \<in> set (enumerate 0 ts)" "e' \<in> set (enumerate 0 ts)"
    using assms by (auto simp: enriched_def)
  then have "fst e = fst e'" using assms(3) by (simp add: enrich_def case_prod_unfold Let_def)
  then have "e = e'" using e(3,4) by (metis enumerate_Suc_eq in_set_enumerate_eq prod.collapse)
  with e show ?thesis by simp
qed

lemma fold_put_point:
  "map_of m k = Some (a, b) \<Longrightarrow> map_of (fold put_point cxs m) k =
     Some (fold (\<lambda>p v. if cn_t (fst p) = k \<and> cn_from (fst p) then snd p else v) cxs a,
           fold (\<lambda>p v. if cn_t (fst p) = k \<and> \<not> cn_from (fst p) then snd p else v) cxs b)"
proof (induction cxs arbitrary: m a b)
  case (Cons p cxs)
  obtain c x where p: "p = (c, x)" by fastforce
  have "map_of (put_point p m) k = Some (if cn_t c = k \<and> cn_from c then x else a, if cn_t c = k \<and> \<not> cn_from c then x else b)"
    using Cons.prems by (auto simp: p put_point_def map_of_map_entry split: option.split)
  from Cons.IH [OF this] show ?case by (simp add: p)
qed simp

lemma fold_point_miss: "\<forall>p \<in> set cxs. \<not> P (fst p) \<Longrightarrow> fold (\<lambda>p v. if P (fst p) then snd p else v) cxs v = v"
  by (induction cxs rule: rev_induct) simp_all

lemma fold_point_hit:
  assumes "q \<in> set cxs" "P (fst q)" "\<And>p. p \<in> set cxs \<Longrightarrow> P (fst p) \<Longrightarrow> snd p = snd q"
  shows "fold (\<lambda>p v. if P (fst p) then snd p else v) cxs v = snd q"
proof -
  have "fold (\<lambda>p v. if P (fst p) then snd p else v) cxs v = y" if "q \<in> set cxs" "\<forall>p \<in> set cxs. P (fst p) \<longrightarrow> snd p = y" for y
    using that
  proof (induction cxs rule: rev_induct)
    case (snoc p cxs)
    show ?case
    proof (cases "P (fst p)")
      case False
      then have "q \<in> set cxs" using snoc.prems assms(2) by auto
      with snoc False show ?thesis by simp
    qed (use snoc.prems in simp)
  qed simp
  then show ?thesis using assms by blast
qed

section \<open>Facts: one edge\<close>

text \<open>On an edge of state \<open>s\<close> the points of the connections to earlier states come first, and within
  each part the farther state to the right comes first.\<close>

definition left_of :: "nat \<Rightarrow> conn \<Rightarrow> conn \<Rightarrow> bool" where
  "left_of s c d \<longleftrightarrow> cn_other c < s \<and> s < cn_other d \<or> (cn_other c < s) = (cn_other d < s) \<and> cn_other d < cn_other c"

definition on_edge :: "string \<Rightarrow> nat \<Rightarrow> conn list \<Rightarrow> bool" where
  "on_edge e s cs \<longleftrightarrow> list_all (\<lambda>c. cn_other c \<noteq> s \<and> (cn_from c \<longleftrightarrow> (e = ''top'') = (s < cn_other c))) cs"

lemma sort_key_wrt: "(\<And>x y. x \<in> set xs \<Longrightarrow> y \<in> set xs \<Longrightarrow> f x \<le> f y \<Longrightarrow> P x y) \<Longrightarrow> sorted_wrt P (sort_key f xs)"
  by (rule sorted_wrt_mono_rel [where P = "\<lambda>x y. f x \<le> f y"]) (use sorted_sort_key [of f xs] in \<open>auto simp: sorted_map\<close>)

lemma edge_order_sorted:
  assumes "on_edge e s cs"
  shows "sorted_wrt (\<lambda>c d. \<not> left_of s d c) (edge_order e s cs)"
proof -
  have o: "cn_other c \<noteq> s \<and> (cn_from c \<longleftrightarrow> (e = ''top'') = (s < cn_other c))" if "c \<in> set cs" for c
    using assms that by (simp add: on_edge_def list_all_iff)
  show ?thesis
  proof (cases "e = ''top''")
    case True
    have "sorted_wrt (\<lambda>c d. \<not> left_of s d c) (sort_key (\<lambda>c. \<bar>int (cn_other c) - int s\<bar>) (filter (\<lambda>c. \<not> cn_from c) cs))"
      by (rule sort_key_wrt) (use o True in \<open>auto simp: left_of_def\<close>)
    moreover have "sorted_wrt (\<lambda>c d. \<not> left_of s d c) (sort_key (\<lambda>c. - \<bar>int (cn_other c) - int s\<bar>) (filter cn_from cs))"
      by (rule sort_key_wrt) (use o True in \<open>auto simp: left_of_def\<close>)
    moreover have "\<not> left_of s d c" if "c \<in> set cs" "\<not> cn_from c" "d \<in> set cs" "cn_from d" for c d
      using o [OF that(1)] o [OF that(3)] that True by (auto simp: left_of_def)
    ultimately show ?thesis using True by (simp add: edge_order_def sorted_wrt_append)
  next
    case False
    have "sorted_wrt (\<lambda>c d. \<not> left_of s d c) (sort_key (\<lambda>c. \<bar>int (cn_other c) - int s\<bar>) (filter cn_from cs))"
      by (rule sort_key_wrt) (use o False in \<open>auto simp: left_of_def\<close>)
    moreover have "sorted_wrt (\<lambda>c d. \<not> left_of s d c) (sort_key (\<lambda>c. - \<bar>int (cn_other c) - int s\<bar>) (filter (\<lambda>c. \<not> cn_from c) cs))"
      by (rule sort_key_wrt) (use o False in \<open>auto simp: left_of_def\<close>)
    moreover have "\<not> left_of s d c" if "c \<in> set cs" "cn_from c" "d \<in> set cs" "\<not> cn_from d" for c d
      using o [OF that(1)] o [OF that(3)] that False by (auto simp: left_of_def)
    ultimately show ?thesis using False by (simp add: edge_order_def sorted_wrt_append)
  qed
qed

lemma edge_order_mset: "mset (edge_order e s cs) = mset cs"
  using multiset_partition [of "mset cs" cn_from] by (simp add: edge_order_def Let_def add.commute)

lemma edge_order_facts [simp]: "set (edge_order e s cs) = set cs" "length (edge_order e s cs) = length cs"
  "distinct (edge_order e s cs) = distinct cs"
  using edge_order_mset [of e s cs] by (metis set_mset_mset, metis size_mset, metis mset_eq_imp_distinct_iff)

definition place :: "'a list \<Rightarrow> 'a \<Rightarrow> nat" where
  "place xs x = length (takeWhile (\<lambda>y. y \<noteq> x) xs)"

lemma place_less: "x \<in> set xs \<Longrightarrow> place xs x < length xs"
  unfolding place_def by (induction xs) auto

lemma nth_place: "x \<in> set xs \<Longrightarrow> xs ! place xs x = x"
  unfolding place_def by (induction xs) auto

lemma place_nth: "distinct xs \<Longrightarrow> i < length xs \<Longrightarrow> place xs (xs ! i) = i"
  using place_less [of "xs ! i" xs] nth_place [of "xs ! i" xs] by (simp add: nth_eq_iff_index_eq)

definition edge_x :: "nat \<Rightarrow> string \<Rightarrow> conn list \<Rightarrow> conn \<Rightarrow> rat" where
  "edge_x s e cs c = (if length cs \<le> 1 then center s
     else center s - SPREAD / 2 + of_nat (place (edge_order e s cs) c) * (SPREAD / (of_nat (length cs) - 1)))"

lemma edge_x_bound:
  assumes "c \<in> set cs"
  shows "\<bar>edge_x s e cs c - center s\<bar> \<le> SPREAD / 2"
proof (cases "length cs \<le> 1")
  case False
  define n :: rat where "n = of_nat (length cs) - 1"
  define i :: rat where "i = of_nat (place (edge_order e s cs) c)"
  have "place (edge_order e s cs) c < length cs" using place_less [of c "edge_order e s cs"] assms by simp
  then have "of_nat (Suc (place (edge_order e s cs) c)) \<le> (of_nat (length cs) :: rat)" by (subst of_nat_le_iff) simp
  then have i: "0 \<le> i" "i \<le> n" by (simp_all add: i_def n_def)
  have n: "n > 0" using False by (simp add: n_def)
  have "0 \<le> i * (SPREAD / n)" "i * (SPREAD / n) \<le> SPREAD"
    using i n mult_right_mono [OF i(2), of "SPREAD / n"] by (simp_all add: SPREAD_def BOX_W_def)
  moreover have "edge_x s e cs c - center s = i * (SPREAD / n) - SPREAD / 2" using False by (simp add: edge_x_def i_def n_def)
  ultimately show ?thesis unfolding abs_le_iff by (simp only:) linarith
qed (simp add: edge_x_def SPREAD_def BOX_W_def)

lemma edge_x_less:
  assumes "on_edge e s cs" "c \<in> set cs" "d \<in> set cs" "left_of s c d"
  shows "edge_x s e cs c < edge_x s e cs d"
proof -
  let ?o = "edge_order e s cs"
  have cd: "c \<noteq> d" using assms(4) by (auto simp: left_of_def)
  then have n: "length cs > 1" using card_mono [of "set cs" "{c, d}"] card_length [of cs] assms(2,3) by simp
  have "place ?o c \<noteq> place ?o d" using cd nth_place [of c ?o] nth_place [of d ?o] assms(2,3) by auto
  moreover have False if "place ?o d < place ?o c"
    using sorted_wrt_nth_less [OF edge_order_sorted [OF assms(1)] that] place_less [of c ?o] nth_place [of c ?o] nth_place [of d ?o] assms(2-4)
    by simp
  ultimately have "place ?o c < place ?o d" by (metis linorder_neqE_nat)
  moreover have "SPREAD / (of_nat (length cs) - 1) > (0 :: rat)" using n by (simp add: SPREAD_def BOX_W_def)
  ultimately have "of_nat (place ?o c) * (SPREAD / (of_nat (length cs) - 1)) < of_nat (place ?o d) * (SPREAD / (of_nat (length cs) - 1))"
    by (intro mult_strict_right_mono) simp_all
  then show ?thesis using n by (simp add: edge_x_def)
qed

section \<open>Facts: the points of a transition\<close>

definition end_id :: "transition \<Rightarrow> bool \<Rightarrow> string" where "end_id t r = (if r then fromId t else toId t)"
definition end_idx :: "transition \<Rightarrow> bool \<Rightarrow> nat" where "end_idx t r = (if r then fromIdx t else toIdx t)"

definition the_conn :: "transition \<Rightarrow> bool \<Rightarrow> conn" where
  "the_conn t r = \<lparr>cn_t = tr_i t, cn_from = r, cn_other = end_idx t (\<not> r)\<rparr>"

definition the_key :: "transition \<Rightarrow> bool \<Rightarrow> string" where "the_key t r = edge_key (end_id t r) (edge_of t)"

definition edge_group :: "transition list \<Rightarrow> string \<Rightarrow> conn list" where
  "edge_group enr k = map snd (filter (\<lambda>x. fst x = k) (concat (map conns enr)))"

definition end_x :: "transition list \<Rightarrow> transition \<Rightarrow> bool \<Rightarrow> rat" where
  "end_x enr t r = edge_x (end_idx t r) (edge_of t) (edge_group enr (the_key t r)) (the_conn t r)"

lemma in_conns: "x \<in> set (conns t) \<longleftrightarrow> (\<exists>r. x = (the_key t r, the_conn t r))"
  by (simp add: conns_def the_key_def the_conn_def end_id_def end_idx_def ex_bool_eq)

lemma in_edge_group: "c \<in> set (edge_group enr k) \<longleftrightarrow> (\<exists>t \<in> set enr. \<exists>r. k = the_key t r \<and> c = the_conn t r)"
proof -
  have "c \<in> set (edge_group enr k) \<longleftrightarrow> (\<exists>t \<in> set enr. (k, c) \<in> set (conns t))"
    by (auto simp: edge_group_def intro!: image_eqI [of _ snd "(k, c)"])
  then show ?thesis by (simp add: in_conns)
qed

lemma edgeConns_groups: "edgeConns enr = map (\<lambda>k. (k, edge_group enr k)) (js_set_of (map fst (concat (map conns enr))))"
  by (simp add: edgeConns_def group_by_spec edge_group_def)

lemma double_colon_at: "CHR '':'' \<notin> set sid \<Longrightarrow> index_of ''::'' (edge_key sid e) 0 = int (length sid)"
proof -
  assume "CHR '':'' \<notin> set sid"
  then have "find_sub ''::'' (sid @ ''::'' @ e) = Some (length sid)"
    by (induction sid) (auto simp: take_Cons')
  then show ?thesis by (simp add: index_of_def edge_key_def)
qed

lemma spread_points_edge:
  assumes "CHR '':'' \<notin> set sid" "map_of (indexMap ss) sid = Some s" "map_of (stateX ss) sid = Some (center s)" "distinct cs"
  shows "set (spread_points ss (edge_key sid e, cs)) = (if length cs \<le> 1 then {} else (\<lambda>c. (c, edge_x s e cs c)) ` set cs)"
proof (cases "length cs \<le> 1")
  case False
  let ?o = "edge_order e s cs" and ?step = "SPREAD / (of_nat (length cs) - 1)"
  have d: "distinct ?o" using assms(4) by simp
  have "take (nat (index_of ''::'' (edge_key sid e) 0)) (edge_key sid e) = sid"
    "drop (nat (index_of ''::'' (edge_key sid e) 0) + 2) (edge_key sid e) = e"
    by (simp_all only: double_colon_at [OF assms(1)] nat_int) (simp_all add: edge_key_def)
  then have "spread_points ss (edge_key sid e, cs) =
      map (\<lambda>(i, c). (c, center s - SPREAD / 2 + of_nat i * ?step)) (enumerate 0 ?o)"
    using False assms(2,3) by (simp add: spread_points_def Let_def)
  also have "\<dots> = map (\<lambda>c. (c, edge_x s e cs c)) ?o"
    by (rule nth_equalityI) (use False d in \<open>simp_all add: nth_enumerate_eq edge_x_def place_nth\<close>)
  finally show ?thesis using False by simp
qed (simp add: spread_points_def)

lemma distinct_conns:
  "distinct (map tr_i enr) \<Longrightarrow> distinct (map snd (concat (map conns enr)))"
proof (induction enr)
  case (Cons t enr)
  then show ?case by (auto simp: conns_def)
qed simp

lemma enriched_distinct: "distinct (map tr_i (enriched ss ts))"
proof -
  have "map tr_i (map (enrich ss) (enumerate 0 ts)) = [0..<length ts]"
    by (rule nth_equalityI) (simp_all add: nth_enumerate_eq enrich_def Let_def)
  then have "distinct (map tr_i (map (enrich ss) (enumerate 0 ts)))" by (simp only: distinct_upt)
  then show ?thesis unfolding enriched_def by (rule distinct_map_filter)
qed

lemma distinct_edge_group: "distinct (edge_group (enriched ss ts) k)"
  unfolding edge_group_def by (rule distinct_map_filter) (rule distinct_conns, rule enriched_distinct)

lemma end_facts:
  assumes "unique_states ss" "t \<in> set (enriched ss ts)"
  shows "CHR '':'' \<notin> set (end_id t r)" "map_of (indexMap ss) (end_id t r) = Some (end_idx t r)"
    "map_of (stateX ss) (end_id t r) = Some (center (end_idx t r))"
  using enriched_cases [OF assms] assms(1) by (auto simp: end_id_def end_idx_def unique_states_def list_all_length)

lemma same_key:
  assumes "unique_states ss" "t \<in> set (enriched ss ts)" "u \<in> set (enriched ss ts)" "the_key t r = the_key u q"
  shows "end_idx t r = end_idx u q" "edge_of t = edge_of u"
proof -
  have "length (end_id t r) = length (end_id u q)"
    using double_colon_at [OF end_facts(1) [OF assms(1,2)], of r "edge_of t"] double_colon_at [OF end_facts(1) [OF assms(1,3)], of q "edge_of u"] assms(4)
    by (simp add: the_key_def)
  then have e: "end_id t r = end_id u q" "edge_of t = edge_of u" using assms(4) by (simp_all add: the_key_def edge_key_def)
  then show "end_idx t r = end_idx u q" "edge_of t = edge_of u"
    using end_facts(2) [OF assms(1,2)] end_facts(2) [OF assms(1,3)] by (metis option.inject, simp)
qed

lemma point_iff:
  assumes "unique_states ss" "enr = enriched ss ts"
  shows "p \<in> set (concat (map (spread_points ss) (edgeConns enr))) \<longleftrightarrow>
    (\<exists>t \<in> set enr. \<exists>r. length (edge_group enr (the_key t r)) > 1 \<and> p = (the_conn t r, end_x enr t r))"
proof -
  have k: "k \<in> set (map fst (concat (map conns enr))) \<longleftrightarrow> (\<exists>t \<in> set enr. \<exists>r. k = the_key t r)" for k
  proof -
    have "k \<in> set (map fst (concat (map conns enr))) \<longleftrightarrow> (\<exists>t \<in> set enr. \<exists>c. (k, c) \<in> set (conns t))"
      by (force intro: image_eqI [of _ fst])
    then show ?thesis by (simp add: in_conns)
  qed
  have s: "set (spread_points ss (the_key t r, edge_group enr (the_key t r))) =
      (if length (edge_group enr (the_key t r)) \<le> 1 then {}
       else (\<lambda>c. (c, edge_x (end_idx t r) (edge_of t) (edge_group enr (the_key t r)) c)) ` set (edge_group enr (the_key t r)))"
    if "t \<in> set enr" for t r
    unfolding the_key_def using that end_facts [OF assms(1), of t ts r]
    by (intro spread_points_edge) (simp_all add: assms(2) distinct_edge_group)
  have "p \<in> set (concat (map (spread_points ss) (edgeConns enr))) \<longleftrightarrow>
      (\<exists>t \<in> set enr. \<exists>r. p \<in> set (spread_points ss (the_key t r, edge_group enr (the_key t r))))"
  proof -
    have "p \<in> set (concat (map (spread_points ss) (edgeConns enr))) \<longleftrightarrow>
        (\<exists>k \<in> set (map fst (concat (map conns enr))). p \<in> set (spread_points ss (k, edge_group enr k)))"
      by (simp add: edgeConns_groups)
    then show ?thesis unfolding Bex_def k by blast
  qed
  also have "\<dots> \<longleftrightarrow> (\<exists>t \<in> set enr. \<exists>r. length (edge_group enr (the_key t r)) > 1 \<and> p = (the_conn t r, end_x enr t r))"
    (is "?l = ?r")
  proof
    assume ?l
    then obtain t r where t0: "t \<in> set enr" "p \<in> set (spread_points ss (the_key t r, edge_group enr (the_key t r)))" by blast
    then obtain c where t: "t \<in> set enr" "length (edge_group enr (the_key t r)) > 1" "c \<in> set (edge_group enr (the_key t r))"
        "p = (c, edge_x (end_idx t r) (edge_of t) (edge_group enr (the_key t r)) c)"
      unfolding s [OF t0(1)] by (cases "length (edge_group enr (the_key t r)) \<le> 1") auto
    then obtain u q where "u \<in> set enr" "the_key t r = the_key u q" "c = the_conn u q" by (auto simp: in_edge_group)
    with t same_key [OF assms(1), of t ts u r q] show ?r by (auto simp: assms(2) end_x_def intro!: bexI [of _ u] exI [of _ q])
  next
    assume ?r
    then show ?l by (force simp: s end_x_def in_edge_group)
  qed
  finally show ?thesis .
qed

lemma connX_ends:
  assumes "unique_states ss" "t \<in> set (enriched ss ts)"
  shows "map_of (connX ss (enriched ss ts)) (tr_i t) = Some (end_x (enriched ss ts) t True, end_x (enriched ss ts) t False)"
proof -
  define enr where "enr = enriched ss ts"
  let ?cxs = "concat (map (spread_points ss) (edgeConns enr))"
  have t: "t \<in> set enr" using assms(2) by (simp add: enr_def)
  have m: "map_of (map (\<lambda>t. (tr_i t, the (map_of (stateX ss) (fromId t)), the (map_of (stateX ss) (toId t)))) enr) (tr_i t)
      = Some (center (end_idx t True), center (end_idx t False))"
    using t enriched_distinct [of ss ts] enriched_cases [OF assms]
    by (intro map_of_is_SomeI) (auto simp: enr_def comp_def end_idx_def intro!: image_eqI [of _ _ t])
  have f: "fold (\<lambda>p v. if cn_t (fst p) = tr_i t \<and> cn_from (fst p) = r then snd p else v) ?cxs (center (end_idx t r)) = end_x enr t r" for r
  proof (cases "length (edge_group enr (the_key t r)) > 1")
    case True
    have u: "snd p = end_x enr t r" if "p \<in> set ?cxs" "cn_t (fst p) = tr_i t \<and> cn_from (fst p) = r" for p
    proof -
      note h = that
      obtain u q where u: "u \<in> set enr" "p = (the_conn u q, end_x enr u q)"
        using h(1) point_iff [OF assms(1) enr_def, of p] by blast
      with h(2) have "u = t" "q = r" using enriched_tr_i_inj [of u ss ts t] assms(2) by (simp_all add: enr_def the_conn_def)
      with u(2) show ?thesis by simp
    qed
    have "(the_conn t r, end_x enr t r) \<in> set ?cxs" using True t point_iff [OF assms(1) enr_def] by blast
    from fold_point_hit [OF this, of "\<lambda>c. cn_t c = tr_i t \<and> cn_from c = r"] u show ?thesis by (simp add: the_conn_def)
  next
    case False
    have "\<not> (cn_t (fst p) = tr_i t \<and> cn_from (fst p) = r)" if p: "p \<in> set ?cxs" for p
    proof
      assume c: "cn_t (fst p) = tr_i t \<and> cn_from (fst p) = r"
      obtain u q where u: "u \<in> set enr" "length (edge_group enr (the_key u q)) > 1" "p = (the_conn u q, end_x enr u q)"
        using p point_iff [OF assms(1) enr_def, of p] by blast
      with c have "u = t" "q = r" using enriched_tr_i_inj [of u ss ts t] assms(2) by (simp_all add: enr_def the_conn_def)
      with u(2) False show False by simp
    qed
    then have "fold (\<lambda>p v. if cn_t (fst p) = tr_i t \<and> cn_from (fst p) = r then snd p else v) ?cxs (center (end_idx t r)) = center (end_idx t r)"
      by (intro fold_point_miss [where P = "\<lambda>c. cn_t c = tr_i t \<and> cn_from c = r"]) blast
    with False show ?thesis by (simp add: end_x_def edge_x_def)
  qed
  show ?thesis
    using fold_put_point [OF m, of ?cxs] f [of True] f [of False] by (simp add: connX_def enr_def)
qed

section \<open>Facts: rails\<close>

lemma the_key_eq:
  assumes "unique_states ss" "t \<in> set (enriched ss ts)" "u \<in> set (enriched ss ts)"
    and "end_idx t r = end_idx u q" "span t > 0 \<longleftrightarrow> span u > 0"
  shows "the_key t r = the_key u q"
proof -
  have "end_id v b = state_id (ss ! end_idx v b)" if "v \<in> set (enriched ss ts)" for v b
    using enriched_cases [OF assms(1) that] by (simp add: end_id_def end_idx_def)
  then show ?thesis using assms(2-5) by (simp add: the_key_def edge_of_def)
qed

lemma group_on_edge:
  assumes "unique_states ss" "t \<in> set (enriched ss ts)"
  shows "on_edge (edge_of t) (end_idx t r) (edge_group (enriched ss ts) (the_key t r))"
  unfolding on_edge_def list_all_iff
proof
  fix c assume "c \<in> set (edge_group (enriched ss ts) (the_key t r))"
  then obtain u q where u: "u \<in> set (enriched ss ts)" "the_key t r = the_key u q" "c = the_conn u q" by (auto simp: in_edge_group)
  note k = same_key [OF assms(1,2) u(1,2)]
  show "cn_other c \<noteq> end_idx t r \<and> cn_from c = ((edge_of t = ''top'') = (end_idx t r < cn_other c))"
    unfolding k using enriched_cases(5) [OF assms(1) u(1)] by (auto simp: u(3) the_conn_def end_idx_def edge_of_def span_def)
qed

lemma own_conn: "t \<in> set enr \<Longrightarrow> the_conn t r \<in> set (edge_group enr (the_key t r))"
  by (auto simp: in_edge_group)

lemma end_x_less:
  \<comment> \<open>ends at different states are ordered as the states, ends at one edge as the other ends require\<close>
  assumes "unique_states ss" "t \<in> set (enriched ss ts)" "u \<in> set (enriched ss ts)" "span t > 0 \<longleftrightarrow> span u > 0"
    and "end_idx t r < end_idx u q \<or> end_idx t r = end_idx u q \<and> left_of (end_idx t r) (the_conn t r) (the_conn u q)"
  shows "end_x (enriched ss ts) t r < end_x (enriched ss ts) u q"
  using assms(5)
proof
  assume "end_idx t r < end_idx u q"
  then have "of_nat (Suc (end_idx t r)) \<le> (of_nat (end_idx u q) :: rat)" by (subst of_nat_le_iff) simp
  then have "center (end_idx t r) + 182 \<le> center (end_idx u q)" by (simp add: center_def diagram_sizes)
  moreover have b: "end_x (enriched ss ts) v b \<le> center (end_idx v b) + 33 \<and> center (end_idx v b) \<le> end_x (enriched ss ts) v b + 33"
    if "v \<in> set (enriched ss ts)" for v b
    using edge_x_bound [OF own_conn [OF that, of b], of "end_idx v b" "edge_of v"] by (simp add: end_x_def diagram_sizes abs_le_iff)
  ultimately show ?thesis using b [OF assms(2), of r] b [OF assms(3), of q] by linarith
next
  assume e: "end_idx t r = end_idx u q \<and> left_of (end_idx t r) (the_conn t r) (the_conn u q)"
  have k: "the_key t r = the_key u q" using the_key_eq [OF assms(1-3)] e assms(4) by blast
  have "end_x (enriched ss ts) u q = edge_x (end_idx t r) (edge_of t) (edge_group (enriched ss ts) (the_key t r)) (the_conn u q)"
    unfolding end_x_def k using e assms(4) by (simp add: edge_of_def)
  then show ?thesis
    unfolding end_x_def [of _ t] using edge_x_less [OF group_on_edge [OF assms(1,2), of r], of "the_conn t r" "the_conn u q"] e own_conn [OF assms(2), of r] own_conn [OF assms(3), of q] k
    by auto
qed

definition lo :: "transition \<Rightarrow> nat" where "lo t = min (fromIdx t) (toIdx t)"
definition hi :: "transition \<Rightarrow> nat" where "hi t = max (fromIdx t) (toIdx t)"

definition on_rail :: "rat \<times> rat \<Rightarrow> rail \<Rightarrow> bool" where
  \<comment> \<open>the two posts and the horizontal part, with square corners\<close>
  "on_rail p r = (case p of (x, y) \<Rightarrow>
     (x = rl_x1 r \<or> x = rl_x2 r) \<and> min (connY r) (midY r) \<le> y \<and> y \<le> max (connY r) (midY r)
     \<or> y = midY r \<and> min (rl_x1 r) (rl_x2 r) \<le> x \<and> x \<le> max (rl_x1 r) (rl_x2 r))"

definition interleaved :: "transition \<Rightarrow> transition \<Rightarrow> bool" where
  "interleaved t u \<longleftrightarrow> lo t < lo u \<and> lo u < hi t \<and> hi t < hi u"

lemma rail_ends:
  assumes "unique_states ss" "t \<in> set (enriched ss ts)"
  defines "r \<equiv> rail_of ss (enriched ss ts) t" and "xl \<equiv> end_x (enriched ss ts) t (span t > 0)" and "xh \<equiv> end_x (enriched ss ts) t (\<not> span t > 0)"
  shows "{rl_x1 r, rl_x2 r} = {xl, xh}" "min (rl_x1 r) (rl_x2 r) = xl" "max (rl_x1 r) (rl_x2 r) = xh"
    "\<bar>midY r - connY r\<bar> = rail_offset (int (hi t) - int (lo t))" "midY r < connY r \<longleftrightarrow> span t > 0"
proof -
  have x: "rl_x1 r = end_x (enriched ss ts) t True" "rl_x2 r = end_x (enriched ss ts) t False"
    using connX_ends [OF assms(1,2)] by (simp_all add: r_def rail_of_def Let_def)
  have ne: "fromIdx t \<noteq> toIdx t" by (rule enriched_cases(5) [OF assms(1,2)])
  have "xl < xh" unfolding xl_def xh_def
    by (rule end_x_less [OF assms(1,2,2)]) (use ne in \<open>auto simp: end_idx_def span_def\<close>)
  then show "{rl_x1 r, rl_x2 r} = {xl, xh}" "min (rl_x1 r) (rl_x2 r) = xl" "max (rl_x1 r) (rl_x2 r) = xh"
    by (cases "span t > 0"; auto simp: x xl_def xh_def)+
  have s: "\<bar>span t\<bar> = int (hi t) - int (lo t)" "\<bar>span t\<bar> \<ge> 1" using ne by (auto simp: span_def hi_def lo_def)
  then have "rail_offset (int (hi t) - int (lo t)) > 0" by (simp add: rail_offset_def diagram_sizes)
  then show "\<bar>midY r - connY r\<bar> = rail_offset (int (hi t) - int (lo t))" "midY r < connY r \<longleftrightarrow> span t > 0"
    using s by (auto simp: r_def rail_of_def Let_def case_prod_unfold)
qed

lemma disjoint_rails: "max (rl_x1 r) (rl_x2 r) < min (rl_x1 s) (rl_x2 s) \<Longrightarrow> \<not> (on_rail p r \<and> on_rail p s)"
  by (auto simp: on_rail_def split: prod.splits)

lemma nested_rails:
  assumes "min (rl_x1 s) (rl_x2 s) < min (rl_x1 r) (rl_x2 r)" "max (rl_x1 r) (rl_x2 r) < max (rl_x1 s) (rl_x2 s)"
    and "connY r = connY s" "midY r < connY r \<longleftrightarrow> midY s < connY s" "\<bar>midY r - connY r\<bar> < \<bar>midY s - connY s\<bar>"
  shows "\<not> (on_rail p r \<and> on_rail p s)"
proof
  obtain x y where p: "p = (x, y)" by fastforce
  assume "on_rail p r \<and> on_rail p s"
  then have r: "min (rl_x1 r) (rl_x2 r) \<le> x" "x \<le> max (rl_x1 r) (rl_x2 r)" "min (connY r) (midY r) \<le> y" "y \<le> max (connY r) (midY r)"
    and s: "x = rl_x1 s \<or> x = rl_x2 s \<or> y = midY s" by (auto simp: on_rail_def p)
  from s r(1,2) assms(1,2) have "y = midY s" by (auto simp: min_def max_def split: if_splits)
  with r(3,4) assms(3-5) show False by (auto simp: min_def max_def abs_if split: if_splits)
qed

lemma same_side_rails:
  assumes "unique_states ss" "t \<in> set (enriched ss ts)" "u \<in> set (enriched ss ts)" "span t > 0 \<longleftrightarrow> span u > 0"
    and "(lo t, hi t) \<noteq> (lo u, hi u)" "\<not> interleaved t u" "\<not> interleaved u t"
  shows "\<not> (on_rail p (rail_of ss (enriched ss ts) t) \<and> on_rail p (rail_of ss (enriched ss ts) u))"
proof -
  define xl where "xl v = end_x (enriched ss ts) v (span v > 0)" for v
  define xh where "xh v = end_x (enriched ss ts) v (\<not> span v > 0)" for v
  let ?r = "rail_of ss (enriched ss ts)"
  have ends: "min (rl_x1 (?r v)) (rl_x2 (?r v)) = xl v" "max (rl_x1 (?r v)) (rl_x2 (?r v)) = xh v"
      "\<bar>midY (?r v) - connY (?r v)\<bar> = rail_offset (int (hi v) - int (lo v))" "midY (?r v) < connY (?r v) \<longleftrightarrow> span v > 0" "lo v < hi v"
    if "v \<in> set (enriched ss ts)" for v
    using rail_ends [OF assms(1) that] enriched_cases(5) [OF assms(1) that] by (auto simp: xl_def xh_def lo_def hi_def)
  have idx: "end_idx v (span v > 0) = lo v" "end_idx v (\<not> span v > 0) = hi v" for v
    by (auto simp: end_idx_def span_def lo_def hi_def)
  have conn: "connY (?r t) = connY (?r u)" using assms(4) by (simp add: rail_of_def Let_def case_prod_unfold)
  have oth: "cn_other (the_conn v (span v > 0)) = hi v" "cn_other (the_conn v (\<not> span v > 0)) = lo v" for v
    using idx [of v] by (simp_all add: the_conn_def)
  have ll: "xl v < xl w" if "v \<in> {t, u}" "w \<in> {t, u}" "lo v < lo w \<or> lo v = lo w \<and> hi w < hi v" for v w
    unfolding xl_def by (rule end_x_less [OF assms(1)])
      (use that assms(2-4) ends(5) [OF assms(2)] ends(5) [OF assms(3)] in \<open>auto simp: idx oth left_of_def\<close>)
  have hh: "xh v < xh w" if "v \<in> {t, u}" "w \<in> {t, u}" "hi v < hi w \<or> hi v = hi w \<and> lo w < lo v" for v w
    unfolding xh_def by (rule end_x_less [OF assms(1)])
      (use that assms(2-4) ends(5) [OF assms(2)] ends(5) [OF assms(3)] in \<open>auto simp: idx oth left_of_def\<close>)
  have hl: "xh v < xl w" if "v \<in> {t, u}" "w \<in> {t, u}" "hi v \<le> lo w" for v w
    unfolding xh_def xl_def by (rule end_x_less [OF assms(1)])
      (use that assms(2-4) ends(5) [OF assms(2)] ends(5) [OF assms(3)] in \<open>auto simp: idx oth left_of_def\<close>)
  have nest: "\<not> (on_rail p (?r v) \<and> on_rail p (?r w))"
    if "v \<in> {t, u}" "w \<in> {t, u}" "xl w < xl v" "xh v < xh w" "int (hi v) - int (lo v) < int (hi w) - int (lo w)" for v w
  proof (rule nested_rails)
    have v: "v \<in> set (enriched ss ts)" and w: "w \<in> set (enriched ss ts)" using that(1,2) assms(2,3) by auto
    show "min (rl_x1 (?r w)) (rl_x2 (?r w)) < min (rl_x1 (?r v)) (rl_x2 (?r v))" "max (rl_x1 (?r v)) (rl_x2 (?r v)) < max (rl_x1 (?r w)) (rl_x2 (?r w))"
      using that by (simp_all add: ends [OF v] ends [OF w])
    show "connY (?r v) = connY (?r w)" using that(1,2) conn by auto
    show "midY (?r v) < connY (?r v) \<longleftrightarrow> midY (?r w) < connY (?r w)" using that(1,2) assms(4) by (auto simp: ends [OF v] ends [OF w])
    show "\<bar>midY (?r v) - connY (?r v)\<bar> < \<bar>midY (?r w) - connY (?r w)\<bar>"
      using that(5) by (simp add: ends [OF v] ends [OF w] rail_offset_def diagram_sizes)
  qed
  consider "hi t \<le> lo u" | "hi u \<le> lo t" | "lo t < lo u \<and> hi u \<le> hi t \<or> lo t = lo u \<and> hi u < hi t"
    | "lo u < lo t \<and> hi t \<le> hi u \<or> lo u = lo t \<and> hi t < hi u"
    using assms(5-7) unfolding interleaved_def by force
  then show ?thesis
  proof cases
    case 1
    then show ?thesis using hl [of t u] by (intro disjoint_rails) (simp add: ends assms(2,3))
  next
    case 2
    then show ?thesis using disjoint_rails [of "?r u" "?r t" p] hl [of u t] by (auto simp: ends assms(2,3))
  next
    case 3
    then have "xl t < xl u" "xh u < xh t" using ll [of t u] hh [of u t] by (auto simp: le_less)
    then show ?thesis using nest [of u t] 3 by auto
  next
    case 4
    then have "xl u < xl t" "xh t < xh u" using ll [of u t] hh [of t u] by (auto simp: le_less)
    then show ?thesis using nest [of t u] 4 by auto
  qed
qed

text \<open>C31. Rails do not cross: when the states of a lifecycle have ids of their own, two of its
  transitions share a point of the drawing only if they run between the same two states in the same
  direction, or if they run in the same direction and their states alternate. In particular rails
  that meet at a state, arriving or leaving, never touch.\<close>

theorem rails_apart:
  assumes "unique_states ss" "t \<in> set (enriched ss ts)" "u \<in> set (enriched ss ts)"
    and "span t > 0 \<longleftrightarrow> span u > 0 \<Longrightarrow> (lo t, hi t) \<noteq> (lo u, hi u) \<and> \<not> interleaved t u \<and> \<not> interleaved u t"
  shows "\<not> (on_rail p (rail_of ss (enriched ss ts) t) \<and> on_rail p (rail_of ss (enriched ss ts) u))"
proof (cases "span t > 0 \<longleftrightarrow> span u > 0")
  case True
  then show ?thesis using same_side_rails [OF assms(1-3)] assms(4) by blast
next
  case False
  let ?r = "rail_of ss (enriched ss ts)" and ?y = "ROW_Y (layout_of ss (enriched ss ts))"
  have side: "if span v > 0 then snd p < ?y else snd p > ?y" if "v \<in> set (enriched ss ts)" "on_rail p (?r v)" for v
  proof -
    have "connY (?r v) = (if span v > 0 then ?y - 18 else ?y + 18)"
      by (simp add: rail_of_def Let_def case_prod_unfold diagram_sizes)
    with that(2) rail_ends(5) [OF assms(1) that(1)] show ?thesis
      by (auto simp: on_rail_def min_def max_def split: prod.splits if_splits)
  qed
  show ?thesis using side [OF assms(2)] side [OF assms(3)] False by (auto split: if_splits)
qed

definition lc_state :: "string \<Rightarrow> int \<Rightarrow> json" where
  "lc_state sid n = JObj [(''id'', JStr sid), (''display_order'', JNum n)]"

definition lc_transition :: "string \<Rightarrow> string \<Rightarrow> json" where
  "lc_transition a b = JObj [(''from_state_id'', JStr a), (''to_state_id'', JStr b), (''name'', JStr (a @ b))]"

definition sample_states :: "json list" where
  "sample_states = sorted_states [lc_state ''c'' 3, lc_state ''a'' 1, lc_state ''b'' 2]"

definition sample_transitions :: "json list" where
  "sample_transitions = [lc_transition ''a'' ''b'', lc_transition ''a'' ''c'', lc_transition ''b'' ''c'', lc_transition ''a'' ''b'']"

theorem rails_apart_witness:
  "length (enriched sample_states sample_transitions) = 4
   \<and> (\<forall>p. \<not> (on_rail p (rail_of sample_states (enriched sample_states sample_transitions) (enriched sample_states sample_transitions ! 0))
     \<and> on_rail p (rail_of sample_states (enriched sample_states sample_transitions) (enriched sample_states sample_transitions ! 1))))"
proof
  let ?e = "enriched sample_states sample_transitions"
  show l: "length ?e = 4" by code_simp
  have u: "unique_states sample_states" by code_simp
  have "?e ! 0 \<in> set ?e" "?e ! 1 \<in> set ?e" using l by (simp_all add: nth_mem)
  moreover have "(lo (?e ! 0), hi (?e ! 0)) \<noteq> (lo (?e ! 1), hi (?e ! 1)) \<and> \<not> interleaved (?e ! 0) (?e ! 1) \<and> \<not> interleaved (?e ! 1) (?e ! 0)"
    by code_simp
  ultimately show "\<forall>p. \<not> (on_rail p (rail_of sample_states ?e (?e ! 0)) \<and> on_rail p (rail_of sample_states ?e (?e ! 1)))"
    using rails_apart [OF u, of "?e ! 0" sample_transitions "?e ! 1"] by blast
qed

text \<open>Two transitions between the same states in the same direction are drawn over each other: same
  height, and the later one's rail starts inside the other.\<close>

theorem parallel_rails_overlap:
  "(let e = enriched sample_states sample_transitions; r = rail_of sample_states e (e ! 0); s = rail_of sample_states e (e ! 3)
    in midY r = midY s \<and> rl_x1 r < rl_x1 s \<and> rl_x1 s < rl_x2 r \<and> rl_x2 r < rl_x2 s)"
  by code_simp

end
