(* ===== verification/Comments.thy ===== *)
theory Comments
  imports JsRegex ApiEndpoints
begin

text \<open>
  The comment panel, \<open>frontend/src/components/CommentPanel.jsx\<close>: the comments of a node as a tree of
  replies, mentions of attributes (\<open>#\<close>) and users (\<open>@\<close>) in their text, and the input with its
  completion. Times are numbers (\<open>new Date(createdAt)\<close>), ids are strings. Markup is left out.
\<close>

section \<open>The tree of replies\<close>

record comment =
  c_id :: string
  c_parent :: "string option"                   \<comment> \<open>\<open>parentCommentId\<close>, None where it is falsy\<close>
  c_versionId :: string
  c_createdAt :: int

datatype comment_node = Node (node_comment: comment) (node_children: "comment_node list")

definition byId :: "comment list \<Rightarrow> (string \<times> comment) list" where
  "byId cs = fold (\<lambda>c. AList.update (c_id c) c) cs []"

definition parent_of :: "comment list \<Rightarrow> comment \<Rightarrow> comment option" where
  \<comment> \<open>\<open>c.parentCommentId && byId[c.parentCommentId]\<close>\<close>
  "parent_of cs c = (case c_parent c of None \<Rightarrow> None | Some p \<Rightarrow> map_of (byId cs) p)"

definition entry_of :: "comment list \<Rightarrow> comment \<Rightarrow> comment" where
  \<comment> \<open>\<open>byId[c.id]\<close>\<close>
  "entry_of cs c = the (map_of (byId cs) (c_id c))"

definition children_of :: "comment list \<Rightarrow> string \<Rightarrow> comment list" where
  "children_of cs i = map (entry_of cs) (filter (\<lambda>c. c_parent c = Some i \<and> parent_of cs c \<noteq> None) cs)"

definition roots_of :: "comment list \<Rightarrow> comment list" where
  "roots_of cs = map (entry_of cs) (filter (\<lambda>c. parent_of cs c = None) cs)"

fun sortLevel :: "nat \<Rightarrow> comment list \<Rightarrow> comment list \<Rightarrow> comment_node list option" where
  \<comment> \<open>the nodes of a level, sorted, with their children; None when the stack of \<open>n\<close> frames overflows\<close>
  "sortLevel 0 cs level = None"
| "sortLevel (Suc n) cs level =
     those (map (\<lambda>c. map_option (Node c) (sortLevel n cs (children_of cs (c_id c)))) (sort_key c_createdAt level))"

definition buildTree :: "nat \<Rightarrow> comment list \<Rightarrow> comment_node list option" where
  "buildTree frames cs = sortLevel frames cs (roots_of cs)"

definition visibleRoots :: "string option \<Rightarrow> comment_node list \<Rightarrow> comment_node list" where
  "visibleRoots filterVersionId tree = (case filterVersionId of None \<Rightarrow> tree
     | Some v \<Rightarrow> if v = [] then tree else filter (\<lambda>root. c_versionId (node_comment root) = v) tree)"

fun count_node :: "comment_node \<Rightarrow> nat" where
  "count_node (Node c ts) = 1 + sum_list (map count_node ts)"

definition totalVisible :: "string option \<Rightarrow> comment_node list \<Rightarrow> nat" where
  "totalVisible filterVersionId tree = sum_list (map count_node (visibleRoots filterVersionId tree))"

section \<open>Mentions\<close>

abbreviation not_ws :: "char \<Rightarrow> bool" where "not_ws c \<equiv> \<not> js_ws c"

definition rx_attr :: rx where                 \<comment> \<open>\<open>#(\S+)\<close>\<close>
  "rx_attr = RSeq (RChr (CHR ''#'')) (RGrp 1 (RPlus (RSet not_ws)))"

definition extractAttrName :: "string \<Rightarrow> string option" where
  "extractAttrName s = map_option (grp 1) (rx_exec rx_attr s)"

definition rx_mention :: rx where              \<comment> \<open>\<open>(#\S+|@\S+)\<close>\<close>
  "rx_mention = RGrp 1 (RAlt (RSeq (RChr (CHR ''#'')) (RPlus (RSet not_ws))) (RSeq (RChr (CHR ''@'')) (RPlus (RSet not_ws))))"

datatype text_piece = PText string | PAttr string | PUser string

definition mention_part :: "string \<Rightarrow> text_piece" where
  "mention_part raw = (if starts_with raw ''#'' then PAttr (tl raw) else PUser (tl raw))"

definition text_part :: "string \<Rightarrow> text_piece list" where
  "text_part v = (if v = [] then [] else [PText v])"

definition parts_from :: "nat \<Rightarrow> string \<Rightarrow> text_piece list" where
  "parts_from i s = (case rx_all rx_mention i s of (ms, rest) \<Rightarrow>
     concat (map (\<lambda>(skipped, m). text_part skipped @ [mention_part (grp 1 m)]) ms) @ text_part rest)"

definition rich_text :: "string \<Rightarrow> text_piece list" where
  \<comment> \<open>\<open>parts\<close> of RichText\<close>
  "rich_text s = parts_from 0 s"

fun part_text :: "text_piece \<Rightarrow> string" where
  "part_text (PText v) = v"
| "part_text (PAttr i) = CHR ''#'' # i"
| "part_text (PUser i) = CHR ''@'' # i"

section \<open>Completion\<close>

record trigger =
  tg_type :: char
  tg_query :: string
  tg_start :: nat

fun trigger_loop :: "string \<Rightarrow> nat \<Rightarrow> trigger option" where
  \<comment> \<open>the loop from position \<open>i - 1\<close> down\<close>
  "trigger_loop before 0 = None"
| "trigger_loop before (Suc i) =
     (let ch = before ! i in
      if ch = CHR ''#'' \<or> ch = CHR ''@'' then
        (if i = 0 \<or> js_ws (before ! (i - 1)) then
           (let query = drop (Suc i) before in
            if \<not> list_ex js_ws query then Some \<lparr>tg_type = ch, tg_query = query, tg_start = i\<rparr> else None)
         else None)
      else if js_ws ch then None else trigger_loop before i)"

definition detectTrigger :: "string \<Rightarrow> nat \<Rightarrow> trigger option" where
  "detectTrigger s cursorPos = (let before = take cursorPos s in trigger_loop before (length before))"

record ac_item =
  ai_id :: string
  ai_label :: string
  ai_prefix :: char

definition acItems :: "(string \<Rightarrow> string) \<Rightarrow> (string \<times> string) list \<Rightarrow> (string \<times> string) list \<Rightarrow> trigger option \<Rightarrow> ac_item list" where
  \<comment> \<open>from the ids and labels of the attributes and of the users (their display or user name)\<close>
  "acItems lower attributes users st = (case st of None \<Rightarrow> []
     | Some t \<Rightarrow> (let q = lower (tg_query t); candidates = (if tg_type t = CHR ''#'' then attributes else users)
         in map (\<lambda>(i, l). \<lparr>ai_id = i, ai_label = l, ai_prefix = tg_type t\<rparr>)
              (take 8 (filter (\<lambda>(i, l). str_includes (lower i) q \<or> str_includes (lower l) q) candidates))))"

record composer =
  cp_text :: string
  replyTo :: "string option"
  acState :: "trigger option"
  acIdx :: nat
  cp_loading :: bool

definition handleTextChange :: "string \<Rightarrow> nat \<Rightarrow> composer \<Rightarrow> composer" where
  "handleTextChange val pos cp = cp\<lparr>cp_text := val, acState := detectTrigger val pos, acIdx := 0\<rparr>"

definition insertCompletion :: "ac_item \<Rightarrow> composer \<Rightarrow> composer \<times> nat option" where
  \<comment> \<open>and the new cursor\<close>
  "insertCompletion item cp = (case acState cp of None \<Rightarrow> (cp, None)
     | Some t \<Rightarrow> (let before = take (tg_start t) (cp_text cp); after = drop (tg_start t + 1 + length (tg_query t)) (cp_text cp);
           inserted = ai_prefix item # ai_id item @ '' ''
         in (cp\<lparr>cp_text := before @ inserted @ after, acState := None\<rparr>, Some (length before + length inserted))))"

datatype key = ArrowDown | ArrowUp | Enter bool | TabKey | Escape | OtherKey       \<comment> \<open>\<open>Enter\<close> with \<open>ctrlKey\<close>\<close>

definition pick_item :: "ac_item list \<Rightarrow> composer \<Rightarrow> composer" where
  \<comment> \<open>\<open>insertCompletion(acItems[acIdx])\<close>; past the end it throws and changes nothing\<close>
  "pick_item its cp = (if acIdx cp < length its then fst (insertCompletion (its ! acIdx cp) cp) else cp)"

definition handleKeyDown :: "ac_item list \<Rightarrow> key \<Rightarrow> composer \<Rightarrow> composer \<times> bool" where
  \<comment> \<open>and whether the comment is posted\<close>
  "handleKeyDown its k cp =
     (let post = (k = Enter True \<and> trim (cp_text cp) \<noteq> []) in
      if acState cp \<noteq> None \<and> its \<noteq> [] then
        (case k of
           ArrowDown \<Rightarrow> (cp\<lparr>acIdx := min (acIdx cp + 1) (length its - 1)\<rparr>, False)
         | ArrowUp \<Rightarrow> (cp\<lparr>acIdx := acIdx cp - 1\<rparr>, False)
         | Enter _ \<Rightarrow> (pick_item its cp, False)
         | TabKey \<Rightarrow> (pick_item its cp, False)
         | Escape \<Rightarrow> (cp\<lparr>acState := None\<rparr>, False)
         | OtherKey \<Rightarrow> (cp, post))
      else (cp, post))"

definition handlePost :: "string \<Rightarrow> string option \<Rightarrow> composer \<Rightarrow> (composer \<times> node_call) option" where
  \<comment> \<open>up to the \<open>await\<close>: the call it makes; None when there is nothing to post\<close>
  "handlePost nodeId versionId cp = (case versionId of None \<Rightarrow> None
     | Some v \<Rightarrow> if trim (cp_text cp) = [] \<or> v = [] then None
         else Some (cp\<lparr>cp_loading := True\<rparr>, AddComment nodeId (Some (JStr v)) (Some (JStr (trim (cp_text cp))))
           (Some (case replyTo cp of Some p \<Rightarrow> if p = [] then JNull else JStr p | None \<Rightarrow> JNull))
           (Some (case extractAttrName (trim (cp_text cp)) of Some a \<Rightarrow> JStr a | None \<Rightarrow> JNull))))"

definition post_done :: "bool \<Rightarrow> composer \<Rightarrow> composer" where
  \<comment> \<open>after the answer\<close>
  "post_done ok cp = (if ok then cp\<lparr>cp_text := [], replyTo := None, acState := None, cp_loading := False\<rparr> else cp\<lparr>cp_loading := False\<rparr>)"

definition node_changed :: "composer \<Rightarrow> composer" where
  "node_changed cp = cp\<lparr>replyTo := None, cp_text := [], acState := None\<rparr>"

section \<open>Facts: the tree\<close>

text \<open>The \<open>j\<close>-th ancestor of a comment. A comment hangs on a root when climbing as often as there are
  comments leaves the tree; otherwise it is in a cycle of replies, or answers one that is.\<close>

fun climb :: "comment list \<Rightarrow> nat \<Rightarrow> comment \<Rightarrow> comment option" where
  "climb cs 0 c = Some c"
| "climb cs (Suc j) c = (case parent_of cs c of None \<Rightarrow> None | Some p \<Rightarrow> climb cs j p)"

definition rooted :: "comment list \<Rightarrow> comment \<Rightarrow> bool" where
  "rooted cs c \<longleftrightarrow> climb cs (length cs) c = None"

definition at_depth :: "comment list \<Rightarrow> nat \<Rightarrow> comment \<Rightarrow> bool" where
  "at_depth cs k c \<longleftrightarrow> climb cs k c \<noteq> None \<and> climb cs (Suc k) c = None"

lemma climb_add: "climb cs (i + j) c = Option.bind (climb cs i c) (climb cs j)"
  by (induction i arbitrary: c) (auto split: option.split)

lemma climb_None_mono: "climb cs i c = None \<Longrightarrow> i \<le> j \<Longrightarrow> climb cs j c = None"
  using climb_add [of cs i "j - i" c] by simp

lemma climb_Suc_end: "climb cs (Suc j) c = Option.bind (climb cs j c) (parent_of cs)"
  using climb_add [of cs j 1 c] by (cases "climb cs j c") (auto split: option.split)

lemma byId_iff: "distinct (map c_id cs) \<Longrightarrow> map_of (byId cs) i = Some c \<longleftrightarrow> c \<in> set cs \<and> c_id c = i"
proof -
  have "map_of (fold (\<lambda>c. AList.update (c_id c) c) cs m) i = Some c \<longleftrightarrow>
      c \<in> set cs \<and> c_id c = i \<or> i \<notin> c_id ` set cs \<and> map_of m i = Some c" if "distinct (map c_id cs)" for m
    using that by (induction cs arbitrary: m) (auto simp: update_conv')
  then show "distinct (map c_id cs) \<Longrightarrow> ?thesis" by (simp add: byId_def)
qed

lemma parent_of_iff: "distinct (map c_id cs) \<Longrightarrow> parent_of cs c = Some p \<longleftrightarrow> p \<in> set cs \<and> c_parent c = Some (c_id p)"
  by (auto simp: parent_of_def byId_iff split: option.split)

lemma entry_of_self: "distinct (map c_id cs) \<Longrightarrow> c \<in> set cs \<Longrightarrow> entry_of cs c = c"
  unfolding entry_of_def using byId_iff [of cs "c_id c" c] by simp

lemma map_idI: "(\<And>x. x \<in> set xs \<Longrightarrow> f x = x) \<Longrightarrow> map f xs = xs"
  by (induction xs) simp_all

lemma children_of_parent:
  assumes "distinct (map c_id cs)" "c \<in> set cs"
  shows "children_of cs (c_id c) = filter (\<lambda>d. parent_of cs d = Some c) cs"
proof -
  have "(c_parent d = Some (c_id c) \<and> parent_of cs d \<noteq> None) = (parent_of cs d = Some c)" for d
    using parent_of_iff [OF assms(1), of d] assms(2) by auto
  then show ?thesis unfolding children_of_def by (subst map_idI) (simp_all add: entry_of_self [OF assms(1)])
qed

lemma roots_of_parent: "distinct (map c_id cs) \<Longrightarrow> roots_of cs = filter (\<lambda>c. parent_of cs c = None) cs"
  unfolding roots_of_def by (rule map_idI) (simp add: entry_of_self)

lemma depth_unique: "at_depth cs j c \<Longrightarrow> at_depth cs k c \<Longrightarrow> j = k"
  unfolding at_depth_def by (metis climb_None_mono not_less_eq_eq le_antisym nat_le_linear)

lemma depth_climb: "at_depth cs k c \<Longrightarrow> climb cs j c = Some d \<Longrightarrow> j \<le> k \<and> at_depth cs (k - j) d"
proof -
  assume k: "at_depth cs k c" and d: "climb cs j c = Some d"
  have "j \<le> k"
  proof (rule ccontr)
    assume "\<not> j \<le> k"
    then have "climb cs j c = None" using k climb_None_mono [of cs "Suc k" c j] by (simp add: at_depth_def)
    with d show False by simp
  qed
  moreover have "climb cs (j + i) c = climb cs i d" for i using d by (simp add: climb_add)
  from this [of "k - j"] this [of "Suc (k - j)"] have "at_depth cs (k - j) d" using k \<open>j \<le> k\<close> by (simp add: at_depth_def)
  ultimately show ?thesis by simp
qed

lemma depth_bound:
  assumes "distinct (map c_id cs)" "at_depth cs k c" "c \<in> set cs"
  shows "k < length cs"
proof -
  have "climb cs i c \<in> Some ` set cs" if "i \<le> k" for i
  proof -
    have "climb cs i c \<noteq> None" using assms(2) climb_None_mono [of cs i c k] that by (simp add: at_depth_def del: not_None_eq) blast
    then show ?thesis
      using assms(3) parent_of_iff [OF assms(1)] by (cases i) (auto simp: climb_Suc_end simp del: climb.simps(2) split: Option.bind_splits)
  qed
  moreover have "inj_on (\<lambda>i. climb cs i c) {..k}"
  proof (rule inj_onI)
    fix i j assume ij: "i \<in> {..k}" "j \<in> {..k}" "climb cs i c = climb cs j c"
    then obtain d where "climb cs i c = Some d" "climb cs j c = Some d" using \<open>\<And>i. i \<le> k \<Longrightarrow> climb cs i c \<in> Some ` set cs\<close> by auto
    then have "at_depth cs (k - i) d" "at_depth cs (k - j) d" using depth_climb [OF assms(2)] by blast+
    then have "k - i = k - j" by (rule depth_unique)
    with ij show "i = j" by simp
  qed
  ultimately have "card {..k} \<le> card (Some ` set cs)" by (intro card_inj_on_le [of "\<lambda>i. climb cs i c"]) auto
  also have "\<dots> \<le> length cs" by (simp add: card_image card_length)
  finally show ?thesis by simp
qed

lemma rooted_iff: "distinct (map c_id cs) \<Longrightarrow> c \<in> set cs \<Longrightarrow> rooted cs c \<longleftrightarrow> (\<exists>k. at_depth cs k c)"
proof
  assume "rooted cs c"
  then obtain k where k: "climb cs k c = None" "\<And>j. j < k \<Longrightarrow> climb cs j c \<noteq> None"
    unfolding rooted_def using exists_least_iff [of "\<lambda>k. climb cs k c = None"] by blast
  then obtain n where "k = Suc n" by (cases k) auto
  with k show "\<exists>k. at_depth cs k c" unfolding at_depth_def by blast
next
  assume d: "distinct (map c_id cs)" "c \<in> set cs" and ex: "\<exists>k. at_depth cs k c"
  from ex obtain k where k: "at_depth cs k c" ..
  from depth_bound [OF d(1) k d(2)] k climb_None_mono [of cs "Suc k" c "length cs"] show "rooted cs c"
    by (simp add: at_depth_def rooted_def)
qed

fun flatten :: "comment_node \<Rightarrow> comment list" where
  "flatten (Node c ts) = c # concat (map flatten ts)"

fun tree_ok :: "comment_node \<Rightarrow> bool" where
  \<comment> \<open>every child answers its parent, and siblings are in the order of their times\<close>
  "tree_ok (Node c ts) \<longleftrightarrow> sorted (map (c_createdAt \<circ> node_comment) ts)
     \<and> list_all (\<lambda>t. c_parent (node_comment t) = Some (c_id c) \<and> tree_ok t) ts"

lemma distinct_concat_map:
  "distinct xs \<Longrightarrow> (\<And>x. x \<in> set xs \<Longrightarrow> distinct (f x)) \<Longrightarrow>
   (\<And>x y. x \<in> set xs \<Longrightarrow> y \<in> set xs \<Longrightarrow> x \<noteq> y \<Longrightarrow> set (f x) \<inter> set (f y) = {}) \<Longrightarrow> distinct (concat (map f xs))"
proof (induction xs)
  case (Cons x xs)
  have "set (f x) \<inter> set (f y) = {}" if "y \<in> set xs" for y using that Cons.prems by (intro Cons.prems(3)) auto
  with Cons show ?case by auto
qed simp

lemma those_map_Some: "(\<And>x. x \<in> set xs \<Longrightarrow> f x = Some (g x)) \<Longrightarrow> those (map f xs) = Some (map g xs)"
  by (induction xs) auto

definition below :: "comment list \<Rightarrow> comment \<Rightarrow> comment set" where
  "below cs c = {d \<in> set cs. \<exists>j. climb cs j d = Some c}"

definition level_good :: "comment list \<Rightarrow> comment list \<Rightarrow> comment_node list \<Rightarrow> bool" where
  "level_good cs level ts \<longleftrightarrow> map node_comment ts = sort_key c_createdAt level \<and> list_all tree_ok ts
     \<and> distinct (concat (map flatten ts)) \<and> set (concat (map flatten ts)) = \<Union> (below cs ` set level)"

lemma climb_depth: "climb cs j d = Some c \<Longrightarrow> at_depth cs k c \<Longrightarrow> at_depth cs (j + k) d"
  using climb_add [of cs j k d] climb_add [of cs j "Suc k" d] by (simp add: at_depth_def)

lemma below_disjoint: "at_depth cs k c \<Longrightarrow> at_depth cs k c' \<Longrightarrow> c \<noteq> c' \<Longrightarrow> below cs c \<inter> below cs c' = {}"
proof -
  assume k: "at_depth cs k c" "at_depth cs k c'" "c \<noteq> c'"
  have False if "climb cs j d = Some c" "climb cs j' d = Some c'" for j j' d
    using depth_unique [OF climb_depth [OF that(1) k(1)] climb_depth [OF that(2) k(2)]] that k(3) by simp
  then show ?thesis by (auto simp: below_def)
qed

lemma below_children:
  assumes "distinct (map c_id cs)" "c \<in> set cs"
  shows "below cs c = insert c (\<Union> (below cs ` set (children_of cs (c_id c))))"
proof -
  have up: "(\<exists>j. climb cs j d = Some c) \<longleftrightarrow> d = c \<or> (\<exists>e. parent_of cs e = Some c \<and> (\<exists>j. climb cs j d = Some e))" for d
  proof -
    have "(\<exists>j. climb cs j d = Some c) \<longleftrightarrow> climb cs 0 d = Some c \<or> (\<exists>j. climb cs (Suc j) d = Some c)"
      by (metis not0_implies_Suc)
    also have "\<dots> \<longleftrightarrow> d = c \<or> (\<exists>j e. climb cs j d = Some e \<and> parent_of cs e = Some c)"
      unfolding climb_Suc_end by (auto simp: bind_eq_Some_conv)
    finally show ?thesis by blast
  qed
  have mem: "e \<in> set cs" if "climb cs j d = Some e" "d \<in> set cs" for j d e
    using that parent_of_iff [OF assms(1)] by (cases j) (auto simp: climb_Suc_end bind_eq_Some_conv simp del: climb.simps(2))
  show ?thesis
  proof (rule set_eqI)
    fix d
    show "d \<in> below cs c \<longleftrightarrow> d \<in> insert c (\<Union> (below cs ` set (children_of cs (c_id c))))"
      unfolding children_of_parent [OF assms] below_def using up [of d] mem assms(2) by (simp only: mem_Collect_eq) auto
  qed
qed

lemma sortLevel_good:
  assumes "distinct (map c_id cs)"
  shows "k \<le> length cs \<Longrightarrow> length cs < n + k \<Longrightarrow> distinct level \<Longrightarrow> \<forall>c \<in> set level. c \<in> set cs \<and> at_depth cs k c
    \<Longrightarrow> \<exists>ts. sortLevel n cs level = Some ts \<and> level_good cs level ts"
proof (induction n arbitrary: k level)
  case (Suc n)
  let ?ch = "\<lambda>c. children_of cs (c_id c)"
  have sub: "\<exists>ts. sortLevel n cs (?ch c) = Some ts \<and> level_good cs (?ch c) ts" if c: "c \<in> set level" for c
  proof (rule Suc.IH [of "Suc k"])
    have cs: "c \<in> set cs" "at_depth cs k c" using c Suc.prems(4) by auto
    then show "Suc k \<le> length cs" using depth_bound [OF assms(1)] by force
    show "length cs < n + Suc k" using Suc.prems(2) by simp
    show "distinct (?ch c)" using distinct_map [of c_id cs] assms(1) by (simp add: children_of_parent [OF assms(1) cs(1)])
    show "\<forall>d \<in> set (?ch c). d \<in> set cs \<and> at_depth cs (Suc k) d"
      using climb_depth [of cs 1 _ c k] cs(2) by (auto simp: children_of_parent [OF assms(1) cs(1)])
  qed
  then obtain g where g: "\<And>c. c \<in> set level \<Longrightarrow> sortLevel n cs (?ch c) = Some (g c) \<and> level_good cs (?ch c) (g c)" by metis
  let ?xs = "sort_key c_createdAt level"
  let ?ts = "map (\<lambda>c. Node c (g c)) ?xs"
  have run: "sortLevel (Suc n) cs level = Some ?ts"
    unfolding sortLevel.simps by (rule those_map_Some) (use g in auto)
  have f: "set (flatten (Node c (g c))) = below cs c" "distinct (flatten (Node c (g c)))" "tree_ok (Node c (g c))" if c: "c \<in> set level" for c
  proof -
    have cs: "c \<in> set cs" "at_depth cs k c" using c Suc.prems(4) by auto
    have gc: "level_good cs (?ch c) (g c)" using g [OF c] ..
    show "set (flatten (Node c (g c))) = below cs c" using gc below_children [OF assms(1) cs(1)] by (simp add: level_good_def)
    have "c \<notin> below cs d" if "parent_of cs d = Some c" for d
    proof
      assume "c \<in> below cs d"
      then obtain j where j: "climb cs j c = Some d" by (auto simp: below_def)
      have "at_depth cs (Suc k) d" using climb_depth [of cs 1 d c k] that cs(2) by simp
      from depth_unique [OF climb_depth [OF j this] cs(2)] show False by simp
    qed
    then show "distinct (flatten (Node c (g c)))" using gc by (auto simp: level_good_def children_of_parent [OF assms(1) cs(1)])
    have "c_parent (node_comment t) = Some (c_id c)" if "t \<in> set (g c)" for t
    proof -
      have "set (map node_comment (g c)) = set (?ch c)" using gc unfolding level_good_def by (metis set_sort)
      then have "node_comment t \<in> set (?ch c)" using that by auto
      then show ?thesis using parent_of_iff [OF assms(1)] by (auto simp: children_of_parent [OF assms(1) cs(1)])
    qed
    moreover have "sorted (map (c_createdAt \<circ> node_comment) (g c))"
      using gc sorted_sort_key [of c_createdAt "?ch c"] by (metis level_good_def map_map)
    ultimately show "tree_ok (Node c (g c))" using gc by (simp add: level_good_def list_all_iff)
  qed
  have "distinct (concat (map flatten ?ts))"
    unfolding map_map comp_def
  proof (rule distinct_concat_map)
    show "distinct ?xs" using Suc.prems(3) by simp
    show "distinct (flatten (Node c (g c)))" if "c \<in> set ?xs" for c using f(2) that by simp
    show "set (flatten (Node c (g c))) \<inter> set (flatten (Node d (g d))) = {}" if "c \<in> set ?xs" "d \<in> set ?xs" "c \<noteq> d" for c d
      using that Suc.prems(4) below_disjoint [of cs k c d] f(1) by (simp del: flatten.simps)
  qed
  moreover have "set (concat (map flatten ?ts)) = \<Union> (below cs ` set level)" using f(1) by (auto simp del: flatten.simps)
  ultimately have "level_good cs level ?ts" using f(3) by (simp add: level_good_def list_all_iff comp_def del: flatten.simps tree_ok.simps)
  with run show ?case by blast
qed simp

lemma count_flatten: "count_node t = length (flatten t)"
proof (induction t)
  case (Node c ts)
  then have "sum_list (map count_node ts) = sum_list (map (\<lambda>t. length (flatten t)) ts)"
    by (intro arg_cong [of _ _ sum_list] map_cong) auto
  then show ?case by (simp add: length_concat comp_def)
qed

text \<open>C32. The panel shows the conversation: comments with ids of their own give a tree, on a stack of
  more frames than there are comments. It holds exactly the comments that hang on a root, each once,
  every reply below the comment it answers, siblings in the order of their times; and the total is
  their number. (Comments that answer each other in a cycle, and what hangs on them, are not shown.)\<close>

theorem comment_tree_exact:
  assumes "distinct (map c_id cs)" "length cs < frames"
  shows "\<exists>ts. buildTree frames cs = Some ts \<and> mset (concat (map flatten ts)) = mset (filter (rooted cs) cs)
    \<and> list_all (\<lambda>t. parent_of cs (node_comment t) = None \<and> tree_ok t) ts \<and> sorted (map (c_createdAt \<circ> node_comment) ts)
    \<and> totalVisible None ts = length (filter (rooted cs) cs)"
proof -
  let ?roots = "filter (\<lambda>c. parent_of cs c = None) cs"
  have dcs: "distinct cs" using assms(1) by (simp add: distinct_map)
  have depth0: "at_depth cs 0 c \<longleftrightarrow> parent_of cs c = None" for c by (simp add: at_depth_def split: option.split)
  obtain ts where ts: "buildTree frames cs = Some ts" "level_good cs ?roots ts"
  proof -
    have "\<exists>ts. sortLevel frames cs ?roots = Some ts \<and> level_good cs ?roots ts"
      by (rule sortLevel_good [OF assms(1), of 0]) (use assms(2) dcs in \<open>simp_all add: depth0\<close>)
    then show ?thesis using that unfolding buildTree_def roots_of_parent [OF assms(1)] by blast
  qed
  have "\<Union> (below cs ` set ?roots) = set (filter (rooted cs) cs)"
  proof (rule set_eqI)
    fix d
    have "(\<exists>j c. climb cs j d = Some c \<and> c \<in> set cs \<and> parent_of cs c = None) \<longleftrightarrow> (\<exists>k. at_depth cs k d)" if d: "d \<in> set cs"
    proof
      assume "\<exists>j c. climb cs j d = Some c \<and> c \<in> set cs \<and> parent_of cs c = None"
      then show "\<exists>k. at_depth cs k d" using climb_depth depth0 by blast
    next
      assume "\<exists>k. at_depth cs k d"
      then obtain k c where k: "at_depth cs k d" "climb cs k d = Some c" by (auto simp: at_depth_def)
      then have "parent_of cs c = None" using depth_climb [OF k] depth0 by simp
      moreover have "c \<in> set cs" using k(2) d parent_of_iff [OF assms(1)] by (cases k) (auto simp: climb_Suc_end bind_eq_Some_conv simp del: climb.simps(2))
      ultimately show "\<exists>j c. climb cs j d = Some c \<and> c \<in> set cs \<and> parent_of cs c = None" using k(2) by blast
    qed
    then show "d \<in> \<Union> (below cs ` set ?roots) \<longleftrightarrow> d \<in> set (filter (rooted cs) cs)"
      using rooted_iff [OF assms(1), of d] by (auto simp: below_def)
  qed
  then have ms: "mset (concat (map flatten ts)) = mset (filter (rooted cs) cs)"
    using ts(2) dcs by (subst set_eq_iff_mset_eq_distinct [symmetric]) (auto simp: level_good_def)
  have "map node_comment ts = sort_key c_createdAt ?roots" using ts(2) by (simp add: level_good_def)
  then have "set (map node_comment ts) = set ?roots" "sorted (map c_createdAt (map node_comment ts))" by (simp_all add: set_sort)
  moreover have "count_node = (\<lambda>t. length (flatten t))" by (rule ext) (rule count_flatten)
  then have "totalVisible None ts = length (concat (map flatten ts))"
    by (simp add: totalVisible_def visibleRoots_def length_concat comp_def)
  then have "totalVisible None ts = length (filter (rooted cs) cs)" using mset_eq_length [OF ms] by (simp only:)
  ultimately show ?thesis using ts ms by (auto simp: level_good_def list_all_iff)
qed

definition sample_comments :: "comment list" where
  "sample_comments = [\<lparr>c_id = ''r'', c_parent = None, c_versionId = ''v1'', c_createdAt = 1\<rparr>,
     \<lparr>c_id = ''b'', c_parent = Some ''r'', c_versionId = ''v2'', c_createdAt = 5\<rparr>,
     \<lparr>c_id = ''a'', c_parent = Some ''r'', c_versionId = ''v2'', c_createdAt = 3\<rparr>,
     \<lparr>c_id = ''x'', c_parent = Some ''y'', c_versionId = ''v1'', c_createdAt = 2\<rparr>,
     \<lparr>c_id = ''y'', c_parent = Some ''x'', c_versionId = ''v1'', c_createdAt = 2\<rparr>]"

theorem comment_tree_exact_witness:
  "map (rooted sample_comments) sample_comments = [True, True, True, False, False]
   \<and> (\<exists>ts. buildTree 6 sample_comments = Some ts \<and> totalVisible None ts = 3)"
proof
  show r: "map (rooted sample_comments) sample_comments = [True, True, True, False, False]" by code_simp
  have d: "distinct (map c_id sample_comments)" "length sample_comments < 6" by code_simp+
  have "length (filter (rooted sample_comments) sample_comments) = 3" by code_simp
  then show "\<exists>ts. buildTree 6 sample_comments = Some ts \<and> totalVisible None ts = 3"
    using comment_tree_exact [OF d] by metis
qed

text \<open>The version filter looks at roots only: it counts replies on other versions, and it hides a
  reply on the chosen version when its conversation began on another one.\<close>

theorem version_filter_by_root:
  "map_option (totalVisible (Some ''v1'')) (buildTree 6 sample_comments) = Some 3
   \<and> map_option (totalVisible (Some ''v2'')) (buildTree 6 sample_comments) = Some 0"
  by code_simp

section \<open>Facts: mentions\<close>

definition mark :: "char \<Rightarrow> bool" where "mark c \<longleftrightarrow> c = CHR ''#'' \<or> c = CHR ''@''"

lemma rx_at_mention:
  "rx_at rx_mention i s = (case s of [] \<Rightarrow> None | c # t \<Rightarrow>
     if mark c \<and> takeWhile not_ws t \<noteq> []
     then Some (advance_cap 1 (Suc (length (takeWhile not_ws t))) \<lparr>mpos = i, mrest = s, mcaps = []\<rparr>) else None)"
proof -
  have p: "rx_run (RSeq (RChr d) (RPlus (RSet not_ws))) m =
      (if mrest m \<noteq> [] \<and> hd (mrest m) = d then map (\<lambda>k. advance (Suc (Suc k)) m) (rev [0..<length (takeWhile not_ws (tl (mrest m)))]) else [])" for d m
    by (cases "mrest m") (simp_all add: rx_run_chr rx_run_plus_set del: rx_run.simps(4))
  show ?thesis
  proof (cases s)
    case (Cons c t)
    show ?thesis
      unfolding rx_at_def rx_mention_def rx_run.simps(6,8) p
      by (cases "takeWhile not_ws t") (auto simp: Cons mark_def rx_capture_advance advance_cap_def)
  qed (simp add: rx_at_def rx_mention_def p del: rx_run.simps(5))
qed

lemma consumes_mention: "consumes rx_mention"
  by (auto simp: consumes_def rx_at_mention split: list.splits if_splits)

definition put_char :: "char \<Rightarrow> text_piece list \<Rightarrow> text_piece list" where
  "put_char c ps = (case ps of PText v # qs \<Rightarrow> PText (c # v) # qs | _ \<Rightarrow> PText [c] # ps)"

definition mention :: "char \<Rightarrow> string \<Rightarrow> text_piece" where
  "mention c w = (if c = CHR ''#'' then PAttr w else PUser w)"

lemma mention_part_Cons: "mention_part (c # w) = mention c w"
  by (simp add: mention_part_def mention_def starts_with_def)

lemma parts_from_skip: "rx_at rx_mention i (c # s) = None \<Longrightarrow> parts_from i (c # s) = put_char c (parts_from (Suc i) s)"
  unfolding parts_from_def rx_all_skip [OF _ consumes_mention]
  by (auto simp: put_char_def text_part_def mention_part_def split: prod.split list.split)

lemma parts_from_hit: "rx_at rx_mention i s = Some m \<Longrightarrow> parts_from i s = mention_part (grp 1 m) # parts_from (mpos m) (mrest m)"
  using consumes_mention by (auto simp: parts_from_def consumes_def rx_all_hit text_part_def split: prod.split)

lemma parts_from_Cons: "parts_from i (c # t) =
  (if mark c \<and> takeWhile not_ws t \<noteq> [] then mention c (takeWhile not_ws t) # parts_from (i + 1 + length (takeWhile not_ws t)) (dropWhile not_ws t)
   else put_char c (parts_from (Suc i) t))"
proof (cases "mark c \<and> takeWhile not_ws t \<noteq> []")
  case True
  let ?n = "length (takeWhile not_ws t)"
  have "rx_at rx_mention i (c # t) = Some (advance_cap 1 (Suc ?n) \<lparr>mpos = i, mrest = c # t, mcaps = []\<rparr>)"
    using True by (simp add: rx_at_mention)
  from parts_from_hit [OF this] True show ?thesis
    by (simp add: grp_def mention_part_Cons takeWhile_eq_take [symmetric] dropWhile_eq_drop [symmetric])
next
  case False
  then have "rx_at rx_mention i (c # t) = None" by (auto simp: rx_at_mention)
  from parts_from_skip [OF this] False show ?thesis by auto
qed

lemma parts_from_pos: "parts_from i s = rich_text s"
proof (induction s arbitrary: i rule: length_induct)
  case (1 s)
  show ?case
  proof (cases s)
    case Nil
    then show ?thesis by (simp add: rich_text_def parts_from_def rx_all_Nil [OF consumes_mention])
  next
    case (Cons c t)
    have "length (dropWhile not_ws t) \<le> length t" by (rule length_dropWhile_le)
    then have "parts_from j (dropWhile not_ws t) = rich_text (dropWhile not_ws t)" "parts_from j t = rich_text t" for j
      using 1 [rule_format, of "dropWhile not_ws t"] 1 [rule_format, of t] by (simp_all add: Cons)
    then show ?thesis by (simp add: Cons rich_text_def [of "c # t"] parts_from_Cons)
  qed
qed

lemma rich_text_Nil: "rich_text [] = []"
  by (simp add: rich_text_def parts_from_def rx_all_Nil [OF consumes_mention] text_part_def)

lemma rich_text_Cons: "rich_text (c # t) =
  (if mark c \<and> takeWhile not_ws t \<noteq> [] then mention c (takeWhile not_ws t) # rich_text (dropWhile not_ws t) else put_char c (rich_text t))"
  unfolding rich_text_def [of "c # t"] parts_from_Cons by (simp add: parts_from_pos)

lemma put_char_text: "concat (map part_text (put_char c ps)) = c # concat (map part_text ps)"
  by (auto simp: put_char_def split: list.split text_piece.split)

lemma rich_text_round_trip: "concat (map part_text (rich_text s)) = s"
  \<comment> \<open>the parts of a text, one after the other, are the text\<close>
proof (induction s rule: length_induct)
  case (1 s)
  show ?case
  proof (cases s)
    case (Cons c t)
    have "concat (map part_text (rich_text (dropWhile not_ws t))) = dropWhile not_ws t" "concat (map part_text (rich_text t)) = t"
      using 1 length_dropWhile_le [of not_ws t] by (simp_all add: Cons le_imp_less_Suc)
    then show ?thesis by (auto simp: Cons rich_text_Cons put_char_text mention_def mark_def)
  qed (simp add: rich_text_Nil)
qed

lemma put_char_append: "qs = [] \<or> (\<forall>v. hd qs \<noteq> PText v) \<Longrightarrow> put_char c (ps @ qs) = put_char c ps @ qs"
  by (cases ps; cases qs) (auto simp: put_char_def split: text_piece.split)

lemma rich_text_split:
  assumes "pre = [] \<or> js_ws (last pre)" "mark c" "w \<noteq> []" "list_all not_ws w" "rest = [] \<or> js_ws (hd rest)"
  shows "rich_text (pre @ c # w @ rest) = rich_text pre @ mention c w # rich_text rest"
  using assms(1)
proof (induction pre rule: length_induct)
  case (1 pre)
  have w: "takeWhile not_ws (w @ rest) = w" "dropWhile not_ws (w @ rest) = rest"
    using assms(4,5) by (cases rest; simp add: list_all_iff takeWhile_append dropWhile_append)+
  show ?case
  proof (cases pre)
    case Nil
    then show ?thesis using assms(2,3) w by (simp add: rich_text_Cons rich_text_Nil)
  next
    case (Cons d t)
    have t: "t = [] \<or> js_ws (last t)" using 1(2) by (cases "t = []") (simp_all add: Cons)
    have IH: "rich_text (u @ c # w @ rest) = rich_text u @ mention c w # rich_text rest"
      if "length u \<le> length t" "u = [] \<or> js_ws (last u)" for u using 1(1) [rule_format, of u] that by (simp add: Cons)
    show ?thesis
    proof (cases "mark d \<and> takeWhile not_ws t \<noteq> []")
      case True
      then have "t \<noteq> []" "js_ws (last t)" using t by auto
      then have "last t \<in> set t" by simp
      then have s: "takeWhile not_ws (t @ c # w @ rest) = takeWhile not_ws t" "dropWhile not_ws (t @ c # w @ rest) = dropWhile not_ws t @ c # w @ rest"
        using \<open>js_ws (last t)\<close> by (simp_all add: takeWhile_append1 [of "last t"] dropWhile_append1 [of "last t"])
      have "dropWhile not_ws t = [] \<or> js_ws (last (dropWhile not_ws t))"
        using \<open>js_ws (last t)\<close> by (metis last_appendR takeWhile_dropWhile_id)
      with IH [of "dropWhile not_ws t"] length_dropWhile_le [of not_ws t] True s show ?thesis
        by (simp add: Cons rich_text_Cons)
    next
      case False
      have "\<not> (mark d \<and> takeWhile not_ws (t @ c # w @ rest) \<noteq> [])"
      proof (cases t)
        case Nil
        then have "js_ws d" using 1(2) by (simp add: Cons)
        then have "\<not> mark d" by (auto simp: mark_def js_ws_def)
        then show ?thesis by simp
      next
        case (Cons e u)
        with False show ?thesis by auto
      qed
      then have "rich_text (d # t @ c # w @ rest) = put_char d (rich_text (t @ c # w @ rest))"
        unfolding rich_text_Cons [of d] by (rule if_not_P)
      then have "rich_text (pre @ c # w @ rest) = put_char d (rich_text t @ mention c w # rich_text rest)"
        using IH [of t] t by (simp add: Cons)
      also have "\<dots> = put_char d (rich_text t) @ mention c w # rich_text rest"
        by (rule put_char_append) (simp add: mention_def)
      also have "put_char d (rich_text t) = rich_text pre" unfolding Cons rich_text_Cons using False by (rule if_not_P [symmetric])
      finally show ?thesis .
    qed
  qed
qed

section \<open>Facts: completion\<close>

definition trigger_text :: "trigger \<Rightarrow> string \<Rightarrow> bool" where
  \<comment> \<open>\<open>before\<close> ends with the trigger: a mark at the start or after white space, then the query\<close>
  "trigger_text t before \<longleftrightarrow> (\<exists>pre. before = pre @ tg_type t # tg_query t \<and> tg_start t = length pre \<and> (pre = [] \<or> js_ws (last pre))
     \<and> mark (tg_type t) \<and> list_all (\<lambda>c. \<not> js_ws c \<and> \<not> mark c) (tg_query t))"

lemma trigger_loop_exact:
  "k \<le> length before \<Longrightarrow> list_all (\<lambda>c. \<not> js_ws c \<and> \<not> mark c) (drop k before) \<Longrightarrow>
   trigger_loop before k = Some t \<longleftrightarrow> trigger_text t before \<and> tg_start t < k"
proof (induction k)
  case (Suc i)
  have i: "before = take i before @ before ! i # drop (Suc i) before" using Suc.prems(1) by (simp add: id_take_nth_drop)
  have here: "trigger_text t before \<and> tg_start t = i \<longleftrightarrow>
      mark (before ! i) \<and> (i = 0 \<or> js_ws (before ! (i - 1))) \<and> t = \<lparr>tg_type = before ! i, tg_query = drop (Suc i) before, tg_start = i\<rparr>"
    (is "?l \<longleftrightarrow> ?r")
  proof
    assume ?l
    then obtain pre where pre: "before = pre @ tg_type t # tg_query t" "i = length pre" "pre = [] \<or> js_ws (last pre)" "mark (tg_type t)"
      by (auto simp: trigger_text_def)
    moreover have w: "js_ws (before ! (i - 1))" if "pre \<noteq> []" using that pre(3) by (simp add: pre(1,2) nth_append last_conv_nth)
    moreover have "tg_start t = i" using \<open>?l\<close> ..
    ultimately show ?r using pre by (cases t; cases "pre = []") auto
  next
    assume r: ?r
    have "last (take i before) = before ! (i - 1)" if "i \<noteq> 0" using that Suc.prems(1) by (subst last_conv_nth) auto
    with r i Suc.prems show ?l by (cases "i = 0") (auto simp: trigger_text_def intro!: exI [of _ "take i before"])
  qed
  have not_before: "tg_start t = i" if h: "trigger_text t before" "tg_start t < Suc i" "mark (before ! i) \<or> js_ws (before ! i)"
  proof (rule ccontr)
    assume "tg_start t \<noteq> i"
    obtain pre where pre: "before = pre @ tg_type t # tg_query t" "tg_start t = length pre" "list_all (\<lambda>c. \<not> js_ws c \<and> \<not> mark c) (tg_query t)"
      using h(1) by (auto simp: trigger_text_def)
    with h(2) \<open>tg_start t \<noteq> i\<close> have "length pre < i" by simp
    then have "before ! i = tg_query t ! (i - length pre - 1)" "i - length pre - 1 < length (tg_query t)"
      using Suc.prems(1) arg_cong [OF pre(1), of length] by (subst pre(1), simp_all add: nth_append nth_Cons')
    with pre(3) h(3) show False by (auto simp: list_all_length)
  qed
  consider "mark (before ! i)" | "js_ws (before ! i)" "\<not> mark (before ! i)" | "\<not> mark (before ! i)" "\<not> js_ws (before ! i)" by blast
  then show ?case
  proof cases
    case 1
    have "trigger_loop before (Suc i) = Some t \<longleftrightarrow>
        (i = 0 \<or> js_ws (before ! (i - 1))) \<and> t = \<lparr>tg_type = before ! i, tg_query = drop (Suc i) before, tg_start = i\<rparr>"
      using 1 Suc.prems(2) by (auto simp: mark_def Let_def list_all_iff list_ex_iff)
    then show ?thesis using here not_before 1 by auto
  next
    case 2
    then have "trigger_loop before (Suc i) = None" by (simp add: mark_def Let_def)
    then show ?thesis using here not_before 2 by auto
  next
    case 3
    then have "trigger_loop before (Suc i) = trigger_loop before i" by (simp add: mark_def Let_def)
    moreover have "drop i before = before ! i # drop (Suc i) before" using Suc.prems(1) by (simp add: Cons_nth_drop_Suc)
    ultimately have "trigger_loop before (Suc i) = Some t \<longleftrightarrow> trigger_text t before \<and> tg_start t < i"
      using Suc 3 by simp
    also have "\<dots> \<longleftrightarrow> trigger_text t before \<and> tg_start t < Suc i" using here 3 by (auto simp: less_Suc_eq)
    finally show ?thesis .
  qed
qed simp

lemma detectTrigger_exact: "detectTrigger s pos = Some t \<longleftrightarrow> trigger_text t (take pos s)"
proof -
  have "tg_start t < length b" if "trigger_text t b" for b using that by (auto simp: trigger_text_def)
  then have "trigger_loop b (length b) = Some t \<longleftrightarrow> trigger_text t b" for b
    using trigger_loop_exact [of "length b" b t] by auto
  then show ?thesis unfolding detectTrigger_def Let_def .
qed

text \<open>Completing a mention: when the input offers completions at a cursor, then choosing an item
  replaces what was typed of it, and nothing else, puts the cursor behind it, and the text so made is
  shown as before with the chosen attribute or user as a mention in between, whatever follows the
  cursor.\<close>

theorem completed_mention:
  assumes "detectTrigger s pos = Some t" "ai_prefix item = tg_type t" "ai_id item \<noteq> []" "list_all not_ws (ai_id item)"
    and "insertCompletion item (handleTextChange s pos cp) = (cp', cursor)"
  shows "cp_text cp' = take (tg_start t) s @ (ai_prefix item # ai_id item @ '' '') @ drop pos s \<and> acState cp' = None
    \<and> cursor = Some (length (take (tg_start t) s @ (ai_prefix item # ai_id item @ '' '')))
    \<and> rich_text (cp_text cp') = rich_text (take (tg_start t) s) @ mention (tg_type t) (ai_id item) # rich_text ('' '' @ drop pos s)"
proof -
  obtain pre where pre: "take pos s = pre @ tg_type t # tg_query t" "tg_start t = length pre" "pre = [] \<or> js_ws (last pre)" "mark (tg_type t)"
    using assms(1) by (auto simp: detectTrigger_exact trigger_text_def)
  have s: "s = pre @ tg_type t # tg_query t @ drop pos s" using append_take_drop_id [of pos s] pre(1) by simp
  have tk: "take (tg_start t) s = pre" by (subst s) (simp add: pre(2))
  have dr: "drop (tg_start t + 1 + length (tg_query t)) s = drop pos s" by (subst s) (simp add: pre(2))
  have st: "acState (handleTextChange s pos cp) = Some t" "cp_text (handleTextChange s pos cp) = s"
    using assms(1) by (simp_all add: handleTextChange_def)
  have out: "cp_text cp' = pre @ (ai_prefix item # ai_id item @ '' '') @ drop pos s" "acState cp' = None"
    "cursor = Some (length (pre @ (ai_prefix item # ai_id item @ '' '')))"
    using assms(5) dr by (auto simp: insertCompletion_def st tk Let_def)
  have "rich_text (pre @ ai_prefix item # ai_id item @ '' '' @ drop pos s) = rich_text pre @ mention (ai_prefix item) (ai_id item) # rich_text ('' '' @ drop pos s)"
    by (rule rich_text_split) (use pre(3,4) assms(2-4) in \<open>simp_all add: js_ws_def\<close>)
  with out tk assms(2) show ?thesis by simp
qed

theorem completed_mention_witness:
  "rich_text (cp_text (fst (insertCompletion \<lparr>ai_id = ''ann'', ai_label = ''Ann'', ai_prefix = CHR ''@''\<rparr>
     (handleTextChange ''ask @a about #mass'' 6 \<lparr>cp_text = [], replyTo = None, acState = None, acIdx = 0, cp_loading = False\<rparr>))))
   = [PText ''ask '', PUser ''ann'', PText ''  about '', PAttr ''mass'']"
proof -
  let ?item = "\<lparr>ai_id = ''ann'', ai_label = ''Ann'', ai_prefix = CHR ''@''\<rparr>"
  let ?cp = "\<lparr>cp_text = [], replyTo = None, acState = None, acIdx = 0, cp_loading = False\<rparr>"
  obtain cp' cursor where i: "insertCompletion ?item (handleTextChange ''ask @a about #mass'' 6 ?cp) = (cp', cursor)" by fastforce
  have t: "detectTrigger ''ask @a about #mass'' 6 = Some \<lparr>tg_type = CHR ''@'', tg_query = ''a'', tg_start = 4\<rparr>" by code_simp
  have it: "ai_prefix ?item = tg_type \<lparr>tg_type = CHR ''@'', tg_query = ''a'', tg_start = 4\<rparr>" "ai_id ?item \<noteq> []" "list_all not_ws (ai_id ?item)"
    by code_simp+
  from completed_mention [OF t it i, THEN conjunct2, THEN conjunct2, THEN conjunct2]
  have "rich_text (cp_text cp') = rich_text (take 4 ''ask @a about #mass'') @ mention (CHR ''@'') ''ann'' # rich_text ('' '' @ drop 6 ''ask @a about #mass'')"
    by (simp only: trigger.simps ac_item.simps)
  moreover have "rich_text (take 4 ''ask @a about #mass'') = [PText ''ask '']" "rich_text ('' '' @ drop 6 ''ask @a about #mass'') = [PText ''  about '', PAttr ''mass'']"
    by code_simp+
  ultimately show ?thesis by (simp add: i mention_def)
qed

text \<open>A mention takes everything up to the next white space: a comma or a full stop after an attribute
  becomes part of its name, in the text and in the field that is posted.\<close>

theorem mention_takes_punctuation:
  "extractAttrName ''check #mass, please'' = Some ''mass,'' \<and> rich_text ''check #mass, please'' = [PText ''check '', PAttr ''mass,'', PText '' please'']"
  by code_simp

end
