(* ===== verification/ProductScene.thy ===== *)
theory ProductScene
  imports JsValue StepMatrix
begin

text \<open>
  What the 3D preview of a node shows (\<open>psm-api/ui/src/NodeEditor.jsx\<close>): \<open>collectStepNodes\<close> walks the
  links of a product down to a depth, picks one STEP file per node, and multiplies the positions of
  the links on the way. The children of a node are fetched at the same time; \<open>turn\<close> says in which
  order the branches finish, \<open>children\<close> is what \<open>getChildLinks\<close> answers (None: the call fails).
  The last section is the test on the parent chain of node types.
\<close>

section \<open>Links\<close>

record link_attr =
  attributeId :: string
  attr_text :: "string option"

record plink =
  linkId :: "string option"
  targetSourceCode :: string
  targetNodeId :: "string option"
  targetKey :: string
  displayKey :: "string option"
  targetLogicalId :: "string option"
  targetState :: "string option"
  contentType :: "string option"
  sizeBytes :: "int option"
  linkAttributeValues :: "link_attr list"

definition non_empty :: "string option \<Rightarrow> string option" where
  \<comment> \<open>\<open>v || null\<close> of a string\<close>
  "non_empty v = (if v = Some [] then None else v)"

definition attr_value :: "string \<Rightarrow> plink \<Rightarrow> string option" where
  \<comment> \<open>\<open>(link.linkAttributeValues || []).find(av => av.attributeId === k)?.value\<close>\<close>
  "attr_value k link = (case find (\<lambda>av. attributeId av = k) (linkAttributeValues link) of
     Some av \<Rightarrow> attr_text av | None \<Rightarrow> None)"

definition getLinkKind :: "plink \<Rightarrow> string option" where
  "getLinkKind link = non_empty (attr_value ''kind'' link)"

definition getLinkLayer :: "plink \<Rightarrow> string" where
  "getLinkLayer link = (case non_empty (attr_value ''layer'' link) of Some v \<Rightarrow> v | None \<Rightarrow> ''main'')"

definition endsWith :: "string \<Rightarrow> string \<Rightarrow> bool" where
  "endsWith s ending = starts_with (rev s) (rev ending)"

definition isStepLink :: "plink \<Rightarrow> bool" where
  "isStepLink link =
     (let ct = toLowerCase (or_nil (contentType link));
          name = toLowerCase (case non_empty (displayKey link) of Some k \<Rightarrow> k | None \<Rightarrow> targetKey link)
      in str_includes ct ''step'' \<or> str_includes ct ''stp'' \<or>
         endsWith name ''.stp'' \<or> endsWith name ''.step'' \<or> endsWith name ''.p21'')"

definition isRepresentationLink :: "plink \<Rightarrow> bool" where
  "isRepresentationLink link =
     (if targetSourceCode link \<noteq> ''DATA_LOCAL'' then False
      else let kind = getLinkKind link
        in if kind = Some ''simplified'' \<or> kind = Some ''design'' \<or> kind = Some ''original'' then True
           else isStepLink link)"

section \<open>Positions\<close>

definition multiplyMatrix4 :: "'f fp_ops \<Rightarrow> 'f list \<Rightarrow> 'f list \<Rightarrow> 'f list" where
  "multiplyMatrix4 fp a b =
     concat (map (\<lambda>row. map (\<lambda>col.
       fold (\<lambda>k sum. fp_add fp sum (fp_mul fp (a ! (row * 4 + k)) (b ! (k * 4 + col)))) [0..<4] (fp_zero fp))
       [0..<4]) [0..<4])"

definition local_matrix :: "'f fp_ops \<Rightarrow> plink \<Rightarrow> 'f list option" where
  "local_matrix fp link = (case non_empty (attr_value ''position'' link) of
     None \<Rightarrow> None
   | Some posValue \<Rightarrow>
       let parts = map (fp_number fp) (split_on CHR '','' posValue)
       in if length parts = 16 \<and> list_all (\<lambda>n. n \<noteq> None) parts then Some (map the parts) else None)"

definition compose_matrix :: "'f fp_ops \<Rightarrow> 'f list option \<Rightarrow> 'f list option \<Rightarrow> 'f list option" where
  "compose_matrix fp world loc = (case (world, loc) of
     (Some w, Some l) \<Rightarrow> Some (multiplyMatrix4 fp w l)
   | (None, Some l) \<Rightarrow> Some l
   | (Some w, None) \<Rightarrow> Some w
   | (None, None) \<Rightarrow> None)"

section \<open>The file of a node\<close>

record layer_entry =
  simplified :: "plink option"
  fallback :: "plink option"

definition add_rep :: "plink \<Rightarrow> layer_entry jsobj \<Rightarrow> layer_entry jsobj" where
  \<comment> \<open>the body of the loop that fills \<open>byLayer\<close>\<close>
  "add_rep l byLayer =
     (let layer = getLinkLayer l; kind = getLinkKind l;
          entry = (case obj_get byLayer layer of Some e \<Rightarrow> e | None \<Rightarrow> \<lparr>simplified = None, fallback = None\<rparr>)
      in obj_put layer
           (if kind = Some ''simplified'' then entry\<lparr>simplified := Some l\<rparr>
            else if fallback entry = None then entry\<lparr>fallback := Some l\<rparr> else entry) byLayer)"

record 'f scene_part =
  part_uuid :: string
  part_fileName :: string
  part_sizeBytes :: "int option"
  instanceKey :: string
  part_matrix :: "'f list option"
  part_kind :: string

definition directPart :: "string option \<Rightarrow> 'f list option \<Rightarrow> plink \<Rightarrow> 'f scene_part" where
  "directPart parentLinkId world l =
     \<lparr>part_uuid = targetKey l,
      part_fileName = (case non_empty (displayKey l) of Some k \<Rightarrow> k | None \<Rightarrow> targetKey l),
      part_sizeBytes = sizeBytes l,
      instanceKey = (case parentLinkId of Some p \<Rightarrow> targetKey l @ ''#'' @ p | None \<Rightarrow> targetKey l),
      part_matrix = world,
      part_kind = (case getLinkKind l of Some k \<Rightarrow> k | None \<Rightarrow> ''design'')\<rparr>"

definition directParts :: "plink list \<Rightarrow> string option \<Rightarrow> 'f list option \<Rightarrow> 'f scene_part list" where
  "directParts links parentLinkId world =
     (let byLayer = fold add_rep (filter isRepresentationLink links) []
      in List.map_filter (\<lambda>(layer, e).
           if layer \<noteq> ''main'' then None
           else map_option (directPart parentLinkId world)
                  (case simplified e of Some l \<Rightarrow> Some l | None \<Rightarrow> fallback e)) byLayer)"

section \<open>The walk\<close>

record 'f scene_node =
  scene_nodeId :: string
  scene_label :: string
  scene_color :: string
  scene_depth :: nat
  scene_parts :: "'f scene_part list"
  instanceId :: string

definition own_entry ::
  "string \<Rightarrow> string \<Rightarrow> string \<Rightarrow> plink list \<Rightarrow> nat \<Rightarrow> string option \<Rightarrow> 'f list option \<Rightarrow> 'f scene_node list" where
  \<comment> \<open>what a node puts in \<open>result\<close> itself\<close>
  "own_entry nodeId label color links dep parentLinkId world =
     (let parts = directParts links parentLinkId world
      in if parts = [] then []
         else [\<lparr>scene_nodeId = nodeId, scene_label = label, scene_color = color, scene_depth = dep,
                scene_parts = parts, instanceId = (case parentLinkId of Some p \<Rightarrow> p | None \<Rightarrow> nodeId)\<rparr>])"

definition selfLinks :: "plink list \<Rightarrow> plink list" where
  "selfLinks links = filter (\<lambda>l. targetSourceCode l = ''SELF'' \<and> non_empty (targetNodeId l) \<noteq> None) links"

fun claim_links :: "plink list \<Rightarrow> string list \<Rightarrow> plink list \<times> string list" where
  \<comment> \<open>the part of every callback before its first \<open>await\<close>: the links that go on, and \<open>visited\<close> after it\<close>
  "claim_links [] visited = ([], visited)"
| "claim_links (l # ls) visited =
     (case non_empty (linkId l) of
        None \<Rightarrow> claim_links ls visited
      | Some i \<Rightarrow> if i \<in> set visited then claim_links ls visited
                  else (let (more, visited') = claim_links ls (js_add i visited) in (l # more, visited')))"

definition link_path :: "string option \<Rightarrow> plink \<Rightarrow> string" where
  "link_path parentLinkId l = (case parentLinkId of
     Some p \<Rightarrow> p @ ''/'' @ or_nil (linkId l) | None \<Rightarrow> or_nil (linkId l))"

definition link_label :: "plink \<Rightarrow> string" where
  "link_label l = (case non_empty (targetLogicalId l) of Some s \<Rightarrow> s | None \<Rightarrow> or_nil (targetNodeId l))"

definition link_color :: "string jsobj \<Rightarrow> plink \<Rightarrow> string" where
  "link_color colors l = (case non_empty (case targetState l of Some s \<Rightarrow> obj_get colors s | None \<Rightarrow> None) of
     Some c \<Rightarrow> c | None \<Rightarrow> ''#6b7280'')"

function collectStepNodes ::
  "'f fp_ops \<Rightarrow> string jsobj \<Rightarrow> (string \<Rightarrow> plink list option) \<Rightarrow> (string option \<Rightarrow> plink \<Rightarrow> nat) \<Rightarrow>
   string \<Rightarrow> string \<Rightarrow> string \<Rightarrow> plink list \<Rightarrow> nat \<Rightarrow> nat \<Rightarrow> string list \<Rightarrow> string option \<Rightarrow> 'f list option \<Rightarrow>
   'f scene_node list" where
  "collectStepNodes fp colors children turn nodeId label color links dep maxDepth visited parentLinkId world =
     (if dep > maxDepth then []
      else if dep = 0 \<and> parentLinkId = None \<and> nodeId \<in> set visited then []
      else
        let visited1 = (if dep = 0 \<and> parentLinkId = None then js_add nodeId visited else visited);
            own = own_entry nodeId label color links dep parentLinkId world
        in own @ (if dep < maxDepth
             then (let (started, visited2) = claim_links (selfLinks links) visited1
               in concat (map (\<lambda>l. case children (or_nil (targetNodeId l)) of
                    None \<Rightarrow> []
                  | Some childLinks \<Rightarrow>
                      collectStepNodes fp colors children turn (or_nil (targetNodeId l)) (link_label l)
                        (link_color colors l) childLinks (dep + 1) maxDepth visited2
                        (Some (link_path parentLinkId l)) (compose_matrix fp world (local_matrix fp l)))
                  (sort_key (turn parentLinkId) started)))
             else []))"
  by pat_completeness auto
termination
  by (relation "measure (\<lambda>(fp, colors, children, turn, nodeId, label, color, links, dep, maxDepth, r). Suc maxDepth - dep)") auto

declare collectStepNodes.simps [simp del]

definition previewNodes ::
  "'f fp_ops \<Rightarrow> string jsobj \<Rightarrow> (string \<Rightarrow> plink list option) \<Rightarrow> (string option \<Rightarrow> plink \<Rightarrow> nat) \<Rightarrow>
   string \<Rightarrow> string \<Rightarrow> string \<Rightarrow> plink list \<Rightarrow> 'f scene_node list" where
  \<comment> \<open>the call of the preview effect\<close>
  "previewNodes fp colors children turn nodeId label color links =
     collectStepNodes fp colors children turn nodeId label color links 0 3 [] None None"

section \<open>Type of a node\<close>

definition type_id :: "json \<Rightarrow> json option" where
  "type_id t = js_or (jprop (Some t) ''id'') (jprop (Some t) ''ID'')"

definition parent_type :: "json list \<Rightarrow> string \<Rightarrow> string option" where
  \<comment> \<open>the value of \<open>current\<close> after one round, None when the loop ends with it\<close>
  "parent_type nodeTypes current = (case find (\<lambda>t. type_id t = Some (JStr current)) nodeTypes of
     None \<Rightarrow> None
   | Some nt \<Rightarrow> (case js_or (jprop (Some nt) ''parent_node_type_id'') (jprop (Some nt) ''PARENT_NODE_TYPE_ID'') of
       Some (JStr p) \<Rightarrow> non_empty (Some p) | _ \<Rightarrow> None))"

partial_function (option) type_walk :: "json list \<Rightarrow> string \<Rightarrow> string \<Rightarrow> bool option" where
  "type_walk nodeTypes expectedType current =
     (if current = expectedType then Some True
      else case parent_type nodeTypes current of
        None \<Rightarrow> Some False
      | Some p \<Rightarrow> type_walk nodeTypes expectedType p)"

definition isTypeOrDescendant :: "string option \<Rightarrow> string \<Rightarrow> json list \<Rightarrow> bool option" where
  \<comment> \<open>None: the loop does not end\<close>
  "isTypeOrDescendant typeId expectedType nodeTypes = (case non_empty typeId of
     None \<Rightarrow> Some False | Some t \<Rightarrow> type_walk nodeTypes expectedType t)"

section \<open>Reference: every chain of links\<close>

fun link_chains :: "(string \<Rightarrow> plink list option) \<Rightarrow> nat \<Rightarrow> plink list \<Rightarrow> plink list list" where
  "link_chains children 0 links = [[]]"
| "link_chains children (Suc k) links = [] # concat (map (\<lambda>l.
     case children (or_nil (targetNodeId l)) of
       None \<Rightarrow> [] | Some ls \<Rightarrow> map ((#) l) (link_chains children k ls)) (selfLinks links))"

definition chain_path :: "plink list \<Rightarrow> string option" where
  "chain_path c = (if c = [] then None else Some (join ''/'' (map (\<lambda>l. or_nil (linkId l)) c)))"

definition chain_matrix :: "'f fp_ops \<Rightarrow> plink list \<Rightarrow> 'f list option" where
  \<comment> \<open>the product of the positions on a chain, links without one left out\<close>
  "chain_matrix fp c = (case List.map_filter (local_matrix fp) c of
     [] \<Rightarrow> None | m # ms \<Rightarrow> Some (foldl (multiplyMatrix4 fp) m ms))"

definition chain_entry ::
  "'f fp_ops \<Rightarrow> string jsobj \<Rightarrow> (string \<Rightarrow> plink list option) \<Rightarrow> string \<Rightarrow> string \<Rightarrow> string \<Rightarrow> plink list \<Rightarrow>
   plink list \<Rightarrow> 'f scene_node list" where
  \<comment> \<open>the entry of the node at the end of a chain\<close>
  "chain_entry fp colors children nodeId label color links c =
     (if c = [] then own_entry nodeId label color links 0 None None
      else let l = last c; n = or_nil (targetNodeId l)
        in own_entry n (link_label l) (link_color colors l) (or_nil (children n)) (length c) (chain_path c) (chain_matrix fp c))"

definition product_structure :: "(string \<Rightarrow> plink list option) \<Rightarrow> (string \<Rightarrow> nat) \<Rightarrow> bool" where
  \<comment> \<open>link ids identify the links, and \<open>level\<close> falls along them: no node is below itself\<close>
  "product_structure children level \<longleftrightarrow>
     (\<forall>n ls. children n = Some ls \<longrightarrow>
        distinct (map linkId (selfLinks ls)) \<and>
        (\<forall>l\<in>set (selfLinks ls). non_empty (linkId l) \<noteq> None \<and> level (or_nil (targetNodeId l)) < level n) \<and>
        (\<forall>m ms. children m = Some ms \<longrightarrow> m \<noteq> n \<longrightarrow> linkId ` set (selfLinks ls) \<inter> linkId ` set (selfLinks ms) = {}))"

section \<open>Facts: the walk\<close>

lemma chain_path_snoc: "link_path (chain_path c) l = the (chain_path (c @ [l]))" "chain_path (c @ [l]) \<noteq> None"
  by (auto simp: link_path_def chain_path_def join_singleton_sep)

lemma chain_path_step: "Some (link_path (chain_path c) l) = chain_path (c @ [l])"
  using chain_path_snoc [of c l] by simp

lemma chain_matrix_snoc: "compose_matrix fp (chain_matrix fp c) (local_matrix fp l) = chain_matrix fp (c @ [l])"
  by (auto simp: chain_matrix_def compose_matrix_def List.map_filter_def split: list.splits option.splits)

lemma claim_fresh:
  "distinct (map linkId ls) \<Longrightarrow> \<forall>l\<in>set ls. \<exists>i. non_empty (linkId l) = Some i \<and> i \<notin> set visited \<Longrightarrow>
   fst (claim_links ls visited) = ls \<and> set (snd (claim_links ls visited)) = set visited \<union> {i. Some i \<in> linkId ` set ls}"
proof (induction ls arbitrary: visited)
  case (Cons l ls)
  then obtain i where i: "non_empty (linkId l) = Some i" "i \<notin> set visited" by auto
  then have li: "linkId l = Some i" by (auto simp: non_empty_def split: if_splits)
  have "\<forall>k\<in>set ls. \<exists>j. non_empty (linkId k) = Some j \<and> j \<notin> set (js_add i visited)"
  proof
    fix k assume k: "k \<in> set ls"
    then obtain j where j: "non_empty (linkId k) = Some j" "j \<notin> set visited" using Cons.prems(2) by auto
    then have "linkId k = Some j" by (auto simp: non_empty_def split: if_splits)
    then have "j \<noteq> i" using Cons.prems(1) k li by force
    then show "\<exists>j. non_empty (linkId k) = Some j \<and> j \<notin> set (js_add i visited)" using j by auto
  qed
  then have "fst (claim_links ls (js_add i visited)) = ls"
    "set (snd (claim_links ls (js_add i visited))) = set (js_add i visited) \<union> {i. Some i \<in> linkId ` set ls}"
    using Cons.IH [of "js_add i visited"] Cons.prems(1) by auto
  then show ?case using i li by (auto split: prod.splits)
qed simp

lemma mset_concat_map_cong:
  "mset xs = mset ys \<Longrightarrow> (\<And>x. x \<in> set ys \<Longrightarrow> mset (f x) = mset (g x)) \<Longrightarrow> mset (concat (map f xs)) = mset (concat (map g ys))"
proof -
  assume a: "mset xs = mset ys" "\<And>x. x \<in> set ys \<Longrightarrow> mset (f x) = mset (g x)"
  have c: "mset (concat (map h zs)) = sum_mset (image_mset (\<lambda>z. mset (h z)) (mset zs))" for h :: "'a \<Rightarrow> 'b list" and zs
    by (induction zs) auto
  have "set xs = set ys" using a(1) by (metis set_mset_mset)
  then show ?thesis unfolding c a(1) using a(2) by (intro arg_cong [where f = sum_mset] image_mset_cong) simp
qed

lemma chains_Suc_entries:
  "concat (map E (link_chains children (Suc k) links)) = E [] @ concat (map (\<lambda>l. case children (or_nil (targetNodeId l)) of
     None \<Rightarrow> [] | Some ls \<Rightarrow> concat (map (\<lambda>c. E (l # c)) (link_chains children k ls))) (selfLinks links))"
proof -
  have "concat (map E (concat (map f xs))) = concat (map (\<lambda>x. concat (map E (f x))) xs)" for f :: "plink \<Rightarrow> plink list list" and xs
    by (induction xs) auto
  then show ?thesis by (auto simp: comp_def intro!: arg_cong [where f = concat] map_cong split: option.splits)
qed

lemma product_structureD:
  assumes "product_structure children level" "children n = Some ls"
  shows "distinct (map linkId (selfLinks ls))"
    "l \<in> set (selfLinks ls) \<Longrightarrow> non_empty (linkId l) \<noteq> None \<and> level (or_nil (targetNodeId l)) < level n"
    "children m = Some ms \<Longrightarrow> Some i \<in> linkId ` set (selfLinks ls) \<Longrightarrow> Some i \<in> linkId ` set (selfLinks ms) \<Longrightarrow> m = n"
proof -
  have a: "distinct (map linkId (selfLinks ls)) \<and>
      (\<forall>l\<in>set (selfLinks ls). non_empty (linkId l) \<noteq> None \<and> level (or_nil (targetNodeId l)) < level n) \<and>
      (\<forall>m ms. children m = Some ms \<longrightarrow> m \<noteq> n \<longrightarrow> linkId ` set (selfLinks ls) \<inter> linkId ` set (selfLinks ms) = {})"
    using assms unfolding product_structure_def by blast
  then show "distinct (map linkId (selfLinks ls))" by simp
  show "l \<in> set (selfLinks ls) \<Longrightarrow> non_empty (linkId l) \<noteq> None \<and> level (or_nil (targetNodeId l)) < level n" using a by simp
  show "children m = Some ms \<Longrightarrow> Some i \<in> linkId ` set (selfLinks ls) \<Longrightarrow> Some i \<in> linkId ` set (selfLinks ms) \<Longrightarrow> m = n"
    using a by (metis disjoint_iff)
qed

definition seen_above :: "(string \<Rightarrow> plink list option) \<Rightarrow> (string \<Rightarrow> nat) \<Rightarrow> string list \<Rightarrow> nat \<Rightarrow> bool" where
  \<comment> \<open>the link ids in \<open>visited\<close> belong to nodes above a level\<close>
  "seen_above children level visited h \<longleftrightarrow>
     (\<forall>m ms i. children m = Some ms \<longrightarrow> i \<in> set visited \<longrightarrow> Some i \<in> linkId ` set (selfLinks ms) \<longrightarrow> h < level m)"

definition not_a_link :: "(string \<Rightarrow> plink list option) \<Rightarrow> string \<Rightarrow> bool" where
  "not_a_link children n \<longleftrightarrow> (\<forall>m ms. children m = Some ms \<longrightarrow> Some n \<notin> linkId ` set (selfLinks ms))"

lemma claim_all:
  assumes ps: "product_structure children level" and c: "children n = Some links"
    and s: "seen_above children level visited (level n)"
  shows "fst (claim_links (selfLinks links) visited) = selfLinks links"
    "l \<in> set (selfLinks links) \<Longrightarrow> seen_above children level (snd (claim_links (selfLinks links) visited)) (level (or_nil (targetNodeId l)))"
proof -
  have "\<exists>i. non_empty (linkId l) = Some i \<and> i \<notin> set visited" if l: "l \<in> set (selfLinks links)" for l
  proof -
    obtain i where i: "non_empty (linkId l) = Some i" using product_structureD(2) [OF ps c l] by auto
    then have "linkId l = Some i" by (auto simp: non_empty_def split: if_splits)
    then have "Some i \<in> linkId ` set (selfLinks links)" using l by force
    then have "i \<notin> set visited" using s c unfolding seen_above_def by blast
    then show ?thesis using i by blast
  qed
  then have f: "fst (claim_links (selfLinks links) visited) = selfLinks links"
    "set (snd (claim_links (selfLinks links) visited)) = set visited \<union> {i. Some i \<in> linkId ` set (selfLinks links)}"
    using claim_fresh [OF product_structureD(1) [OF ps c], of visited] by blast+
  show "fst (claim_links (selfLinks links) visited) = selfLinks links" by (rule f)
  assume l: "l \<in> set (selfLinks links)"
  have lt: "level (or_nil (targetNodeId l)) < level n" using product_structureD(2) [OF ps c l] by simp
  show "seen_above children level (snd (claim_links (selfLinks links) visited)) (level (or_nil (targetNodeId l)))"
    unfolding seen_above_def
  proof (intro allI impI)
    fix m ms i
    assume m: "children m = Some ms" "i \<in> set (snd (claim_links (selfLinks links) visited))" "Some i \<in> linkId ` set (selfLinks ms)"
    then consider "i \<in> set visited" | "Some i \<in> linkId ` set (selfLinks links)" unfolding f(2) by blast
    then show "level (or_nil (targetNodeId l)) < level m"
    proof cases
      case 1 then have "level n < level m" using s m(1,3) unfolding seen_above_def by blast
      then show ?thesis using lt by simp
    next
      case 2 then show ?thesis using product_structureD(3) [OF ps c m(1)] m(3) lt by simp
    qed
  qed
qed

lemma seen_above_root:
  "not_a_link children n \<Longrightarrow> seen_above children level visited h \<Longrightarrow> seen_above children level (js_add n visited) h"
  by (auto simp: seen_above_def not_a_link_def)

lemma collect_chains:
  assumes ps: "product_structure children level"
  shows "length pre \<le> maxd \<Longrightarrow> k = maxd - length pre \<Longrightarrow>
    (nid, label, color, links) = (if pre = [] then (rt, rl, rc, rlinks) else
      (or_nil (targetNodeId (last pre)), link_label (last pre), link_color colors (last pre), or_nil (children nid))) \<Longrightarrow>
    children nid = Some links \<Longrightarrow> seen_above children level visited (level nid) \<Longrightarrow>
    (pre = [] \<Longrightarrow> nid \<notin> set visited \<and> not_a_link children nid) \<Longrightarrow>
    mset (collectStepNodes fp colors children turn nid label color links (length pre) maxd visited (chain_path pre) (chain_matrix fp pre)) =
    mset (concat (map (\<lambda>c. chain_entry fp colors children rt rl rc rlinks (pre @ c)) (link_chains children k links)))"
proof (induction k arbitrary: pre nid label color links visited)
  case 0
  have own: "chain_entry fp colors children rt rl rc rlinks pre = own_entry nid label color links (length pre) (chain_path pre) (chain_matrix fp pre)"
    using 0(3,4) by (cases "pre = []") (auto simp: chain_entry_def Let_def chain_path_def chain_matrix_def List.map_filter_def)
  have "\<not> (length pre = 0 \<and> chain_path pre = None \<and> nid \<in> set visited)" using 0(6) by auto
  moreover have "length pre = maxd" using 0(1,2) by simp
  ultimately show ?case by (auto simp: collectStepNodes.simps [of _ _ _ _ nid] own Let_def)
next
  case (Suc k)
  let ?E = "chain_entry fp colors children rt rl rc rlinks"
  have own: "?E pre = own_entry nid label color links (length pre) (chain_path pre) (chain_matrix fp pre)"
    using Suc.prems(3,4) by (cases "pre = []") (auto simp: chain_entry_def Let_def chain_path_def chain_matrix_def List.map_filter_def)
  define v where "v = (if pre = [] then js_add nid visited else visited)"
  have sv: "seen_above children level v (level nid)"
    using Suc.prems(5,6) seen_above_root by (auto simp: v_def)
  note cl = claim_all [OF ps Suc.prems(4) sv]
  define v2 where "v2 = snd (claim_links (selfLinks links) v)"
  have clm: "claim_links (selfLinks links) v = (selfLinks links, v2)" using cl(1) by (simp add: v2_def prod_eq_iff)
  let ?C = "\<lambda>l. case children (or_nil (targetNodeId l)) of None \<Rightarrow> [] | Some ls \<Rightarrow>
      collectStepNodes fp colors children turn (or_nil (targetNodeId l)) (link_label l) (link_color colors l) ls (length pre + 1)
        maxd v2 (Some (link_path (chain_path pre) l)) (compose_matrix fp (chain_matrix fp pre) (local_matrix fp l))"
  have rt: "length pre = 0 \<and> chain_path pre = None \<longleftrightarrow> pre = []" by (auto simp: chain_path_def)
  have run: "collectStepNodes fp colors children turn nid label color links (length pre) maxd visited (chain_path pre) (chain_matrix fp pre)
      = ?E pre @ concat (map ?C (sort_key (turn (chain_path pre)) (selfLinks links)))"
    using Suc.prems(1,2,6) rt clm
    by (subst collectStepNodes.simps) (auto simp: Let_def own v_def split: if_splits)
  have step: "mset (?C l) = mset (case children (or_nil (targetNodeId l)) of None \<Rightarrow> [] | Some ls \<Rightarrow>
      concat (map (\<lambda>c. ?E (pre @ l # c)) (link_chains children k ls)))" if l: "l \<in> set (selfLinks links)" for l
  proof (cases "children (or_nil (targetNodeId l))")
    case (Some ls)
    have "mset (collectStepNodes fp colors children turn (or_nil (targetNodeId l)) (link_label l) (link_color colors l) ls
        (length (pre @ [l])) maxd v2 (chain_path (pre @ [l])) (chain_matrix fp (pre @ [l]))) =
      mset (concat (map (\<lambda>c. ?E ((pre @ [l]) @ c)) (link_chains children k ls)))"
      by (rule Suc.IH) (use Suc.prems(1,2) Some cl(2) [OF l] in \<open>simp_all add: v2_def\<close>)
    then show ?thesis using Some by (simp add: chain_path_step chain_matrix_snoc)
  qed simp
  show ?case unfolding run chains_Suc_entries mset_append append_Nil2
    by (intro arg_cong2 [where f = "(+)"] refl mset_concat_map_cong step) simp
qed

text \<open>C33. The 3D preview shows the product as it is built: in a structure in which link ids identify
  links and no node is below itself, the nodes collected are exactly those at the ends of the chains
  of at most three links, each once per chain and with the STEP file of its main layer, named by the
  ids of the links that lead to it and placed by the product of their positions. The order in which
  the concurrent fetches finish and the set of visited links make no difference.\<close>

theorem preview_is_unfolding:
  assumes "product_structure children level" "children rt = Some links" "not_a_link children rt"
  shows "mset (previewNodes fp colors children turn rt label color links) =
     mset (concat (map (chain_entry fp colors children rt label color links) (link_chains children 3 links)))"
  using collect_chains [OF assms(1), where pre = "[]" and maxd = 3 and k = 3 and visited = "[]" and nid = rt and rt = rt
    and label = label and rl = label and color = color and rc = color and links = links and rlinks = links] assms(2,3)
  by (simp add: previewNodes_def seen_above_def chain_path_def chain_matrix_def List.map_filter_def)

definition sample_link :: "string \<Rightarrow> string \<Rightarrow> plink" where
  "sample_link i n = \<lparr>linkId = Some i, targetSourceCode = ''SELF'', targetNodeId = Some n, targetKey = n, displayKey = None,
     targetLogicalId = None, targetState = None, contentType = None, sizeBytes = None, linkAttributeValues = []\<rparr>"

definition sample_file :: "string \<Rightarrow> plink" where
  "sample_file u = (sample_link ''f'' u)\<lparr>targetSourceCode := ''DATA_LOCAL'', displayKey := Some ''bolt.stp''\<rparr>"

definition sample_children :: "string \<Rightarrow> plink list option" where
  \<comment> \<open>an assembly that holds a bolt twice\<close>
  "sample_children n = (if n = ''asm'' then Some [sample_link ''l1'' ''bolt'', sample_link ''l2'' ''bolt'']
     else if n = ''bolt'' then Some [sample_file ''u1''] else None)"

theorem preview_is_unfolding_witness:
  "mset (map instanceId (previewNodes sample_ops [] sample_children (\<lambda>_ l. if linkId l = Some ''l1'' then 1 else 0)
     ''asm'' ''Assembly'' ''red'' [sample_link ''l1'' ''bolt'', sample_link ''l2'' ''bolt''])) = {#''l1'', ''l2''#}"
proof -
  let ?ls = "[sample_link ''l1'' ''bolt'', sample_link ''l2'' ''bolt'']"
  have sl: "selfLinks ?ls = ?ls" "selfLinks [sample_file ''u1''] = []" by code_simp+
  have "product_structure sample_children (\<lambda>n. if n = ''asm'' then 1 else 0)"
    unfolding product_structure_def sample_children_def by (simp add: sl) (simp add: sample_link_def non_empty_def)
  moreover have "sample_children ''asm'' = Some ?ls" by (simp add: sample_children_def)
  moreover have "not_a_link sample_children ''asm''"
    unfolding not_a_link_def sample_children_def by (simp add: sl) (simp add: sample_link_def)
  ultimately have e: "mset (previewNodes sample_ops [] sample_children (\<lambda>_ l. if linkId l = Some ''l1'' then 1 else 0) ''asm'' ''Assembly'' ''red'' ?ls) =
      mset (concat (map (chain_entry sample_ops [] sample_children ''asm'' ''Assembly'' ''red'' ?ls) (link_chains sample_children 3 ?ls)))"
    by (rule preview_is_unfolding)
  have m: "map instanceId (concat (map (chain_entry sample_ops [] sample_children ''asm'' ''Assembly'' ''red'' ?ls)
      (link_chains sample_children 3 ?ls))) = [''l1'', ''l2'']"
    by code_simp
  show ?thesis unfolding mset_map e unfolding mset_map [symmetric] m by simp
qed

section \<open>Facts: positions\<close>

lemma length_multiplyMatrix4: "length (multiplyMatrix4 fp a b) = 16"
  by (simp add: multiplyMatrix4_def upt_rec)

section \<open>Facts: the parent chain\<close>

inductive descends :: "json list \<Rightarrow> string \<Rightarrow> string \<Rightarrow> bool" for nodeTypes where
  here: "descends nodeTypes t t"
| up: "parent_type nodeTypes t = Some p \<Longrightarrow> descends nodeTypes p u \<Longrightarrow> descends nodeTypes t u"

inductive_simps descends_iff: "descends nodeTypes t u"

text \<open>On a parent chain that comes to an end the test returns and decides descent; on a chain that runs
  into a cycle without the type looked for, it never returns.\<close>

lemma isTypeOrDescendant_decides:
  assumes up: "\<And>c p. parent_type nodeTypes c = Some p \<Longrightarrow> level p < (level c :: nat)" and t: "t \<noteq> []"
  shows "isTypeOrDescendant (Some t) e nodeTypes = Some (descends nodeTypes t e)"
proof -
  have "type_walk nodeTypes e c = Some (descends nodeTypes c e)" for c
  proof (induction "level c" arbitrary: c rule: less_induct)
    case less
    show ?case
    proof (cases "parent_type nodeTypes c")
      case None
      then show ?thesis by (subst type_walk.simps, subst descends_iff) auto
    next
      case (Some p)
      from less [OF up [OF Some]] show ?thesis using Some by (subst type_walk.simps, subst descends_iff) auto
    qed
  qed
  then show ?thesis using t by (simp add: isTypeOrDescendant_def non_empty_def)
qed

lemma type_walk_returns:
  "type_walk nodeTypes e c = Some b \<Longrightarrow> b = descends nodeTypes c e"
proof (induction rule: type_walk.raw_induct [rotated 1, consumes 1])
  case (1 type_walk nodeTypes e c b)
  then show ?case by (subst descends_iff) (auto split: if_splits option.splits)
qed

definition cyclic_types :: "json list" where
  "cyclic_types = [JObj [(''id'', JStr ''a''), (''parent_node_type_id'', JStr ''b'')], JObj [(''id'', JStr ''b''), (''parent_node_type_id'', JStr ''a'')]]"

theorem cyclic_parents_never_return: "isTypeOrDescendant (Some ''a'') ''part'' cyclic_types = None"
proof (rule ccontr)
  have p: "parent_type cyclic_types ''a'' = Some ''b''" "parent_type cyclic_types ''b'' = Some ''a''" by code_simp+
  have no: "type_walk ts e c = Some r \<Longrightarrow> ts = cyclic_types \<and> e = ''part'' \<longrightarrow> c \<notin> {''a'', ''b''}" for ts e c r
  proof (induction rule: type_walk.raw_induct [rotated 1, consumes 1])
    case (1 walk nodeTypes e c r)
    then show ?case using p 1(1) [of cyclic_types "''part''" "''a''" r] 1(1) [of cyclic_types "''part''" "''b''" r]
      by (auto split: if_splits)
  qed
  assume "isTypeOrDescendant (Some ''a'') ''part'' cyclic_types \<noteq> None"
  then show False using no [of cyclic_types "''part''" "''a''"] by (auto simp: isTypeOrDescendant_def non_empty_def)
qed

end
