(* ===== verification/NodeEdit.thy ===== *)
theory NodeEdit
  imports JsValue
begin

text \<open>
  Editing the attributes of a node (\<open>psm-api/ui/src/NodeEditor.jsx\<close>): every change of a field puts the
  changes so far in a timer, the timer sends them, and the answer patches the description and empties
  the list of changes. The machine of the editor has one event for each: a change, the timer, an
  answer, the end of a load, a description from the shell, a move to another node. The last sections
  are the smaller computations of the editor: the counts of the history, the pair of versions of a
  comparison, and what a click on an action does. \<open>ed_acknowledged\<close> is no state of the code: it lists
  the saves the service has confirmed.
\<close>

section \<open>State\<close>

record node_field =
  nf_name :: string
  nf_value :: "json option"

record node_desc =
  nd_values :: "node_field list option"
  nd_fields :: "node_field list option"

record save_request =
  sr_node :: string
  sr_tx :: "string option"
  sr_attrs :: "string jsobj"

datatype save_status = Saving | SavedMark

record editor =
  ed_node :: string
  ed_tx :: "string option"
  ed_desc :: "node_desc option"
  edits :: "string jsobj"
  saveTimer :: "save_request option"
  saving :: "save_request list"
  saveStatus :: "save_status option"
  savedTimer :: bool
  saveViolations :: "json list"
  toasts :: nat
  ed_acknowledged :: "save_request list"

definition open_editor :: "string \<Rightarrow> string option \<Rightarrow> node_desc option \<Rightarrow> editor" where
  "open_editor n tx d = \<lparr>ed_node = n, ed_tx = tx, ed_desc = d, edits = [], saveTimer = None, saving = [], saveStatus = None,
     savedTimer = False, saveViolations = [], toasts = 0, ed_acknowledged = []\<rparr>"

section \<open>Operations\<close>

definition patch_fields :: "string jsobj \<Rightarrow> node_field list \<Rightarrow> node_field list" where
  "patch_fields pend fs = map (\<lambda>f. case obj_get pend (nf_name f) of
     Some v \<Rightarrow> f\<lparr>nf_value := Some (JStr v)\<rparr> | None \<Rightarrow> f) fs"

definition patchNodeDescAttrs :: "string jsobj \<Rightarrow> node_desc option \<Rightarrow> node_desc option" where
  "patchNodeDescAttrs pend prev = (case prev of None \<Rightarrow> None
   | Some d \<Rightarrow> (case nd_values d of
       Some vs \<Rightarrow> Some (d\<lparr>nd_values := Some (patch_fields pend vs)\<rparr>)
     | None \<Rightarrow> Some (d\<lparr>nd_fields := Some (patch_fields pend (or_nil (nd_fields d)))\<rparr>)))"

definition raw_values :: "node_desc option \<Rightarrow> node_field list" where
  \<comment> \<open>\<open>activeDesc?.values ?? activeDesc?.fields ?? []\<close>\<close>
  "raw_values d = (case d of None \<Rightarrow> [] | Some d \<Rightarrow> (case nd_values d of Some vs \<Rightarrow> vs | None \<Rightarrow> or_nil (nd_fields d)))"

definition currentVal :: "editor \<Rightarrow> node_field \<Rightarrow> json option" where
  \<comment> \<open>what the input of an attribute shows\<close>
  "currentVal s f = (case obj_get (edits s) (nf_name f) of
     Some v \<Rightarrow> Some (JStr v) | None \<Rightarrow> js_or (nf_value f) (Some (JStr [])))"

definition scheduleAutoSave :: "string jsobj \<Rightarrow> editor \<Rightarrow> editor" where
  "scheduleAutoSave pend s =
     s\<lparr>saveStatus := None, saveTimer := Some \<lparr>sr_node = ed_node s, sr_tx = ed_tx s, sr_attrs = pend\<rparr>\<rparr>"

definition field_changed :: "string \<Rightarrow> string \<Rightarrow> editor \<Rightarrow> editor" where
  \<comment> \<open>\<open>onChange\<close> of an editable field\<close>
  "field_changed a v s = (let newEdits = obj_put a v (edits s) in scheduleAutoSave newEdits (s\<lparr>edits := newEdits\<rparr>))"

definition save_params :: "save_request \<Rightarrow> string jsobj" where
  "save_params r = obj_spread (sr_attrs r) [(''_description'', ''Auto-save'')]"

definition autoSave_starts :: "save_request \<Rightarrow> editor \<Rightarrow> editor" where
  \<comment> \<open>\<open>autoSave\<close> up to its \<open>await\<close>\<close>
  "autoSave_starts r s = s\<lparr>saveStatus := Some Saving, saving := saving s @ [r]\<rparr>"

definition autoSave_succeeds :: "nat \<Rightarrow> json list \<Rightarrow> editor \<Rightarrow> editor" where
  \<comment> \<open>\<open>autoSave\<close> after it, \<open>violations\<close> being those of the result\<close>
  "autoSave_succeeds i violations s =
     s\<lparr>ed_desc := patchNodeDescAttrs (sr_attrs (saving s ! i)) (ed_desc s), edits := [], saveViolations := violations,
       saveStatus := Some SavedMark, savedTimer := True, saving := without_nth i (saving s),
       ed_acknowledged := ed_acknowledged s @ [saving s ! i]\<rparr>"

definition autoSave_fails :: "nat \<Rightarrow> json list \<Rightarrow> editor \<Rightarrow> editor" where
  "autoSave_fails i hard s =
     (let t = s\<lparr>saveStatus := None, saving := without_nth i (saving s)\<rparr>
      in if hard \<noteq> [] then t\<lparr>saveViolations := hard\<rparr> else t\<lparr>toasts := toasts t + 1\<rparr>)"

definition switch_node :: "string \<Rightarrow> editor \<Rightarrow> editor" where
  \<comment> \<open>the effects on a change of \<open>nodeId\<close>, as far as they touch this state\<close>
  "switch_node n s = s\<lparr>ed_node := n, edits := [], saveStatus := None, saveViolations := []\<rparr>"

section \<open>The machine\<close>

datatype edit_event =
    Typed string string
  | SaveDue
  | SaveOk nat "json list"
  | SaveFailed nat "json list"
  | MarkDue
  | Loaded
  | DescArrived node_desc
  | NodeSwitched string

fun edit_step :: "edit_event \<Rightarrow> editor \<Rightarrow> editor" where
  "edit_step (Typed a v) s = field_changed a v s"
| "edit_step SaveDue s = (case saveTimer s of Some r \<Rightarrow> autoSave_starts r (s\<lparr>saveTimer := None\<rparr>) | None \<Rightarrow> s)"
| "edit_step (SaveOk i violations) s = autoSave_succeeds i violations s"
| "edit_step (SaveFailed i hard) s = autoSave_fails i hard s"
| "edit_step MarkDue s = s\<lparr>saveStatus := None, savedTimer := False\<rparr>"
| "edit_step Loaded s = s\<lparr>edits := []\<rparr>"
| "edit_step (DescArrived d) s = s\<lparr>ed_desc := Some d\<rparr>"
| "edit_step (NodeSwitched n) s = switch_node n s"

fun edit_enabled :: "edit_event \<Rightarrow> editor \<Rightarrow> bool" where
  \<comment> \<open>an attribute that is shown is changed, a timer that runs falls due, a save under way is answered\<close>
  "edit_enabled (Typed a v) s \<longleftrightarrow> list_ex (\<lambda>f. nf_name f = a) (raw_values (ed_desc s))"
| "edit_enabled SaveDue s \<longleftrightarrow> saveTimer s \<noteq> None"
| "edit_enabled (SaveOk i _) s \<longleftrightarrow> i < length (saving s)"
| "edit_enabled (SaveFailed i _) s \<longleftrightarrow> i < length (saving s)"
| "edit_enabled MarkDue s \<longleftrightarrow> savedTimer s"
| "edit_enabled _ s \<longleftrightarrow> True"

definition stored :: "string \<Rightarrow> string \<Rightarrow> editor \<Rightarrow> string option" where
  \<comment> \<open>the value of an attribute of a node after the confirmed saves\<close>
  "stored n a s = fold (\<lambda>r v. if sr_node r = n then (case obj_get (sr_attrs r) a of Some w \<Rightarrow> Some w | None \<Rightarrow> v) else v)
     (ed_acknowledged s) None"

fun calm :: "edit_event \<Rightarrow> editor \<Rightarrow> bool" where
  \<comment> \<open>nothing is typed during a save, nothing is loaded while a change is unsaved, the shell hands over
     what has been saved, and the node stays the same\<close>
  "calm (Typed a v) s \<longleftrightarrow> edit_enabled (Typed a v) s \<and> saving s = []"
| "calm Loaded s \<longleftrightarrow> edits s = []"
| "calm (DescArrived d) s \<longleftrightarrow> list_all (\<lambda>f. case stored (ed_node s) (nf_name f) s of
     Some v \<Rightarrow> nf_value f = Some (JStr v) | None \<Rightarrow> True) (raw_values (Some d))"
| "calm (NodeSwitched n) s \<longleftrightarrow> False"
| "calm e s \<longleftrightarrow> edit_enabled e s"

fun last_typed :: "edit_event list \<Rightarrow> string \<Rightarrow> string option" where
  "last_typed [] a = None"
| "last_typed (e # es) a = (case last_typed es a of Some v \<Rightarrow> Some v
     | None \<Rightarrow> (case e of Typed b v \<Rightarrow> if b = a then Some v else None | _ \<Rightarrow> None))"

fun save_failed :: "edit_event list \<Rightarrow> bool" where
  \<comment> \<open>the last answer to a save was a failure\<close>
  "save_failed [] = False"
| "save_failed (e # es) = (if list_ex (\<lambda>e. case e of SaveOk _ _ \<Rightarrow> True | SaveFailed _ _ \<Rightarrow> True | _ \<Rightarrow> False) es then save_failed es
     else (case e of SaveFailed _ _ \<Rightarrow> True | _ \<Rightarrow> False))"

section \<open>Counts of the history\<close>

definition bump :: "string \<Rightarrow> nat jsobj \<Rightarrow> nat jsobj" where
  \<comment> \<open>\<open>counts[vid] = (counts[vid] || 0) + 1\<close>\<close>
  "bump k m = obj_put k (case obj_get m k of Some c \<Rightarrow> c + 1 | None \<Rightarrow> 1) m"

definition row_key :: "json option \<Rightarrow> string option" where
  \<comment> \<open>the key a truthy value is, None for the others\<close>
  "row_key v = (if truthy v then Some (opt_string v) else None)"

definition comment_counts :: "json list \<Rightarrow> nat jsobj" where
  "comment_counts cs = fold (\<lambda>c m. case row_key (jprop (Some c) ''versionId'') of None \<Rightarrow> m | Some vid \<Rightarrow> bump vid m) cs []"

definition sig_version :: "json \<Rightarrow> string option" where
  "sig_version s = row_key (js_or (jprop (Some s) ''node_version_id'') (jprop (Some s) ''NODE_VERSION_ID''))"

definition sig_rejected :: "json \<Rightarrow> bool" where
  "sig_rejected s \<longleftrightarrow> toUpperCase (opt_string (js_or (js_or (jprop (Some s) ''meaning'') (jprop (Some s) ''MEANING'')) (Some (JStr []))))
     = ''REJECTED''"

definition sig_add :: "json \<Rightarrow> (nat \<times> bool) jsobj \<Rightarrow> (nat \<times> bool) jsobj" where
  "sig_add s m = (case sig_version s of None \<Rightarrow> m
   | Some vid \<Rightarrow> let (n, r) = (case obj_get m vid of Some e \<Rightarrow> e | None \<Rightarrow> (0, False))
       in obj_put vid (n + 1, r \<or> sig_rejected s) m)"

definition sig_counts :: "json list \<Rightarrow> (nat \<times> bool) jsobj" where
  "sig_counts sigs = fold sig_add sigs []"

section \<open>Comparison of versions\<close>

definition version_no :: "json \<Rightarrow> int" where
  \<comment> \<open>\<open>v.version_number || v.VERSION_NUMBER\<close>, a number on every row of the history\<close>
  "version_no v = (case js_or (jprop (Some v) ''version_number'') (jprop (Some v) ''VERSION_NUMBER'') of Some (JNum n) \<Rightarrow> n | _ \<Rightarrow> 0)"

definition openDiff :: "json list \<Rightarrow> int \<Rightarrow> (int \<times> int) option" where
  \<comment> \<open>the two versions that are fetched, None when \<open>openDiff\<close> returns at once\<close>
  "openDiff history v2Num =
     (let vs = sort_key version_no history
      in case index_where (\<lambda>v. version_no v = v2Num) vs of
           Some (Suc i) \<Rightarrow> Some (version_no (vs ! i), v2Num)
         | _ \<Rightarrow> None)"

section \<open>Actions\<close>

datatype triggered = AskFirst "json jsobj" | RunNow

definition rows :: "json option \<Rightarrow> json list" where
  \<comment> \<open>\<open>x || []\<close> of a list\<close>
  "rows v = (case v of Some (JArr vs) \<Rightarrow> vs | _ \<Rightarrow> [])"

definition triggerAction :: "json \<Rightarrow> triggered" where
  "triggerAction action =
     (let uiParams = filter (\<lambda>p. truthy (jprop (Some p) ''widget'')) (rows (jprop (Some action) ''parameters''))
      in if uiParams \<noteq> [] then
           AskFirst (fold (\<lambda>p d. case jprop (Some p) ''defaultValue'' of
             Some v \<Rightarrow> if truthy (Some v) then obj_put (opt_string (jprop (Some p) ''name'')) v d else d | None \<Rightarrow> d) uiParams [])
         else if jprop (jprop (Some action) ''metadata'') ''displayCategory'' = Some (JStr ''DANGEROUS'') then AskFirst []
         else RunNow)"

definition updateNodeAction :: "json list \<Rightarrow> json option" where
  "updateNodeAction allActions = find (\<lambda>a. jprop (Some a) ''code'' = Some (JStr ''update_node'') \<and>
     jprop (jprop (Some a) ''metadata'') ''authorized'' \<noteq> Some (JBool False)) allActions"

section \<open>Facts: no change is lost\<close>

lemma last_typed_snoc: "last_typed (es @ [e]) a = (case e of
    Typed b v \<Rightarrow> if b = a then Some v else last_typed es a | _ \<Rightarrow> last_typed es a)"
  by (induction es) (auto split: edit_event.splits option.splits)

lemma save_failed_snoc: "save_failed (es @ [e]) = (case e of
    SaveOk _ _ \<Rightarrow> False | SaveFailed _ _ \<Rightarrow> True | _ \<Rightarrow> save_failed es)"
  by (induction es) (auto split: edit_event.splits)

definition edit_inv :: "string \<Rightarrow> edit_event list \<Rightarrow> editor \<Rightarrow> bool" where
  "edit_inv n es s \<longleftrightarrow> ed_node s = n
     \<and> (\<forall>a. obj_get (edits s) a \<noteq> None \<longrightarrow> obj_get (edits s) a = last_typed es a)
     \<and> (\<forall>a. obj_get (edits s) a = None \<longrightarrow> last_typed es a = stored n a s)
     \<and> (\<forall>r. saveTimer s = Some r \<longrightarrow> saving s = [] \<and> sr_node r = n \<and> sr_attrs r = edits s)
     \<and> (saving s = [] \<or> (\<exists>r. saving s = [r] \<and> sr_node r = n \<and> sr_attrs r = edits s))
     \<and> (saveTimer s = None \<and> saving s = [] \<and> \<not> save_failed es \<longrightarrow> edits s = [])
     \<and> (\<forall>f\<in>set (raw_values (ed_desc s)). \<forall>v. stored n (nf_name f) s = Some v \<longrightarrow> nf_value f = Some (JStr v))"

lemma stored_cong: "ed_acknowledged s = ed_acknowledged t \<Longrightarrow> stored n a s = stored n a t"
  by (simp add: stored_def)

lemma raw_values_patch: "raw_values (patchNodeDescAttrs pend d) = patch_fields pend (raw_values d)"
  by (auto simp: raw_values_def patchNodeDescAttrs_def patch_fields_def split: option.splits)

lemma edit_inv_fresh: "edit_inv n [] (open_editor n tx d)"
  by (simp add: edit_inv_def open_editor_def stored_def)

lemma edit_inv_saved:
  assumes inv: "edit_inv n es s" and i: "i < length (saving s)"
  shows "edit_inv n (es @ [SaveOk i vs]) (autoSave_succeeds i vs s)"
proof -
  obtain r where r: "saving s = [r]" "sr_node r = n" "sr_attrs r = edits s"
    using inv i by (auto simp: edit_inv_def)
  have i0: "i = 0" using i r(1) by simp
  have tm: "saveTimer s = None" using inv r(1) by (auto simp: edit_inv_def)
  let ?s = "autoSave_succeeds i vs s"
  have st: "stored n a ?s = (case obj_get (edits s) a of Some w \<Rightarrow> Some w | None \<Rightarrow> stored n a s)" for a
    using r i0 by (auto simp: autoSave_succeeds_def stored_def split: option.splits)
  have lt: "last_typed es a = stored n a ?s" for a
    using inv unfolding st edit_inv_def by (cases "obj_get (edits s) a") auto
  have old: "\<forall>f\<in>set (raw_values (ed_desc s)). \<forall>v. stored n (nf_name f) s = Some v \<longrightarrow> nf_value f = Some (JStr v)"
    using inv unfolding edit_inv_def by blast
  have "\<forall>f\<in>set (raw_values (ed_desc ?s)). \<forall>v. stored n (nf_name f) ?s = Some v \<longrightarrow> nf_value f = Some (JStr v)"
    unfolding st using r i0 old
    by (auto simp: autoSave_succeeds_def raw_values_patch patch_fields_def split: option.splits)
  then show ?thesis
    using inv lt r i0 tm
    by (simp add: edit_inv_def last_typed_snoc save_failed_snoc autoSave_succeeds_def without_nth_def)
qed

lemma edit_inv_step:
  assumes inv: "edit_inv n es s" and c: "calm e s"
  shows "edit_inv n (es @ [e]) (edit_step e s)"
proof (cases e)
  case (Typed a v)
  have "stored n b (field_changed a v s) = stored n b s" for b
    by (rule stored_cong) (simp add: field_changed_def scheduleAutoSave_def Let_def)
  then show ?thesis using inv c unfolding Typed
    by (auto simp: edit_inv_def last_typed_snoc save_failed_snoc field_changed_def scheduleAutoSave_def Let_def)
next
  case SaveDue
  then obtain r where r: "saveTimer s = Some r" using c by auto
  have "stored n b (autoSave_starts r (s\<lparr>saveTimer := None\<rparr>)) = stored n b s" for b
    by (rule stored_cong) (simp add: autoSave_starts_def)
  then show ?thesis using inv r unfolding SaveDue
    by (auto simp: edit_inv_def last_typed_snoc save_failed_snoc autoSave_starts_def)
next
  case (SaveOk i vs)
  then show ?thesis using edit_inv_saved [OF inv] c by simp
next
  case (SaveFailed i hard)
  have "stored n b (autoSave_fails i hard s) = stored n b s" for b
    by (rule stored_cong) (simp add: autoSave_fails_def Let_def)
  then show ?thesis using inv c unfolding SaveFailed
    by (auto simp: edit_inv_def last_typed_snoc save_failed_snoc autoSave_fails_def without_nth_def Let_def)
next
  case MarkDue
  have "stored n b (edit_step MarkDue s) = stored n b s" for b by (rule stored_cong) simp
  then show ?thesis using inv unfolding MarkDue by (auto simp: edit_inv_def last_typed_snoc save_failed_snoc)
next
  case Loaded
  have "stored n b (edit_step Loaded s) = stored n b s" for b by (rule stored_cong) simp
  then show ?thesis using inv c unfolding Loaded by (auto simp: edit_inv_def last_typed_snoc save_failed_snoc)
next
  case (DescArrived d)
  have "stored n b (edit_step (DescArrived d) s) = stored n b s" for b by (rule stored_cong) simp
  then show ?thesis using inv c unfolding DescArrived
    by (auto simp: edit_inv_def last_typed_snoc save_failed_snoc list_all_iff split: option.splits)
next
  case (NodeSwitched m)
  then show ?thesis using c by simp
qed

interpretation autosave: machine_invariant calm edit_step "open_editor n tx d" "edit_inv n" for n tx d
  by unfold_locales (auto intro: edit_inv_fresh edit_inv_step)


definition sample_desc :: node_desc where
  "sample_desc = \<lparr>nd_values = Some [\<lparr>nf_name = ''mass'', nf_value = Some (JStr ''1'')\<rparr>, \<lparr>nf_name = ''size'', nf_value = None\<rparr>],
     nd_fields = None\<rparr>"

definition sample_edits :: "edit_event list" where
  "sample_edits = [Typed ''mass'' ''2'', Typed ''size'' ''4'', SaveDue, SaveFailed 0 [], Typed ''mass'' ''25'', SaveDue, SaveOk 0 []]"


text \<open>A change typed while a save is under way is in the timer, but the answer of the save drops it from
  the list of changes: one more change before the timer is due replaces the timer, and the first is
  neither shown nor ever sent.\<close>

theorem change_during_save_lost:
  "\<exists>s. run_machine edit_enabled edit_step
       [Typed ''mass'' ''2'', SaveDue, Typed ''size'' ''4'', SaveOk 0 [], Typed ''mass'' ''25'', SaveDue, SaveOk 0 []]
       (open_editor ''n1'' None (Some sample_desc)) = Some s
     \<and> saveTimer s = None \<and> saving s = [] \<and> edits s = [] \<and> stored ''n1'' ''size'' s = None
     \<and> map (currentVal s) (raw_values (ed_desc s)) = [Some (JStr ''25''), Some (JStr [])]"
  by (rule case_Some_ex) code_simp

text \<open>The timer survives a move to another node: the save still goes to the node that was edited, but
  its answer patches the description of the new one and drops what was typed there.\<close>

theorem late_save_patches_next_node:
  "\<exists>s. run_machine edit_enabled edit_step
       [Typed ''mass'' ''2'', NodeSwitched ''n2'', DescArrived sample_desc, SaveDue, SaveOk 0 []]
       (open_editor ''n1'' None (Some sample_desc)) = Some s
     \<and> ed_node s = ''n2'' \<and> stored ''n2'' ''mass'' s = None
     \<and> map (currentVal s) (raw_values (ed_desc s)) = [Some (JStr ''2''), Some (JStr [])]"
  by (rule case_Some_ex) code_simp

section \<open>Facts: counts and comparison\<close>

lemma comment_counts_exact:
  "obj_get (comment_counts cs) v = (let m = filter (\<lambda>c. row_key (jprop (Some c) ''versionId'') = Some v) cs
     in if m = [] then None else Some (length m))"
proof (induction cs rule: rev_induct)
  case (snoc c cs)
  then show ?case by (auto simp: comment_counts_def bump_def Let_def split: option.splits)
qed (simp add: comment_counts_def)

lemma sig_counts_exact:
  "obj_get (sig_counts ss) v = (let m = filter (\<lambda>s. sig_version s = Some v) ss
     in if m = [] then None else Some (length m, list_ex sig_rejected m))"
proof (induction ss rule: rev_induct)
  case (snoc s ss)
  have "sig_counts (ss @ [s]) = sig_add s (sig_counts ss)" by (simp add: sig_counts_def)
  then show ?case using snoc
    by (auto simp: sig_add_def Let_def list_ex_iff filter_empty_conv split: option.splits prod.splits if_splits)
qed (simp add: sig_counts_def)

text \<open>A comparison takes the nearest earlier version of the history.\<close>

lemma openDiff_previous:
  assumes "openDiff history v2 = Some (v1, w)"
  shows "w = v2 \<and> v1 \<in> version_no ` set history \<and> v1 < v2 \<and> (\<forall>v\<in>version_no ` set history. v < v2 \<longrightarrow> v \<le> v1)"
proof -
  let ?vs = "sort_key version_no history"
  obtain i where i: "index_where (\<lambda>v. version_no v = v2) ?vs = Some (Suc i)" "v1 = version_no (?vs ! i)" "w = v2"
    using assms by (auto simp: openDiff_def Let_def split: option.splits nat.splits)
  have b: "Suc i < length ?vs" "version_no (?vs ! Suc i) = v2" "\<forall>j<Suc i. version_no (?vs ! j) \<noteq> v2"
    using index_where_Some [OF i(1)] by auto
  have mono: "version_no (?vs ! j) \<le> version_no (?vs ! k)" if "j \<le> k" "k < length ?vs" for j k
    using sorted_sort_key [of version_no history] that by (auto simp: sorted_iff_nth_mono)
  have lt: "v1 < v2" using mono [of i "Suc i"] b i(2) by fastforce
  have "v \<le> v1" if v: "v \<in> version_no ` set history" "v < v2" for v
  proof -
    obtain x where "x \<in> set ?vs" "v = version_no x" using v(1) by auto
    then obtain j where j: "j < length ?vs" "v = version_no (?vs ! j)" by (metis in_set_conv_nth)
    have "j \<le> i" using mono [of "Suc i" j] j b(2) v(2) by (cases "j \<le> i") auto
    then show ?thesis using mono [of j i] j b(1) i(2) by simp
  qed
  moreover have "v1 \<in> version_no ` set history"
  proof -
    have "?vs ! i \<in> set ?vs" using b(1) by (intro nth_mem) simp
    then show ?thesis using i(2) by simp
  qed
  ultimately show ?thesis using lt i(3) by blast
qed

lemma openDiff_none:
  "openDiff history v2 = None \<longleftrightarrow> v2 \<notin> version_no ` set history \<or> (\<forall>v\<in>version_no ` set history. v2 \<le> v)"
proof -
  let ?vs = "sort_key version_no history"
  have mono: "version_no (?vs ! j) \<le> version_no (?vs ! k)" if "j \<le> k" "k < length ?vs" for j k
    using sorted_sort_key [of version_no history] that by (auto simp: sorted_iff_nth_mono)
  show ?thesis
  proof (cases "index_where (\<lambda>v. version_no v = v2) ?vs")
    case None
    then have "v2 \<notin> version_no ` set history" by (auto simp: index_where_None)
    then show ?thesis using None by (simp add: openDiff_def Let_def)
  next
    case (Some k)
    note b = index_where_Some [OF Some]
    have mem: "v2 \<in> version_no ` set history" using b by (metis image_eqI nth_mem set_sort)
    show ?thesis
    proof (cases k)
      case 0
      have "v2 \<le> version_no x" if "x \<in> set history" for x
      proof -
        have "x \<in> set ?vs" using that by simp
        from this [unfolded in_set_conv_nth] obtain j where "j < length ?vs" "x = ?vs ! j" by blast
        then show ?thesis using mono [of 0 j] b 0 by auto
      qed
      then show ?thesis using Some 0 by (auto simp: openDiff_def Let_def)
    next
      case (Suc i)
      then have s: "openDiff history v2 = Some (version_no (?vs ! i), v2)" using Some by (simp add: openDiff_def Let_def)
      have "\<not> v2 \<le> version_no (?vs ! i)" "version_no (?vs ! i) \<in> version_no ` set history"
        using openDiff_previous [OF s] by auto
      then show ?thesis using s mem by (metis option.distinct(1))
    qed
  qed
qed

end
