(* ===== verification/Forms.thy ===== *)
theory Forms
  imports ApiCalls ApiEndpoints
begin

text \<open>
  The forms of the shell (\<open>frontend/src/components\<close>): the choice of objects of a commit
  (\<open>CommitModal.jsx\<close>), the form that creates an object (\<open>CreateResourceModal.jsx\<close>), the checks and
  the merged fields of the detail pane (\<open>GenericDetailEditor.jsx\<close>), and the API playground
  (\<open>ApiPlayground.jsx\<close>). Patterns come from the server: \<open>test\<close> runs one on a text, None when it is
  no valid pattern. The calls go through the client of ApiClient and ApiCalls.
\<close>

section \<open>Commit\<close>

definition tx_item_id :: "json \<Rightarrow> json" where
  \<comment> \<open>\<open>n.itemId || n.node_id || n.NODE_ID\<close>\<close>
  "tx_item_id n = coalesce_to (js_or (js_or (jprop (Some n) ''itemId'') (jprop (Some n) ''node_id'')) (jprop (Some n) ''NODE_ID'')) JNull"

record commit_form =
  cf_comment :: string
  selectedIds :: "json list"
  cf_loading :: bool

definition open_commit :: "json list \<Rightarrow> commit_form" where
  "open_commit txNodes = \<lparr>cf_comment = [], selectedIds = js_set_of (map tx_item_id txNodes), cf_loading = False\<rparr>"

definition toggleNode :: "json \<Rightarrow> commit_form \<Rightarrow> commit_form" where
  "toggleNode nid f = f\<lparr>selectedIds := (if nid \<in> set (selectedIds f) then js_delete nid (selectedIds f) else js_add nid (selectedIds f))\<rparr>"

definition toggleAll :: "json list \<Rightarrow> commit_form \<Rightarrow> commit_form" where
  "toggleAll allIds f = f\<lparr>selectedIds := (if length (selectedIds f) = length allIds then [] else js_set_of allIds)\<rparr>"

definition commit_ids :: "json list \<Rightarrow> json list \<Rightarrow> json list option" where
  \<comment> \<open>\<open>nodeIds\<close>: None commits every object of the transaction\<close>
  "commit_ids allIds sel = (if length sel = length allIds then None else Some sel)"

datatype commit_result =
    CommitWarning string
  | Committed "json option" int      \<comment> \<open>the transaction that goes on and the number of objects left in it\<close>
  | CommitError thrown

definition commit_submit ::
  "network \<Rightarrow> string \<Rightarrow> string \<Rightarrow> json list \<Rightarrow> commit_form \<Rightarrow> client \<Rightarrow> commit_result \<times> client" where
  "commit_submit net serviceCode txId allIds f c =
     (if trim (cf_comment f) = [] then (CommitWarning ''Commit comment is required'', c)
      else if selectedIds f = [] then (CommitWarning ''Select at least one object to commit'', c)
      else case tx_commit net serviceCode txId (Some (JStr (cf_comment f))) (commit_ids allIds (selectedIds f)) c of
        (Inl e, c) \<Rightarrow> (CommitError e, c)
      | (Inr res, c) \<Rightarrow>
          let cont = js_or (jprop (Some res) ''continuationTxId'') (Some JNull)
          in (Committed (if cont = Some JNull then None else cont) (int (length allIds) - int (length (selectedIds f))), c))"

datatype commit_event = CommentTyped string | NodeToggled json | AllToggled

fun commit_step :: "json list \<Rightarrow> commit_event \<Rightarrow> commit_form \<Rightarrow> commit_form" where
  "commit_step allIds (CommentTyped s) f = f\<lparr>cf_comment := s\<rparr>"
| "commit_step allIds (NodeToggled nid) f = toggleNode nid f"
| "commit_step allIds AllToggled f = toggleAll allIds f"

fun commit_enabled :: "json list \<Rightarrow> commit_event \<Rightarrow> commit_form \<Rightarrow> bool" where
  \<comment> \<open>the boxes are those of the objects listed\<close>
  "commit_enabled allIds (NodeToggled nid) f \<longleftrightarrow> nid \<in> set allIds"
| "commit_enabled allIds _ f \<longleftrightarrow> True"

section \<open>Creating an object\<close>

record form_param =
  pm_name :: string
  pm_displayOrder :: int
  pm_section :: "string option"
  pm_required :: bool
  pm_regex :: "string option"

record create_desc =
  cd_sourceLabel :: "string option"
  cd_serviceCode :: string
  cd_itemCode :: string
  cd_action :: item_action
  cd_params :: "form_param list"

definition form_source :: "create_desc \<Rightarrow> string" where
  "form_source d = str_or (cd_sourceLabel d) ''OTHER''"

definition form_sources :: "create_desc list \<Rightarrow> string list" where
  "form_sources resources = js_set_of (map form_source resources)"

definition form_types :: "create_desc list \<Rightarrow> string \<Rightarrow> create_desc list" where
  "form_types resources source = filter (\<lambda>d. form_source d = source) resources"

record create_form =
  cr_source :: string
  cr_descriptor :: "create_desc option"
  cr_values :: "json jsobj"
  cr_errors :: "string option jsobj"

definition head_opt :: "'a list \<Rightarrow> 'a option" where
  "head_opt xs = (case xs of [] \<Rightarrow> None | x # _ \<Rightarrow> Some x)"

definition open_create :: "create_desc list \<Rightarrow> create_desc option \<Rightarrow> create_form" where
  "open_create resources initial =
     (let source = str_or (case initial of Some d \<Rightarrow> cd_sourceLabel d | None \<Rightarrow> None)
            (case head_opt (form_sources resources) of Some s \<Rightarrow> s | None \<Rightarrow> [])
      in \<lparr>cr_source = source,
          cr_descriptor = (case initial of
             Some i \<Rightarrow> find (\<lambda>d. cd_serviceCode d = cd_serviceCode i \<and> cd_itemCode d = cd_itemCode i) resources
           | None \<Rightarrow> head_opt (form_types resources source)),
          cr_values = [], cr_errors = []\<rparr>)"

definition set_descriptor :: "create_desc option \<Rightarrow> create_form \<Rightarrow> create_form" where
  \<comment> \<open>\<open>setDescriptor\<close> and the effect that resets the values when the descriptor is another one\<close>
  "set_descriptor d f = (if cr_descriptor f = d then f else f\<lparr>cr_descriptor := d, cr_values := [], cr_errors := []\<rparr>)"

definition pick_source :: "create_desc list \<Rightarrow> string \<Rightarrow> create_form \<Rightarrow> create_form" where
  \<comment> \<open>the select is disabled when the form was opened for a descriptor\<close>
  "pick_source resources source f =
     (if source = cr_source f then f
      else set_descriptor (head_opt (form_types resources source)) (f\<lparr>cr_source := source\<rparr>))"

definition type_key :: "create_desc \<Rightarrow> string" where
  "type_key d = cd_serviceCode d @ ''/'' @ cd_itemCode d"

definition pick_type :: "create_desc list \<Rightarrow> string \<Rightarrow> create_form \<Rightarrow> create_form" where
  "pick_type resources key f = (case find (\<lambda>d. type_key d = key) (form_types resources (cr_source f)) of
     Some d \<Rightarrow> set_descriptor (Some d) f | None \<Rightarrow> f)"

definition form_params :: "create_desc \<Rightarrow> form_param list" where
  "form_params d = sort_key pm_displayOrder (cd_params d)"

definition section_of :: "form_param \<Rightarrow> string" where
  "section_of p = str_or (pm_section p) ''Fields''"

definition add_to_groups :: "(string \<times> form_param list) list \<Rightarrow> form_param \<Rightarrow> (string \<times> form_param list) list" where
  \<comment> \<open>the loop over the parameters; the running section is that of the last group\<close>
  "add_to_groups gs p = (if gs = [] \<or> section_of p \<noteq> fst (last gs) then gs @ [(section_of p, [p])]
     else butlast gs @ [(fst (last gs), snd (last gs) @ [p])])"

definition form_groups :: "form_param list \<Rightarrow> (string \<times> form_param list) list" where
  "form_groups ps = foldl add_to_groups [] ps"

definition setField :: "string \<Rightarrow> json \<Rightarrow> create_form \<Rightarrow> create_form" where
  "setField name v f = f\<lparr>cr_values := obj_put name v (cr_values f), cr_errors := obj_put name None (cr_errors f)\<rparr>"

definition missing :: "(json \<Rightarrow> bool) \<Rightarrow> json option \<Rightarrow> bool" where
  \<comment> \<open>\<open>v == null || v === '' || (v instanceof File && v.size === 0)\<close>\<close>
  "missing emptyFile v \<longleftrightarrow> nullish v \<or> v = Some (JStr []) \<or> (case v of Some w \<Rightarrow> emptyFile w | None \<Rightarrow> False)"

definition mismatch :: "(string \<Rightarrow> string \<Rightarrow> bool option) \<Rightarrow> string option \<Rightarrow> json option \<Rightarrow> bool" where
  \<comment> \<open>the test of a pattern in \<open>validate\<close>, anchored and on the trimmed text\<close>
  "mismatch test pattern v = (case (pattern, v) of
     (Some r, Some (JStr s)) \<Rightarrow> r \<noteq> [] \<and> trim s \<noteq> [] \<and> test (''^(?:'' @ r @ '')$'') (trim s) = Some False
   | _ \<Rightarrow> False)"

definition check_param ::
  "(json \<Rightarrow> bool) \<Rightarrow> (string \<Rightarrow> string \<Rightarrow> bool option) \<Rightarrow> json jsobj \<Rightarrow> form_param \<Rightarrow> string option jsobj \<Rightarrow> string option jsobj" where
  "check_param emptyFile test vals p e =
     (let v = obj_get vals (pm_name p);
          e1 = (if pm_required p \<and> missing emptyFile v then obj_put (pm_name p) (Some ''Required'') e else e)
      in if mismatch test (pm_regex p) v
         then obj_put (pm_name p) (Some (''Does not match pattern: '' @ or_nil (pm_regex p))) e1 else e1)"

definition validate :: "(json \<Rightarrow> bool) \<Rightarrow> (string \<Rightarrow> string \<Rightarrow> bool option) \<Rightarrow> form_param list \<Rightarrow> json jsobj \<Rightarrow> string option jsobj" where
  "validate emptyFile test params vals = fold (check_param emptyFile test vals) params []"

datatype create_result = Incomplete | Created "thrown + json"

definition create_submit ::
  "network \<Rightarrow> (json \<Rightarrow> bool) \<Rightarrow> (string \<Rightarrow> string \<Rightarrow> bool option) \<Rightarrow> create_desc \<Rightarrow> create_form \<Rightarrow> client \<Rightarrow>
   create_result \<times> create_form \<times> client" where
  "create_submit net emptyFile test d f c =
     (let e = validate emptyFile test (form_params d) (cr_values f); f' = f\<lparr>cr_errors := e\<rparr>
      in if e \<noteq> [] then (Incomplete, f', c)
         else case submitItemCreate net (cd_serviceCode d) (cd_action d) (cr_values f) c of
           (res, c) \<Rightarrow> (Created res, f', c))"

section \<open>Detail pane\<close>

definition toList :: "(string \<Rightarrow> json option) \<Rightarrow> json option \<Rightarrow> string list option" where
  \<comment> \<open>\<open>parse\<close> is \<open>JSON.parse\<close>, None when it throws; a text that starts with a bracket parses to an array\<close>
  "toList parse allowed = (case allowed of
     Some (JArr vs) \<Rightarrow> Some (map js_string vs)
   | Some (JStr a) \<Rightarrow>
       (let s = trim a in
        if s = [] then None
        else case (if hd s = CHR ''['' then parse s else None) of
          Some (JArr vs) \<Rightarrow> Some (map js_string vs)
        | _ \<Rightarrow> Some (filter (\<lambda>x. x \<noteq> []) (map trim (split_on CHR '','' s))))
   | _ \<Rightarrow> None)"

definition validateValue ::
  "(string \<Rightarrow> string \<Rightarrow> bool option) \<Rightarrow> (string \<Rightarrow> json option) \<Rightarrow> json option \<Rightarrow> string option \<Rightarrow> json option \<Rightarrow> bool option" where
  "validateValue test parse v pattern allowedValues =
     (if nullish v \<or> v = Some (JStr []) then None
      else let str = opt_string v; re = str_or pattern []; list = toList parse allowedValues
        in if re \<noteq> [] \<and> test (''^(?:'' @ re @ '')$'') str = Some False then Some False
           else if list \<noteq> None \<and> list \<noteq> Some [] \<and> str \<notin> set (the list) then Some False
           else if re \<noteq> [] \<or> (list \<noteq> None \<and> list \<noteq> Some []) then Some True else None)"

record merged_field =
  mf_name :: string
  mf_value :: "json option"
  mf_editable :: "json option"
  mf_required :: "json option"
  mf_label :: "json option"
  mf_widget :: "json option"
  mf_hint :: "json option"
  mf_regex :: "json option"
  mf_allowedValues :: "json option"
  mf_validity :: "bool option"

definition fieldMetaByName :: "json list \<Rightarrow> json jsobj" where
  "fieldMetaByName metas = fold (\<lambda>fm m. obj_put (opt_string (jprop (Some fm) ''name'')) fm m) metas []"

definition pattern_text :: "json option \<Rightarrow> string option" where
  \<comment> \<open>a pattern is a text or absent\<close>
  "pattern_text v = (case v of Some (JStr s) \<Rightarrow> Some s | _ \<Rightarrow> None)"

definition merged_field_of ::
  "(string \<Rightarrow> string \<Rightarrow> bool option) \<Rightarrow> (string \<Rightarrow> json option) \<Rightarrow> json jsobj \<Rightarrow> json \<Rightarrow> merged_field" where
  "merged_field_of test parse metas fv =
     (let name = opt_string (jprop (Some fv) ''name''); fm = obj_get metas name; extras = jprop (Some fv) ''extras''
      in \<lparr>mf_name = name, mf_value = jprop (Some fv) ''value'',
          mf_editable = js_coalesce (jprop extras ''editable'') (Some (JBool True)),
          mf_required = js_coalesce (jprop extras ''required'') (Some (JBool False)),
          mf_label = js_coalesce (jprop fm ''label'') (jprop (Some fv) ''name''),
          mf_widget = js_coalesce (jprop fm ''widget'') (Some (JStr ''text'')),
          mf_hint = js_coalesce (jprop fm ''hint'') (Some JNull),
          mf_regex = js_coalesce (jprop fm ''regex'') (Some JNull),
          mf_allowedValues = js_coalesce (jprop fm ''allowedValues'') (Some JNull),
          mf_validity = validateValue test parse (jprop (Some fv) ''value'') (pattern_text (jprop fm ''regex'')) (jprop fm ''allowedValues'')\<rparr>)"

definition mergedFields ::
  "(string \<Rightarrow> string \<Rightarrow> bool option) \<Rightarrow> (string \<Rightarrow> json option) \<Rightarrow> json list \<Rightarrow> json list \<Rightarrow> merged_field list" where
  "mergedFields test parse metas vals = map (merged_field_of test parse (fieldMetaByName metas)) vals"

definition display_field :: "merged_field list \<Rightarrow> json option \<Rightarrow> string option" where
  \<comment> \<open>the text of the title or subtitle field, None when there is none\<close>
  "display_field ms fieldName =
     (if \<not> truthy fieldName then None
      else case find (\<lambda>f. Some (JStr (mf_name f)) = fieldName) ms of
        Some f \<Rightarrow> if truthy (mf_value f) then Some (opt_string (mf_value f)) else None
      | None \<Rightarrow> None)"

definition detail_path :: "string option \<Rightarrow> string \<Rightarrow> string \<Rightarrow> string" where
  \<comment> \<open>the path of a load or an action\<close>
  "detail_path serviceCode template nodeId =
     (case serviceCode of Some s \<Rightarrow> if s = [] then [] else ''/api/'' @ s | None \<Rightarrow> [])
       @ replace_first ''{id}'' (encodeURIComponent nodeId) template"

section \<open>API playground\<close>

function schemaToExample :: "nat \<Rightarrow> json option \<Rightarrow> json" where
  "schemaToExample d schema =
     (if \<not> truthy schema \<or> d > 4 then JNull
      else case jprop schema ''example'' of Some e \<Rightarrow> e | None \<Rightarrow>
        if jprop schema ''type'' = Some (JStr ''object'') \<or> truthy (jprop schema ''properties'') then
          JObj (fold (\<lambda>(k, v). obj_put k v)
            (map (\<lambda>(k, v). (k, schemaToExample (d + 1) (Some v)))
               (entries (the (js_or (jprop schema ''properties'') (Some (JObj []))))) ) [])
        else if jprop schema ''type'' = Some (JStr ''array'') then JArr [schemaToExample (d + 1) (jprop schema ''items'')]
        else if jprop schema ''type'' = Some (JStr ''string'') then the (js_coalesce (jprop (jprop schema ''enum'') ''0'') (Some (JStr [])))
        else if jprop schema ''type'' = Some (JStr ''boolean'') then JBool False
        else if jprop schema ''type'' \<in> {Some (JStr ''integer''), Some (JStr ''number'')} then JNum 0
        else JNull)"
  by pat_completeness auto
termination
  by (relation "measure (\<lambda>(d, _). 5 - d)") auto

declare schemaToExample.simps [simp del]

definition prefilled_body :: "(json \<Rightarrow> string) \<Rightarrow> bool \<Rightarrow> bool \<Rightarrow> json \<Rightarrow> string \<Rightarrow> string" where
  \<comment> \<open>the effect on \<open>open\<close>, \<open>hasBody\<close>, \<open>operation\<close> and \<open>body\<close>; \<open>stringify\<close> is \<open>JSON.stringify\<close>\<close>
  "prefilled_body stringify opened hasBody operation body =
     (let content = jprop (jprop (jprop (Some operation) ''requestBody'') ''content'') ''application/json'';
          given = js_coalesce (jprop content ''example'') (jprop (jprop content ''schema'') ''example'');
          example = (if given = None \<and> truthy (jprop content ''schema'')
            then Some (schemaToExample 0 (jprop content ''schema'')) else given)
      in if \<not> opened \<or> \<not> hasBody \<or> body \<noteq> [] \<or> \<not> truthy content then body
         else case example of Some e \<Rightarrow> if e = JNull then body else stringify e | None \<Rightarrow> body)"

record pg_param =
  pp_name :: string
  pp_in :: string

record endpoint =
  ep_method :: string
  ep_path :: string
  ep_params :: "pg_param list"

record pg_row =
  row_params :: "string jsobj"
  row_body :: string
  plmUser :: string
  plmSpace :: string

record pg_request =
  pq_method :: string
  pq_url :: string
  pq_headers :: "string jsobj"
  pq_body :: "string option"

definition normalizeBasePath :: "string option \<Rightarrow> string" where
  "normalizeBasePath p = (case p of None \<Rightarrow> [] | Some s \<Rightarrow> if s \<noteq> [] \<and> last s = CHR ''/'' then butlast s else s)"

definition params_in :: "string \<Rightarrow> endpoint \<Rightarrow> pg_param list" where
  "params_in kind ep = filter (\<lambda>p. pp_in p = kind) (ep_params ep)"

definition filled_path :: "string \<Rightarrow> endpoint \<Rightarrow> string jsobj \<Rightarrow> string" where
  "filled_path basePath ep vals =
     fold (\<lambda>p url. replace_first (''{'' @ pp_name p @ ''}'') (encodeURIComponent (or_nil (obj_get vals (pp_name p)))) url)
       (params_in ''path'' ep) (basePath @ ep_path ep)"

definition query_text :: "endpoint \<Rightarrow> string jsobj \<Rightarrow> string" where
  "query_text ep vals = join ''&'' (List.map_filter (\<lambda>p. case obj_get vals (pp_name p) of
     Some v \<Rightarrow> if v = [] then None else Some (form_encode (pp_name p) @ ''='' @ form_encode v) | None \<Rightarrow> None) (params_in ''query'' ep))"

definition playground_request :: "string option \<Rightarrow> string \<Rightarrow> endpoint \<Rightarrow> pg_row \<Rightarrow> pg_request" where
  \<comment> \<open>\<open>execute\<close> up to the fetch; \<open>token\<close> is the session token\<close>
  "playground_request token basePath ep r =
     (let url = filled_path basePath ep (row_params r); qs = query_text ep (row_params r);
          auth = (case token of Some t \<Rightarrow> if t = [] then [] else [(''Authorization'', ''Bearer '' @ t)] | None \<Rightarrow> []);
          hdrs = (''Content-Type'', ''application/json'') # auth;
          hdrs = (if plmSpace r = [] then hdrs else obj_put ''X-PLM-ProjectSpace'' (plmSpace r) hdrs);
          hdrs = fold (\<lambda>p h. case obj_get (row_params r) (pp_name p) of
            Some v \<Rightarrow> if v = [] then h else obj_put (pp_name p) v h | None \<Rightarrow> h) (params_in ''header'' ep) hdrs
      in \<lparr>pq_method = toUpperCase (ep_method ep), pq_url = (if qs = [] then url else url @ ''?'' @ qs), pq_headers = hdrs,
          pq_body = (if ep_method ep \<in> {''post'', ''put'', ''patch''} \<and> trim (row_body r) \<noteq> [] then Some (row_body r) else None)\<rparr>)"

record tagged_op =
  to_method :: string
  to_path :: string
  to_operation :: json

definition method_place :: "string \<Rightarrow> int" where
  \<comment> \<open>\<open>ORDER.indexOf(method)\<close>\<close>
  "method_place m = (case index_where (\<lambda>x. x = m) [''get'', ''post'', ''put'', ''patch'', ''delete''] of Some i \<Rightarrow> int i | None \<Rightarrow> -1)"

definition spec_ops :: "json \<Rightarrow> tagged_op list" where
  \<comment> \<open>the operations of a specification, in the order of the document\<close>
  "spec_ops spec = concat (map (\<lambda>(path, methods). List.map_filter (\<lambda>(m, op).
       if m \<in> {''get'', ''post'', ''put'', ''delete'', ''patch''} then Some \<lparr>to_method = m, to_path = path, to_operation = op\<rparr> else None)
     (entries methods)) (case jprop (Some spec) ''paths'' of Some ps \<Rightarrow> if truthy (Some ps) then entries ps else [] | None \<Rightarrow> []))"

definition tag_of :: "tagged_op \<Rightarrow> string" where
  "tag_of x = opt_string (js_coalesce (jprop (jprop (Some (to_operation x)) ''tags'') ''0'') (Some (JStr ''default'')))"

definition taggedOps :: "(string \<Rightarrow> nat) \<Rightarrow> json \<Rightarrow> (string \<times> tagged_op list) list" where
  \<comment> \<open>\<open>collate\<close> gives the place of a text in the order of \<open>localeCompare\<close>\<close>
  "taggedOps collate spec =
     map (\<lambda>(tag, ops). (tag, sort_key (\<lambda>x. method_place (to_method x)) ops))
       (sort_key (\<lambda>(tag, ops). collate tag) (obj_entries (fold (\<lambda>x. obj_push (tag_of x) x) (spec_ops spec) [])))"

definition op_matches :: "string \<Rightarrow> string \<Rightarrow> tagged_op \<Rightarrow> bool" where
  "op_matches q tag x \<longleftrightarrow> str_includes (to_method x) q \<or> str_includes (toLowerCase (to_path x)) q
     \<or> str_includes (toLowerCase (opt_string (js_or (jprop (Some (to_operation x)) ''summary'') (Some (JStr []))))) q
     \<or> str_includes (toLowerCase tag) q"

definition filteredOps :: "string \<Rightarrow> (string \<times> tagged_op list) list \<Rightarrow> (string \<times> tagged_op list) list" where
  "filteredOps flt tagged =
     (let q = toLowerCase (trim flt)
      in if q = [] then tagged
         else filter (\<lambda>(tag, ops). ops \<noteq> []) (map (\<lambda>(tag, ops). (tag, filter (op_matches q tag) ops)) tagged))"

definition usable_services :: "(string \<Rightarrow> nat) \<Rightarrow> json list \<Rightarrow> json list" where
  "usable_services collate services =
     sort_key (\<lambda>s. collate (opt_string (jprop (Some s) ''serviceCode'')))
       (filter (\<lambda>s. truthy (jprop (Some s) ''registered'') \<and> truthy (jprop (Some s) ''path'')
          \<and> jprop (Some s) ''serviceCode'' \<notin> {Some (JStr ''spe''), Some (JStr ''ws'')}) services)"

definition kept_selection :: "json list \<Rightarrow> json option \<Rightarrow> json option" where
  \<comment> \<open>the service selected after the list is loaded\<close>
  "kept_selection usable prev = (case usable of [] \<Rightarrow> None
     | s # _ \<Rightarrow> if list_ex (\<lambda>s. jprop (Some s) ''serviceCode'' = prev) usable then prev else jprop (Some s) ''serviceCode'')"

section \<open>Facts: commit\<close>

definition commit_inv :: "json list \<Rightarrow> commit_event list \<Rightarrow> commit_form \<Rightarrow> bool" where
  "commit_inv allIds es f \<longleftrightarrow> distinct (selectedIds f) \<and> set (selectedIds f) \<subseteq> set allIds"

interpretation commit: machine_invariant "commit_enabled (map tx_item_id nodes)" "commit_step (map tx_item_id nodes)"
  "open_commit nodes" "commit_inv (map tx_item_id nodes)" for nodes
proof
  show "commit_inv (map tx_item_id nodes) [] (open_commit nodes)" by (simp add: commit_inv_def open_commit_def)
next
  fix es f e
  assume "commit_inv (map tx_item_id nodes) es f" "commit_enabled (map tx_item_id nodes) e f"
  then show "commit_inv (map tx_item_id nodes) (es @ [e]) (commit_step (map tx_item_id nodes) e f)"
    by (cases e) (auto simp: commit_inv_def toggleNode_def toggleAll_def distinct_js_delete)
qed

text \<open>A commit asks for exactly the objects that are ticked: when the objects of the transaction are
  distinct, whatever was ticked and unticked, the ids sent, or the whole transaction when none are
  sent, are the ticked ones, and the count reported as left in the transaction is that of the others.\<close>

theorem commit_asks_for_ticked:
  assumes "distinct (map tx_item_id nodes)"
    and "run_machine (commit_enabled (map tx_item_id nodes)) (commit_step (map tx_item_id nodes)) es (open_commit nodes) = Some f"
  shows "set (case commit_ids (map tx_item_id nodes) (selectedIds f) of None \<Rightarrow> map tx_item_id nodes | Some xs \<Rightarrow> xs) = set (selectedIds f)
    \<and> int (length nodes) - int (length (selectedIds f)) = int (card (tx_item_id ` set nodes - set (selectedIds f)))"
proof
  let ?all = "map tx_item_id nodes"
  have i: "distinct (selectedIds f)" "set (selectedIds f) \<subseteq> set ?all"
    using commit.holds [OF assms(2)] by (simp_all add: commit_inv_def)
  then have c: "card (set ?all - set (selectedIds f)) = length ?all - length (selectedIds f)" "length (selectedIds f) \<le> length ?all"
    using assms(1) card_Diff_subset [of "set (selectedIds f)" "set ?all"] card_mono [of "set ?all" "set (selectedIds f)"]
    by (simp_all only: distinct_card finite_set)
  show "set (case commit_ids ?all (selectedIds f) of None \<Rightarrow> ?all | Some xs \<Rightarrow> xs) = set (selectedIds f)"
  proof (cases "length (selectedIds f) = length ?all")
    case True
    then have "set (selectedIds f) = set ?all"
      using i assms(1) by (intro card_subset_eq) (simp_all only: distinct_card finite_set)
    then show ?thesis using True by (simp add: commit_ids_def)
  qed (simp add: commit_ids_def)
  show "int (length nodes) - int (length (selectedIds f)) = int (card (tx_item_id ` set nodes - set (selectedIds f)))"
    using c by simp
qed

definition sample_tx_node :: "string \<Rightarrow> json" where
  "sample_tx_node i = JObj [(''itemId'', JStr i)]"

theorem commit_asks_for_ticked_witness:
  "commit_ids (map tx_item_id [sample_tx_node ''a'', sample_tx_node ''b'']) (selectedIds (toggleNode (JStr ''a'')
     (open_commit [sample_tx_node ''a'', sample_tx_node ''b'']))) = Some [JStr ''b'']
   \<and> (\<exists>f. run_machine (commit_enabled (map tx_item_id [sample_tx_node ''a'', sample_tx_node ''b'']))
       (commit_step (map tx_item_id [sample_tx_node ''a'', sample_tx_node ''b''])) [NodeToggled (JStr ''a''), AllToggled]
       (open_commit [sample_tx_node ''a'', sample_tx_node ''b'']) = Some f \<and> set (selectedIds f) = {JStr ''a'', JStr ''b''})"
proof
  let ?ns = "[sample_tx_node ''a'', sample_tx_node ''b'']"
  let ?run = "run_machine (commit_enabled (map tx_item_id ?ns)) (commit_step (map tx_item_id ?ns)) [NodeToggled (JStr ''a''), AllToggled] (open_commit ?ns)"
  show "commit_ids (map tx_item_id ?ns) (selectedIds (toggleNode (JStr ''a'') (open_commit ?ns))) = Some [JStr ''b'']" by code_simp
  have "case ?run of Some f \<Rightarrow> commit_ids (map tx_item_id ?ns) (selectedIds f) = None | None \<Rightarrow> False" by code_simp
  from case_Some_ex [OF this] obtain f where f: "?run = Some f" "commit_ids (map tx_item_id ?ns) (selectedIds f) = None" by blast
  have d: "distinct (map tx_item_id ?ns)" by code_simp
  have m: "set (map tx_item_id ?ns) = {JStr ''a'', JStr ''b''}" by code_simp
  have "set (selectedIds f) = set (map tx_item_id ?ns)"
    using commit_asks_for_ticked [OF d f(1)] unfolding f(2) by (simp only: option.case)
  then show "\<exists>f. ?run = Some f \<and> set (selectedIds f) = {JStr ''a'', JStr ''b''}"
    unfolding m using f(1) by blast
qed

text \<open>The list of the transaction is live, the selection is not: when the ticked object leaves the
  transaction while the form is open, the number of ticked ids can be that of the list again, and the
  commit takes an object that was unticked.\<close>

theorem commit_takes_unticked:
  "let opened = [sample_tx_node ''a'', sample_tx_node ''b'']; f = toggleNode (JStr ''a'') (open_commit opened)
   in selectedIds f = [JStr ''b''] \<and> commit_ids (map tx_item_id [sample_tx_node ''a'']) (selectedIds f) = None"
  by code_simp

section \<open>Facts: creating an object\<close>

definition invalid_param :: "(json \<Rightarrow> bool) \<Rightarrow> (string \<Rightarrow> string \<Rightarrow> bool option) \<Rightarrow> json jsobj \<Rightarrow> form_param \<Rightarrow> bool" where
  "invalid_param emptyFile test vals p \<longleftrightarrow> pm_required p \<and> missing emptyFile (obj_get vals (pm_name p))
     \<or> mismatch test (pm_regex p) (obj_get vals (pm_name p))"

lemma obj_put_not_Nil [simp]: "obj_put k v ob \<noteq> []"
  using obj_get_put [of k v ob k] by (metis obj_get_Nil option.distinct(1))

lemma check_param_get:
  "obj_get (check_param emptyFile test vals p e) n \<noteq> None \<longleftrightarrow>
     obj_get e n \<noteq> None \<or> (pm_name p = n \<and> invalid_param emptyFile test vals p)"
  by (auto simp: check_param_def invalid_param_def Let_def)

lemma validate_get:
  "obj_get (validate emptyFile test ps vals) n \<noteq> None \<longleftrightarrow> (\<exists>p\<in>set ps. pm_name p = n \<and> invalid_param emptyFile test vals p)"
proof -
  have "obj_get (fold (check_param emptyFile test vals) ps e) n \<noteq> None \<longleftrightarrow>
      obj_get e n \<noteq> None \<or> (\<exists>p\<in>set ps. pm_name p = n \<and> invalid_param emptyFile test vals p)" for e
  proof (induction ps arbitrary: e)
    case (Cons p ps)
    show ?case unfolding fold_simps(2) Cons.IH check_param_get by auto
  qed simp
  then show ?thesis by (simp add: validate_def)
qed

lemma validate_Nil:
  "validate emptyFile test ps vals = [] \<longleftrightarrow> (\<forall>p\<in>set ps. \<not> invalid_param emptyFile test vals p)"
proof
  assume "validate emptyFile test ps vals = []"
  then show "\<forall>p\<in>set ps. \<not> invalid_param emptyFile test vals p"
    using validate_get [of emptyFile test ps vals] by auto
next
  assume n: "\<forall>p\<in>set ps. \<not> invalid_param emptyFile test vals p"
  have "fold (check_param emptyFile test vals) ps e = e" for e
    using n by (induction ps arbitrary: e) (auto simp: check_param_def invalid_param_def Let_def)
  then show "validate emptyFile test ps vals = []" by (simp add: validate_def)
qed

text \<open>C35. The form creates an object exactly when every required value is given and every text fits
  its pattern: otherwise nothing is sent and the fields marked are the ones at fault; if so one
  creation with the values of the form is sent, and no field is marked.\<close>

theorem create_sends_valid:
  "create_submit net emptyFile test d f c =
     (let bad = (\<lambda>n. \<exists>p\<in>set (cd_params d). pm_name p = n \<and>
            (pm_required p \<and> missing emptyFile (obj_get (cr_values f) n) \<or> mismatch test (pm_regex p) (obj_get (cr_values f) n)));
          e = cr_errors (fst (snd (create_submit net emptyFile test d f c)))
      in if \<exists>n. bad n then (Incomplete, f\<lparr>cr_errors := e\<rparr>, c)
         else (Created (fst (submitItemCreate net (cd_serviceCode d) (cd_action d) (cr_values f) c)), f\<lparr>cr_errors := []\<rparr>,
               snd (submitItemCreate net (cd_serviceCode d) (cd_action d) (cr_values f) c)))
   \<and> (\<forall>n. obj_get (cr_errors (fst (snd (create_submit net emptyFile test d f c)))) n \<noteq> None \<longleftrightarrow>
       (\<exists>p\<in>set (cd_params d). pm_name p = n \<and>
          (pm_required p \<and> missing emptyFile (obj_get (cr_values f) n) \<or> mismatch test (pm_regex p) (obj_get (cr_values f) n))))"
proof -
  let ?e = "validate emptyFile test (form_params d) (cr_values f)"
  have e: "cr_errors (fst (snd (create_submit net emptyFile test d f c))) = ?e"
    by (simp add: create_submit_def Let_def split: prod.split)
  have s: "set (form_params d) = set (cd_params d)" by (simp add: form_params_def)
  have g: "obj_get ?e n \<noteq> None \<longleftrightarrow> (\<exists>p\<in>set (cd_params d). pm_name p = n \<and>
      (pm_required p \<and> missing emptyFile (obj_get (cr_values f) n) \<or> mismatch test (pm_regex p) (obj_get (cr_values f) n)))" for n
    unfolding validate_get s by (auto simp: invalid_param_def)
  have n: "?e = [] \<longleftrightarrow> \<not> (\<exists>n. \<exists>p\<in>set (cd_params d). pm_name p = n \<and>
      (pm_required p \<and> missing emptyFile (obj_get (cr_values f) n) \<or> mismatch test (pm_regex p) (obj_get (cr_values f) n)))"
    unfolding validate_Nil s by (auto simp: invalid_param_def)
  show ?thesis unfolding e using g n by (simp add: create_submit_def Let_def split: prod.split)
qed

lemma form_groups_concat: "concat (map snd (form_groups ps)) = ps"
proof -
  have "concat (map snd (foldl add_to_groups gs ps)) = concat (map snd gs) @ ps" for gs
  proof (induction ps arbitrary: gs)
    case (Cons p ps)
    have "concat (map snd (add_to_groups gs p)) = concat (map snd gs) @ [p]"
      by (cases gs rule: rev_cases) (auto simp: add_to_groups_def)
    then show ?case using Cons by simp
  qed simp
  then show ?thesis by (simp add: form_groups_def)
qed

lemma form_groups_sections:
  "successively (\<lambda>g h. fst g \<noteq> fst h) (form_groups ps) \<and> (\<forall>g\<in>set (form_groups ps). snd g \<noteq> [] \<and> (\<forall>p\<in>set (snd g). section_of p = fst g))"
proof (induction ps rule: rev_induct)
  case (snoc p ps)
  have g: "form_groups (ps @ [p]) = add_to_groups (form_groups ps) p" by (simp add: form_groups_def)
  show ?case
  proof (cases "form_groups ps" rule: rev_cases)
    case Nil
    then show ?thesis by (simp add: g add_to_groups_def)
  next
    case (snoc gs l)
    then show ?thesis using snoc.IH
      by (cases l) (auto simp: g add_to_groups_def successively_append_iff)
  qed
qed (simp add: form_groups_def)

section \<open>Facts: playground\<close>

text \<open>The field \<open>X-PLM-User\<close> of a row is shown and can be edited, but no request depends on it.\<close>

theorem user_header_ignored: "playground_request token basePath ep (r\<lparr>plmUser := u\<rparr>) = playground_request token basePath ep r"
  by (simp add: playground_request_def Let_def)

text \<open>A body that was emptied is filled with the example again.\<close>

theorem body_cannot_be_emptied:
  assumes "given = Some e" "e \<noteq> JNull" "truthy content"
    and "content = jprop (jprop (jprop (Some op) ''requestBody'') ''content'') ''application/json''"
    and "given = jprop content ''example''"
  shows "prefilled_body stringify True True op [] = stringify e"
  using assms by (cases e) (auto simp: prefilled_body_def Let_def js_coalesce_def nullish_def)

end
