(* ===== verification/SearchPanel.thy ===== *)
theory SearchPanel
  imports ApiCalls
begin

text \<open>
  The search panel (\<open>frontend/src/components/SearchPanel.jsx\<close>): the query and the facet filters, the
  timer that waits for a pause in typing, the searches under way and their answers, and the rows that
  open to show the children of a hit. \<open>sp_answered\<close> is no state of the code: it lists the searches
  that have been answered and what the answers showed. \<open>num\<close> is \<open>parseFloat\<close>, None for NaN.
\<close>

section \<open>Filters\<close>

type_synonym facet_filters = "string list jsobj"

definition toggleFilter :: "string \<Rightarrow> string \<Rightarrow> facet_filters \<Rightarrow> facet_filters" where
  "toggleFilter facet val prev =
     (let current = or_nil (obj_get prev facet);
          next = (if val \<in> set current then filter (\<lambda>v. v \<noteq> val) current else current @ [val])
      in if next = [] then AList.delete facet prev else obj_put facet next prev)"

definition set_range :: "bool \<Rightarrow> string \<Rightarrow> string \<Rightarrow> facet_filters \<Rightarrow> facet_filters" where
  \<comment> \<open>the two inputs of a range facet: the lower bound and the upper bound\<close>
  "set_range lower facet v prev =
     (let old = or_nil (obj_get prev facet); bound = (\<lambda>i. if i < length old then old ! i else [])
      in obj_put facet (if lower then [v, bound 1] else [bound 0, v]) prev)"

definition filter_terms :: "string list \<Rightarrow> facet_filters \<Rightarrow> (string \<times> json) list" where
  "filter_terms rd active = map (\<lambda>(facet, v). (facet, JArr (map JStr v))) (filter (\<lambda>(facet, v). v \<noteq> [] \<and> facet \<notin> set rd) (obj_entries active))"

definition range_filters :: "(string \<Rightarrow> json option) \<Rightarrow> string list \<Rightarrow> facet_filters \<Rightarrow> (string \<times> json) list" where
  "range_filters num rd active = List.map_filter (\<lambda>(facet, v).
     if facet \<in> set rd \<and> length v \<ge> 2 then
       (case (num (v ! 0), num (v ! 1)) of (Some lo, Some hi) \<Rightarrow> Some (facet, JArr [lo, hi]) | _ \<Rightarrow> None)
     else None) (obj_entries active)"

section \<open>State\<close>

record search_query =
  sq_query :: string
  sq_terms :: "(string \<times> json) list"
  sq_ranges :: "(string \<times> json) list"

record search_panel =
  sp_query :: string
  sp_filters :: facet_filters
  sp_result :: "json option"
  sp_loading :: bool
  sp_timer :: "(string \<times> facet_filters) option"
  sp_inflight :: "search_query list"
  sp_expanded :: "(string \<times> bool) list"
  sp_childMap :: "json list jsobj"
  sp_expandLoading :: "(string \<times> bool) list"
  sp_answered :: "(search_query \<times> json option) list"

definition open_panel :: "string \<Rightarrow> search_panel" where
  \<comment> \<open>the first render starts the timer\<close>
  "open_panel q = \<lparr>sp_query = q, sp_filters = [], sp_result = None, sp_loading = False, sp_timer = Some (q, []), sp_inflight = [],
     sp_expanded = [], sp_childMap = [], sp_expandLoading = [], sp_answered = []\<rparr>"

definition rangeDims :: "json option \<Rightarrow> string list" where
  "rangeDims res = map fst (case jprop res ''rangeFacets'' of Some r \<Rightarrow> if truthy (Some r) then entries r else [] | None \<Rightarrow> [])"

section \<open>Operations\<close>

definition restart_timer :: "search_panel \<Rightarrow> search_panel" where
  \<comment> \<open>the effect on \<open>query\<close> and \<open>filters\<close>\<close>
  "restart_timer s = s\<lparr>sp_timer := Some (sp_query s, sp_filters s)\<rparr>"

definition set_query :: "string \<Rightarrow> search_panel \<Rightarrow> search_panel" where
  "set_query q s = (if q = sp_query s then s else restart_timer (s\<lparr>sp_query := q\<rparr>))"

definition set_filters :: "(facet_filters \<Rightarrow> facet_filters) \<Rightarrow> search_panel \<Rightarrow> search_panel" where
  "set_filters f s = restart_timer (s\<lparr>sp_filters := f (sp_filters s)\<rparr>)"

definition search_query_of :: "(string \<Rightarrow> json option) \<Rightarrow> string list \<Rightarrow> string \<Rightarrow> facet_filters \<Rightarrow> search_query" where
  "search_query_of num rd q active =
     \<lparr>sq_query = trim q, sq_terms = filter_terms rd active, sq_ranges = range_filters num rd active\<rparr>"

definition doSearch :: "(string \<Rightarrow> json option) \<Rightarrow> string \<Rightarrow> facet_filters \<Rightarrow> search_panel \<Rightarrow> search_panel" where
  \<comment> \<open>up to the \<open>await\<close>\<close>
  "doSearch num q active s =
     (if trim q = [] then s\<lparr>sp_result := None, sp_expanded := [], sp_childMap := []\<rparr>
      else s\<lparr>sp_loading := True, sp_expanded := [], sp_childMap := [],
             sp_inflight := sp_inflight s @ [search_query_of num (rangeDims (sp_result s)) q active]\<rparr>)"

definition search_answered :: "nat \<Rightarrow> json option \<Rightarrow> search_panel \<Rightarrow> search_panel" where
  \<comment> \<open>after it, None when the call failed\<close>
  "search_answered i res s =
     s\<lparr>sp_result := res, sp_loading := False, sp_inflight := take i (sp_inflight s) @ drop (Suc i) (sp_inflight s),
       sp_answered := sp_answered s @ [(sp_inflight s ! i, res)]\<rparr>"

definition search_call :: "network \<Rightarrow> search_query \<Rightarrow> client \<Rightarrow> (thrown + json) \<times> client" where
  "search_call net r = searchNodes net (JStr (sq_query r)) (Some (JObj (sq_terms r))) (Some (JObj (sq_ranges r)))
     (Some (JArr [JStr ''_type'', JStr ''*''])) (Some (JNum 100))"

definition is_set :: "string \<Rightarrow> (string \<times> bool) list \<Rightarrow> bool" where
  "is_set i m \<longleftrightarrow> map_of m i = Some True"

definition toggle_row :: "string \<Rightarrow> search_panel \<Rightarrow> search_panel" where
  \<comment> \<open>up to the \<open>await\<close>; a row whose children are known opens at once\<close>
  "toggle_row i s =
     (if is_set i (sp_expanded s) then s\<lparr>sp_expanded := AList.update i False (sp_expanded s)\<rparr>
      else if obj_get (sp_childMap s) i \<noteq> None then s\<lparr>sp_expanded := AList.update i True (sp_expanded s)\<rparr>
      else s\<lparr>sp_expandLoading := AList.update i True (sp_expandLoading s)\<rparr>)"

definition row_children_arrived :: "string \<Rightarrow> json list option \<Rightarrow> search_panel \<Rightarrow> search_panel" where
  "row_children_arrived i res s =
     (let t = (case res of
         Some cs \<Rightarrow> s\<lparr>sp_childMap := obj_put i cs (sp_childMap s), sp_expanded := AList.update i (cs \<noteq> []) (sp_expanded s)\<rparr>
       | None \<Rightarrow> s\<lparr>sp_expanded := AList.update i False (sp_expanded s)\<rparr>)
      in t\<lparr>sp_expandLoading := AList.update i False (sp_expandLoading t)\<rparr>)"

definition shown_children :: "string \<Rightarrow> search_panel \<Rightarrow> json list option" where
  \<comment> \<open>the rows below an open hit, \<open>Some []\<close> for the note that there are none\<close>
  "shown_children i s = (if is_set i (sp_expanded s) then obj_get (sp_childMap s) i else None)"

section \<open>Labels\<close>

definition word_char :: "char \<Rightarrow> bool" where
  "word_char c \<longleftrightarrow> (let n = of_char c :: nat in 48 \<le> n \<and> n \<le> 57 \<or> 65 \<le> n \<and> n \<le> 90 \<or> 97 \<le> n \<and> n \<le> 122 \<or> n = 95)"

fun capitalise :: "bool \<Rightarrow> string \<Rightarrow> string" where
  \<comment> \<open>\<open>replace(/\b\w/g, c => c.toUpperCase())\<close>; the flag: the character before is a word character\<close>
  "capitalise inside [] = []"
| "capitalise inside (c # s) = (if word_char c \<and> \<not> inside then upper_char c else c) # capitalise (word_char c) s"

definition dimLabel :: "string \<Rightarrow> string" where
  "dimLabel facet = (if facet = ''_type'' then ''Type'' else capitalise False (map (\<lambda>c. if c = CHR ''_'' then CHR '' '' else c) facet))"

definition typeLabels :: "json list \<Rightarrow> json jsobj" where
  "typeLabels items = fold (\<lambda>d m. if truthy (jprop (Some d) ''itemCode'') \<and> truthy (jprop (Some d) ''displayName'')
     then obj_put (opt_string (jprop (Some d) ''itemCode'')) (the (jprop (Some d) ''displayName'')) m else m) items []"

definition hit_source :: "json \<Rightarrow> json option \<times> json option" where
  \<comment> \<open>\<open>svc\<close> and \<open>typeCode\<close>\<close>
  "hit_source hit = (js_or (jprop (Some hit) ''serviceCode'') (Some (JStr ''psm'')),
     js_or (jprop (Some hit) ''itemCode'') (jprop (Some hit) ''type''))"

definition hit_descriptor :: "json list \<Rightarrow> json \<Rightarrow> json option" where
  "hit_descriptor items hit = (let (svc, tc) = hit_source hit
     in find (\<lambda>d. jprop (Some d) ''serviceCode'' = svc \<and> jprop (Some d) ''itemCode'' = tc) items)"

definition needs_refresh :: "string \<Rightarrow> json list \<Rightarrow> json list \<Rightarrow> bool" where
  "needs_refresh itemsStatus items hits \<longleftrightarrow> hits \<noteq> [] \<and> itemsStatus \<noteq> ''loading'' \<and> itemsStatus \<noteq> ''loaded''
     \<and> list_ex (\<lambda>hit. hit_descriptor items hit = None) hits"

section \<open>The machine\<close>

datatype search_event =
    QueryTyped string
  | FilterToggled string string
  | RangeTyped bool string string
  | FiltersCleared
  | SearchDue
  | Answered nat "json option"
  | RowToggled string
  | ChildrenArrived string "json list option"

fun search_step :: "(string \<Rightarrow> json option) \<Rightarrow> search_event \<Rightarrow> search_panel \<Rightarrow> search_panel" where
  "search_step num (QueryTyped q) s = set_query q s"
| "search_step num (FilterToggled facet val) s = set_filters (toggleFilter facet val) s"
| "search_step num (RangeTyped lower facet v) s = set_filters (set_range lower facet v) s"
| "search_step num FiltersCleared s = set_filters (\<lambda>_. []) s"
| "search_step num SearchDue s = (case sp_timer s of
     Some (q, active) \<Rightarrow> doSearch num q active (s\<lparr>sp_timer := None\<rparr>) | None \<Rightarrow> s)"
| "search_step num (Answered i res) s = search_answered i res s"
| "search_step num (RowToggled i) s = toggle_row i s"
| "search_step num (ChildrenArrived i res) s = row_children_arrived i res s"

fun search_enabled :: "search_event \<Rightarrow> search_panel \<Rightarrow> bool" where
  "search_enabled SearchDue s \<longleftrightarrow> sp_timer s \<noteq> None"
| "search_enabled (Answered i _) s \<longleftrightarrow> i < length (sp_inflight s)"
| "search_enabled (RowToggled i) s \<longleftrightarrow> \<not> is_set i (sp_expandLoading s)"
| "search_enabled (ChildrenArrived i _) s \<longleftrightarrow> is_set i (sp_expandLoading s)"
| "search_enabled _ s \<longleftrightarrow> True"

fun one_at_a_time :: "search_event \<Rightarrow> search_panel \<Rightarrow> bool" where
  \<comment> \<open>every search is answered before the next pause in typing\<close>
  "one_at_a_time SearchDue s \<longleftrightarrow> sp_timer s \<noteq> None \<and> sp_inflight s = []"
| "one_at_a_time e s \<longleftrightarrow> search_enabled e s"

section \<open>Facts: filters\<close>

lemma toggleFilter_get:
  "v \<in> set (or_nil (obj_get (toggleFilter facet val f) d)) \<longleftrightarrow>
     (if d = facet \<and> v = val then v \<notin> set (or_nil (obj_get f d)) else v \<in> set (or_nil (obj_get f d)))"
proof -
  have del: "obj_get (AList.delete facet f) d' = (if d' = facet then None else obj_get f d')" for d'
    by (simp add: obj_get_def AList.delete_conv)
  have "or_nil (obj_get (toggleFilter facet val f) d) = (if d = facet then
      (if val \<in> set (or_nil (obj_get f d)) then filter (\<lambda>v. v \<noteq> val) (or_nil (obj_get f d)) else or_nil (obj_get f d) @ [val])
      else or_nil (obj_get f d))"
    by (simp add: toggleFilter_def Let_def del)
  then show ?thesis by auto
qed

text \<open>Every chosen filter reaches a search in one place only: the values of a term facet among the
  terms, a range with two numbers among the ranges.\<close>

lemma filters_go_once:
  assumes "distinct (map fst active)" "obj_get active facet = Some v"
  shows "(facet, x) \<in> set (filter_terms rd active) \<longleftrightarrow> facet \<notin> set rd \<and> v \<noteq> [] \<and> x = JArr (map JStr v)"
    "(facet, x) \<in> set (range_filters num rd active) \<longleftrightarrow> facet \<in> set rd \<and> length v \<ge> 2 \<and>
       (\<exists>lo hi. num (v ! 0) = Some lo \<and> num (v ! 1) = Some hi \<and> x = JArr [lo, hi])"
proof -
  have u: "(facet, w) \<in> set active \<longleftrightarrow> w = v" for w
    using obj_entries_get [OF assms(1), of facet w] assms(2) by auto
  show "(facet, x) \<in> set (filter_terms rd active) \<longleftrightarrow> facet \<notin> set rd \<and> v \<noteq> [] \<and> x = JArr (map JStr v)"
  proof -
    have "(facet, x) \<in> set (filter_terms rd active) \<longleftrightarrow>
        (\<exists>w. (facet, w) \<in> set active \<and> facet \<notin> set rd \<and> w \<noteq> [] \<and> x = JArr (map JStr w))"
      unfolding filter_terms_def by auto
    then show ?thesis by (simp add: u)
  qed
  show "(facet, x) \<in> set (range_filters num rd active) \<longleftrightarrow> facet \<in> set rd \<and> length v \<ge> 2 \<and>
       (\<exists>lo hi. num (v ! 0) = Some lo \<and> num (v ! 1) = Some hi \<and> x = JArr [lo, hi])"
  proof -
    define g where "g = (\<lambda>(d, w). if d \<in> set rd \<and> length w \<ge> 2 then
        (case (num (w ! 0), num (w ! 1)) of (Some lo, Some hi) \<Rightarrow> Some (d, JArr [lo, hi]) | _ \<Rightarrow> None) else None)"
    have key: "fst p = facet" if "g p = Some (facet, x)" for p
      using that by (cases p) (auto simp: g_def split: if_splits option.splits)
    have "(facet, x) \<in> set (range_filters num rd active) \<longleftrightarrow> (\<exists>p\<in>set active. g p = Some (facet, x))"
      by (simp add: range_filters_def mem_map_filter g_def)
    also have "\<dots> \<longleftrightarrow> (\<exists>w. (facet, w) \<in> set active \<and> g (facet, w) = Some (facet, x))"
      using key by (metis prod.collapse)
    also have "\<dots> \<longleftrightarrow> g (facet, v) = Some (facet, x)" by (simp add: u)
    also have "\<dots> \<longleftrightarrow> facet \<in> set rd \<and> length v \<ge> 2 \<and>
       (\<exists>lo hi. num (v ! 0) = Some lo \<and> num (v ! 1) = Some hi \<and> x = JArr [lo, hi])"
      unfolding g_def by (cases "num (v ! 0)"; cases "num (v ! 1)") auto
    finally show ?thesis .
  qed
qed

section \<open>Facts: the result on display\<close>

definition search_inv :: "(string \<Rightarrow> json option) \<Rightarrow> search_event list \<Rightarrow> search_panel \<Rightarrow> bool" where
  "search_inv num es s \<longleftrightarrow>
     length (sp_inflight s) \<le> 1
     \<and> (\<forall>q active. sp_timer s = Some (q, active) \<longrightarrow> q = sp_query s \<and> active = sp_filters s)
     \<and> (\<forall>r. sp_timer s = None \<and> sp_inflight s = [r] \<longrightarrow> trim (sp_query s) \<noteq> []
          \<and> (\<exists>rd. r = search_query_of num rd (sp_query s) (sp_filters s)))
     \<and> (sp_timer s = None \<and> sp_inflight s = [] \<longrightarrow>
          (if trim (sp_query s) = [] then sp_result s = None
           else sp_answered s \<noteq> [] \<and> snd (last (sp_answered s)) = sp_result s
             \<and> (\<exists>rd. fst (last (sp_answered s)) = search_query_of num rd (sp_query s) (sp_filters s))))
     \<and> (sp_loading s \<longleftrightarrow> sp_inflight s \<noteq> [])"

lemma search_inv_step:
  assumes inv: "search_inv num es s" and c: "one_at_a_time e s"
  shows "search_inv num (es @ [e]) (search_step num e s)"
proof (cases e)
  case SearchDue
  then obtain q active where t: "sp_timer s = Some (q, active)" using c by auto
  then have "q = sp_query s" "active = sp_filters s" "sp_inflight s = []" using inv c SearchDue by (auto simp: search_inv_def)
  then show ?thesis using inv t SearchDue by (auto simp: search_inv_def doSearch_def)
next
  case (Answered i res)
  then obtain r where r: "sp_inflight s = [r]" "i = 0"
    using inv c by (cases "sp_inflight s") (auto simp: search_inv_def)
  then show ?thesis using inv Answered by (auto simp: search_inv_def search_answered_def)
qed (use inv c in \<open>auto simp: search_inv_def set_query_def set_filters_def restart_timer_def toggle_row_def
  row_children_arrived_def Let_def split: option.splits\<close>)

interpretation searching: machine_invariant one_at_a_time "search_step num" "open_panel q" "search_inv num" for num q
proof
  show "search_inv num [] (open_panel q)" by (simp add: search_inv_def open_panel_def)
qed (rule search_inv_step)

text \<open>C36. As long as no search is started before the last one is answered, the panel settles on what
  was asked: once the timer has run and nothing is under way, an empty query shows nothing and any
  other shows the answer of the search for it with the filters that are set; the note that a search
  is under way is shown exactly when one is.\<close>

theorem settled_result_is_current:
  assumes "run_machine one_at_a_time (search_step num) es (open_panel q) = Some s"
  shows "(sp_timer s = None \<and> sp_inflight s = [] \<longrightarrow>
       (if trim (sp_query s) = [] then sp_result s = None
        else \<exists>rd. (search_query_of num rd (sp_query s) (sp_filters s), sp_result s) = last (sp_answered s)))
     \<and> (sp_loading s \<longleftrightarrow> sp_inflight s \<noteq> [])"
proof (intro conjI impI)
  have inv: "search_inv num es s" using searching.holds [OF assms] .
  then show "sp_loading s \<longleftrightarrow> sp_inflight s \<noteq> []" by (simp add: search_inv_def)
  assume q: "sp_timer s = None \<and> sp_inflight s = []"
  show "if trim (sp_query s) = [] then sp_result s = None
      else \<exists>rd. (search_query_of num rd (sp_query s) (sp_filters s), sp_result s) = last (sp_answered s)"
  proof (cases "trim (sp_query s) = []")
    case True
    then show ?thesis using inv q by (simp add: search_inv_def)
  next
    case False
    then obtain rd where "fst (last (sp_answered s)) = search_query_of num rd (sp_query s) (sp_filters s)"
      "snd (last (sp_answered s)) = sp_result s"
      using inv q by (auto simp: search_inv_def)
    then have "(search_query_of num rd (sp_query s) (sp_filters s), sp_result s) = last (sp_answered s)"
      by (simp add: prod_eq_iff)
    then show ?thesis using False by auto
  qed
qed

definition sample_hits :: "string \<Rightarrow> json" where
  "sample_hits h = JObj [(''hits'', JArr [JStr h]), (''rangeFacets'', JObj [(''mass'', JArr [JNum 1, JNum 9])])]"

definition no_number :: "string \<Rightarrow> json option" where
  "no_number t = (if t = [] then None else map_option JNum (parse_int t))"

theorem settled_result_is_current_witness:
  "\<exists>s. run_machine one_at_a_time (search_step no_number)
       [QueryTyped ''bolt'', SearchDue, Answered 0 (Some (sample_hits ''b'')), RangeTyped True ''mass'' ''2'', RangeTyped False ''mass'' ''5'',
        SearchDue, Answered 0 (Some (sample_hits ''c''))] (open_panel []) = Some s
     \<and> sp_result s = Some (sample_hits ''c'') \<and> \<not> sp_loading s
     \<and> (\<exists>rd. (search_query_of no_number rd ''bolt'' [(''mass'', [''2'', ''5''])], sp_result s) = last (sp_answered s))"
proof -
  let ?run = "run_machine one_at_a_time (search_step no_number)
       [QueryTyped ''bolt'', SearchDue, Answered 0 (Some (sample_hits ''b'')), RangeTyped True ''mass'' ''2'', RangeTyped False ''mass'' ''5'',
        SearchDue, Answered 0 (Some (sample_hits ''c''))] (open_panel [])"
  have "case ?run of Some s \<Rightarrow> sp_timer s = None \<and> sp_inflight s = [] \<and> sp_result s = Some (sample_hits ''c'')
      \<and> sp_query s = ''bolt'' \<and> sp_filters s = [(''mass'', [''2'', ''5''])] \<and> trim ''bolt'' \<noteq> [] | None \<Rightarrow> False" by code_simp
  from case_Some_ex [OF this] obtain s where s: "?run = Some s"
    "sp_timer s = None \<and> sp_inflight s = [] \<and> sp_result s = Some (sample_hits ''c'') \<and> sp_query s = ''bolt''
      \<and> sp_filters s = [(''mass'', [''2'', ''5''])] \<and> trim ''bolt'' \<noteq> []" by blast
  show ?thesis using settled_result_is_current [OF s(1)] s by auto
qed

text \<open>Searches are neither cancelled nor compared: the answer to an earlier one that comes last stays on
  display, and so does one that comes after the query was emptied.\<close>

theorem late_answer_stays:
  "\<exists>s. run_machine search_enabled (search_step no_number)
       [QueryTyped ''bolt'', SearchDue, QueryTyped ''nut'', SearchDue, Answered 1 (Some (sample_hits ''nut'')), Answered 0 (Some (sample_hits ''bolt''))]
       (open_panel []) = Some s
     \<and> sp_query s = ''nut'' \<and> sp_timer s = None \<and> sp_inflight s = [] \<and> sp_result s = Some (sample_hits ''bolt'')"
  by (rule case_Some_ex) code_simp

text \<open>Which filters are ranges is read from the last result: after a search that failed there is none,
  and the next search sends the bounds of a range as the values of a term.\<close>

theorem range_sent_as_term:
  "\<exists>s. run_machine one_at_a_time (search_step no_number)
       [QueryTyped ''bolt'', SearchDue, Answered 0 (Some (sample_hits ''b'')), RangeTyped True ''mass'' ''2'', RangeTyped False ''mass'' ''5'',
        SearchDue, Answered 0 None, QueryTyped ''bolts'', SearchDue] (open_panel []) = Some s
     \<and> map sq_terms (sp_inflight s) = [[(''mass'', JArr [JStr ''2'', JStr ''5''])]] \<and> map sq_ranges (sp_inflight s) = [[]]"
  by (rule case_Some_ex) code_simp

section \<open>Facts: rows\<close>

text \<open>Opening a row shows its children once they have arrived, and closing and opening it again shows
  the same without another call.\<close>

lemma row_opens:
  assumes "obj_get (sp_childMap s) i = None" "\<not> is_set i (sp_expanded s)" "cs \<noteq> []"
  shows "shown_children i (row_children_arrived i (Some cs) (toggle_row i s)) = Some cs"
    "shown_children i (toggle_row i (toggle_row i (row_children_arrived i (Some cs) (toggle_row i s)))) = Some cs"
    "sp_expandLoading (toggle_row i (toggle_row i (row_children_arrived i (Some cs) (toggle_row i s))))
       = sp_expandLoading (row_children_arrived i (Some cs) (toggle_row i s))"
  using assms by (simp_all add: shown_children_def row_children_arrived_def toggle_row_def is_set_def update_conv' Let_def)

end
