(* ===== verification/Viewer.thy ===== *)
theory Viewer
  imports ProductScene
begin

text \<open>
  The 3D viewer (\<open>frontend/src/components/StepViewer.jsx\<close>) without its graphics: which parts of the
  product have an object in the scene, which are being loaded and which have failed, where the objects
  stand, and the layout of the exploded view. The nodes are those ProductScene collects; the worker
  that loads a part answers by an event. An object of the scene is its file, matrix, visibility and
  the render mode it was built for.
\<close>

section \<open>State\<close>

record 'f group3d =
  g_uuid :: string
  g_matrix :: "'f list"
  g_visible :: bool
  g_realistic :: bool

datatype part_phase = PartLoading | PartReady | PartError string

record part_state =
  ps_phase :: part_phase
  ps_visible :: bool

record 'f viewer =
  v_nodes :: "'f scene_node list"
  removedKeys :: "string list"
  groups3d :: "(string \<times> 'f group3d) list"
  loadingUuids :: "string list"
  meshData :: "string list"
  partStates :: "(string \<times> part_state) list"
  v_realistic :: bool
  v_posted :: "(string \<times> string) list"       \<comment> \<open>the loads asked of the worker: file and kind\<close>

definition open_viewer :: "'f viewer" where
  "open_viewer = \<lparr>v_nodes = [], removedKeys = [], groups3d = [], loadingUuids = [], meshData = [], partStates = [],
     v_realistic = False, v_posted = []\<rparr>"

definition part_key :: "'f scene_part \<Rightarrow> string" where
  \<comment> \<open>\<open>p.instanceKey || p.uuid\<close>\<close>
  "part_key p = (if instanceKey p = [] then part_uuid p else instanceKey p)"

definition active_parts :: "'f scene_node list \<Rightarrow> string list \<Rightarrow> 'f scene_part list" where
  "active_parts nodes removed = filter (\<lambda>p. part_key p \<notin> set removed) (concat (map scene_parts nodes))"

abbreviation activeParts :: "'f viewer \<Rightarrow> 'f scene_part list" where
  "activeParts v \<equiv> active_parts (v_nodes v) (removedKeys v)"

definition activeKey :: "'f viewer \<Rightarrow> (string \<times> 'f list option) list" where
  \<comment> \<open>what the effect that brings the scene up to date depends on\<close>
  "activeKey v = map (\<lambda>p. (part_key p, part_matrix p)) (activeParts v)"

section \<open>The scene\<close>

definition identity16 :: "'f fp_ops \<Rightarrow> 'f list" where
  "identity16 fp = map (\<lambda>i. if i \<in> {0, 5, 10, 15} then fp_one fp else fp_zero fp) [0..<16]"

definition new_group :: "'f fp_ops \<Rightarrow> bool \<Rightarrow> 'f scene_part \<Rightarrow> 'f group3d" where
  "new_group fp realistic p = \<lparr>g_uuid = part_uuid p,
     g_matrix = (case part_matrix p of Some m \<Rightarrow> m | None \<Rightarrow> identity16 fp), g_visible = True, g_realistic = realistic\<rparr>"

definition put_group :: "'f fp_ops \<Rightarrow> 'f scene_part \<Rightarrow> 'f viewer \<Rightarrow> 'f viewer" where
  "put_group fp p v = v\<lparr>groups3d := AList.update (part_key p) (new_group fp (v_realistic v) p) (groups3d v),
     partStates := AList.update (part_key p) \<lparr>ps_phase = PartReady, ps_visible = True\<rparr> (partStates v)\<rparr>"

definition put_loading :: "'f scene_part \<Rightarrow> 'f viewer \<Rightarrow> 'f viewer" where
  "put_loading p v = v\<lparr>partStates := AList.update (part_key p) \<lparr>ps_phase = PartLoading, ps_visible = True\<rparr> (partStates v)\<rparr>"

definition drop_stale :: "'f viewer \<Rightarrow> 'f viewer" where
  "drop_stale v = (let ks = set (map part_key (activeParts v)); us = set (map part_uuid (activeParts v))
     in v\<lparr>groups3d := filter (\<lambda>(k, _). k \<in> ks) (groups3d v), loadingUuids := filter (\<lambda>u. u \<in> us) (loadingUuids v),
          partStates := filter (\<lambda>(k, _). k \<in> ks) (partStates v)\<rparr>)"

definition sync_part :: "'f fp_ops \<Rightarrow> 'f scene_part \<Rightarrow> 'f viewer \<Rightarrow> 'f viewer" where
  "sync_part fp p v =
     (case map_of (groups3d v) (part_key p) of
        Some g \<Rightarrow> (case part_matrix p of
          Some m \<Rightarrow> v\<lparr>groups3d := AList.update (part_key p) (g\<lparr>g_matrix := m\<rparr>) (groups3d v)\<rparr>
        | None \<Rightarrow> v)
      | None \<Rightarrow>
          if part_uuid p \<in> set (meshData v) then put_group fp p v
          else if part_uuid p \<notin> set (loadingUuids v) then
            put_loading p (v\<lparr>loadingUuids := js_add (part_uuid p) (loadingUuids v),
              v_posted := v_posted v @ [(part_uuid p, if part_kind p = [] then ''design'' else part_kind p)]\<rparr>)
          else put_loading p v)"

definition sync_scene :: "'f fp_ops \<Rightarrow> 'f viewer \<Rightarrow> 'f viewer" where
  "sync_scene fp v = fold (sync_part fp) (activeParts v) (drop_stale v)"

definition resync :: "'f fp_ops \<Rightarrow> ('f viewer \<Rightarrow> 'f viewer) \<Rightarrow> 'f viewer \<Rightarrow> 'f viewer" where
  \<comment> \<open>a change of the nodes or of the removed keys, then the effect if \<open>activeKey\<close> is another one\<close>
  "resync fp f v = (let w = f v in if activeKey w = activeKey v then w else sync_scene fp w)"

definition primary_node :: "'f scene_node list \<Rightarrow> string option" where
  "primary_node nodes = (case nodes of [] \<Rightarrow> None | n # _ \<Rightarrow> Some (scene_nodeId n))"

definition set_nodes :: "'f fp_ops \<Rightarrow> 'f scene_node list \<Rightarrow> 'f viewer \<Rightarrow> 'f viewer" where
  \<comment> \<open>new nodes, then the effect on the first node, whose reset renders again\<close>
  "set_nodes fp nodes v = (let w = resync fp (\<lambda>v. v\<lparr>v_nodes := nodes\<rparr>) v
     in if primary_node nodes = primary_node (v_nodes v) then w else resync fp (\<lambda>v. v\<lparr>removedKeys := []\<rparr>) w)"

definition add_instance :: "'f fp_ops \<Rightarrow> 'f scene_part \<Rightarrow> 'f viewer \<Rightarrow> 'f viewer" where
  "add_instance fp p v = (if map_of (groups3d v) (part_key p) \<noteq> None then v else put_group fp p v)"

definition instances_of :: "string \<Rightarrow> 'f viewer \<Rightarrow> 'f scene_part list" where
  "instances_of uuid v = filter (\<lambda>p. part_uuid p = uuid) (activeParts v)"

definition worker_ready :: "'f fp_ops \<Rightarrow> string \<Rightarrow> 'f viewer \<Rightarrow> 'f viewer" where
  "worker_ready fp uuid v =
     (if uuid \<notin> set (loadingUuids v) then v
      else fold (add_instance fp) (instances_of uuid v)
             (v\<lparr>loadingUuids := js_delete uuid (loadingUuids v), meshData := js_add uuid (meshData v)\<rparr>))"

definition fail_instance :: "string \<Rightarrow> 'f scene_part \<Rightarrow> 'f viewer \<Rightarrow> 'f viewer" where
  "fail_instance msg p v = v\<lparr>partStates := AList.update (part_key p) \<lparr>ps_phase = PartError msg, ps_visible = False\<rparr> (partStates v)\<rparr>"

definition worker_error :: "string \<Rightarrow> string \<Rightarrow> 'f viewer \<Rightarrow> 'f viewer" where
  "worker_error uuid msg v =
     (if uuid \<notin> set (loadingUuids v) then v
      else fold (fail_instance msg) (instances_of uuid v) (v\<lparr>loadingUuids := js_delete uuid (loadingUuids v)\<rparr>))"

definition toggleVisibility :: "string \<Rightarrow> 'f viewer \<Rightarrow> 'f viewer" where
  "toggleVisibility key v = (case map_of (groups3d v) key of None \<Rightarrow> v
   | Some g \<Rightarrow> v\<lparr>groups3d := AList.update key (g\<lparr>g_visible := \<not> g_visible g\<rparr>) (groups3d v),
       partStates := map (\<lambda>(k, st). (k, if k = key then st\<lparr>ps_visible := \<not> g_visible g\<rparr> else st)) (partStates v)\<rparr>)"

definition removePart :: "'f fp_ops \<Rightarrow> string \<Rightarrow> 'f viewer \<Rightarrow> 'f viewer" where
  "removePart fp key v = resync fp (\<lambda>v. v\<lparr>groups3d := AList.delete key (groups3d v), partStates := AList.delete key (partStates v),
     removedKeys := js_add key (removedKeys v)\<rparr>) v"

definition rebuildAllGroups :: "'f fp_ops \<Rightarrow> bool \<Rightarrow> 'f viewer \<Rightarrow> 'f viewer" where
  \<comment> \<open>the effect on \<open>renderMode\<close>\<close>
  "rebuildAllGroups fp realistic v = v\<lparr>v_realistic := realistic,
     groups3d := fold (\<lambda>p. AList.update (part_key p) (new_group fp realistic p))
       (filter (\<lambda>p. part_uuid p \<in> set (meshData v)) (activeParts v)) []\<rparr>"

datatype 'f view_event =
    NodesChanged "'f scene_node list"
  | WorkerReady string
  | WorkerError string string
  | VisibilityToggled string
  | PartRemoved string
  | ModeChosen bool

fun view_step :: "'f fp_ops \<Rightarrow> 'f view_event \<Rightarrow> 'f viewer \<Rightarrow> 'f viewer" where
  "view_step fp (NodesChanged nodes) v = set_nodes fp nodes v"
| "view_step fp (WorkerReady uuid) v = worker_ready fp uuid v"
| "view_step fp (WorkerError uuid msg) v = worker_error uuid msg v"
| "view_step fp (VisibilityToggled key) v = toggleVisibility key v"
| "view_step fp (PartRemoved key) v = removePart fp key v"
| "view_step fp (ModeChosen realistic) v = rebuildAllGroups fp realistic v"

definition file_of :: "string \<Rightarrow> string" where
  \<comment> \<open>instance keys start with the file, up to a \<open>#\<close>\<close>
  "file_of key = takeWhile (\<lambda>c. c \<noteq> CHR ''#'') key"

definition keys_fit :: "'f scene_node list \<Rightarrow> bool" where
  "keys_fit nodes \<longleftrightarrow> list_all (\<lambda>n. list_all (\<lambda>p. part_uuid p = file_of (part_key p)) (scene_parts n)) nodes"

fun view_enabled :: "'f view_event \<Rightarrow> 'f viewer \<Rightarrow> bool" where
  "view_enabled (NodesChanged nodes) v \<longleftrightarrow> keys_fit nodes"
| "view_enabled (PartRemoved key) v \<longleftrightarrow> key \<in> part_key ` set (activeParts v)"
| "view_enabled (VisibilityToggled key) v \<longleftrightarrow> key \<in> part_key ` set (activeParts v)"
| "view_enabled _ v \<longleftrightarrow> True"

section \<open>Exploded view\<close>

definition node_clusters :: "'f scene_node list \<Rightarrow> (string \<times> string option) list" where
  \<comment> \<open>\<open>nodeToCluster\<close>: the node of depth one that came last\<close>
  "node_clusters nodes = snd (fold (\<lambda>n (cur, m).
     let cur' = (if scene_depth n = 0 then None else if scene_depth n = 1 then Some (scene_nodeId n) else cur)
     in (cur', AList.update (scene_nodeId n) cur' m)) nodes (None, []))"

record 'r cluster =
  origPosAlongAxis :: 'r
  clusterRadius :: 'r
  naturalClusterDist :: 'r

fun pack_from :: "(('r :: linordered_field) \<times> 'r) option \<Rightarrow> 'r cluster list \<Rightarrow> ('r cluster \<times> 'r) list" where
  \<comment> \<open>each cluster with its \<open>effectiveClusterDist\<close>; the accumulator is \<open>prevExploded\<close> and \<open>prevRadius\<close>,
    None for minus infinity\<close>
  "pack_from prev [] = []"
| "pack_from prev (ci # cs) =
     (let gap = clusterRadius ci * (15 / 100);
          wanted = origPosAlongAxis ci + naturalClusterDist ci;
          exploded = (case prev of None \<Rightarrow> wanted | Some (e, r) \<Rightarrow> max wanted (e + r + clusterRadius ci + gap))
      in (ci, max (exploded - origPosAlongAxis ci) 0) # pack_from (Some (exploded, clusterRadius ci)) cs)"

definition pack_axis :: "('r :: linordered_field) cluster list \<Rightarrow> ('r cluster \<times> 'r) list" where
  "pack_axis cs = pack_from None (sort_key origPosAlongAxis cs)"

definition note_origs :: "(string \<times> 'f group3d) list \<Rightarrow> (string \<times> 'f list) list \<Rightarrow> (string \<times> 'f list) list" where
  \<comment> \<open>\<open>origMatricesRef\<close>: the first matrix seen of every object\<close>
  "note_origs gs origs = fold (\<lambda>(k, g) m. if map_of m k = None then AList.update k (g_matrix g) m else m) gs origs"

definition applyExplode ::
  "(string \<Rightarrow> 'f list \<Rightarrow> 'f list) option \<Rightarrow> (string \<times> 'f list) list \<Rightarrow> (string \<times> 'f group3d) list \<Rightarrow>
   (string \<times> 'f list) list \<times> (string \<times> 'f group3d) list" where
  \<comment> \<open>the matrices: first they are noted, then set back to those noted, then moved;
    \<open>shift\<close> is the displacement of each object, None for factor zero\<close>
  "applyExplode shift origs gs =
     (let origs' = note_origs gs origs
      in (origs', map (\<lambda>(k, g). (k, g\<lparr>g_matrix := (let orig = the (map_of origs' k)
            in case shift of None \<Rightarrow> orig | Some f \<Rightarrow> f k orig)\<rparr>)) gs))"

section \<open>Facts: the scene\<close>

definition pre_ok :: "'f viewer \<Rightarrow> string set \<Rightarrow> bool" where
  \<comment> \<open>what holds of the scene whatever part of the keys has been brought up to date\<close>
  "pre_ok v K \<longleftrightarrow> fst ` set (groups3d v) \<subseteq> K \<and> fst ` set (partStates v) \<subseteq> K
     \<and> set (loadingUuids v) \<subseteq> file_of ` K \<and> set (loadingUuids v) \<inter> set (meshData v) = {}
     \<and> set (loadingUuids v) \<subseteq> fst ` set (v_posted v)
     \<and> (\<forall>k g. map_of (groups3d v) k = Some g \<longrightarrow> g_uuid g = file_of k \<and> file_of k \<in> set (meshData v)
          \<and> (\<exists>b. map_of (partStates v) k = Some \<lparr>ps_phase = PartReady, ps_visible = b\<rparr>))"

definition settled_key :: "'f viewer \<Rightarrow> string \<Rightarrow> bool" where
  "settled_key v k \<longleftrightarrow> map_of (groups3d v) k \<noteq> None
     \<or> (file_of k \<in> set (loadingUuids v) \<and> map_of (partStates v) k = Some \<lparr>ps_phase = PartLoading, ps_visible = True\<rparr>)
     \<or> (file_of k \<notin> set (loadingUuids v) \<and> file_of k \<notin> set (meshData v)
        \<and> (\<exists>msg. map_of (partStates v) k = Some \<lparr>ps_phase = PartError msg, ps_visible = False\<rparr>))"

definition synced_key :: "'f viewer \<Rightarrow> string \<Rightarrow> bool" where
  "synced_key v k \<longleftrightarrow> map_of (groups3d v) k \<noteq> None
     \<or> (file_of k \<in> set (loadingUuids v) \<and> map_of (partStates v) k = Some \<lparr>ps_phase = PartLoading, ps_visible = True\<rparr>)"

definition fits :: "'f scene_part list \<Rightarrow> bool" where
  "fits ps \<longleftrightarrow> (\<forall>p\<in>set ps. part_uuid p = file_of (part_key p))"

definition view_inv :: "'f view_event list \<Rightarrow> 'f viewer \<Rightarrow> bool" where
  "view_inv es v \<longleftrightarrow> keys_fit (v_nodes v) \<and> pre_ok v (part_key ` set (activeParts v))
     \<and> (\<forall>k\<in>part_key ` set (activeParts v). settled_key v k)"

lemma keys_fit_active: "keys_fit nodes \<Longrightarrow> fits (active_parts nodes removed)"
  by (auto simp: keys_fit_def fits_def active_parts_def list_all_iff)

lemma synced_settled: "synced_key v k \<Longrightarrow> settled_key v k"
  by (auto simp: synced_key_def settled_key_def)

lemmas scene_defs = pre_ok_def synced_key_def settled_key_def put_group_def put_loading_def new_group_def

lemma sync_part_frame [simp]: "v_nodes (sync_part fp p v) = v_nodes v" "removedKeys (sync_part fp p v) = removedKeys v"
  by (auto simp: sync_part_def put_group_def put_loading_def split: option.splits)

lemma sync_part_keeps:
  assumes v: "pre_ok v K" and p: "part_uuid p = file_of (part_key p)" "part_key p \<in> K"
  shows "pre_ok (sync_part fp p v) K \<and> synced_key (sync_part fp p v) (part_key p)
    \<and> (\<forall>k. synced_key v k \<longrightarrow> synced_key (sync_part fp p v) k)"
proof (cases "map_of (groups3d v) (part_key p)")
  case (Some g)
  then show ?thesis using v p
    by (cases "part_matrix p") (auto simp: sync_part_def scene_defs dom_update update_conv' split: if_splits)
next
  case None
  consider (mesh) "part_uuid p \<in> set (meshData v)" | (new) "part_uuid p \<notin> set (meshData v)" "part_uuid p \<notin> set (loadingUuids v)"
    | (old) "part_uuid p \<notin> set (meshData v)" "part_uuid p \<in> set (loadingUuids v)" by blast
  then show ?thesis
  proof cases
    case mesh
    then show ?thesis using v p None by (auto simp: sync_part_def scene_defs dom_update update_conv' split: if_splits)
  next
    case new
    then show ?thesis using v p None by (auto simp: sync_part_def scene_defs dom_update update_conv' split: if_splits)
  next
    case old
    then show ?thesis using v p None by (auto simp: sync_part_def scene_defs dom_update update_conv' split: if_splits)
  qed
qed

lemma sync_parts_keep:
  assumes "pre_ok v K" "fits ps" "part_key ` set ps \<subseteq> K"
  shows "pre_ok (fold (sync_part fp) ps v) K \<and> (\<forall>p\<in>set ps. synced_key (fold (sync_part fp) ps v) (part_key p))
    \<and> (\<forall>k. synced_key v k \<longrightarrow> synced_key (fold (sync_part fp) ps v) k)
    \<and> v_nodes (fold (sync_part fp) ps v) = v_nodes v \<and> removedKeys (fold (sync_part fp) ps v) = removedKeys v"
  using assms
proof (induction ps arbitrary: v)
  case (Cons p ps)
  have p: "part_uuid p = file_of (part_key p)" "part_key p \<in> K" using Cons.prems(2,3) by (auto simp: fits_def)
  note st = sync_part_keeps [OF Cons.prems(1) p, of fp]
  have "fits ps" "part_key ` set ps \<subseteq> K" using Cons.prems(2,3) by (auto simp: fits_def)
  note ih = Cons.IH [OF st [THEN conjunct1] this]
  show ?case using ih st by auto
qed simp

lemma map_of_filter_keys: "map_of (filter (\<lambda>(k, _). k \<in> S) xs) k = (if k \<in> S then map_of xs k else None)"
  by (induction xs) auto

lemma drop_stale_ok:
  assumes "pre_ok v K" "fits (activeParts v)"
  shows "pre_ok (drop_stale v) (part_key ` set (activeParts v))"
proof -
  have u: "part_uuid ` set (activeParts v) = file_of ` part_key ` set (activeParts v)"
    using assms(2) by (force simp: fits_def image_iff)
  show ?thesis using assms(1) u
    by (auto simp: pre_ok_def drop_stale_def Let_def map_of_filter_keys split: if_splits)
qed

lemma sync_scene_inv:
  assumes "keys_fit (v_nodes v)" "pre_ok v K"
  shows "view_inv es (sync_scene fp v)"
proof -
  have f: "fits (activeParts v)" using keys_fit_active [OF assms(1)] .
  note sync_parts_keep [OF drop_stale_ok [OF assms(2) f] f subset_refl, of fp]
  moreover have "v_nodes (drop_stale v) = v_nodes v" "removedKeys (drop_stale v) = removedKeys v"
    by (simp_all add: drop_stale_def Let_def)
  ultimately show ?thesis using assms(1) unfolding view_inv_def sync_scene_def by (auto intro: synced_settled)
qed

text \<open>A change of what is to be shown keeps the invariant, if it leaves objects and states as they were
  or takes out those of a key that goes.\<close>

lemma resync_inv:
  assumes "keys_fit (v_nodes (f v))" "pre_ok (f v) K"
    and "activeKey (f v) = activeKey v \<Longrightarrow> view_inv es (f v)"
  shows "view_inv es (resync fp f v)"
  using assms(3) sync_scene_inv [OF assms(1,2), of es fp] by (simp add: resync_def Let_def)

lemma activeKey_keys: "activeKey v = activeKey w \<Longrightarrow> part_key ` set (activeParts v) = part_key ` set (activeParts w)"
proof -
  assume "activeKey v = activeKey w"
  then have "map fst (activeKey v) = map fst (activeKey w)" by simp
  then have "set (map part_key (activeParts v)) = set (map part_key (activeParts w))"
    unfolding activeKey_def by (simp add: comp_def del: set_map)
  then show ?thesis by simp
qed

lemma same_scene:
  assumes "groups3d w = groups3d v" "partStates w = partStates v" "loadingUuids w = loadingUuids v" "meshData w = meshData v"
    "v_posted w = v_posted v"
  shows "pre_ok w K = pre_ok v K" "settled_key w k = settled_key v k"
  using assms by (simp_all add: pre_ok_def settled_key_def)

lemma set_nodes_inv:
  assumes "view_inv es v" "keys_fit nodes"
  shows "view_inv es (set_nodes fp nodes v)"
proof -
  have one: "view_inv es (resync fp (\<lambda>v. v\<lparr>v_nodes := nodes\<rparr>) v)"
  proof (rule resync_inv [where K = "part_key ` set (activeParts v)"])
    assume "activeKey (v\<lparr>v_nodes := nodes\<rparr>) = activeKey v"
    from activeKey_keys [OF this] show "view_inv es (v\<lparr>v_nodes := nodes\<rparr>)"
      using assms by (simp add: view_inv_def same_scene [of "v\<lparr>v_nodes := nodes\<rparr>" v])
  qed (use assms in \<open>simp_all add: view_inv_def same_scene [of "v\<lparr>v_nodes := nodes\<rparr>" v]\<close>)
  define w where "w = resync fp (\<lambda>v. v\<lparr>v_nodes := nodes\<rparr>) v"
  have "view_inv es (resync fp (\<lambda>v. v\<lparr>removedKeys := []\<rparr>) w)"
  proof (rule resync_inv [where K = "part_key ` set (activeParts w)"])
    assume "activeKey (w\<lparr>removedKeys := []\<rparr>) = activeKey w"
    from activeKey_keys [OF this] show "view_inv es (w\<lparr>removedKeys := []\<rparr>)"
      using one unfolding w_def [symmetric] by (simp add: view_inv_def same_scene [of "w\<lparr>removedKeys := []\<rparr>" w])
  qed (use one in \<open>simp_all add: view_inv_def same_scene [of "w\<lparr>removedKeys := []\<rparr>" w] w_def [symmetric]\<close>)
  then show ?thesis using one by (simp add: set_nodes_def Let_def w_def [symmetric])
qed

lemma map_of_delete_eq: "map_of (AList.delete a xs) k = (if k = a then None else map_of xs k)"
  by (simp add: delete_conv)

lemma pre_ok_delete:
  assumes "pre_ok v K"
  shows "pre_ok (v\<lparr>groups3d := AList.delete key (groups3d v), partStates := AList.delete key (partStates v), removedKeys := r\<rparr>) K"
proof -
  have d: "fst ` set (AList.delete key xs) \<subseteq> fst ` set xs" for xs :: "(string \<times> 'x) list"
    by (auto simp: AList.delete_eq)
  have P: "fst ` set (groups3d v) \<subseteq> K" "fst ` set (partStates v) \<subseteq> K" using assms by (simp_all add: pre_ok_def)
  have "fst ` set (AList.delete key (groups3d v)) \<subseteq> K" "fst ` set (AList.delete key (partStates v)) \<subseteq> K"
    by (rule order_trans [OF d P(1)], rule order_trans [OF d P(2)])
  then show ?thesis using assms unfolding pre_ok_def by (simp add: map_of_delete_eq)
qed

lemma removePart_inv:
  assumes "view_inv es v"
  shows "view_inv es (removePart fp key v)"
  unfolding removePart_def
proof (rule resync_inv)
  let ?f = "\<lambda>v. v\<lparr>groups3d := AList.delete key (groups3d v), partStates := AList.delete key (partStates v),
     removedKeys := js_add key (removedKeys v)\<rparr>"
  show k: "keys_fit (v_nodes (?f v))" using assms by (simp add: view_inv_def)
  show p: "pre_ok (?f v) (part_key ` set (activeParts v))"
    by (rule pre_ok_delete) (use assms in \<open>simp add: view_inv_def\<close>)
  assume same: "activeKey (?f v) = activeKey v"
  note keys = activeKey_keys [OF same]
  have "key \<notin> part_key ` set (activeParts (?f v))" by (auto simp: active_parts_def)
  then have new: "k \<noteq> key" if "k \<in> part_key ` set (activeParts v)" for k using that keys by auto
  have "settled_key (?f v) k" if "k \<in> part_key ` set (activeParts v)" for k
    using assms that new [OF that] by (auto simp: view_inv_def settled_key_def map_of_delete_eq)
  then show "view_inv es (?f v)" using k p unfolding view_inv_def keys by simp
qed

lemma add_instances_keep:
  assumes "pre_ok v K" "u \<in> set (meshData v)" "\<forall>p\<in>set ps. part_uuid p = u \<and> file_of (part_key p) = u \<and> part_key p \<in> K"
  shows "pre_ok (fold (add_instance fp) ps v) K
    \<and> (\<forall>p\<in>set ps. map_of (groups3d (fold (add_instance fp) ps v)) (part_key p) \<noteq> None)
    \<and> (\<forall>k. settled_key v k \<longrightarrow> settled_key (fold (add_instance fp) ps v) k)
    \<and> (\<forall>k. map_of (groups3d v) k \<noteq> None \<longrightarrow> map_of (groups3d (fold (add_instance fp) ps v)) k \<noteq> None)
    \<and> v_nodes (fold (add_instance fp) ps v) = v_nodes v \<and> removedKeys (fold (add_instance fp) ps v) = removedKeys v"
  using assms
proof (induction ps arbitrary: v)
  case (Cons p ps)
  let ?w = "add_instance fp p v"
  have p: "part_uuid p = u" "file_of (part_key p) = u" "part_key p \<in> K" using Cons.prems(3) by auto
  have w: "pre_ok ?w K" "u \<in> set (meshData ?w)" "map_of (groups3d ?w) (part_key p) \<noteq> None"
    "v_nodes ?w = v_nodes v" "removedKeys ?w = removedKeys v"
    using Cons.prems(1,2) p by (auto simp: add_instance_def scene_defs dom_update update_conv' split: if_splits)
  have s: "settled_key v k \<Longrightarrow> settled_key ?w k" for k
    using Cons.prems(2) p by (auto simp: add_instance_def scene_defs update_conv' split: if_splits)
  have g: "map_of (groups3d v) k \<noteq> None \<Longrightarrow> map_of (groups3d ?w) k \<noteq> None" for k
    by (auto simp: add_instance_def put_group_def update_conv' split: if_splits)
  have "\<forall>q\<in>set ps. part_uuid q = u \<and> file_of (part_key q) = u \<and> part_key q \<in> K" using Cons.prems(3) by simp
  note ih = Cons.IH [OF w(1,2) this]
  show ?case using ih w s g by simp
qed simp

lemma settled_frame:
  assumes "settled_key v k" "file_of k \<noteq> u" "groups3d w = groups3d v" "map_of (partStates w) k = map_of (partStates v) k"
    "set (loadingUuids w) - {u} = set (loadingUuids v) - {u}" "set (meshData w) - {u} = set (meshData v) - {u}"
  shows "settled_key w k"
proof -
  have "file_of k \<in> set (loadingUuids w) \<longleftrightarrow> file_of k \<in> set (loadingUuids v)"
    "file_of k \<in> set (meshData w) \<longleftrightarrow> file_of k \<in> set (meshData v)"
    using assms(2,5,6) by blast+
  then show ?thesis using assms(1,3,4) by (simp add: settled_key_def)
qed

lemma instances_facts:
  assumes "keys_fit (v_nodes v)"
  shows "p \<in> set (instances_of u v) \<Longrightarrow> part_uuid p = u \<and> file_of (part_key p) = u \<and> part_key p \<in> part_key ` set (activeParts v)"
    "k \<in> part_key ` set (activeParts v) \<Longrightarrow> file_of k = u \<Longrightarrow> \<exists>p\<in>set (instances_of u v). part_key p = k"
  using keys_fit_active [OF assms, of "removedKeys v"] by (auto simp: instances_of_def fits_def)

lemma worker_ready_inv:
  assumes "view_inv es v"
  shows "view_inv es (worker_ready fp u v)"
proof (cases "u \<in> set (loadingUuids v)")
  case True
  let ?K = "part_key ` set (activeParts v)"
  let ?v = "v\<lparr>loadingUuids := js_delete u (loadingUuids v), meshData := js_add u (meshData v)\<rparr>"
  have inv: "keys_fit (v_nodes v)" "pre_ok v ?K" "\<forall>k\<in>?K. settled_key v k" using assms by (simp_all add: view_inv_def)
  have "pre_ok ?v ?K" using inv(2) by (auto simp: pre_ok_def)
  moreover have "\<forall>p\<in>set (instances_of u v). part_uuid p = u \<and> file_of (part_key p) = u \<and> part_key p \<in> ?K"
    using instances_facts(1) [OF inv(1)] by blast
  ultimately have k: "pre_ok (fold (add_instance fp) (instances_of u v) ?v) ?K
    \<and> (\<forall>p\<in>set (instances_of u v). map_of (groups3d (fold (add_instance fp) (instances_of u v) ?v)) (part_key p) \<noteq> None)
    \<and> (\<forall>k. settled_key ?v k \<longrightarrow> settled_key (fold (add_instance fp) (instances_of u v) ?v) k)
    \<and> v_nodes (fold (add_instance fp) (instances_of u v) ?v) = v_nodes v
    \<and> removedKeys (fold (add_instance fp) (instances_of u v) ?v) = removedKeys v"
    using add_instances_keep [of ?v ?K u "instances_of u v" fp] by simp
  have "settled_key (fold (add_instance fp) (instances_of u v) ?v) k" if "k \<in> ?K" for k
  proof (cases "file_of k = u")
    case True
    from instances_facts(2) [OF inv(1) that True] k show ?thesis by (auto simp: settled_key_def)
  next
    case False
    have "settled_key ?v k" by (rule settled_frame [of v k u]) (use inv(3) that False in auto)
    then show ?thesis using k by blast
  qed
  then show ?thesis using True inv(1) k by (simp add: view_inv_def worker_ready_def)
qed (use assms in \<open>simp add: worker_ready_def\<close>)

lemma fail_instances:
  "groups3d (fold (fail_instance msg) ps v) = groups3d v" "loadingUuids (fold (fail_instance msg) ps v) = loadingUuids v"
  "meshData (fold (fail_instance msg) ps v) = meshData v" "v_posted (fold (fail_instance msg) ps v) = v_posted v"
  "v_nodes (fold (fail_instance msg) ps v) = v_nodes v" "removedKeys (fold (fail_instance msg) ps v) = removedKeys v"
  "map_of (partStates (fold (fail_instance msg) ps v)) k =
     (if k \<in> part_key ` set ps then Some \<lparr>ps_phase = PartError msg, ps_visible = False\<rparr> else map_of (partStates v) k)"
  "fst ` set (partStates (fold (fail_instance msg) ps v)) = part_key ` set ps \<union> fst ` set (partStates v)"
  by (induction ps arbitrary: v) (auto simp: fail_instance_def update_conv' dom_update)

lemma worker_error_inv:
  assumes "view_inv es v"
  shows "view_inv es (worker_error u msg v)"
proof (cases "u \<in> set (loadingUuids v)")
  case True
  let ?K = "part_key ` set (activeParts v)"
  let ?w = "worker_error u msg v"
  have inv: "keys_fit (v_nodes v)" "pre_ok v ?K" "\<forall>k\<in>?K. settled_key v k" using assms by (simp_all add: view_inv_def)
  have nm: "u \<notin> set (meshData v)" using inv(2) True by (auto simp: pre_ok_def)
  have w: "groups3d ?w = groups3d v" "set (loadingUuids ?w) = set (loadingUuids v) - {u}" "meshData ?w = meshData v"
    "v_posted ?w = v_posted v" "v_nodes ?w = v_nodes v" "removedKeys ?w = removedKeys v"
    "fst ` set (partStates ?w) = part_key ` set (instances_of u v) \<union> fst ` set (partStates v)"
    "\<And>k. map_of (partStates ?w) k = (if k \<in> part_key ` set (instances_of u v)
       then Some \<lparr>ps_phase = PartError msg, ps_visible = False\<rparr> else map_of (partStates v) k)"
    using True by (simp_all add: worker_error_def fail_instances)
  have inst: "k \<in> part_key ` set (instances_of u v) \<longleftrightarrow> k \<in> ?K \<and> file_of k = u" for k
    using instances_facts [OF inv(1)] by (auto simp: image_iff) metis
  have sub: "part_key ` set (instances_of u v) \<subseteq> ?K" using instances_facts(1) [OF inv(1)] by blast
  have "pre_ok ?w ?K"
    using inv(2) nm sub unfolding pre_ok_def w inst by auto
  moreover have "settled_key ?w k" if k: "k \<in> ?K" for k
  proof (cases "file_of k = u")
    case t: True
    have "map_of (partStates ?w) k = Some \<lparr>ps_phase = PartError msg, ps_visible = False\<rparr>"
      using t k by (simp only: w(8) inst) simp
    then show ?thesis using t nm w(2,3) by (auto simp: settled_key_def)
  next
    case False
    show ?thesis by (rule settled_frame [of v k u]) (use inv(3) k False w inst in auto)
  qed
  ultimately show ?thesis using inv(1) unfolding view_inv_def w(5,6) by blast
qed (use assms in \<open>simp add: worker_error_def\<close>)

lemma map_of_change: "map_of (map (\<lambda>(k, st). (k, if k = key then f st else st)) xs) k =
    (if k = key then map_option f (map_of xs k) else map_of xs k)"
  by (induction xs) auto

lemma toggleVisibility_inv:
  assumes "view_inv es v"
  shows "view_inv es (toggleVisibility key v)"
proof (cases "map_of (groups3d v) key")
  case (Some g)
  let ?K = "part_key ` set (activeParts v)"
  have "key \<in> fst ` set (groups3d v)" using map_of_SomeD [OF Some] by force
  then have kk: "key \<in> ?K" using assms unfolding view_inv_def pre_ok_def by blast
  obtain b where b: "map_of (partStates v) key = Some \<lparr>ps_phase = PartReady, ps_visible = b\<rparr>"
    using assms Some unfolding view_inv_def pre_ok_def by blast
  have ks: "fst ` set (map (\<lambda>(k, st). (k, if k = key then f st else st)) xs) = fst ` set xs" for f :: "part_state \<Rightarrow> part_state" and xs
    by (force simp: image_iff)
  have "pre_ok (toggleVisibility key v) ?K"
    using assms Some kk b unfolding view_inv_def pre_ok_def toggleVisibility_def
    by (auto simp: ks map_of_change dom_update update_conv' simp del: set_map split: if_splits)
  moreover have "settled_key v k \<Longrightarrow> settled_key (toggleVisibility key v) k" for k
    using Some by (auto simp: settled_key_def toggleVisibility_def map_of_change update_conv')
  ultimately show ?thesis using assms Some by (simp add: view_inv_def toggleVisibility_def)
qed (use assms in \<open>simp add: toggleVisibility_def\<close>)

lemma map_of_built: "map_of (fold (\<lambda>p. AList.update (key p) (g p)) ps xs) k =
    (if k \<in> key ` set ps then Some (g (last (filter (\<lambda>p. key p = k) ps))) else map_of xs k)"
proof (induction ps rule: rev_induct)
  case (snoc p ps)
  then show ?case by (auto simp: update_conv')
qed simp

lemma fst_built: "fst ` set (fold (\<lambda>p. AList.update (key p) (g p)) ps xs) = key ` set ps \<union> fst ` set xs"
  by (induction ps arbitrary: xs) (auto simp: dom_update)

lemma rebuild_inv:
  assumes "view_inv es v"
  shows "view_inv es (rebuildAllGroups fp r v)"
proof -
  let ?K = "part_key ` set (activeParts v)"
  let ?ps = "filter (\<lambda>p. part_uuid p \<in> set (meshData v)) (activeParts v)"
  have inv: "keys_fit (v_nodes v)" "pre_ok v ?K" "\<forall>k\<in>?K. settled_key v k" using assms by (simp_all add: view_inv_def)
  have f: "part_uuid p = file_of (part_key p)" if "p \<in> set (activeParts v)" for p
    using keys_fit_active [OF inv(1), of "removedKeys v"] that by (simp add: fits_def)
  have ready: "\<exists>b. map_of (partStates v) k = Some \<lparr>ps_phase = PartReady, ps_visible = b\<rparr>" if k: "k \<in> part_key ` set ?ps" for k
  proof -
    have m: "file_of k \<in> set (meshData v)" "k \<in> ?K" using k f by auto
    then have "settled_key v k" "file_of k \<notin> set (loadingUuids v)" using inv(2,3) by (auto simp: pre_ok_def)
    then have "map_of (groups3d v) k \<noteq> None" using m by (auto simp: settled_key_def)
    then show ?thesis using inv(2) by (auto simp: pre_ok_def)
  qed
  have uuid: "g_uuid (new_group fp r (last (filter (\<lambda>p. part_key p = k) ?ps))) = file_of k" if k: "k \<in> part_key ` set ?ps" for k
  proof -
    let ?fs = "filter (\<lambda>p. part_key p = k) ?ps"
    have "?fs \<noteq> []" using k by (auto simp: filter_empty_conv)
    then have "last ?fs \<in> set ?fs" by (rule last_in_set)
    then show ?thesis using f by (auto simp: new_group_def)
  qed
  have mesh: "file_of k \<in> set (meshData v)" if "k \<in> part_key ` set ?ps" for k using that f by auto
  have sub: "part_key ` set ?ps \<subseteq> ?K" by auto
  have "pre_ok (rebuildAllGroups fp r v) ?K"
    using inv(2) ready uuid mesh sub unfolding pre_ok_def rebuildAllGroups_def
    by (simp add: fst_built map_of_built del: set_filter)
  moreover have "settled_key (rebuildAllGroups fp r v) k" if k: "k \<in> ?K" for k
  proof (cases "map_of (groups3d v) k")
    case None
    then show ?thesis using inv(3) k mesh inv(2)
      by (fastforce simp: settled_key_def rebuildAllGroups_def map_of_built pre_ok_def simp del: set_filter)
  next
    case (Some g)
    then have "file_of k \<in> set (meshData v)" using inv(2) by (auto simp: pre_ok_def)
    then have "k \<in> part_key ` set ?ps" using k f by force
    then show ?thesis by (simp add: settled_key_def rebuildAllGroups_def map_of_built del: set_filter)
  qed
  ultimately show ?thesis using inv(1) by (simp add: view_inv_def rebuildAllGroups_def)
qed

interpretation viewing: machine_invariant view_enabled "view_step fp" open_viewer view_inv for fp
proof
  show "view_inv [] open_viewer" by (simp add: view_inv_def open_viewer_def keys_fit_def pre_ok_def active_parts_def)
next
  fix es v and e :: "'a view_event"
  assume "view_inv es v" "view_enabled e v"
  then have "view_inv es (view_step fp e v)"
    by (cases e) (simp_all add: set_nodes_inv worker_ready_inv worker_error_inv toggleVisibility_inv removePart_inv rebuild_inv)
  then show "view_inv (es @ [e]) (view_step fp e v)" by (simp add: view_inv_def)
qed

text \<open>C37. Every part that is to be shown is accounted for at any moment: it stands in the scene with the
  geometry of its own file, or its file has been asked of the worker and not been answered, or it is
  marked as failed; and nothing else stands in the scene. So when no answer is outstanding every part
  is on display or has failed.\<close>

theorem parts_accounted_for:
  assumes "run_machine view_enabled (view_step fp) es open_viewer = Some v" "p \<in> set (activeParts v)"
  shows "(case map_option ps_phase (map_of (partStates v) (part_key p)) of
       Some PartReady \<Rightarrow> \<exists>g. map_of (groups3d v) (part_key p) = Some g \<and> g_uuid g = part_uuid p
     | Some PartLoading \<Rightarrow> map_of (groups3d v) (part_key p) = None \<and> part_uuid p \<in> set (loadingUuids v)
         \<and> part_uuid p \<in> fst ` set (v_posted v)
     | Some (PartError msg) \<Rightarrow> map_of (groups3d v) (part_key p) = None \<and> part_uuid p \<notin> set (loadingUuids v)
     | None \<Rightarrow> False)
    \<and> fst ` set (groups3d v) \<subseteq> part_key ` set (activeParts v)"
proof
  let ?k = "part_key p"
  have inv: "keys_fit (v_nodes v)" "pre_ok v (part_key ` set (activeParts v))" "settled_key v ?k"
    using viewing.holds [OF assms(1)] assms(2) by (simp_all add: view_inv_def)
  have u: "part_uuid p = file_of ?k"
    using keys_fit_active [OF inv(1), of "removedKeys v"] assms(2) by (simp add: fits_def)
  show "fst ` set (groups3d v) \<subseteq> part_key ` set (activeParts v)" using inv(2) by (simp add: pre_ok_def)
  show "case map_option ps_phase (map_of (partStates v) ?k) of
       Some PartReady \<Rightarrow> \<exists>g. map_of (groups3d v) ?k = Some g \<and> g_uuid g = part_uuid p
     | Some PartLoading \<Rightarrow> map_of (groups3d v) ?k = None \<and> part_uuid p \<in> set (loadingUuids v) \<and> part_uuid p \<in> fst ` set (v_posted v)
     | Some (PartError msg) \<Rightarrow> map_of (groups3d v) ?k = None \<and> part_uuid p \<notin> set (loadingUuids v)
     | None \<Rightarrow> False"
  proof (cases "map_of (groups3d v) ?k")
    case None
    then show ?thesis using inv(2,3) u by (auto simp: settled_key_def pre_ok_def)
  next
    case (Some g)
    then show ?thesis using inv(2) u by (fastforce simp: pre_ok_def)
  qed
qed

definition sample_part :: "string \<Rightarrow> string \<Rightarrow> int list option \<Rightarrow> int scene_part" where
  "sample_part u path m = \<lparr>part_uuid = u, part_fileName = u, part_sizeBytes = None, instanceKey = u @ ''#'' @ path, part_matrix = m, part_kind = ''design''\<rparr>"

definition sample_node :: "int scene_part list \<Rightarrow> int scene_node" where
  "sample_node ps = \<lparr>scene_nodeId = ''n'', scene_label = ''n'', scene_color = ''red'', scene_depth = 0, scene_parts = ps, instanceId = ''n''\<rparr>"

definition two_bolts :: "int scene_node list" where
  "two_bolts = [sample_node [sample_part ''u1'' ''l1'' None, sample_part ''u1'' ''l2'' None, sample_part ''u2'' ''l3'' None]]"

theorem parts_accounted_for_witness:
  "\<exists>v. run_machine view_enabled (view_step sample_ops) [NodesChanged two_bolts, WorkerReady ''u1'', WorkerError ''u2'' ''broken''] open_viewer = Some v
     \<and> v_posted v = [(''u1'', ''design''), (''u2'', ''design'')] \<and> loadingUuids v = []
     \<and> (\<exists>g. map_of (groups3d v) ''u1#l2'' = Some g \<and> g_uuid g = ''u1'')"
proof -
  let ?run = "run_machine view_enabled (view_step sample_ops) [NodesChanged two_bolts, WorkerReady ''u1'', WorkerError ''u2'' ''broken''] open_viewer"
  have "case ?run of Some v \<Rightarrow> v_posted v = [(''u1'', ''design''), (''u2'', ''design'')] \<and> loadingUuids v = []
      \<and> activeParts v ! 1 = sample_part ''u1'' ''l2'' None \<and> length (activeParts v) = 3
      \<and> map_option ps_phase (map_of (partStates v) ''u1#l2'') = Some PartReady | None \<Rightarrow> False" by code_simp
  from case_Some_ex [OF this] obtain v where v: "?run = Some v" "v_posted v = [(''u1'', ''design''), (''u2'', ''design'')]"
    "loadingUuids v = []" "activeParts v ! 1 = sample_part ''u1'' ''l2'' None" "length (activeParts v) = 3"
    "map_option ps_phase (map_of (partStates v) ''u1#l2'') = Some PartReady" by blast
  have "sample_part ''u1'' ''l2'' None \<in> set (activeParts v)" using v(4,5) nth_mem [of 1 "activeParts v"] by simp
  moreover have "part_key (sample_part ''u1'' ''l2'' None) = ''u1#l2''" "part_uuid (sample_part ''u1'' ''l2'' None) = ''u1''" by code_simp+
  ultimately have "\<exists>g. map_of (groups3d v) ''u1#l2'' = Some g \<and> g_uuid g = ''u1''"
    using parts_accounted_for [OF v(1), of "sample_part ''u1'' ''l2'' None"] v(6) by simp
  then show ?thesis using v by blast
qed

text \<open>Choosing the other render mode builds every object anew and visible: a part that was hidden is in
  the scene again, while its box still says it is hidden.\<close>

theorem hidden_part_reappears:
  "\<exists>v. run_machine view_enabled (view_step sample_ops)
       [NodesChanged two_bolts, WorkerReady ''u1'', VisibilityToggled ''u1#l1'', ModeChosen True] open_viewer = Some v
     \<and> map_option g_visible (map_of (groups3d v) ''u1#l1'') = Some True
     \<and> map_option ps_visible (map_of (partStates v) ''u1#l1'') = Some False"
  by (rule case_Some_ex) code_simp

text \<open>A part whose link loses its position stays where it was.\<close>

theorem removed_position_stays:
  "\<exists>v. run_machine view_enabled (view_step sample_ops)
       [NodesChanged [sample_node [sample_part ''u1'' ''l1'' (Some (replicate 16 7))]], WorkerReady ''u1'',
        NodesChanged [sample_node [sample_part ''u1'' ''l1'' None]]] open_viewer = Some v
     \<and> map part_matrix (activeParts v) = [None] \<and> map_option g_matrix (map_of (groups3d v) ''u1#l1'') = Some (replicate 16 7)"
  by (rule case_Some_ex) code_simp

section \<open>Facts: exploded view\<close>

lemma noted_origs:
  "map_of (note_origs gs m) k = (case map_of m k of Some x \<Rightarrow> Some x | None \<Rightarrow> map_option g_matrix (map_of gs k))"
  unfolding note_origs_def by (induction gs arbitrary: m) (auto simp: update_conv' split: option.splits if_splits)

text \<open>Closing the exploded view puts every object back where it stood, as long as none was moved in
  between; one that was is put back where it stood before.\<close>

lemma explode_closes:
  assumes "distinct (map fst gs)"
  shows "snd (applyExplode None (fst (applyExplode shift [] gs)) (snd (applyExplode shift [] gs))) = gs"
proof -
  have "map_of (note_origs gs' (note_origs gs [])) k = Some (g_matrix g)" if "(k, g) \<in> set gs" for k g gs'
    using map_of_is_SomeI [OF assms that] by (simp add: noted_origs)
  then show ?thesis by (auto simp: applyExplode_def Let_def intro!: map_idI)
qed

theorem exploded_part_jumps_back:
  "let gs = [(''u1#l1'', \<lparr>g_uuid = ''u1'', g_matrix = [1 :: int], g_visible = True, g_realistic = False\<rparr>)];
       (o1, gs1) = applyExplode (Some (\<lambda>k m. map ((+) 5) m)) [] gs;
       moved = map (\<lambda>(k, g). (k, g\<lparr>g_matrix := [2]\<rparr>)) gs1;
       (o2, gs2) = applyExplode None o1 moved
   in map (g_matrix \<circ> snd) gs2 = [[1]]"
  by code_simp

lemma pack_from_apart:
  fixes cs :: "('r :: linordered_field) cluster list"
  assumes "\<forall>c\<in>set cs. 0 \<le> clusterRadius c \<and> 0 \<le> naturalClusterDist c"
  shows "sorted_wrt (\<lambda>(a, d) (b, d'). origPosAlongAxis a + d + clusterRadius a \<le> origPosAlongAxis b + d' - clusterRadius b) (pack_from prev cs)
    \<and> (\<forall>(b, d)\<in>set (pack_from prev cs). naturalClusterDist b \<le> d \<and> 0 \<le> clusterRadius b
        \<and> (\<forall>e r. prev = Some (e, r) \<longrightarrow> e + r \<le> origPosAlongAxis b + d - clusterRadius b))"
  using assms
proof (induction cs arbitrary: prev)
  case (Cons c cs)
  define wanted where "wanted = origPosAlongAxis c + naturalClusterDist c"
  define x where "x = (case prev of None \<Rightarrow> wanted | Some (e, r) \<Rightarrow> max wanted (e + r + clusterRadius c + clusterRadius c * (15 / 100)))"
  have c: "0 \<le> clusterRadius c" "0 \<le> naturalClusterDist c" using Cons.prems by auto
  have w: "wanted \<le> x" by (auto simp: x_def split: option.splits)
  have p: "e + r \<le> x - clusterRadius c" if "prev = Some (e, r)" for e r
  proof -
    have "e + r + clusterRadius c \<le> e + r + clusterRadius c + clusterRadius c * (15 / 100)" using c(1) by simp
    also have "\<dots> \<le> x" using that by (simp add: x_def)
    finally show ?thesis by simp
  qed
  have d: "max (x - origPosAlongAxis c) 0 = x - origPosAlongAxis c" using w c(2) by (simp add: wanted_def max_def)
  have pk: "pack_from prev (c # cs) = (c, x - origPosAlongAxis c) # pack_from (Some (x, clusterRadius c)) cs"
    using d by (cases prev) (auto simp: x_def wanted_def Let_def split: prod.splits)
  have ih: "sorted_wrt (\<lambda>(a, d) (b, d'). origPosAlongAxis a + d + clusterRadius a \<le> origPosAlongAxis b + d' - clusterRadius b)
      (pack_from (Some (x, clusterRadius c)) cs)"
    "\<forall>(b, d)\<in>set (pack_from (Some (x, clusterRadius c)) cs). naturalClusterDist b \<le> d \<and> 0 \<le> clusterRadius b
        \<and> x + clusterRadius c \<le> origPosAlongAxis b + d - clusterRadius b"
    using Cons.IH [of "Some (x, clusterRadius c)"] Cons.prems by auto
  have later: "e + r \<le> origPosAlongAxis b + d - clusterRadius b"
    if "prev = Some (e, r)" "(b, d) \<in> set (pack_from (Some (x, clusterRadius c)) cs)" for e r b d
    using p [OF that(1)] ih(2) that(2) c(1) by fastforce
  show ?case unfolding pk using ih p w c later by (auto simp: wanted_def)
qed simp

text \<open>In the exploded view the clusters pushed along one axis stand clear of each other at the factor
  the distances are made for: in exact arithmetic each keeps its place in the order, is moved at least
  by its natural distance, and its extent begins where those before it have ended.\<close>

theorem clusters_stand_clear:
  fixes cs :: "('r :: linordered_field) cluster list"
  assumes "\<forall>c\<in>set cs. 0 \<le> clusterRadius c \<and> 0 \<le> naturalClusterDist c"
  shows "map fst (pack_axis cs) = sort_key origPosAlongAxis cs
    \<and> sorted_wrt (\<lambda>(a, d) (b, d'). origPosAlongAxis a + d + clusterRadius a \<le> origPosAlongAxis b + d' - clusterRadius b) (pack_axis cs)
    \<and> (\<forall>(b, d)\<in>set (pack_axis cs). naturalClusterDist b \<le> d)"
proof -
  have "map fst (pack_from prev xs) = xs" for prev and xs :: "'r cluster list"
    by (induction xs arbitrary: prev) (simp_all add: Let_def)
  then show ?thesis using pack_from_apart [of "sort_key origPosAlongAxis cs" None] assms
    unfolding pack_axis_def by fastforce
qed

theorem clusters_stand_clear_witness:
  "let c = (\<lambda>p r. \<lparr>origPosAlongAxis = p, clusterRadius = r, naturalClusterDist = 2\<rparr> :: rat cluster)
   in sorted_wrt (\<lambda>(a, d) (b, d'). origPosAlongAxis a + d + clusterRadius a \<le> origPosAlongAxis b + d' - clusterRadius b)
        (pack_axis [c 5 4, c 3 1, c 4 2])"
  unfolding Let_def
  by (rule clusters_stand_clear [of "[\<lparr>origPosAlongAxis = 5, clusterRadius = 4, naturalClusterDist = 2\<rparr>,
      \<lparr>origPosAlongAxis = 3, clusterRadius = 1, naturalClusterDist = 2\<rparr>, \<lparr>origPosAlongAxis = 4, clusterRadius = 2, naturalClusterDist = 2\<rparr>
      :: rat cluster]", THEN conjunct2, THEN conjunct1]) simp

text \<open>The clusters are read off the order of the nodes, but a node without a file of its own is not
  among them: here the housing has none, and its screw is put in the cluster of the engine that comes
  before it.\<close>

definition plane_children :: "string \<Rightarrow> plink list option" where
  "plane_children n = (if n = ''plane'' then Some [sample_link ''l1'' ''engine'', sample_link ''l2'' ''housing'']
     else if n = ''engine'' then Some [sample_file ''u1''] else if n = ''housing'' then Some [sample_link ''l3'' ''screw'']
     else if n = ''screw'' then Some [sample_file ''u2''] else None)"

theorem cluster_of_neighbour:
  "map_of (node_clusters (previewNodes sample_ops [] plane_children (\<lambda>_ _. 0) ''plane'' ''Plane'' ''red''
     (the (plane_children ''plane'')))) ''screw'' = Some (Some ''engine'')"
  by code_simp

end
