(* ===== verification/RightsCard.thy ===== *)
theory RightsCard
  imports ApiCalls ApiEndpoints "HOL-Library.List_Lexorder"
begin

text \<open>
  The access rights page of the settings (\<open>frontend/src/components/SettingsPage.jsx\<close>), first part: the
  catalogue of permissions with its form (\<open>PermissionCatalog\<close>), and the card of a role: which panels it
  shows, and what is loaded when it is opened (\<open>AccessRightsSection\<close>).
\<close>

section \<open>Permissions and scopes\<close>

definition or_field :: "string option \<Rightarrow> string option \<Rightarrow> string option" where
  \<comment> \<open>\<open>a || b\<close>\<close>
  "or_field a b = (if a = None \<or> a = Some [] then b else a)"

record perm_row =
  pr_permissionCode :: "string option"
  pr_permission_code :: "string option"
  pr_scope :: "string option"
  pr_displayName :: "string option"
  pr_display_name :: "string option"
  pr_displayOrder :: "int option"
  pr_display_order :: "int option"
  pr_description :: "string option"

record permission =
  permissionCode :: "string option"
  perm_scope :: "string option"
  perm_displayName :: "string option"
  perm_displayOrder :: "int option"
  perm_description :: "string option"

definition norm_permission :: "perm_row \<Rightarrow> permission" where
  "norm_permission p = \<lparr>permissionCode = or_field (pr_permissionCode p) (pr_permission_code p), perm_scope = pr_scope p,
     perm_displayName = or_field (pr_displayName p) (pr_display_name p),
     perm_displayOrder = (case pr_displayOrder p of Some n \<Rightarrow> Some n | None \<Rightarrow> pr_display_order p),
     perm_description = pr_description p\<rparr>"

definition normPerms :: "perm_row list option \<Rightarrow> permission list" where
  \<comment> \<open>None when the answer is no array\<close>
  "normPerms rows = map norm_permission (or_nil rows)"

definition has_scope :: "permission \<Rightarrow> bool" where
  "has_scope p \<longleftrightarrow> perm_scope p \<noteq> None \<and> perm_scope p \<noteq> Some []"

definition permsByScope :: "permission list \<Rightarrow> string \<Rightarrow> permission list" where
  "permsByScope ps sc = filter (\<lambda>p. perm_scope p = Some sc) ps"

section \<open>Catalogue\<close>

definition KNOWN_ORDER :: "string list" where
  "KNOWN_ORDER = [''GLOBAL'', ''NODE'', ''LIFECYCLE'']"

definition add_to_scope :: "permission \<Rightarrow> permission list jsobj \<Rightarrow> permission list jsobj" where
  "add_to_scope p g = (if has_scope p then obj_push (the (perm_scope p)) p g else g)"

definition grouped :: "permission list \<Rightarrow> permission list jsobj" where
  \<comment> \<open>scope codes are no names of built-in properties\<close>
  "grouped ps = fold add_to_scope ps []"

definition scopeOrder :: "permission list jsobj \<Rightarrow> string list" where
  "scopeOrder g = filter (\<lambda>s. obj_get g s \<noteq> None) KNOWN_ORDER @ sort (filter (\<lambda>s. s \<notin> set KNOWN_ORDER) (obj_keys g))"

definition catalog :: "permission list \<Rightarrow> (string \<times> permission list) list" where
  "catalog ps = filter (\<lambda>(s, items). items \<noteq> []) (map (\<lambda>s. (s, or_nil (obj_get (grouped ps) s))) (scopeOrder (grouped ps)))"

datatype catalog_modal = NoModal | CreateModal | EditModal string

record catalog_form =
  cf_code :: string
  cf_scope :: string
  cf_displayName :: string
  cf_description :: string
  cf_displayOrder :: int

definition blank_form :: catalog_form where
  "blank_form = \<lparr>cf_code = [], cf_scope = ''GLOBAL'', cf_displayName = [], cf_description = [], cf_displayOrder = 0\<rparr>"

definition openCreate :: "catalog_modal \<times> catalog_form" where
  "openCreate = (CreateModal, blank_form)"

definition openEdit :: "permission \<Rightarrow> catalog_modal \<times> catalog_form" where
  "openEdit p = (EditModal (or_nil (permissionCode p)), \<lparr>cf_code = or_nil (permissionCode p), cf_scope = or_nil (perm_scope p),
     cf_displayName = or_nil (perm_displayName p), cf_description = or_nil (perm_description p), cf_displayOrder = 0\<rparr>)"

definition trim_or_null :: "string \<Rightarrow> json" where
  "trim_or_null s = (if trim s = [] then JNull else JStr (trim s))"

datatype save_outcome = SaveRefused string | SaveSent access_call

definition save_permission :: "catalog_modal \<Rightarrow> catalog_form \<Rightarrow> save_outcome" where
  \<comment> \<open>\<open>handleSave\<close> up to its \<open>await\<close>\<close>
  "save_permission modal f = (case modal of
     EditModal code \<Rightarrow> SaveSent (UpdatePermission code (Some (JStr (trim (cf_displayName f)))) (Some (trim_or_null (cf_description f))) (Some (JNum (cf_displayOrder f))))
   | _ \<Rightarrow>
     if trim (cf_code f) = [] \<or> trim (cf_displayName f) = [] then SaveRefused ''Code and label required''
     else SaveSent (CreatePermission (Some (JStr (toUpperCase (trim (cf_code f))))) (Some (JStr (cf_scope f)))
            (Some (JStr (trim (cf_displayName f)))) (Some (trim_or_null (cf_description f))) (Some (JNum (cf_displayOrder f)))))"

section \<open>The card of a role\<close>

record key_def =
  kd_name :: string
  kd_values :: "(string \<times> string) list"      \<comment> \<open>id and label\<close>

record scope_def =
  sd_code :: string
  sd_keys :: "key_def list"

definition key_def_of :: "scope_def \<Rightarrow> key_def option" where
  "key_def_of sd = find (\<lambda>k. kd_values k \<noteq> []) (sd_keys sd)"

definition keyedScopes :: "scope_def list option \<Rightarrow> scope_def jsobj" where
  \<comment> \<open>\<open>tree?.scopes\<close>, None while the tree is not there\<close>
  "keyedScopes tree = fold (\<lambda>sd. obj_put (sd_code sd) sd) (filter (\<lambda>sd. \<exists>k\<in>set (sd_keys sd). kd_values k \<noteq> []) (or_nil tree)) []"

definition extraScopes :: "scope_def list option \<Rightarrow> permission list \<Rightarrow> string list" where
  "extraScopes tree ps = js_set_of (map (the \<circ> perm_scope) (filter (\<lambda>p. has_scope p
     \<and> the (perm_scope p) \<notin> set (KNOWN_ORDER @ obj_keys (keyedScopes tree))) ps))"

datatype role_panel =
    GlobalPanel "permission list"
  | ScopePanel string "permission list"
  | KeyedPanel scope_def "permission list"
  | MatrixPanel "permission list" "permission list"

definition role_card :: "scope_def list option \<Rightarrow> permission list \<Rightarrow> role_panel list" where
  "role_card tree ps =
     (let glob = permsByScope ps ''GLOBAL''; node = permsByScope ps ''NODE''; lc = permsByScope ps ''LIFECYCLE''
      in (if glob = [] then [] else [GlobalPanel glob])
       @ List.map_filter (\<lambda>sc. if permsByScope ps sc = [] then None else Some (ScopePanel sc (permsByScope ps sc))) (extraScopes tree ps)
       @ List.map_filter (\<lambda>sd. if permsByScope ps (sd_code sd) = [] then None else Some (KeyedPanel sd (permsByScope ps (sd_code sd))))
           (obj_values (keyedScopes tree))
       @ (if node = [] \<and> lc = [] then [] else [MatrixPanel node lc]))"

fun panel_perms :: "role_panel \<Rightarrow> permission list" where
  "panel_perms (GlobalPanel ps) = ps"
| "panel_perms (ScopePanel sc ps) = ps"
| "panel_perms (KeyedPanel sd ps) = ps"
| "panel_perms (MatrixPanel node lc) = node @ lc"

record rights =
  expandedRole :: "string option"
  globalPerms :: "string list jsobj"
  scopePerms :: "string list jsobj jsobj"

definition role_codes :: "(string option \<times> string option) list option \<Rightarrow> string list" where
  \<comment> \<open>the \<open>Set\<close> of an answer, by \<open>r.permissionCode || r.permission_code\<close>; None for no array or a failure\<close>
  "role_codes rows = js_set_of (map (\<lambda>(a, b). or_nil (or_field a b)) (or_nil rows))"

definition toggleRole :: "scope_def list option \<Rightarrow> permission list \<Rightarrow> string \<Rightarrow> rights \<Rightarrow> rights \<times> access_call list \<times> access_call list" where
  \<comment> \<open>the calls to make: first the global permissions, and after their answer those of the scopes\<close>
  "toggleRole tree ps roleId r =
     (if expandedRole r = Some roleId then (r\<lparr>expandedRole := None\<rparr>, [], [])
      else (r\<lparr>expandedRole := Some roleId\<rparr>,
            if obj_get (globalPerms r) roleId = None then [GetRoleGlobalPermissions roleId] else [],
            if obj_get (scopePerms r) roleId = None
            then map (GetRoleScopePermissions roleId) (filter (\<lambda>sc. obj_get (keyedScopes tree) sc = None) (extraScopes tree ps)) else []))"

definition role_globals_arrived :: "string \<Rightarrow> (string option \<times> string option) list option \<Rightarrow> rights \<Rightarrow> rights" where
  "role_globals_arrived roleId rows r = r\<lparr>globalPerms := obj_put roleId (role_codes rows) (globalPerms r)\<rparr>"

definition role_scopes_arrived :: "string \<Rightarrow> (string \<times> (string option \<times> string option) list option) list \<Rightarrow> rights \<Rightarrow> rights" where
  "role_scopes_arrived roleId answers r =
     r\<lparr>scopePerms := obj_put roleId (fold (\<lambda>(sc, rows). obj_put sc (role_codes rows)) answers []) (scopePerms r)\<rparr>"

definition scope_pending :: "string \<Rightarrow> string \<Rightarrow> rights \<Rightarrow> bool" where
  \<comment> \<open>the switches of a scope are disabled while this holds\<close>
  "scope_pending roleId sc r \<longleftrightarrow> obj_get (or_nil (obj_get (scopePerms r) roleId)) sc = None"

section \<open>What the catalogue and the card promise\<close>

lemma obj_get_grouped: "obj_get (grouped ps) s = (if s \<noteq> [] \<and> permsByScope ps s \<noteq> [] then Some (permsByScope ps s) else None)"
proof (induction ps rule: rev_induct)
  case (snoc p ps)
  then show ?case by (cases "perm_scope p") (auto simp: grouped_def add_to_scope_def has_scope_def permsByScope_def obj_get_push)
qed (simp add: grouped_def permsByScope_def)

lemma distinct_grouped: "distinct (map fst (grouped ps))"
  unfolding grouped_def by (rule fold_keeps) (auto simp: add_to_scope_def obj_push_def obj_put_distinct)

lemma catalog_sections: "catalog ps = map (\<lambda>s. (s, permsByScope ps s)) (scopeOrder (grouped ps))"
proof -
  have "or_nil (obj_get (grouped ps) s) = permsByScope ps s \<and> permsByScope ps s \<noteq> []" if "s \<in> set (scopeOrder (grouped ps))" for s
  proof -
    from that have "obj_get (grouped ps) s \<noteq> None"
      by (auto simp: scopeOrder_def KNOWN_ORDER_def obj_get_def map_of_eq_None_iff split: if_splits)
    then show ?thesis unfolding obj_get_grouped by (simp split: if_splits)
  qed
  then show ?thesis unfolding catalog_def by (subst filter_True) auto
qed

lemma set_scopeOrder: "s \<in> set (scopeOrder (grouped ps)) \<longleftrightarrow> s \<noteq> [] \<and> permsByScope ps s \<noteq> []"
proof -
  have "s \<in> fst ` set (grouped ps) \<longleftrightarrow> obj_get (grouped ps) s \<noteq> None" by (auto simp: obj_get_def map_of_eq_None_iff)
  then show ?thesis by (auto simp: scopeOrder_def KNOWN_ORDER_def obj_get_grouped split: if_splits)
qed

lemma distinct_scopeOrder: "distinct (scopeOrder (grouped ps))"
  by (auto simp: scopeOrder_def distinct_grouped KNOWN_ORDER_def)

lemma mset_by_scope:
  assumes "distinct ss" "\<And>p. p \<in> set ps \<Longrightarrow> has_scope p \<longleftrightarrow> (\<exists>s\<in>set ss. perm_scope p = Some s)"
  shows "mset (concat (map (permsByScope ps) ss)) = mset (filter has_scope ps)"
proof -
  have "mset (concat (map (permsByScope ps) ss)) = filter_mset (\<lambda>p. \<exists>s\<in>set ss. perm_scope p = Some s) (mset ps)"
    using assms(1)
  proof (induction ss)
    case (Cons s ss)
    have "filter_mset (\<lambda>p. \<exists>t\<in>set (s # ss). perm_scope p = Some t) (mset ps)
        = filter_mset (\<lambda>p. perm_scope p = Some s) (mset ps) + filter_mset (\<lambda>p. \<exists>t\<in>set ss. perm_scope p = Some t) (mset ps)"
      using Cons.prems by (induction ps) auto
    with Cons show ?case by (simp add: permsByScope_def)
  qed simp
  also have "\<dots> = mset (filter has_scope ps)" using assms(2) by (auto intro: filter_mset_cong)
  finally show ?thesis .
qed

lemma keyedScopes_codes: "(c, sd) \<in> set (keyedScopes tree) \<Longrightarrow> sd_code sd = c"
  and keyedScopes_distinct: "distinct (map fst (keyedScopes tree))"
proof -
  have "(\<forall>(c, sd)\<in>set (keyedScopes tree). sd_code sd = c) \<and> distinct (map fst (keyedScopes tree))"
    unfolding keyedScopes_def
  proof (rule fold_keeps)
    fix sd :: scope_def and ob :: "scope_def jsobj"
    assume "(\<forall>(c, sd)\<in>set ob. sd_code sd = c) \<and> distinct (map fst ob)"
    then show "(\<forall>(c, sd')\<in>set (obj_put (sd_code sd) sd ob). sd_code sd' = c) \<and> distinct (map fst (obj_put (sd_code sd) sd ob))"
      by (auto simp: obj_put_distinct dest: set_mp [OF set_obj_put])
  qed simp
  then show "(c, sd) \<in> set (keyedScopes tree) \<Longrightarrow> sd_code sd = c" "distinct (map fst (keyedScopes tree))" by auto
qed

lemma keyed_panel_codes: "map sd_code (obj_values (keyedScopes tree)) = obj_keys (keyedScopes tree)"
  by (auto simp: obj_values_def obj_keys_def keyedScopes_codes)

lemma concat_some_panels:
  "concat (map panel_perms (List.map_filter (\<lambda>x. if permsByScope ps (c x) = [] then None else Some (P x)) xs))
     = concat (map (permsByScope ps) (map c xs))" if "\<And>x. panel_perms (P x) = permsByScope ps (c x)"
  by (induction xs) (auto simp: map_filter_simps that)

definition card_scopes :: "scope_def list option \<Rightarrow> permission list \<Rightarrow> string list" where
  "card_scopes tree ps = [''GLOBAL''] @ extraScopes tree ps @ obj_keys (keyedScopes tree) @ [''NODE'', ''LIFECYCLE'']"

lemma role_card_perms: "concat (map panel_perms (role_card tree ps)) = concat (map (permsByScope ps) (card_scopes tree ps))"
  by (simp add: role_card_def card_scopes_def Let_def concat_some_panels [where c = "\<lambda>x. x"] concat_some_panels [where c = sd_code]
      keyed_panel_codes [symmetric])

lemma set_extraScopes: "set (extraScopes tree ps) = {s. s \<noteq> [] \<and> permsByScope ps s \<noteq> [] \<and> s \<notin> set KNOWN_ORDER \<and> s \<notin> fst ` set (keyedScopes tree)}"
  by (force simp: extraScopes_def permsByScope_def has_scope_def filter_empty_conv image_iff)


definition perm0 :: "string \<Rightarrow> string option \<Rightarrow> permission" where
  "perm0 code sc = \<lparr>permissionCode = Some code, perm_scope = sc, perm_displayName = Some code, perm_displayOrder = Some 3, perm_description = None\<rparr>"


text \<open>The form of the catalogue does not know the display order: it is opened with 0, and 0 is what is saved,
  whatever the order was.\<close>

theorem edit_resets_order:
  "case openEdit p of (modal, f) \<Rightarrow> \<exists>label descr. save_permission modal (f\<lparr>cf_displayName := name, cf_description := text1\<rparr>)
     = SaveSent (UpdatePermission (or_nil (permissionCode p)) label descr (Some (JNum 0)))"
  by (simp add: openEdit_def save_permission_def)

text \<open>The scopes of a role are loaded once, with the first opening of its card. A scope that gets its first
  permission later stays pending: its switches are disabled, and no opening of the card asks for it.\<close>

theorem new_scope_stays_pending:
  assumes "obj_get (scopePerms r) roleId = Some ob" "obj_get ob sc = None"
  shows "scope_pending roleId sc r \<and> snd (snd (toggleRole tree ps roleId r)) = []"
  using assms by (simp add: scope_pending_def toggleRole_def)

end
