(* ===== verification/AccessRights.thy ===== *)
theory AccessRights
  imports RightsCard
begin

text \<open>
  The access rights page of the settings (\<open>frontend/src/components/SettingsPage.jsx\<close>), second part: its
  four panels of switches: global permissions, role-only scopes, scopes with a key
  (\<open>ScopedGrantsPanel\<close>) and the matrix of node types and transitions (\<open>NodeTypeActionsPanel\<close>). A click
  shows the new state at once and sends a request; a failure puts the switch back. The locale
  \<open>optimistic\<close> is the contract of such a panel; each of the four is an instance of it, under the
  discipline it needs.
\<close>

section \<open>Switches\<close>

text \<open>What a panel of switches provides: whether a switch may be clicked, what it shows, the change of a
  click, what the handler remembers for its \<open>catch\<close>, the change made there, the request sent, and what
  the request does to the grants the server holds (\<open>pno-api\<close>: a grant is inserted if it is not there,
  a revocation deletes it).\<close>

record ('p, 'k, 'u, 'r) panel_ops =
  op_may :: "'p \<Rightarrow> 'k \<Rightarrow> bool"
  op_shown :: "'p \<Rightarrow> 'k \<Rightarrow> bool"
  op_click :: "'k \<Rightarrow> 'p \<Rightarrow> 'p"
  op_note :: "'p \<Rightarrow> 'k \<Rightarrow> 'u"
  op_undo :: "'k \<Rightarrow> 'u \<Rightarrow> 'p \<Rightarrow> 'p"
  op_sent :: "'p \<Rightarrow> 'k \<Rightarrow> 'r"
  op_effect :: "'r \<Rightarrow> 'k list \<Rightarrow> 'k list"

record ('p, 'k, 'u, 'r) grant_system =
  gs_panel :: 'p
  gs_server :: "'k list"
  gs_pending :: "('k \<times> 'u \<times> 'r) list"

datatype 'k grant_event = Clicked 'k | Answered nat bool

fun grant_step :: "('p, 'k, 'u, 'r) panel_ops \<Rightarrow> 'k grant_event \<Rightarrow> ('p, 'k, 'u, 'r) grant_system \<Rightarrow> ('p, 'k, 'u, 'r) grant_system" where
  "grant_step ops (Clicked k) s =
     (let p = gs_panel s
      in if op_may ops p k
         then s\<lparr>gs_panel := op_click ops k p, gs_pending := gs_pending s @ [(k, op_note ops p k, op_sent ops p k)]\<rparr> else s)"
| "grant_step ops (Answered i fine) s =
     (case gs_pending s ! i of (k, u, r) \<Rightarrow>
        let t = s\<lparr>gs_pending := without_nth i (gs_pending s)\<rparr>
        in if fine then t\<lparr>gs_server := op_effect ops r (gs_server s)\<rparr> else t\<lparr>gs_panel := op_undo ops k u (gs_panel s)\<rparr>)"

definition loaded_system :: "'p \<Rightarrow> 'k list \<Rightarrow> ('p, 'k, 'u, 'r) grant_system" where
  "loaded_system p held = \<lparr>gs_panel = p, gs_server = held, gs_pending = []\<rparr>"

fun one_per :: "('k \<Rightarrow> bool) \<Rightarrow> ('k \<Rightarrow> 'k \<Rightarrow> bool) \<Rightarrow> 'k grant_event \<Rightarrow> ('p, 'k, 'u, 'r) grant_system \<Rightarrow> bool" where
  \<comment> \<open>the events under a discipline: a switch is clicked when every request under way is apart from it\<close>
  "one_per valid apart (Clicked k) s \<longleftrightarrow> valid k \<and> (\<forall>(k', _)\<in>set (gs_pending s). apart k' k)"
| "one_per valid apart (Answered i fine) s \<longleftrightarrow> i < length (gs_pending s)"

definition flip :: "'a \<Rightarrow> 'a list \<Rightarrow> 'a list" where
  \<comment> \<open>\<open>has(k) ? delete(k) : add(k)\<close>\<close>
  "flip k s = (if k \<in> set s then js_delete k s else js_add k s)"

definition put_back :: "'a \<Rightarrow> bool \<Rightarrow> 'a list \<Rightarrow> 'a list" where
  "put_back k was s = (if was then js_add k s else js_delete k s)"

subsection \<open>Global permissions\<close>

type_synonym global_key = "string \<times> string"      \<comment> \<open>role and permission\<close>

definition globals_of :: "rights \<Rightarrow> string \<Rightarrow> string list" where
  "globals_of r roleId = or_nil (obj_get (globalPerms r) roleId)"

definition toggleGlobalPerm :: "global_key \<Rightarrow> rights \<Rightarrow> rights" where
  "toggleGlobalPerm = (\<lambda>(roleId, perm) r. r\<lparr>globalPerms := obj_put roleId (flip perm (globals_of r roleId)) (globalPerms r)\<rparr>)"

definition global_failed :: "global_key \<Rightarrow> bool \<Rightarrow> rights \<Rightarrow> rights" where
  "global_failed = (\<lambda>(roleId, perm) was r. r\<lparr>globalPerms := obj_put roleId (put_back perm was (globals_of r roleId)) (globalPerms r)\<rparr>)"

definition global_request :: "rights \<Rightarrow> global_key \<Rightarrow> access_call" where
  "global_request r = (\<lambda>(roleId, perm). if perm \<in> set (globals_of r roleId) then RemoveRoleGlobalPermission roleId perm
     else AddRoleGlobalPermission roleId (Some (JStr perm)))"

fun global_effect :: "access_call \<Rightarrow> global_key list \<Rightarrow> global_key list" where
  "global_effect (AddRoleGlobalPermission roleId (Some (JStr perm))) held = js_add (roleId, perm) held"
| "global_effect (RemoveRoleGlobalPermission roleId perm) held = js_delete (roleId, perm) held"
| "global_effect _ held = held"

definition global_ops :: "bool \<Rightarrow> (rights, global_key, bool, access_call) panel_ops" where
  "global_ops canWrite = \<lparr>op_may = \<lambda>r k. canWrite \<and> obj_get (globalPerms r) (fst k) \<noteq> None,
     op_shown = \<lambda>r k. snd k \<in> set (globals_of r (fst k)), op_click = toggleGlobalPerm,
     op_note = \<lambda>r k. snd k \<in> set (globals_of r (fst k)), op_undo = global_failed, op_sent = global_request, op_effect = global_effect\<rparr>"

subsection \<open>Role-only scopes\<close>

type_synonym scope_key = "string \<times> string \<times> string"      \<comment> \<open>role, scope and permission\<close>

definition scope_set :: "rights \<Rightarrow> string \<Rightarrow> string \<Rightarrow> string list" where
  "scope_set r roleId sc = or_nil (obj_get (or_nil (obj_get (scopePerms r) roleId)) sc)"

definition put_scope :: "string \<Rightarrow> string \<Rightarrow> string list \<Rightarrow> rights \<Rightarrow> rights" where
  "put_scope roleId sc s r = r\<lparr>scopePerms := obj_put roleId (obj_put sc s (or_nil (obj_get (scopePerms r) roleId))) (scopePerms r)\<rparr>"

definition toggleScopePerm :: "scope_key \<Rightarrow> rights \<Rightarrow> rights" where
  "toggleScopePerm = (\<lambda>(roleId, sc, perm) r. put_scope roleId sc (flip perm (scope_set r roleId sc)) r)"

definition scope_failed :: "scope_key \<Rightarrow> string list \<Rightarrow> rights \<Rightarrow> rights" where
  \<comment> \<open>the whole set of the time of the click is put back\<close>
  "scope_failed = (\<lambda>(roleId, sc, perm) cur r. put_scope roleId sc cur r)"

definition scope_request :: "rights \<Rightarrow> scope_key \<Rightarrow> access_call" where
  "scope_request r = (\<lambda>(roleId, sc, perm). if perm \<in> set (scope_set r roleId sc) then RemoveRoleScopePermission roleId sc perm
     else AddRoleScopePermission roleId sc (Some (JStr perm)))"

fun scope_effect :: "access_call \<Rightarrow> scope_key list \<Rightarrow> scope_key list" where
  "scope_effect (AddRoleScopePermission roleId sc (Some (JStr perm))) held = js_add (roleId, sc, perm) held"
| "scope_effect (RemoveRoleScopePermission roleId sc perm) held = js_delete (roleId, sc, perm) held"
| "scope_effect _ held = held"

definition scope_ops :: "bool \<Rightarrow> (rights, scope_key, string list, access_call) panel_ops" where
  "scope_ops canWrite = \<lparr>op_may = \<lambda>r (roleId, sc, perm). canWrite \<and> \<not> scope_pending roleId sc r,
     op_shown = \<lambda>r (roleId, sc, perm). perm \<in> set (scope_set r roleId sc), op_click = toggleScopePerm,
     op_note = \<lambda>r (roleId, sc, perm). scope_set r roleId sc, op_undo = scope_failed, op_sent = scope_request, op_effect = scope_effect\<rparr>"

subsection \<open>Node types and transitions\<close>

type_synonym policy_key = "string \<times> string \<times> string option"      \<comment> \<open>permission, node type and transition\<close>

record policy_row =
  po_permissionCode :: "string option"
  po_permission_code :: "string option"
  po_nodeTypeId :: "string option"
  po_node_type_id :: "string option"
  po_transitionId :: "string option"
  po_transition_id :: "string option"

definition pKey :: "policy_key \<Rightarrow> string" where
  "pKey = (\<lambda>(perm, nt, tr). perm @ ''|'' @ nt @ ''|'' @ or_nil tr)"

definition policy_of :: "policy_row \<Rightarrow> policy_key" where
  \<comment> \<open>a row has a permission\<close>
  "policy_of r = (or_nil (or_field (po_permissionCode r) (po_permission_code r)), or_nil (or_field (po_nodeTypeId r) (po_node_type_id r)),
     or_field (or_field (po_transitionId r) (po_transition_id r)) None)"

definition policies_loaded :: "policy_row list option \<Rightarrow> string list option" where
  \<comment> \<open>the state \<open>policies\<close>: None while it is loading\<close>
  "policies_loaded rows = Some (js_set_of (map (pKey \<circ> policy_of) (or_nil rows)))"

definition togglePerm :: "policy_key \<Rightarrow> string list option \<Rightarrow> string list option" where
  "togglePerm k s = Some (flip (pKey k) (or_nil s))"

definition policy_failed :: "policy_key \<Rightarrow> bool \<Rightarrow> string list option \<Rightarrow> string list option" where
  "policy_failed k was s = Some (put_back (pKey k) was (or_nil s))"

definition or_json_null :: "string option \<Rightarrow> json" where
  "or_json_null s = (case s of Some t \<Rightarrow> if t = [] then JNull else JStr t | None \<Rightarrow> JNull)"

definition policy_request :: "string \<Rightarrow> string list option \<Rightarrow> policy_key \<Rightarrow> registry_call" where
  "policy_request roleId s = (\<lambda>(perm, nt, tr). if pKey (perm, nt, tr) \<in> set (or_nil s)
     then RemovePermissionGrant nt perm (Some (JStr roleId)) (Some (or_json_null tr))
     else AddPermissionGrant nt perm (Some (JStr roleId)) (Some (or_json_null tr)))"

fun json_text :: "json option \<Rightarrow> string option" where
  "json_text (Some (JStr s)) = Some s"
| "json_text _ = None"

fun policy_effect :: "string \<Rightarrow> registry_call \<Rightarrow> policy_key list \<Rightarrow> policy_key list" where
  \<comment> \<open>the grants of the role \<open>roleId\<close>\<close>
  "policy_effect roleId (AddPermissionGrant nt perm r tr) held = (if r = Some (JStr roleId) then js_add (perm, nt, json_text tr) held else held)"
| "policy_effect roleId (RemovePermissionGrant nt perm r tr) held = (if r = Some (JStr roleId) then js_delete (perm, nt, json_text tr) held else held)"
| "policy_effect roleId _ held = held"

definition policy_ops :: "bool \<Rightarrow> string \<Rightarrow> (string list option, policy_key, bool, registry_call) panel_ops" where
  "policy_ops canWrite roleId = \<lparr>op_may = \<lambda>s k. canWrite \<and> s \<noteq> None, op_shown = \<lambda>s k. pKey k \<in> set (or_nil s), op_click = togglePerm,
     op_note = \<lambda>s k. pKey k \<in> set (or_nil s), op_undo = policy_failed, op_sent = policy_request roleId, op_effect = policy_effect roleId\<rparr>"

definition node_id :: "string option \<times> string option \<Rightarrow> string" where
  \<comment> \<open>\<open>nt.id || nt.ID\<close>\<close>
  "node_id = (\<lambda>(a, b). or_nil (or_field a b))"

record node_type =
  nt_ids :: "string option \<times> string option"
  nt_lifecycles :: "string option \<times> string option"

record rights_transition =
  tr_id :: string
  tr_lifecycleId :: string

definition node_cells :: "permission list \<Rightarrow> node_type list \<Rightarrow> policy_key list" where
  \<comment> \<open>the switches of the first table\<close>
  "node_cells nodePerms nodeTypes = concat (map (\<lambda>nt. map (\<lambda>p. (or_nil (permissionCode p), node_id (nt_ids nt), None)) nodePerms) nodeTypes)"

definition lifecycle_cells :: "permission list \<Rightarrow> node_type list \<Rightarrow> rights_transition list \<Rightarrow> policy_key list" where
  \<comment> \<open>the switches of the second table, \<open>lcPerms[0]\<close> for every column of the lifecycle\<close>
  "lifecycle_cells lcPerms nodeTypes transitions =
     (if lcPerms = [] \<or> transitions = [] then []
      else concat (map (\<lambda>nt. List.map_filter (\<lambda>t.
             if tr_lifecycleId t \<noteq> node_id (nt_lifecycles nt) then None
             else Some (or_nil (permissionCode (hd lcPerms)), node_id (nt_ids nt), Some (tr_id t))) transitions)
           (filter (\<lambda>nt. node_id (nt_lifecycles nt) \<noteq> []) nodeTypes)))"

definition matrix_cells :: "permission list \<Rightarrow> permission list \<Rightarrow> node_type list \<Rightarrow> rights_transition list \<Rightarrow> policy_key list" where
  "matrix_cells nodePerms lcPerms nodeTypes transitions =
     (if nodeTypes = [] then [] else node_cells nodePerms nodeTypes @ lifecycle_cells lcPerms nodeTypes transitions)"

subsection \<open>Scopes with a key\<close>

type_synonym grant_key = "string \<times> string"      \<comment> \<open>permission and value of the key\<close>

record grant_row =
  gr_permission_code :: string
  gr_keys :: "string jsobj"

definition grantKey :: "grant_key \<Rightarrow> string" where
  "grantKey = (\<lambda>(perm, v). perm @ ''|'' @ v)"

definition grants_loaded :: "string \<Rightarrow> grant_row list option \<Rightarrow> string list option" where
  "grants_loaded keyName rows = Some (js_set_of (map (\<lambda>r. grantKey (gr_permission_code r,
     case obj_get (gr_keys r) keyName of Some v \<Rightarrow> v | None \<Rightarrow> ''undefined'')) (or_nil rows)))"

definition toggle_grant :: "grant_key \<Rightarrow> string list option \<Rightarrow> string list option" where
  "toggle_grant k s = Some (flip (grantKey k) (or_nil s))"

definition grant_failed :: "grant_key \<Rightarrow> bool \<Rightarrow> string list option \<Rightarrow> string list option" where
  "grant_failed k was s = Some (put_back (grantKey k) was (or_nil s))"

definition grant_body :: "string \<Rightarrow> string \<Rightarrow> json \<Rightarrow> string \<Rightarrow> grant_key \<Rightarrow> json" where
  "grant_body scopeCode roleId psId keyName = (\<lambda>(perm, v).
     JObj [(''permissionCode'', JStr perm), (''scopeCode'', JStr scopeCode), (''roleId'', JStr roleId),
           (''projectSpaceId'', psId), (''keys'', JObj [(keyName, JStr v)])])"

definition grant_request :: "string \<Rightarrow> string \<Rightarrow> json \<Rightarrow> string \<Rightarrow> string list option \<Rightarrow> grant_key \<Rightarrow> access_call" where
  "grant_request scopeCode roleId ps keyName s k =
     (if grantKey k \<in> set (or_nil s) then RemoveScopedGrant (Some (grant_body scopeCode roleId ps keyName k))
      else AddScopedGrant (Some (grant_body scopeCode roleId ps keyName k)))"

definition body_key :: "string \<Rightarrow> json option \<Rightarrow> grant_key option" where
  "body_key keyName b = (case (json_text (jprop b ''permissionCode''), json_text (jprop (jprop b ''keys'') keyName)) of
     (Some perm, Some v) \<Rightarrow> Some (perm, v) | _ \<Rightarrow> None)"

fun grant_effect :: "string \<Rightarrow> access_call \<Rightarrow> grant_key list \<Rightarrow> grant_key list" where
  \<comment> \<open>the grants of one role, scope and project space\<close>
  "grant_effect keyName (AddScopedGrant b) held = (case body_key keyName b of Some k \<Rightarrow> js_add k held | None \<Rightarrow> held)"
| "grant_effect keyName (RemoveScopedGrant b) held = (case body_key keyName b of Some k \<Rightarrow> js_delete k held | None \<Rightarrow> held)"
| "grant_effect keyName _ held = held"

definition grant_ops ::
  "bool \<Rightarrow> string \<Rightarrow> string \<Rightarrow> json \<Rightarrow> string \<Rightarrow> (string list option, grant_key, bool, access_call) panel_ops" where
  "grant_ops canWrite scopeCode roleId ps keyName = \<lparr>op_may = \<lambda>s k. canWrite \<and> s \<noteq> None, op_shown = \<lambda>s k. grantKey k \<in> set (or_nil s),
     op_click = toggle_grant, op_note = \<lambda>s k. grantKey k \<in> set (or_nil s), op_undo = grant_failed,
     op_sent = grant_request scopeCode roleId ps keyName, op_effect = grant_effect keyName\<rparr>"

section \<open>The contract of a panel\<close>

lemma set_flip [simp]: "set (flip k s) = (if k \<in> set s then set s - {k} else insert k (set s))"
  by (simp add: flip_def)

lemma set_put_back [simp]: "set (put_back k was s) = (if was then insert k (set s) else set s - {k})"
  by (simp add: put_back_def)

text \<open>The laws of a panel: \<open>valid\<close> are the switches it has, \<open>apart\<close> the pairs of switches whose requests may
  be under way together. A click turns its own switch over and no other, a failure turns it back as long
  as the switches that are not apart from it have stayed, and the request sent does to the server what
  the click showed.\<close>

locale optimistic =
  fixes ops :: "('p, 'k, 'u, 'r) panel_ops" and valid :: "'k \<Rightarrow> bool" and apart :: "'k \<Rightarrow> 'k \<Rightarrow> bool"
    and start :: 'p and held :: "'k list"
  assumes apart_sym: "apart k k' \<Longrightarrow> apart k' k"
    and not_apart_self: "\<not> apart k k"
    and click_law: "valid k \<Longrightarrow> valid k' \<Longrightarrow> op_shown ops (op_click ops k p) k' \<longleftrightarrow> (if k' = k then \<not> op_shown ops p k else op_shown ops p k')"
    and undo_law: "valid k \<Longrightarrow> valid k' \<Longrightarrow>
      (\<And>k''. valid k'' \<Longrightarrow> \<not> apart k k'' \<Longrightarrow> op_shown ops p k'' \<longleftrightarrow> op_shown ops (op_click ops k q) k'') \<Longrightarrow>
      op_shown ops (op_undo ops k (op_note ops q k) p) k' \<longleftrightarrow> (if k' = k then op_shown ops q k else op_shown ops p k')"
    and effect_law: "valid k \<Longrightarrow> valid k' \<Longrightarrow>
      k' \<in> set (op_effect ops (op_sent ops q k) srv) \<longleftrightarrow> (if k' = k then \<not> op_shown ops q k else k' \<in> set srv)"
    and start_law: "valid k \<Longrightarrow> op_shown ops start k \<longleftrightarrow> k \<in> set held"
begin

definition under_way :: "('p, 'k, 'u, 'r) grant_system \<Rightarrow> 'k \<times> 'u \<times> 'r \<Rightarrow> bool" where
  "under_way s = (\<lambda>(k, u, r). valid k \<and> (\<exists>q. u = op_note ops q k \<and> r = op_sent ops q k
     \<and> (k \<in> set (gs_server s) \<longleftrightarrow> op_shown ops q k)
     \<and> (\<forall>k'. valid k' \<longrightarrow> \<not> apart k k' \<longrightarrow> (op_shown ops (gs_panel s) k' \<longleftrightarrow> op_shown ops (op_click ops k q) k'))))"

definition panel_inv :: "('p, 'k, 'u, 'r) grant_system \<Rightarrow> bool" where
  "panel_inv s \<longleftrightarrow> sorted_wrt (\<lambda>x y. apart (fst x) (fst y)) (gs_pending s) \<and> (\<forall>x\<in>set (gs_pending s). under_way s x)
     \<and> (\<forall>k. valid k \<longrightarrow> k \<notin> fst ` set (gs_pending s) \<longrightarrow> (op_shown ops (gs_panel s) k \<longleftrightarrow> k \<in> set (gs_server s)))"

lemma under_way_kept:
  assumes "under_way s x" "fst x \<in> set (gs_server t) \<longleftrightarrow> fst x \<in> set (gs_server s)"
    and "\<And>k'. valid k' \<Longrightarrow> \<not> apart (fst x) k' \<Longrightarrow> op_shown ops (gs_panel t) k' \<longleftrightarrow> op_shown ops (gs_panel s) k'"
  shows "under_way t x"
proof -
  obtain k u r where x: "x = (k, u, r)" by (metis prod_cases3)
  with assms(1) obtain q where "valid k" "u = op_note ops q k" "r = op_sent ops q k" "k \<in> set (gs_server s) \<longleftrightarrow> op_shown ops q k"
    "\<And>k'. valid k' \<Longrightarrow> \<not> apart k k' \<Longrightarrow> op_shown ops (gs_panel s) k' \<longleftrightarrow> op_shown ops (op_click ops k q) k'"
    unfolding under_way_def by blast
  with assms(2,3) x show ?thesis unfolding under_way_def by auto
qed

lemma click_keeps:
  assumes s: "panel_inv s" and v: "valid k" and a: "\<And>x. x \<in> set (gs_pending s) \<Longrightarrow> apart (fst x) k"
  shows "panel_inv (grant_step ops (Clicked k) s)"
proof (cases "op_may ops (gs_panel s) k")
  case True
  have new: "k \<notin> fst ` set (gs_pending s)" using a not_apart_self by force
  have old: "under_way (grant_step ops (Clicked k) s) x" if x: "x \<in> set (gs_pending s)" for x
  proof -
    have "k' \<noteq> k" if "\<not> apart (fst x) k'" for k' using that a [OF x] by blast
    moreover have "under_way s x" using s x by (simp add: panel_inv_def)
    ultimately show ?thesis using True click_law [OF v] by (intro under_way_kept [OF \<open>under_way s x\<close>]) (auto simp: Let_def)
  qed
  have mine: "under_way (grant_step ops (Clicked k) s) (k, op_note ops (gs_panel s) k, op_sent ops (gs_panel s) k)"
    using s v new True unfolding panel_inv_def under_way_def by (auto simp: Let_def)
  show ?thesis using s old mine new a True click_law [OF v] unfolding panel_inv_def
    by (auto simp: Let_def sorted_wrt_append)
qed (use s in simp)

lemma answer_split:
  assumes s: "panel_inv s" and i: "i < length (gs_pending s)" and x: "gs_pending s ! i = (k, u, r)"
  shows "under_way s (k, u, r)" "\<And>y. y \<in> set (without_nth i (gs_pending s)) \<Longrightarrow> apart (fst y) k"
    "fst ` set (gs_pending s) = insert k (fst ` set (without_nth i (gs_pending s)))"
    "sorted_wrt (\<lambda>x y. apart (fst x) (fst y)) (without_nth i (gs_pending s))"
proof -
  have m: "set (gs_pending s) = insert (k, u, r) (set (without_nth i (gs_pending s)))" using set_without_nth [OF i] x by simp
  then show "under_way s (k, u, r)" using s by (auto simp: panel_inv_def)
  show "fst ` set (gs_pending s) = insert k (fst ` set (without_nth i (gs_pending s)))" by (simp add: m)
  have w: "sorted_wrt (\<lambda>x y. apart (fst x) (fst y)) (gs_pending s)" using s by (simp add: panel_inv_def)
  show "sorted_wrt (\<lambda>x y. apart (fst x) (fst y)) (without_nth i (gs_pending s))" by (rule sorted_wrt_without_nth(1) [OF i w])
  show "apart (fst y) k" if "y \<in> set (without_nth i (gs_pending s))" for y
    using sorted_wrt_without_nth(2) [OF i w that] x apart_sym by auto
qed

lemma success_keeps:
  assumes s: "panel_inv s" and i: "i < length (gs_pending s)"
  shows "panel_inv (grant_step ops (Answered i True) s)"
proof -
  obtain k u r where x: "gs_pending s ! i = (k, u, r)" by (metis prod_cases3)
  note split = answer_split [OF s i x]
  obtain q where q: "valid k" "u = op_note ops q k" "r = op_sent ops q k" "k \<in> set (gs_server s) \<longleftrightarrow> op_shown ops q k"
    "\<And>k'. valid k' \<Longrightarrow> \<not> apart k k' \<Longrightarrow> op_shown ops (gs_panel s) k' \<longleftrightarrow> op_shown ops (op_click ops k q) k'"
    using split(1) unfolding under_way_def by blast
  have srv: "k' \<in> set (op_effect ops r (gs_server s)) \<longleftrightarrow> (if k' = k then \<not> op_shown ops q k else k' \<in> set (gs_server s))"
    if "valid k'" for k' using effect_law [OF q(1) that] q(3) by simp
  have here: "op_shown ops (gs_panel s) k \<longleftrightarrow> \<not> op_shown ops q k"
    using q(5) [OF q(1) not_apart_self] click_law [OF q(1) q(1)] by simp
  have keep: "under_way (grant_step ops (Answered i True) s) y" if y: "y \<in> set (without_nth i (gs_pending s))" for y
  proof -
    have "fst y \<noteq> k" using split(2) [OF y] not_apart_self by metis
    moreover have "under_way s y" using s set_without_nth [OF i] y by (auto simp: panel_inv_def)
    moreover have "valid (fst y)" using \<open>under_way s y\<close> by (auto simp: under_way_def)
    ultimately show ?thesis using srv x by (intro under_way_kept [OF \<open>under_way s y\<close>]) (auto simp: Let_def)
  qed
  show ?thesis using s keep split(3,4) srv here q(1) x unfolding panel_inv_def by (auto simp: Let_def)
qed

lemma failure_keeps:
  assumes s: "panel_inv s" and i: "i < length (gs_pending s)"
  shows "panel_inv (grant_step ops (Answered i False) s)"
proof -
  obtain k u r where x: "gs_pending s ! i = (k, u, r)" by (metis prod_cases3)
  note split = answer_split [OF s i x]
  obtain q where q: "valid k" "u = op_note ops q k" "r = op_sent ops q k" "k \<in> set (gs_server s) \<longleftrightarrow> op_shown ops q k"
    "\<And>k'. valid k' \<Longrightarrow> \<not> apart k k' \<Longrightarrow> op_shown ops (gs_panel s) k' \<longleftrightarrow> op_shown ops (op_click ops k q) k'"
    using split(1) unfolding under_way_def by blast
  have shown: "op_shown ops (op_undo ops k u (gs_panel s)) k' \<longleftrightarrow> (if k' = k then op_shown ops q k else op_shown ops (gs_panel s) k')"
    if "valid k'" for k' using undo_law [OF q(1) that q(5)] q(2) by simp
  have keep: "under_way (grant_step ops (Answered i False) s) y" if y: "y \<in> set (without_nth i (gs_pending s))" for y
  proof -
    have "k' \<noteq> k" if "\<not> apart (fst y) k'" for k' using that split(2) [OF y] by blast
    moreover have "under_way s y" using s set_without_nth [OF i] y by (auto simp: panel_inv_def)
    ultimately show ?thesis using shown x by (intro under_way_kept [OF \<open>under_way s y\<close>]) (auto simp: Let_def)
  qed
  show ?thesis using s keep split(3,4) shown q x unfolding panel_inv_def by (auto simp: Let_def)
qed

lemma start_inv: "panel_inv (loaded_system start held)"
  by (simp add: panel_inv_def loaded_system_def start_law)

lemma step_keeps:
  assumes "panel_inv s" "one_per valid apart e s"
  shows "panel_inv (grant_step ops e s)"
proof (cases e)
  case (Clicked k)
  show ?thesis unfolding Clicked by (rule click_keeps) (use assms Clicked in auto)
next
  case (Answered i fine)
  with assms show ?thesis by (cases fine) (simp_all add: success_keeps failure_keeps del: grant_step.simps)
qed

end

sublocale optimistic \<subseteq> machine_invariant "one_per valid apart" "grant_step ops" "loaded_system start held" "\<lambda>_. panel_inv"
  by unfold_locales (auto intro: start_inv step_keeps)

context optimistic
begin

text \<open>A switch without a request under way shows what the server holds; one with a request shows the
  opposite, which is what the request asks for.\<close>

lemma shows_what_is_held:
  assumes "run_machine (one_per valid apart) (grant_step ops) es (loaded_system start held) = Some s" "valid k"
  shows "op_shown ops (gs_panel s) k \<longleftrightarrow> (k \<in> set (gs_server s)) = (k \<notin> fst ` set (gs_pending s))"
proof (cases "k \<in> fst ` set (gs_pending s)")
  case True
  then obtain u r where "(k, u, r) \<in> set (gs_pending s)" by auto
  then have "under_way s (k, u, r)" using holds [OF assms(1)] by (auto simp: panel_inv_def)
  then show ?thesis using True not_apart_self click_law [OF assms(2,2)] assms(2) unfolding under_way_def by auto
qed (use holds [OF assms(1)] assms(2) in \<open>auto simp: panel_inv_def\<close>)

end

section \<open>The four panels keep the contract\<close>

definition open_rights :: rights where
  "open_rights = \<lparr>expandedRole = None, globalPerms = [], scopePerms = []\<rparr>"

definition globals_loaded :: "(string \<times> (string option \<times> string option) list option) list \<Rightarrow> rights" where
  \<comment> \<open>the answers of the roles opened so far\<close>
  "globals_loaded answers = fold (\<lambda>(roleId, rows). role_globals_arrived roleId rows) answers open_rights"

definition globals_held :: "rights \<Rightarrow> global_key list" where
  "globals_held r = concat (map (\<lambda>(roleId, codes). map (Pair roleId) codes) (globalPerms r))"

lemma globals_loaded_distinct: "distinct (map fst (globalPerms (globals_loaded answers)))"
  unfolding globals_loaded_def
  by (rule fold_keeps) (auto simp: open_rights_def role_globals_arrived_def obj_put_distinct)

lemma or_nil_get: "distinct (map fst ob) \<Longrightarrow> x \<in> set (or_nil (obj_get ob k)) \<longleftrightarrow> (\<exists>v. (k, v) \<in> set ob \<and> x \<in> set v)"
  by (cases "obj_get ob k") (simp_all add: obj_entries_get)

lemma globals_held_iff:
  assumes "distinct (map fst (globalPerms r))"
  shows "(roleId, perm) \<in> set (globals_held r) \<longleftrightarrow> perm \<in> set (globals_of r roleId)"
  unfolding globals_of_def or_nil_get [OF assms] by (force simp: globals_held_def)

interpretation global_panel: optimistic "global_ops canWrite" "\<lambda>_. True" "(\<noteq>)" "globals_loaded answers" "globals_held (globals_loaded answers)"
  for canWrite answers
  by unfold_locales (auto simp: global_ops_def toggleGlobalPerm_def global_failed_def globals_of_def global_request_def
    globals_held_iff [OF globals_loaded_distinct, unfolded globals_of_def] split: if_splits)

definition scopes_loaded :: "(string \<times> (string \<times> (string option \<times> string option) list option) list) list \<Rightarrow> rights" where
  "scopes_loaded answers = fold (\<lambda>(roleId, scopes). role_scopes_arrived roleId scopes) answers open_rights"

definition scopes_held :: "rights \<Rightarrow> scope_key list" where
  "scopes_held r = concat (map (\<lambda>(roleId, scopes). concat (map (\<lambda>(sc, codes). map (\<lambda>perm. (roleId, sc, perm)) codes) scopes)) (scopePerms r))"

lemma fold_obj_put_distinct: "distinct (map fst ob) \<Longrightarrow> distinct (map fst (fold (\<lambda>x. obj_put (f x) (g x)) xs ob))"
  by (induction xs arbitrary: ob) (simp_all add: obj_put_distinct)

definition scopes_distinct :: "rights \<Rightarrow> bool" where
  "scopes_distinct r \<longleftrightarrow> distinct (map fst (scopePerms r)) \<and> (\<forall>ob\<in>snd ` set (scopePerms r). distinct (map fst ob))"

lemma snd_obj_put: "snd ` set (obj_put k v ob) \<subseteq> insert v (snd ` set ob)"
  using set_obj_put [of k v ob] by auto

lemma scopes_loaded_distinct: "scopes_distinct (scopes_loaded answers)"
  unfolding scopes_loaded_def
proof (rule fold_keeps)
  fix x :: "string \<times> (string \<times> (string option \<times> string option) list option) list" and r
  assume r: "scopes_distinct r"
  obtain roleId scopes where x: "x = (roleId, scopes)" by fastforce
  have "distinct (map fst (fold (\<lambda>(sc, rows). obj_put sc (role_codes rows)) scopes []))"
    using fold_obj_put_distinct [of "[]" fst "\<lambda>(sc, rows). role_codes rows" scopes] by (simp add: case_prod_unfold)
  with r snd_obj_put show "scopes_distinct ((case x of (roleId, scopes) \<Rightarrow> role_scopes_arrived roleId scopes) r)"
    by (fastforce simp: x scopes_distinct_def role_scopes_arrived_def obj_put_distinct)
qed (simp add: open_rights_def scopes_distinct_def)

lemma mem_concat_pairs: "y \<in> set (concat (map (\<lambda>(k, v). f k v) xs)) \<longleftrightarrow> (\<exists>k v. (k, v) \<in> set xs \<and> y \<in> set (f k v))"
  by (induction xs) auto

lemma scopes_held_iff:
  assumes "scopes_distinct r"
  shows "(roleId, sc, perm) \<in> set (scopes_held r) \<longleftrightarrow> perm \<in> set (scope_set r roleId sc)"
proof -
  define ob where "ob = or_nil (obj_get (scopePerms r) roleId)"
  have d: "distinct (map fst (scopePerms r))" using assms by (simp add: scopes_distinct_def)
  have "distinct (map fst ob)"
    using assms map_of_SomeD [of "scopePerms r" roleId]
    by (cases "obj_get (scopePerms r) roleId") (force simp: scopes_distinct_def obj_get_def ob_def)+
  then have "perm \<in> set (scope_set r roleId sc) \<longleftrightarrow> (\<exists>codes. (sc, codes) \<in> set ob \<and> perm \<in> set codes)"
    by (simp add: scope_set_def or_nil_get flip: ob_def)
  also have "\<dots> \<longleftrightarrow> (\<exists>codes scopes. (roleId, scopes) \<in> set (scopePerms r) \<and> (sc, codes) \<in> set scopes \<and> perm \<in> set codes)"
    unfolding ob_def or_nil_get [OF d] by blast
  also have "\<dots> \<longleftrightarrow> (roleId, sc, perm) \<in> set (scopes_held r)"
    unfolding scopes_held_def mem_concat_pairs by (simp add: image_iff) blast
  finally show ?thesis by simp
qed

definition other_scope :: "scope_key \<Rightarrow> scope_key \<Rightarrow> bool" where
  "other_scope = (\<lambda>(roleId, sc, _) (roleId', sc', _). (roleId, sc) \<noteq> (roleId', sc'))"

lemma scope_set_put [simp]: "scope_set (put_scope roleId sc s r) roleId' sc' = (if (roleId', sc') = (roleId, sc) then s else scope_set r roleId' sc')"
  by (auto simp: scope_set_def put_scope_def)

interpretation scope_panel: optimistic "scope_ops canWrite" "\<lambda>_. True" other_scope "scopes_loaded answers" "scopes_held (scopes_loaded answers)"
  for canWrite answers
proof unfold_locales
  fix k k' p q
  assume stayed: "\<And>k''. True \<Longrightarrow> \<not> other_scope k k'' \<Longrightarrow> op_shown (scope_ops canWrite) p k'' \<longleftrightarrow> op_shown (scope_ops canWrite) (op_click (scope_ops canWrite) k q) k''"
  obtain roleId sc perm where k: "k = (roleId, sc, perm)" by (metis prod_cases3)
  show "op_shown (scope_ops canWrite) (op_undo (scope_ops canWrite) k (op_note (scope_ops canWrite) q k) p) k'
     \<longleftrightarrow> (if k' = k then op_shown (scope_ops canWrite) q k else op_shown (scope_ops canWrite) p k')"
    using stayed [of "(roleId, sc, snd (snd k'))"]
    by (auto simp: k scope_ops_def other_scope_def scope_failed_def toggleScopePerm_def split: if_splits)
qed (auto simp: scope_ops_def other_scope_def toggleScopePerm_def scope_request_def scopes_held_iff [OF scopes_loaded_distinct] split: if_splits)

definition clean :: "string \<Rightarrow> bool" where
  "clean s \<longleftrightarrow> CHR ''|'' \<notin> set s"

definition clean_policy :: "policy_key \<Rightarrow> bool" where
  "clean_policy = (\<lambda>(perm, nt, tr). clean perm \<and> clean nt \<and> tr \<noteq> Some [] \<and> clean (or_nil tr))"

lemma split_pKey: "clean_policy k \<Longrightarrow> split_on CHR ''|'' (pKey k) = [fst k, fst (snd k), or_nil (snd (snd k))]"
  by (auto simp: clean_policy_def clean_def pKey_def split_on_append_sep split_on_no_sep split: prod.splits)

lemma pKey_eq_iff: "clean_policy k \<Longrightarrow> clean_policy k' \<Longrightarrow> pKey k = pKey k' \<longleftrightarrow> k = k'"
  using split_pKey [of k] split_pKey [of k'] by (cases "snd (snd k)"; cases "snd (snd k')") (auto simp: clean_policy_def prod_eq_iff)

lemma json_text_or_null: "tr \<noteq> Some [] \<Longrightarrow> json_text (Some (or_json_null tr)) = tr"
  by (cases tr) (simp_all add: or_json_null_def)

lemma policy_effect_sent [simp]:
  "clean_policy k \<Longrightarrow> policy_effect roleId (policy_request roleId s k) held = (if pKey k \<in> set (or_nil s) then js_delete k held else js_add k held)"
  by (cases k) (simp add: policy_request_def json_text_or_null clean_policy_def)

interpretation matrix_panel: optimistic "policy_ops canWrite roleId"
  "\<lambda>k. clean_policy k \<and> (\<forall>r\<in>set rows. clean_policy (policy_of r))" "(\<noteq>)" "policies_loaded (Some rows)" "map policy_of rows"
  for canWrite roleId rows
  by unfold_locales (auto simp: policy_ops_def togglePerm_def policy_failed_def policies_loaded_def pKey_eq_iff split: if_splits)

definition clean_grant :: "grant_key \<Rightarrow> bool" where
  "clean_grant = (\<lambda>(perm, v). clean perm \<and> clean v)"

lemma grantKey_eq_iff: "clean_grant k \<Longrightarrow> clean_grant k' \<Longrightarrow> grantKey k = grantKey k' \<longleftrightarrow> k = k'"
proof -
  have "split_on CHR ''|'' (grantKey k) = [fst k, snd k]" if "clean_grant k" for k
    using that by (auto simp: clean_grant_def clean_def grantKey_def split_on_append_sep split_on_no_sep split: prod.splits)
  then show "clean_grant k \<Longrightarrow> clean_grant k' \<Longrightarrow> grantKey k = grantKey k' \<longleftrightarrow> k = k'" by (metis list.inject prod_eq_iff)
qed

definition grant_of :: "string \<Rightarrow> grant_row \<Rightarrow> grant_key" where
  "grant_of keyName r = (gr_permission_code r, case obj_get (gr_keys r) keyName of Some v \<Rightarrow> v | None \<Rightarrow> ''undefined'')"

lemma body_key_grant_body [simp]: "body_key keyName (Some (grant_body scopeCode roleId ps keyName k)) = Some k"
  by (cases k) (simp add: body_key_def grant_body_def jprop_def obj_get_def)

interpretation keyed_panel: optimistic "grant_ops canWrite scopeCode roleId ps keyName"
  "\<lambda>k. clean_grant k \<and> (\<forall>r\<in>set rows. clean_grant (grant_of keyName r))" "(\<noteq>)" "grants_loaded keyName (Some rows)" "map (grant_of keyName) rows"
  for canWrite scopeCode roleId ps keyName rows
  by unfold_locales (auto simp: grant_ops_def toggle_grant_def grant_failed_def grant_request_def grants_loaded_def grantKey_eq_iff
    grant_of_def [symmetric] split: if_splits)

section \<open>What the switches promise\<close>

lemma global_switches_agree:
  assumes "run_machine (one_per (\<lambda>_. True) (\<noteq>)) (grant_step (global_ops canWrite)) es
      (loaded_system (globals_loaded answers) (globals_held (globals_loaded answers))) = Some s"
  shows "op_shown (global_ops canWrite) (gs_panel s) k \<longleftrightarrow> (k \<in> set (gs_server s)) = (k \<notin> fst ` set (gs_pending s))"
  by (rule global_panel.shows_what_is_held [OF assms TrueI])

lemma keyed_switches_agree:
  assumes "run_machine (one_per clean_grant (\<noteq>)) (grant_step (grant_ops canWrite scopeCode roleId ps keyName)) es
      (loaded_system (grants_loaded keyName (Some rows)) (map (grant_of keyName) rows)) = Some s"
    and "\<forall>r\<in>set rows. clean_grant (grant_of keyName r)" "clean_grant k"
  shows "op_shown (grant_ops canWrite scopeCode roleId ps keyName) (gs_panel s) k \<longleftrightarrow> (k \<in> set (gs_server s)) = (k \<notin> fst ` set (gs_pending s))"
  using keyed_panel.shows_what_is_held [where rows = rows and es = es and s = s and k = k] assms by simp

text \<open>C39. The matrix of node types and transitions shows what the server holds: when the names hold no bar
  and a switch is clicked only after its last request was answered, then in every order of clicks,
  answers and failures a switch without a request under way shows whether the server holds the grant,
  and one with a request shows the opposite, which is what the request asks for.\<close>

theorem matrix_switches_agree:
  assumes "run_machine (one_per clean_policy (\<noteq>)) (grant_step (policy_ops canWrite roleId)) es
      (loaded_system (policies_loaded (Some rows)) (map policy_of rows)) = Some s"
    and "\<forall>r\<in>set rows. clean_policy (policy_of r)" "clean_policy k"
  shows "op_shown (policy_ops canWrite roleId) (gs_panel s) k \<longleftrightarrow> (k \<in> set (gs_server s)) = (k \<notin> fst ` set (gs_pending s))"
  using matrix_panel.shows_what_is_held [where rows = rows and es = es and s = s and k = k] assms by simp

definition row1 :: policy_row where
  "row1 = \<lparr>po_permissionCode = None, po_permission_code = Some ''P'', po_nodeTypeId = Some ''N'', po_node_type_id = None,
     po_transitionId = None, po_transition_id = None\<rparr>"

theorem matrix_switches_agree_witness:
  "\<exists>s. run_machine (one_per clean_policy (\<noteq>)) (grant_step (policy_ops True ''r''))
      [Clicked (''P'', ''N'', None), Clicked (''P'', ''N'', Some ''T''), Answered 0 False, Answered 0 True]
      (loaded_system (policies_loaded (Some [row1])) (map policy_of [row1])) = Some s
    \<and> (op_shown (policy_ops True ''r'') (gs_panel s) (''P'', ''N'', Some ''T'') \<longleftrightarrow> ((''P'', ''N'', Some ''T'') \<in> set (gs_server s)) = ((''P'', ''N'', Some ''T'') \<notin> fst ` set (gs_pending s)))"
proof -
  let ?run = "run_machine (one_per clean_policy (\<noteq>)) (grant_step (policy_ops True ''r''))
      [Clicked (''P'', ''N'', None), Clicked (''P'', ''N'', Some ''T''), Answered 0 False, Answered 0 True]
      (loaded_system (policies_loaded (Some [row1])) (map policy_of [row1]))"
  have "?run \<noteq> None" by code_simp
  then obtain s where s: "?run = Some s" by blast
  have "\<forall>r\<in>set [row1]. clean_policy (policy_of r)" "clean_policy (''P'', ''N'', Some ''T'')" by code_simp+
  from matrix_switches_agree [OF s this] s show ?thesis by blast
qed

text \<open>The switches of role-only scopes show what the server holds under a stricter discipline: with at
  most one request under way per role and scope, every switch without a request shows whether the
  server holds the grant, whatever fails.\<close>

theorem scope_switches_agree:
  assumes "run_machine (one_per (\<lambda>_. True) other_scope) (grant_step (scope_ops canWrite)) es
      (loaded_system (scopes_loaded answers) (scopes_held (scopes_loaded answers))) = Some s"
  shows "op_shown (scope_ops canWrite) (gs_panel s) k \<longleftrightarrow> (k \<in> set (gs_server s)) = (k \<notin> fst ` set (gs_pending s))"
  by (rule scope_panel.shows_what_is_held [OF assms TrueI])

theorem scope_switches_agree_witness:
  "\<exists>s. run_machine (one_per (\<lambda>_. True) other_scope) (grant_step (scope_ops True))
      [Clicked (''r'', ''DATA'', ''A''), Answered 0 False, Clicked (''r'', ''DATA'', ''B''), Answered 0 True]
      (loaded_system (scopes_loaded [(''r'', [(''DATA'', Some [])])]) (scopes_held (scopes_loaded [(''r'', [(''DATA'', Some [])])]))) = Some s
    \<and> (op_shown (scope_ops True) (gs_panel s) (''r'', ''DATA'', ''B'')
       \<longleftrightarrow> ((''r'', ''DATA'', ''B'') \<in> set (gs_server s)) = ((''r'', ''DATA'', ''B'') \<notin> fst ` set (gs_pending s)))"
proof -
  let ?run = "run_machine (one_per (\<lambda>_. True) other_scope) (grant_step (scope_ops True))
      [Clicked (''r'', ''DATA'', ''A''), Answered 0 False, Clicked (''r'', ''DATA'', ''B''), Answered 0 True]
      (loaded_system (scopes_loaded [(''r'', [(''DATA'', Some [])])]) (scopes_held (scopes_loaded [(''r'', [(''DATA'', Some [])])])))"
  have "?run \<noteq> None" by code_simp
  then obtain s where s: "?run = Some s" by blast
  from scope_switches_agree [OF s] s show ?thesis by blast
qed

text \<open>With two switches of one scope under way this fails, although one request per switch is enough for the
  other panels: the handler of a failed grant puts the whole set of its own click back, and a grant made
  meanwhile is no longer shown, while the server holds it.\<close>

theorem failed_grant_hides_neighbour:
  "(case run_machine (one_per (\<lambda>_. True) (\<noteq>)) (grant_step (scope_ops True))
      [Clicked (''r'', ''DATA'', ''A''), Clicked (''r'', ''DATA'', ''B''), Answered 1 True, Answered 0 False]
      (loaded_system (scopes_loaded [(''r'', [(''DATA'', Some [])])]) []) of
     Some s \<Rightarrow> gs_pending s = [] \<and> gs_server s = [(''r'', ''DATA'', ''B'')] \<and> scope_set (gs_panel s) ''r'' ''DATA'' = []
   | None \<Rightarrow> False)"
  by code_simp

text \<open>No panel disables a switch while its request is under way. Three quick clicks of which only the first
  fails leave a granted permission shown as not granted.\<close>

theorem quick_clicks_disagree:
  "(case run_machine (one_per (\<lambda>_. True) (\<lambda>_ _. True)) (grant_step (global_ops True))
      [Clicked (''r'', ''A''), Clicked (''r'', ''A''), Clicked (''r'', ''A''), Answered 0 False, Answered 0 True, Answered 0 True]
      (loaded_system (globals_loaded [(''r'', Some [])]) []) of
     Some s \<Rightarrow> gs_pending s = [] \<and> gs_server s = [(''r'', ''A'')] \<and> globals_of (gs_panel s) ''r'' = []
   | None \<Rightarrow> False)"
  by code_simp

text \<open>Without the right to write, no click changes or sends anything.\<close>

lemma nothing_allowed:
  assumes "\<And>p k. \<not> op_may ops p k"
  shows "run_machine (one_per valid apart) (grant_step ops) es (loaded_system p held) = Some s \<Longrightarrow> s = loaded_system p held"
proof (induction es)
  case (Cons e es)
  then show ?case by (cases e) (auto simp: assms loaded_system_def Let_def split: if_splits)
qed simp

lemma read_only_panels: "\<not> op_may (global_ops False) p1 k1" "\<not> op_may (scope_ops False) p2 k2"
  "\<not> op_may (policy_ops False roleId) p3 k3" "\<not> op_may (grant_ops False scopeCode roleId ps keyName) p4 k4"
  by (auto simp: global_ops_def scope_ops_def policy_ops_def grant_ops_def)

text \<open>The second table has one switch for a node type and a transition, and it is about the first permission
  of the scope LIFECYCLE: no other permission of that scope can be seen or granted.\<close>

theorem only_first_lifecycle_permission:
  "(perm, nt, tr) \<in> set (lifecycle_cells lcPerms nodeTypes transitions) \<Longrightarrow> perm = or_nil (permissionCode (hd lcPerms))"
  by (auto simp: lifecycle_cells_def mem_map_filter split: if_splits)

end
