(* ===== verification/Bootstrap.thy ===== *)
theory Bootstrap
  imports ApiEndpoints
begin

text \<open>
  The one-shot script that prepares the object store of the demo (\<open>garage/bootstrap.mjs\<close>): it waits for
  the admin API of Garage, gives the node a role, creates the bucket, imports the access key and grants
  it the bucket. Garage is a parameter \<open>srv\<close>: a state, and the answer to a request with the next state;
  \<open>parse\<close> is \<open>JSON.parse\<close>, None when it throws. The requests sent are recorded in order. What Garage
  documents of its API is the definition \<open>garage_laws\<close>.
\<close>

section \<open>Requests\<close>

record boot_env =
  be_admin :: string
  be_token :: string
  be_ak :: string
  be_sk :: string
  be_bucket :: string

datatype boot_error =
    EnvMissing string
  | HttpStatus string string nat
  | NetworkError
  | BadJson
  | NoProperty             \<comment> \<open>a \<open>TypeError\<close>: a property of \<open>null\<close> or \<open>undefined\<close>\<close>
  | NeverResponded

definition env_or :: "string \<Rightarrow> string \<Rightarrow> string jsobj \<Rightarrow> string" where
  "env_or name dflt env = (case obj_get env name of Some v \<Rightarrow> if v = [] then dflt else v | None \<Rightarrow> dflt)"

definition required :: "string \<Rightarrow> string jsobj \<Rightarrow> boot_error + string" where
  "required name env = (case obj_get env name of
     Some v \<Rightarrow> if v = [] then Inl (EnvMissing name) else Inr v | None \<Rightarrow> Inl (EnvMissing name))"

definition read_env :: "string jsobj \<Rightarrow> boot_error + boot_env" where
  "read_env env = (case required ''GARAGE_ADMIN_TOKEN'' env of Inl e \<Rightarrow> Inl e | Inr tok \<Rightarrow>
     (case required ''GARAGE_S3_ACCESS_KEY'' env of Inl e \<Rightarrow> Inl e | Inr ak \<Rightarrow>
     (case required ''GARAGE_S3_SECRET_KEY'' env of Inl e \<Rightarrow> Inl e | Inr sk \<Rightarrow>
       Inr \<lparr>be_admin = env_or ''GARAGE_ADMIN_URL'' ''http://garage:3903'' env, be_token = tok, be_ak = ak, be_sk = sk,
            be_bucket = env_or ''GARAGE_S3_BUCKET'' ''plm-dst'' env\<rparr>)))"

record garage_req =
  ga_method :: string
  ga_url :: string
  ga_headers :: "(string \<times> string) list"
  ga_body :: "json option"

datatype garage_reply = NoReply | Reply nat string

definition garage_request :: "boot_env \<Rightarrow> string \<Rightarrow> string \<Rightarrow> json option \<Rightarrow> garage_req" where
  "garage_request c method path body = \<lparr>ga_method = method, ga_url = be_admin c @ path,
     ga_headers = (''Authorization'', ''Bearer '' @ be_token c) # (if body = None then [] else [(''Content-Type'', ''application/json'')]),
     ga_body = body\<rparr>"

definition reply_ok :: "garage_reply \<Rightarrow> bool" where
  "reply_ok a = (case a of Reply status _ \<Rightarrow> 200 \<le> status \<and> status \<le> 299 | NoReply \<Rightarrow> False)"

type_synonym ('g, 'a) boot = "'g \<times> garage_req list \<Rightarrow> ('g \<times> garage_req list) \<times> (boot_error + 'a)"

definition boot_bind :: "('g, 'a) boot \<Rightarrow> ('a \<Rightarrow> ('g, 'b) boot) \<Rightarrow> ('g, 'b) boot" where
  "boot_bind m f s = (case m s of (s', Inl e) \<Rightarrow> (s', Inl e) | (s', Inr x) \<Rightarrow> f x s')"

definition boot_ret :: "'a \<Rightarrow> ('g, 'a) boot" where
  "boot_ret x s = (s, Inr x)"

definition boot_fail :: "boot_error \<Rightarrow> ('g, 'a) boot" where
  "boot_fail e s = (s, Inl e)"

definition garage_send :: "('g \<Rightarrow> garage_req \<Rightarrow> 'g \<times> garage_reply) \<Rightarrow> garage_req \<Rightarrow> ('g, garage_reply) boot" where
  "garage_send srv r s = (case srv (fst s) r of (g', a) \<Rightarrow> ((g', snd s @ [r]), Inr a))"

definition read_reply :: "(string \<Rightarrow> json option) \<Rightarrow> string \<Rightarrow> string \<Rightarrow> garage_reply \<Rightarrow> boot_error + json" where
  \<comment> \<open>\<open>api\<close> after the \<open>fetch\<close>\<close>
  "read_reply parse method path a = (case a of
     NoReply \<Rightarrow> Inl NetworkError
   | Reply status body \<Rightarrow>
       if \<not> reply_ok a then Inl (HttpStatus method path status)
       else if body = [] then Inr JNull
       else case parse body of Some v \<Rightarrow> Inr v | None \<Rightarrow> Inl BadJson)"

definition garage_api ::
  "('g \<Rightarrow> garage_req \<Rightarrow> 'g \<times> garage_reply) \<Rightarrow> (string \<Rightarrow> json option) \<Rightarrow> boot_env \<Rightarrow> string \<Rightarrow> string \<Rightarrow> json option \<Rightarrow> ('g, json) boot" where
  "garage_api srv parse c method path body =
     boot_bind (garage_send srv (garage_request c method path body)) (\<lambda>a s. (s, read_reply parse method path a))"

section \<open>The script\<close>

definition STATUS :: string where "STATUS = ''/v2/GetClusterStatus''"

definition status_request :: "boot_env \<Rightarrow> garage_req" where
  "status_request c = garage_request c ''GET'' STATUS None"

fun wait_ready :: "('g \<Rightarrow> garage_req \<Rightarrow> 'g \<times> garage_reply) \<Rightarrow> boot_env \<Rightarrow> nat \<Rightarrow> ('g, unit) boot" where
  \<comment> \<open>the waiting loop with the attempts that are left; the script makes at most 61\<close>
  "wait_ready srv c 0 = boot_fail NeverResponded"
| "wait_ready srv c (Suc n) = boot_bind (garage_send srv (status_request c)) (\<lambda>a. if reply_ok a then boot_ret () else wait_ready srv c n)"

definition get_prop :: "json option \<Rightarrow> string \<Rightarrow> boot_error + json option" where
  \<comment> \<open>\<open>v.k\<close>\<close>
  "get_prop v k = (if nullish v then Inl NoProperty else Inr (jprop v k))"

definition lift_boot :: "boot_error + 'a \<Rightarrow> ('g, 'a) boot" where
  "lift_boot x s = (s, x)"

definition first_node :: "json \<Rightarrow> boot_error + json option" where
  \<comment> \<open>\<open>status.nodes[0]\<close>; \<open>nodes\<close> is an array or missing\<close>
  "first_node status = (case get_prop (Some status) ''nodes'' of Inl e \<Rightarrow> Inl e | Inr ns \<Rightarrow> get_prop ns ''0'')"

definition next_version :: "json option \<Rightarrow> json" where
  \<comment> \<open>\<open>layoutVersion + 1\<close> of a number, \<open>null\<close> or \<open>undefined\<close>; NaN is sent as \<open>null\<close>\<close>
  "next_version v = (case v of Some (JNum n) \<Rightarrow> JNum (n + 1) | Some JNull \<Rightarrow> JNum 1 | _ \<Rightarrow> JNull)"

definition layout_body :: "json option \<Rightarrow> json" where
  "layout_body nodeId = JObj [(''roles'', JArr [obj_of [(''id'', nodeId), (''zone'', Some (JStr ''dc1'')),
     (''capacity'', Some (JNum 1000000000)), (''tags'', Some (JArr []))]])]"

definition assign_layout ::
  "('g \<Rightarrow> garage_req \<Rightarrow> 'g \<times> garage_reply) \<Rightarrow> (string \<Rightarrow> json option) \<Rightarrow> boot_env \<Rightarrow> json option \<Rightarrow> json option \<Rightarrow> json option \<Rightarrow> ('g, unit) boot" where
  "assign_layout srv parse c nd nodeId layoutVersion =
     (if nullish (jprop nd ''role'')
      then boot_bind (garage_api srv parse c ''POST'' ''/v2/UpdateClusterLayout'' (Some (layout_body nodeId))) (\<lambda>_.
           boot_bind (garage_api srv parse c ''POST'' ''/v2/ApplyClusterLayout'' (Some (JObj [(''version'', next_version layoutVersion)]))) (\<lambda>_.
           boot_ret ()))
      else boot_ret ())"

definition has_alias :: "string \<Rightarrow> json \<Rightarrow> bool" where
  \<comment> \<open>\<open>(b.globalAliases || []).includes(BUCKET)\<close>; the aliases are an array\<close>
  "has_alias bucket b = (case jprop (Some b) ''globalAliases'' of Some (JArr vs) \<Rightarrow> JStr bucket \<in> set vs | _ \<Rightarrow> False)"

definition find_bucket :: "string \<Rightarrow> json \<Rightarrow> boot_error + json option" where
  \<comment> \<open>\<open>buckets.find(...)?.id\<close>; the entries are objects\<close>
  "find_bucket bucket buckets = (case buckets of
     JArr bs \<Rightarrow> Inr (case find (has_alias bucket) bs of Some b \<Rightarrow> jprop (Some b) ''id'' | None \<Rightarrow> None)
   | _ \<Rightarrow> Inl NoProperty)"

definition ensure_bucket ::
  "('g \<Rightarrow> garage_req \<Rightarrow> 'g \<times> garage_reply) \<Rightarrow> (string \<Rightarrow> json option) \<Rightarrow> boot_env \<Rightarrow> ('g, json option) boot" where
  "ensure_bucket srv parse c =
     boot_bind (garage_api srv parse c ''GET'' ''/v2/ListBuckets'' None) (\<lambda>buckets.
     boot_bind (lift_boot (find_bucket (be_bucket c) buckets)) (\<lambda>bucketId.
     if truthy bucketId then boot_ret bucketId
     else boot_bind (garage_api srv parse c ''POST'' ''/v2/CreateBucket'' (Some (JObj [(''globalAlias'', JStr (be_bucket c))])))
            (\<lambda>made. lift_boot (get_prop (Some made) ''id''))))"

definition key_path :: "boot_env \<Rightarrow> string" where
  "key_path c = ''/v2/GetKeyInfo?id='' @ encodeURIComponent (be_ak c)"

definition ensure_key ::
  "('g \<Rightarrow> garage_req \<Rightarrow> 'g \<times> garage_reply) \<Rightarrow> (string \<Rightarrow> json option) \<Rightarrow> boot_env \<Rightarrow> ('g, unit) boot" where
  \<comment> \<open>the \<open>catch\<close> takes every failure of the look-up for a missing key\<close>
  "ensure_key srv parse c s =
     (case garage_api srv parse c ''GET'' (key_path c) None s of
        (s', Inr _) \<Rightarrow> (s', Inr ())
      | (s', Inl _) \<Rightarrow> boot_bind (garage_api srv parse c ''POST'' ''/v2/ImportKey''
            (Some (JObj [(''accessKeyId'', JStr (be_ak c)), (''secretAccessKey'', JStr (be_sk c)), (''name'', JStr ''dst'')]))) (\<lambda>_. boot_ret ()) s')"

definition grant_bucket ::
  "('g \<Rightarrow> garage_req \<Rightarrow> 'g \<times> garage_reply) \<Rightarrow> (string \<Rightarrow> json option) \<Rightarrow> boot_env \<Rightarrow> json option \<Rightarrow> ('g, json) boot" where
  "grant_bucket srv parse c bucketId =
     garage_api srv parse c ''POST'' ''/v2/AllowBucketKey'' (Some (obj_of [(''bucketId'', bucketId), (''accessKeyId'', Some (JStr (be_ak c))),
       (''permissions'', Some (JObj [(''read'', JBool True), (''write'', JBool True), (''owner'', JBool True)]))]))"

definition bootstrap ::
  "('g \<Rightarrow> garage_req \<Rightarrow> 'g \<times> garage_reply) \<Rightarrow> (string \<Rightarrow> json option) \<Rightarrow> boot_env \<Rightarrow> ('g, unit) boot" where
  "bootstrap srv parse c =
     boot_bind (wait_ready srv c 61) (\<lambda>_.
     boot_bind (garage_api srv parse c ''GET'' STATUS None) (\<lambda>status.
     boot_bind (lift_boot (first_node status)) (\<lambda>nd.
     boot_bind (lift_boot (get_prop nd ''id'')) (\<lambda>nodeId.
     boot_bind (assign_layout srv parse c nd nodeId (jprop (Some status) ''layoutVersion'')) (\<lambda>_.
     boot_bind (ensure_bucket srv parse c) (\<lambda>bucketId.
     boot_bind (ensure_key srv parse c) (\<lambda>_.
     boot_bind (grant_bucket srv parse c bucketId) (\<lambda>_. boot_ret ()))))))))"

definition main :: "('g \<Rightarrow> garage_req \<Rightarrow> 'g \<times> garage_reply) \<Rightarrow> (string \<Rightarrow> json option) \<Rightarrow> string jsobj \<Rightarrow> ('g, unit) boot" where
  "main srv parse env = boot_bind (lift_boot (read_env env)) (bootstrap srv parse)"

section \<open>What Garage promises\<close>

text \<open>What the script relies on: the node has a role, the bucket exists, the key exists. No request of the
  script takes any of it away; an answer in the 200 range means that the request was carried out, and an
  answer to a query tells how things are. A key that exists is found.\<close>

record garage_view =
  gv_assigned :: bool
  gv_bucket :: bool
  gv_key :: bool

definition keeps :: "garage_view \<Rightarrow> garage_view \<Rightarrow> bool" where
  "keeps v v' \<longleftrightarrow> (gv_assigned v \<longrightarrow> gv_assigned v') \<and> (gv_bucket v \<longrightarrow> gv_bucket v') \<and> (gv_key v \<longrightarrow> gv_key v')"

definition list_request :: "boot_env \<Rightarrow> garage_req" where
  "list_request c = garage_request c ''GET'' ''/v2/ListBuckets'' None"

definition key_request :: "boot_env \<Rightarrow> garage_req" where
  "key_request c = garage_request c ''GET'' (key_path c) None"

definition grant_bucket_request :: "boot_env \<Rightarrow> json option \<Rightarrow> garage_req" where
  "grant_bucket_request c bucketId = garage_request c ''POST'' ''/v2/AllowBucketKey'' (Some (obj_of [(''bucketId'', bucketId),
     (''accessKeyId'', Some (JStr (be_ak c))),
     (''permissions'', Some (JObj [(''read'', JBool True), (''write'', JBool True), (''owner'', JBool True)]))]))"

definition reply_law :: "(string \<Rightarrow> json option) \<Rightarrow> boot_env \<Rightarrow> garage_req \<Rightarrow> garage_view \<Rightarrow> garage_reply \<Rightarrow> bool" where
  \<comment> \<open>what the answer to a request says of the state after it\<close>
  "reply_law parse c r v a \<longleftrightarrow>
     (reply_ok a \<longrightarrow>
        (\<forall>st nd. r = status_request c \<longrightarrow> read_reply parse ''GET'' STATUS a = Inr st \<longrightarrow> first_node st = Inr nd \<longrightarrow>
           \<not> nullish (jprop nd ''role'') \<longleftrightarrow> gv_assigned v)
      \<and> (\<forall>bs b. r = list_request c \<longrightarrow> read_reply parse ''GET'' ''/v2/ListBuckets'' a = Inr bs \<longrightarrow> find_bucket (be_bucket c) bs = Inr b \<longrightarrow>
           truthy b \<longleftrightarrow> gv_bucket v)
      \<and> (\<forall>b. r = garage_request c ''POST'' ''/v2/ApplyClusterLayout'' b \<longrightarrow> gv_assigned v)
      \<and> (\<forall>b. r = garage_request c ''POST'' ''/v2/CreateBucket'' b \<longrightarrow> gv_bucket v)
      \<and> (\<forall>b. r = garage_request c ''POST'' ''/v2/ImportKey'' b \<longrightarrow> gv_key v)
      \<and> (r = key_request c \<longrightarrow> gv_key v))"

definition garage_laws ::
  "('g \<Rightarrow> garage_req \<Rightarrow> 'g \<times> garage_reply) \<Rightarrow> (string \<Rightarrow> json option) \<Rightarrow> ('g \<Rightarrow> garage_view) \<Rightarrow> boot_env \<Rightarrow> bool" where
  "garage_laws srv parse view c \<longleftrightarrow>
     (\<forall>g r. case srv g r of (g', a) \<Rightarrow> keeps (view g) (view g') \<and> reply_law parse c r (view g') a
        \<and> (r = key_request c \<and> gv_key (view g) \<longrightarrow> (\<exists>v. read_reply parse ''GET'' (key_path c) a = Inr v)))"

section \<open>Running the script\<close>

lemma boot_bindE:
  assumes "boot_bind m f s = (s', x)"
  obtains (stop) e where "m s = (s', Inl e)" "x = Inl e"
  | (go) s1 y where "m s = (s1, Inr y)" "f y s1 = (s', x)"
  using assms by (auto simp: boot_bind_def split: prod.splits sum.splits)

lemma garage_api_run [simp]: "garage_api srv parse c method path body (g, trail) =
  ((fst (srv g (garage_request c method path body)), trail @ [garage_request c method path body]),
   read_reply parse method path (snd (srv g (garage_request c method path body))))"
  by (simp add: garage_api_def boot_bind_def garage_send_def split: prod.splits)

lemma read_reply_ok: "read_reply parse method path a = Inr v \<Longrightarrow> reply_ok a"
  by (auto simp: read_reply_def split: garage_reply.splits if_splits)

definition grows :: "('g \<Rightarrow> garage_view) \<Rightarrow> ('g, 'a) boot \<Rightarrow> bool" where
  "grows view m \<longleftrightarrow> (\<forall>g t g' t' x. m (g, t) = ((g', t'), x) \<longrightarrow> keeps (view g) (view g'))"

lemma growsD: "grows view m \<Longrightarrow> m (g, t) = ((g', t'), x) \<Longrightarrow> keeps (view g) (view g')"
  unfolding grows_def by blast

lemma keeps_refl [simp]: "keeps v v"
  by (simp add: keeps_def)

lemma keeps_trans: "keeps u v \<Longrightarrow> keeps v w \<Longrightarrow> keeps u w"
  by (auto simp: keeps_def)

lemma grows_bind [intro]:
  assumes "grows view m" "\<And>x. grows view (f x)"
  shows "grows view (boot_bind m f)"
  unfolding grows_def
proof (intro allI impI)
  fix g t g' t' x
  assume "boot_bind m f (g, t) = ((g', t'), x)"
  then show "keeps (view g) (view g')"
  proof (cases rule: boot_bindE)
    case (go s1 y)
    obtain g1 t1 where s1: "s1 = (g1, t1)" by fastforce
    show ?thesis using growsD [OF assms(1) go(1) [unfolded s1]] growsD [OF assms(2) go(2) [unfolded s1]] by (rule keeps_trans)
  qed (use growsD [OF assms(1)] in blast)
qed

lemma grows_pure [intro, simp]: "grows view (boot_ret x)" "grows view (boot_fail e)" "grows view (lift_boot r)"
  by (simp_all add: grows_def boot_ret_def boot_fail_def lift_boot_def)

lemma garage_law:
  assumes "garage_laws srv parse view c"
  shows "keeps (view g) (view (fst (srv g r)))" "reply_law parse c r (view (fst (srv g r))) (snd (srv g r))"
    "r = key_request c \<Longrightarrow> gv_key (view g) \<Longrightarrow> \<exists>v. read_reply parse ''GET'' (key_path c) (snd (srv g r)) = Inr v"
  using assms [unfolded garage_laws_def, rule_format, of g r] by (auto split: prod.splits)

lemma grows_send: "garage_laws srv parse view c \<Longrightarrow> grows view (garage_send srv r)"
  unfolding grows_def garage_send_def by (metis (no_types, lifting) case_prod_beta fst_conv garage_law(1))

lemma grows_api: "garage_laws srv parse view c \<Longrightarrow> grows view (garage_api srv parse c method path body)"
  unfolding grows_def by (auto intro: garage_law(1))

lemma grows_wait: "garage_laws srv parse view c \<Longrightarrow> grows view (wait_ready srv c n)"
  by (induction n) (auto intro!: grows_send)

lemma grows_if: "grows view a \<Longrightarrow> grows view b \<Longrightarrow> grows view (if P then a else b)"
  by simp

lemma grows_script:
  assumes "garage_laws srv parse view c"
  shows "grows view (assign_layout srv parse c nd nodeId version)" "grows view (ensure_bucket srv parse c)"
    "grows view (ensure_key srv parse c)" "grows view (grant_bucket srv parse c b)"
proof -
  note api = grows_api [OF assms]
  show "grows view (assign_layout srv parse c nd nodeId version)" unfolding assign_layout_def by (intro grows_if grows_bind api grows_pure)
  show "grows view (ensure_bucket srv parse c)" unfolding ensure_bucket_def by (intro grows_if grows_bind api grows_pure)
  show "grows view (grant_bucket srv parse c b)" by (simp add: grant_bucket_def api)
  show "grows view (ensure_key srv parse c)"
    using keeps_trans [OF garage_law(1) [OF assms] garage_law(1) [OF assms]] garage_law(1) [OF assms]
    by (auto simp: grows_def ensure_key_def boot_bind_def boot_ret_def split: sum.splits)
qed

lemma boot_bind_InrE:
  assumes "boot_bind m f s = (s', Inr x)"
  obtains g1 t1 y where "m s = ((g1, t1), Inr y)" "f y (g1, t1) = (s', Inr x)"
  using assms by (auto simp: boot_bind_def split: prod.splits sum.splits)

lemma boot_bind_lift: "boot_bind (lift_boot r) f s = (case r of Inl e \<Rightarrow> (s, Inl e) | Inr x \<Rightarrow> f x s)"
  by (simp add: boot_bind_def lift_boot_def split: sum.splits)

lemma reply_facts:
  assumes l: "garage_laws srv parse view c" and r: "read_reply parse method path (snd (srv g r)) = Inr v"
  shows "r = garage_request c ''POST'' ''/v2/ApplyClusterLayout'' b \<Longrightarrow> gv_assigned (view (fst (srv g r)))"
    "r = garage_request c ''POST'' ''/v2/CreateBucket'' b \<Longrightarrow> gv_bucket (view (fst (srv g r)))"
    "r = garage_request c ''POST'' ''/v2/ImportKey'' b \<Longrightarrow> gv_key (view (fst (srv g r)))"
    "r = key_request c \<Longrightarrow> gv_key (view (fst (srv g r)))"
  using garage_law(2) [OF l, of r g] read_reply_ok [OF r] unfolding reply_law_def by blast+

definition ready :: "garage_view \<Rightarrow> bool" where
  "ready v \<longleftrightarrow> gv_assigned v \<and> gv_bucket v \<and> gv_key v"

lemma assign_layout_done:
  assumes l: "garage_laws srv parse view c" "\<not> nullish (jprop nd ''role'') \<longleftrightarrow> gv_assigned (view g)"
    and r: "assign_layout srv parse c nd nodeId version (g, t) = ((g', t'), Inr u)"
  shows "gv_assigned (view g')"
proof (cases "nullish (jprop nd ''role'')")
  case True
  with r show ?thesis unfolding assign_layout_def
    by (auto simp: boot_ret_def elim!: boot_bind_InrE intro: reply_facts(1) [OF l(1) _ refl])
qed (use l(2) r in \<open>simp add: assign_layout_def boot_ret_def\<close>)

lemma ensure_bucket_done:
  assumes l: "garage_laws srv parse view c" and r: "ensure_bucket srv parse c (g, t) = ((g', t'), Inr b)"
  shows "gv_bucket (view g')"
proof -
  let ?g1 = "fst (srv g (list_request c))"
  from r obtain bs bid where bs: "read_reply parse ''GET'' ''/v2/ListBuckets'' (snd (srv g (list_request c))) = Inr bs" "find_bucket (be_bucket c) bs = Inr bid"
    and rest: "(if truthy bid then boot_ret bid
      else boot_bind (garage_api srv parse c ''POST'' ''/v2/CreateBucket'' (Some (JObj [(''globalAlias'', JStr (be_bucket c))])))
            (\<lambda>made. lift_boot (get_prop (Some made) ''id''))) (?g1, t @ [list_request c]) = ((g', t'), Inr b)"
    unfolding ensure_bucket_def by (elim boot_bind_InrE) (auto simp: lift_boot_def list_request_def)
  have "truthy bid \<longleftrightarrow> gv_bucket (view ?g1)"
    using garage_law(2) [OF l, of "list_request c" g] bs read_reply_ok [OF bs(1)] unfolding reply_law_def by blast
  with rest show ?thesis
    by (cases "truthy bid") (auto simp: boot_ret_def lift_boot_def elim!: boot_bind_InrE intro: reply_facts(2) [OF l _ refl])
qed

lemma ensure_key_done:
  assumes l: "garage_laws srv parse view c" and r: "ensure_key srv parse c (g, t) = ((g', t'), Inr u)"
  shows "gv_key (view g')"
proof (cases "read_reply parse ''GET'' (key_path c) (snd (srv g (key_request c)))")
  case (Inl e)
  with r show ?thesis unfolding ensure_key_def
    by (auto simp: key_request_def boot_ret_def elim!: boot_bind_InrE intro: reply_facts(3) [OF l _ refl])
next
  case (Inr v)
  with r reply_facts(4) [OF l Inr refl] show ?thesis by (simp add: ensure_key_def key_request_def)
qed

definition finish :: "('g \<Rightarrow> garage_req \<Rightarrow> 'g \<times> garage_reply) \<Rightarrow> (string \<Rightarrow> json option) \<Rightarrow> boot_env \<Rightarrow> json option \<Rightarrow> ('g, unit) boot" where
  \<comment> \<open>the end of the script, from the bucket on\<close>
  "finish srv parse c bucketId = boot_bind (ensure_key srv parse c) (\<lambda>_. boot_bind (grant_bucket srv parse c bucketId) (\<lambda>_. boot_ret ()))"

definition resume :: "('g \<Rightarrow> garage_req \<Rightarrow> 'g \<times> garage_reply) \<Rightarrow> (string \<Rightarrow> json option) \<Rightarrow> boot_env \<Rightarrow> json \<Rightarrow> ('g, unit) boot" where
  \<comment> \<open>the script from the status on\<close>
  "resume srv parse c status = boot_bind (lift_boot (first_node status)) (\<lambda>nd. boot_bind (lift_boot (get_prop nd ''id'')) (\<lambda>nodeId.
     boot_bind (assign_layout srv parse c nd nodeId (jprop (Some status) ''layoutVersion'')) (\<lambda>_.
     boot_bind (ensure_bucket srv parse c) (finish srv parse c))))"

lemma bootstrap_resume: "bootstrap srv parse c = boot_bind (wait_ready srv c 61) (\<lambda>_. boot_bind (garage_api srv parse c ''GET'' STATUS None) (resume srv parse c))"
  by (simp add: bootstrap_def resume_def [abs_def] finish_def [abs_def])

lemma finish_ready:
  assumes l: "garage_laws srv parse view c" and v: "gv_assigned (view g)" "gv_bucket (view g)"
    and r: "finish srv parse c b (g, t) = ((g', t'), Inr u)"
  shows "ready (view g')"
proof -
  obtain g1 t1 u1 where r1: "ensure_key srv parse c (g, t) = ((g1, t1), Inr u1)"
    and r2: "boot_bind (grant_bucket srv parse c b) (\<lambda>_. boot_ret ()) (g1, t1) = ((g', t'), Inr u)"
    using r [unfolded finish_def] by (rule boot_bind_InrE)
  have "keeps (view g) (view g1)" "keeps (view g1) (view g')"
    using growsD [OF grows_script(3) [OF l] r1] growsD [OF grows_bind [OF grows_script(4) [OF l] grows_pure(1)] r2] .
  with v ensure_key_done [OF l r1] show ?thesis by (auto simp: ready_def keeps_def)
qed

lemma resume_ready:
  assumes l: "garage_laws srv parse view c" and st: "read_reply parse ''GET'' STATUS (snd (srv g (status_request c))) = Inr st"
    and r: "resume srv parse c st (fst (srv g (status_request c)), t) = ((g', t'), Inr u)"
  shows "ready (view g')"
proof -
  let ?g = "fst (srv g (status_request c))"
  obtain nd nodeId where nd: "first_node st = Inr nd"
    and r1: "boot_bind (assign_layout srv parse c nd nodeId (jprop (Some st) ''layoutVersion'')) (\<lambda>_. boot_bind (ensure_bucket srv parse c) (finish srv parse c)) (?g, t)
      = ((g', t'), Inr u)"
    using r unfolding resume_def by (cases "first_node st"; cases "get_prop (projr (first_node st)) ''id''") (simp_all add: boot_bind_lift)
  obtain g1 t1 u1 where a: "assign_layout srv parse c nd nodeId (jprop (Some st) ''layoutVersion'') (?g, t) = ((g1, t1), Inr u1)"
    and r2: "boot_bind (ensure_bucket srv parse c) (finish srv parse c) (g1, t1) = ((g', t'), Inr u)"
    using r1 by (rule boot_bind_InrE)
  obtain g2 t2 b where e: "ensure_bucket srv parse c (g1, t1) = ((g2, t2), Inr b)" and f: "finish srv parse c b (g2, t2) = ((g', t'), Inr u)"
    using r2 by (rule boot_bind_InrE)
  have "\<not> nullish (jprop nd ''role'') \<longleftrightarrow> gv_assigned (view ?g)"
    using garage_law(2) [OF l, of "status_request c" g] st nd read_reply_ok [OF st] unfolding reply_law_def by blast
  then have "gv_assigned (view g1)" using assign_layout_done [OF l _ a] by blast
  moreover have "keeps (view g1) (view g2)" by (rule growsD [OF grows_script(2) [OF l] e])
  ultimately show ?thesis using finish_ready [OF l _ ensure_bucket_done [OF l e] f] by (simp add: keeps_def)
qed

lemma bootstrap_ready:
  assumes l: "garage_laws srv parse view c" and r: "bootstrap srv parse c (g, t) = ((g', t'), Inr u)"
  shows "ready (view g')"
proof -
  obtain g1 t1 u1 where "boot_bind (garage_api srv parse c ''GET'' STATUS None) (resume srv parse c) (g1, t1) = ((g', t'), Inr u)"
    using r [unfolded bootstrap_resume] by (rule boot_bind_InrE)
  then obtain g2 t2 st where "garage_api srv parse c ''GET'' STATUS None (g1, t1) = ((g2, t2), Inr st)" "resume srv parse c st (g2, t2) = ((g', t'), Inr u)"
    by (rule boot_bind_InrE)
  then show ?thesis using resume_ready [OF l, of g1] by (auto simp: status_request_def)
qed

section \<open>The second run\<close>

lemma wait_trail: "wait_ready srv c n (g, t) = ((g', t'), x) \<Longrightarrow> \<exists>k\<le>n. t' = t @ replicate k (status_request c)"
proof (induction n arbitrary: g t)
  case (Suc n)
  obtain g1 a where a: "srv g (status_request c) = (g1, a)" by fastforce
  show ?case
  proof (cases "reply_ok a")
    case True
    then show ?thesis using Suc.prems a by (intro exI [of _ 1]) (auto simp: boot_bind_def garage_send_def boot_ret_def)
  next
    case False
    then have "wait_ready srv c n (g1, t @ [status_request c]) = ((g', t'), x)" using Suc.prems a by (simp add: boot_bind_def garage_send_def)
    from Suc.IH [OF this] obtain k where "k \<le> n" "t' = t @ replicate (Suc k) (status_request c)" by auto
    then show ?thesis by (intro exI [of _ "Suc k"]) simp
  qed
qed (simp add: boot_fail_def)

text \<open>Not a single answer of the first 61 attempts in the 200 range, and the script gives up.\<close>

lemma wait_gives_up:
  assumes "\<And>g. \<not> reply_ok (snd (srv g (status_request c)))"
  shows "\<exists>g'. wait_ready srv c n (g, t) = ((g', t @ replicate n (status_request c)), Inl NeverResponded)"
proof (induction n arbitrary: g t)
  case (Suc n)
  obtain g1 a where a: "srv g (status_request c) = (g1, a)" by fastforce
  with assms [of g] have "\<not> reply_ok a" by simp
  with a Suc.IH [of g1 "t @ [status_request c]"] show ?case by (auto simp: boot_bind_def garage_send_def)
qed (simp add: boot_fail_def)

lemma finish_again:
  assumes l: "garage_laws srv parse view c" and v: "gv_key (view g)" and r: "finish srv parse c b (g, t) = ((g', t'), x)"
  shows "t' = t @ [key_request c, grant_bucket_request c b]"
proof -
  obtain v where "read_reply parse ''GET'' (key_path c) (snd (srv g (key_request c))) = Inr v" using garage_law(3) [OF l refl v] by blast
  then have "ensure_key srv parse c (g, t) = ((fst (srv g (key_request c)), t @ [key_request c]), Inr ())"
    by (simp add: ensure_key_def key_request_def)
  with r show ?thesis unfolding finish_def
    by (auto simp: boot_bind_def grant_bucket_def grant_bucket_request_def boot_ret_def split: sum.splits)
qed

lemma ensure_bucket_again:
  assumes l: "garage_laws srv parse view c" and v: "gv_bucket (view g)" and r: "ensure_bucket srv parse c (g, t) = ((g', t'), x)"
  shows "t' = t @ [list_request c]"
proof (cases "read_reply parse ''GET'' ''/v2/ListBuckets'' (snd (srv g (list_request c)))")
  case (Inr bs)
  have "gv_bucket (view (fst (srv g (list_request c))))" using v garage_law(1) [OF l, of g "list_request c"] by (simp add: keeps_def)
  with Inr have "find_bucket (be_bucket c) bs = Inr b \<Longrightarrow> truthy b" for b
    using garage_law(2) [OF l, of "list_request c" g] read_reply_ok [OF Inr] unfolding reply_law_def by blast
  with Inr r show ?thesis unfolding ensure_bucket_def
    by (cases "find_bucket (be_bucket c) bs") (auto simp: boot_bind_def [of "garage_api srv parse c _ _ _"] boot_bind_lift boot_ret_def list_request_def)
qed (use r in \<open>auto simp: ensure_bucket_def boot_bind_def list_request_def\<close>)

lemma resume_again:
  assumes l: "garage_laws srv parse view c" and v: "ready (view g)"
    and st: "read_reply parse ''GET'' STATUS (snd (srv g (status_request c))) = Inr st"
    and r: "resume srv parse c st (fst (srv g (status_request c)), t) = ((g', t'), x)"
  shows "\<exists>b rest. t' @ rest = t @ [list_request c, key_request c, grant_bucket_request c b] \<and> (x = Inr () \<longrightarrow> rest = [])"
proof -
  let ?g = "fst (srv g (status_request c))"
  have k: "keeps (view g) (view ?g)" by (rule garage_law(1) [OF l])
  show ?thesis
  proof (cases "first_node st")
    case (Inl e)
    with r show ?thesis by (auto simp: resume_def boot_bind_lift)
  next
    case (Inr nd)
    have "\<not> nullish (jprop nd ''role'')"
      using garage_law(2) [OF l, of "status_request c" g] st Inr read_reply_ok [OF st] v k unfolding reply_law_def ready_def keeps_def by blast
    with r Inr have r2: "(case get_prop nd ''id'' of Inl e \<Rightarrow> ((?g, t), Inl e)
        | Inr _ \<Rightarrow> boot_bind (ensure_bucket srv parse c) (finish srv parse c) (?g, t)) = ((g', t'), x)"
      by (simp add: resume_def boot_bind_lift assign_layout_def boot_bind_def [of "boot_ret ()"] boot_ret_def split: sum.splits)
    obtain g1 t1 y where e: "ensure_bucket srv parse c (?g, t) = ((g1, t1), y)" by (metis surj_pair)
    have t1: "t1 = t @ [list_request c]" using ensure_bucket_again [OF l _ e] v k by (simp add: ready_def keeps_def)
    have key: "gv_key (view g1)" using growsD [OF grows_script(2) [OF l] e] v k by (simp add: ready_def keeps_def)
    show ?thesis
    proof (cases "get_prop nd ''id''")
      case (Inr nodeId)
      with r2 e have "(case y of Inl e \<Rightarrow> ((g1, t1), Inl e) | Inr b \<Rightarrow> finish srv parse c b (g1, t1)) = ((g', t'), x)"
        by (simp add: boot_bind_def split: sum.splits)
      then show ?thesis
      proof (cases y)
        case (Inr b)
        with \<open>(case y of Inl e \<Rightarrow> ((g1, t1), Inl e) | Inr b \<Rightarrow> finish srv parse c b (g1, t1)) = ((g', t'), x)\<close>
        have "t' = t @ [list_request c, key_request c, grant_bucket_request c b]" using finish_again [OF l key] t1 by fastforce
        then show ?thesis by (intro exI [of _ b] exI [of _ "[]"]) simp
      qed (use t1 in auto)
    qed (use r2 in auto)
  qed
qed


definition demo_env :: boot_env where
  "demo_env = \<lparr>be_admin = ''h'', be_token = ''t'', be_ak = ''k'', be_sk = ''s'', be_bucket = ''b''\<rparr>"

definition demo_parse :: "string \<Rightarrow> json option" where
  "demo_parse t = map_of
     [(''A'', JObj [(''nodes'', JArr [JObj [(''id'', JStr ''n''), (''role'', JStr ''r'')]]), (''layoutVersion'', JNum 1)]),
      (''N'', JObj [(''nodes'', JArr [JObj [(''id'', JStr ''n'')]]), (''layoutVersion'', JNum 0)]),
      (''B'', JArr [JObj [(''id'', JStr ''i''), (''globalAliases'', JArr [JStr ''b''])]]), (''E'', JArr []), (''C'', JObj [(''id'', JStr ''i'')])] t"

definition demo_garage :: "garage_view \<Rightarrow> garage_req \<Rightarrow> garage_view \<times> garage_reply" where
  "demo_garage g r =
     (if ga_url r = ''h/v2/GetClusterStatus'' then (g, Reply 200 (if gv_assigned g then ''A'' else ''N''))
      else if ga_url r = ''h/v2/ListBuckets'' then (g, Reply 200 (if gv_bucket g then ''B'' else ''E''))
      else if ga_url r = ''h/v2/GetKeyInfo?id=k'' then (g, if gv_key g then Reply 200 [] else Reply 404 [])
      else if ga_url r = ''h/v2/ApplyClusterLayout'' then (g\<lparr>gv_assigned := True\<rparr>, Reply 200 [])
      else if ga_url r = ''h/v2/CreateBucket'' then (g\<lparr>gv_bucket := True\<rparr>, Reply 200 ''C'')
      else if ga_url r = ''h/v2/ImportKey'' then (g\<lparr>gv_key := True\<rparr>, Reply 200 [])
      else (g, Reply 200 []))"

lemma demo_laws: "garage_laws demo_garage demo_parse (\<lambda>g. g) demo_env"
proof -
  have zero: "digits_of_nat 0 = ''0''" by code_simp
  have u: "ga_url (garage_request demo_env m p b) = ''h'' @ p" for m p b by (simp add: garage_request_def demo_env_def)
  have k: "key_path demo_env = ''/v2/GetKeyInfo?id=k''" by (simp add: key_path_def demo_env_def encodeURIComponent_def encode_char_def uri_unreserved_def)
  have "keeps g (fst (demo_garage g r)) \<and> reply_law demo_parse demo_env r (fst (demo_garage g r)) (snd (demo_garage g r))
      \<and> (r = key_request demo_env \<and> gv_key g \<longrightarrow> (\<exists>v. read_reply demo_parse ''GET'' (key_path demo_env) (snd (demo_garage g r)) = Inr v))" for g r
    by (auto simp: demo_garage_def keeps_def reply_law_def status_request_def list_request_def key_request_def u k STATUS_def reply_ok_def
      read_reply_def demo_parse_def first_node_def get_prop_def nullish_def jprop_def obj_get_def array_entries_def zero
      find_bucket_def has_alias_def truthy_def demo_env_def [THEN arg_cong [where f = be_bucket]])
  then show ?thesis by (auto simp: garage_laws_def split: prod.splits) (metis fst_conv snd_conv)+
qed


text \<open>The \<open>catch\<close> around the look-up of the key takes every failure for a missing key: when the look-up of a
  key that exists fails for another reason, the script imports the key once more, and Garage, which
  refuses a key it has, ends the run before the grant.\<close>

definition busy_garage :: "garage_view \<Rightarrow> garage_req \<Rightarrow> garage_view \<times> garage_reply" where
  "busy_garage g r = (if ga_url r = ''h/v2/GetKeyInfo?id=k'' then (g, Reply 503 [])
     else if ga_url r = ''h/v2/ImportKey'' \<and> gv_key g then (g, Reply 409 []) else demo_garage g r)"

theorem failed_lookup_imports_again:
  "snd (bootstrap busy_garage demo_parse demo_env (\<lparr>gv_assigned = True, gv_bucket = True, gv_key = True\<rparr>, []))
     = Inl (HttpStatus ''POST'' ''/v2/ImportKey'' 409)"
  by code_simp

end
