(* ===== verification/MetaForms.thy ===== *)
theory MetaForms
  imports ApiEndpoints
begin

text \<open>
  The forms of the node type editor (\<open>NodeTypesSection\<close> of \<open>frontend/src/components/SettingsPage.jsx\<close>, and
  the rule of its newer copy in \<open>psm-admin/ui/src/settings.jsx\<close> for when a form may be saved):
  what each form is opened with, when it may be saved, the calls a save makes, what is loaded after it,
  and the form of a link type with the dependence of its target on its source. \<open>num\<close> is \<open>Number\<close> of a
  text that is not empty, None for NaN, which JSON sends as \<open>null\<close>.
\<close>

section \<open>Fields of a form\<close>

type_synonym form = "json jsobj"

definition trimmed :: "form \<Rightarrow> string \<Rightarrow> json option" where
  \<comment> \<open>\<open>form.k?.trim()\<close>; the field is a text or missing\<close>
  "trimmed f k = (case obj_get f k of Some (JStr s) \<Rightarrow> Some (JStr (trim s)) | _ \<Rightarrow> None)"

definition or_null_field :: "json option \<Rightarrow> json option" where
  "or_null_field v = js_or v (Some JNull)"

definition field_or :: "form \<Rightarrow> string \<Rightarrow> string \<Rightarrow> json option" where
  "field_or f k dflt = js_or (obj_get f k) (Some (JStr dflt))"

definition flag :: "form \<Rightarrow> string \<Rightarrow> json option" where
  "flag f k = Some (JBool (truthy (obj_get f k)))"

definition sent_number :: "(string \<Rightarrow> int option) \<Rightarrow> json option \<Rightarrow> json" where
  \<comment> \<open>\<open>Number(v)\<close> as JSON sends it\<close>
  "sent_number num v = (case v of
     Some (JNum n) \<Rightarrow> JNum n | Some JNull \<Rightarrow> JNum 0
   | Some (JStr s) \<Rightarrow> if trim s = [] then JNum 0 else (case num s of Some n \<Rightarrow> JNum n | None \<Rightarrow> JNull)
   | _ \<Rightarrow> JNull)"

definition order_field :: "(string \<Rightarrow> int option) \<Rightarrow> form \<Rightarrow> json option" where
  "order_field num f = Some (if obj_get f ''displayOrder'' = Some (JStr []) then JNum 0 else sent_number num (obj_get f ''displayOrder''))"

section \<open>Bodies\<close>

definition attr_fields :: "(string \<Rightarrow> int option) \<Rightarrow> form \<Rightarrow> (string \<times> json option) list" where
  \<comment> \<open>the fields that the bodies of \<open>create-attr\<close> and \<open>edit-attr\<close> share\<close>
  "attr_fields num f =
     [(''label'', trimmed f ''label''), (''dataType'', field_or f ''dataType'' ''STRING''), (''widgetType'', field_or f ''widgetType'' ''TEXT''),
      (''required'', flag f ''required''), (''asName'', flag f ''asName''),
      (''enumDefinitionId'', if obj_get f ''dataType'' = Some (JStr ''ENUM'') then or_null_field (obj_get f ''enumDefinitionId'') else Some JNull),
      (''displaySection'', or_null_field (trimmed f ''displaySection'')), (''displayOrder'', order_field num f),
      (''defaultValue'', or_null_field (trimmed f ''defaultValue'')), (''namingRegex'', or_null_field (trimmed f ''namingRegex'')),
      (''allowedValues'', if obj_get f ''dataType'' = Some (JStr ''ENUM'') then Some JNull else or_null_field (trimmed f ''allowedValues'')),
      (''tooltip'', or_null_field (trimmed f ''tooltip''))]"

definition link_target :: "form \<Rightarrow> json option" where
  "link_target f = (if field_or f ''targetSourceId'' ''SELF'' = Some (JStr ''SELF'')
     then or_null_field (obj_get f ''targetNodeTypeId'') else or_null_field (obj_get f ''targetType''))"

definition number_or_zero :: "json \<Rightarrow> json" where
  \<comment> \<open>\<open>Number(v) || 0\<close>\<close>
  "number_or_zero v = (case v of JNum n \<Rightarrow> JNum n | _ \<Rightarrow> JNum 0)"

definition create_link_body :: "(string \<Rightarrow> int option) \<Rightarrow> string \<Rightarrow> form \<Rightarrow> json" where
  "create_link_body num nodeTypeId f = obj_of
     [(''name'', trimmed f ''name''), (''sourceNodeTypeId'', Some (JStr nodeTypeId)), (''targetSourceId'', field_or f ''targetSourceId'' ''SELF''),
      (''targetType'', link_target f), (''linkPolicy'', field_or f ''linkPolicy'' ''VERSION_TO_MASTER''),
      (''minCardinality'', Some (number_or_zero (sent_number num (obj_get f ''minCardinality'')))),
      (''maxCardinality'', Some (if obj_get f ''maxCardinality'' = Some (JStr []) then JNull else sent_number num (obj_get f ''maxCardinality''))),
      (''color'', or_null_field (obj_get f ''color''))]"

definition edit_link_body :: "(string \<Rightarrow> int option) \<Rightarrow> form \<Rightarrow> json" where
  "edit_link_body num f = obj_of
     [(''name'', trimmed f ''name''), (''description'', or_null_field (trimmed f ''description'')), (''linkPolicy'', field_or f ''linkPolicy'' ''VERSION_TO_MASTER''),
      (''minCardinality'', Some (number_or_zero (sent_number num (obj_get f ''minCardinality'')))),
      (''maxCardinality'', Some (if obj_get f ''maxCardinality'' = Some (JStr []) \<or> nullish (obj_get f ''maxCardinality'') then JNull
         else sent_number num (obj_get f ''maxCardinality''))),
      (''color'', or_null_field (obj_get f ''color'')), (''targetSourceId'', field_or f ''targetSourceId'' ''SELF''), (''targetNodeTypeId'', link_target f)]"

section \<open>Saving\<close>

datatype meta_modal =
    CreateNodeTypeForm
  | EditIdentity string
  | EditAppearance string
  | EditLifecycle string
  | EditVersioning string
  | CreateAttr string
  | EditAttr string string
  | CreateLink string
  | EditLink string string       \<comment> \<open>node type and link type\<close>
  | EditParent string

fun save_calls :: "(string \<Rightarrow> int option) \<Rightarrow> meta_modal \<Rightarrow> form \<Rightarrow> nodetype_call list" where
  \<comment> \<open>\<open>handleSave\<close> up to the answers; two calls are made together\<close>
  "save_calls num CreateNodeTypeForm f = [CreateNodeType (Some (obj_of
     [(''name'', trimmed f ''name''), (''description'', or_null_field (trimmed f ''description'')), (''lifecycleId'', or_null_field (obj_get f ''lifecycleId'')),
      (''numberingScheme'', field_or f ''numberingScheme'' ''ALPHA_NUMERIC''), (''versionPolicy'', field_or f ''versionPolicy'' ''ITERATE''),
      (''color'', or_null_field (obj_get f ''color'')), (''icon'', or_null_field (obj_get f ''icon'')),
      (''parentNodeTypeId'', or_null_field (obj_get f ''parentNodeTypeId''))]))]"
| "save_calls num (EditIdentity nt) f = [UpdateNodeTypeIdentity nt (Some (obj_of
     [(''logicalIdLabel'', field_or f ''logicalIdLabel'' ''Identifier''), (''logicalIdPattern'', or_null_field (trimmed f ''logicalIdPattern''))]))]"
| "save_calls num (EditAppearance nt) f = [UpdateNodeTypeAppearance nt (or_null_field (obj_get f ''color'')) (or_null_field (obj_get f ''icon''))]"
| "save_calls num (EditLifecycle nt) f = [UpdateNodeTypeLifecycle nt (or_null_field (obj_get f ''lifecycleId''))]"
| "save_calls num (EditVersioning nt) f =
     [UpdateNodeTypeNumberingScheme nt (field_or f ''numberingScheme'' ''ALPHA_NUMERIC''), UpdateNodeTypeVersionPolicy nt (field_or f ''versionPolicy'' ''ITERATE'')]"
| "save_calls num (CreateAttr nt) f = [CreateAttribute nt (Some (obj_of ((''name'', trimmed f ''name'') # attr_fields num f)))]"
| "save_calls num (EditAttr nt attrId) f = [UpdateAttribute nt attrId (Some (obj_of (attr_fields num f)))]"
| "save_calls num (CreateLink nt) f = [CreateLinkType (Some (create_link_body num nt f))]"
| "save_calls num (EditLink nt lt) f = [UpdateLinkType lt (Some (edit_link_body num f))]"
| "save_calls num (EditParent nt) f = [UpdateNodeTypeParent nt (or_null_field (obj_get f ''parentNodeTypeId''))]"

datatype reload = ReloadTypes | ReloadAttrs string | ReloadLinks string

fun reload_after :: "meta_modal \<Rightarrow> reload" where
  "reload_after (CreateAttr nt) = ReloadAttrs nt"
| "reload_after (EditAttr nt attrId) = ReloadAttrs nt"
| "reload_after (CreateLink nt) = ReloadLinks nt"
| "reload_after (EditLink nt lt) = ReloadLinks nt"
| "reload_after _ = ReloadTypes"

fun collapses :: "meta_modal \<Rightarrow> bool" where
  \<comment> \<open>\<open>setExpanded(null)\<close> after the reload\<close>
  "collapses (EditIdentity nt) = True"
| "collapses (EditAppearance nt) = True"
| "collapses (EditLifecycle nt) = True"
| "collapses (EditVersioning nt) = True"
| "collapses (EditParent nt) = True"
| "collapses _ = False"

record node_types =
  mt_types :: "json list"
  mt_expanded :: "string option"
  mt_attrs :: "json list jsobj"
  mt_links :: "json list jsobj"
  mt_modal :: "meta_modal option"
  mt_form :: form
  mt_saving :: bool

definition open_meta :: "meta_modal \<Rightarrow> form \<Rightarrow> node_types \<Rightarrow> node_types" where
  "open_meta m defaults s = s\<lparr>mt_form := defaults, mt_modal := Some m\<rparr>"

definition close_meta :: "node_types \<Rightarrow> node_types" where
  "close_meta s = s\<lparr>mt_modal := None, mt_form := []\<rparr>"

definition blank :: "form \<Rightarrow> string \<Rightarrow> bool" where
  \<comment> \<open>\<open>!form.k?.trim()\<close>\<close>
  "blank f k \<longleftrightarrow> \<not> truthy (trimmed f k)"

fun form_blocked :: "meta_modal \<Rightarrow> form \<Rightarrow> bool" where
  "form_blocked CreateNodeTypeForm f = blank f ''name''"
| "form_blocked (CreateAttr nt) f = (blank f ''name'' \<or> blank f ''label'')"
| "form_blocked (EditAttr nt attrId) f = blank f ''label''"
| "form_blocked (CreateLink nt) f = (blank f ''name'' \<or> \<not> truthy (obj_get f ''targetNodeTypeId''))"
| "form_blocked (EditLink nt lt) f = blank f ''name''"
| "form_blocked _ f = False"

fun admin_form_blocked :: "meta_modal \<Rightarrow> form \<Rightarrow> bool" where
  \<comment> \<open>the rule of the plugin, whose forms have a code as well\<close>
  "admin_form_blocked CreateNodeTypeForm f = (blank f ''code'' \<or> blank f ''name'')"
| "admin_form_blocked (CreateLink nt) f = (blank f ''code'' \<or> blank f ''name'' \<or> \<not> truthy (obj_get f ''targetNodeTypeId''))"
| "admin_form_blocked m f = form_blocked m f"

definition saveDisabled :: "node_types \<Rightarrow> bool" where
  "saveDisabled s \<longleftrightarrow> (case mt_modal s of None \<Rightarrow> True | Some m \<Rightarrow> mt_saving s \<or> form_blocked m (mt_form s))"

text \<open>The page computes \<open>saveDisabled\<close> and does not use it: its modal is given \<open>saving\<close> alone. The editor of the
  plugin gives its modal \<open>saveDisabled()\<close>.\<close>

definition save_starts :: "(string \<Rightarrow> int option) \<Rightarrow> node_types \<Rightarrow> node_types \<times> nodetype_call list" where
  "save_starts num s = (case mt_modal s of
     Some m \<Rightarrow> if mt_saving s then (s, []) else (s\<lparr>mt_saving := True\<rparr>, save_calls num m (mt_form s))
   | None \<Rightarrow> (s, []))"

definition rows_of :: "json option \<Rightarrow> json list" where
  \<comment> \<open>\<open>Array.isArray(d) ? d : []\<close>\<close>
  "rows_of d = (case d of Some (JArr vs) \<Rightarrow> vs | _ \<Rightarrow> [])"

definition save_succeeds :: "meta_modal \<Rightarrow> json option \<Rightarrow> node_types \<Rightarrow> node_types" where
  \<comment> \<open>the calls and the reload after them have been answered\<close>
  "save_succeeds m d s =
     (let s1 = (case reload_after m of
           ReloadTypes \<Rightarrow> s\<lparr>mt_types := rows_of d\<rparr>
         | ReloadAttrs nt \<Rightarrow> s\<lparr>mt_attrs := obj_put nt (rows_of d) (mt_attrs s)\<rparr>
         | ReloadLinks nt \<Rightarrow> s\<lparr>mt_links := obj_put nt (rows_of d) (mt_links s)\<rparr>);
          s2 = (if collapses m then s1\<lparr>mt_expanded := None\<rparr> else s1)
      in (close_meta s2)\<lparr>mt_saving := False\<rparr>)"

definition meta_save_failed :: "node_types \<Rightarrow> node_types" where
  "meta_save_failed s = s\<lparr>mt_saving := False\<rparr>"

definition expand_type :: "string \<Rightarrow> node_types \<Rightarrow> node_types \<times> bool \<times> bool" where
  \<comment> \<open>and whether the attributes and the links are fetched\<close>
  "expand_type nt s = (if mt_expanded s = Some nt then (s\<lparr>mt_expanded := None\<rparr>, False, False)
     else (s\<lparr>mt_expanded := Some nt\<rparr>, obj_get (mt_attrs s) nt = None, obj_get (mt_links s) nt = None))"

section \<open>The form of a new link type\<close>

definition open_link_form :: "string \<Rightarrow> form" where
  \<comment> \<open>the defaults; \<open>first\<close> is the id of the first node type, or empty\<close>
  "open_link_form first = [(''linkPolicy'', JStr ''VERSION_TO_MASTER''), (''minCardinality'', JStr ''0''), (''targetSourceId'', JStr ''SELF''),
     (''targetNodeTypeId'', JStr first)]"

datatype link_event =
    FieldTyped string string      \<comment> \<open>name, policy, cardinalities and colour\<close>
  | SourcePicked string
  | NodeTypePicked string
  | TargetTyped string

definition own_source :: "form \<Rightarrow> bool" where
  \<comment> \<open>\<open>!form.targetSourceId || form.targetSourceId === 'SELF'\<close>: the node types are offered\<close>
  "own_source f \<longleftrightarrow> \<not> truthy (obj_get f ''targetSourceId'') \<or> obj_get f ''targetSourceId'' = Some (JStr ''SELF'')"

fun link_step :: "link_event \<Rightarrow> form \<Rightarrow> form" where
  "link_step (FieldTyped k v) f = obj_put k (JStr v) f"
| "link_step (SourcePicked v) f = obj_put ''targetType'' (JStr []) (obj_put ''targetNodeTypeId'' (JStr []) (obj_put ''targetSourceId'' (JStr v) f))"
| "link_step (NodeTypePicked v) f = obj_put ''targetNodeTypeId'' (JStr v) f"
| "link_step (TargetTyped v) f = obj_put ''targetType'' (JStr v) f"

fun link_enabled :: "link_event \<Rightarrow> form \<Rightarrow> bool" where
  "link_enabled (FieldTyped k v) f \<longleftrightarrow> k \<in> {''code'', ''name'', ''linkPolicy'', ''minCardinality'', ''maxCardinality'', ''color''}"
| "link_enabled (SourcePicked v) f \<longleftrightarrow> True"
| "link_enabled (NodeTypePicked v) f \<longleftrightarrow> own_source f"
| "link_enabled (TargetTyped v) f \<longleftrightarrow> \<not> own_source f"

definition target_inv :: "form \<Rightarrow> bool" where
  "target_inv f \<longleftrightarrow> own_source f \<or> obj_get f ''targetNodeTypeId'' = Some (JStr [])"

interpretation link_form: machine_invariant link_enabled link_step "open_link_form first" "\<lambda>_. target_inv" for first
proof unfold_locales
  show "target_inv (open_link_form first)" by (simp add: target_inv_def own_source_def open_link_form_def obj_get_def)
  show "target_inv f \<Longrightarrow> link_enabled e f \<Longrightarrow> target_inv (link_step e f)" for e f
    by (cases e) (auto simp: target_inv_def own_source_def)
qed

text \<open>In the editor of the plugin a link to a type of another source cannot be created: choosing a source
  empties the node type, which is then no longer offered, and without one the form stays blocked, however
  it is filled in, although a save would send the type name that was typed.\<close>

theorem foreign_link_blocked:
  assumes "run_machine link_enabled link_step es (open_link_form first) = Some f" "\<not> own_source f"
  shows "admin_form_blocked (CreateLink nt) f" "link_target f = or_null_field (obj_get f ''targetType'')"
proof -
  have "target_inv f" by (rule link_form.holds [OF assms(1)])
  with assms(2) show "admin_form_blocked (CreateLink nt) f" by (simp add: target_inv_def truthy_def)
  show "link_target f = or_null_field (obj_get f ''targetType'')"
    using assms(2) by (auto simp: link_target_def field_or_def own_source_def js_or_def)
qed

text \<open>On the page nothing is blocked: a form that \<open>saveDisabled\<close> refuses is sent when its button is pressed,
  for example a node type without a name.\<close>

theorem refused_form_is_sent:
  assumes "mt_modal s = Some CreateNodeTypeForm" "blank (mt_form s) ''name''" "\<not> mt_saving s"
  shows "saveDisabled s \<and> snd (save_starts num s) = save_calls num CreateNodeTypeForm (mt_form s)"
  using assms by (simp add: saveDisabled_def save_starts_def)

section \<open>An attribute edited without a change\<close>

definition attr_column :: "json \<Rightarrow> string \<Rightarrow> json option" where
  \<comment> \<open>\<open>a.data_type || a.DATA_TYPE\<close>\<close>
  "attr_column a k = js_or (jprop (Some a) k) (jprop (Some a) (toUpperCase k))"

definition or_text :: "json option \<Rightarrow> string \<Rightarrow> json" where
  "or_text v dflt = (if truthy v then the v else JStr dflt)"

definition or_empty_text :: "json option \<Rightarrow> json" where
  \<comment> \<open>\<open>v ?? ''\<close>\<close>
  "or_empty_text v = (if nullish v then JStr [] else the v)"

definition attr_edit_form :: "json \<Rightarrow> form" where
  \<comment> \<open>what the form of an attribute is opened with; an attribute has a name\<close>
  "attr_edit_form a =
     [(''name'', or_text (attr_column a ''name'') []), (''label'', or_text (js_or (attr_column a ''label'') (attr_column a ''name'')) []),
      (''dataType'', or_text (attr_column a ''data_type'') ''STRING''), (''widgetType'', or_text (attr_column a ''widget_type'') ''TEXT''),
      (''required'', JBool (truthy (attr_column a ''required''))), (''asName'', JBool (truthy (attr_column a ''as_name''))),
      (''enumDefinitionId'', if truthy (attr_column a ''enum_definition_id'') then the (attr_column a ''enum_definition_id'') else JNull),
      (''displaySection'', or_text (attr_column a ''display_section'') []),
      (''displayOrder'', or_empty_text (js_coalesce (jprop (Some a) ''display_order'') (jprop (Some a) ''DISPLAY_ORDER''))),
      (''defaultValue'', or_text (attr_column a ''default_value'') []), (''namingRegex'', or_text (attr_column a ''naming_regex'') []),
      (''allowedValues'', or_text (attr_column a ''allowed_values'') []), (''tooltip'', or_text (attr_column a ''tooltip'') [])]"

record attribute =
  at_name :: string
  at_label :: string
  at_dataType :: string
  at_widgetType :: string
  at_required :: bool
  at_asName :: bool
  at_enum :: "string option"
  at_section :: "string option"
  at_order :: int
  at_default :: "string option"
  at_regex :: "string option"
  at_allowed :: "string option"
  at_tooltip :: "string option"

definition text_or_null :: "string option \<Rightarrow> json" where
  "text_or_null v = (case v of Some s \<Rightarrow> JStr s | None \<Rightarrow> JNull)"

definition attr_row :: "attribute \<Rightarrow> json" where
  "attr_row d = JObj [(''name'', JStr (at_name d)), (''label'', JStr (at_label d)), (''data_type'', JStr (at_dataType d)), (''widget_type'', JStr (at_widgetType d)),
     (''required'', JBool (at_required d)), (''as_name'', JBool (at_asName d)), (''enum_definition_id'', text_or_null (at_enum d)),
     (''display_section'', text_or_null (at_section d)), (''display_order'', JNum (at_order d)), (''default_value'', text_or_null (at_default d)),
     (''naming_regex'', text_or_null (at_regex d)), (''allowed_values'', text_or_null (at_allowed d)), (''tooltip'', text_or_null (at_tooltip d))]"

definition attr_wire :: "attribute \<Rightarrow> json" where
  "attr_wire d = JObj [(''label'', JStr (at_label d)), (''dataType'', JStr (at_dataType d)), (''widgetType'', JStr (at_widgetType d)),
     (''required'', JBool (at_required d)), (''asName'', JBool (at_asName d)), (''enumDefinitionId'', text_or_null (at_enum d)),
     (''displaySection'', text_or_null (at_section d)), (''displayOrder'', JNum (at_order d)), (''defaultValue'', text_or_null (at_default d)),
     (''namingRegex'', text_or_null (at_regex d)), (''allowedValues'', text_or_null (at_allowed d)), (''tooltip'', text_or_null (at_tooltip d))]"

definition neat :: "string option \<Rightarrow> bool" where
  "neat v \<longleftrightarrow> (\<forall>s. v = Some s \<longrightarrow> s \<noteq> [] \<and> trim s = s)"

definition neat_attribute :: "attribute \<Rightarrow> bool" where
  "neat_attribute d \<longleftrightarrow> neat (Some (at_label d)) \<and> at_dataType d \<noteq> [] \<and> at_widgetType d \<noteq> []
     \<and> (case at_enum d of Some e \<Rightarrow> e \<noteq> [] \<and> at_dataType d = ''ENUM'' | None \<Rightarrow> True)
     \<and> neat (at_section d) \<and> neat (at_default d) \<and> neat (at_regex d) \<and> neat (at_tooltip d)
     \<and> neat (at_allowed d) \<and> (at_dataType d = ''ENUM'' \<longrightarrow> at_allowed d = None)"

lemma obj_get_Cons: "obj_get ((k, v) # ob) k' = (if k' = k then Some v else obj_get ob k')"
  by (simp add: obj_get_def)

lemma truthy_text: "truthy (Some (JStr s)) = (s \<noteq> [])"
  by (simp add: truthy_def)

lemma neat_cases: "neat v \<Longrightarrow> (v = None \<Longrightarrow> P) \<Longrightarrow> (\<And>s. v = Some s \<Longrightarrow> s \<noteq> [] \<Longrightarrow> trim s = s \<Longrightarrow> P) \<Longrightarrow> P"
  by (cases v) (auto simp: neat_def)

lemma row_columns:
  assumes "neat_attribute d"
  shows "attr_column (attr_row d) ''label'' = Some (JStr (at_label d))" "attr_column (attr_row d) ''data_type'' = Some (JStr (at_dataType d))"
    "attr_column (attr_row d) ''widget_type'' = Some (JStr (at_widgetType d))"
    "truthy (attr_column (attr_row d) ''required'') = at_required d" "truthy (attr_column (attr_row d) ''as_name'') = at_asName d"
    "jprop (Some (attr_row d)) ''display_order'' = Some (JNum (at_order d))"
  using assms by (auto simp: neat_attribute_def neat_def attr_column_def attr_row_def jprop_def obj_get_Cons js_or_def truthy_def toUpperCase_def upper_char_def)

lemma row_options:
  assumes "neat_attribute d"
  shows "or_text (attr_column (attr_row d) ''display_section'') [] = JStr (or_nil (at_section d))" "or_text (attr_column (attr_row d) ''default_value'') [] = JStr (or_nil (at_default d))"
    "or_text (attr_column (attr_row d) ''naming_regex'') [] = JStr (or_nil (at_regex d))" "or_text (attr_column (attr_row d) ''allowed_values'') [] = JStr (or_nil (at_allowed d))"
    "or_text (attr_column (attr_row d) ''tooltip'') [] = JStr (or_nil (at_tooltip d))"
    "(if truthy (attr_column (attr_row d) ''enum_definition_id'') then the (attr_column (attr_row d) ''enum_definition_id'') else JNull) = text_or_null (at_enum d)"
  using assms by (auto simp: neat_attribute_def neat_def attr_column_def attr_row_def jprop_def obj_get_Cons js_or_def truthy_def text_or_null_def or_text_def
    toUpperCase_def upper_char_def split: option.splits)

lemma null_option: "neat v \<Longrightarrow> or_null_field (case Some (JStr (or_nil v)) of Some (JStr s) \<Rightarrow> Some (JStr (trim s)) | _ \<Rightarrow> None) = Some (text_or_null v)"
  by (auto elim!: neat_cases simp: or_null_field_def js_or_def truthy_def text_or_null_def)

text \<open>Opening the form of an attribute and saving it unchanged sends the attribute as it is, for an attribute
  as these forms write them: texts trimmed and either filled or missing, an enumeration only with the
  type ENUM, and allowed values only without it.\<close>

theorem unchanged_attribute_sent_back:
  assumes "neat_attribute d"
  shows "\<not> form_blocked (EditAttr nt attrId) (attr_edit_form (attr_row d))
    \<and> save_calls num (EditAttr nt attrId) (attr_edit_form (attr_row d)) = [UpdateAttribute nt attrId (Some (attr_wire d))]"
proof -
  let ?f = "attr_edit_form (attr_row d)"
  note cols = row_columns [OF assms] row_options [OF assms]
  have t: "at_label d \<noteq> []" "trim (at_label d) = at_label d" "at_dataType d \<noteq> []" "at_widgetType d \<noteq> []"
    using assms by (auto simp: neat_attribute_def neat_def)
  have get: "obj_get ?f ''label'' = Some (JStr (at_label d))" "obj_get ?f ''dataType'' = Some (JStr (at_dataType d))"
    "obj_get ?f ''widgetType'' = Some (JStr (at_widgetType d))" "obj_get ?f ''required'' = Some (JBool (at_required d))"
    "obj_get ?f ''asName'' = Some (JBool (at_asName d))" "obj_get ?f ''enumDefinitionId'' = Some (text_or_null (at_enum d))"
    "obj_get ?f ''displaySection'' = Some (JStr (or_nil (at_section d)))" "obj_get ?f ''displayOrder'' = Some (JNum (at_order d))"
    "obj_get ?f ''defaultValue'' = Some (JStr (or_nil (at_default d)))" "obj_get ?f ''namingRegex'' = Some (JStr (or_nil (at_regex d)))"
    "obj_get ?f ''allowedValues'' = Some (JStr (or_nil (at_allowed d)))" "obj_get ?f ''tooltip'' = Some (JStr (or_nil (at_tooltip d)))"
    using t by (simp_all add: attr_edit_form_def obj_get_Cons cols js_or_def truthy_text or_text_def [of "Some _"] js_coalesce_def nullish_def or_empty_text_def)
  have opts: "neat (at_section d)" "neat (at_default d)" "neat (at_regex d)" "neat (at_tooltip d)" "neat (at_allowed d)"
    using assms by (simp_all add: neat_attribute_def)
  have e: "(if at_dataType d = ''ENUM'' then or_null_field (Some (text_or_null (at_enum d))) else Some JNull) = Some (text_or_null (at_enum d))"
    using assms by (auto simp: neat_attribute_def or_null_field_def js_or_def truthy_def text_or_null_def split: option.splits)
  have a: "(if at_dataType d = ''ENUM'' then Some JNull else or_null_field (trimmed ?f ''allowedValues'')) = Some (text_or_null (at_allowed d))"
    using assms null_option [OF opts(5)] by (auto simp: trimmed_def get neat_attribute_def text_or_null_def)
  have "save_calls num (EditAttr nt attrId) ?f = [UpdateAttribute nt attrId (Some (attr_wire d))]"
    using e a null_option [OF opts(1)] null_option [OF opts(2)] null_option [OF opts(3)] null_option [OF opts(4)] t
    by (cases "at_dataType d = ''ENUM''") (simp_all add: attr_fields_def attr_wire_def obj_of_def List.map_filter_def get trimmed_def field_or_def flag_def order_field_def sent_number_def js_or_def truthy_def)
  moreover have "\<not> form_blocked (EditAttr nt attrId) ?f" using t by (simp add: blank_def trimmed_def get truthy_def)
  ultimately show ?thesis by blast
qed

text \<open>The form of a new attribute is opened without an order, and the body tests for the empty text only: an
  attribute added without an order is sent with \<open>null\<close> instead of 0.\<close>

definition open_attr_form :: form where
  "open_attr_form = [(''dataType'', JStr ''STRING''), (''widgetType'', JStr ''TEXT''), (''required'', JBool False), (''asName'', JBool False)]"

theorem new_attribute_without_order:
  "order_field num (obj_put ''label'' (JStr label) (obj_put ''name'' (JStr name) open_attr_form)) = Some JNull"
  by (simp add: order_field_def sent_number_def open_attr_form_def obj_get_Cons obj_get_def obj_put_def)

text \<open>What was fetched of a type stays: opening it again fetches nothing, so an attribute added to its parent is
  not shown, also after the types were loaded again.\<close>

lemma fetched_once:
  "obj_get (mt_attrs s) nt \<noteq> None \<Longrightarrow> obj_get (mt_links s) nt \<noteq> None \<Longrightarrow> snd (expand_type nt (s\<lparr>mt_types := ts\<rparr>)) = (False, False)"
  by (simp add: expand_type_def)

end
