(* ===== verification/Spec2Isabelle.thy ===== *)
theory Spec2Isabelle
  imports StepSplit ConvertPool Catia ApiEndpoints ApiCalls CadService MeshCache WsClient AppShell ShellPlugins ShellState NavTree PluginApis Diagram Comments ProductScene NodeEdit Forms SearchPanel Viewer AccessRights Bootstrap MetaForms
begin

text \<open>
  A verification library for plm-core: the JavaScript of its CAD service and of its browser client.

  The program. plm-core is a product-lifecycle platform. Its JavaScript has two halves and a script. The CAD
  service \<open>cad-parser\<close> (Node) reads STEP and CATIA files: it lists the bill of materials of an
  assembly, splits an assembly into one STEP file per part, and converts parts to binary glTF in a
  pool of worker threads. The browser client \<open>frontend\<close> (React) talks to the platform's services
  through one gateway, keeps a store of what it knows, shows items in tabs, listens to server events
  on a shared web socket, loads 3D parts in workers of its own, and lets remote plugins extend its
  shell. The two halves meet in the glTF files, and in the CAD service's HTTP routes. The script
  \<open>garage/bootstrap.mjs\<close> prepares the object store of the demo.

  The model of JavaScript. Prelude holds the values: strings and buffers as lists of 8-bit units,
  \<open>Set\<close> as a distinct list in insertion order, an object used as a dictionary as an association list
  with the enumeration order of ECMAScript. JsRegex is the backtracking semantics of the regular
  expressions of the sources, JsValue the JSON values with truthiness, \<open>??\<close>, \<open>||\<close>, property access
  and percent encoding. \<open>undefined\<close> is None. Exceptions are values (an option, or a sum with the
  error). A mutable closure or module state is a record that operations return updated. A function
  that awaits is cut where it waits: the part before returns the request, the part after takes the
  answer. Concurrency is then the order in which the events of a component arrive: the locale
  \<open>machine_invariant\<close> of Prelude carries an invariant over every such order. AppShell, CadService,
  WsClient, NavTree, NodeEdit, Forms, SearchPanel, Viewer, MetaForms and, through the locale
  \<open>optimistic\<close>, AccessRights interpret it; ConvertPool and MeshCache have step relations of their own.

  The CAD service, theory by theory.
    StepScan (\<open>step-scan.js\<close>): the streaming scanner \<open>scanStep\<close> with its chunk buffer, and
      \<open>readEntitiesAt\<close>. It is shown to simulate a one-pass reading of the whole file.
    StepLib, StepGraph, StepMatrix (\<open>step-lib.js\<close>): argument splitting, entity and type indexes and
      the reference graphs; the closures of a part and the renumbering writer; placements. The locale
      \<open>forward_closure\<close> of StepGraph is what the callers of a closure rely on; it is interpreted on
      both closure functions.
    StepBom (\<open>app.js\<close>, \<open>POST /parse\<close>): the structural pass, geometry on demand, the node tree.
    StepSplit (\<open>app.js\<close>, \<open>worker-split.js\<close>, \<open>POST /split\<close>): index, part closures, byte-range tables,
      distribution over workers, and the copying of ranges.
    ConvertPool (\<open>convert-pool.js\<close>): the worker pool as a state machine.
    Catia (\<open>app.js\<close>): the CATIA V5 reader, for every size of the call stack.
    CadService (\<open>app.js\<close>, message handler of \<open>worker-convert.js\<close>): the routes and the job store, over
      the parsers and the pool above.
    Glb (\<open>worker-convert.js\<close>, \<open>stepWorker.js\<close>): writer and reader of binary glTF.

  The browser client.
    ApiStats, ApiClient, ApiEndpoints, ApiCalls (\<open>services/apiStats.js\<close>, \<open>services/api.js\<close>): call
      statistics; session, request core and error path; the endpoint tables; the calls with logic of
      their own.
    MeshCache (\<open>workers/stepWorker.js\<close>, \<open>stepWorkerInstance.js\<close>): merging by colour, the chunked
      download, the byte-bounded cache with its load pipeline, routing by hash.
    WsClient (\<open>hooks/useWebSocket.js\<close>): the shared socket.
    PlmStore (\<open>store/usePlmStore.js\<close>): the store; AppShell (\<open>App.jsx\<close>): tabs, item data, server events.
    ShellPlugins, ShellState (\<open>shell/\<close>, \<open>services/\<close>): plugin registries and loader; event bus, panel
      store, item identities, descriptor cache.
    NavTree (\<open>components/NavPanel.jsx\<close>, \<open>NavSection.jsx\<close>, \<open>NavShell.jsx\<close>, \<open>BrowseNav.jsx\<close>, the link row of
      \<open>psm-api/ui/src/nav.jsx\<close>): what the navigation panel shows for the tabs and the basket, the link
      tree, paged lists.
    PluginApis (\<open>psaApi.js\<close>, \<open>psmApi.js\<close>, \<open>dstApi.js\<close> of the plugins): their service clients, compared
      with the shell's own, and their descriptor caches.
    Diagram (\<open>components/LifecycleDiagram.jsx\<close>): the geometry of the lifecycle diagram.
    Comments (\<open>components/CommentPanel.jsx\<close>): reply trees, mentions, completion.
    ProductScene, NodeEdit (\<open>psm-api/ui/src/NodeEditor.jsx\<close>): the unfolding of a product into placed STEP
      files; automatic save, history, comparison and actions of the node editor.
    Forms (\<open>CommitModal.jsx\<close>, \<open>CreateResourceModal.jsx\<close>, \<open>GenericDetailEditor.jsx\<close>, \<open>ApiPlayground.jsx\<close>):
      what is committed, the validation and submission of a creation, merged fields, example requests.
    SearchPanel, Viewer (\<open>SearchPanel.jsx\<close>, \<open>StepViewer.jsx\<close>): filters, searches and their answers; the parts
      in the scene, their loading and placement, and the exploded view.
    RightsCard, AccessRights, MetaForms (\<open>components/SettingsPage.jsx\<close>): the catalogue of permissions and the
      card of a role; the switches of its four panels, with the locale \<open>optimistic\<close> as the contract of a
      panel that shows a change before the server has confirmed it; the forms of the node type editor.

  The script.
    Bootstrap (\<open>garage/bootstrap.mjs\<close>): every request, failure and early end, over any Garage; what it
      relies on of the admin API is the definition \<open>garage_laws\<close>.

  What the theorems show. The numbered properties are the promises of the components: refinement of
  an abstract reading (scanner, basket, grants), exactness of the closures and of the geometry fetch, round
  trips (part files, argument text, glTF, encoded paths), invariants over every order of events (pool,
  cache, tabs, jobs, sockets), bounds, and error behaviour. Where the code does not do what it means
  to, the theory states what it does as a theorem of its own, after a text block that says so
  (for example \<open>scanStep_split_opener\<close>, \<open>cache_counts_twice\<close>, \<open>failed_grant_hides_neighbour\<close>).

  Bounds and fuel. The scanner loop is a \<open>partial_function (option)\<close>, shown to return on every state
  it reaches; the walk up a chain of node types is one too, and does not return on a cyclic chain
  (\<open>cyclic_parents_never_return\<close>). The work lists are functions with a termination proof (every entry
  pushed is new to a finite set of graph values); the unfolding of a product and the example of a schema
  recurse over a depth the code bounds. The waiting loop of the script counts down its 61 attempts. The
  only fuel is the number of stack frames of Catia, where the theorems speak of every size. Byte sizes of
  glTF files are bounded by the 32-bit fields of the format; the round trip asks for less than one
  gigabyte of document and of data.

  Parameters. What is not under \<open>src/\<close> is an argument of the definitions that use it: the network,
  IndexedDB, the XML parser, OCCT, \<open>randomUUID\<close>, \<open>JSON.stringify\<close> and \<open>JSON.parse\<close>, UTF-8 decoding,
  the arithmetic of doubles, \<open>Number\<close> and \<open>parseFloat\<close> of a text, patterns the server gives, the collation
  of \<open>localeCompare\<close>, the order in which concurrent branches end, Garage, the code of remote plugins.

  Not modelled. The services in Java, Rust, Go and Zig (this library is about the JavaScript). The
  settings sections that are tables and forms over one endpoint each, whose requests are those of
  ApiEndpoints. The page frame (header, status bar, dashboard, panels), the placement editor and the
  rendering of the React components, their styles and icons, and three.js scenes: they are markup
  and calls into packages. Bundles and copies of packages (\<open>dist\<close>, \<open>target\<close>, static \<open>ui\<close>
  directories, \<open>.pnp\<close> files). Log, console and progress output. Test scripts and build configuration.
\<close>

end
